(* ===== verification/Prelude.thy ===== *)
theory Prelude
  imports Main
begin

text \<open>
  Shared vocabulary of the development.

  \<^item> Time: a monotonic instant and a duration are natural numbers of nanoseconds
    (\<open>tokio::time::Instant\<close>, \<open>std::time::Duration\<close>). \<open>Instant::duration_since\<close> and
    \<open>elapsed\<close> saturate at zero, as subtraction on \<^typ>\<open>nat\<close> does.
  \<^item> Machine integers: \<open>u16\<close>, \<open>u32\<close>, \<open>u64\<close>, \<open>u128\<close> and \<open>usize\<close> are natural
    numbers; the saturating, checked and wrapping operations of the source are written
    out below with their width.
  \<^item> \<open>Result<T, E>\<close> is \<open>E + T\<close> with \<open>Inl\<close> the error; \<open>Option<T>\<close> is \<open>T option\<close>.
  \<^item> Random draws are arguments: the value \<open>rng.gen_range(..)\<close> returned for a given
    bound is a function of that bound, and what is relied on is its documented range.
\<close>

named_theorems spt_defs \<open>definitions unfolded by the component proofs\<close>

type_synonym instant = nat
type_synonym duration = nat
type_synonym ('e, 'a) result = "'e + 'a"

section \<open>Durations\<close>

definition from_secs :: "nat \<Rightarrow> duration" where
  "from_secs s = s * 1000000000"

definition from_millis :: "nat \<Rightarrow> duration" where
  "from_millis ms = ms * 1000000"

definition as_secs :: "duration \<Rightarrow> nat" where
  "as_secs d = d div 1000000000"

text \<open>\<open>Duration::as_millis() as u64\<close>: the cast keeps the low 64 bits.\<close>

definition as_millis_u64 :: "duration \<Rightarrow> nat" where
  "as_millis_u64 d = (d div 1000000) mod 2 ^ 64"

definition checked_sub_instant :: "instant \<Rightarrow> duration \<Rightarrow> instant option" where
  "checked_sub_instant t d = (if d \<le> t then Some (t - d) else None)"

lemma as_millis_from_millis [simp]:
  "ms < 2 ^ 64 \<Longrightarrow> as_millis_u64 (from_millis ms) = ms"
  by (simp add: as_millis_u64_def from_millis_def)

lemma as_millis_u64_less: "as_millis_u64 d < 2 ^ 64"
  by (simp add: as_millis_u64_def)

lemma from_millis_0 [simp]: "from_millis 0 = 0"
  by (simp add: from_millis_def)

lemma from_millis_mono: "a \<le> b \<Longrightarrow> from_millis a \<le> from_millis b"
  by (simp add: from_millis_def)

lemma from_millis_le_iff [simp]: "from_millis a \<le> from_millis b \<longleftrightarrow> a \<le> b"
  by (simp add: from_millis_def)

lemma from_millis_eq_iff [simp]: "from_millis a = from_millis b \<longleftrightarrow> a = b"
  by (simp add: from_millis_def)

section \<open>Machine integers\<close>

definition u32_max :: nat where
  "u32_max = 2 ^ 32 - 1"

definition u64_max :: nat where
  "u64_max = 2 ^ 64 - 1"

definition u128_max :: nat where
  "u128_max = 2 ^ 128 - 1"

definition sat_add :: "nat \<Rightarrow> nat \<Rightarrow> nat \<Rightarrow> nat" where
  "sat_add mx a b = min mx (a + b)"

definition sat_mul :: "nat \<Rightarrow> nat \<Rightarrow> nat \<Rightarrow> nat" where
  "sat_mul mx a b = min mx (a * b)"

definition wrapping_add_usize :: "nat \<Rightarrow> nat \<Rightarrow> nat" where
  "wrapping_add_usize a b = (a + b) mod 2 ^ 64"

text \<open>\<open>1_u64.checked_shl(k)\<close>.\<close>

definition checked_shl1_u64 :: "nat \<Rightarrow> nat option" where
  "checked_shl1_u64 k = (if k < 64 then Some (2 ^ k) else None)"

lemma sat_add_le [simp]: "sat_add mx a b \<le> mx"
  by (simp add: sat_add_def)

lemma sat_mul_le [simp]: "sat_mul mx a b \<le> mx"
  by (simp add: sat_mul_def)

lemma sat_add_exact: "a + b \<le> mx \<Longrightarrow> sat_add mx a b = a + b"
  by (simp add: sat_add_def)

lemma sat_mul_exact: "a * b \<le> mx \<Longrightarrow> sat_mul mx a b = a * b"
  by (simp add: sat_mul_def)

lemma sat_add_le_sum: "sat_add mx a b \<le> a + b"
  by (simp add: sat_add_def)

lemma sat_mul_le_prod: "sat_mul mx a b \<le> a * b"
  by (simp add: sat_mul_def)

section \<open>Lists\<close>

text \<open>\<open>iter().find(p)\<close> is \<^const>\<open>List.find\<close>; \<open>iter_mut().find(p)\<close> followed by a write
  updates the first match only.\<close>

fun update_first :: "('a \<Rightarrow> bool) \<Rightarrow> ('a \<Rightarrow> 'a) \<Rightarrow> 'a list \<Rightarrow> 'a list" where
  "update_first p f [] = []"
| "update_first p f (x # xs) = (if p x then f x # xs else x # update_first p f xs)"

lemma length_update_first [simp]: "length (update_first p f xs) = length xs"
  by (induction xs) auto

lemma update_first_map:
  "(\<And>x. g (f x) = g x) \<Longrightarrow> map g (update_first p f xs) = map g xs"
  by (induction xs) auto

lemma update_first_Nil_iff [simp]: "update_first p f xs = [] \<longleftrightarrow> xs = []"
  by (cases xs) auto

lemma find_update_first:
  "(\<And>x. p (f x) = p x) \<Longrightarrow>
   List.find p (update_first p f xs) = map_option f (List.find p xs)"
  by (induction xs) auto

lemma find_Some_mem: "List.find p xs = Some x \<Longrightarrow> x \<in> set xs \<and> p x"
  by (auto simp: find_Some_iff)

lemma find_None_all: "List.find p xs = None \<longleftrightarrow> (\<forall>x\<in>set xs. \<not> p x)"
  by (auto simp: find_None_iff)

text \<open>\<open>min_by_key\<close> and \<open>min\<close> return the first of several minima.\<close>

fun min_by_key :: "('a \<Rightarrow> 'k::linorder) \<Rightarrow> 'a list \<Rightarrow> 'a option" where
  "min_by_key k [] = None"
| "min_by_key k (x # xs) =
     (case min_by_key k xs of
        None \<Rightarrow> Some x
      | Some y \<Rightarrow> if k y < k x then Some y else Some x)"

lemma min_by_key_None [simp]: "min_by_key k xs = None \<longleftrightarrow> xs = []"
  by (cases xs) (auto split: option.splits)

lemma min_by_key_mem: "min_by_key k xs = Some x \<Longrightarrow> x \<in> set xs"
  by (induction xs arbitrary: x) (auto split: option.splits if_splits)

lemma min_by_key_le: "min_by_key k xs = Some x \<Longrightarrow> y \<in> set xs \<Longrightarrow> k x \<le> k y"
proof (induction xs arbitrary: x)
  case Nil
  then show ?case by simp
next
  case (Cons a xs)
  show ?case
  proof (cases "min_by_key k xs")
    case None
    with Cons.prems show ?thesis by simp
  next
    case (Some b)
    with Cons.IH [OF Some] Cons.prems show ?thesis
      by (auto split: if_splits)
  qed
qed

end
