(* ===== verification/Backoff.thy ===== *)
theory Backoff
  imports Prelude Complex_Main
begin

text \<open>
  Reconnect backoff, \<open>crates/spt-supervisor/src/reconnect.rs\<close>: the exponential ceiling of
  the n-th attempt, the partially jittered delay below it, and the attempt counter.

  The jitter ratio is an \<open>f32\<close> in the source and a rational here; the product
  \<open>max_ms * (1 - jitter)\<close>, an \<open>f64\<close> truncated to \<open>u64\<close>, is computed exactly. The two
  agree whenever the product is exactly representable, which covers every ratio with a short
  binary expansion; the bounds below do not depend on it, because the code saturates the sum
  at the ceiling.
\<close>

record BackoffConfig =
  initial_delay :: duration
  max_delay :: duration
  reset_after :: duration
  jitter :: rat
  max_attempts :: nat
  retry_auth_failures :: bool

definition default_backoff_config :: BackoffConfig where
  "default_backoff_config =
     \<lparr>initial_delay = from_secs 1, max_delay = from_secs 60, reset_after = from_secs 120,
      jitter = 1, max_attempts = 0, retry_auth_failures = False\<rparr>"

record Backoff =
  bo_cfg :: BackoffConfig
  bo_attempt :: nat

definition backoff_new :: "BackoffConfig \<Rightarrow> Backoff" where
  "backoff_new cfg = \<lparr>bo_cfg = cfg, bo_attempt = 0\<rparr>"

definition exhausted :: "Backoff \<Rightarrow> bool" where
  "exhausted b \<longleftrightarrow> max_attempts (bo_cfg b) \<noteq> 0 \<and> max_attempts (bo_cfg b) \<le> bo_attempt b"

definition backoff_reset :: "Backoff \<Rightarrow> Backoff" where
  "backoff_reset b = b\<lparr>bo_attempt := 0\<rparr>"

definition ceiling_for_attempt :: "duration \<Rightarrow> duration \<Rightarrow> nat \<Rightarrow> duration option" where
  "ceiling_for_attempt initial mx n =
     (let initial_ms = as_millis_u64 initial; max_ms = as_millis_u64 mx in
      if initial_ms = 0 then Some 0
      else
        case checked_shl1_u64 (min n 31) of
          None \<Rightarrow> None
        | Some factor \<Rightarrow>
            Some (from_millis (min (sat_mul u64_max initial_ms factor) (max max_ms initial_ms))))"

text \<open>\<open>draw span\<close> is the value of \<open>rng.gen_range(0..=span)\<close>.\<close>

definition sample_jitter :: "duration \<Rightarrow> rat \<Rightarrow> (nat \<Rightarrow> nat) \<Rightarrow> duration" where
  "sample_jitter ceil j draw =
     (let max_ms = as_millis_u64 ceil in
      if max_ms = 0 then 0
      else
        let jc = max 0 (min 1 j);
            fixed_ms = nat \<lfloor>of_nat max_ms * (1 - jc)\<rfloor>;
            span_ms = max_ms - fixed_ms;
            rand_ms = (if span_ms = 0 then 0 else draw span_ms)
        in from_millis (min (sat_add u64_max fixed_ms rand_ms) max_ms))"

definition next_delay :: "Backoff \<Rightarrow> (nat \<Rightarrow> nat) \<Rightarrow> duration \<times> Backoff" where
  "next_delay b draw =
     (let n = bo_attempt b;
          b' = b\<lparr>bo_attempt := sat_add u32_max (bo_attempt b) 1\<rparr>
      in ((case ceiling_for_attempt (initial_delay (bo_cfg b)) (max_delay (bo_cfg b)) n of
             Some c \<Rightarrow> sample_jitter c (jitter (bo_cfg b)) draw
           | None \<Rightarrow> 0), b'))"

fun next_delays :: "Backoff \<Rightarrow> (nat \<Rightarrow> nat) list \<Rightarrow> duration list \<times> Backoff" where
  "next_delays b [] = ([], b)"
| "next_delays b (d # ds) =
     (let (x, b') = next_delay b d; (xs, b'') = next_delays b' ds in (x # xs, b''))"

section \<open>The ceiling\<close>

text \<open>The specification: double the initial delay once per attempt, at most 31 times, and cap
  it; the cap never undercuts the initial delay.\<close>

definition ceiling_ms_spec :: "nat \<Rightarrow> nat \<Rightarrow> nat \<Rightarrow> nat" where
  "ceiling_ms_spec i m n = min (i * 2 ^ min n 31) (max m i)"

lemma ceiling_for_attempt_eq:
  "ceiling_for_attempt initial mx n =
     Some (from_millis (ceiling_ms_spec (as_millis_u64 initial) (as_millis_u64 mx) n))"
proof -
  let ?i = "as_millis_u64 initial" and ?m = "as_millis_u64 mx"
  have "max ?m ?i \<le> u64_max"
    using as_millis_u64_less [of mx] as_millis_u64_less [of initial] by (simp add: u64_max_def)
  then have "min (min u64_max (?i * 2 ^ min n 31)) (max ?m ?i) = min (?i * 2 ^ min n 31) (max ?m ?i)"
    by linarith
  moreover have "min n 31 < 64" by simp
  ultimately show ?thesis
    by (simp add: ceiling_for_attempt_def ceiling_ms_spec_def checked_shl1_u64_def sat_mul_def Let_def)
qed

lemma ceiling_ms_spec_mono: "n \<le> n' \<Longrightarrow> ceiling_ms_spec i m n \<le> ceiling_ms_spec i m n'"
proof -
  assume "n \<le> n'"
  then have "(2::nat) ^ min n 31 \<le> 2 ^ min n' 31" by (intro power_increasing) auto
  then show ?thesis unfolding ceiling_ms_spec_def by (intro min.mono) auto
qed

lemma ceiling_ms_spec_less: "i < 2 ^ 64 \<Longrightarrow> m < 2 ^ 64 \<Longrightarrow> ceiling_ms_spec i m n < 2 ^ 64"
  by (auto simp: ceiling_ms_spec_def min_less_iff_disj)

section \<open>The jittered delay\<close>

lemma sample_jitter_le: "sample_jitter (from_millis c) j draw \<le> from_millis c"
  if "c < 2 ^ 64"
  using that by (auto simp: sample_jitter_def Let_def)

lemma jitter_floor_le:
  fixes j :: rat
  assumes "0 \<le> j"
  shows "nat \<lfloor>of_nat c * (1 - j)\<rfloor> \<le> c"
proof -
  have "of_nat c * (1 - j) \<le> of_nat c * (1::rat)"
    using assms by (intro mult_left_mono) auto
  then have "\<lfloor>of_nat c * (1 - j)\<rfloor> \<le> \<lfloor>of_nat c :: rat\<rfloor>" by (intro floor_mono) simp
  then show ?thesis by simp
qed

lemma sample_jitter_ge:
  assumes "c < 2 ^ 64"
  shows "from_millis (nat \<lfloor>of_nat c * (1 - max 0 (min 1 j))\<rfloor>) \<le> sample_jitter (from_millis c) j draw"
proof -
  have "nat \<lfloor>of_nat c * (1 - max 0 (min 1 j))\<rfloor> \<le> c" by (rule jitter_floor_le) simp
  with assms show ?thesis
    by (auto simp: sample_jitter_def Let_def sat_add_def u64_max_def)
qed

lemma sample_jitter_zero: "c < 2 ^ 64 \<Longrightarrow> j \<le> 0 \<Longrightarrow> sample_jitter (from_millis c) j draw = from_millis c"
  by (auto simp: sample_jitter_def Let_def sat_add_def u64_max_def max_def)

lemma sample_jitter_full:
  assumes "0 < c" "c < 2 ^ 64" "draw c \<le> c" "1 \<le> j"
  shows "sample_jitter (from_millis c) j draw = from_millis (draw c)"
  using assms by (auto simp: sample_jitter_def Let_def sat_add_def u64_max_def max_def min_def)

lemma next_delay_attempt [simp]: "bo_attempt (snd (next_delay b d)) = sat_add u32_max (bo_attempt b) 1"
  and next_delay_cfg [simp]: "bo_cfg (snd (next_delay b d)) = bo_cfg b"
  by (simp_all add: next_delay_def Let_def)

lemma next_delays_state:
  "bo_attempt b \<le> u32_max \<Longrightarrow>
     bo_attempt (snd (next_delays b ds)) = min u32_max (bo_attempt b + length ds) \<and>
     bo_cfg (snd (next_delays b ds)) = bo_cfg b"
proof (induction ds arbitrary: b)
  case Nil
  then show ?case by simp
next
  case (Cons d ds)
  have "bo_attempt (snd (next_delay b d)) \<le> u32_max" by simp
  from Cons.IH [OF this] show ?case
    by (auto simp: sat_add_def split: prod.splits)
qed

section \<open>Properties\<close>

text \<open>The backoff ceiling is never undefined, is the initial delay doubled once per attempt
  (at most 31 times) and capped at the larger of the maximum and the initial delay, and never
  shrinks from one attempt to the next.\<close>

theorem ceiling_doubles_to_cap:
  "\<exists>c. ceiling_for_attempt i m n = Some c \<and>
       c = from_millis (min (as_millis_u64 i * 2 ^ min n 31) (max (as_millis_u64 m) (as_millis_u64 i))) \<and>
       (\<forall>n' c'. n \<le> n' \<and> ceiling_for_attempt i m n' = Some c' \<longrightarrow> c \<le> c')"
  using ceiling_ms_spec_mono by (auto simp: ceiling_for_attempt_eq) (auto simp: ceiling_ms_spec_def)

theorem ceiling_doubles_to_cap_witness:
  "ceiling_for_attempt (from_secs 1) (from_secs 60) 5 = Some (from_secs 32) \<and>
   ceiling_for_attempt (from_secs 1) (from_secs 60) 9 = Some (from_secs 60)"
  using ceiling_doubles_to_cap [of "from_secs 1" "from_secs 60" 5]
    ceiling_doubles_to_cap [of "from_secs 1" "from_secs 60" 9]
  by (simp add: as_millis_u64_def from_secs_def from_millis_def)

text \<open>Whatever the random draw, the delay before attempt \<open>n\<close> lies between the
  non-jittered floor \<open>ceiling * (1 - jitter)\<close> and the ceiling; without jitter it is exactly
  the ceiling.\<close>

theorem next_delay_bounds:
  fixes b :: Backoff and draw :: "nat \<Rightarrow> nat"
  defines "c \<equiv> ceiling_ms_spec (as_millis_u64 (initial_delay (bo_cfg b)))
                 (as_millis_u64 (max_delay (bo_cfg b))) (bo_attempt b)"
    and "j \<equiv> max 0 (min 1 (jitter (bo_cfg b)))"
  shows "from_millis (nat \<lfloor>of_nat c * (1 - j)\<rfloor>) \<le> fst (next_delay b draw) \<and>
         fst (next_delay b draw) \<le> from_millis c \<and>
         (jitter (bo_cfg b) \<le> 0 \<longrightarrow> fst (next_delay b draw) = from_millis c)"
proof (intro conjI impI)
  have c: "c < 2 ^ 64" unfolding c_def by (intro ceiling_ms_spec_less as_millis_u64_less)
  have d: "fst (next_delay b draw) = sample_jitter (from_millis c) (jitter (bo_cfg b)) draw"
    by (simp add: next_delay_def Let_def ceiling_for_attempt_eq c_def)
  show "from_millis (nat \<lfloor>of_nat c * (1 - j)\<rfloor>) \<le> fst (next_delay b draw)"
    unfolding d j_def by (rule sample_jitter_ge [OF c])
  show "fst (next_delay b draw) \<le> from_millis c"
    unfolding d by (rule sample_jitter_le [OF c])
  assume "jitter (bo_cfg b) \<le> 0"
  then show "fst (next_delay b draw) = from_millis c"
    unfolding d by (rule sample_jitter_zero [OF c])
qed

theorem next_delay_bounds_witness:
  "fst (next_delay (backoff_new (default_backoff_config\<lparr>jitter := 0\<rparr>)) (\<lambda>_. 7)) = from_secs 1"
  using next_delay_bounds [of "backoff_new (default_backoff_config\<lparr>jitter := 0\<rparr>)" "\<lambda>_. 7"]
  by (simp add: backoff_new_def default_backoff_config_def ceiling_ms_spec_def as_millis_u64_def
      from_secs_def from_millis_def)

text \<open>Attempts are counted exactly (up to saturation at \<open>u32::MAX\<close>): after \<open>k\<close> scheduled
  delays a fresh backoff is exhausted precisely when a limit is set and \<open>k\<close> has reached it,
  and a reset makes it usable again.\<close>

theorem exhausted_after_max_attempts:
  fixes cfg :: BackoffConfig and ds :: "(nat \<Rightarrow> nat) list"
  assumes "max_attempts cfg \<le> u32_max"
  defines "b \<equiv> snd (next_delays (backoff_new cfg) ds)"
  shows "(exhausted b \<longleftrightarrow> max_attempts cfg \<noteq> 0 \<and> max_attempts cfg \<le> length ds) \<and>
         \<not> exhausted (backoff_reset b)"
proof -
  have "bo_attempt b = min u32_max (length ds) \<and> bo_cfg b = cfg"
    using next_delays_state [of "backoff_new cfg" ds] by (simp add: b_def backoff_new_def)
  with assms(1) show ?thesis
    by (auto simp: exhausted_def backoff_reset_def)
qed

theorem exhausted_after_max_attempts_witness:
  "exhausted (snd (next_delays (backoff_new (default_backoff_config\<lparr>max_attempts := 3\<rparr>)) (replicate 3 id)))
   \<and> \<not> exhausted (snd (next_delays (backoff_new (default_backoff_config\<lparr>max_attempts := 3\<rparr>)) (replicate 2 id)))"
  using exhausted_after_max_attempts [of "default_backoff_config\<lparr>max_attempts := 3\<rparr>" "replicate 3 id"]
    exhausted_after_max_attempts [of "default_backoff_config\<lparr>max_attempts := 3\<rparr>" "replicate 2 id"]
  by (simp add: default_backoff_config_def u32_max_def)

end
