(* ===== verification/Instability.thy ===== *)
theory Instability
  imports Prelude
begin

text \<open>
  The sliding-window instability detector, \<open>crates/spt-supervisor/src/instability.rs\<close>: the
  disconnect window, the rolling p95 latency estimator, the keepalive-miss streak, and the
  latch that is cleared only after sustained health.

  The rank \<open>(0.95 * n).ceil()\<close> is an \<open>f64\<close> computation in the source; for every window
  length the estimator can hold (at most 64) it equals the integer formula used here.
\<close>

datatype InstabilityAction =
    IA_MarkDegraded | IA_Failover | IA_IncreaseKeepalive | IA_IncreaseBackoff
  | IA_EmitEvent | IA_RestartSession

record InstabilityWindow =
  iw_enabled :: bool
  iw_window :: duration
  iw_max_disconnects :: nat
  iw_clear_after :: duration
  iw_max_keepalive_misses :: "nat option"
  iw_max_latency_p95 :: "duration option"
  iw_action :: InstabilityAction

definition default_instability_window :: InstabilityWindow where
  "default_instability_window =
     \<lparr>iw_enabled = True, iw_window = from_secs 60, iw_max_disconnects = 3,
      iw_clear_after = from_secs 120, iw_max_keepalive_misses = None,
      iw_max_latency_p95 = None, iw_action = IA_MarkDegraded\<rparr>"

definition LATENCY_WINDOW :: nat where
  "LATENCY_WINDOW = 64"

type_synonym LatencyEstimator = "duration list"

definition latency_record :: "LatencyEstimator \<Rightarrow> duration \<Rightarrow> LatencyEstimator" where
  "latency_record samples rtt =
     (if length samples = LATENCY_WINDOW then tl samples else samples) @ [rtt]"

definition p95 :: "LatencyEstimator \<Rightarrow> duration option" where
  "p95 samples =
     (let n = length samples in
      if n = 0 then None
      else
        let sorted = sort samples;
            rank = max ((95 * n + 99) div 100) 1;
            idx = min rank n - 1
        in Some (sorted ! idx))"

record InstabilityDetector =
  det_cfg :: InstabilityWindow
  det_events :: "instant list"
  det_triggered :: bool
  det_last_clean :: "instant option"
  det_latency :: LatencyEstimator
  det_misses :: nat

definition detector_new :: "InstabilityWindow \<Rightarrow> InstabilityDetector" where
  "detector_new cfg =
     \<lparr>det_cfg = cfg, det_events = [], det_triggered = False, det_last_clean = None,
      det_latency = [], det_misses = 0\<rparr>"

definition window_cutoff :: "InstabilityWindow \<Rightarrow> instant \<Rightarrow> instant" where
  "window_cutoff cfg now =
     (case checked_sub_instant now (iw_window cfg) of Some c \<Rightarrow> c | None \<Rightarrow> now)"

definition record_disconnect ::
  "instant \<Rightarrow> InstabilityDetector \<Rightarrow> bool \<times> InstabilityDetector" where
  "record_disconnect now d =
     (if \<not> iw_enabled (det_cfg d) then (False, d)
      else
        let evs = dropWhile (\<lambda>t. t < window_cutoff (det_cfg d) now) (det_events d) @ [now];
            newly = (\<not> det_triggered d
                     \<and> iw_max_disconnects (det_cfg d) < length evs mod 2 ^ 32)
        in (newly,
            d\<lparr>det_events := evs, det_last_clean := None,
              det_triggered := det_triggered d \<or> newly\<rparr>))"

definition record_probe ::
  "duration option \<Rightarrow> InstabilityDetector \<Rightarrow> bool \<times> InstabilityDetector" where
  "record_probe rtt d =
     (if \<not> iw_enabled (det_cfg d) then (False, d)
      else
        let (newly, d') =
          (case rtt of
             Some sample \<Rightarrow>
               let d1 = d\<lparr>det_misses := 0, det_latency := latency_record (det_latency d) sample\<rparr>;
                   newly = (case (iw_max_latency_p95 (det_cfg d), p95 (det_latency d1)) of
                              (Some ceil, Some p) \<Rightarrow> ceil < p \<and> \<not> det_triggered d1
                            | _ \<Rightarrow> False)
               in (newly, d1\<lparr>det_triggered := det_triggered d1 \<or> newly\<rparr>)
           | None \<Rightarrow>
               let d1 = d\<lparr>det_misses := sat_add u32_max (det_misses d) 1\<rparr>;
                   newly = (case iw_max_keepalive_misses (det_cfg d) of
                              Some threshold \<Rightarrow>
                                0 < threshold \<and> threshold \<le> det_misses d1 \<and> \<not> det_triggered d1
                            | None \<Rightarrow> False)
               in (newly, d1\<lparr>det_triggered := det_triggered d1 \<or> newly\<rparr>))
        in (newly, if newly then d'\<lparr>det_last_clean := None\<rparr> else d'))"

definition tick_healthy ::
  "instant \<Rightarrow> InstabilityDetector \<Rightarrow> bool \<times> InstabilityDetector" where
  "tick_healthy now d =
     (case det_last_clean d of
        None \<Rightarrow> (False, d\<lparr>det_last_clean := Some now\<rparr>)
      | Some started \<Rightarrow>
          if \<not> det_triggered d then (False, d)
          else if iw_clear_after (det_cfg d) \<le> now - started then
            (True, d\<lparr>det_triggered := False, det_events := [], det_latency := [], det_misses := 0\<rparr>)
          else (False, d))"

text \<open>Sequences of calls, in the order the supervisor makes them.\<close>

datatype det_op = Disc instant | Probe "duration option" | Tick instant

fun det_apply :: "InstabilityDetector \<Rightarrow> det_op \<Rightarrow> InstabilityDetector" where
  "det_apply d (Disc now) = snd (record_disconnect now d)"
| "det_apply d (Probe r) = snd (record_probe r d)"
| "det_apply d (Tick now) = snd (tick_healthy now d)"

definition det_run :: "InstabilityDetector \<Rightarrow> det_op list \<Rightarrow> InstabilityDetector" where
  "det_run d ops = foldl det_apply d ops"

fun trips :: "InstabilityDetector \<Rightarrow> det_op \<Rightarrow> bool" where
  "trips d (Disc now) = fst (record_disconnect now d)"
| "trips d (Probe r) = fst (record_probe r d)"
| "trips d (Tick now) = False"

fun op_time_in :: "instant \<Rightarrow> instant \<Rightarrow> det_op \<Rightarrow> bool" where
  "op_time_in lo hi (Disc t) = (lo \<le> t \<and> t < hi)"
| "op_time_in lo hi (Tick t) = (lo \<le> t \<and> t < hi)"
| "op_time_in lo hi (Probe r) = True"

section \<open>Basic lemmas\<close>

lemma det_run_Nil [simp]: "det_run d [] = d"
  and det_run_Cons [simp]: "det_run d (x # xs) = det_run (det_apply d x) xs"
  and det_run_snoc [simp]: "det_run d (xs @ [x]) = det_apply (det_run d xs) x"
  by (simp_all add: det_run_def)

lemma record_disconnect_cfg [simp]: "det_cfg (snd (record_disconnect now d)) = det_cfg d"
  by (simp add: record_disconnect_def Let_def)

lemma record_probe_cfg [simp]: "det_cfg (snd (record_probe r d)) = det_cfg d"
  by (simp add: record_probe_def Let_def split: option.splits)

lemma tick_healthy_cfg [simp]: "det_cfg (snd (tick_healthy now d)) = det_cfg d"
  by (simp add: tick_healthy_def split: option.splits)

lemma det_apply_cfg [simp]: "det_cfg (det_apply d x) = det_cfg d"
  by (cases x) auto

lemma det_run_cfg [simp]: "det_cfg (det_run d ops) = det_cfg d"
  by (induction ops arbitrary: d) auto

lemma length_latency_record:
  "length samples \<le> LATENCY_WINDOW \<Longrightarrow> length (latency_record samples r) \<le> LATENCY_WINDOW"
  by (auto simp: latency_record_def LATENCY_WINDOW_def)

section \<open>The sliding window\<close>

lemma dropWhile_sorted:
  "sorted xs \<Longrightarrow> dropWhile (\<lambda>t. t < c) xs = filter (\<lambda>t. c \<le> t) (xs :: nat list)"
proof (induction xs)
  case Nil
  then show ?case by simp
next
  case (Cons x xs)
  show ?case
  proof (cases "x < c")
    case True
    with Cons show ?thesis by simp
  next
    case False
    with Cons.prems have "\<forall>y\<in>set xs. c \<le> y" by auto
    with False show ?thesis by simp
  qed
qed

lemma window_cutoff_old: "iw_window cfg \<le> now \<Longrightarrow> window_cutoff cfg now = now - iw_window cfg"
  by (simp add: window_cutoff_def checked_sub_instant_def)

lemma window_cutoff_young: "now < iw_window cfg \<Longrightarrow> window_cutoff cfg now = now"
  by (simp add: window_cutoff_def checked_sub_instant_def)

lemma disconnects_snoc:
  assumes "iw_enabled (det_cfg d)"
  shows "det_events (det_apply d (Disc now)) =
           dropWhile (\<lambda>t. t < window_cutoff (det_cfg d) now) (det_events d) @ [now]"
    and "det_triggered (det_apply d (Disc now)) \<longleftrightarrow>
           det_triggered d \<or>
           iw_max_disconnects (det_cfg d) < length (det_events (det_apply d (Disc now))) mod 2 ^ 32"
  using assms by (auto simp: record_disconnect_def Let_def)

lemma filter_ge_ge:
  "(c::nat) \<le> c' \<Longrightarrow> filter (\<lambda>t. c \<le> t \<and> c' \<le> t) xs = filter (\<lambda>t. c' \<le> t) xs"
  by (rule filter_cong) auto

lemma disconnect_events:
  assumes "iw_enabled cfg" "sorted ts" "\<forall>t\<in>set ts. iw_window cfg \<le> t" "ts \<noteq> []"
  shows "det_events (det_run (detector_new cfg) (map Disc ts)) =
           filter (\<lambda>t. last ts - iw_window cfg \<le> t) ts"
  using assms(2-4)
proof (induction ts rule: rev_induct)
  case Nil
  then show ?case by simp
next
  case (snoc x xs)
  let ?d = "det_run (detector_new cfg) (map Disc xs)" and ?w = "iw_window cfg"
  have cfg: "det_cfg ?d = cfg" by (simp add: detector_new_def)
  have old: "dropWhile (\<lambda>t. t < x - ?w) (det_events ?d) = filter (\<lambda>t. x - ?w \<le> t) xs"
  proof (cases "xs = []")
    case True
    then show ?thesis by (simp add: detector_new_def)
  next
    case False
    have le: "last xs - ?w \<le> x - ?w"
      using snoc.prems(1) False by (auto simp: sorted_append intro: diff_le_mono)
    have ev: "det_events ?d = filter (\<lambda>t. last xs - ?w \<le> t) xs"
      using snoc False by (auto simp: sorted_append)
    have "sorted (det_events ?d)" using snoc.prems(1) by (simp add: ev sorted_append sorted_wrt_filter)
    then show ?thesis by (simp add: dropWhile_sorted ev filter_ge_ge [OF le])
  qed
  have "det_events (det_apply ?d (Disc x)) =
          dropWhile (\<lambda>t. t < window_cutoff (det_cfg ?d) x) (det_events ?d) @ [x]"
    using disconnects_snoc(1) [of ?d x] assms(1) cfg by simp
  then show ?case using snoc.prems(2) cfg old by (simp add: window_cutoff_old)
qed

lemma disconnect_triggered:
  assumes "iw_enabled cfg" "sorted ts" "\<forall>t\<in>set ts. iw_window cfg \<le> t" "length ts < 2 ^ 32"
  shows "det_triggered (det_run (detector_new cfg) (map Disc ts)) \<longleftrightarrow>
           (\<exists>i<length ts. iw_max_disconnects cfg <
              length (filter (\<lambda>t. ts ! i - iw_window cfg \<le> t) (take (Suc i) ts)))"
  using assms(2-4)
proof (induction ts rule: rev_induct)
  case Nil
  then show ?case by (simp add: detector_new_def)
next
  case (snoc x xs)
  let ?d = "det_run (detector_new cfg) (map Disc xs)" and ?w = "iw_window cfg"
  let ?f = "\<lambda>ys i. iw_max_disconnects cfg < length (filter (\<lambda>t. ys ! i - ?w \<le> t) (take (Suc i) ys))"
  have ev: "det_events (det_run (detector_new cfg) (map Disc (xs @ [x]))) =
              filter (\<lambda>t. x - ?w \<le> t) (xs @ [x])"
    using disconnect_events [OF assms(1) snoc.prems(1,2)] by simp
  have "length (filter (\<lambda>t. x - ?w \<le> t) (xs @ [x])) < 2 ^ 32"
    using snoc.prems(3) by (rule le_less_trans [OF length_filter_le])
  then have trig: "det_triggered (det_run (detector_new cfg) (map Disc (xs @ [x]))) \<longleftrightarrow>
          det_triggered ?d \<or> ?f (xs @ [x]) (length xs)"
    using disconnects_snoc(2) [of ?d x] assms(1) ev by (simp add: detector_new_def)
  have old: "?f (xs @ [x]) i = ?f xs i" if "i < length xs" for i
    using that by (simp add: nth_append)
  have "(\<exists>i<length (xs @ [x]). ?f (xs @ [x]) i) \<longleftrightarrow>
          (\<exists>i<length xs. ?f xs i) \<or> ?f (xs @ [x]) (length xs)"
    using old by (metis length_append_singleton less_Suc_eq)
  moreover have "det_triggered ?d \<longleftrightarrow> (\<exists>i<length xs. ?f xs i)"
    using snoc by (simp add: sorted_append)
  ultimately show ?case using trig by blast
qed

section \<open>The nearest-rank percentile\<close>

lemma sorted_filter_le_nth:
  assumes "sorted xs" "k < length xs"
  shows "k < length (filter (\<lambda>x. x \<le> xs ! k) (xs :: nat list))"
proof -
  have "\<forall>x\<in>set (take (Suc k) xs). x \<le> xs ! k"
    using assms by (auto simp: in_set_conv_nth intro!: sorted_nth_mono)
  then have "filter (\<lambda>x. x \<le> xs ! k) (take (Suc k) xs) = take (Suc k) xs"
    by (simp add: filter_id_conv)
  then have "filter (\<lambda>x. x \<le> xs ! k) xs =
               take (Suc k) xs @ filter (\<lambda>x. x \<le> xs ! k) (drop (Suc k) xs)"
    by (metis append_take_drop_id filter_append)
  then show ?thesis using assms(2) by simp
qed

lemma sorted_filter_less_nth:
  assumes "sorted xs" "k < length xs"
  shows "length (filter (\<lambda>x. x < xs ! k) (xs :: nat list)) \<le> k"
proof -
  have "\<forall>x\<in>set (drop k xs). \<not> x < xs ! k"
    using assms by (auto simp: in_set_conv_nth not_less intro!: sorted_nth_mono)
  then have "filter (\<lambda>x. x < xs ! k) (drop k xs) = []"
    by (simp add: filter_empty_conv)
  then have "filter (\<lambda>x. x < xs ! k) xs = filter (\<lambda>x. x < xs ! k) (take k xs)"
    by (metis append_Nil2 append_take_drop_id filter_append)
  then have "length (filter (\<lambda>x. x < xs ! k) xs) \<le> length (take k xs)"
    by (metis length_filter_le)
  then show ?thesis by simp
qed

lemma length_filter_sort: "length (filter P (sort xs)) = length (filter P xs)"
  by (simp add: filter_sort)

lemma p95_Some_idx:
  assumes "p95 samples = Some v"
  obtains k where "k < length samples" "v = sort samples ! k"
    "95 * length samples \<le> 100 * Suc k" "100 * k < 95 * length samples"
proof -
  let ?n = "length samples"
  have n: "0 < ?n" using assms by (auto simp: p95_def Let_def split: if_splits)
  define q where "q = (95 * ?n + 99) div 100"
  have lo: "95 * ?n + 99 < 100 * q + 100" and hi: "100 * q \<le> 95 * ?n + 99"
    unfolding q_def by linarith+
  with n obtain k where q: "q = Suc k" by (cases q) auto
  show thesis
  proof (rule that [of k])
    show "v = sort samples ! k"
      using assms n lo hi q
      by (auto simp: p95_def Let_def max_def min_def q_def [symmetric] split: if_splits)
    show "k < ?n" "95 * ?n \<le> 100 * Suc k" "100 * k < 95 * ?n"
      using lo hi q n by simp_all
  qed
qed

section \<open>The latch\<close>

text \<open>A latched detector whose clean stretch, if any, began no earlier than \<open>t0\<close>.\<close>

definition held_since :: "instant \<Rightarrow> InstabilityDetector \<Rightarrow> bool" where
  "held_since t0 d \<longleftrightarrow>
     det_triggered d \<and> (case det_last_clean d of None \<Rightarrow> True | Some c \<Rightarrow> t0 \<le> c)"

lemma held_since_apply:
  assumes "held_since t0 d" "op_time_in t0 (t0 + iw_clear_after (det_cfg d)) x"
  shows "held_since t0 (det_apply d x)"
proof (cases x)
  case (Disc now)
  with assms show ?thesis by (auto simp: held_since_def record_disconnect_def Let_def)
next
  case (Probe r)
  with assms show ?thesis
    by (auto simp: held_since_def record_probe_def Let_def split: option.splits)
next
  case (Tick now)
  with assms show ?thesis
    by (auto simp: held_since_def tick_healthy_def split: option.splits)
qed

lemma held_since_run:
  assumes "held_since t0 d" "\<forall>x\<in>set ops. op_time_in t0 (t0 + iw_clear_after (det_cfg d)) x"
  shows "held_since t0 (det_run d ops)"
  using assms
proof (induction ops arbitrary: d)
  case Nil
  then show ?case by simp
next
  case (Cons x ops)
  then have "held_since t0 (det_apply d x)" by (auto intro: held_since_apply)
  with Cons show ?case by auto
qed

lemma trips_latches:
  "trips d x \<Longrightarrow> det_triggered (det_apply d x) \<and> det_last_clean (det_apply d x) = None"
  by (cases x)
    (auto simp: record_disconnect_def record_probe_def Let_def split: if_splits option.splits)

lemma disabled_apply:
  "\<not> iw_enabled (det_cfg d) \<Longrightarrow> \<not> det_triggered d \<Longrightarrow>
     det_apply d x = d\<lparr>det_last_clean := det_last_clean (det_apply d x)\<rparr>"
  by (cases x) (simp_all add: record_disconnect_def record_probe_def tick_healthy_def
      split: option.splits)

lemma disabled_run:
  "\<not> iw_enabled (det_cfg d) \<Longrightarrow> \<not> det_triggered d \<Longrightarrow>
     \<exists>c. det_run d ops = d\<lparr>det_last_clean := c\<rparr>"
proof (induction ops arbitrary: d)
  case Nil
  have "det_run d [] = d\<lparr>det_last_clean := det_last_clean d\<rparr>" by simp
  then show ?case by blast
next
  case (Cons x ops)
  let ?d = "det_apply d x"
  have d: "?d = d\<lparr>det_last_clean := det_last_clean ?d\<rparr>"
    using disabled_apply [OF Cons.prems] .
  have "\<not> det_triggered ?d" using Cons.prems(2) by (subst d) simp
  then obtain c where "det_run ?d ops = ?d\<lparr>det_last_clean := c\<rparr>"
    using Cons.IH [of ?d] Cons.prems(1) by auto
  moreover have "?d\<lparr>det_last_clean := c\<rparr> = d\<lparr>det_last_clean := c\<rparr>"
    by (subst d) simp
  ultimately have "det_run d (x # ops) = d\<lparr>det_last_clean := c\<rparr>" by simp
  then show ?case by blast
qed

definition detector_inv :: "InstabilityDetector \<Rightarrow> bool" where
  "detector_inv d \<longleftrightarrow>
     length (det_latency d) \<le> LATENCY_WINDOW \<and> det_misses d \<le> u32_max
     \<and> (\<not> iw_enabled (det_cfg d) \<longrightarrow> \<not> det_triggered d \<and> det_events d = [])"

lemma detector_inv_apply: "detector_inv d \<Longrightarrow> detector_inv (det_apply d x)"
proof (cases x)
  case (Probe r)
  assume inv: "detector_inv d"
  show ?thesis
  proof (cases r)
    case None
    with Probe inv show ?thesis
      by (auto simp: detector_inv_def record_probe_def sat_add_def Let_def split: option.splits)
  next
    case (Some s)
    from inv have "length (latency_record (det_latency d) s) \<le> LATENCY_WINDOW"
      by (auto simp: detector_inv_def intro: length_latency_record)
    with Probe inv Some show ?thesis
      by (auto simp: detector_inv_def record_probe_def Let_def)
  qed
next
  case (Disc now)
  assume "detector_inv d"
  with Disc show ?thesis by (auto simp: detector_inv_def record_disconnect_def Let_def)
next
  case (Tick now)
  assume "detector_inv d"
  with Tick show ?thesis
    by (auto simp: detector_inv_def tick_healthy_def split: option.splits)
qed

lemma detector_inv_run: "detector_inv d \<Longrightarrow> detector_inv (det_run d ops)"
  by (induction ops arbitrary: d) (auto intro: detector_inv_apply)

lemma detector_inv_new: "detector_inv (detector_new cfg)"
  by (simp add: detector_inv_def detector_new_def)

text \<open>
  The cutoff falls back to \<open>now\<close> when the clock has not yet run for a whole window; then every
  earlier disconnect is evicted and a detector that tolerates one disconnect never trips.
\<close>

lemma young_clock_never_trips:
  assumes "sorted_wrt (<) ts" "\<forall>t\<in>set ts. t < iw_window cfg" "1 \<le> iw_max_disconnects cfg"
  shows "\<not> det_triggered (det_run (detector_new cfg) (map Disc ts))
         \<and> (\<forall>e\<in>set (det_events (det_run (detector_new cfg) (map Disc ts))). e \<in> set ts)"
  using assms(1,2)
proof (induction ts rule: rev_induct)
  case Nil
  then show ?case by (simp add: detector_new_def)
next
  case (snoc x xs)
  let ?d = "det_run (detector_new cfg) (map Disc xs)"
  have IH: "\<not> det_triggered ?d" "\<forall>e\<in>set (det_events ?d). e < x"
    using snoc by (auto simp: sorted_wrt_append)
  have cfg: "det_cfg ?d = cfg" by (simp add: detector_new_def)
  have drop: "dropWhile (\<lambda>t. t < x) (det_events ?d) = []"
    using IH(2) by simp
  have cut: "window_cutoff cfg x = x" using snoc.prems(2) by (simp add: window_cutoff_young)
  have old: "\<forall>e\<in>set (det_events ?d). e \<in> set xs"
    using snoc by (auto simp: sorted_wrt_append)
  show ?case
    using IH(1) assms(3) old
    by (simp add: record_disconnect_def Let_def cfg cut drop del: det_run_cfg)
qed

section \<open>Properties\<close>

text \<open>
  for disconnects reported in time order on a clock at least one window old, the detector
  built from the incremental eviction is the full-history specification: it holds exactly the
  disconnects of the last window, and it is latched exactly if at some disconnect the number
  of disconnects in the window ending there exceeded the configured maximum.
\<close>
theorem sliding_window_refines_history:
  assumes "iw_enabled cfg" "sorted ts" "ts \<noteq> []" "length ts < 2 ^ 32"
    "\<forall>t\<in>set ts. iw_window cfg \<le> t"
  shows "det_events (det_run (detector_new cfg) (map Disc ts)) =
           filter (\<lambda>t. last ts - iw_window cfg \<le> t) ts
         \<and> (det_triggered (det_run (detector_new cfg) (map Disc ts)) \<longleftrightarrow>
             (\<exists>i<length ts. iw_max_disconnects cfg <
                length (filter (\<lambda>t. ts ! i - iw_window cfg \<le> t) (take (Suc i) ts))))"
  using assms by (simp add: disconnect_events disconnect_triggered)

theorem sliding_window_refines_history_witness:
  "det_events (det_run (detector_new (default_instability_window\<lparr>iw_window := 10, iw_max_disconnects := 2\<rparr>))
      (map Disc [20, 25, 31, 33])) = [25, 31, 33]"
  using sliding_window_refines_history
    [of "default_instability_window\<lparr>iw_window := 10, iw_max_disconnects := 2\<rparr>" "[20, 25, 31, 33]"]
  by (simp add: default_instability_window_def)

text \<open>
  The p95 estimate is the nearest-rank 95th percentile of the retained samples: it is one
  of them, at least 95 percent of the samples are no larger, and strictly fewer than 95 percent
  are smaller.
\<close>
theorem p95_nearest_rank:
  assumes "p95 samples = Some v"
  shows "v \<in> set samples
         \<and> 95 * length samples \<le> 100 * length (filter (\<lambda>x. x \<le> v) samples)
         \<and> 100 * length (filter (\<lambda>x. x < v) samples) < 95 * length samples"
proof -
  obtain k where k: "k < length samples" and v: "v = sort samples ! k"
    and lo: "95 * length samples \<le> 100 * Suc k" and hi: "100 * k < 95 * length samples"
    using assms by (rule p95_Some_idx)
  have "k < length (filter (\<lambda>x. x \<le> v) samples)" "length (filter (\<lambda>x. x < v) samples) \<le> k"
    using sorted_filter_le_nth [of "sort samples" k] sorted_filter_less_nth [of "sort samples" k] k v
    by (simp_all add: length_filter_sort)
  moreover have "v \<in> set samples"
    using k v by (metis length_sort nth_mem set_sort)
  ultimately show ?thesis using lo hi by auto
qed

theorem p95_nearest_rank_witness:
  "p95 [7, 1, 9] = Some 9 \<and> (9::nat) \<in> set [7, 1, 9]"
proof -
  have "p95 [7, 1, 9] = Some 9" by code_simp
  with p95_nearest_rank [OF this] show ?thesis by blast
qed

text \<open>
  Once a disconnect or a probe trips the detector, no sequence of further disconnects,
  probes and healthy ticks clears it before the whole \<open>clear_after\<close> stretch has passed; and
  two healthy ticks that far apart do clear it.
\<close>
theorem trip_holds_for_clear_after:
  assumes "trips d x" "\<forall>y\<in>set ops. op_time_in t0 (t0 + iw_clear_after (det_cfg d)) y"
  shows "det_triggered (det_run d (x # ops))
         \<and> \<not> det_triggered (det_run d [x, Tick t0, Tick (t0 + iw_clear_after (det_cfg d))])"
proof -
  have held: "held_since t0 (det_apply d x)" and none: "det_last_clean (det_apply d x) = None"
    using trips_latches [OF assms(1)] by (simp_all add: held_since_def)
  from held assms(2) have "held_since t0 (det_run (det_apply d x) ops)"
    by (auto intro: held_since_run)
  moreover have "\<not> det_triggered (det_run d [x, Tick t0, Tick (t0 + iw_clear_after (det_cfg d))])"
    using none by (auto simp: tick_healthy_def simp del: det_apply.simps(1,2))
  ultimately show ?thesis by (simp add: held_since_def)
qed

theorem trip_holds_for_clear_after_witness:
  "det_triggered (det_run (detector_new (default_instability_window\<lparr>iw_max_disconnects := 0\<rparr>))
     [Disc 5, Tick 6, Probe (Some 3), Tick 100])"
  using trip_holds_for_clear_after
    [of "detector_new (default_instability_window\<lparr>iw_max_disconnects := 0\<rparr>)" "Disc 5"
      "[Tick 6, Probe (Some 3), Tick 100]" 5]
  by (simp add: default_instability_window_def detector_new_def record_disconnect_def
      from_secs_def)

text \<open>
  Whatever sequence of calls a detector receives, it keeps at most 64 latency samples, its
  miss counter stays a \<open>u32\<close>, and a disabled detector stays as it was created apart from the
  timestamp of the last healthy tick.
\<close>
theorem detector_bounded:
  "length (det_latency (det_run (detector_new cfg) ops)) \<le> 64
   \<and> det_misses (det_run (detector_new cfg) ops) < 2 ^ 32
   \<and> (iw_enabled cfg \<or> (\<exists>c. det_run (detector_new cfg) ops = (detector_new cfg)\<lparr>det_last_clean := c\<rparr>))"
proof (intro conjI)
  have "detector_inv (det_run (detector_new cfg) ops)"
    by (rule detector_inv_run) (rule detector_inv_new)
  then show "length (det_latency (det_run (detector_new cfg) ops)) \<le> 64"
    "det_misses (det_run (detector_new cfg) ops) < 2 ^ 32"
    by (simp_all add: detector_inv_def LATENCY_WINDOW_def u32_max_def)
  show "iw_enabled cfg \<or>
      (\<exists>c. det_run (detector_new cfg) ops = (detector_new cfg)\<lparr>det_last_clean := c\<rparr>)"
    using disabled_run [of "detector_new cfg" ops] by (auto simp: detector_new_def)
qed

end
