(* ===== verification/Std_Text.thy ===== *)
theory Std_Text
  imports Prelude "HOL-Library.Word"
begin

text \<open>
  The parts of the Rust standard library the modelled code prints and parses text with:
  \<open>Display\<close> of unsigned integers, \<open>str::parse\<close> for unsigned integers, \<open>str::rsplit_once\<close>, and
  \<open>IpAddr::from_str\<close> (the recursive-descent parser of \<open>core::net\<close>: dotted quads without leading
  zeros, IPv6 groups with \<open>::\<close> and a trailing embedded IPv4 address).
\<close>

section \<open>Unsigned integers\<close>

definition digit_char :: "nat \<Rightarrow> char" where
  "digit_char d = char_of (48 + d)"

fun dec :: "nat \<Rightarrow> string" where
  "dec n = (if n < 10 then [digit_char n] else dec (n div 10) @ [digit_char (n mod 10)])"

declare dec.simps [simp del]

definition to_digit :: "nat \<Rightarrow> char \<Rightarrow> nat option" where
  "to_digit radix c =
     (let k = (of_char c :: nat);
          v = (if 48 \<le> k \<and> k \<le> 57 then k - 48
               else if 97 \<le> k \<and> k \<le> 122 then k - 87
               else if 65 \<le> k \<and> k \<le> 90 then k - 55
               else radix)
      in if v < radix then Some v else None)"

fun checked_digits :: "nat \<Rightarrow> nat \<Rightarrow> string \<Rightarrow> nat option" where
  "checked_digits mx acc [] = Some acc"
| "checked_digits mx acc (c # cs) =
     (case to_digit 10 c of
        None \<Rightarrow> None
      | Some d \<Rightarrow> if mx < acc * 10 + d then None else checked_digits mx (acc * 10 + d) cs)"

definition parse_uint :: "nat \<Rightarrow> string \<Rightarrow> nat option" where
  "parse_uint mx s =
     (case s of
        [] \<Rightarrow> None
      | c # cs \<Rightarrow>
          if c = CHR ''+'' then (if cs = [] then None else checked_digits mx 0 cs)
          else checked_digits mx 0 s)"

text \<open>The text of the \<open>ParseIntError\<close> of a rejected input: the first offending character decides.\<close>

fun digits_error :: "nat \<Rightarrow> nat \<Rightarrow> string \<Rightarrow> string" where
  "digits_error mx acc [] = []"
| "digits_error mx acc (c # cs) =
     (case to_digit 10 c of
        None \<Rightarrow> ''invalid digit found in string''
      | Some d \<Rightarrow>
          if mx < acc * 10 + d then ''number too large to fit in target type''
          else digits_error mx (acc * 10 + d) cs)"

definition parse_uint_error :: "nat \<Rightarrow> string \<Rightarrow> string" where
  "parse_uint_error mx s =
     (case s of
        [] \<Rightarrow> ''cannot parse integer from empty string''
      | c # cs \<Rightarrow>
          if c = CHR ''+'' then (if cs = [] then ''invalid digit found in string'' else digits_error mx 0 cs)
          else digits_error mx 0 s)"

definition u16_max :: nat where
  "u16_max = 65535"

section \<open>Splitting at the last separator\<close>

fun split_once :: "char \<Rightarrow> string \<Rightarrow> (string \<times> string) option" where
  "split_once sep [] = None"
| "split_once sep (c # cs) =
     (if c = sep then Some ([], cs)
      else map_option (\<lambda>(l, r). (c # l, r)) (split_once sep cs))"

definition rsplit_once :: "char \<Rightarrow> string \<Rightarrow> (string \<times> string) option" where
  "rsplit_once sep s = map_option (\<lambda>(l, r). (rev r, rev l)) (split_once sep (rev s))"

section \<open>IP addresses\<close>

datatype IpAddr = V4 "32 word" | V6 "128 word"

definition v4_from_octets :: "nat list \<Rightarrow> 32 word" where
  "v4_from_octets os = of_nat (foldl (\<lambda>acc b. acc * 256 + b) 0 os)"

definition v6_from_groups :: "nat list \<Rightarrow> 128 word" where
  "v6_from_groups gs = of_nat (foldl (\<lambda>acc g. acc * 65536 + g) 0 gs)"

type_synonym 'a parser = "string \<Rightarrow> ('a \<times> string) option"

fun take_digits :: "nat \<Rightarrow> string \<Rightarrow> nat list \<times> string" where
  "take_digits radix [] = ([], [])"
| "take_digits radix (c # cs) =
     (case to_digit radix c of
        None \<Rightarrow> ([], c # cs)
      | Some d \<Rightarrow> (let (ds, rest) = take_digits radix cs in (d # ds, rest)))"

definition read_number :: "nat \<Rightarrow> nat \<Rightarrow> bool \<Rightarrow> nat \<Rightarrow> nat parser" where
  "read_number radix max_digits allow_zero_prefix mx s =
     (let (ds, rest) = take_digits radix s;
          v = foldl (\<lambda>acc d. acc * radix + d) 0 ds
      in if ds = [] \<or> max_digits < length ds \<or> mx < v then None
         else if \<not> allow_zero_prefix \<and> hd ds = 0 \<and> 1 < length ds then None
         else Some (v, rest))"

definition read_separator :: "char \<Rightarrow> nat \<Rightarrow> 'a parser \<Rightarrow> 'a parser" where
  "read_separator sep index inner s =
     (if index = 0 then inner s
      else case s of [] \<Rightarrow> None | c # cs \<Rightarrow> if c = sep then inner cs else None)"

fun read_octets :: "nat \<Rightarrow> nat \<Rightarrow> nat list parser" where
  "read_octets 0 i s = Some ([], s)"
| "read_octets (Suc n) i s =
     (case read_separator CHR ''.'' i (read_number 10 3 False 255) s of
        None \<Rightarrow> None
      | Some (b, rest) \<Rightarrow>
          (case read_octets n (Suc i) rest of
             None \<Rightarrow> None
           | Some (bs, rest') \<Rightarrow> Some (b # bs, rest')))"

definition read_ipv4_addr :: "nat list parser" where
  "read_ipv4_addr = read_octets 4 0"

text \<open>\<open>read_groups\<close> returns the groups read, whether an IPv4 tail ended them, and the rest.\<close>

fun read_groups :: "nat \<Rightarrow> nat \<Rightarrow> string \<Rightarrow> nat list \<times> bool \<times> string" where
  "read_groups 0 i s = ([], False, s)"
| "read_groups (Suc n) i s =
     (case (if 0 < n then read_separator CHR '':'' i read_ipv4_addr s else None) of
        Some (bs, rest) \<Rightarrow>
          ([bs ! 0 * 256 + bs ! 1, bs ! 2 * 256 + bs ! 3], True, rest)
      | None \<Rightarrow>
          (case read_separator CHR '':'' i (read_number 16 4 True 65535) s of
             None \<Rightarrow> ([], False, s)
           | Some (g, rest) \<Rightarrow>
               (let (gs, v4, rest') = read_groups n (Suc i) rest in (g # gs, v4, rest'))))"

definition read_ipv6_addr :: "nat list parser" where
  "read_ipv6_addr s =
     (let (hd_groups, hd_v4, rest) = read_groups 8 0 s in
      if length hd_groups = 8 then Some (hd_groups, rest)
      else if hd_v4 then None
      else case rest of
        c # c' # rest' \<Rightarrow>
          if c = CHR '':'' \<and> c' = CHR '':'' then
            let (tl_groups, _, rest'') = read_groups (8 - (length hd_groups + 1)) 0 rest'
            in Some (hd_groups @ replicate (8 - length hd_groups - length tl_groups) 0 @ tl_groups,
                     rest'')
          else None
      | _ \<Rightarrow> None)"

definition parse_ip :: "string \<Rightarrow> IpAddr option" where
  "parse_ip s =
     (case read_ipv4_addr s of
        Some (os, rest) \<Rightarrow> if rest = [] then Some (V4 (v4_from_octets os)) else None
      | None \<Rightarrow>
          (case read_ipv6_addr s of
             Some (gs, rest) \<Rightarrow> if rest = [] then Some (V6 (v6_from_groups gs)) else None
           | None \<Rightarrow> None))"

definition ipv4_string :: "nat \<Rightarrow> nat \<Rightarrow> nat \<Rightarrow> nat \<Rightarrow> string" where
  "ipv4_string a b c d = dec a @ ''.'' @ dec b @ ''.'' @ dec c @ ''.'' @ dec d"

section \<open>Lemmas\<close>

lemma of_char_digit_char [simp]: "d < 10 \<Longrightarrow> (of_char (digit_char d) :: nat) = 48 + d"
  by (simp add: digit_char_def)

lemma to_digit_digit_char [simp]: "d < 10 \<Longrightarrow> to_digit 10 (digit_char d) = Some d"
  by (simp add: to_digit_def)

lemma digit_char_neq [simp]:
  "d < 10 \<Longrightarrow> digit_char d \<noteq> CHR '':''" "d < 10 \<Longrightarrow> digit_char d \<noteq> CHR ''+''"
  "d < 10 \<Longrightarrow> digit_char d \<noteq> CHR ''.''"
  by (auto dest: arg_cong [where f = "of_char :: char \<Rightarrow> nat"])

lemma dec_nonempty [simp]: "dec n \<noteq> []"
  by (subst dec.simps) auto

lemma dec_chars: "c \<in> set (dec n) \<Longrightarrow> \<exists>d<10. c = digit_char d"
proof (induction n rule: dec.induct)
  case (1 n)
  have "n mod 10 < 10" by simp
  with 1 show ?case by (subst (asm) (2) dec.simps) (force split: if_splits)
qed

lemma sep_notin_dec [simp]: "CHR '':'' \<notin> set (dec n)" "CHR ''.'' \<notin> set (dec n)"
  "CHR ''+'' \<notin> set (dec n)"
  using dec_chars digit_char_neq by metis+

lemma checked_digits_append:
  "checked_digits mx acc (xs @ ys) =
     (case checked_digits mx acc xs of None \<Rightarrow> None | Some a \<Rightarrow> checked_digits mx a ys)"
  by (induction xs arbitrary: acc) (auto split: option.splits)

lemma checked_digits_dec: "n \<le> mx \<Longrightarrow> checked_digits mx 0 (dec n) = Some n"
proof (induction n rule: dec.induct)
  case (1 n)
  show ?case
  proof (cases "n < 10")
    case True
    with 1 show ?thesis by (subst dec.simps) simp
  next
    case False
    with 1 have "checked_digits mx 0 (dec (n div 10)) = Some (n div 10)" by simp
    with False 1(2) show ?thesis by (subst dec.simps) (simp add: checked_digits_append)
  qed
qed

lemma parse_uint_dec: "n \<le> mx \<Longrightarrow> parse_uint mx (dec n) = Some n"
proof -
  assume "n \<le> mx"
  moreover obtain c cs where "dec n = c # cs" by (cases "dec n") auto
  moreover then have "c \<noteq> CHR ''+''" using sep_notin_dec(3) [of n] by auto
  ultimately show ?thesis
    using checked_digits_dec [of n mx] by (simp add: parse_uint_def)
qed

lemma dec_inj: "dec m = dec n \<Longrightarrow> m = n"
  by (metis le_add1 le_add2 option.inject parse_uint_dec)

lemma checked_digits_le: "checked_digits mx acc s = Some v \<Longrightarrow> acc \<le> mx \<Longrightarrow> v \<le> mx"
  by (induction s arbitrary: acc) (auto split: option.splits if_splits)

lemma parse_uint_le: "parse_uint mx s = Some v \<Longrightarrow> v \<le> mx"
  by (auto simp: parse_uint_def split: list.splits if_splits dest: checked_digits_le
      simp del: checked_digits.simps)

lemma split_once_notin: "sep \<notin> set xs \<Longrightarrow> split_once sep (xs @ sep # ys) = Some (xs, ys)"
  by (induction xs) auto

lemma split_once_Some:
  "split_once sep s = Some (l, r) \<Longrightarrow> s = l @ sep # r \<and> sep \<notin> set l"
  by (induction s arbitrary: l r) (auto split: if_splits)

lemma split_once_None: "split_once sep s = None \<longleftrightarrow> sep \<notin> set s"
  by (induction s) auto

lemma rsplit_once_notin: "sep \<notin> set ys \<Longrightarrow> rsplit_once sep (xs @ sep # ys) = Some (xs, ys)"
  by (simp add: rsplit_once_def split_once_notin)

lemma rsplit_once_Some:
  assumes "rsplit_once sep s = Some (l, r)"
  shows "s = l @ sep # r \<and> sep \<notin> set r"
proof -
  obtain l' r' where lr: "split_once sep (rev s) = Some (l', r')" "l = rev r'" "r = rev l'"
    using assms by (auto simp: rsplit_once_def)
  then have "rev s = l' @ sep # r'" and "sep \<notin> set l'" using split_once_Some by blast+
  then have "rev (rev s) = rev (l' @ sep # r')" by simp
  with lr \<open>sep \<notin> set l'\<close> show ?thesis by simp
qed

lemma rsplit_once_None: "rsplit_once sep s = None \<longleftrightarrow> sep \<notin> set s"
  by (simp add: rsplit_once_def split_once_None)

subsection \<open>Dotted quads\<close>

lemma take_digits_append:
  assumes "\<forall>c\<in>set xs. to_digit 10 c \<noteq> None"
    and "case ys of [] \<Rightarrow> True | c # _ \<Rightarrow> to_digit 10 c = None"
  shows "take_digits 10 (xs @ ys) = (map (\<lambda>c. the (to_digit 10 c)) xs, ys)"
  using assms(1)
proof (induction xs)
  case Nil
  show ?case using assms(2) by (cases ys) auto
next
  case (Cons c xs)
  then show ?case by (auto split: option.splits)
qed

lemma dec_digits_value: "foldl (\<lambda>acc d. acc * 10 + d) 0 (map (\<lambda>c. the (to_digit 10 c)) (dec n)) = n"
proof (induction n rule: dec.induct)
  case (1 n)
  then show ?case by (cases "n < 10") (subst dec.simps, simp)+
qed

lemma dec_digits_ok: "\<forall>c\<in>set (dec n). to_digit 10 c \<noteq> None"
  using dec_chars to_digit_digit_char by fastforce

lemma length_dec_le_3: "n \<le> 255 \<Longrightarrow> length (dec n) \<le> 3"
  by (subst dec.simps, simp, subst dec.simps, simp, subst dec.simps, simp)

lemma hd_dec_zero:
  "the (to_digit 10 (hd (dec n))) = 0 \<Longrightarrow> n = 0"
proof (induction n rule: dec.induct)
  case (1 n)
  show ?case
  proof (cases "n < 10")
    case True
    with 1(2) show ?thesis by (subst (asm) dec.simps) simp
  next
    case False
    then have "hd (dec n) = hd (dec (n div 10))" by (subst dec.simps) simp
    with 1 False have "n div 10 = 0" by simp
    with False show ?thesis by simp
  qed
qed

lemma read_number_dec:
  assumes "n \<le> 255" "case ys of [] \<Rightarrow> True | c # _ \<Rightarrow> to_digit 10 c = None"
  shows "read_number 10 3 False 255 (dec n @ ys) = Some (n, ys)"
proof -
  have hd: "hd (map (\<lambda>c. the (to_digit 10 c)) (dec n)) = the (to_digit 10 (hd (dec n)))"
    by (rule list.map_sel) simp
  have "length (dec n) = 1" if "the (to_digit 10 (hd (dec n))) = 0"
    using hd_dec_zero [OF that] by (simp add: dec.simps)
  with hd show ?thesis
    using take_digits_append [OF dec_digits_ok assms(2)] length_dec_le_3 [OF assms(1)] assms(1)
    by (auto simp: read_number_def dec_digits_value)
qed

lemma to_digit_dot [simp]: "to_digit 10 CHR ''.'' = None"
  by code_simp

lemma read_ipv4_string:
  assumes "a \<le> 255" "b \<le> 255" "c \<le> 255" "d \<le> 255"
  shows "read_ipv4_addr (ipv4_string a b c d) = Some ([a, b, c, d], [])"
proof -
  have four: "(4::nat) = Suc (Suc (Suc (Suc 0)))" by simp
  show ?thesis
    unfolding read_ipv4_addr_def four using assms
    by (simp add: ipv4_string_def read_separator_def read_number_dec
        read_number_dec [where ys = "[]", simplified])
qed

lemma parse_ip_ipv4_string:
  "a \<le> 255 \<Longrightarrow> b \<le> 255 \<Longrightarrow> c \<le> 255 \<Longrightarrow> d \<le> 255 \<Longrightarrow>
     parse_ip (ipv4_string a b c d) = Some (V4 (v4_from_octets [a, b, c, d]))"
  by (simp add: parse_ip_def read_ipv4_string)

end
