(* ===== verification/Core_Errors.thy ===== *)
theory Core_Errors
  imports Std_Text
begin

text \<open>
  The cross-crate error type of \<open>crates/spt-core\<close>: \<open>diagnostic.rs\<close> (structured diagnostics and
  their rendering), \<open>error.rs\<close> (the error enumeration) and \<open>exit_code.rs\<close> (the process exit code
  every error maps to).  Paths are strings.
\<close>

section \<open>Diagnostics\<close>

datatype RetryAdvice = NotRetryable | RetryAfter duration | RetryImmediately | RetryWithBackoff

definition retry_advice_string :: "RetryAdvice \<Rightarrow> string" where
  "retry_advice_string r =
     (case r of
        NotRetryable \<Rightarrow> ''not retryable''
      | RetryAfter d \<Rightarrow> ''retry after '' @ dec (as_secs d) @ ''s''
      | RetryImmediately \<Rightarrow> ''retry immediately''
      | RetryWithBackoff \<Rightarrow> ''retry with backoff'')"

record Diagnostic =
  dg_what :: string
  dg_why :: "string option"
  dg_how_to_fix :: "string option"
  dg_file_path :: "string option"
  dg_line_no :: "nat option"
  dg_endpoint :: "string option"
  dg_retry_advice :: "RetryAdvice option"

definition diagnostic_what :: "string \<Rightarrow> Diagnostic" where
  "diagnostic_what s =
     \<lparr>dg_what = s, dg_why = None, dg_how_to_fix = None, dg_file_path = None,
      dg_line_no = None, dg_endpoint = None, dg_retry_advice = None\<rparr>"

definition opt_line :: "string \<Rightarrow> string option \<Rightarrow> string" where
  "opt_line label v = (case v of None \<Rightarrow> [] | Some s \<Rightarrow> label @ s)"

definition newline :: char where
  "newline = char_of (10 :: nat)"

definition render :: "Diagnostic \<Rightarrow> string" where
  "render d =
     dg_what d
     @ opt_line (newline # ''  why: '') (dg_why d)
     @ opt_line (newline # ''  how to fix: '') (dg_how_to_fix d)
     @ (case (dg_file_path d, dg_line_no d) of
          (Some p, Some l) \<Rightarrow> newline # ''  at: '' @ p @ '':'' @ dec l
        | (Some p, None) \<Rightarrow> newline # ''  at: '' @ p
        | (None, Some l) \<Rightarrow> newline # ''  at line '' @ dec l
        | (None, None) \<Rightarrow> [])
     @ opt_line (newline # ''  endpoint: '') (dg_endpoint d)
     @ opt_line (newline # ''  retry: '') (map_option retry_advice_string (dg_retry_advice d))"

section \<open>Errors\<close>

datatype (plugins only: code size) spt_error =
    Err_InvalidArgs string
  | Err_InvalidConfig string
  | Err_RuntimeFailure string
  | Err_RequiredProfileFailed string string
  | Err_AuthFailed string
  | Err_TrustFailed string
  | Err_LocalBindFailed string string
  | Err_RemoteBindFailed string string
  | Err_ServiceManagerFailed string
  | Err_UnsupportedPlatform string
  | Err_DnsFailed string
  | Err_NetworkUnreachable string
  | Err_KeepaliveTimeout nat
  | Err_ReloadFailed string
  | Err_LoggingSinkUnavailable string string
  | Err_StateLockFailed string string
  | Err_SecretUnavailable string string
  | Err_SecretCryptoFailed string
  | Err_KeyFailure string
  | Err_PermissionDenied string
  | Err_ResourceExhausted string
  | Err_RateLimited string
  | Err_FailoverExhausted string
  | Err_SnmpOrMetricsFailed string
  | Err_WindowsEventLogFailed string
  | Err_McpFailed string
  | Err_RemoteSinkRejected string string
  | Err_PartialDegraded "string list"
  | Err_HealthCheckFailed string string
  | Err_VersionOrMigrationFailed string
  | Err_InternalError string
  | Err_DiagnosticFailed string string
  | Err_DiagnosticBundleFailed string
  | Err_BenchmarkFailed string
  | Err_BenchmarkRefused string
  | Err_SessionNotFound string
  | Err_SessionCloseFailed string
  | Err_InvalidConfigDiagnostic Diagnostic
  | Err_RuntimeFailureDiagnostic Diagnostic
  | Err_AuthFailedDiagnostic Diagnostic
  | Err_NetworkUnreachableDiagnostic Diagnostic

section \<open>Exit codes\<close>

datatype (plugins only: code size) ExitCode =
    X_Success | X_InvalidArgs | X_InvalidConfig | X_RuntimeFailure | X_RequiredProfileFailed
  | X_AuthFailed | X_TrustFailed | X_LocalBindFailed | X_RemoteBindFailed
  | X_ServiceManagerFailed | X_UnsupportedPlatform | X_DnsFailed | X_NetworkUnreachable
  | X_KeepaliveTimeout | X_ReloadFailed | X_LoggingSinkUnavailable | X_StateLockFailed
  | X_SecretUnavailable | X_SecretCryptoFailed | X_KeyFailure | X_PermissionDenied
  | X_ResourceExhausted | X_RateLimited | X_FailoverExhausted | X_SnmpOrMetricsFailed
  | X_WindowsEventLogFailed | X_McpFailed | X_RemoteSinkRejected | X_PartialDegraded
  | X_HealthCheckFailed | X_VersionOrMigrationFailed | X_InternalError | X_DiagnosticFailed
  | X_DiagnosticBundleFailed | X_BenchmarkFailed | X_BenchmarkRefused | X_SessionNotFound
  | X_SessionCloseFailed

definition all_exit_codes :: "ExitCode list" where
  "all_exit_codes =
     [X_Success, X_InvalidArgs, X_InvalidConfig, X_RuntimeFailure, X_RequiredProfileFailed,
      X_AuthFailed, X_TrustFailed, X_LocalBindFailed, X_RemoteBindFailed,
      X_ServiceManagerFailed, X_UnsupportedPlatform, X_DnsFailed, X_NetworkUnreachable,
      X_KeepaliveTimeout, X_ReloadFailed, X_LoggingSinkUnavailable, X_StateLockFailed,
      X_SecretUnavailable, X_SecretCryptoFailed, X_KeyFailure, X_PermissionDenied,
      X_ResourceExhausted, X_RateLimited, X_FailoverExhausted, X_SnmpOrMetricsFailed,
      X_WindowsEventLogFailed, X_McpFailed, X_RemoteSinkRejected, X_PartialDegraded,
      X_HealthCheckFailed, X_VersionOrMigrationFailed, X_InternalError, X_DiagnosticFailed,
      X_DiagnosticBundleFailed, X_BenchmarkFailed, X_BenchmarkRefused, X_SessionNotFound,
      X_SessionCloseFailed]"

primrec as_i32 :: "ExitCode \<Rightarrow> int" where
  "as_i32 X_Success = 0"
| "as_i32 X_InvalidArgs = 1"
| "as_i32 X_InvalidConfig = 2"
| "as_i32 X_RuntimeFailure = 3"
| "as_i32 X_RequiredProfileFailed = 4"
| "as_i32 X_AuthFailed = 5"
| "as_i32 X_TrustFailed = 6"
| "as_i32 X_LocalBindFailed = 7"
| "as_i32 X_RemoteBindFailed = 8"
| "as_i32 X_ServiceManagerFailed = 9"
| "as_i32 X_UnsupportedPlatform = 10"
| "as_i32 X_DnsFailed = 11"
| "as_i32 X_NetworkUnreachable = 12"
| "as_i32 X_KeepaliveTimeout = 13"
| "as_i32 X_ReloadFailed = 14"
| "as_i32 X_LoggingSinkUnavailable = 15"
| "as_i32 X_StateLockFailed = 16"
| "as_i32 X_SecretUnavailable = 17"
| "as_i32 X_SecretCryptoFailed = 18"
| "as_i32 X_KeyFailure = 19"
| "as_i32 X_PermissionDenied = 20"
| "as_i32 X_ResourceExhausted = 21"
| "as_i32 X_RateLimited = 22"
| "as_i32 X_FailoverExhausted = 23"
| "as_i32 X_SnmpOrMetricsFailed = 24"
| "as_i32 X_WindowsEventLogFailed = 25"
| "as_i32 X_McpFailed = 26"
| "as_i32 X_RemoteSinkRejected = 27"
| "as_i32 X_PartialDegraded = 28"
| "as_i32 X_HealthCheckFailed = 29"
| "as_i32 X_VersionOrMigrationFailed = 30"
| "as_i32 X_InternalError = 31"
| "as_i32 X_DiagnosticFailed = 32"
| "as_i32 X_DiagnosticBundleFailed = 33"
| "as_i32 X_BenchmarkFailed = 34"
| "as_i32 X_BenchmarkRefused = 35"
| "as_i32 X_SessionNotFound = 36"
| "as_i32 X_SessionCloseFailed = 37"

primrec exit_code :: "spt_error \<Rightarrow> ExitCode" where
  "exit_code (Err_InvalidArgs _) = X_InvalidArgs"
| "exit_code (Err_InvalidConfig _) = X_InvalidConfig"
| "exit_code (Err_InvalidConfigDiagnostic _) = X_InvalidConfig"
| "exit_code (Err_RuntimeFailure _) = X_RuntimeFailure"
| "exit_code (Err_RuntimeFailureDiagnostic _) = X_RuntimeFailure"
| "exit_code (Err_RequiredProfileFailed _ _) = X_RequiredProfileFailed"
| "exit_code (Err_AuthFailed _) = X_AuthFailed"
| "exit_code (Err_AuthFailedDiagnostic _) = X_AuthFailed"
| "exit_code (Err_TrustFailed _) = X_TrustFailed"
| "exit_code (Err_LocalBindFailed _ _) = X_LocalBindFailed"
| "exit_code (Err_RemoteBindFailed _ _) = X_RemoteBindFailed"
| "exit_code (Err_ServiceManagerFailed _) = X_ServiceManagerFailed"
| "exit_code (Err_UnsupportedPlatform _) = X_UnsupportedPlatform"
| "exit_code (Err_DnsFailed _) = X_DnsFailed"
| "exit_code (Err_NetworkUnreachable _) = X_NetworkUnreachable"
| "exit_code (Err_NetworkUnreachableDiagnostic _) = X_NetworkUnreachable"
| "exit_code (Err_KeepaliveTimeout _) = X_KeepaliveTimeout"
| "exit_code (Err_ReloadFailed _) = X_ReloadFailed"
| "exit_code (Err_LoggingSinkUnavailable _ _) = X_LoggingSinkUnavailable"
| "exit_code (Err_StateLockFailed _ _) = X_StateLockFailed"
| "exit_code (Err_SecretUnavailable _ _) = X_SecretUnavailable"
| "exit_code (Err_SecretCryptoFailed _) = X_SecretCryptoFailed"
| "exit_code (Err_KeyFailure _) = X_KeyFailure"
| "exit_code (Err_PermissionDenied _) = X_PermissionDenied"
| "exit_code (Err_ResourceExhausted _) = X_ResourceExhausted"
| "exit_code (Err_RateLimited _) = X_RateLimited"
| "exit_code (Err_FailoverExhausted _) = X_FailoverExhausted"
| "exit_code (Err_SnmpOrMetricsFailed _) = X_SnmpOrMetricsFailed"
| "exit_code (Err_WindowsEventLogFailed _) = X_WindowsEventLogFailed"
| "exit_code (Err_McpFailed _) = X_McpFailed"
| "exit_code (Err_RemoteSinkRejected _ _) = X_RemoteSinkRejected"
| "exit_code (Err_PartialDegraded _) = X_PartialDegraded"
| "exit_code (Err_HealthCheckFailed _ _) = X_HealthCheckFailed"
| "exit_code (Err_VersionOrMigrationFailed _) = X_VersionOrMigrationFailed"
| "exit_code (Err_InternalError _) = X_InternalError"
| "exit_code (Err_DiagnosticFailed _ _) = X_DiagnosticFailed"
| "exit_code (Err_DiagnosticBundleFailed _) = X_DiagnosticBundleFailed"
| "exit_code (Err_BenchmarkFailed _) = X_BenchmarkFailed"
| "exit_code (Err_BenchmarkRefused _) = X_BenchmarkRefused"
| "exit_code (Err_SessionNotFound _) = X_SessionNotFound"
| "exit_code (Err_SessionCloseFailed _) = X_SessionCloseFailed"

definition diagnostic :: "spt_error \<Rightarrow> Diagnostic option" where
  "diagnostic e =
     (case e of
        Err_InvalidConfigDiagnostic d \<Rightarrow> Some d
      | Err_RuntimeFailureDiagnostic d \<Rightarrow> Some d
      | Err_AuthFailedDiagnostic d \<Rightarrow> Some d
      | Err_NetworkUnreachableDiagnostic d \<Rightarrow> Some d
      | _ \<Rightarrow> None)"

section \<open>Lemmas\<close>

lemma all_exit_codes_complete: "c \<in> set all_exit_codes"
  by (cases c) (simp_all add: all_exit_codes_def)

lemma as_i32_nth: "map as_i32 all_exit_codes = map int [0..<38]"
  by code_simp

lemma as_i32_inj: "inj as_i32"
proof (rule injI)
  fix c c' assume eq: "as_i32 c = as_i32 c'"
  have "distinct (map as_i32 all_exit_codes)"
    by (simp add: as_i32_nth distinct_map inj_on_def)
  then have "inj_on as_i32 (set all_exit_codes)" by (simp add: distinct_map)
  with eq show "c = c'" using all_exit_codes_complete by (auto dest: inj_onD)
qed

lemma range_as_i32: "range as_i32 = {0..<38}"
proof -
  have "set (map as_i32 all_exit_codes) = int ` {0..<38}" by (simp only: as_i32_nth) simp
  moreover have "set all_exit_codes = UNIV" using all_exit_codes_complete by auto
  moreover have "int ` {0..<38} = {0..<38}" using image_int_atLeastLessThan [of 0 38] by simp
  ultimately show ?thesis by simp
qed

lemma exit_code_not_success: "exit_code e \<noteq> X_Success"
  by (cases e) simp_all

lemma exit_code_onto: "c \<noteq> X_Success \<Longrightarrow> \<exists>e. exit_code e = c"
  by (cases c) (metis exit_code.simps)+

section \<open>Properties\<close>

text \<open>
  The exit codes are the numbers 0 to 37, each used once; a failing process never exits with
  the success code; and every failure code is the exit code of some error.
\<close>
theorem exit_codes_exact:
  "inj as_i32 \<and> range as_i32 = {0..<38}
   \<and> as_i32 ` range exit_code = {1..<38}"
proof -
  have "range exit_code = UNIV - {X_Success}"
    using exit_code_not_success exit_code_onto by (auto simp: image_iff)
  then have "as_i32 ` range exit_code = range as_i32 - {as_i32 X_Success}"
    using as_i32_inj by (simp add: image_set_diff)
  also have "\<dots> = {1..<38}" by (auto simp: range_as_i32)
  finally show ?thesis using as_i32_inj range_as_i32 by blast
qed

end
