(* ===== verification/Protocol_Types.thy ===== *)
theory Protocol_Types
  imports Core_Errors
begin

text \<open>
  The data the tunnel protocol and the supervisor exchange: endpoints and target addresses
  (\<open>crates/spt-protocol/src/endpoint.rs\<close>), bind addresses (\<open>crates/spt-core/src/address.rs\<close>),
  forward specifications and forward states (\<open>crates/spt-protocol/src/forward.rs\<close>).
\<close>

section \<open>Endpoints and addresses\<close>

datatype AddressFamily = AF_Ipv4 | AF_Ipv6

record Endpoint =
  ep_host :: string
  ep_port :: nat
  ep_address_family :: "AddressFamily option"
  ep_priority :: nat
  ep_weight :: nat

definition endpoint_new :: "string \<Rightarrow> nat \<Rightarrow> Endpoint" where
  "endpoint_new host port =
     \<lparr>ep_host = host, ep_port = port, ep_address_family = None, ep_priority = 0, ep_weight = 1\<rparr>"

definition endpoint_id :: "Endpoint \<Rightarrow> string" where
  "endpoint_id ep = ep_host ep @ '':'' @ dec (ep_port ep)"

datatype TargetResolve = TR_Remote | TR_Local | TR_PreviousHop

definition target_resolve_from_config :: "string \<Rightarrow> TargetResolve option" where
  "target_resolve_from_config s =
     (if s = ''remote'' then Some TR_Remote
      else if s = ''local'' then Some TR_Local
      else if s = ''previous-hop'' \<or> s = ''previous_hop'' then Some TR_PreviousHop
      else None)"

definition target_is_local :: "TargetResolve \<Rightarrow> bool" where
  "target_is_local t \<longleftrightarrow> t = TR_Local"

record TargetAddr =
  ta_host :: string
  ta_port :: nat

type_synonym SocketAddr = "IpAddr \<times> nat"

datatype BindAddr = BA_Tcp SocketAddr | BA_Unix string | BA_TcpHostPort string nat

section \<open>Forwards\<close>

record ForwardRateLimits =
  rate_bps_up :: nat
  rate_bps_down :: nat
  burst_up :: nat
  burst_down :: nat
  max_new_conns_per_sec :: nat
  max_packets_per_sec :: nat
  max_datagram_size :: nat

definition default_rate_limits :: ForwardRateLimits where
  "default_rate_limits =
     \<lparr>rate_bps_up = 0, rate_bps_down = 0, burst_up = 0, burst_down = 0,
      max_new_conns_per_sec = 0, max_packets_per_sec = 0, max_datagram_size = 0\<rparr>"

definition is_unlimited :: "ForwardRateLimits \<Rightarrow> bool" where
  "is_unlimited l \<longleftrightarrow>
     rate_bps_up l = 0 \<and> rate_bps_down l = 0 \<and> burst_up l = 0 \<and> burst_down l = 0
     \<and> max_new_conns_per_sec l = 0 \<and> max_packets_per_sec l = 0"

datatype BindConflictPolicy = BCP_Fail | BCP_Retry | BCP_NextPort

datatype ForwardDirection = FD_Local | FD_Remote

record LocalForwardSpec =
  lf_name :: string
  lf_listen :: BindAddr
  lf_target :: TargetAddr
  lf_max_connections :: "nat option"
  lf_limits :: ForwardRateLimits
  lf_idle_timeout :: "duration option"
  lf_on_bind_conflict :: BindConflictPolicy
  lf_required :: bool

record RemoteForwardSpec =
  rf_name :: string
  rf_listen :: BindAddr
  rf_target :: TargetAddr
  rf_max_connections :: "nat option"
  rf_limits :: ForwardRateLimits
  rf_idle_timeout :: "duration option"
  rf_on_bind_conflict :: BindConflictPolicy
  rf_required :: bool

record DynamicForwardSpec =
  df_name :: string
  df_listen :: BindAddr
  df_max_connections :: "nat option"
  df_allow_socks4 :: bool
  df_allow_socks4a :: bool
  df_allow_socks5 :: bool
  df_allow_http_connect :: bool
  df_allow_targets :: "string list"
  df_deny_targets :: "string list"
  df_limits :: ForwardRateLimits
  df_idle_timeout :: "duration option"
  df_on_bind_conflict :: BindConflictPolicy
  df_required :: bool

record UdpForwardSpec =
  uf_name :: string
  uf_direction :: ForwardDirection
  uf_listen :: BindAddr
  uf_target :: TargetAddr
  uf_idle_timeout_secs :: nat
  uf_max_flows :: "nat option"
  uf_limits :: ForwardRateLimits

record UdsForwardSpec =
  us_name :: string
  us_listen_path :: string
  us_remote_socket_path :: string
  us_limits :: ForwardRateLimits
  us_required :: bool

record RemoteUdsForwardSpec =
  ru_name :: string
  ru_remote_socket_path :: string
  ru_local_socket_path :: string
  ru_limits :: ForwardRateLimits
  ru_idle_timeout :: "duration option"
  ru_required :: bool

datatype ForwardState =
    F_Disabled | F_Binding | F_Listening | F_RemoteRequested | F_Active | F_Degraded
  | F_RetryWait | F_Stopped | F_Failed

definition forward_is_terminal :: "ForwardState \<Rightarrow> bool" where
  "forward_is_terminal s \<longleftrightarrow> s \<in> {F_Stopped, F_Failed, F_Disabled}"

section \<open>Lemmas\<close>

text \<open>The identifier of an endpoint determines its host and its port.\<close>

lemma rsplit_endpoint_id: "rsplit_once CHR '':'' (endpoint_id ep) = Some (ep_host ep, dec (ep_port ep))"
  by (simp add: endpoint_id_def rsplit_once_notin)

lemma endpoint_id_eq_iff:
  "endpoint_id e = endpoint_id e' \<longleftrightarrow> ep_host e = ep_host e' \<and> ep_port e = ep_port e'"
proof
  assume eq: "endpoint_id e = endpoint_id e'"
  have "Some (ep_host e, dec (ep_port e)) = Some (ep_host e', dec (ep_port e'))"
    unfolding rsplit_endpoint_id [symmetric] eq ..
  then show "ep_host e = ep_host e' \<and> ep_port e = ep_port e'" using dec_inj by auto
qed (simp add: endpoint_id_def)

end
