(* ===== verification/Policy_Selectors.thy ===== *)
theory Policy_Selectors
  imports Protocol_Types
begin

text \<open>
  The selection policies of \<open>crates/spt-supervisor/src/round_robin.rs\<close> with the configuration of
  \<open>crates/spt-config/src/round_robin.rs\<close>: the shared health core, the five selectors behind the
  \<open>EndpointSelector\<close> trait, the factory, and the DNS round-robin resolver.

  Every call takes the instant its clock reads as an argument.  A random index comes from
  \<open>draw\<close>: \<open>draw n\<close> is the value of \<open>gen_range(0..n)\<close>, of which only \<open>draw n < n\<close> is assumed.
  The \<open>HashMap\<close>s are maps.
\<close>

section \<open>Configuration\<close>

datatype SelectionPolicy = SP_RoundRobin | SP_Random | SP_Weighted | SP_Sticky | SP_LeastErrors

record RoundRobinConfig =
  rrc_enabled :: bool
  rrc_policy :: SelectionPolicy
  rrc_dns_round_robin :: bool
  rrc_dns_refresh_interval :: duration
  rrc_cooldown_after_failure :: duration
  rrc_sticky_session_ttl :: duration

definition default_round_robin_config :: RoundRobinConfig where
  "default_round_robin_config =
     \<lparr>rrc_enabled = False, rrc_policy = SP_RoundRobin, rrc_dns_round_robin = False,
      rrc_dns_refresh_interval = from_secs 60, rrc_cooldown_after_failure = from_secs 30,
      rrc_sticky_session_ttl = from_secs (5 * 60)\<rparr>"

section \<open>The shared core\<close>

record EndpointPick =
  pick_id :: string
  pick_addr :: SocketAddr
  pick_weight :: nat

datatype EndpointHealth = Healthy | Cooldown instant | Failed

record SelectorCore =
  core_endpoints :: "Endpoint list"
  core_health :: "string \<rightharpoonup> EndpointHealth"
  core_cooldown :: duration
  core_manual :: "string option"

definition core_new :: "Endpoint list \<Rightarrow> RoundRobinConfig \<Rightarrow> SelectorCore" where
  "core_new endpoints cfg =
     \<lparr>core_endpoints = endpoints,
      core_health = map_of (map (\<lambda>e. (endpoint_id e, Healthy)) endpoints),
      core_cooldown = rrc_cooldown_after_failure cfg,
      core_manual = None\<rparr>"

definition is_healthy :: "instant \<Rightarrow> SelectorCore \<Rightarrow> string \<Rightarrow> bool" where
  "is_healthy now c eid =
     (case core_health c eid of
        Some Healthy \<Rightarrow> True
      | Some (Cooldown until) \<Rightarrow> until \<le> now
      | Some Failed \<Rightarrow> False
      | None \<Rightarrow> False)"

definition promote :: "instant \<Rightarrow> EndpointHealth \<Rightarrow> EndpointHealth" where
  "promote now h =
     (case h of Cooldown t \<Rightarrow> if t \<le> now then Healthy else h | _ \<Rightarrow> h)"

definition refresh_health :: "instant \<Rightarrow> SelectorCore \<Rightarrow> SelectorCore" where
  "refresh_health now c = c\<lparr>core_health := map_option (promote now) \<circ> core_health c\<rparr>"

definition core_record_success :: "string \<Rightarrow> SelectorCore \<Rightarrow> SelectorCore" where
  "core_record_success eid c = c\<lparr>core_health := (core_health c)(eid \<mapsto> Healthy)\<rparr>"

definition core_record_failure ::
  "instant \<Rightarrow> string \<Rightarrow> spt_error \<Rightarrow> SelectorCore \<Rightarrow> SelectorCore" where
  "core_record_failure now eid err c =
     c\<lparr>core_health := (core_health c)(eid \<mapsto> Cooldown (now + core_cooldown c))\<rparr>"

definition core_manual_override :: "string \<Rightarrow> SelectorCore \<Rightarrow> SelectorCore" where
  "core_manual_override eid c = c\<lparr>core_manual := (if eid = [] then None else Some eid)\<rparr>"

definition make_pick :: "Endpoint \<Rightarrow> EndpointPick" where
  "make_pick ep =
     \<lparr>pick_id = endpoint_id ep,
      pick_addr = (case parse_ip (ep_host ep) of Some ip \<Rightarrow> ip | None \<Rightarrow> V4 0, ep_port ep),
      pick_weight = ep_weight ep\<rparr>"

definition find_endpoint :: "string \<Rightarrow> Endpoint list \<Rightarrow> Endpoint option" where
  "find_endpoint eid eps = List.find (\<lambda>e. endpoint_id e = eid) eps"

definition manual_pick :: "instant \<Rightarrow> SelectorCore \<Rightarrow> EndpointPick option" where
  "manual_pick now c =
     (case core_manual c of
        None \<Rightarrow> None
      | Some eid \<Rightarrow>
          if \<not> is_healthy now c eid then None
          else map_option make_pick (find_endpoint eid (core_endpoints c)))"

definition healthy_endpoints :: "instant \<Rightarrow> SelectorCore \<Rightarrow> Endpoint list" where
  "healthy_endpoints now c =
     filter (\<lambda>e. is_healthy now c (endpoint_id e)) (core_endpoints c)"

section \<open>Round robin\<close>

record RoundRobinSelector =
  rr_core :: SelectorCore
  rr_cursor :: nat

definition rr_new :: "Endpoint list \<Rightarrow> RoundRobinConfig \<Rightarrow> RoundRobinSelector" where
  "rr_new endpoints cfg = \<lparr>rr_core = core_new endpoints cfg, rr_cursor = 0\<rparr>"

text \<open>The loop \<open>for _ in 0..n\<close> with the cursor as state.\<close>

fun scan_from :: "instant \<Rightarrow> SelectorCore \<Rightarrow> nat \<Rightarrow> nat \<Rightarrow> Endpoint option \<times> nat" where
  "scan_from now c 0 cursor = (None, cursor)"
| "scan_from now c (Suc k) cursor =
     (let ep = core_endpoints c ! (cursor mod length (core_endpoints c));
          cursor' = wrapping_add_usize cursor 1
      in if is_healthy now c (endpoint_id ep) then (Some ep, cursor')
         else scan_from now c k cursor')"

definition rr_next ::
  "(nat \<Rightarrow> nat) \<Rightarrow> instant \<Rightarrow> RoundRobinSelector \<Rightarrow> EndpointPick option \<times> RoundRobinSelector" where
  "rr_next draw now s =
     (let c = refresh_health now (rr_core s); s1 = s\<lparr>rr_core := c\<rparr> in
      case manual_pick now c of
        Some p \<Rightarrow> (Some p, s1)
      | None \<Rightarrow>
          if core_endpoints c = [] then (None, s1)
          else
            let (found, cursor) = scan_from now c (length (core_endpoints c)) (rr_cursor s)
            in (map_option make_pick found, s1\<lparr>rr_cursor := cursor\<rparr>))"

definition rr_success :: "string \<Rightarrow> RoundRobinSelector \<Rightarrow> RoundRobinSelector" where
  "rr_success eid s = s\<lparr>rr_core := core_record_success eid (rr_core s)\<rparr>"

definition rr_failure ::
  "instant \<Rightarrow> string \<Rightarrow> spt_error \<Rightarrow> RoundRobinSelector \<Rightarrow> RoundRobinSelector" where
  "rr_failure now eid err s = s\<lparr>rr_core := core_record_failure now eid err (rr_core s)\<rparr>"

definition rr_override :: "string \<Rightarrow> RoundRobinSelector \<Rightarrow> RoundRobinSelector" where
  "rr_override eid s = s\<lparr>rr_core := core_manual_override eid (rr_core s)\<rparr>"

section \<open>Random and weighted\<close>

record RandomSelector =
  rnd_core :: SelectorCore

definition rnd_new :: "Endpoint list \<Rightarrow> RoundRobinConfig \<Rightarrow> RandomSelector" where
  "rnd_new endpoints cfg = \<lparr>rnd_core = core_new endpoints cfg\<rparr>"

definition rnd_next ::
  "(nat \<Rightarrow> nat) \<Rightarrow> instant \<Rightarrow> RandomSelector \<Rightarrow> EndpointPick option \<times> RandomSelector" where
  "rnd_next draw now s =
     (let c = refresh_health now (rnd_core s); s1 = s\<lparr>rnd_core := c\<rparr> in
      case manual_pick now c of
        Some p \<Rightarrow> (Some p, s1)
      | None \<Rightarrow>
          (let healthy = healthy_endpoints now c in
           if healthy = [] then (None, s1)
           else (Some (make_pick (healthy ! draw (length healthy))), s1)))"

definition rnd_success :: "string \<Rightarrow> RandomSelector \<Rightarrow> RandomSelector" where
  "rnd_success eid s = s\<lparr>rnd_core := core_record_success eid (rnd_core s)\<rparr>"

definition rnd_failure ::
  "instant \<Rightarrow> string \<Rightarrow> spt_error \<Rightarrow> RandomSelector \<Rightarrow> RandomSelector" where
  "rnd_failure now eid err s = s\<lparr>rnd_core := core_record_failure now eid err (rnd_core s)\<rparr>"

definition rnd_override :: "string \<Rightarrow> RandomSelector \<Rightarrow> RandomSelector" where
  "rnd_override eid s = s\<lparr>rnd_core := core_manual_override eid (rnd_core s)\<rparr>"

record WeightedSelector =
  wt_core :: SelectorCore

definition wt_new :: "Endpoint list \<Rightarrow> RoundRobinConfig \<Rightarrow> WeightedSelector" where
  "wt_new endpoints cfg = \<lparr>wt_core = core_new endpoints cfg\<rparr>"

definition eff_weight :: "Endpoint \<Rightarrow> nat" where
  "eff_weight e = max (ep_weight e) 1"

definition total_weight :: "Endpoint list \<Rightarrow> nat" where
  "total_weight eps = sum_list (map eff_weight eps)"

fun weighted_scan :: "Endpoint list \<Rightarrow> nat \<Rightarrow> nat \<Rightarrow> Endpoint option" where
  "weighted_scan [] acc roll = None"
| "weighted_scan (e # es) acc roll =
     (let acc' = acc + eff_weight e in
      if roll < acc' then Some e else weighted_scan es acc' roll)"

definition wt_next ::
  "(nat \<Rightarrow> nat) \<Rightarrow> instant \<Rightarrow> WeightedSelector \<Rightarrow> EndpointPick option \<times> WeightedSelector" where
  "wt_next draw now s =
     (let c = refresh_health now (wt_core s); s1 = s\<lparr>wt_core := c\<rparr> in
      case manual_pick now c of
        Some p \<Rightarrow> (Some p, s1)
      | None \<Rightarrow>
          (let healthy = healthy_endpoints now c in
           if healthy = [] then (None, s1)
           else
             let total = total_weight healthy in
             if total = 0 then (Some (make_pick (hd healthy)), s1)
             else
               case weighted_scan healthy 0 (draw total) of
                 Some e \<Rightarrow> (Some (make_pick e), s1)
               | None \<Rightarrow> (Some (make_pick (last healthy)), s1)))"

definition wt_success :: "string \<Rightarrow> WeightedSelector \<Rightarrow> WeightedSelector" where
  "wt_success eid s = s\<lparr>wt_core := core_record_success eid (wt_core s)\<rparr>"

definition wt_failure ::
  "instant \<Rightarrow> string \<Rightarrow> spt_error \<Rightarrow> WeightedSelector \<Rightarrow> WeightedSelector" where
  "wt_failure now eid err s = s\<lparr>wt_core := core_record_failure now eid err (wt_core s)\<rparr>"

definition wt_override :: "string \<Rightarrow> WeightedSelector \<Rightarrow> WeightedSelector" where
  "wt_override eid s = s\<lparr>wt_core := core_manual_override eid (wt_core s)\<rparr>"

section \<open>Sticky\<close>

record StickySelector =
  st_core :: SelectorCore
  st_ttl :: duration
  st_pinned_id :: "string option"
  st_pinned_until :: "instant option"
  st_cursor :: nat

definition st_new :: "Endpoint list \<Rightarrow> RoundRobinConfig \<Rightarrow> StickySelector" where
  "st_new endpoints cfg =
     \<lparr>st_core = core_new endpoints cfg, st_ttl = rrc_sticky_session_ttl cfg,
      st_pinned_id = None, st_pinned_until = None, st_cursor = 0\<rparr>"

definition st_live_pin :: "instant \<Rightarrow> StickySelector \<Rightarrow> Endpoint option" where
  "st_live_pin now s =
     (case (st_pinned_id s, st_pinned_until s) of
        (Some eid, Some until) \<Rightarrow>
          if now < until \<and> is_healthy now (st_core s) eid
          then find_endpoint eid (core_endpoints (st_core s)) else None
      | _ \<Rightarrow> None)"

definition st_next ::
  "(nat \<Rightarrow> nat) \<Rightarrow> instant \<Rightarrow> StickySelector \<Rightarrow> EndpointPick option \<times> StickySelector" where
  "st_next draw now s =
     (let c = refresh_health now (st_core s); s1 = s\<lparr>st_core := c\<rparr> in
      case manual_pick now c of
        Some p \<Rightarrow> (Some p, s1)
      | None \<Rightarrow>
          (case st_live_pin now s1 of
             Some ep \<Rightarrow> (Some (make_pick ep), s1)
           | None \<Rightarrow>
               if core_endpoints c = [] then (None, s1)
               else
                 (case scan_from now c (length (core_endpoints c)) (st_cursor s) of
                    (Some ep, cursor) \<Rightarrow>
                      (Some (make_pick ep),
                       s1\<lparr>st_cursor := cursor, st_pinned_id := Some (endpoint_id ep),
                         st_pinned_until := Some (now + st_ttl s)\<rparr>)
                  | (None, cursor) \<Rightarrow> (None, s1\<lparr>st_cursor := cursor\<rparr>))))"

definition st_success :: "string \<Rightarrow> StickySelector \<Rightarrow> StickySelector" where
  "st_success eid s = s\<lparr>st_core := core_record_success eid (st_core s)\<rparr>"

definition st_failure ::
  "instant \<Rightarrow> string \<Rightarrow> spt_error \<Rightarrow> StickySelector \<Rightarrow> StickySelector" where
  "st_failure now eid err s =
     (let s1 = s\<lparr>st_core := core_record_failure now eid err (st_core s)\<rparr> in
      if st_pinned_id s = Some eid then s1\<lparr>st_pinned_id := None, st_pinned_until := None\<rparr> else s1)"

definition st_override :: "string \<Rightarrow> StickySelector \<Rightarrow> StickySelector" where
  "st_override eid s = s\<lparr>st_core := core_manual_override eid (st_core s)\<rparr>"

section \<open>Least errors\<close>

record LeastErrorsSelector =
  le_core :: SelectorCore
  le_errors :: "string \<rightharpoonup> nat"

definition le_new :: "Endpoint list \<Rightarrow> RoundRobinConfig \<Rightarrow> LeastErrorsSelector" where
  "le_new endpoints cfg =
     \<lparr>le_core = core_new endpoints cfg,
      le_errors = map_of (map (\<lambda>e. (endpoint_id e, 0)) endpoints)\<rparr>"

definition err_count :: "(string \<rightharpoonup> nat) \<Rightarrow> Endpoint \<Rightarrow> nat" where
  "err_count errors e = (case errors (endpoint_id e) of Some n \<Rightarrow> n | None \<Rightarrow> 0)"

fun least_errors_loop ::
  "instant \<Rightarrow> SelectorCore \<Rightarrow> (string \<rightharpoonup> nat) \<Rightarrow> Endpoint list
     \<Rightarrow> (Endpoint \<times> nat) option \<Rightarrow> (Endpoint \<times> nat) option" where
  "least_errors_loop now c errors [] best = best"
| "least_errors_loop now c errors (e # es) best =
     (if \<not> is_healthy now c (endpoint_id e) then least_errors_loop now c errors es best
      else
        least_errors_loop now c errors es
          (case best of
             None \<Rightarrow> Some (e, err_count errors e)
           | Some (b, n) \<Rightarrow> if err_count errors e < n then Some (e, err_count errors e) else best))"

definition le_next ::
  "(nat \<Rightarrow> nat) \<Rightarrow> instant \<Rightarrow> LeastErrorsSelector \<Rightarrow> EndpointPick option \<times> LeastErrorsSelector" where
  "le_next draw now s =
     (let c = refresh_health now (le_core s); s1 = s\<lparr>le_core := c\<rparr> in
      case manual_pick now c of
        Some p \<Rightarrow> (Some p, s1)
      | None \<Rightarrow>
          (map_option (\<lambda>(e, _). make_pick e)
             (least_errors_loop now c (le_errors s) (core_endpoints c) None), s1))"

definition le_success :: "string \<Rightarrow> LeastErrorsSelector \<Rightarrow> LeastErrorsSelector" where
  "le_success eid s = s\<lparr>le_core := core_record_success eid (le_core s)\<rparr>"

definition le_failure ::
  "instant \<Rightarrow> string \<Rightarrow> spt_error \<Rightarrow> LeastErrorsSelector \<Rightarrow> LeastErrorsSelector" where
  "le_failure now eid err s =
     s\<lparr>le_core := core_record_failure now eid err (le_core s),
       le_errors := (le_errors s)(eid \<mapsto>
         (case le_errors s eid of Some n \<Rightarrow> n | None \<Rightarrow> 0) + 1)\<rparr>"

definition le_override :: "string \<Rightarrow> LeastErrorsSelector \<Rightarrow> LeastErrorsSelector" where
  "le_override eid s = s\<lparr>le_core := core_manual_override eid (le_core s)\<rparr>"

section \<open>The trait object and its factory\<close>

datatype PolicySelector =
    Sel_RoundRobin RoundRobinSelector
  | Sel_Random RandomSelector
  | Sel_Weighted WeightedSelector
  | Sel_Sticky StickySelector
  | Sel_LeastErrors LeastErrorsSelector

definition make_selector :: "Endpoint list \<Rightarrow> RoundRobinConfig \<Rightarrow> PolicySelector option" where
  "make_selector endpoints cfg =
     (if \<not> rrc_enabled cfg then None
      else Some (case rrc_policy cfg of
          SP_RoundRobin \<Rightarrow> Sel_RoundRobin (rr_new endpoints cfg)
        | SP_Random \<Rightarrow> Sel_Random (rnd_new endpoints cfg)
        | SP_Weighted \<Rightarrow> Sel_Weighted (wt_new endpoints cfg)
        | SP_Sticky \<Rightarrow> Sel_Sticky (st_new endpoints cfg)
        | SP_LeastErrors \<Rightarrow> Sel_LeastErrors (le_new endpoints cfg)))"

fun sel_core :: "PolicySelector \<Rightarrow> SelectorCore" where
  "sel_core (Sel_RoundRobin s) = rr_core s"
| "sel_core (Sel_Random s) = rnd_core s"
| "sel_core (Sel_Weighted s) = wt_core s"
| "sel_core (Sel_Sticky s) = st_core s"
| "sel_core (Sel_LeastErrors s) = le_core s"

fun sel_next ::
  "(nat \<Rightarrow> nat) \<Rightarrow> instant \<Rightarrow> PolicySelector \<Rightarrow> EndpointPick option \<times> PolicySelector" where
  "sel_next draw now (Sel_RoundRobin s) = apsnd Sel_RoundRobin (rr_next draw now s)"
| "sel_next draw now (Sel_Random s) = apsnd Sel_Random (rnd_next draw now s)"
| "sel_next draw now (Sel_Weighted s) = apsnd Sel_Weighted (wt_next draw now s)"
| "sel_next draw now (Sel_Sticky s) = apsnd Sel_Sticky (st_next draw now s)"
| "sel_next draw now (Sel_LeastErrors s) = apsnd Sel_LeastErrors (le_next draw now s)"

fun sel_success :: "string \<Rightarrow> PolicySelector \<Rightarrow> PolicySelector" where
  "sel_success eid (Sel_RoundRobin s) = Sel_RoundRobin (rr_success eid s)"
| "sel_success eid (Sel_Random s) = Sel_Random (rnd_success eid s)"
| "sel_success eid (Sel_Weighted s) = Sel_Weighted (wt_success eid s)"
| "sel_success eid (Sel_Sticky s) = Sel_Sticky (st_success eid s)"
| "sel_success eid (Sel_LeastErrors s) = Sel_LeastErrors (le_success eid s)"

fun sel_failure :: "instant \<Rightarrow> string \<Rightarrow> spt_error \<Rightarrow> PolicySelector \<Rightarrow> PolicySelector" where
  "sel_failure now eid err (Sel_RoundRobin s) = Sel_RoundRobin (rr_failure now eid err s)"
| "sel_failure now eid err (Sel_Random s) = Sel_Random (rnd_failure now eid err s)"
| "sel_failure now eid err (Sel_Weighted s) = Sel_Weighted (wt_failure now eid err s)"
| "sel_failure now eid err (Sel_Sticky s) = Sel_Sticky (st_failure now eid err s)"
| "sel_failure now eid err (Sel_LeastErrors s) = Sel_LeastErrors (le_failure now eid err s)"

fun sel_override :: "string \<Rightarrow> PolicySelector \<Rightarrow> PolicySelector" where
  "sel_override eid (Sel_RoundRobin s) = Sel_RoundRobin (rr_override eid s)"
| "sel_override eid (Sel_Random s) = Sel_Random (rnd_override eid s)"
| "sel_override eid (Sel_Weighted s) = Sel_Weighted (wt_override eid s)"
| "sel_override eid (Sel_Sticky s) = Sel_Sticky (st_override eid s)"
| "sel_override eid (Sel_LeastErrors s) = Sel_LeastErrors (le_override eid s)"

definition sel_cooldown_after_failure :: "PolicySelector \<Rightarrow> duration option" where
  "sel_cooldown_after_failure s = Some (core_cooldown (sel_core s))"

section \<open>DNS round robin\<close>

record DnsRoundRobinResolver =
  dns_refresh_interval :: duration
  dns_host :: string
  dns_cached :: "IpAddr list"
  dns_last_refresh :: "instant option"
  dns_cursor :: nat

definition dns_new :: "string \<Rightarrow> RoundRobinConfig \<Rightarrow> DnsRoundRobinResolver" where
  "dns_new host cfg =
     \<lparr>dns_refresh_interval = rrc_dns_refresh_interval cfg, dns_host = host, dns_cached = [],
      dns_last_refresh = None, dns_cursor = 0\<rparr>"

definition dns_needs_refresh :: "instant \<Rightarrow> DnsRoundRobinResolver \<Rightarrow> bool" where
  "dns_needs_refresh now s =
     (case dns_last_refresh s of
        None \<Rightarrow> True
      | Some t \<Rightarrow> dns_refresh_interval s \<le> now - t)"

definition next_address ::
  "(string \<Rightarrow> IpAddr list) \<Rightarrow> instant \<Rightarrow> DnsRoundRobinResolver
     \<Rightarrow> IpAddr option \<times> DnsRoundRobinResolver" where
  "next_address resolve now s =
     (let s1 = (if dns_needs_refresh now s
                then s\<lparr>dns_cached := resolve (dns_host s), dns_last_refresh := Some now,
                       dns_cursor := 0\<rparr>
                else s)
      in if dns_cached s1 = [] then (None, s1)
         else (Some (dns_cached s1 ! (dns_cursor s1 mod length (dns_cached s1))),
               s1\<lparr>dns_cursor := wrapping_add_usize (dns_cursor s1) 1\<rparr>))"

definition invalidate :: "DnsRoundRobinResolver \<Rightarrow> DnsRoundRobinResolver" where
  "invalidate s = s\<lparr>dns_last_refresh := None, dns_cached := [], dns_cursor := 0\<rparr>"

section \<open>Lemmas on the core\<close>

lemma refresh_health_simps [simp]:
  "core_endpoints (refresh_health now c) = core_endpoints c"
  "core_cooldown (refresh_health now c) = core_cooldown c"
  "core_manual (refresh_health now c) = core_manual c"
  by (simp_all add: refresh_health_def)

lemma is_healthy_refresh: "t \<le> now \<Longrightarrow> is_healthy now (refresh_health t c) eid = is_healthy now c eid"
  by (auto simp: is_healthy_def refresh_health_def promote_def
      split: option.splits EndpointHealth.splits)

lemma is_healthy_refresh_same [simp]:
  "is_healthy now (refresh_health now c) eid = is_healthy now c eid"
  by (simp add: is_healthy_refresh)

lemma healthy_endpoints_refresh [simp]:
  "healthy_endpoints now (refresh_health now c) = healthy_endpoints now c"
  by (simp add: healthy_endpoints_def)

lemma manual_pick_refresh [simp]: "manual_pick now (refresh_health now c) = manual_pick now c"
  by (simp add: manual_pick_def split: option.splits)

lemma set_healthy_endpoints [simp]:
  "set (healthy_endpoints now c) =
     {e \<in> set (core_endpoints c). is_healthy now c (endpoint_id e)}"
  by (auto simp: healthy_endpoints_def)

lemma pick_id_make_pick [simp]: "pick_id (make_pick e) = endpoint_id e"
  by (simp add: make_pick_def)

lemma find_endpoint_Some:
  "find_endpoint eid eps = Some e \<Longrightarrow> e \<in> set eps \<and> endpoint_id e = eid"
  by (auto simp: find_endpoint_def dest: find_Some_mem)

lemma find_endpoint_mem:
  "e \<in> set eps \<Longrightarrow> \<exists>e'. find_endpoint (endpoint_id e) eps = Some e'"
  unfolding find_endpoint_def
  by (cases "List.find (\<lambda>x. endpoint_id x = endpoint_id e) eps") (auto simp: find_None_all)

lemma manual_pick_Some:
  "manual_pick now c = Some p \<Longrightarrow>
     \<exists>e\<in>set (healthy_endpoints now c). p = make_pick e \<and> core_manual c = Some (endpoint_id e)"
  by (auto simp: manual_pick_def split: option.splits if_splits dest!: find_endpoint_Some)

section \<open>The selector contract\<close>

text \<open>
  A random source is valid if it respects its bound.  A policy is a selection function with the
  three updates; the contract says that the core evolves as the shared core does, that a
  selectable pin is honoured, and that a pick is made exactly from the selectable endpoints.
\<close>

definition valid_draw :: "(nat \<Rightarrow> nat) \<Rightarrow> bool" where
  "valid_draw draw \<longleftrightarrow> (\<forall>n>0. draw n < n)"

datatype sel_op =
    Op_Next instant | Op_Success string | Op_Failure instant string spt_error | Op_Override string

fun core_apply :: "sel_op \<Rightarrow> SelectorCore \<Rightarrow> SelectorCore" where
  "core_apply (Op_Next now) c = refresh_health now c"
| "core_apply (Op_Success eid) c = core_record_success eid c"
| "core_apply (Op_Failure now eid err) c = core_record_failure now eid err c"
| "core_apply (Op_Override eid) c = core_manual_override eid c"

fun sel_apply :: "(nat \<Rightarrow> nat) \<Rightarrow> PolicySelector \<Rightarrow> sel_op \<Rightarrow> PolicySelector" where
  "sel_apply draw s (Op_Next now) = snd (sel_next draw now s)"
| "sel_apply draw s (Op_Success eid) = sel_success eid s"
| "sel_apply draw s (Op_Failure now eid err) = sel_failure now eid err s"
| "sel_apply draw s (Op_Override eid) = sel_override eid s"

definition sel_run :: "(nat \<Rightarrow> nat) \<Rightarrow> PolicySelector \<Rightarrow> sel_op list \<Rightarrow> PolicySelector" where
  "sel_run draw s ops = foldl (sel_apply draw) s ops"

locale endpoint_policy =
  fixes nxt :: "(nat \<Rightarrow> nat) \<Rightarrow> instant \<Rightarrow> 's \<Rightarrow> EndpointPick option \<times> 's"
    and suc :: "string \<Rightarrow> 's \<Rightarrow> 's"
    and fail :: "instant \<Rightarrow> string \<Rightarrow> spt_error \<Rightarrow> 's \<Rightarrow> 's"
    and ovr :: "string \<Rightarrow> 's \<Rightarrow> 's"
    and core :: "'s \<Rightarrow> SelectorCore"
    and ok :: "'s \<Rightarrow> bool"
  assumes core_next: "core (snd (nxt draw now s)) = refresh_health now (core s)"
    and core_suc: "core (suc eid s) = core_record_success eid (core s)"
    and core_fail: "core (fail now eid err s) = core_record_failure now eid err (core s)"
    and core_ovr: "core (ovr eid s) = core_manual_override eid (core s)"
    and next_pinned: "manual_pick now (core s) = Some p \<Longrightarrow> fst (nxt draw now s) = Some p"
    and next_sound: "valid_draw draw \<Longrightarrow> fst (nxt draw now s) = Some p \<Longrightarrow>
          \<exists>e\<in>set (healthy_endpoints now (core s)). p = make_pick e"
    and next_complete: "fst (nxt draw now s) = None \<Longrightarrow> ok s \<Longrightarrow>
          healthy_endpoints now (core s) = []"
begin

lemma next_Some_iff:
  assumes "valid_draw draw" "ok s"
  shows "fst (nxt draw now s) \<noteq> None \<longleftrightarrow> healthy_endpoints now (core s) \<noteq> []"
  using next_sound [OF assms(1), of now s] next_complete [of draw now s] assms(2)
  by (cases "fst (nxt draw now s)") (auto simp del: set_healthy_endpoints)

lemma next_pick_healthy:
  assumes "valid_draw draw" "fst (nxt draw now s) = Some p"
  shows "is_healthy now (core s) (pick_id p)"
  using next_sound [OF assms] by auto

lemma next_never_benched:
  assumes "valid_draw draw" "core_health (core s) eid = Some (Cooldown u)" "now < u"
  shows "map_option pick_id (fst (nxt draw now s)) \<noteq> Some eid"
  using next_pick_healthy [OF assms(1), of now s] assms(2,3) by (auto simp: is_healthy_def)

end

subsection \<open>The scan of the cyclic policies\<close>

lemma scan_from_Some:
  assumes "scan_from now c k cur = (Some e, cur')" "core_endpoints c \<noteq> []"
  shows "e \<in> set (healthy_endpoints now c)"
  using assms
proof (induction k arbitrary: cur)
  case (Suc k)
  then have "core_endpoints c ! (cur mod length (core_endpoints c)) \<in> set (core_endpoints c)"
    by simp
  with Suc show ?case by (auto simp: Let_def split: if_splits)
qed simp

lemma scan_from_no_wrap:
  assumes "cur + k \<le> 2 ^ 64 - 1"
  shows "scan_from now c k cur =
    (case List.find (\<lambda>j. is_healthy now c
         (endpoint_id (core_endpoints c ! (j mod length (core_endpoints c))))) [cur..<cur + k] of
       None \<Rightarrow> (None, cur + k)
     | Some j \<Rightarrow> (Some (core_endpoints c ! (j mod length (core_endpoints c))), Suc j))"
  using assms
proof (induction k arbitrary: cur)
  case (Suc k)
  have "wrapping_add_usize cur 1 = Suc cur"
    using Suc.prems by (simp add: wrapping_add_usize_def)
  moreover have "[cur..<Suc (cur + k)] = cur # [Suc cur..<Suc (cur + k)]"
    by (simp add: upt_conv_Cons del: upt_Suc)
  ultimately show ?case using Suc by (simp add: Let_def split: option.splits del: upt_Suc)
qed simp

lemma mod_shift_onto:
  assumes "(i::nat) < n"
  shows "\<exists>j\<in>{a..<a + n}. j mod n = i"
proof -
  let ?j = "a + (n + i - a mod n) mod n"
  have "0 < n" using assms by simp
  have "?j mod n = (a mod n + (n + i - a mod n)) mod n" by (metis mod_add_left_eq mod_add_right_eq)
  also have "a mod n + (n + i - a mod n) = n + i"
    using mod_less_divisor [OF \<open>0 < n\<close>, of a] by linarith
  finally have "?j mod n = i" using assms by simp
  moreover have "?j \<in> {a..<a + n}" using \<open>0 < n\<close> by simp
  ultimately show ?thesis by blast
qed

lemma scan_from_None:
  assumes none: "fst (scan_from now c (length (core_endpoints c)) cur) = None"
    and bound: "cur + length (core_endpoints c) < 2 ^ 64"
  shows "healthy_endpoints now c = []"
proof -
  let ?n = "length (core_endpoints c)"
  have "cur + ?n \<le> 2 ^ 64 - 1" using bound by simp
  from none have "List.find (\<lambda>j. is_healthy now c
      (endpoint_id (core_endpoints c ! (j mod ?n)))) [cur..<cur + ?n] = None"
    by (auto simp: scan_from_no_wrap [OF \<open>cur + ?n \<le> 2 ^ 64 - 1\<close>] split: option.splits)
  then have none: "\<forall>j\<in>{cur..<cur + ?n}.
      \<not> is_healthy now c (endpoint_id (core_endpoints c ! (j mod ?n)))"
    by (simp add: find_None_all)
  have "\<not> is_healthy now c (endpoint_id e)" if e: "e \<in> set (core_endpoints c)" for e
  proof -
    obtain i where "i < ?n" "e = core_endpoints c ! i"
      using e by (metis in_set_conv_nth)
    with none mod_shift_onto [of i ?n cur] show ?thesis by metis
  qed
  then show ?thesis by (simp add: healthy_endpoints_def)
qed

definition cursor_ok :: "PolicySelector \<Rightarrow> bool" where
  "cursor_ok s =
     (case s of
        Sel_RoundRobin r \<Rightarrow> rr_cursor r + length (core_endpoints (rr_core r)) < 2 ^ 64
      | Sel_Sticky r \<Rightarrow> st_cursor r + length (core_endpoints (st_core r)) < 2 ^ 64
      | _ \<Rightarrow> True)"

subsection \<open>The five policies meet the contract\<close>

lemmas sel_update_defs =
  rr_success_def rr_failure_def rr_override_def rnd_success_def rnd_failure_def rnd_override_def
  wt_success_def wt_failure_def wt_override_def st_success_def st_failure_def st_override_def
  le_success_def le_failure_def le_override_def

interpretation rr: endpoint_policy rr_next rr_success rr_failure rr_override rr_core
  "\<lambda>s. cursor_ok (Sel_RoundRobin s)"
proof
  fix draw :: "nat \<Rightarrow> nat" and now s p
  show "rr_core (snd (rr_next draw now s)) = refresh_health now (rr_core s)"
    by (auto simp: rr_next_def Let_def split: option.splits prod.splits)
  show "manual_pick now (rr_core s) = Some p \<Longrightarrow> fst (rr_next draw now s) = Some p"
    by (simp add: rr_next_def Let_def)
  show "fst (rr_next draw now s) = Some p \<Longrightarrow>
      \<exists>e\<in>set (healthy_endpoints now (rr_core s)). p = make_pick e"
    using manual_pick_Some [of now "rr_core s"]
      scan_from_Some [of now "refresh_health now (rr_core s)"]
    by (fastforce simp: rr_next_def Let_def simp del: set_healthy_endpoints
        split: option.splits prod.splits if_splits)
  show "fst (rr_next draw now s) = None \<Longrightarrow> cursor_ok (Sel_RoundRobin s) \<Longrightarrow>
      healthy_endpoints now (rr_core s) = []"
    using scan_from_None [of now "refresh_health now (rr_core s)" "rr_cursor s"]
    by (auto simp: rr_next_def Let_def cursor_ok_def healthy_endpoints_def
        split: option.splits prod.splits if_splits)
qed (simp_all add: sel_update_defs)

interpretation rnd: endpoint_policy rnd_next rnd_success rnd_failure rnd_override rnd_core "\<lambda>_. True"
proof
  fix draw :: "nat \<Rightarrow> nat" and now s p
  show "rnd_core (snd (rnd_next draw now s)) = refresh_health now (rnd_core s)"
    by (auto simp: rnd_next_def Let_def split: option.splits)
  show "manual_pick now (rnd_core s) = Some p \<Longrightarrow> fst (rnd_next draw now s) = Some p"
    by (simp add: rnd_next_def Let_def)
  show "\<exists>e\<in>set (healthy_endpoints now (rnd_core s)). p = make_pick e"
    if v: "valid_draw draw" and "fst (rnd_next draw now s) = Some p"
  proof (cases "manual_pick now (rnd_core s)")
    case None
    with that have ne: "healthy_endpoints now (rnd_core s) \<noteq> []"
      and p: "p = make_pick (healthy_endpoints now (rnd_core s) !
                               draw (length (healthy_endpoints now (rnd_core s))))"
      by (auto simp: rnd_next_def Let_def split: if_splits)
    then show ?thesis using v by (auto simp: valid_draw_def simp del: set_healthy_endpoints)
  next
    case (Some q)
    with that have "p = q" by (simp add: rnd_next_def Let_def)
    with manual_pick_Some [OF Some] show ?thesis by blast
  qed
  show "fst (rnd_next draw now s) = None \<Longrightarrow> healthy_endpoints now (rnd_core s) = []"
    by (auto simp: rnd_next_def Let_def split: option.splits if_splits)
qed (simp_all add: sel_update_defs)

lemma weighted_scan_mem: "weighted_scan es acc roll = Some e \<Longrightarrow> e \<in> set es"
  by (induction es arbitrary: acc) (auto simp: Let_def split: if_splits)

interpretation wt: endpoint_policy wt_next wt_success wt_failure wt_override wt_core "\<lambda>_. True"
proof
  fix draw :: "nat \<Rightarrow> nat" and now p and s :: WeightedSelector
  let ?h = "healthy_endpoints now (wt_core s)"
  show "wt_core (snd (wt_next draw now s)) = refresh_health now (wt_core s)"
    by (auto simp: wt_next_def Let_def split: option.splits)
  show "manual_pick now (wt_core s) = Some p \<Longrightarrow> fst (wt_next draw now s) = Some p"
    by (simp add: wt_next_def Let_def)
  show "\<exists>e\<in>set ?h. p = make_pick e" if "fst (wt_next draw now s) = Some p"
  proof (cases "manual_pick now (wt_core s)")
    case None
    have "hd ?h \<in> set ?h" "last ?h \<in> set ?h" if "?h \<noteq> []"
      using that by (simp_all del: set_healthy_endpoints)
    with None that show ?thesis
      using weighted_scan_mem [of ?h 0 "draw (total_weight ?h)"]
      by (auto simp: wt_next_def Let_def simp del: set_healthy_endpoints
          split: option.splits if_splits)
  next
    case (Some q)
    with that have "p = q" by (simp add: wt_next_def Let_def)
    with manual_pick_Some [OF Some] show ?thesis by blast
  qed
  show "fst (wt_next draw now s) = None \<Longrightarrow> healthy_endpoints now (wt_core s) = []"
    by (auto simp: wt_next_def Let_def split: option.splits if_splits)
qed (simp_all add: sel_update_defs)

interpretation st: endpoint_policy st_next st_success st_failure st_override st_core
  "\<lambda>s. cursor_ok (Sel_Sticky s)"
proof
  fix draw :: "nat \<Rightarrow> nat" and now p and s :: StickySelector
  let ?c = "refresh_health now (st_core s)"
  show "st_core (snd (st_next draw now s)) = ?c"
    by (auto simp: st_next_def Let_def split: option.splits prod.splits)
  show "manual_pick now (st_core s) = Some p \<Longrightarrow> fst (st_next draw now s) = Some p"
    by (simp add: st_next_def Let_def)
  have pin: "e \<in> set (healthy_endpoints now (st_core s))"
    if "st_live_pin now (s\<lparr>st_core := ?c\<rparr>) = Some e" for e
    using that
    by (auto simp: st_live_pin_def split: option.splits if_splits dest!: find_endpoint_Some)
  show "\<exists>e\<in>set (healthy_endpoints now (st_core s)). p = make_pick e"
    if "fst (st_next draw now s) = Some p"
  proof (cases "manual_pick now (st_core s)")
    case None
    then show ?thesis using that pin scan_from_Some [of now ?c]
      by (fastforce simp: st_next_def Let_def simp del: set_healthy_endpoints
          split: option.splits prod.splits if_splits)
  next
    case (Some q)
    with that have "p = q" by (simp add: st_next_def Let_def)
    with manual_pick_Some [OF Some] show ?thesis by blast
  qed
  show "fst (st_next draw now s) = None \<Longrightarrow> cursor_ok (Sel_Sticky s) \<Longrightarrow>
      healthy_endpoints now (st_core s) = []"
    using scan_from_None [of now ?c "st_cursor s"]
    by (auto simp: st_next_def Let_def cursor_ok_def healthy_endpoints_def
        split: option.splits prod.splits if_splits)
qed (simp_all add: sel_update_defs Let_def)

lemma least_errors_loop_Some:
  assumes "least_errors_loop now c errors es best = Some (e, n)"
    "case best of None \<Rightarrow> True | Some (b, m) \<Rightarrow> m = err_count errors b"
  shows "n = err_count errors e
    \<and> (best = Some (e, n) \<or> e \<in> set es \<and> is_healthy now c (endpoint_id e))
    \<and> (\<forall>x\<in>set es. is_healthy now c (endpoint_id x) \<longrightarrow> n \<le> err_count errors x)
    \<and> (\<forall>b m. best = Some (b, m) \<longrightarrow> n \<le> m)"
  using assms
proof (induction es arbitrary: best)
  case (Cons x es)
  show ?case
  proof (cases "is_healthy now c (endpoint_id x)")
    case True
    let ?b = "case best of None \<Rightarrow> Some (x, err_count errors x)
       | Some (b, n) \<Rightarrow> if err_count errors x < n then Some (x, err_count errors x) else best"
    have "least_errors_loop now c errors es ?b = Some (e, n)" using Cons.prems True by simp
    moreover have "case ?b of None \<Rightarrow> True | Some (b, m) \<Rightarrow> m = err_count errors b"
      using Cons.prems(2) by (auto split: option.splits)
    ultimately show ?thesis
      using Cons.IH [of ?b] True by (fastforce split: option.splits if_splits)
  next
    case False
    with Cons show ?thesis by auto
  qed
qed auto

lemma least_errors_loop_None:
  "least_errors_loop now c errors es best = None \<longleftrightarrow>
     best = None \<and> (\<forall>x\<in>set es. \<not> is_healthy now c (endpoint_id x))"
  by (induction es arbitrary: best) (auto split: option.splits)

interpretation le: endpoint_policy le_next le_success le_failure le_override le_core "\<lambda>_. True"
proof
  fix draw :: "nat \<Rightarrow> nat" and now p and s :: LeastErrorsSelector
  show "le_core (snd (le_next draw now s)) = refresh_health now (le_core s)"
    by (auto simp: le_next_def Let_def split: option.splits)
  show "manual_pick now (le_core s) = Some p \<Longrightarrow> fst (le_next draw now s) = Some p"
    by (simp add: le_next_def Let_def)
  show "fst (le_next draw now s) = Some p \<Longrightarrow>
      \<exists>e\<in>set (healthy_endpoints now (le_core s)). p = make_pick e"
    using manual_pick_Some [of now "le_core s"]
    by (fastforce simp: le_next_def Let_def split: option.splits dest: least_errors_loop_Some)
  show "fst (le_next draw now s) = None \<Longrightarrow> healthy_endpoints now (le_core s) = []"
    by (auto simp: le_next_def Let_def least_errors_loop_None healthy_endpoints_def
        split: option.splits)
qed (simp_all add: sel_update_defs)

interpretation sel: endpoint_policy sel_next sel_success sel_failure sel_override sel_core cursor_ok
proof
  fix draw :: "nat \<Rightarrow> nat" and now eid err p and s :: PolicySelector
  show "sel_core (snd (sel_next draw now s)) = refresh_health now (sel_core s)"
    by (cases s) (simp_all add: rr.core_next rnd.core_next wt.core_next st.core_next le.core_next)
  show "sel_core (sel_success eid s) = core_record_success eid (sel_core s)"
    by (cases s) (simp_all add: rr.core_suc rnd.core_suc wt.core_suc st.core_suc le.core_suc)
  show "sel_core (sel_failure now eid err s) = core_record_failure now eid err (sel_core s)"
    by (cases s) (simp_all add: rr.core_fail rnd.core_fail wt.core_fail st.core_fail le.core_fail)
  show "sel_core (sel_override eid s) = core_manual_override eid (sel_core s)"
    by (cases s) (simp_all add: rr.core_ovr rnd.core_ovr wt.core_ovr st.core_ovr le.core_ovr)
  show "manual_pick now (sel_core s) = Some p \<Longrightarrow> fst (sel_next draw now s) = Some p"
    by (cases s) (simp_all add: rr.next_pinned rnd.next_pinned wt.next_pinned st.next_pinned
        le.next_pinned)
  show "valid_draw draw \<Longrightarrow> fst (sel_next draw now s) = Some p \<Longrightarrow>
      \<exists>e\<in>set (healthy_endpoints now (sel_core s)). p = make_pick e"
    using rr.next_sound rnd.next_sound wt.next_sound st.next_sound le.next_sound
    by (cases s) (simp_all del: set_healthy_endpoints)
  show "fst (sel_next draw now s) = None \<Longrightarrow> cursor_ok s \<Longrightarrow>
      healthy_endpoints now (sel_core s) = []"
    by (cases s) (auto dest: rr.next_complete rnd.next_complete wt.next_complete
        st.next_complete le.next_complete)
qed

subsection \<open>Benched endpoints\<close>

fun op_keeps_bench :: "string \<Rightarrow> instant \<Rightarrow> instant \<Rightarrow> sel_op \<Rightarrow> bool" where
  "op_keeps_bench eid lo hi (Op_Next t) = (t < hi)"
| "op_keeps_bench eid lo hi (Op_Failure t _ _) = (lo \<le> t)"
| "op_keeps_bench eid lo hi (Op_Success x) = (x \<noteq> eid)"
| "op_keeps_bench eid lo hi (Op_Override _) = True"

definition benched :: "string \<Rightarrow> instant \<Rightarrow> SelectorCore \<Rightarrow> bool" where
  "benched eid hi c \<longleftrightarrow> (\<exists>u. core_health c eid = Some (Cooldown u) \<and> hi \<le> u)"

lemma benched_apply:
  assumes "benched eid hi c" "hi \<le> lo + core_cooldown c" "op_keeps_bench eid lo hi x"
  shows "benched eid hi (core_apply x c) \<and> core_cooldown (core_apply x c) = core_cooldown c"
  using assms
  by (cases x) (auto simp: benched_def refresh_health_def promote_def core_record_success_def
      core_record_failure_def core_manual_override_def)

lemma sel_core_apply: "sel_core (sel_apply draw s x) = core_apply x (sel_core s)"
  by (cases x) (simp_all add: sel.core_next sel.core_suc sel.core_fail sel.core_ovr)

lemma benched_run:
  assumes "benched eid hi (sel_core s)" "hi \<le> lo + core_cooldown (sel_core s)"
    "\<forall>x\<in>set ops. op_keeps_bench eid lo hi x"
  shows "benched eid hi (sel_core (sel_run draw s ops))"
  using assms
proof (induction ops arbitrary: s)
  case Nil
  then show ?case by (simp add: sel_run_def)
next
  case (Cons x ops)
  then have "benched eid hi (sel_core (sel_apply draw s x))"
    "core_cooldown (sel_core (sel_apply draw s x)) = core_cooldown (sel_core s)"
    using benched_apply [of eid hi "sel_core s" lo x] by (simp_all add: sel_core_apply)
  with Cons show ?case by (simp add: sel_run_def)
qed

subsection \<open>Cyclic order\<close>

fun rr_calls :: "nat \<Rightarrow> instant \<Rightarrow> RoundRobinSelector \<Rightarrow> EndpointPick list \<times> RoundRobinSelector" where
  "rr_calls 0 now s = ([], s)"
| "rr_calls (Suc k) now s =
     (let (p, s1) = rr_next (\<lambda>_. 0) now s; (ps, s2) = rr_calls k now s1
      in (case p of None \<Rightarrow> ps | Some q \<Rightarrow> q # ps, s2))"

definition rr_ready :: "instant \<Rightarrow> SelectorCore \<Rightarrow> bool" where
  "rr_ready now c \<longleftrightarrow> core_manual c = None \<and> healthy_endpoints now c \<noteq> []"

lemma find_upt_Some:
  "List.find P [a..<b] = Some j \<Longrightarrow> a \<le> j \<and> j < b \<and> P j \<and> (\<forall>i. a \<le> i \<and> i < j \<longrightarrow> \<not> P i)"
  by (auto simp: find_Some_iff nth_upt) (metis add_diff_inverse_nat less_diff_conv2 less_le_not_le
      linorder_not_less nat_add_left_cancel_less add.commute)

lemma rr_next_cursor:
  assumes "rr_ready now (rr_core s)" "rr_cursor s + length (core_endpoints (rr_core s)) < 2 ^ 64"
  obtains j s' where
    "rr_next draw now s =
       (Some (make_pick (core_endpoints (rr_core s) ! (j mod length (core_endpoints (rr_core s))))), s')"
    "rr_cursor s \<le> j" "j < rr_cursor s + length (core_endpoints (rr_core s))"
    "rr_cursor s' = Suc j" "rr_core s' = refresh_health now (rr_core s)"
    "\<forall>i. rr_cursor s \<le> i \<and> i < j \<longrightarrow>
       \<not> is_healthy now (rr_core s)
           (endpoint_id (core_endpoints (rr_core s) ! (i mod length (core_endpoints (rr_core s)))))"
proof -
  let ?c = "refresh_health now (rr_core s)" and ?eps = "core_endpoints (rr_core s)"
  let ?P = "\<lambda>j. is_healthy now (rr_core s) (endpoint_id (?eps ! (j mod length ?eps)))"
  have ne: "?eps \<noteq> []" using assms(1) by (auto simp: rr_ready_def healthy_endpoints_def)
  have man: "manual_pick now (rr_core s) = None"
    using assms(1) by (simp add: rr_ready_def manual_pick_def)
  have scan: "scan_from now ?c (length ?eps) (rr_cursor s) =
      (case List.find ?P [rr_cursor s..<rr_cursor s + length ?eps] of
         None \<Rightarrow> (None, rr_cursor s + length ?eps)
       | Some j \<Rightarrow> (Some (?eps ! (j mod length ?eps)), Suc j))"
    using scan_from_no_wrap [of "rr_cursor s" "length ?eps" now ?c] assms(2)
    by (simp cong: option.case_cong)
  have "fst (scan_from now ?c (length ?eps) (rr_cursor s)) \<noteq> None"
    using scan_from_None [of now ?c "rr_cursor s"] assms by (auto simp: rr_ready_def)
  with scan obtain j where j: "List.find ?P [rr_cursor s..<rr_cursor s + length ?eps] = Some j"
    by (auto split: option.splits)
  show thesis
  proof (rule that [of j "s\<lparr>rr_core := ?c, rr_cursor := Suc j\<rparr>"])
    show "rr_next draw now s = (Some (make_pick (?eps ! (j mod length ?eps))),
        s\<lparr>rr_core := ?c, rr_cursor := Suc j\<rparr>)"
      using man ne scan j by (simp add: rr_next_def Let_def)
  qed (use find_upt_Some [OF j] in auto)
qed

lemma rr_ready_refresh [simp]: "rr_ready now (refresh_health now c) = rr_ready now c"
  by (simp add: rr_ready_def)

lemma rr_calls_visit:
  assumes "rr_ready now (rr_core s)"
    "rr_cursor s + k * length (core_endpoints (rr_core s)) < 2 ^ 64"
    "rr_cursor s \<le> j" "j < rr_cursor s + k"
    "is_healthy now (rr_core s)
       (endpoint_id (core_endpoints (rr_core s) ! (j mod length (core_endpoints (rr_core s)))))"
  shows "make_pick (core_endpoints (rr_core s) ! (j mod length (core_endpoints (rr_core s))))
           \<in> set (fst (rr_calls k now s))"
  using assms
proof (induction k arbitrary: s)
  case (Suc k)
  let ?eps = "core_endpoints (rr_core s)" and ?n = "length (core_endpoints (rr_core s))"
  have b: "rr_cursor s + ?n < 2 ^ 64" using Suc.prems(2) by simp
  obtain i s' where i: "rr_next (\<lambda>_. 0) now s = (Some (make_pick (?eps ! (i mod ?n))), s')"
    "rr_cursor s \<le> i" "i < rr_cursor s + ?n" "rr_cursor s' = Suc i"
    "rr_core s' = refresh_health now (rr_core s)"
    and skipped: "\<forall>x. rr_cursor s \<le> x \<and> x < i \<longrightarrow>
      \<not> is_healthy now (rr_core s) (endpoint_id (?eps ! (x mod ?n)))"
    by (rule rr_next_cursor [OF Suc.prems(1) b, where draw = "\<lambda>_. 0"]) blast
  have "i \<le> j" using skipped Suc.prems(3,5) by (meson not_le)
  show ?case
  proof (cases "i = j")
    case True
    then show ?thesis using i by (auto simp: Let_def split: prod.splits)
  next
    case False
    have "make_pick (core_endpoints (rr_core s') ! (j mod length (core_endpoints (rr_core s'))))
        \<in> set (fst (rr_calls k now s'))"
      using Suc.prems False \<open>i \<le> j\<close> i by (intro Suc.IH) auto
    then show ?thesis using i by (auto simp: Let_def split: prod.splits)
  qed
qed simp

subsection \<open>Weights\<close>

lemma total_weight_simps [simp]:
  "total_weight [] = 0" "total_weight (e # es) = eff_weight e + total_weight es"
  by (simp_all add: total_weight_def)

lemma weighted_scan_count:
  "card {roll. acc \<le> roll \<and> roll < acc + total_weight es \<and> weighted_scan es acc roll = Some e} =
     sum_list (map (\<lambda>x. if x = e then eff_weight x else 0) es)"
proof (induction es arbitrary: acc)
  case (Cons x es)
  let ?A = "{roll. acc \<le> roll \<and> roll < acc + eff_weight x \<and> x = e}"
  let ?B = "{roll. acc + eff_weight x \<le> roll \<and> roll < acc + eff_weight x + total_weight es
                   \<and> weighted_scan es (acc + eff_weight x) roll = Some e}"
  have "{roll. acc \<le> roll \<and> roll < acc + total_weight (x # es)
          \<and> weighted_scan (x # es) acc roll = Some e} = ?A \<union> ?B"
    by (auto simp: Let_def split: if_splits)
  moreover have "card (?A \<union> ?B) = card ?A + card ?B"
    by (rule card_Un_disjoint) auto
  moreover have "card ?A = (if x = e then eff_weight x else 0)"
    by (simp flip: atLeastLessThan_iff)
  ultimately show ?case using Cons.IH [of "acc + eff_weight x"] by simp
qed simp

subsection \<open>DNS rotation\<close>

fun dns_calls ::
  "((string \<Rightarrow> IpAddr list) \<times> instant) list \<Rightarrow> DnsRoundRobinResolver \<Rightarrow> IpAddr option list" where
  "dns_calls [] s = []"
| "dns_calls ((resolve, now) # cs) s =
     (let (a, s') = next_address resolve now s in a # dns_calls cs s')"

lemma dns_calls_fresh:
  assumes "dns_last_refresh s = Some t0" "dns_cached s = addrs" "addrs \<noteq> []"
    "\<forall>(r, t)\<in>set cs. t < t0 + dns_refresh_interval s"
    "0 < dns_refresh_interval s" "dns_cursor s + length cs < 2 ^ 64"
  shows "dns_calls cs s =
    map (\<lambda>i. Some (addrs ! (i mod length addrs))) [dns_cursor s..<dns_cursor s + length cs]"
  using assms
proof (induction cs arbitrary: s)
  case (Cons c cs)
  obtain r t where c: "c = (r, t)" by force
  have fresh: "\<not> dns_needs_refresh t s"
    using Cons.prems(1,4,5) c by (auto simp: dns_needs_refresh_def)
  let ?s = "s\<lparr>dns_cursor := Suc (dns_cursor s)\<rparr>"
  have step: "next_address r t s = (Some (addrs ! (dns_cursor s mod length addrs)), ?s)"
    using fresh Cons.prems by (simp add: next_address_def wrapping_add_usize_def)
  have "dns_calls cs ?s = map (\<lambda>i. Some (addrs ! (i mod length addrs)))
      [Suc (dns_cursor s)..<Suc (dns_cursor s) + length cs]"
    using Cons.IH [of ?s] Cons.prems by simp
  then show ?case using c step by (simp add: upt_conv_Cons del: upt_Suc)
qed simp

section \<open>Properties\<close>

text \<open>
  Whatever the policy, the next pick exists exactly if some endpoint is selectable now, it
  is a selectable endpoint of the list, and a selectable manual pin is always the pick.
  The cursor of the cyclic policies must not be about to wrap.
\<close>
theorem sel_next_available:
  assumes "valid_draw draw" "cursor_ok s"
  shows "(fst (sel_next draw now s) = None \<longleftrightarrow> healthy_endpoints now (sel_core s) = [])
         \<and> (\<forall>p. fst (sel_next draw now s) = Some p \<longrightarrow>
              p \<in> make_pick ` set (healthy_endpoints now (sel_core s)))
         \<and> (\<forall>p. manual_pick now (sel_core s) = Some p \<longrightarrow> fst (sel_next draw now s) = Some p)"
proof (intro conjI allI impI)
  show "fst (sel_next draw now s) = None \<longleftrightarrow> healthy_endpoints now (sel_core s) = []"
    using sel.next_Some_iff [OF assms] by blast
  show "p \<in> make_pick ` set (healthy_endpoints now (sel_core s))"
    if "fst (sel_next draw now s) = Some p" for p
    using sel.next_sound [OF assms(1) that] by (simp del: set_healthy_endpoints) blast
  show "fst (sel_next draw now s) = Some p" if "manual_pick now (sel_core s) = Some p" for p
    using that by (rule sel.next_pinned)
qed

theorem sel_next_available_witness:
  "fst (sel_next (\<lambda>n. n - 1) 7
     (Sel_Weighted (wt_new [endpoint_new ''a'' 22] default_round_robin_config))) \<noteq> None"
proof -
  have "valid_draw (\<lambda>n. n - 1)" by (simp add: valid_draw_def)
  with sel_next_available
    [of "\<lambda>n. n - 1" "Sel_Weighted (wt_new [endpoint_new ''a'' 22] default_round_robin_config)" 7]
  show ?thesis
    by (simp add: cursor_ok_def wt_new_def core_new_def healthy_endpoints_def is_healthy_def)
qed

text \<open>
  an endpoint that failed at \<open>t0\<close> is never picked again before its cooldown has passed, by
  any policy, whatever picks, overrides, other failures and successes of other endpoints happen
  in between: only a recorded success of that endpoint lifts the bench early.
\<close>
theorem failed_endpoint_rests:
  assumes "valid_draw draw" "t0 \<le> now" "now < t0 + core_cooldown (sel_core s)"
    "\<forall>x\<in>set ops. op_keeps_bench eid t0 (t0 + core_cooldown (sel_core s)) x"
  shows "map_option pick_id
           (fst (sel_next draw now (sel_run draw (sel_failure t0 eid err s) ops))) \<noteq> Some eid"
proof -
  let ?hi = "t0 + core_cooldown (sel_core s)" and ?s = "sel_failure t0 eid err s"
  have "benched eid ?hi (sel_core ?s)" "core_cooldown (sel_core ?s) = core_cooldown (sel_core s)"
    by (simp_all add: sel.core_fail core_record_failure_def benched_def)
  then have "benched eid ?hi (sel_core (sel_run draw ?s ops))"
    using assms(4) by (intro benched_run) auto
  then obtain u where "core_health (sel_core (sel_run draw ?s ops)) eid = Some (Cooldown u)" "?hi \<le> u"
    by (auto simp: benched_def)
  then show ?thesis
    using assms(3) by (intro sel.next_never_benched [OF assms(1), of _ _ u]) auto
qed

theorem failed_endpoint_rests_witness:
  "map_option pick_id (fst (sel_next (\<lambda>_. 0) 25
     (sel_run (\<lambda>_. 0)
        (sel_failure 10 ''a:22'' (Err_DnsFailed [])
          (Sel_Random (rnd_new [endpoint_new ''a'' 22, endpoint_new ''b'' 2]
            (default_round_robin_config\<lparr>rrc_cooldown_after_failure := 20\<rparr>))))
        [Op_Next 15, Op_Override ''a:22'', Op_Failure 16 ''b:2'' (Err_DnsFailed [])])))
   \<noteq> Some ''a:22''"
  by (rule failed_endpoint_rests [of "\<lambda>_. 0" 10])
    (simp_all add: valid_draw_def rnd_new_def core_new_def)

text \<open>
  Round robin starves nobody: among any \<open>n\<close> consecutive picks from \<open>n\<close> endpoints with no pin
  set, every selectable endpoint is picked, even when others are benched.
\<close>
theorem rr_no_starvation:
  assumes "core_manual (rr_core s) = None"
    "e \<in> set (healthy_endpoints now (rr_core s))"
    "n = length (core_endpoints (rr_core s))" "rr_cursor s + n * n < 2 ^ 64"
  shows "make_pick e \<in> set (fst (rr_calls n now s))"
proof -
  obtain i where i: "i < n" "e = core_endpoints (rr_core s) ! i"
    using assms(2,3) by (auto simp: in_set_conv_nth)
  then obtain j where j: "j \<in> {rr_cursor s..<rr_cursor s + n}" "j mod n = i"
    using mod_shift_onto by blast
  have "rr_ready now (rr_core s)" using assms(1,2)
    by (auto simp: rr_ready_def simp del: set_healthy_endpoints)
  then have "make_pick (core_endpoints (rr_core s) ! (j mod n)) \<in> set (fst (rr_calls n now s))"
    using rr_calls_visit [of now s n j] assms i j by auto
  with i j show ?thesis by simp
qed

theorem rr_no_starvation_witness:
  "make_pick (endpoint_new ''b'' 2)
     \<in> set (fst (rr_calls 2 7
         (rr_new [endpoint_new ''a'' 22, endpoint_new ''b'' 2] default_round_robin_config)))"
  by (rule rr_no_starvation)
    (simp_all add: rr_new_def core_new_def is_healthy_def)

text \<open>
  The weighted policy is exactly proportional: of the \<open>total\<close> equally likely rolls, the number
  that select endpoint \<open>e\<close> is its weight (a weight of zero counts as one), summed over its
  occurrences in the list.
\<close>
theorem weighted_exact_distribution:
  "card {roll. roll < total_weight hs \<and> weighted_scan hs 0 roll = Some e} =
     sum_list (map (\<lambda>x. if x = e then max (ep_weight x) 1 else 0) hs)"
  using weighted_scan_count [of 0 hs e] by (simp add: eff_weight_def cong: if_cong)

text \<open>
  The sticky policy keeps its choice: after a pick at \<open>t0\<close> with no manual pin, a later call
  before the pin's deadline returns the same endpoint as long as it is selectable.
\<close>
theorem sticky_keeps_pick:
  assumes "core_manual (st_core s) = None" "st_next draw t0 s = (Some p, s')"
    "st_pinned_until s' = Some until" "t0 \<le> now" "now < until"
    "is_healthy now (st_core s') (pick_id p)"
  shows "map_option pick_id (fst (st_next draw' now s')) = Some (pick_id p)"
proof -
  let ?c = "refresh_health t0 (st_core s)"
  have man: "manual_pick t (st_core s) = None" for t
    using assms(1) by (simp add: manual_pick_def)
  have c': "st_core s' = ?c"
    using st.core_next [of draw t0 s] assms(2) by simp
  obtain e where e: "p = make_pick e" "e \<in> set (core_endpoints (st_core s))"
    and pin: "st_pinned_id s' = Some (endpoint_id e)"
  proof (cases "st_live_pin t0 (s\<lparr>st_core := ?c\<rparr>)")
    case None
    with man assms(2) obtain ep cur where
      "scan_from t0 ?c (length (core_endpoints (st_core s))) (st_cursor s) = (Some ep, cur)"
      "core_endpoints (st_core s) \<noteq> []" "p = make_pick ep" "st_pinned_id s' = Some (endpoint_id ep)"
      by (auto simp: st_next_def Let_def split: if_splits prod.splits option.splits)
    with scan_from_Some [of t0 ?c] show thesis by (intro that) auto
  next
    case (Some ep)
    with man assms(2) have "p = make_pick ep" "s' = s\<lparr>st_core := ?c\<rparr>"
      by (auto simp: st_next_def Let_def)
    with Some show thesis
      by (intro that) (auto simp: st_live_pin_def split: option.splits if_splits
          dest: find_endpoint_Some)
  qed
  obtain e' where e': "find_endpoint (endpoint_id e) (core_endpoints (st_core s)) = Some e'"
    using find_endpoint_mem [OF e(2)] by blast
  have "st_live_pin now (s'\<lparr>st_core := refresh_health now (st_core s')\<rparr>) = Some e'"
    using pin assms(3,5,6) e e' c' by (simp add: st_live_pin_def)
  moreover have "manual_pick now (st_core s') = None"
    using assms(1) c' by (simp add: manual_pick_def)
  ultimately show ?thesis
    using find_endpoint_Some [OF e'] e(1) by (simp add: st_next_def Let_def)
qed

theorem sticky_keeps_pick_witness:
  "map_option pick_id (fst (st_next (\<lambda>_. 0) 20
     (snd (st_next (\<lambda>_. 0) 10
       (st_new [endpoint_new ''a'' 22, endpoint_new ''b'' 2]
         (default_round_robin_config\<lparr>rrc_sticky_session_ttl := 30\<rparr>)))))) = Some ''a:22''"
proof -
  let ?s = "st_new [endpoint_new ''a'' 22, endpoint_new ''b'' 2]
         (default_round_robin_config\<lparr>rrc_sticky_session_ttl := 30\<rparr>)"
  have eid: "endpoint_id (endpoint_new ''a'' 22) = ''a:22''" by code_simp
  have n: "st_next (\<lambda>_. 0) 10 ?s =
      (Some (make_pick (endpoint_new ''a'' 22)), snd (st_next (\<lambda>_. 0) 10 ?s))"
    by (simp add: st_next_def st_new_def core_new_def Let_def manual_pick_def st_live_pin_def
        is_healthy_def refresh_health_def promote_def)
  have man: "core_manual (st_core ?s) = None" by (simp add: st_new_def core_new_def)
  have until: "st_pinned_until (snd (st_next (\<lambda>_. 0) 10 ?s)) = Some 40"
    by (simp add: st_next_def st_new_def core_new_def Let_def manual_pick_def st_live_pin_def
        is_healthy_def refresh_health_def promote_def)
  have "is_healthy 20 (st_core (snd (st_next (\<lambda>_. 0) 10 ?s))) (endpoint_id (endpoint_new ''a'' 22))"
    by (simp add: st.core_next is_healthy_refresh)
      (simp add: st_new_def core_new_def is_healthy_def)
  then show ?thesis
    using sticky_keeps_pick [OF man n until, of 20 "\<lambda>_. 0"] by (simp add: eid)
qed

text \<open>
  With no selectable pin, the least-errors policy picks a selectable endpoint whose recorded
  failure count is minimal among the selectable endpoints.
\<close>
theorem least_errors_minimal:
  assumes "manual_pick now (le_core s) = None" "fst (le_next draw now s) = Some p"
  shows "\<exists>e\<in>set (healthy_endpoints now (le_core s)). p = make_pick e
           \<and> (\<forall>x\<in>set (healthy_endpoints now (le_core s)).
                err_count (le_errors s) e \<le> err_count (le_errors s) x)"
proof -
  obtain e n where "least_errors_loop now (refresh_health now (le_core s)) (le_errors s)
      (core_endpoints (le_core s)) None = Some (e, n)" "p = make_pick e"
    using assms by (auto simp: le_next_def Let_def)
  with least_errors_loop_Some [OF this(1)] show ?thesis by auto
qed

theorem least_errors_minimal_witness:
  "\<exists>e. fst (le_next (\<lambda>_. 0) 50
       (le_failure 1 ''a:22'' (Err_DnsFailed [])
         (le_new [endpoint_new ''a'' 22, endpoint_new ''b'' 2]
           (default_round_robin_config\<lparr>rrc_cooldown_after_failure := 20\<rparr>)))) = Some (make_pick e)
     \<and> err_count (le_errors (le_failure 1 ''a:22'' (Err_DnsFailed [])
         (le_new [endpoint_new ''a'' 22, endpoint_new ''b'' 2]
           (default_round_robin_config\<lparr>rrc_cooldown_after_failure := 20\<rparr>)))) e = 0"
proof -
  let ?s = "le_failure 1 ''a:22'' (Err_DnsFailed [])
         (le_new [endpoint_new ''a'' 22, endpoint_new ''b'' 2]
           (default_round_robin_config\<lparr>rrc_cooldown_after_failure := 20\<rparr>))"
  have a: "endpoint_id (endpoint_new ''a'' 22) = ''a:22''"
    and b: "endpoint_id (endpoint_new ''b'' 2) = ''b:2''" by code_simp+
  have man: "manual_pick 50 (le_core ?s) = None"
    by (simp add: le_failure_def le_new_def core_new_def manual_pick_def core_record_failure_def)
  have h: "healthy_endpoints 50 (le_core ?s) = [endpoint_new ''a'' 22, endpoint_new ''b'' 2]"
    by (simp add: le_failure_def le_new_def core_new_def healthy_endpoints_def is_healthy_def
        core_record_failure_def a b)
  obtain p where p: "fst (le_next (\<lambda>_. 0) 50 ?s) = Some p"
    using le.next_complete [of "\<lambda>_. 0" 50 ?s] h by (cases "fst (le_next (\<lambda>_. 0) 50 ?s)") auto
  have "err_count (le_errors ?s) (endpoint_new ''b'' 2) = 0"
    by (simp add: le_failure_def le_new_def err_count_def a b)
  with least_errors_minimal [OF man p] h p show ?thesis by (auto simp del: set_healthy_endpoints)
qed

text \<open>
  After a refresh that resolved to a nonempty address list, the calls made within the refresh
  interval walk that list cyclically from its head and never ask the resolver again, whatever it
  would answer.
\<close>
theorem dns_rotates_without_requery:
  assumes "dns_needs_refresh t0 s" "resolve (dns_host s) = addrs" "addrs \<noteq> []"
    "\<forall>(r, t)\<in>set cs. t < t0 + dns_refresh_interval s"
    "0 < dns_refresh_interval s" "Suc (length cs) < 2 ^ 64"
  shows "dns_calls ((resolve, t0) # cs) s =
           map (\<lambda>i. Some (addrs ! (i mod length addrs))) [0..<Suc (length cs)]"
proof -
  let ?s = "s\<lparr>dns_cached := addrs, dns_last_refresh := Some t0, dns_cursor := 1\<rparr>"
  have "next_address resolve t0 s = (Some (addrs ! 0), ?s)"
    using assms(1-3) by (simp add: next_address_def wrapping_add_usize_def)
  moreover have "dns_calls cs ?s =
      map (\<lambda>i. Some (addrs ! (i mod length addrs))) [1..<1 + length cs]"
    using dns_calls_fresh [of ?s t0 addrs cs] assms by simp
  ultimately show ?thesis by (simp add: upt_conv_Cons del: upt_Suc)
qed

theorem dns_rotates_without_requery_witness:
  "dns_calls [(\<lambda>_. [V4 1, V4 2], 0), (\<lambda>_. [], 5), (\<lambda>_. [V4 9], 9)]
     (dns_new ''h'' (default_round_robin_config\<lparr>rrc_dns_refresh_interval := 10\<rparr>))
   = [Some (V4 1), Some (V4 2), Some (V4 1)]"
  using dns_rotates_without_requery
    [of 0 "dns_new ''h'' (default_round_robin_config\<lparr>rrc_dns_refresh_interval := 10\<rparr>)"
      "\<lambda>_. [V4 1, V4 2]" "[V4 1, V4 2]" "[(\<lambda>_. [], 5), (\<lambda>_. [V4 9], 9)]"]
  by (simp add: dns_new_def dns_needs_refresh_def)

end
