(* ===== verification/Failover.thy ===== *)
theory Failover
  imports Policy_Selectors "HOL-Library.Option_ord"
begin

text \<open>
  The endpoint selector of \<open>crates/spt-supervisor/src/failover.rs\<close>: priority and weighted failover
  with per-endpoint cooldowns, the one-cycle manual override, delegation to a selection policy,
  and the least-bad fallback when everything is cooling down.

  \<open>pick\<close> takes the instant and the random source as arguments and returns the selector too,
  because an attached policy (behind a mutex in the code) advances.  \<open>min_by_key\<close> on
  \<open>Option<Instant>\<close> uses the derived order, in which \<open>None\<close> is least.
\<close>

datatype FailoverMode = FM_Priority | FM_Weighted | FM_Manual

record ManualOverride =
  mo_host :: string
  mo_port :: nat

datatype SelectorError = SE_Empty | SE_AllCoolingDown | SE_ManualUnknown string nat

record EndpointEntry =
  ee_ep :: Endpoint
  ee_cooldown_until :: "instant option"
  ee_consecutive_failures :: nat

record EndpointSelector =
  es_mode :: FailoverMode
  es_entries :: "EndpointEntry list"
  es_cooldown_secs_per_failure :: nat
  es_fail_after :: nat
  es_manual :: "ManualOverride option"
  es_policy :: "PolicySelector option"

definition selector_new :: "FailoverMode \<Rightarrow> Endpoint list \<Rightarrow> EndpointSelector" where
  "selector_new mode endpoints =
     \<lparr>es_mode = mode,
      es_entries = map (\<lambda>ep. \<lparr>ee_ep = ep, ee_cooldown_until = None, ee_consecutive_failures = 0\<rparr>)
                     endpoints,
      es_cooldown_secs_per_failure = 5, es_fail_after = 1, es_manual = None, es_policy = None\<rparr>"

definition set_policy_selector :: "PolicySelector option \<Rightarrow> EndpointSelector \<Rightarrow> EndpointSelector" where
  "set_policy_selector ps s = s\<lparr>es_policy := ps\<rparr>"

definition with_cooldown :: "nat \<Rightarrow> EndpointSelector \<Rightarrow> EndpointSelector" where
  "with_cooldown secs s = s\<lparr>es_cooldown_secs_per_failure := secs\<rparr>"

definition with_fail_after :: "nat \<Rightarrow> EndpointSelector \<Rightarrow> EndpointSelector" where
  "with_fail_after n s = s\<lparr>es_fail_after := n\<rparr>"

definition host_port_key :: "string \<Rightarrow> nat \<Rightarrow> string" where
  "host_port_key host port = host @ '':'' @ dec port"

definition is_entry :: "string \<Rightarrow> nat \<Rightarrow> EndpointEntry \<Rightarrow> bool" where
  "is_entry host port e \<longleftrightarrow> ep_host (ee_ep e) = host \<and> ep_port (ee_ep e) = port"

definition pick_via_policy ::
  "(nat \<Rightarrow> nat) \<Rightarrow> instant \<Rightarrow> EndpointSelector
     \<Rightarrow> (SelectorError + Endpoint) option \<times> EndpointSelector" where
  "pick_via_policy draw now s =
     (case es_policy s of
        None \<Rightarrow> (None, s)
      | Some ps \<Rightarrow>
          (let (pick, ps') = sel_next draw now ps; s' = s\<lparr>es_policy := Some ps'\<rparr> in
           (Some (case pick of
                None \<Rightarrow> Inl SE_AllCoolingDown
              | Some p \<Rightarrow>
                  (case List.find (\<lambda>e. host_port_key (ep_host (ee_ep e)) (ep_port (ee_ep e)) = pick_id p)
                          (es_entries s) of
                     Some e \<Rightarrow> Inr (ee_ep e)
                   | None \<Rightarrow> Inl SE_Empty)), s')))"

definition set_manual :: "ManualOverride option \<Rightarrow> EndpointSelector \<Rightarrow> EndpointSelector" where
  "set_manual m s =
     s\<lparr>es_policy := map_option
         (sel_override (case m of Some x \<Rightarrow> host_port_key (mo_host x) (mo_port x) | None \<Rightarrow> []))
         (es_policy s),
       es_manual := m\<rparr>"

definition eligible :: "instant \<Rightarrow> EndpointEntry \<Rightarrow> bool" where
  "eligible now e = (case ee_cooldown_until e of None \<Rightarrow> True | Some t \<Rightarrow> t \<le> now)"

definition healthy_count :: "instant \<Rightarrow> EndpointSelector \<Rightarrow> nat" where
  "healthy_count now s = length (filter (eligible now) (es_entries s))"

definition least_bad_fallback :: "EndpointSelector \<Rightarrow> Endpoint" where
  "least_bad_fallback s = ee_ep (the (min_by_key ee_cooldown_until (es_entries s)))"

definition pick_by_mode :: "(nat \<Rightarrow> nat) \<Rightarrow> instant \<Rightarrow> EndpointSelector \<Rightarrow> SelectorError + Endpoint" where
  "pick_by_mode draw now s =
     (if es_mode s = FM_Manual then Inl SE_Empty
      else
        let healthy = filter (eligible now) (es_entries s) in
        if healthy = [] then Inr (least_bad_fallback s)
        else
          let min_pri = Min (set (map (\<lambda>e. ep_priority (ee_ep e)) healthy));
              cohort = filter (\<lambda>e. ep_priority (ee_ep e) = min_pri) healthy
          in case es_mode s of
               FM_Priority \<Rightarrow> Inr (ee_ep (hd cohort))
             | FM_Weighted \<Rightarrow>
                 (let total = total_weight (map ee_ep cohort) in
                  if total = 0 then Inr (ee_ep (hd cohort))
                  else case weighted_scan (map ee_ep cohort) 0 (draw total) of
                         Some ep \<Rightarrow> Inr ep
                       | None \<Rightarrow> Inr (ee_ep (last cohort)))
             | FM_Manual \<Rightarrow> Inl SE_Empty)"

definition pick_unpinned ::
  "(nat \<Rightarrow> nat) \<Rightarrow> instant \<Rightarrow> EndpointSelector \<Rightarrow> (SelectorError + Endpoint) \<times> EndpointSelector" where
  "pick_unpinned draw now s =
     (case pick_via_policy draw now s of
        (Some (Inr ep), s') \<Rightarrow> (Inr ep, s')
      | (Some (Inl _), s') \<Rightarrow> (Inr (least_bad_fallback s), s')
      | (None, s') \<Rightarrow> (pick_by_mode draw now s, s'))"

definition pick ::
  "(nat \<Rightarrow> nat) \<Rightarrow> instant \<Rightarrow> EndpointSelector \<Rightarrow> (SelectorError + Endpoint) \<times> EndpointSelector" where
  "pick draw now s =
     (if es_entries s = [] then (Inl SE_Empty, s)
      else case es_manual s of
        None \<Rightarrow> pick_unpinned draw now s
      | Some m \<Rightarrow>
          (case List.find (is_entry (mo_host m) (mo_port m)) (es_entries s) of
             None \<Rightarrow> (Inl (SE_ManualUnknown (mo_host m) (mo_port m)), s)
           | Some pinned \<Rightarrow>
               if eligible now pinned then (Inr (ee_ep pinned), s)
               else pick_unpinned draw now s))"

definition record_success :: "string \<Rightarrow> nat \<Rightarrow> EndpointSelector \<Rightarrow> EndpointSelector" where
  "record_success host port s =
     (let s1 = s\<lparr>es_entries := update_first (is_entry host port)
                  (\<lambda>e. e\<lparr>ee_consecutive_failures := 0, ee_cooldown_until := None\<rparr>) (es_entries s)\<rparr>;
          clear_pin = (case es_manual s1 of
                         Some m \<Rightarrow> mo_host m = host \<and> mo_port m = port | None \<Rightarrow> False);
          s2 = (if clear_pin then set_manual None s1 else s1)
      in s2\<lparr>es_policy := map_option (sel_success (host_port_key host port)) (es_policy s2)\<rparr>)"

definition bench_entry :: "nat \<Rightarrow> nat \<Rightarrow> instant \<Rightarrow> EndpointEntry \<Rightarrow> EndpointEntry" where
  "bench_entry unit fail_after now e =
     (let n = sat_add u32_max (ee_consecutive_failures e) 1;
          e1 = e\<lparr>ee_consecutive_failures := n\<rparr>
      in if fail_after \<le> n
         then e1\<lparr>ee_cooldown_until := Some (now + from_secs (sat_mul u64_max n unit))\<rparr>
         else e1)"

definition record_failure :: "string \<Rightarrow> nat \<Rightarrow> instant \<Rightarrow> EndpointSelector \<Rightarrow> EndpointSelector" where
  "record_failure host port now s =
     s\<lparr>es_entries := update_first (is_entry host port)
         (bench_entry (es_cooldown_secs_per_failure s) (es_fail_after s) now) (es_entries s),
       es_policy := map_option
         (sel_failure now (host_port_key host port)
            (Err_NetworkUnreachable (host_port_key host port))) (es_policy s)\<rparr>"

definition cooldowns :: "EndpointSelector \<Rightarrow> string \<rightharpoonup> instant option" where
  "cooldowns s = map_of (rev (map
     (\<lambda>e. (host_port_key (ep_host (ee_ep e)) (ep_port (ee_ep e)), ee_cooldown_until e)) (es_entries s)))"

section \<open>Lemmas\<close>

lemma host_port_key_endpoint_id: "host_port_key (ep_host e) (ep_port e) = endpoint_id e"
  by (simp add: host_port_key_def endpoint_id_def)

lemma host_port_key_nonempty [simp]: "host_port_key h p \<noteq> []"
  by (simp add: host_port_key_def)

lemma is_entry_bench [simp]: "is_entry h p (bench_entry u k now e) = is_entry h p e"
  by (simp add: is_entry_def bench_entry_def Let_def)

lemma is_entry_success [simp]:
  "is_entry h p (e\<lparr>ee_consecutive_failures := 0, ee_cooldown_until := None\<rparr>) = is_entry h p e"
  by (simp add: is_entry_def)

lemma ee_ep_bench [simp]: "ee_ep (bench_entry u k now e) = ee_ep e"
  by (simp add: bench_entry_def Let_def)

lemma pick_via_policy_simps [simp]:
  "es_entries (snd (pick_via_policy draw now s)) = es_entries s"
  "es_manual (snd (pick_via_policy draw now s)) = es_manual s"
  "es_mode (snd (pick_via_policy draw now s)) = es_mode s"
  by (simp_all add: pick_via_policy_def Let_def split: option.splits prod.splits)

lemma snd_pick_unpinned: "snd (pick_unpinned draw now s) = snd (pick_via_policy draw now s)"
  by (auto simp: pick_unpinned_def split: prod.splits option.splits sum.splits)

lemma snd_pick: "snd (pick draw now s) = s \<or> snd (pick draw now s) = snd (pick_via_policy draw now s)"
  by (auto simp: pick_def snd_pick_unpinned split: option.splits)

lemma pick_keeps [simp]:
  "es_entries (snd (pick draw now s)) = es_entries s"
  "es_manual (snd (pick draw now s)) = es_manual s"
  "es_mode (snd (pick draw now s)) = es_mode s"
  using snd_pick [of draw now s] by auto

lemma least_bad_fallback_mem:
  assumes "es_entries s \<noteq> []"
  obtains e where "e \<in> set (es_entries s)" "least_bad_fallback s = ee_ep e"
    "\<forall>x\<in>set (es_entries s). ee_cooldown_until e \<le> ee_cooldown_until x"
proof -
  obtain e where "min_by_key ee_cooldown_until (es_entries s) = Some e"
    using assms by (cases "min_by_key ee_cooldown_until (es_entries s)") auto
  then show thesis
    by (intro that [of e]) (auto simp: least_bad_fallback_def dest: min_by_key_mem min_by_key_le)
qed

lemma pick_by_mode_cases:
  assumes "es_entries s \<noteq> []" "es_mode s \<noteq> FM_Manual"
  obtains e where "e \<in> set (es_entries s)" "pick_by_mode draw now s = Inr (ee_ep e)"
    "if \<exists>x\<in>set (es_entries s). eligible now x
     then eligible now e \<and> (\<forall>x\<in>set (es_entries s).
            eligible now x \<longrightarrow> ep_priority (ee_ep e) \<le> ep_priority (ee_ep x))
     else \<forall>x\<in>set (es_entries s). ee_cooldown_until e \<le> ee_cooldown_until x"
proof (cases "filter (eligible now) (es_entries s) = []")
  case True
  obtain e where e: "e \<in> set (es_entries s)" "least_bad_fallback s = ee_ep e"
    "\<forall>x\<in>set (es_entries s). ee_cooldown_until e \<le> ee_cooldown_until x"
    using assms(1) by (rule least_bad_fallback_mem)
  from True have "\<not> (\<exists>x\<in>set (es_entries s). eligible now x)" by (auto simp: filter_empty_conv)
  with True assms(2) e show thesis by (intro that [of e]) (simp_all add: pick_by_mode_def)
next
  case False
  let ?h = "filter (eligible now) (es_entries s)"
  let ?min = "Min (set (map (\<lambda>e. ep_priority (ee_ep e)) ?h))"
  let ?c = "filter (\<lambda>e. ep_priority (ee_ep e) = ?min) ?h"
  have "?min \<in> set (map (\<lambda>e. ep_priority (ee_ep e)) ?h)"
    using False by (intro Min_in) (auto simp: filter_empty_conv)
  then have ne: "?c \<noteq> []" by (auto simp: filter_empty_conv)
  have least: "?min \<le> ep_priority (ee_ep x)" if "x \<in> set ?h" for x
    using that by (intro Min_le) auto
  obtain e where e: "e \<in> set ?c" "pick_by_mode draw now s = Inr (ee_ep e)"
  proof (cases "weighted_scan (map ee_ep ?c) 0 (draw (total_weight (map ee_ep ?c)))")
    case None
    have "hd ?c \<in> set ?c" "last ?c \<in> set ?c" using ne by (rule hd_in_set, rule last_in_set)
    moreover have "pick_by_mode draw now s \<in> {Inr (ee_ep (hd ?c)), Inr (ee_ep (last ?c))}"
      using None False assms(2) by (cases "es_mode s") (auto simp: pick_by_mode_def Let_def)
    ultimately show thesis using that by blast
  next
    case (Some ep)
    then obtain e' where e': "e' \<in> set ?c" "ep = ee_ep e'" using weighted_scan_mem by fastforce
    have "hd ?c \<in> set ?c" using ne by (rule hd_in_set)
    moreover have "pick_by_mode draw now s \<in> {Inr (ee_ep (hd ?c)), Inr (ee_ep e')}"
      using Some e' False assms(2) by (cases "es_mode s") (auto simp: pick_by_mode_def Let_def)
    ultimately show thesis using that e' by blast
  qed
  then have "e \<in> set ?h" "ep_priority (ee_ep e) = ?min" by auto
  with e least show thesis by (intro that [of e]) auto
qed

lemma pick_via_policy_mem:
  "fst (pick_via_policy draw now s) = Some (Inr ep) \<Longrightarrow> ep \<in> ee_ep ` set (es_entries s)"
  by (auto simp: pick_via_policy_def Let_def split: option.splits prod.splits
      dest!: find_Some_mem)

lemma fst_pick_unpinned:
  "fst (pick_unpinned draw now s) =
     (case fst (pick_via_policy draw now s) of
        Some (Inr ep) \<Rightarrow> Inr ep
      | Some (Inl _) \<Rightarrow> Inr (least_bad_fallback s)
      | None \<Rightarrow> pick_by_mode draw now s)"
  by (auto simp: pick_unpinned_def split: prod.splits option.splits sum.splits)

lemma pick_unpinned_outcome:
  assumes "es_entries s \<noteq> []"
  shows "case fst (pick_unpinned draw now s) of
           Inr ep \<Rightarrow> ep \<in> ee_ep ` set (es_entries s)
         | Inl err \<Rightarrow> err = SE_Empty \<and> es_mode s = FM_Manual \<and> es_policy s = None"
proof (cases "fst (pick_via_policy draw now s)")
  case None
  then have pol: "es_policy s = None"
    by (auto simp: pick_via_policy_def Let_def split: option.splits prod.splits)
  show ?thesis
  proof (cases "es_mode s = FM_Manual")
    case True
    with None pol show ?thesis by (simp add: fst_pick_unpinned pick_by_mode_def)
  next
    case False
    then obtain e where "e \<in> set (es_entries s)" "pick_by_mode draw now s = Inr (ee_ep e)"
      by (rule pick_by_mode_cases [OF assms])
    with None show ?thesis by (simp add: fst_pick_unpinned)
  qed
next
  case (Some r)
  show ?thesis
  proof (cases r)
    case (Inl err)
    obtain e where "e \<in> set (es_entries s)" "least_bad_fallback s = ee_ep e"
      using assms by (rule least_bad_fallback_mem)
    with Some Inl show ?thesis by (simp add: fst_pick_unpinned)
  next
    case (Inr ep)
    with Some pick_via_policy_mem show ?thesis by (simp add: fst_pick_unpinned)
  qed
qed

lemma pick_in_entries:
  assumes "es_entries s \<noteq> []" "fst (pick draw now s) = Inr ep"
  shows "ep \<in> ee_ep ` set (es_entries s)"
  using assms pick_unpinned_outcome [OF assms(1), of draw now]
  by (auto simp: pick_def dest: find_Some_mem split: option.splits if_splits)

section \<open>Sequences of operations\<close>

datatype fo_op =
    FO_Pick "nat \<Rightarrow> nat" instant | FO_Success string nat | FO_Failure string nat instant
  | FO_Manual "ManualOverride option"

fun fo_apply :: "EndpointSelector \<Rightarrow> fo_op \<Rightarrow> EndpointSelector" where
  "fo_apply s (FO_Pick draw now) = snd (pick draw now s)"
| "fo_apply s (FO_Success h p) = record_success h p s"
| "fo_apply s (FO_Failure h p now) = record_failure h p now s"
| "fo_apply s (FO_Manual m) = set_manual m s"

definition fo_run :: "EndpointSelector \<Rightarrow> fo_op list \<Rightarrow> EndpointSelector" where
  "fo_run s ops = foldl fo_apply s ops"

lemma fo_run_simps [simp]:
  "fo_run s [] = s" "fo_run s (x # xs) = fo_run (fo_apply s x) xs"
  by (simp_all add: fo_run_def)

text \<open>The attached policy sees the same endpoints and the same pin as the selector.\<close>

definition policy_in_step :: "EndpointSelector \<Rightarrow> bool" where
  "policy_in_step s =
     (case es_policy s of
        None \<Rightarrow> True
      | Some ps \<Rightarrow>
          core_endpoints (sel_core ps) = map ee_ep (es_entries s)
          \<and> core_manual (sel_core ps) =
              map_option (\<lambda>m. host_port_key (mo_host m) (mo_port m)) (es_manual s))"

lemma sel_core_ops [simp]:
  "sel_core (snd (sel_next draw now ps)) = refresh_health now (sel_core ps)"
  "sel_core (sel_success k ps) = core_record_success k (sel_core ps)"
  "sel_core (sel_failure now k err ps) = core_record_failure now k err (sel_core ps)"
  "sel_core (sel_override k ps) = core_manual_override k (sel_core ps)"
  by (simp_all add: sel.core_next sel.core_suc sel.core_fail sel.core_ovr)

lemma core_updates [simp]:
  "core_endpoints (core_record_success k c) = core_endpoints c"
  "core_manual (core_record_success k c) = core_manual c"
  "core_endpoints (core_record_failure now k err c) = core_endpoints c"
  "core_manual (core_record_failure now k err c) = core_manual c"
  "core_endpoints (core_manual_override k c) = core_endpoints c"
  "core_manual (core_manual_override k c) = (if k = [] then None else Some k)"
  by (simp_all add: core_record_success_def core_record_failure_def core_manual_override_def)

lemma map_ee_ep_ops [simp]:
  "map ee_ep (update_first q (bench_entry u k now) es) = map ee_ep es"
  "map ee_ep (update_first q (\<lambda>e. e\<lparr>ee_consecutive_failures := 0, ee_cooldown_until := None\<rparr>) es)
     = map ee_ep es"
  by (simp_all add: update_first_map)

lemma fo_apply_endpoints [simp]: "map ee_ep (es_entries (fo_apply s x)) = map ee_ep (es_entries s)"
  by (cases x) (auto simp: record_success_def record_failure_def set_manual_def Let_def)

lemma policy_in_step_pick: "policy_in_step s \<Longrightarrow> policy_in_step (snd (pick draw now s))"
proof -
  assume inv: "policy_in_step s"
  have "policy_in_step (snd (pick_via_policy draw now s))"
  proof (cases "es_policy s")
    case (Some ps)
    obtain r ps' where r: "sel_next draw now ps = (r, ps')" by force
    then have "sel_core ps' = refresh_health now (sel_core ps)"
      using sel.core_next [of draw now ps] by simp
    with inv Some r show ?thesis
      by (simp add: policy_in_step_def pick_via_policy_def Let_def)
  qed (use inv in \<open>simp add: pick_via_policy_def\<close>)
  with inv show ?thesis using snd_pick [of draw now s] by auto
qed

lemma policy_in_step_apply: "policy_in_step s \<Longrightarrow> policy_in_step (fo_apply s x)"
proof (cases x)
  case (FO_Pick draw now)
  moreover assume "policy_in_step s"
  ultimately show ?thesis by (simp add: policy_in_step_pick)
next
  case (FO_Success h p)
  moreover assume "policy_in_step s"
  ultimately show ?thesis
    by (auto simp: policy_in_step_def record_success_def set_manual_def Let_def
        split: option.splits if_splits)
qed (auto simp: policy_in_step_def record_failure_def set_manual_def split: option.splits)

lemma policy_in_step_run: "policy_in_step s \<Longrightarrow> policy_in_step (fo_run s ops)"
  by (induction ops arbitrary: s) (auto intro: policy_in_step_apply)

lemma policy_pick_resolves:
  assumes "policy_in_step s" "valid_draw draw"
  shows "fst (pick_via_policy draw now s) \<noteq> Some (Inl SE_Empty)"
proof (cases "es_policy s")
  case (Some ps)
  obtain r ps' where r: "sel_next draw now ps = (r, ps')" by force
  show ?thesis
  proof (cases r)
    case (Some p)
    with r assms(2) obtain e where "e \<in> set (core_endpoints (sel_core ps))" "p = make_pick e"
      using sel.next_sound [of draw now ps p] by auto
    moreover have "core_endpoints (sel_core ps) = map ee_ep (es_entries s)"
      using assms(1) \<open>es_policy s = Some ps\<close> by (simp add: policy_in_step_def)
    ultimately obtain x where "x \<in> set (es_entries s)"
      "host_port_key (ep_host (ee_ep x)) (ep_port (ee_ep x)) = pick_id p"
      by (auto simp: host_port_key_endpoint_id)
    then have "List.find (\<lambda>e. host_port_key (ep_host (ee_ep e)) (ep_port (ee_ep e)) = pick_id p)
        (es_entries s) \<noteq> None"
      by (auto simp: find_None_all)
    with r Some \<open>es_policy s = Some ps\<close> show ?thesis
      by (auto simp: pick_via_policy_def)
  qed (use r \<open>es_policy s = Some ps\<close> in \<open>simp add: pick_via_policy_def\<close>)
qed (simp add: pick_via_policy_def)

lemma sel_core_make_selector:
  "make_selector eps cfg = Some ps \<Longrightarrow> sel_core ps = core_new eps cfg"
  by (auto simp: make_selector_def rr_new_def rnd_new_def wt_new_def st_new_def le_new_def
      split: if_splits SelectionPolicy.splits)

lemma policy_in_step_new:
  "policy_in_step (set_policy_selector (make_selector eps cfg) (selector_new mode eps))"
  by (auto simp: policy_in_step_def set_policy_selector_def selector_new_def core_new_def comp_def
      split: option.splits dest!: sel_core_make_selector)

subsection \<open>Pins and cooldowns over time\<close>

fun keeps_pin :: "ManualOverride \<Rightarrow> fo_op \<Rightarrow> bool" where
  "keeps_pin m (FO_Success h p) = (\<not> (mo_host m = h \<and> mo_port m = p))"
| "keeps_pin m (FO_Manual _) = False"
| "keeps_pin m _ = True"

lemma pin_kept_apply:
  "es_manual s = Some m \<Longrightarrow> keeps_pin m x \<Longrightarrow> es_manual (fo_apply s x) = Some m"
  by (cases x) (auto simp: record_success_def record_failure_def Let_def)

lemma pin_kept_run:
  "es_manual s = Some m \<Longrightarrow> \<forall>x\<in>set ops. keeps_pin m x \<Longrightarrow> es_manual (fo_run s ops) = Some m"
  by (induction ops arbitrary: s) (auto simp: pin_kept_apply)

lemma find_entry_endpoints:
  "map ee_ep es = map ee_ep es' \<Longrightarrow>
     map_option ee_ep (List.find (is_entry h p) es) = map_option ee_ep (List.find (is_entry h p) es')"
proof (induction es arbitrary: es')
  case (Cons e es)
  then obtain e' es'' where "es' = e' # es''" by (cases es') auto
  with Cons show ?case by (auto simp: is_entry_def)
qed simp

lemma fo_run_endpoints: "map ee_ep (es_entries (fo_run s ops)) = map ee_ep (es_entries s)"
  by (induction ops arbitrary: s) auto

definition fail_at :: "string \<Rightarrow> nat \<Rightarrow> EndpointSelector \<Rightarrow> instant list \<Rightarrow> EndpointSelector" where
  "fail_at h p s ts = foldl (\<lambda>s t. record_failure h p t s) s ts"

lemma fail_at_knobs [simp]:
  "es_cooldown_secs_per_failure (fail_at h p s ts) = es_cooldown_secs_per_failure s"
  "es_fail_after (fail_at h p s ts) = es_fail_after s"
  unfolding fail_at_def by (induction ts arbitrary: s) (auto simp: record_failure_def)

lemma fail_at_snoc: "fail_at h p s (ts @ [t]) = record_failure h p t (fail_at h p s ts)"
  by (simp add: fail_at_def)

lemma find_record_failure:
  "List.find (is_entry h p) (es_entries (record_failure h p t s)) =
     map_option (bench_entry (es_cooldown_secs_per_failure s) (es_fail_after s) t)
       (List.find (is_entry h p) (es_entries s))"
  by (simp add: record_failure_def find_update_first)

lemma fail_at_entry:
  assumes "List.find (is_entry h p) (es_entries s) = Some e0" "ee_consecutive_failures e0 = 0"
    "length ts \<le> u32_max" "length ts * es_cooldown_secs_per_failure s \<le> u64_max"
  shows "\<exists>e. List.find (is_entry h p) (es_entries (fail_at h p s ts)) = Some e
           \<and> ee_ep e = ee_ep e0 \<and> ee_consecutive_failures e = length ts
           \<and> (ts \<noteq> [] \<and> es_fail_after s \<le> length ts \<longrightarrow> ee_cooldown_until e =
                Some (last ts + from_secs (length ts * es_cooldown_secs_per_failure s)))
           \<and> (length ts < es_fail_after s \<longrightarrow> ee_cooldown_until e = ee_cooldown_until e0)"
  using assms(3,4)
proof (induction ts rule: rev_induct)
  case Nil
  then show ?case using assms(1,2) by (simp add: fail_at_def)
next
  case (snoc t ts)
  have "length ts * es_cooldown_secs_per_failure s \<le> Suc (length ts) * es_cooldown_secs_per_failure s"
    by simp
  with snoc.prems(2) have "length ts * es_cooldown_secs_per_failure s \<le> u64_max"
    by (metis le_trans length_append_singleton)
  then obtain e where e: "List.find (is_entry h p) (es_entries (fail_at h p s ts)) = Some e"
    "ee_ep e = ee_ep e0" "ee_consecutive_failures e = length ts"
    "length ts < es_fail_after s \<longrightarrow> ee_cooldown_until e = ee_cooldown_until e0"
    using snoc.IH snoc.prems(1) by fastforce
  have "sat_add u32_max (length ts) 1 = Suc (length ts)"
    using snoc.prems(1) by (simp add: sat_add_exact)
  then show ?case
    using e snoc.prems(2)
    by (auto simp: fail_at_snoc find_record_failure bench_entry_def Let_def sat_mul_exact)
qed

section \<open>Properties\<close>

definition pin_usable :: "instant \<Rightarrow> EndpointSelector \<Rightarrow> bool" where
  "pin_usable now s =
     (case es_manual s of
        None \<Rightarrow> False
      | Some m \<Rightarrow> (case List.find (is_entry (mo_host m) (mo_port m)) (es_entries s) of
                     None \<Rightarrow> False | Some e \<Rightarrow> eligible now e))"

text \<open>
  the selector strands a profile only in two ways.  With endpoints configured, a pick is
  always one of them, except that an override naming no configured endpoint is reported as such,
  and that manual mode without a policy reports no endpoint while no usable pin is set.  In
  particular \<open>AllCoolingDown\<close> is never returned.
\<close>
theorem pick_outcome:
  assumes "es_entries s \<noteq> []"
  shows "case fst (pick draw now s) of
           Inr ep \<Rightarrow> ep \<in> ee_ep ` set (es_entries s)
         | Inl err \<Rightarrow>
             (err = SE_Empty \<and> es_mode s = FM_Manual \<and> es_policy s = None \<and> \<not> pin_usable now s)
             \<or> (\<exists>m. es_manual s = Some m \<and> err = SE_ManualUnknown (mo_host m) (mo_port m)
                   \<and> \<not> (\<exists>e\<in>set (es_entries s). is_entry (mo_host m) (mo_port m) e))"
proof (cases "es_manual s")
  case None
  with pick_unpinned_outcome [OF assms, of draw now] assms show ?thesis
    by (auto simp: pick_def pin_usable_def split: sum.splits)
next
  case (Some m)
  show ?thesis
  proof (cases "List.find (is_entry (mo_host m) (mo_port m)) (es_entries s)")
    case None
    then have "\<not> (\<exists>e\<in>set (es_entries s). is_entry (mo_host m) (mo_port m) e)"
      by (simp add: find_None_all)
    with None Some assms show ?thesis by (simp add: pick_def)
  next
    case (Some e)
    with \<open>es_manual s = Some m\<close> pick_unpinned_outcome [OF assms, of draw now] assms
    show ?thesis
      by (auto simp: pick_def pin_usable_def dest: find_Some_mem split: sum.splits)
  qed
qed

theorem pick_outcome_witness:
  "\<exists>ep\<in>{endpoint_new ''a'' 22, endpoint_new ''b'' 22}.
     fst (pick (\<lambda>_. 0) 5
       (fail_at ''a'' 22 (selector_new FM_Weighted [endpoint_new ''a'' 22, endpoint_new ''b'' 22]) [3]))
     = Inr ep"
proof -
  let ?s = "fail_at ''a'' 22 (selector_new FM_Weighted [endpoint_new ''a'' 22, endpoint_new ''b'' 22]) [3]"
  have "map ee_ep (es_entries ?s) = [endpoint_new ''a'' 22, endpoint_new ''b'' 22]"
    by (simp add: fail_at_def record_failure_def selector_new_def)
  then have "ee_ep ` set (es_entries ?s) = {endpoint_new ''a'' 22, endpoint_new ''b'' 22}"
    by (metis list.set(1) list.set(2) set_map)
  moreover have "es_entries ?s \<noteq> []" "es_mode ?s = FM_Weighted" "es_manual ?s = None"
    by (simp_all add: fail_at_def record_failure_def selector_new_def)
  ultimately show ?thesis
    using pick_outcome [of ?s 5 "\<lambda>_. 0"]
    by (cases "fst (pick (\<lambda>_. 0) 5 ?s)") auto
qed

text \<open>
  without a pin and without a policy, the pick is an eligible endpoint of minimal priority
  whenever some endpoint is eligible, and otherwise the endpoint whose cooldown ends first.
\<close>
theorem pick_prefers_healthy_priority:
  assumes "es_entries s \<noteq> []" "es_manual s = None" "es_policy s = None" "es_mode s \<noteq> FM_Manual"
  shows "\<exists>e\<in>set (es_entries s). fst (pick draw now s) = Inr (ee_ep e)
          \<and> (if \<exists>x\<in>set (es_entries s). eligible now x
             then eligible now e \<and> (\<forall>x\<in>set (es_entries s).
                    eligible now x \<longrightarrow> ep_priority (ee_ep e) \<le> ep_priority (ee_ep x))
             else \<forall>x\<in>set (es_entries s). ee_cooldown_until e \<le> ee_cooldown_until x)"
proof -
  have "fst (pick draw now s) = pick_by_mode draw now s"
    using assms by (simp add: pick_def fst_pick_unpinned pick_via_policy_def)
  then show ?thesis using pick_by_mode_cases [OF assms(1,4), of draw now] by metis
qed

theorem pick_prefers_healthy_priority_witness:
  "fst (pick (\<lambda>_. 0) 5 (selector_new FM_Priority
     [(endpoint_new ''a'' 22)\<lparr>ep_priority := 7\<rparr>, endpoint_new ''b'' 22])) =
   Inr (endpoint_new ''b'' 22)"
  using pick_prefers_healthy_priority [of "selector_new FM_Priority
     [(endpoint_new ''a'' 22)\<lparr>ep_priority := 7\<rparr>, endpoint_new ''b'' 22]" "\<lambda>_. 0" 5]
  by (auto simp: selector_new_def eligible_def endpoint_new_def)

text \<open>
  cooldowns scale exactly as configured: after \<open>k\<close> consecutive failures of an endpoint (with
  \<open>k\<close> at least \<open>fail_after\<close>), it stays benched until \<open>k\<close> times the configured unit after the last
  failure, with no cap and no floor, and below \<open>fail_after\<close> failures its cooldown is untouched.
\<close>
theorem cooldown_scales_with_failures:
  assumes "List.find (is_entry h p) (es_entries s) = Some e0" "ee_consecutive_failures e0 = 0"
    "ts \<noteq> []" "length ts < 2 ^ 32" "length ts * es_cooldown_secs_per_failure s < 2 ^ 64"
  shows "\<exists>e. List.find (is_entry h p) (es_entries (fail_at h p s ts)) = Some e
          \<and> (if es_fail_after s \<le> length ts
             then \<forall>now. eligible now e \<longleftrightarrow>
                    last ts + from_secs (length ts * es_cooldown_secs_per_failure s) \<le> now
             else ee_cooldown_until e = ee_cooldown_until e0)"
  using fail_at_entry [OF assms(1,2), of ts] assms(3-5)
  by (auto simp: eligible_def u32_max_def u64_max_def)

theorem cooldown_scales_with_failures_witness:
  "\<exists>e. List.find (is_entry ''a'' 22)
         (es_entries (fail_at ''a'' 22 (selector_new FM_Priority [endpoint_new ''a'' 22]) [3, 9])) = Some e
     \<and> \<not> eligible (8 + from_secs 10) e \<and> eligible (9 + from_secs 10) e"
  using cooldown_scales_with_failures
    [of "''a''" 22 "selector_new FM_Priority [endpoint_new ''a'' 22]"
      "\<lparr>ee_ep = endpoint_new ''a'' 22, ee_cooldown_until = None, ee_consecutive_failures = 0\<rparr>" "[3, 9]"]
  by (auto simp: selector_new_def is_entry_def endpoint_new_def)

text \<open>
  The selector and an attached policy never drift apart: through every sequence of picks,
  successes, failures and overrides the policy works on the same endpoint list and holds the same
  pin, and a policy pick always resolves to a configured endpoint.
\<close>
theorem policy_lockstep:
  assumes "valid_draw draw"
  shows "policy_in_step (fo_run (set_policy_selector (make_selector eps cfg) (selector_new mode eps)) ops)
         \<and> fst (pick_via_policy draw now
              (fo_run (set_policy_selector (make_selector eps cfg) (selector_new mode eps)) ops))
           \<noteq> Some (Inl SE_Empty)"
  using policy_in_step_run [OF policy_in_step_new] policy_pick_resolves [OF _ assms] by blast

theorem policy_lockstep_witness:
  "policy_in_step (fo_run (set_policy_selector
      (make_selector [endpoint_new ''a'' 22] (default_round_robin_config\<lparr>rrc_enabled := True\<rparr>))
      (selector_new FM_Priority [endpoint_new ''a'' 22]))
      [FO_Manual (Some \<lparr>mo_host = ''a'', mo_port = 22\<rparr>), FO_Pick (\<lambda>_. 0) 3, FO_Success ''a'' 22])"
  using policy_lockstep [of "\<lambda>_. 0" "[endpoint_new ''a'' 22]"
      "default_round_robin_config\<lparr>rrc_enabled := True\<rparr>" FM_Priority
      "[FO_Manual (Some \<lparr>mo_host = ''a'', mo_port = 22\<rparr>), FO_Pick (\<lambda>_. 0) 3, FO_Success ''a'' 22]"]
  by (simp add: valid_draw_def)

text \<open>
  an operator's pin has one-cycle semantics: until the pinned endpoint connects or the
  override is replaced, no sequence of picks, failures and other successes drops it and every pick
  returns the pinned endpoint whenever that is eligible; a success of the pinned endpoint
  releases it.
\<close>
theorem manual_pin_one_cycle:
  assumes "es_manual s = Some m" "\<forall>x\<in>set ops. keeps_pin m x"
    "List.find (is_entry (mo_host m) (mo_port m)) (es_entries s) = Some e0"
  shows "es_manual (fo_run s ops) = Some m
         \<and> (pin_usable now (fo_run s ops) \<longrightarrow> fst (pick draw now (fo_run s ops)) = Inr (ee_ep e0))
         \<and> es_manual (record_success (mo_host m) (mo_port m) (fo_run s ops)) = None"
proof -
  let ?s = "fo_run s ops"
  have man: "es_manual ?s = Some m" using assms(1,2) by (rule pin_kept_run)
  have "map_option ee_ep (List.find (is_entry (mo_host m) (mo_port m)) (es_entries ?s)) =
        Some (ee_ep e0)"
    using find_entry_endpoints [OF fo_run_endpoints [of s ops]] assms(3) by simp
  then obtain e where e: "List.find (is_entry (mo_host m) (mo_port m)) (es_entries ?s) = Some e"
    "ee_ep e = ee_ep e0" by auto
  then have "es_entries ?s \<noteq> []" by auto
  with man e show ?thesis
    by (simp add: pick_def pin_usable_def record_success_def set_manual_def Let_def)
qed

theorem manual_pin_one_cycle_witness:
  "fst (pick (\<lambda>_. 0) 9 (fo_run
      (set_manual (Some \<lparr>mo_host = ''b'', mo_port = 22\<rparr>)
        (selector_new FM_Priority [endpoint_new ''a'' 22, endpoint_new ''b'' 22]))
      [FO_Success ''a'' 22])) = Inr (endpoint_new ''b'' 22)"
  using manual_pin_one_cycle [of "set_manual (Some \<lparr>mo_host = ''b'', mo_port = 22\<rparr>)
        (selector_new FM_Priority [endpoint_new ''a'' 22, endpoint_new ''b'' 22])"
      "\<lparr>mo_host = ''b'', mo_port = 22\<rparr>" "[FO_Success ''a'' 22]"
      "\<lparr>ee_ep = endpoint_new ''b'' 22, ee_cooldown_until = None, ee_consecutive_failures = 0\<rparr>" 9
      "\<lambda>_. 0"]
  by (simp add: set_manual_def selector_new_def is_entry_def endpoint_new_def pin_usable_def
      eligible_def record_success_def)

end
