(* ===== verification/State_Machine.thy ===== *)
theory State_Machine
  imports Prelude "HOL-Library.Sublist"
begin

text \<open>
  The profile state machine of \<open>crates/spt-supervisor/src/state_machine.rs\<close>: the thirteen
  profile states, the nineteen events and the transition function \<open>step\<close>. Constructors
  carry the prefixes \<open>S\<close> and \<open>E\<close> under which the source imports the two enums.
\<close>

datatype ProfileStateName =
    S_Disabled | S_Idle | S_Resolving | S_Connecting | S_Authenticating
  | S_EstablishingForwards | S_Active | S_Degraded | S_Reconnecting | S_FailingOver
  | S_Unstable | S_Stopping | S_Stopped

datatype ProfileEvent =
    E_Start | E_Disable | E_Stop | E_Stopped | E_ResolveOk | E_ResolveFail | E_ConnectOk
  | E_ConnectFail | E_AuthOk | E_AuthFail | E_ForwardsUp | E_ForwardUp | E_ForwardDown
  | E_SessionLost | E_InstabilityHit | E_InstabilityClear | E_FailoverPick
  | E_EndpointReady | E_RetryNow

fun is_terminal :: "ProfileStateName \<Rightarrow> bool" where
  "is_terminal S_Stopped = True"
| "is_terminal S_Disabled = True"
| "is_terminal _ = False"

fun display_state :: "ProfileStateName \<Rightarrow> string" where
  "display_state S_Disabled = ''disabled''"
| "display_state S_Idle = ''idle''"
| "display_state S_Resolving = ''resolving''"
| "display_state S_Connecting = ''connecting''"
| "display_state S_Authenticating = ''authenticating''"
| "display_state S_EstablishingForwards = ''establishing_forwards''"
| "display_state S_Active = ''active''"
| "display_state S_Degraded = ''degraded''"
| "display_state S_Reconnecting = ''reconnecting''"
| "display_state S_FailingOver = ''failing_over''"
| "display_state S_Unstable = ''unstable''"
| "display_state S_Stopping = ''stopping''"
| "display_state S_Stopped = ''stopped''"

record ProfileStateMachine =
  sm_state :: ProfileStateName

definition sm_new :: ProfileStateMachine where
  "sm_new = \<lparr>sm_state = S_Idle\<rparr>"

definition sm_disabled :: ProfileStateMachine where
  "sm_disabled = \<lparr>sm_state = S_Disabled\<rparr>"

text \<open>The \<open>match (self.state, event)\<close> of \<open>step\<close>, grouped by event; the arms of one
  event are pairwise disjoint in the state, and every pair without an arm is \<open>None\<close>.\<close>

fun next_state :: "ProfileStateName \<Rightarrow> ProfileEvent \<Rightarrow> ProfileStateName option" where
  "next_state s E_Disable = (if \<not> is_terminal s then Some S_Disabled else None)"
| "next_state s E_Stop =
     (if s \<notin> {S_Stopping, S_Stopped, S_Disabled} then Some S_Stopping else None)"
| "next_state s E_Stopped = (if s = S_Stopping then Some S_Stopped else None)"
| "next_state s E_Start = (if s = S_Idle then Some S_Resolving else None)"
| "next_state s E_ResolveOk = (if s = S_Resolving then Some S_Connecting else None)"
| "next_state s E_ResolveFail = (if s = S_Resolving then Some S_Reconnecting else None)"
| "next_state s E_ConnectOk = (if s = S_Connecting then Some S_Authenticating else None)"
| "next_state s E_ConnectFail = (if s = S_Connecting then Some S_Reconnecting else None)"
| "next_state s E_AuthOk =
     (if s = S_Authenticating then Some S_EstablishingForwards else None)"
| "next_state s E_AuthFail = (if s = S_Authenticating then Some S_Reconnecting else None)"
| "next_state s E_ForwardsUp =
     (if s \<in> {S_EstablishingForwards, S_Degraded, S_Unstable} then Some S_Active else None)"
| "next_state s E_ForwardDown =
     (if s \<in> {S_EstablishingForwards, S_Active, S_Unstable} then Some S_Degraded else None)"
| "next_state s E_ForwardUp =
     (if s \<in> {S_Degraded, S_Unstable} then Some S_Active else None)"
| "next_state s E_SessionLost =
     (if s \<in> {S_Active, S_Degraded, S_EstablishingForwards, S_Unstable}
      then Some S_Reconnecting else None)"
| "next_state s E_InstabilityHit =
     (if s \<in> {S_Active, S_Degraded, S_EstablishingForwards} then Some S_Unstable else None)"
| "next_state s E_InstabilityClear = (if s = S_Unstable then Some S_Active else None)"
| "next_state s E_FailoverPick =
     (if s \<in> {S_Reconnecting, S_FailingOver} then Some S_FailingOver else None)"
| "next_state s E_EndpointReady =
     (if s \<in> {S_Reconnecting, S_FailingOver} then Some S_Resolving else None)"
| "next_state s E_RetryNow = (if s = S_Reconnecting then Some S_Resolving else None)"

text \<open>\<open>step\<close> stores the new state and returns it, or returns the unchanged state as the
  error.\<close>

definition sm_step ::
  "ProfileStateMachine \<Rightarrow> ProfileEvent
   \<Rightarrow> (ProfileStateName, ProfileStateName) result \<times> ProfileStateMachine" where
  "sm_step m e =
     (case next_state (sm_state m) e of
        Some s \<Rightarrow> (Inr s, m\<lparr>sm_state := s\<rparr>)
      | None \<Rightarrow> (Inl (sm_state m), m))"

fun sm_run :: "ProfileStateMachine \<Rightarrow> ProfileEvent list \<Rightarrow> ProfileStateMachine" where
  "sm_run m [] = m"
| "sm_run m (e # es) = sm_run (snd (sm_step m e)) es"

text \<open>The transition table of the module documentation, column by column.\<close>

fun doc_table :: "ProfileStateName \<Rightarrow> ProfileEvent \<Rightarrow> ProfileStateName option" where
  "doc_table s E_Start = (if s = S_Idle then Some S_Resolving else None)"
| "doc_table s E_ResolveOk = (if s = S_Resolving then Some S_Connecting else None)"
| "doc_table s E_ResolveFail = (if s = S_Resolving then Some S_Reconnecting else None)"
| "doc_table s E_ConnectOk = (if s = S_Connecting then Some S_Authenticating else None)"
| "doc_table s E_ConnectFail = (if s = S_Connecting then Some S_Reconnecting else None)"
| "doc_table s E_AuthOk =
     (if s = S_Authenticating then Some S_EstablishingForwards else None)"
| "doc_table s E_AuthFail = (if s = S_Authenticating then Some S_Reconnecting else None)"
| "doc_table s E_ForwardsUp = (if s = S_EstablishingForwards then Some S_Active else None)"
| "doc_table s E_ForwardDown =
     (if s \<in> {S_Active, S_Degraded, S_Unstable} then Some S_Degraded else None)"
| "doc_table s E_ForwardUp = (if s \<in> {S_Degraded, S_Unstable} then Some S_Active else None)"
| "doc_table s E_SessionLost =
     (if s \<in> {S_EstablishingForwards, S_Active, S_Degraded, S_Unstable}
      then Some S_Reconnecting else None)"
| "doc_table s E_InstabilityHit =
     (if s \<in> {S_EstablishingForwards, S_Active, S_Degraded} then Some S_Unstable else None)"
| "doc_table s E_InstabilityClear = (if s = S_Unstable then Some S_Active else None)"
| "doc_table s E_FailoverPick =
     (if s \<in> {S_Reconnecting, S_FailingOver} then Some S_FailingOver else None)"
| "doc_table s E_EndpointReady =
     (if s \<in> {S_Reconnecting, S_FailingOver} then Some S_Resolving else None)"
| "doc_table s E_RetryNow = (if s = S_Reconnecting then Some S_Resolving else None)"
| "doc_table s E_Stop =
     (if s \<notin> {S_Stopping, S_Stopped, S_Disabled} then Some S_Stopping else None)"
| "doc_table s E_Stopped = (if s = S_Stopping then Some S_Stopped else None)"
| "doc_table s E_Disable =
     (if s \<notin> {S_Stopping, S_Stopped, S_Disabled} then Some S_Disabled else None)"

section \<open>Transition lemmas\<close>

abbreviation session_up :: "ProfileStateName \<Rightarrow> bool" where
  "session_up s \<equiv> s \<in> {S_EstablishingForwards, S_Active, S_Degraded, S_Unstable}"

lemma sm_step_state [simp]:
  "sm_state (snd (sm_step m e)) =
     (case next_state (sm_state m) e of Some s \<Rightarrow> s | None \<Rightarrow> sm_state m)"
  by (simp add: sm_step_def split: option.splits)

lemma sm_run_append [simp]: "sm_run m (xs @ ys) = sm_run (sm_run m xs) ys"
  by (induction xs arbitrary: m) auto

lemma next_state_terminal: "is_terminal s \<Longrightarrow> next_state s e = None"
  by (cases e; cases s) auto

text \<open>The stage a state presupposes: the prefix of the connect sequence whose events must
  have been accepted before the state can be entered.\<close>

fun connect_prefix :: "ProfileStateName \<Rightarrow> ProfileEvent list" where
  "connect_prefix S_Idle = []"
| "connect_prefix S_Disabled = []"
| "connect_prefix S_Stopping = []"
| "connect_prefix S_Stopped = []"
| "connect_prefix S_Resolving = [E_Start]"
| "connect_prefix S_Reconnecting = [E_Start]"
| "connect_prefix S_FailingOver = [E_Start]"
| "connect_prefix S_Connecting = [E_Start, E_ResolveOk]"
| "connect_prefix S_Authenticating = [E_Start, E_ResolveOk, E_ConnectOk]"
| "connect_prefix _ = [E_Start, E_ResolveOk, E_ConnectOk, E_AuthOk]"

lemma connect_prefix_step:
  assumes "next_state s e = Some s'"
  shows "subseq (connect_prefix s') (connect_prefix s @ [e])"
  using assms by (cases e; cases s) (auto split: if_splits)

lemma connect_prefix_run:
  assumes "subseq (connect_prefix (sm_state m)) hist"
  shows "subseq (connect_prefix (sm_state (sm_run m es))) (hist @ es)"
  using assms
proof (induction es arbitrary: m hist)
  case Nil
  then show ?case by simp
next
  case (Cons e es)
  have "subseq (connect_prefix (sm_state (snd (sm_step m e)))) (hist @ [e])"
  proof (cases "next_state (sm_state m) e")
    case None
    with Cons.prems show ?thesis by (simp add: subseq_rev_drop_many)
  next
    case (Some s)
    have "subseq (connect_prefix (sm_state m) @ [e]) (hist @ [e])"
      using Cons.prems by simp
    with Some connect_prefix_step [OF Some] show ?thesis
      by (auto intro: subseq_order.order_trans)
  qed
  from Cons.IH [OF this] show ?case by simp
qed

section \<open>Properties\<close>

text \<open>A terminal state (\<open>Stopped\<close>, \<open>Disabled\<close>) is final: no sequence of events moves
  the machine out of it.\<close>

theorem terminal_absorbing:
  assumes "is_terminal (sm_state m)"
  shows "sm_run m es = m"
  using assms
proof (induction es)
  case Nil
  then show ?case by simp
next
  case (Cons e es)
  then have "snd (sm_step m e) = m" by (simp add: sm_step_def next_state_terminal)
  with Cons show ?case by simp
qed

theorem terminal_absorbing_witness:
  "sm_run \<lparr>sm_state = S_Stopped\<rparr> [E_Start, E_RetryNow, E_Disable] = \<lparr>sm_state = S_Stopped\<rparr>"
  using terminal_absorbing [of "\<lparr>sm_state = S_Stopped\<rparr>" "[E_Start, E_RetryNow, E_Disable]"] by simp

text \<open>Whatever state a profile is in, unless it is already terminal, the event pair
  \<open>Stop\<close>, \<open>Stopped\<close> that ends every exit path of the supervisor takes it to
  \<open>Stopped\<close>.\<close>

theorem stop_reaches_stopped:
  assumes "\<not> is_terminal (sm_state m)"
  shows "sm_state (sm_run m [E_Stop, E_Stopped]) = S_Stopped"
  using assms by (cases "sm_state m") auto

theorem stop_reaches_stopped_witness:
  "sm_state (sm_run \<lparr>sm_state = S_Degraded\<rparr> [E_Stop, E_Stopped]) = S_Stopped"
  using stop_reaches_stopped [of "\<lparr>sm_state = S_Degraded\<rparr>"] by simp

text \<open>No shortcut to a live session: from a state without a transport, every event
  sequence that ends in a session-up state contains a completed resolution, a completed
  connect and a completed authentication, in that order.\<close>

theorem session_up_needs_handshake:
  assumes "sm_state m \<in> {S_Idle, S_Resolving, S_Reconnecting, S_FailingOver}"
    and "session_up (sm_state (sm_run m es))"
  shows "subseq [E_ResolveOk, E_ConnectOk, E_AuthOk] es"
proof -
  have "subseq (connect_prefix (sm_state m)) [E_Start]" using assms(1) by auto
  from connect_prefix_run [OF this]
  have "subseq (connect_prefix (sm_state (sm_run m es))) (E_Start # es)" by simp
  with assms(2) show ?thesis by auto
qed

theorem session_up_needs_handshake_witness:
  "subseq [E_ResolveOk, E_ConnectOk, E_AuthOk] [E_Start, E_ResolveOk, E_ConnectOk, E_AuthOk, E_ForwardsUp]"
  using session_up_needs_handshake
    [of sm_new "[E_Start, E_ResolveOk, E_ConnectOk, E_AuthOk, E_ForwardsUp]"]
  by (simp add: sm_new_def)

text \<open>The transition function agrees with the transition table of the module
  documentation on every state and event except five pairs: \<open>ForwardsUp\<close> is also accepted in
  \<open>Degraded\<close> and \<open>Unstable\<close>, \<open>ForwardDown\<close> is accepted in \<open>EstablishingForwards\<close> and
  rejected in \<open>Degraded\<close>, and \<open>Disable\<close> is accepted in \<open>Stopping\<close>.\<close>

theorem next_state_vs_documentation:
  "next_state s e = doc_table s e \<longleftrightarrow>
     (s, e) \<notin> {(S_Degraded, E_ForwardsUp), (S_Unstable, E_ForwardsUp),
               (S_EstablishingForwards, E_ForwardDown), (S_Degraded, E_ForwardDown),
               (S_Stopping, E_Disable)}"
  by (cases e; cases s) simp_all

end
