(* ===== verification/Session_Registry.thy ===== *)
theory Session_Registry
  imports State_Machine Std_Text
begin

text \<open>
  The process-wide table of live sessions, \<open>crates/spt-supervisor/src/session.rs\<close>.  Session
  identifiers (UUIDs) and UTC timestamps are natural numbers; the concurrent hash map is a map.
\<close>

type_synonym SessionId = nat

record SessionRow =
  row_id :: SessionId
  row_profile :: string
  row_protocol :: string
  row_endpoint :: string
  row_since :: nat
  row_state :: string
  row_bytes_in :: nat
  row_bytes_out :: nat
  row_conns_open :: nat

type_synonym SessionRegistry = "SessionId \<rightharpoonup> SessionRow"

definition registry_insert :: "SessionRow \<Rightarrow> SessionRegistry \<Rightarrow> SessionRegistry" where
  "registry_insert row reg = reg(row_id row \<mapsto> row)"

definition registry_remove :: "SessionId \<Rightarrow> SessionRegistry \<Rightarrow> SessionRow option \<times> SessionRegistry" where
  "registry_remove sid reg = (reg sid, reg(sid := None))"

definition registry_get :: "SessionId \<Rightarrow> SessionRegistry \<Rightarrow> SessionRow option" where
  "registry_get sid reg = reg sid"

definition registry_update ::
  "SessionId \<Rightarrow> (SessionRow \<Rightarrow> SessionRow) \<Rightarrow> SessionRegistry \<Rightarrow> SessionRegistry" where
  "registry_update sid f reg = reg(sid := map_option f (reg sid))"

definition registry_add_bytes :: "SessionId \<Rightarrow> nat \<Rightarrow> nat \<Rightarrow> SessionRegistry \<Rightarrow> SessionRegistry" where
  "registry_add_bytes sid b_in b_out reg =
     registry_update sid
       (\<lambda>row. row\<lparr>row_bytes_in := sat_add u64_max (row_bytes_in row) b_in,
                 row_bytes_out := sat_add u64_max (row_bytes_out row) b_out\<rparr>) reg"

definition by_profile :: "string \<Rightarrow> SessionRegistry \<Rightarrow> SessionId set" where
  "by_profile profile reg = {sid. \<exists>row. reg sid = Some row \<and> row_profile row = profile}"

section \<open>Lemmas\<close>

lemma by_profile_insert:
  "by_profile p (registry_insert row reg) =
     (if row_profile row = p then insert (row_id row) (by_profile p reg)
      else by_profile p reg - {row_id row})"
  by (auto simp: by_profile_def registry_insert_def)

lemma by_profile_remove: "by_profile p (snd (registry_remove sid reg)) = by_profile p reg - {sid}"
  by (auto simp: by_profile_def registry_remove_def)

end
