(* ===== verification/Forward_Config.thy ===== *)
theory Forward_Config
  imports Main
begin

text \<open>
  A configured forward, \<open>Forward\<close> of \<open>crates/spt-config/src/schema.rs\<close>.
\<close>

datatype UdpMode = UM_TcpFramed | UM_UdsBridge

record Forward =
  fw_name :: string
  fw_kind :: string
  fw_transport :: string
  fw_bind :: "string option"
  fw_bind_mode :: "string option"
  fw_bind_interface :: "string option"
  fw_bind_interface_preference :: "string list option"
  fw_bind_ipv6 :: "string option"
  fw_expose :: "bool option"
  fw_target :: "string option"
  fw_listen :: "string option"
  fw_connect :: "string option"
  fw_dns_names :: "string list option"
  fw_sni_name :: "string option"
  fw_target_resolve :: "string option"
  fw_required :: "bool option"
  fw_idle_timeout :: "string option"
  fw_max_connections :: "nat option"
  fw_proxy_protocols :: "string list option"
  fw_allow_targets :: "string list option"
  fw_deny_targets :: "string list option"
  fw_on_bind_conflict :: "string option"
  fw_max_bytes_per_second_in :: "string option"
  fw_max_bytes_per_second_out :: "string option"
  fw_max_new_connections_per_second :: "nat option"
  fw_max_burst_bytes_in :: "string option"
  fw_max_burst_bytes_out :: "string option"
  fw_udp_idle_timeout :: "string option"
  fw_max_datagram_size :: "nat option"
  fw_max_packets_per_second :: "nat option"
  fw_udp_mode :: "UdpMode option"
  fw_link_kind :: "string option"
  fw_remote_socket_path :: "string option"
  fw_local_socket_path :: "string option"

definition default_forward :: Forward where
  "default_forward =
     \<lparr>fw_name = [], fw_kind = [], fw_transport = [], fw_bind = None, fw_bind_mode = None,
      fw_bind_interface = None, fw_bind_interface_preference = None, fw_bind_ipv6 = None,
      fw_expose = None, fw_target = None, fw_listen = None, fw_connect = None,
      fw_dns_names = None, fw_sni_name = None, fw_target_resolve = None, fw_required = None,
      fw_idle_timeout = None, fw_max_connections = None, fw_proxy_protocols = None,
      fw_allow_targets = None, fw_deny_targets = None, fw_on_bind_conflict = None,
      fw_max_bytes_per_second_in = None, fw_max_bytes_per_second_out = None,
      fw_max_new_connections_per_second = None, fw_max_burst_bytes_in = None,
      fw_max_burst_bytes_out = None, fw_udp_idle_timeout = None, fw_max_datagram_size = None,
      fw_max_packets_per_second = None, fw_udp_mode = None, fw_link_kind = None,
      fw_remote_socket_path = None, fw_local_socket_path = None\<rparr>"

end
