(* ===== verification/Profile_Task.thy ===== *)
theory Profile_Task
  imports Backoff Instability Failover Session_Registry Forward_Config
begin

text \<open>
  The per-profile supervisor task, \<open>crates/spt-supervisor/src/profile.rs\<close> with the control
  messages of \<open>control.rs\<close>.  The asynchronous \<open>run\<close> loop is a transition function: a program
  counter names the await point the task is parked at (the loop head, the connect, the opening
  of the forwards, the active select, the backoff sleep), and an input is what resolves that
  await: a control message, the result of a backend call, a probe outcome, a timer.  Clock
  readings and random draws come with the input.  Everything between two await points is one
  step and is composed of the same helper functions as in the source.

  The log records, in order, what the task does to the outside: connect attempts, established
  and closed sessions, stopped runners, replies, and calls of the observers.  Human-readable
  messages and tracing output are left out.  Credentials are opaque (\<open>'a\<close>), as they are to the
  supervisor.
\<close>

section \<open>Data\<close>

datatype Control =
    C_Shutdown | C_Failover "string option" | C_CloseSession | C_Drain duration | C_OpenBenchForward

record DrainReport =
  dr_drained :: nat
  dr_force_closed :: nat
  dr_already_closed :: nat

definition default_drain_report :: DrainReport where
  "default_drain_report = \<lparr>dr_drained = 0, dr_force_closed = 0, dr_already_closed = 0\<rparr>"

datatype LifecycleEvent =
    PE_StateChanged string ProfileStateName ProfileStateName
  | PE_ReconnectScheduled string duration nat
  | PE_BackoffExhausted string
  | PE_InstabilityHit string
  | PE_InstabilityCleared string
  | PE_FailoverRequested string "string option"

datatype HealthCheckStyle = HC_TcpConnect | HC_SshHandshake | HC_SshAuthPreflight | HC_Ssh3Endpoint

record ProfileSupervisorConfig =
  psc_backoff :: BackoffConfig
  psc_failover_mode :: FailoverMode
  psc_failover_fail_after :: nat
  psc_failover_cooldown :: duration
  psc_health_check :: HealthCheckStyle
  psc_instability :: InstabilityWindow
  psc_keepalive_interval :: duration
  psc_keepalive_timeout :: duration

definition default_supervisor_config :: ProfileSupervisorConfig where
  "default_supervisor_config =
     \<lparr>psc_backoff = default_backoff_config, psc_failover_mode = FM_Priority,
      psc_failover_fail_after = 1, psc_failover_cooldown = from_secs 5,
      psc_health_check = HC_SshHandshake, psc_instability = default_instability_window,
      psc_keepalive_interval = from_secs 30, psc_keepalive_timeout = from_secs 10\<rparr>"

datatype Severity = Sev_Info | Sev_Warn | Sev_Error

datatype FieldValue = FV_Num nat | FV_Str string

datatype 'a Effect =
    Eff_Lifecycle string Severity "(string \<times> FieldValue) list"
  | Eff_StateChange ProfileStateName ProfileStateName "string option"
  | Eff_SetProfileState ProfileStateName
  | Eff_IncReconnect
  | Eff_Connect Endpoint 'a
  | Eff_SessionUp Endpoint
  | Eff_StopRunners "string list"
  | Eff_CloseSession
  | Eff_ReplyUnit "(spt_error, unit) result"
  | Eff_ReplyDrain DrainReport
  | Eff_ReplyBench "(spt_error, SocketAddr) result"

definition PROFILE_EVENTS_CHANNEL_CAP :: nat where
  "PROFILE_EVENTS_CHANNEL_CAP = 256"

definition FORWARD_REOPEN_BACKOFF :: duration where
  "FORWARD_REOPEN_BACKOFF = from_millis 500"

definition INSTABILITY_ACTION_MIN_INTERVAL :: duration where
  "INSTABILITY_ACTION_MIN_INTERVAL = from_secs 10"

record 'a ProfileTask =
  pt_name :: string
  pt_auth :: 'a
  pt_auth_by_endpoint :: "string \<times> nat \<rightharpoonup> 'a"
  pt_forwards :: "Forward list"
  pt_cfg :: ProfileSupervisorConfig
  pt_state_tx :: ProfileStateName
  pt_events :: "LifecycleEvent list"
  pt_events_open :: bool
  pt_sm :: ProfileStateMachine
  pt_backoff :: Backoff
  pt_instability :: InstabilityDetector
  pt_selector :: EndpointSelector
  pt_registry :: SessionRegistry
  pt_current_session :: "SessionId option"
  pt_session_up_since :: "instant option"
  pt_current_endpoint :: "Endpoint option"
  pt_last_instability_action :: "instant option"
  pt_log :: "'a Effect list"

record ForwardSlot =
  slot_runner :: bool
  slot_state :: ForwardState
  slot_name :: string
  slot_cfg :: "Forward option"

definition slot_healthy :: "ForwardSlot \<Rightarrow> bool" where
  "slot_healthy s \<longleftrightarrow> slot_runner s \<and> slot_state s \<notin> {F_Failed, F_Stopped, F_Disabled}"

datatype InstabilityOutcome = IO_Handled | IO_FailoverRotate | IO_RestartSession

section \<open>Observers and the state machine\<close>

definition emit :: "'a Effect \<Rightarrow> 'a ProfileTask \<Rightarrow> 'a ProfileTask" where
  "emit e t = t\<lparr>pt_log := pt_log t @ [e]\<rparr>"

definition emit_event :: "LifecycleEvent \<Rightarrow> 'a ProfileTask \<Rightarrow> 'a ProfileTask" where
  "emit_event e t =
     (if pt_events_open t \<and> length (pt_events t) < PROFILE_EVENTS_CHANNEL_CAP
      then t\<lparr>pt_events := pt_events t @ [e]\<rparr> else t)"

definition current_key :: "'a ProfileTask \<Rightarrow> string option" where
  "current_key t = map_option endpoint_id (pt_current_endpoint t)"

definition fire :: "ProfileEvent \<Rightarrow> 'a ProfileTask \<Rightarrow> 'a ProfileTask" where
  "fire ev t =
     (let prev = sm_state (pt_sm t) in
      case sm_step (pt_sm t) ev of
        (Inl _, sm) \<Rightarrow> t\<lparr>pt_sm := sm\<rparr>
      | (Inr new, sm) \<Rightarrow>
          if new = prev then t\<lparr>pt_sm := sm\<rparr>
          else emit (Eff_SetProfileState new)
                (emit (Eff_StateChange prev new (current_key t))
                  (emit_event (PE_StateChanged (pt_name t) prev new)
                    (t\<lparr>pt_sm := sm, pt_state_tx := new\<rparr>))))"

definition opt_field :: "string \<Rightarrow> string option \<Rightarrow> (string \<times> FieldValue) list" where
  "opt_field k v = (case v of None \<Rightarrow> [] | Some s \<Rightarrow> [(k, FV_Str s)])"

definition emit_failover :: "string option \<Rightarrow> 'a ProfileTask \<Rightarrow> 'a ProfileTask" where
  "emit_failover override_to t =
     emit (Eff_Lifecycle ''profile.failover_requested'' Sev_Warn
             (opt_field ''override_to'' override_to @ opt_field ''endpoint'' (current_key t))) t"

definition failover_requested :: "string option \<Rightarrow> 'a ProfileTask \<Rightarrow> 'a ProfileTask" where
  "failover_requested override_to t =
     emit_event (PE_FailoverRequested (pt_name t) override_to) (emit_failover override_to t)"

definition enter_resolving :: "'a ProfileTask \<Rightarrow> 'a ProfileTask" where
  "enter_resolving t =
     (case sm_state (pt_sm t) of
        S_Reconnecting \<Rightarrow> fire E_RetryNow t
      | S_FailingOver \<Rightarrow> fire E_EndpointReady t
      | _ \<Rightarrow> t)"

section \<open>Control messages\<close>

definition parse_endpoint_key :: "string \<Rightarrow> (spt_error, string \<times> nat) result" where
  "parse_endpoint_key s =
     (case rsplit_once CHR '':'' s of
        None \<Rightarrow> Inl (Err_InvalidArgs (''endpoint key `'' @ s @ ''` missing `:port`''))
      | Some (host, port) \<Rightarrow>
          (case parse_uint u16_max port of
             None \<Rightarrow> Inl (Err_InvalidArgs (''endpoint port `'' @ port @ ''`: '' @ parse_uint_error u16_max port))
           | Some p \<Rightarrow> Inr (host, p)))"

definition apply_manual_override ::
  "string option \<Rightarrow> 'a ProfileTask \<Rightarrow> (spt_error, unit) result \<times> 'a ProfileTask" where
  "apply_manual_override override_to t =
     (case override_to of
        Some key \<Rightarrow>
          (case parse_endpoint_key key of
             Inl e \<Rightarrow> (Inl e, t)
           | Inr (host, port) \<Rightarrow>
               (Inr (), t\<lparr>pt_selector := set_manual (Some \<lparr>mo_host = host, mo_port = port\<rparr>) (pt_selector t)\<rparr>))
      | None \<Rightarrow> (Inr (), t\<lparr>pt_selector := set_manual None (pt_selector t)\<rparr>))"

definition no_live_session_err :: spt_error where
  "no_live_session_err =
     Err_RuntimeFailureDiagnostic
       ((diagnostic_what ''Cannot open a benchmark forward: no live session'')
         \<lparr>dg_why := Some (''the profile is between sessions (connecting, reconnecting, or idle); a live ''
              @ ''benchmark forward can only be opened while a session is Active''),
          dg_how_to_fix := Some (''Wait until `spt status` shows the profile Active, then re-run the ''
              @ ''benchmark. For a deterministic measurement, run against a synthetic loopback connector ''
              @ ''instead of `--live`.''),
          dg_retry_advice := Some RetryWithBackoff\<rparr>)"

text \<open>\<open>handle_control_idle\<close> returns whether the loop must break.\<close>

definition handle_control_idle :: "Control \<Rightarrow> 'a ProfileTask \<Rightarrow> bool \<times> 'a ProfileTask" where
  "handle_control_idle msg t =
     (case msg of
        C_Shutdown \<Rightarrow> (True, t)
      | C_Failover override_to \<Rightarrow>
          (let (res, t1) = apply_manual_override override_to t
           in (False, emit (Eff_ReplyUnit res) (failover_requested override_to t1)))
      | C_CloseSession \<Rightarrow> (False, emit (Eff_ReplyUnit (Inr ())) t)
      | C_Drain _ \<Rightarrow> (True, emit (Eff_ReplyDrain default_drain_report) t)
      | C_OpenBenchForward \<Rightarrow> (False, emit (Eff_ReplyBench (Inl no_live_session_err)) t))"

fun drain_pending :: "Control list \<Rightarrow> 'a ProfileTask \<Rightarrow> bool \<times> 'a ProfileTask" where
  "drain_pending [] t = (False, t)"
| "drain_pending (m # ms) t =
     (let (brk, t1) = handle_control_idle m t in if brk then (True, t1) else drain_pending ms t1)"

section \<open>Sessions and failures\<close>

definition debug_state :: "ProfileStateName \<Rightarrow> string" where
  "debug_state s =
     (case s of
        S_Disabled \<Rightarrow> ''Disabled'' | S_Idle \<Rightarrow> ''Idle'' | S_Resolving \<Rightarrow> ''Resolving''
      | S_Connecting \<Rightarrow> ''Connecting'' | S_Authenticating \<Rightarrow> ''Authenticating''
      | S_EstablishingForwards \<Rightarrow> ''EstablishingForwards'' | S_Active \<Rightarrow> ''Active''
      | S_Degraded \<Rightarrow> ''Degraded'' | S_Reconnecting \<Rightarrow> ''Reconnecting''
      | S_FailingOver \<Rightarrow> ''FailingOver'' | S_Unstable \<Rightarrow> ''Unstable''
      | S_Stopping \<Rightarrow> ''Stopping'' | S_Stopped \<Rightarrow> ''Stopped'')"

definition publish_session ::
  "SessionId \<Rightarrow> nat \<Rightarrow> string \<Rightarrow> Endpoint \<Rightarrow> 'a ProfileTask \<Rightarrow> 'a ProfileTask" where
  "publish_session sid utc backend ep t =
     t\<lparr>pt_registry := registry_insert
          \<lparr>row_id = sid, row_profile = pt_name t, row_protocol = backend, row_endpoint = endpoint_id ep,
           row_since = utc, row_state = debug_state (sm_state (pt_sm t)), row_bytes_in = 0,
           row_bytes_out = 0, row_conns_open = 0\<rparr> (pt_registry t),
       pt_current_session := Some sid\<rparr>"

definition unpublish_session :: "'a ProfileTask \<Rightarrow> 'a ProfileTask" where
  "unpublish_session t =
     (case pt_current_session t of
        None \<Rightarrow> t
      | Some sid \<Rightarrow>
          t\<lparr>pt_current_session := None, pt_registry := snd (registry_remove sid (pt_registry t))\<rparr>)"

definition pick_endpoint ::
  "(nat \<Rightarrow> nat) \<Rightarrow> instant \<Rightarrow> 'a ProfileTask \<Rightarrow> Endpoint option \<times> 'a ProfileTask" where
  "pick_endpoint draw now t =
     (let (r, sel) = Failover.pick draw now (pt_selector t) in
      (case r of Inr ep \<Rightarrow> Some ep | Inl _ \<Rightarrow> None, t\<lparr>pt_selector := sel\<rparr>))"

definition allow_instability_action :: "instant \<Rightarrow> 'a ProfileTask \<Rightarrow> bool \<times> 'a ProfileTask" where
  "allow_instability_action now t =
     (let allow = (case pt_last_instability_action t of
                     None \<Rightarrow> True
                   | Some t0 \<Rightarrow> INSTABILITY_ACTION_MIN_INTERVAL \<le> now - t0)
      in (allow, if allow then t\<lparr>pt_last_instability_action := Some now\<rparr> else t))"

definition debug_action :: "InstabilityAction \<Rightarrow> string" where
  "debug_action a =
     (case a of
        IA_MarkDegraded \<Rightarrow> ''MarkDegraded'' | IA_Failover \<Rightarrow> ''Failover''
      | IA_IncreaseKeepalive \<Rightarrow> ''IncreaseKeepalive'' | IA_IncreaseBackoff \<Rightarrow> ''IncreaseBackoff''
      | IA_EmitEvent \<Rightarrow> ''EmitEvent'' | IA_RestartSession \<Rightarrow> ''RestartSession'')"

definition announce_trip :: "'a ProfileTask \<Rightarrow> 'a ProfileTask" where
  "announce_trip t =
     emit (Eff_Lifecycle ''profile.instability_hit'' Sev_Warn
             [(''action'', FV_Str (debug_action (iw_action (psc_instability (pt_cfg t)))))])
       (emit_event (PE_InstabilityHit (pt_name t)) t)"

definition on_instability_trip :: "instant \<Rightarrow> 'a ProfileTask \<Rightarrow> InstabilityOutcome \<times> 'a ProfileTask" where
  "on_instability_trip now t =
     (let t1 = announce_trip t in
      case iw_action (psc_instability (pt_cfg t)) of
        IA_EmitEvent \<Rightarrow> (IO_Handled, t1)
      | IA_Failover \<Rightarrow>
          (let (allow, t2) = allow_instability_action now (fire E_InstabilityHit (failover_requested None t1))
           in (if allow then IO_FailoverRotate else IO_Handled, t2))
      | IA_RestartSession \<Rightarrow>
          (let (allow, t2) = allow_instability_action now (fire E_InstabilityHit t1)
           in (if allow then IO_RestartSession else IO_Handled, t2))
      | _ \<Rightarrow> (IO_Handled, fire E_InstabilityHit t1))"

definition handle_session_failure :: "instant \<Rightarrow> Endpoint \<Rightarrow> 'a ProfileTask \<Rightarrow> 'a ProfileTask" where
  "handle_session_failure now ep t =
     (let t1 = t\<lparr>pt_selector := Failover.record_failure (ep_host ep) (ep_port ep) now (pt_selector t)\<rparr>;
          (newly, det) = record_disconnect now (pt_instability t1);
          t2 = t1\<lparr>pt_instability := det\<rparr>
      in if newly then snd (on_instability_trip now t2) else t2)"

definition next_backoff :: "instant \<Rightarrow> (nat \<Rightarrow> nat) \<Rightarrow> 'a ProfileTask \<Rightarrow> duration \<times> 'a ProfileTask" where
  "next_backoff now draw t =
     (let b = (case pt_session_up_since t of
                 Some since \<Rightarrow>
                   if reset_after (psc_backoff (pt_cfg t)) \<le> now - since
                   then backoff_reset (pt_backoff t) else pt_backoff t
               | None \<Rightarrow> pt_backoff t);
          attempt = bo_attempt b + 1;
          (delay, b') = next_delay b draw;
          t1 = t\<lparr>pt_session_up_since := None, pt_backoff := b'\<rparr>
      in (delay,
          emit Eff_IncReconnect
            (emit (Eff_Lifecycle ''profile.reconnect_scheduled'' Sev_Warn
                     ([(''attempt'', FV_Num attempt), (''delay_ms'', FV_Num (as_millis_u64 delay))]
                      @ opt_field ''endpoint'' (current_key t1)))
              (emit_event (PE_ReconnectScheduled (pt_name t1) delay attempt) t1))))"

definition finish :: "'a ProfileTask \<Rightarrow> 'a ProfileTask" where
  "finish t = fire E_Stopped (fire E_Stop (unpublish_session t))"

definition warn_config :: "string \<Rightarrow> 'a ProfileTask \<Rightarrow> 'a ProfileTask" where
  "warn_config kind t = emit (Eff_Lifecycle ''profile.config_warning'' Sev_Warn [(''kind'', FV_Str kind)]) t"

definition warn_unsupported_config :: "'a ProfileTask \<Rightarrow> 'a ProfileTask" where
  "warn_unsupported_config t =
     (let t1 = (if iw_action (psc_instability (pt_cfg t)) \<in> {IA_IncreaseKeepalive, IA_IncreaseBackoff}
                then warn_config ''instability_action'' t else t)
      in if psc_health_check (pt_cfg t) \<noteq> HC_SshHandshake then warn_config ''health_check'' t1 else t1)"

definition is_auth_failure :: "spt_error \<Rightarrow> bool" where
  "is_auth_failure e =
     (case e of Err_AuthFailed _ \<Rightarrow> True | Err_AuthFailedDiagnostic _ \<Rightarrow> True | _ \<Rightarrow> False)"

definition is_terminal_connect_error :: "spt_error \<Rightarrow> bool" where
  "is_terminal_connect_error e =
     (case e of Err_TrustFailed _ \<Rightarrow> True | Err_KeyFailure _ \<Rightarrow> True | _ \<Rightarrow> False)"

section \<open>Teardown\<close>

definition runner_names :: "ForwardSlot list \<Rightarrow> string list" where
  "runner_names slots = map slot_name (filter slot_runner slots)"

definition stop_runners :: "ForwardSlot list \<Rightarrow> 'a ProfileTask \<Rightarrow> 'a ProfileTask" where
  "stop_runners slots t =
     (if runner_names slots = [] then t else emit (Eff_StopRunners (runner_names slots)) t)"

definition close_session :: "'a ProfileTask \<Rightarrow> 'a ProfileTask" where
  "close_session t = emit Eff_CloseSession t"

text \<open>\<open>completed i\<close> says whether the i-th runner stopped within the grace period.\<close>

definition drain_count :: "bool \<Rightarrow> ForwardSlot \<Rightarrow> DrainReport \<Rightarrow> DrainReport" where
  "drain_count done s r =
     (if \<not> done then r\<lparr>dr_force_closed := dr_force_closed r + 1\<rparr>
      else if forward_is_terminal (slot_state s) then r\<lparr>dr_already_closed := dr_already_closed r + 1\<rparr>
      else r\<lparr>dr_drained := dr_drained r + 1\<rparr>)"

definition drain_runners :: "(nat \<Rightarrow> bool) \<Rightarrow> ForwardSlot list \<Rightarrow> DrainReport" where
  "drain_runners completed slots =
     foldl (\<lambda>r (i, s). drain_count (completed i) s r) default_drain_report
       (enumerate 0 (filter slot_runner slots))"

section \<open>Opening and reopening forwards\<close>

text \<open>\<open>start i\<close> is what \<open>ForwardRunner::start\<close> returns for the i-th forward: an error, or a runner in
  the given state.\<close>

fun open_forwards ::
  "(nat \<Rightarrow> (spt_error, ForwardState) result) \<Rightarrow> nat \<Rightarrow> Forward list
     \<Rightarrow> (spt_error, (Forward \<times> ForwardState) list) result" where
  "open_forwards start i [] = Inr []"
| "open_forwards start i (f # fs) =
     (case start i of
        Inr st \<Rightarrow> map_sum (\<lambda>e. e) ((#) (f, st)) (open_forwards start (Suc i) fs)
      | Inl e \<Rightarrow>
          if fw_required f = Some True then Inl e else open_forwards start (Suc i) fs)"

definition make_slot :: "Forward list \<Rightarrow> Forward \<times> ForwardState \<Rightarrow> ForwardSlot" where
  "make_slot fwds r =
     \<lparr>slot_runner = True, slot_state = snd r, slot_name = fw_name (fst r),
      slot_cfg = List.find (\<lambda>f. fw_name f = fw_name (fst r)) fwds\<rparr>"

definition reopen_slot :: "(spt_error, ForwardState) result \<Rightarrow> ForwardSlot \<Rightarrow> ForwardSlot" where
  "reopen_slot r s =
     (if slot_healthy s then s
      else case slot_cfg s of
        None \<Rightarrow> s
      | Some _ \<Rightarrow>
          (case r of
             Inr st \<Rightarrow> s\<lparr>slot_runner := True, slot_state := st\<rparr>
           | Inl _ \<Rightarrow> s\<lparr>slot_runner := False\<rparr>))"

definition reopen_failed_forwards ::
  "(nat \<Rightarrow> (spt_error, ForwardState) result) \<Rightarrow> ForwardSlot list \<Rightarrow> ForwardSlot list" where
  "reopen_failed_forwards start slots = map (\<lambda>(i, s). reopen_slot (start i) s) (enumerate 0 slots)"

definition reopened_runners :: "ForwardSlot list \<Rightarrow> string list" where
  "reopened_runners slots =
     map slot_name (filter (\<lambda>s. \<not> slot_healthy s \<and> slot_cfg s \<noteq> None \<and> slot_runner s) slots)"

section \<open>The run loop\<close>

record ActiveState =
  act_slots :: "ForwardSlot list"
  act_degraded :: bool
  act_reopen_at :: "instant option"

datatype pc =
    PcLoop
  | PcConnecting Endpoint
  | PcOpening Endpoint
  | PcActive ActiveState
  | PcSleeping duration
  | PcDone

datatype input =
    In_Loop "Control list" instant "nat \<Rightarrow> nat" "nat \<Rightarrow> nat"
  | In_Connected SessionId nat string
  | In_ConnectFailed spt_error instant "nat \<Rightarrow> nat"
  | In_ForwardsOpened "nat \<Rightarrow> (spt_error, ForwardState) result" instant "nat \<Rightarrow> nat"
  | In_Control "Control option" "(spt_error, SocketAddr) result" "nat \<Rightarrow> bool"
  | In_Probe "duration option" instant "nat \<Rightarrow> nat"
  | In_RunnerState nat ForwardState
  | In_ForwardChanged nat instant
  | In_ReopenTick "nat \<Rightarrow> (spt_error, ForwardState) result" instant
  | In_SleepElapsed
  | In_EventsTaken nat
  | In_EventsClosed

definition sleep_after :: "duration \<times> 'a ProfileTask \<Rightarrow> 'a ProfileTask \<times> pc" where
  "sleep_after r = (snd r, PcSleeping (fst r))"

definition auth_for :: "'a ProfileTask \<Rightarrow> Endpoint \<Rightarrow> 'a" where
  "auth_for t ep =
     (case pt_auth_by_endpoint t (ep_host ep, ep_port ep) of Some a \<Rightarrow> a | None \<Rightarrow> pt_auth t)"

definition give_up :: "'a ProfileTask \<Rightarrow> 'a ProfileTask" where
  "give_up t =
     emit (Eff_Lifecycle ''profile.backoff_exhausted'' Sev_Error
             [(''attempt'', FV_Num (bo_attempt (pt_backoff t)))])
       (emit_event (PE_BackoffExhausted (pt_name t)) t)"

definition loop_head ::
  "Control list \<Rightarrow> instant \<Rightarrow> (nat \<Rightarrow> nat) \<Rightarrow> (nat \<Rightarrow> nat) \<Rightarrow> 'a ProfileTask \<Rightarrow> 'a ProfileTask \<times> pc" where
  "loop_head msgs now draw jit t =
     (let (brk, t1) = drain_pending msgs t in
      if brk then (finish t1, PcDone)
      else if exhausted (pt_backoff t1) then (finish (give_up t1), PcDone)
      else
        let (choice, t2) = pick_endpoint draw now (enter_resolving t1) in
        case choice of
          None \<Rightarrow> sleep_after (next_backoff now jit (fire E_FailoverPick t2))
        | Some ep \<Rightarrow>
            let t3 = fire E_ResolveOk t2 in
            (emit (Eff_Connect ep (auth_for t3 ep)) t3, PcConnecting ep))"

definition connecting_control :: "Control option \<Rightarrow> 'a ProfileTask \<Rightarrow> 'a ProfileTask \<times> pc" where
  "connecting_control c t =
     (case c of
        None \<Rightarrow> (finish t, PcDone)
      | Some C_Shutdown \<Rightarrow> (finish t, PcDone)
      | Some (C_Failover override_to) \<Rightarrow>
          (let (res, t1) = apply_manual_override override_to t in (emit (Eff_ReplyUnit res) t1, PcLoop))
      | Some C_CloseSession \<Rightarrow> (emit (Eff_ReplyUnit (Inr ())) t, PcLoop)
      | Some C_OpenBenchForward \<Rightarrow> (emit (Eff_ReplyBench (Inl no_live_session_err)) t, PcLoop)
      | Some (C_Drain _) \<Rightarrow> (finish (emit (Eff_ReplyDrain default_drain_report) t), PcDone))"

definition connected ::
  "SessionId \<Rightarrow> nat \<Rightarrow> string \<Rightarrow> Endpoint \<Rightarrow> 'a ProfileTask \<Rightarrow> 'a ProfileTask \<times> pc" where
  "connected sid utc backend ep t =
     (let t1 = emit (Eff_SessionUp ep)
                 (t\<lparr>pt_selector := Failover.record_success (ep_host ep) (ep_port ep) (pt_selector t)\<rparr>);
          t2 = (fire E_AuthOk (fire E_ConnectOk t1))\<lparr>pt_current_endpoint := Some ep\<rparr>
      in (publish_session sid utc backend ep t2, PcOpening ep))"

definition connect_failed ::
  "spt_error \<Rightarrow> instant \<Rightarrow> (nat \<Rightarrow> nat) \<Rightarrow> Endpoint \<Rightarrow> 'a ProfileTask \<Rightarrow> 'a ProfileTask \<times> pc" where
  "connect_failed e now jit ep t =
     (if is_terminal_connect_error e then
        (finish (handle_session_failure now ep
           (emit (Eff_Lifecycle ''profile.connect_failed_terminal'' Sev_Error []) (fire E_ConnectFail t))),
         PcDone)
      else if is_auth_failure e \<and> \<not> retry_auth_failures (psc_backoff (pt_cfg t)) then
        (finish (handle_session_failure now ep
           (emit (Eff_Lifecycle ''profile.auth_failed'' Sev_Error []) (fire E_AuthFail t))),
         PcDone)
      else sleep_after (next_backoff now jit (handle_session_failure now ep (fire E_ConnectFail t))))"

definition forwards_opened ::
  "(nat \<Rightarrow> (spt_error, ForwardState) result) \<Rightarrow> instant \<Rightarrow> (nat \<Rightarrow> nat) \<Rightarrow> Endpoint
     \<Rightarrow> 'a ProfileTask \<Rightarrow> 'a ProfileTask \<times> pc" where
  "forwards_opened start now jit ep t =
     (case open_forwards start 0 (pt_forwards t) of
        Inl e \<Rightarrow>
          sleep_after (next_backoff now jit (handle_session_failure now ep
            (close_session (unpublish_session (fire E_SessionLost t)))))
      | Inr runners \<Rightarrow>
          ((fire E_ForwardsUp t)\<lparr>pt_session_up_since := Some now\<rparr>,
           PcActive \<lparr>act_slots = map (make_slot (pt_forwards t)) runners, act_degraded = False,
                     act_reopen_at = None\<rparr>))"

definition sleep_control :: "Control option \<Rightarrow> 'a ProfileTask \<Rightarrow> 'a ProfileTask \<times> pc" where
  "sleep_control c t =
     (case c of
        None \<Rightarrow> (finish t, PcDone)
      | Some C_Shutdown \<Rightarrow> (finish t, PcDone)
      | Some (C_Failover override_to) \<Rightarrow>
          (let (res, t1) = apply_manual_override override_to t
           in (emit (Eff_ReplyUnit res) (failover_requested override_to t1), PcLoop))
      | Some C_CloseSession \<Rightarrow> (emit (Eff_ReplyUnit (Inr ())) t, PcLoop)
      | Some C_OpenBenchForward \<Rightarrow> (emit (Eff_ReplyBench (Inl no_live_session_err)) t, PcLoop)
      | Some (C_Drain _) \<Rightarrow> (finish (emit (Eff_ReplyDrain default_drain_report) t), PcDone))"

section \<open>The active session\<close>

text \<open>The arms of \<open>match decision\<close>, followed by the \<open>unpublish_session\<close> of the caller.\<close>

definition tear_down :: "ActiveState \<Rightarrow> 'a ProfileTask \<Rightarrow> 'a ProfileTask" where
  "tear_down a t = close_session (stop_runners (act_slots a) t)"

definition exit_active :: "'a ProfileTask \<Rightarrow> 'a ProfileTask \<times> pc" where
  "exit_active t = (finish (unpublish_session t), PcDone)"

definition retry_active :: "duration \<Rightarrow> 'a ProfileTask \<Rightarrow> 'a ProfileTask \<times> pc" where
  "retry_active d t = (unpublish_session t, PcSleeping d)"

definition session_lost ::
  "instant \<Rightarrow> (nat \<Rightarrow> nat) \<Rightarrow> ActiveState \<Rightarrow> 'a ProfileTask \<Rightarrow> 'a ProfileTask \<times> pc" where
  "session_lost now jit a t =
     (let t1 = tear_down a (fire E_SessionLost t);
          t2 = (case pt_current_endpoint t1 of
                  Some ep \<Rightarrow> handle_session_failure now ep t1 | None \<Rightarrow> t1);
          (delay, t3) = next_backoff now jit t2
      in retry_active delay t3)"

definition instability_action :: "bool \<Rightarrow> instant \<Rightarrow> ActiveState \<Rightarrow> 'a ProfileTask \<Rightarrow> 'a ProfileTask \<times> pc" where
  "instability_action cool now a t =
     (let t1 = tear_down a (fire E_SessionLost t);
          t2 = (case pt_current_endpoint t1 of
                  Some ep \<Rightarrow>
                    if cool then t1\<lparr>pt_selector :=
                      Failover.record_failure (ep_host ep) (ep_port ep) now (pt_selector t1)\<rparr> else t1
                | None \<Rightarrow> t1)
      in retry_active 0 t2)"

definition active_control ::
  "Control option \<Rightarrow> (spt_error, SocketAddr) result \<Rightarrow> (nat \<Rightarrow> bool) \<Rightarrow> ActiveState
     \<Rightarrow> 'a ProfileTask \<Rightarrow> 'a ProfileTask \<times> pc" where
  "active_control c bench completed a t =
     (case c of
        None \<Rightarrow> exit_active (tear_down a t)
      | Some C_Shutdown \<Rightarrow> exit_active (tear_down a t)
      | Some (C_Failover override_to) \<Rightarrow>
          (let (res, t1) = apply_manual_override override_to t;
               t2 = emit (Eff_ReplyUnit res) (failover_requested override_to t1)
           in retry_active 0 (tear_down a (fire E_SessionLost t2)))
      | Some C_CloseSession \<Rightarrow>
          retry_active 0 (emit (Eff_ReplyUnit (Inr ())) (tear_down a (fire E_SessionLost t)))
      | Some (C_Drain _) \<Rightarrow>
          exit_active (emit (Eff_ReplyDrain (drain_runners completed (act_slots a))) (close_session t))
      | Some C_OpenBenchForward \<Rightarrow> (emit (Eff_ReplyBench bench) t, PcActive a))"

definition clear_instability :: "instant \<Rightarrow> 'a ProfileTask \<Rightarrow> 'a ProfileTask" where
  "clear_instability now t =
     (let (cleared, det) = tick_healthy now (pt_instability t); t1 = t\<lparr>pt_instability := det\<rparr> in
      if cleared then
        fire E_InstabilityClear
          (emit (Eff_Lifecycle ''profile.instability_cleared'' Sev_Info [])
            (emit_event (PE_InstabilityCleared (pt_name t1)) t1))
      else t1)"

definition probe_ok ::
  "duration \<Rightarrow> instant \<Rightarrow> ActiveState \<Rightarrow> 'a ProfileTask \<Rightarrow> 'a ProfileTask \<times> pc" where
  "probe_ok rtt now a t =
     (let (newly, det) = record_probe (Some rtt) (pt_instability t);
          t1 = t\<lparr>pt_instability := det\<rparr>;
          (outcome, t2) = (if newly then on_instability_trip now t1 else (IO_Handled, t1))
      in case outcome of
           IO_FailoverRotate \<Rightarrow> instability_action True now a t2
         | IO_RestartSession \<Rightarrow> instability_action False now a t2
         | IO_Handled \<Rightarrow> (clear_instability now t2, PcActive a))"

definition probe_failed ::
  "instant \<Rightarrow> (nat \<Rightarrow> nat) \<Rightarrow> ActiveState \<Rightarrow> 'a ProfileTask \<Rightarrow> 'a ProfileTask \<times> pc" where
  "probe_failed now jit a t =
     (let (newly, det) = record_probe None (pt_instability t);
          t1 = t\<lparr>pt_instability := det\<rparr>;
          t2 = (if newly then snd (on_instability_trip now t1) else t1)
      in session_lost now jit a t2)"

definition forward_changed :: "nat \<Rightarrow> instant \<Rightarrow> ActiveState \<Rightarrow> 'a ProfileTask \<Rightarrow> 'a ProfileTask \<times> pc" where
  "forward_changed idx now a t =
     (let s = act_slots a ! idx in
      if slot_state s \<in> {F_Failed, F_Stopped} \<and> slot_cfg s \<noteq> None then
        let t1 = (if act_degraded a then t
                  else emit_event (PE_StateChanged (pt_name t) S_Active S_Degraded) (fire E_ForwardDown t));
            a1 = a\<lparr>act_degraded := True,
                   act_reopen_at := (case act_reopen_at a of
                      None \<Rightarrow> Some (now + FORWARD_REOPEN_BACKOFF) | Some d \<Rightarrow> Some d)\<rparr>
        in (t1, PcActive a1)
      else (t, PcActive a))"

definition reopen_tick ::
  "(nat \<Rightarrow> (spt_error, ForwardState) result) \<Rightarrow> instant \<Rightarrow> ActiveState
     \<Rightarrow> 'a ProfileTask \<Rightarrow> 'a ProfileTask \<times> pc" where
  "reopen_tick start now a t =
     (let t1 = (if reopened_runners (act_slots a) = [] then t
                else emit (Eff_StopRunners (reopened_runners (act_slots a))) t);
          slots = reopen_failed_forwards start (act_slots a);
          all_up = list_all slot_healthy slots;
          a1 = a\<lparr>act_slots := slots, act_reopen_at := None\<rparr>
      in if all_up \<and> act_degraded a then
           (fire E_ForwardsUp t1, PcActive (a1\<lparr>act_degraded := False\<rparr>))
         else if \<not> all_up then
           (t1, PcActive (a1\<lparr>act_reopen_at := Some (now + FORWARD_REOPEN_BACKOFF)\<rparr>))
         else (t1, PcActive a1))"

definition set_runner_state :: "nat \<Rightarrow> ForwardState \<Rightarrow> ActiveState \<Rightarrow> ActiveState" where
  "set_runner_state idx st a =
     a\<lparr>act_slots := (act_slots a)[idx := (act_slots a ! idx)\<lparr>slot_state := st\<rparr>]\<rparr>"

section \<open>Steps\<close>

text \<open>\<open>None\<close>: the input does not resolve the await the task is parked at.\<close>

definition step :: "'a ProfileTask \<times> pc \<Rightarrow> input \<Rightarrow> ('a ProfileTask \<times> pc) option" where
  "step s i =
     (let (t, p) = s in
      case i of
        In_Loop msgs now draw jit \<Rightarrow>
          (case p of PcLoop \<Rightarrow> Some (loop_head msgs now draw jit t) | _ \<Rightarrow> None)
      | In_Connected sid utc backend \<Rightarrow>
          (case p of PcConnecting ep \<Rightarrow> Some (connected sid utc backend ep t) | _ \<Rightarrow> None)
      | In_ConnectFailed e now jit \<Rightarrow>
          (case p of PcConnecting ep \<Rightarrow> Some (connect_failed e now jit ep t) | _ \<Rightarrow> None)
      | In_ForwardsOpened start now jit \<Rightarrow>
          (case p of PcOpening ep \<Rightarrow> Some (forwards_opened start now jit ep t) | _ \<Rightarrow> None)
      | In_Control c bench completed \<Rightarrow>
          (case p of
             PcConnecting ep \<Rightarrow> Some (connecting_control c t)
           | PcActive a \<Rightarrow> Some (active_control c bench completed a t)
           | PcSleeping d \<Rightarrow> Some (sleep_control c t)
           | _ \<Rightarrow> None)
      | In_Probe r now jit \<Rightarrow>
          (case p of
             PcActive a \<Rightarrow>
               Some (case r of Some rtt \<Rightarrow> probe_ok rtt now a t | None \<Rightarrow> probe_failed now jit a t)
           | _ \<Rightarrow> None)
      | In_RunnerState idx st \<Rightarrow>
          (case p of
             PcActive a \<Rightarrow>
               if idx < length (act_slots a) \<and> slot_runner (act_slots a ! idx)
               then Some (t, PcActive (set_runner_state idx st a)) else None
           | _ \<Rightarrow> None)
      | In_ForwardChanged idx now \<Rightarrow>
          (case p of
             PcActive a \<Rightarrow> if idx < length (act_slots a) then Some (forward_changed idx now a t) else None
           | _ \<Rightarrow> None)
      | In_ReopenTick start now \<Rightarrow>
          (case p of
             PcActive a \<Rightarrow>
               (case act_reopen_at a of
                  Some d \<Rightarrow> if d \<le> now then Some (reopen_tick start now a t) else None
                | None \<Rightarrow> None)
           | _ \<Rightarrow> None)
      | In_SleepElapsed \<Rightarrow> (case p of PcSleeping d \<Rightarrow> Some (t, PcLoop) | _ \<Rightarrow> None)
      | In_EventsTaken n \<Rightarrow> Some (t\<lparr>pt_events := drop n (pt_events t)\<rparr>, p)
      | In_EventsClosed \<Rightarrow> Some (t\<lparr>pt_events_open := False\<rparr>, p))"

fun run :: "'a ProfileTask \<times> pc \<Rightarrow> input list \<Rightarrow> ('a ProfileTask \<times> pc) option" where
  "run s [] = Some s"
| "run s (i # is) = (case step s i of None \<Rightarrow> None | Some s' \<Rightarrow> run s' is)"

text \<open>\<open>spawn_with_auth\<close> and the prologue of \<open>run\<close>, up to the first loop head.\<close>

definition spawn_with_auth ::
  "string \<Rightarrow> 'a \<Rightarrow> (string \<times> nat \<rightharpoonup> 'a) \<Rightarrow> Endpoint list \<Rightarrow> Forward list \<Rightarrow> ProfileSupervisorConfig
     \<Rightarrow> SessionRegistry \<Rightarrow> 'a ProfileTask" where
  "spawn_with_auth name auth auths endpoints forwards cfg registry =
     \<lparr>pt_name = name, pt_auth = auth, pt_auth_by_endpoint = auths, pt_forwards = forwards,
      pt_cfg = cfg, pt_state_tx = S_Idle, pt_events = [], pt_events_open = True, pt_sm = sm_new,
      pt_backoff = backoff_new default_backoff_config,
      pt_instability = detector_new default_instability_window,
      pt_selector = with_cooldown (as_secs (psc_failover_cooldown cfg))
        (with_fail_after (psc_failover_fail_after cfg) (selector_new (psc_failover_mode cfg) endpoints)),
      pt_registry = registry, pt_current_session = None, pt_session_up_since = None,
      pt_current_endpoint = None, pt_last_instability_action = None, pt_log = []\<rparr>"

definition run_prologue :: "'a ProfileTask \<Rightarrow> 'a ProfileTask \<times> pc" where
  "run_prologue t =
     (fire E_Start (warn_unsupported_config
        (t\<lparr>pt_backoff := backoff_new (psc_backoff (pt_cfg t)),
           pt_instability := detector_new (psc_instability (pt_cfg t))\<rparr>)), PcLoop)"

end
