(* ===== verification/Profile_Frames.thy ===== *)
theory Profile_Frames
  imports Profile_Task
begin

text \<open>
  What each helper of the profile task leaves alone.  These frame lemmas carry the invariant
  proofs: a helper is described by the fields it may change, and everything else is rewritten
  through it.
\<close>

lemma emit_frame [simp]:
  "pt_name (emit e t) = pt_name t"
  "pt_auth (emit e t) = pt_auth t"
  "pt_auth_by_endpoint (emit e t) = pt_auth_by_endpoint t"
  "pt_forwards (emit e t) = pt_forwards t"
  "pt_cfg (emit e t) = pt_cfg t"
  "pt_state_tx (emit e t) = pt_state_tx t"
  "pt_events (emit e t) = pt_events t"
  "pt_events_open (emit e t) = pt_events_open t"
  "pt_sm (emit e t) = pt_sm t"
  "pt_backoff (emit e t) = pt_backoff t"
  "pt_instability (emit e t) = pt_instability t"
  "pt_selector (emit e t) = pt_selector t"
  "pt_registry (emit e t) = pt_registry t"
  "pt_current_session (emit e t) = pt_current_session t"
  "pt_session_up_since (emit e t) = pt_session_up_since t"
  "pt_current_endpoint (emit e t) = pt_current_endpoint t"
  "pt_last_instability_action (emit e t) = pt_last_instability_action t"
  by (simp_all add: emit_def)

lemma emit_event_frame [simp]:
  "pt_name (emit_event ev t) = pt_name t"
  "pt_auth (emit_event ev t) = pt_auth t"
  "pt_auth_by_endpoint (emit_event ev t) = pt_auth_by_endpoint t"
  "pt_forwards (emit_event ev t) = pt_forwards t"
  "pt_cfg (emit_event ev t) = pt_cfg t"
  "pt_state_tx (emit_event ev t) = pt_state_tx t"
  "pt_events_open (emit_event ev t) = pt_events_open t"
  "pt_sm (emit_event ev t) = pt_sm t"
  "pt_backoff (emit_event ev t) = pt_backoff t"
  "pt_instability (emit_event ev t) = pt_instability t"
  "pt_selector (emit_event ev t) = pt_selector t"
  "pt_registry (emit_event ev t) = pt_registry t"
  "pt_current_session (emit_event ev t) = pt_current_session t"
  "pt_session_up_since (emit_event ev t) = pt_session_up_since t"
  "pt_current_endpoint (emit_event ev t) = pt_current_endpoint t"
  "pt_last_instability_action (emit_event ev t) = pt_last_instability_action t"
  "pt_log (emit_event ev t) = pt_log t"
  by (simp_all add: emit_event_def)

lemma fire_frame [simp]:
  "pt_name (fire ev t) = pt_name t"
  "pt_auth (fire ev t) = pt_auth t"
  "pt_auth_by_endpoint (fire ev t) = pt_auth_by_endpoint t"
  "pt_forwards (fire ev t) = pt_forwards t"
  "pt_cfg (fire ev t) = pt_cfg t"
  "pt_events_open (fire ev t) = pt_events_open t"
  "pt_backoff (fire ev t) = pt_backoff t"
  "pt_instability (fire ev t) = pt_instability t"
  "pt_selector (fire ev t) = pt_selector t"
  "pt_registry (fire ev t) = pt_registry t"
  "pt_current_session (fire ev t) = pt_current_session t"
  "pt_session_up_since (fire ev t) = pt_session_up_since t"
  "pt_current_endpoint (fire ev t) = pt_current_endpoint t"
  "pt_last_instability_action (fire ev t) = pt_last_instability_action t"
  by (simp_all add: fire_def Let_def split: prod.splits sum.splits)

lemma failover_requested_frame [simp]:
  "pt_name (failover_requested ov t) = pt_name t"
  "pt_auth (failover_requested ov t) = pt_auth t"
  "pt_auth_by_endpoint (failover_requested ov t) = pt_auth_by_endpoint t"
  "pt_forwards (failover_requested ov t) = pt_forwards t"
  "pt_cfg (failover_requested ov t) = pt_cfg t"
  "pt_state_tx (failover_requested ov t) = pt_state_tx t"
  "pt_events_open (failover_requested ov t) = pt_events_open t"
  "pt_sm (failover_requested ov t) = pt_sm t"
  "pt_backoff (failover_requested ov t) = pt_backoff t"
  "pt_instability (failover_requested ov t) = pt_instability t"
  "pt_selector (failover_requested ov t) = pt_selector t"
  "pt_registry (failover_requested ov t) = pt_registry t"
  "pt_current_session (failover_requested ov t) = pt_current_session t"
  "pt_session_up_since (failover_requested ov t) = pt_session_up_since t"
  "pt_current_endpoint (failover_requested ov t) = pt_current_endpoint t"
  "pt_last_instability_action (failover_requested ov t) = pt_last_instability_action t"
  by (simp_all add: failover_requested_def emit_failover_def)

lemma enter_resolving_frame [simp]:
  "pt_name (enter_resolving t) = pt_name t"
  "pt_auth (enter_resolving t) = pt_auth t"
  "pt_auth_by_endpoint (enter_resolving t) = pt_auth_by_endpoint t"
  "pt_forwards (enter_resolving t) = pt_forwards t"
  "pt_cfg (enter_resolving t) = pt_cfg t"
  "pt_events_open (enter_resolving t) = pt_events_open t"
  "pt_backoff (enter_resolving t) = pt_backoff t"
  "pt_instability (enter_resolving t) = pt_instability t"
  "pt_selector (enter_resolving t) = pt_selector t"
  "pt_registry (enter_resolving t) = pt_registry t"
  "pt_current_session (enter_resolving t) = pt_current_session t"
  "pt_session_up_since (enter_resolving t) = pt_session_up_since t"
  "pt_current_endpoint (enter_resolving t) = pt_current_endpoint t"
  "pt_last_instability_action (enter_resolving t) = pt_last_instability_action t"
  by (simp_all add: enter_resolving_def split: ProfileStateName.splits)

lemma apply_manual_override_frame [simp]:
  "pt_name (snd (apply_manual_override ov t)) = pt_name t"
  "pt_auth (snd (apply_manual_override ov t)) = pt_auth t"
  "pt_auth_by_endpoint (snd (apply_manual_override ov t)) = pt_auth_by_endpoint t"
  "pt_forwards (snd (apply_manual_override ov t)) = pt_forwards t"
  "pt_cfg (snd (apply_manual_override ov t)) = pt_cfg t"
  "pt_state_tx (snd (apply_manual_override ov t)) = pt_state_tx t"
  "pt_events (snd (apply_manual_override ov t)) = pt_events t"
  "pt_events_open (snd (apply_manual_override ov t)) = pt_events_open t"
  "pt_sm (snd (apply_manual_override ov t)) = pt_sm t"
  "pt_backoff (snd (apply_manual_override ov t)) = pt_backoff t"
  "pt_instability (snd (apply_manual_override ov t)) = pt_instability t"
  "pt_registry (snd (apply_manual_override ov t)) = pt_registry t"
  "pt_current_session (snd (apply_manual_override ov t)) = pt_current_session t"
  "pt_session_up_since (snd (apply_manual_override ov t)) = pt_session_up_since t"
  "pt_current_endpoint (snd (apply_manual_override ov t)) = pt_current_endpoint t"
  "pt_last_instability_action (snd (apply_manual_override ov t)) = pt_last_instability_action t"
  "pt_log (snd (apply_manual_override ov t)) = pt_log t"
  by (simp_all add: apply_manual_override_def split: option.splits sum.splits)

lemma handle_control_idle_frame [simp]:
  "pt_name (snd (handle_control_idle m t)) = pt_name t"
  "pt_auth (snd (handle_control_idle m t)) = pt_auth t"
  "pt_auth_by_endpoint (snd (handle_control_idle m t)) = pt_auth_by_endpoint t"
  "pt_forwards (snd (handle_control_idle m t)) = pt_forwards t"
  "pt_cfg (snd (handle_control_idle m t)) = pt_cfg t"
  "pt_state_tx (snd (handle_control_idle m t)) = pt_state_tx t"
  "pt_events_open (snd (handle_control_idle m t)) = pt_events_open t"
  "pt_sm (snd (handle_control_idle m t)) = pt_sm t"
  "pt_backoff (snd (handle_control_idle m t)) = pt_backoff t"
  "pt_instability (snd (handle_control_idle m t)) = pt_instability t"
  "pt_registry (snd (handle_control_idle m t)) = pt_registry t"
  "pt_current_session (snd (handle_control_idle m t)) = pt_current_session t"
  "pt_session_up_since (snd (handle_control_idle m t)) = pt_session_up_since t"
  "pt_current_endpoint (snd (handle_control_idle m t)) = pt_current_endpoint t"
  "pt_last_instability_action (snd (handle_control_idle m t)) = pt_last_instability_action t"
  by (simp_all add: handle_control_idle_def split_beta Let_def split: Control.splits)

lemma unpublish_session_frame [simp]:
  "pt_name (unpublish_session t) = pt_name t"
  "pt_auth (unpublish_session t) = pt_auth t"
  "pt_auth_by_endpoint (unpublish_session t) = pt_auth_by_endpoint t"
  "pt_forwards (unpublish_session t) = pt_forwards t"
  "pt_cfg (unpublish_session t) = pt_cfg t"
  "pt_state_tx (unpublish_session t) = pt_state_tx t"
  "pt_events (unpublish_session t) = pt_events t"
  "pt_events_open (unpublish_session t) = pt_events_open t"
  "pt_sm (unpublish_session t) = pt_sm t"
  "pt_backoff (unpublish_session t) = pt_backoff t"
  "pt_instability (unpublish_session t) = pt_instability t"
  "pt_selector (unpublish_session t) = pt_selector t"
  "pt_session_up_since (unpublish_session t) = pt_session_up_since t"
  "pt_current_endpoint (unpublish_session t) = pt_current_endpoint t"
  "pt_last_instability_action (unpublish_session t) = pt_last_instability_action t"
  "pt_log (unpublish_session t) = pt_log t"
  by (simp_all add: unpublish_session_def split: option.splits)

lemma pick_endpoint_frame [simp]:
  "pt_name (snd (pick_endpoint draw now t)) = pt_name t"
  "pt_auth (snd (pick_endpoint draw now t)) = pt_auth t"
  "pt_auth_by_endpoint (snd (pick_endpoint draw now t)) = pt_auth_by_endpoint t"
  "pt_forwards (snd (pick_endpoint draw now t)) = pt_forwards t"
  "pt_cfg (snd (pick_endpoint draw now t)) = pt_cfg t"
  "pt_state_tx (snd (pick_endpoint draw now t)) = pt_state_tx t"
  "pt_events (snd (pick_endpoint draw now t)) = pt_events t"
  "pt_events_open (snd (pick_endpoint draw now t)) = pt_events_open t"
  "pt_sm (snd (pick_endpoint draw now t)) = pt_sm t"
  "pt_backoff (snd (pick_endpoint draw now t)) = pt_backoff t"
  "pt_instability (snd (pick_endpoint draw now t)) = pt_instability t"
  "pt_registry (snd (pick_endpoint draw now t)) = pt_registry t"
  "pt_current_session (snd (pick_endpoint draw now t)) = pt_current_session t"
  "pt_session_up_since (snd (pick_endpoint draw now t)) = pt_session_up_since t"
  "pt_current_endpoint (snd (pick_endpoint draw now t)) = pt_current_endpoint t"
  "pt_last_instability_action (snd (pick_endpoint draw now t)) = pt_last_instability_action t"
  "pt_log (snd (pick_endpoint draw now t)) = pt_log t"
  by (simp_all add: pick_endpoint_def split_beta Let_def)

lemma announce_trip_frame [simp]:
  "pt_name (announce_trip t) = pt_name t"
  "pt_auth (announce_trip t) = pt_auth t"
  "pt_auth_by_endpoint (announce_trip t) = pt_auth_by_endpoint t"
  "pt_forwards (announce_trip t) = pt_forwards t"
  "pt_cfg (announce_trip t) = pt_cfg t"
  "pt_state_tx (announce_trip t) = pt_state_tx t"
  "pt_events_open (announce_trip t) = pt_events_open t"
  "pt_sm (announce_trip t) = pt_sm t"
  "pt_backoff (announce_trip t) = pt_backoff t"
  "pt_instability (announce_trip t) = pt_instability t"
  "pt_selector (announce_trip t) = pt_selector t"
  "pt_registry (announce_trip t) = pt_registry t"
  "pt_current_session (announce_trip t) = pt_current_session t"
  "pt_session_up_since (announce_trip t) = pt_session_up_since t"
  "pt_current_endpoint (announce_trip t) = pt_current_endpoint t"
  "pt_last_instability_action (announce_trip t) = pt_last_instability_action t"
  by (simp_all add: announce_trip_def)

lemma allow_instability_action_frame [simp]:
  "pt_name (snd (allow_instability_action now t)) = pt_name t"
  "pt_auth (snd (allow_instability_action now t)) = pt_auth t"
  "pt_auth_by_endpoint (snd (allow_instability_action now t)) = pt_auth_by_endpoint t"
  "pt_forwards (snd (allow_instability_action now t)) = pt_forwards t"
  "pt_cfg (snd (allow_instability_action now t)) = pt_cfg t"
  "pt_state_tx (snd (allow_instability_action now t)) = pt_state_tx t"
  "pt_events (snd (allow_instability_action now t)) = pt_events t"
  "pt_events_open (snd (allow_instability_action now t)) = pt_events_open t"
  "pt_sm (snd (allow_instability_action now t)) = pt_sm t"
  "pt_backoff (snd (allow_instability_action now t)) = pt_backoff t"
  "pt_instability (snd (allow_instability_action now t)) = pt_instability t"
  "pt_selector (snd (allow_instability_action now t)) = pt_selector t"
  "pt_registry (snd (allow_instability_action now t)) = pt_registry t"
  "pt_current_session (snd (allow_instability_action now t)) = pt_current_session t"
  "pt_session_up_since (snd (allow_instability_action now t)) = pt_session_up_since t"
  "pt_current_endpoint (snd (allow_instability_action now t)) = pt_current_endpoint t"
  "pt_log (snd (allow_instability_action now t)) = pt_log t"
  by (simp_all add: allow_instability_action_def Let_def)

lemma on_instability_trip_frame [simp]:
  "pt_name (snd (on_instability_trip now t)) = pt_name t"
  "pt_auth (snd (on_instability_trip now t)) = pt_auth t"
  "pt_auth_by_endpoint (snd (on_instability_trip now t)) = pt_auth_by_endpoint t"
  "pt_forwards (snd (on_instability_trip now t)) = pt_forwards t"
  "pt_cfg (snd (on_instability_trip now t)) = pt_cfg t"
  "pt_events_open (snd (on_instability_trip now t)) = pt_events_open t"
  "pt_backoff (snd (on_instability_trip now t)) = pt_backoff t"
  "pt_instability (snd (on_instability_trip now t)) = pt_instability t"
  "pt_selector (snd (on_instability_trip now t)) = pt_selector t"
  "pt_registry (snd (on_instability_trip now t)) = pt_registry t"
  "pt_current_session (snd (on_instability_trip now t)) = pt_current_session t"
  "pt_session_up_since (snd (on_instability_trip now t)) = pt_session_up_since t"
  "pt_current_endpoint (snd (on_instability_trip now t)) = pt_current_endpoint t"
  by (simp_all add: on_instability_trip_def split_beta Let_def split: InstabilityAction.splits)

lemma handle_session_failure_frame [simp]:
  "pt_name (handle_session_failure now ep t) = pt_name t"
  "pt_auth (handle_session_failure now ep t) = pt_auth t"
  "pt_auth_by_endpoint (handle_session_failure now ep t) = pt_auth_by_endpoint t"
  "pt_forwards (handle_session_failure now ep t) = pt_forwards t"
  "pt_cfg (handle_session_failure now ep t) = pt_cfg t"
  "pt_events_open (handle_session_failure now ep t) = pt_events_open t"
  "pt_backoff (handle_session_failure now ep t) = pt_backoff t"
  "pt_registry (handle_session_failure now ep t) = pt_registry t"
  "pt_current_session (handle_session_failure now ep t) = pt_current_session t"
  "pt_session_up_since (handle_session_failure now ep t) = pt_session_up_since t"
  "pt_current_endpoint (handle_session_failure now ep t) = pt_current_endpoint t"
  by (simp_all add: handle_session_failure_def split_beta Let_def)

lemma next_backoff_frame [simp]:
  "pt_name (snd (next_backoff now jit t)) = pt_name t"
  "pt_auth (snd (next_backoff now jit t)) = pt_auth t"
  "pt_auth_by_endpoint (snd (next_backoff now jit t)) = pt_auth_by_endpoint t"
  "pt_forwards (snd (next_backoff now jit t)) = pt_forwards t"
  "pt_cfg (snd (next_backoff now jit t)) = pt_cfg t"
  "pt_state_tx (snd (next_backoff now jit t)) = pt_state_tx t"
  "pt_events_open (snd (next_backoff now jit t)) = pt_events_open t"
  "pt_sm (snd (next_backoff now jit t)) = pt_sm t"
  "pt_instability (snd (next_backoff now jit t)) = pt_instability t"
  "pt_selector (snd (next_backoff now jit t)) = pt_selector t"
  "pt_registry (snd (next_backoff now jit t)) = pt_registry t"
  "pt_current_session (snd (next_backoff now jit t)) = pt_current_session t"
  "pt_current_endpoint (snd (next_backoff now jit t)) = pt_current_endpoint t"
  "pt_last_instability_action (snd (next_backoff now jit t)) = pt_last_instability_action t"
  by (simp_all add: next_backoff_def split_beta Let_def)

lemma finish_frame [simp]:
  "pt_name (finish t) = pt_name t"
  "pt_auth (finish t) = pt_auth t"
  "pt_auth_by_endpoint (finish t) = pt_auth_by_endpoint t"
  "pt_forwards (finish t) = pt_forwards t"
  "pt_cfg (finish t) = pt_cfg t"
  "pt_events_open (finish t) = pt_events_open t"
  "pt_backoff (finish t) = pt_backoff t"
  "pt_instability (finish t) = pt_instability t"
  "pt_selector (finish t) = pt_selector t"
  "pt_session_up_since (finish t) = pt_session_up_since t"
  "pt_current_endpoint (finish t) = pt_current_endpoint t"
  "pt_last_instability_action (finish t) = pt_last_instability_action t"
  by (simp_all add: finish_def)

lemma give_up_frame [simp]:
  "pt_name (give_up t) = pt_name t"
  "pt_auth (give_up t) = pt_auth t"
  "pt_auth_by_endpoint (give_up t) = pt_auth_by_endpoint t"
  "pt_forwards (give_up t) = pt_forwards t"
  "pt_cfg (give_up t) = pt_cfg t"
  "pt_state_tx (give_up t) = pt_state_tx t"
  "pt_events_open (give_up t) = pt_events_open t"
  "pt_sm (give_up t) = pt_sm t"
  "pt_backoff (give_up t) = pt_backoff t"
  "pt_instability (give_up t) = pt_instability t"
  "pt_selector (give_up t) = pt_selector t"
  "pt_registry (give_up t) = pt_registry t"
  "pt_current_session (give_up t) = pt_current_session t"
  "pt_session_up_since (give_up t) = pt_session_up_since t"
  "pt_current_endpoint (give_up t) = pt_current_endpoint t"
  "pt_last_instability_action (give_up t) = pt_last_instability_action t"
  by (simp_all add: give_up_def)

lemma tear_down_frame [simp]:
  "pt_name (tear_down a t) = pt_name t"
  "pt_auth (tear_down a t) = pt_auth t"
  "pt_auth_by_endpoint (tear_down a t) = pt_auth_by_endpoint t"
  "pt_forwards (tear_down a t) = pt_forwards t"
  "pt_cfg (tear_down a t) = pt_cfg t"
  "pt_state_tx (tear_down a t) = pt_state_tx t"
  "pt_events (tear_down a t) = pt_events t"
  "pt_events_open (tear_down a t) = pt_events_open t"
  "pt_sm (tear_down a t) = pt_sm t"
  "pt_backoff (tear_down a t) = pt_backoff t"
  "pt_instability (tear_down a t) = pt_instability t"
  "pt_selector (tear_down a t) = pt_selector t"
  "pt_registry (tear_down a t) = pt_registry t"
  "pt_current_session (tear_down a t) = pt_current_session t"
  "pt_session_up_since (tear_down a t) = pt_session_up_since t"
  "pt_current_endpoint (tear_down a t) = pt_current_endpoint t"
  "pt_last_instability_action (tear_down a t) = pt_last_instability_action t"
  by (simp_all add: tear_down_def close_session_def stop_runners_def)

lemma clear_instability_frame [simp]:
  "pt_name (clear_instability now t) = pt_name t"
  "pt_auth (clear_instability now t) = pt_auth t"
  "pt_auth_by_endpoint (clear_instability now t) = pt_auth_by_endpoint t"
  "pt_forwards (clear_instability now t) = pt_forwards t"
  "pt_cfg (clear_instability now t) = pt_cfg t"
  "pt_events_open (clear_instability now t) = pt_events_open t"
  "pt_backoff (clear_instability now t) = pt_backoff t"
  "pt_selector (clear_instability now t) = pt_selector t"
  "pt_registry (clear_instability now t) = pt_registry t"
  "pt_current_session (clear_instability now t) = pt_current_session t"
  "pt_session_up_since (clear_instability now t) = pt_session_up_since t"
  "pt_current_endpoint (clear_instability now t) = pt_current_endpoint t"
  "pt_last_instability_action (clear_instability now t) = pt_last_instability_action t"
  by (simp_all add: clear_instability_def split_beta Let_def)

lemma drain_pending_frame [simp]:
  "pt_name (snd (drain_pending ms t)) = pt_name t"
  "pt_auth (snd (drain_pending ms t)) = pt_auth t"
  "pt_auth_by_endpoint (snd (drain_pending ms t)) = pt_auth_by_endpoint t"
  "pt_forwards (snd (drain_pending ms t)) = pt_forwards t"
  "pt_cfg (snd (drain_pending ms t)) = pt_cfg t"
  "pt_state_tx (snd (drain_pending ms t)) = pt_state_tx t"
  "pt_events_open (snd (drain_pending ms t)) = pt_events_open t"
  "pt_sm (snd (drain_pending ms t)) = pt_sm t"
  "pt_backoff (snd (drain_pending ms t)) = pt_backoff t"
  "pt_instability (snd (drain_pending ms t)) = pt_instability t"
  "pt_registry (snd (drain_pending ms t)) = pt_registry t"
  "pt_current_session (snd (drain_pending ms t)) = pt_current_session t"
  "pt_session_up_since (snd (drain_pending ms t)) = pt_session_up_since t"
  "pt_current_endpoint (snd (drain_pending ms t)) = pt_current_endpoint t"
  "pt_last_instability_action (snd (drain_pending ms t)) = pt_last_instability_action t"
  by (induction ms arbitrary: t) (simp_all add: split_beta Let_def)

end
