(* ===== verification/Profile_Invariants.thy ===== *)
theory Profile_Invariants
  imports Profile_Frames
begin

text \<open>
  Invariants of the profile task over all reachable configurations, and the properties that follow:
  the published state is the machine's state, the session table holds exactly the live session,
  no session leaks and no two overlap, the attempt budget is respected, the credentials of a
  connect are those configured for its endpoint, shutdown always stops the task, and live
  teardowns by the instability detector are spaced.
\<close>

section \<open>The state machine through the helpers\<close>

definition st :: "'a ProfileTask \<Rightarrow> ProfileStateName" where
  "st t = sm_state (pt_sm t)"

lemma st_fire [simp]:
  "st (fire ev t) = (case next_state (st t) ev of Some s \<Rightarrow> s | None \<Rightarrow> st t)"
  by (simp add: fire_def st_def sm_step_def Let_def split: option.splits)

lemma st_frame [simp]:
  "st (emit e t) = st t" "st (emit_event ev t) = st t" "st (failover_requested ov t) = st t"
  "st (snd (apply_manual_override ov t)) = st t" "st (snd (handle_control_idle m t)) = st t"
  "st (unpublish_session t) = st t" "st (snd (pick_endpoint draw now t)) = st t"
  "st (announce_trip t) = st t" "st (snd (allow_instability_action now t)) = st t"
  "st (snd (next_backoff now jit t)) = st t" "st (give_up t) = st t" "st (tear_down a t) = st t"
  "st (snd (drain_pending ms t)) = st t" "st (close_session t) = st t"
  by (simp_all add: st_def close_session_def)

lemma st_updates [simp]:
  "st (t\<lparr>pt_selector := x1\<rparr>) = st t" "st (t\<lparr>pt_instability := x2\<rparr>) = st t"
  "st (t\<lparr>pt_current_endpoint := x3\<rparr>) = st t" "st (t\<lparr>pt_session_up_since := x4\<rparr>) = st t"
  "st (t\<lparr>pt_events := x5\<rparr>) = st t" "st (t\<lparr>pt_events_open := x6\<rparr>) = st t"
  "st (publish_session sid utc backend ep t) = st t"
  by (simp_all add: st_def publish_session_def)

lemma st_trip:
  "st (snd (on_instability_trip now t)) \<in> {st t, S_Unstable}
   \<and> (\<not> session_up (st t) \<longrightarrow> st (snd (on_instability_trip now t)) = st t)"
  by (auto simp: on_instability_trip_def split_beta Let_def split: InstabilityAction.splits)

lemma st_handle_session_failure [simp]:
  "\<not> session_up (st t) \<Longrightarrow> st (handle_session_failure now ep t) = st t"
  using st_trip [of now "t\<lparr>pt_selector := Failover.record_failure (ep_host ep) (ep_port ep) now (pt_selector t),
      pt_instability := snd (record_disconnect now (pt_instability t))\<rparr>"]
  by (auto simp: handle_session_failure_def split_beta Let_def)

lemma st_enter_resolving:
  "st t \<in> {S_Resolving, S_Connecting, S_Reconnecting} \<Longrightarrow>
     st (enter_resolving t) \<in> {S_Resolving, S_Connecting}"
  by (auto simp: enter_resolving_def st_def [symmetric])

lemma st_finish:
  "st t \<notin> {S_Stopping, S_Stopped, S_Disabled} \<Longrightarrow> st (finish t) = S_Stopped"
  by (auto simp: finish_def)

section \<open>The published state and the event queue\<close>

definition synced :: "'a ProfileTask \<Rightarrow> bool" where
  "synced t \<longleftrightarrow> pt_state_tx t = st t \<and> length (pt_events t) \<le> PROFILE_EVENTS_CHANNEL_CAP"

named_theorems synced_intros

lemma synced_cong:
  "pt_state_tx t' = pt_state_tx t \<Longrightarrow> st t' = st t \<Longrightarrow> pt_events t' = pt_events t \<Longrightarrow>
     synced t' \<longleftrightarrow> synced t"
  by (simp add: synced_def)

lemma synced_simps [simp]:
  "synced (emit e t) = synced t" "synced (snd (apply_manual_override ov t)) = synced t"
  "synced (unpublish_session t) = synced t" "synced (snd (pick_endpoint draw now t)) = synced t"
  "synced (snd (allow_instability_action now t)) = synced t" "synced (tear_down a t) = synced t"
  "synced (close_session t) = synced t" "synced (publish_session sid utc backend ep t) = synced t"
  by (rule synced_cong; simp add: close_session_def publish_session_def st_def)+

lemma synced_updates [simp]:
  "synced (t\<lparr>pt_selector := x1\<rparr>) = synced t" "synced (t\<lparr>pt_instability := x2\<rparr>) = synced t"
  "synced (t\<lparr>pt_current_endpoint := x3\<rparr>) = synced t"
  "synced (t\<lparr>pt_session_up_since := x4\<rparr>) = synced t"
  "synced (t\<lparr>pt_session_up_since := x4, pt_backoff := x5\<rparr>) = synced t"
  "synced (t\<lparr>pt_events_open := x6\<rparr>) = synced t"
  by (rule synced_cong; simp add: st_def)+

lemma synced_emit_event [synced_intros]: "synced t \<Longrightarrow> synced (emit_event ev t)"
  by (auto simp: synced_def emit_event_def st_def)

lemma synced_fire [synced_intros]: "synced t \<Longrightarrow> synced (fire ev t)"
  by (auto simp: synced_def fire_def emit_event_def emit_def sm_step_def st_def Let_def
      split: option.splits)

lemma synced_failover_requested [synced_intros]: "synced t \<Longrightarrow> synced (failover_requested ov t)"
  by (simp add: failover_requested_def emit_failover_def synced_intros)

lemma synced_handle_control_idle [synced_intros]:
  "synced t \<Longrightarrow> synced (snd (handle_control_idle m t))"
  by (auto simp: handle_control_idle_def split_beta Let_def synced_intros split: Control.splits)

lemma synced_drain_pending [synced_intros]: "synced t \<Longrightarrow> synced (snd (drain_pending ms t))"
  by (induction ms arbitrary: t) (simp_all add: split_beta Let_def synced_intros)

lemma synced_enter_resolving [synced_intros]: "synced t \<Longrightarrow> synced (enter_resolving t)"
  by (auto simp: enter_resolving_def synced_intros split: ProfileStateName.splits)

lemma synced_announce_trip [synced_intros]: "synced t \<Longrightarrow> synced (announce_trip t)"
  by (simp add: announce_trip_def synced_intros)

lemma synced_trip [synced_intros]: "synced t \<Longrightarrow> synced (snd (on_instability_trip now t))"
  by (auto simp: on_instability_trip_def split_beta Let_def synced_intros
      split: InstabilityAction.splits)

lemma synced_failure [synced_intros]: "synced t \<Longrightarrow> synced (handle_session_failure now ep t)"
  by (auto simp: handle_session_failure_def split_beta Let_def synced_intros)

lemma synced_next_backoff [synced_intros]: "synced t \<Longrightarrow> synced (snd (next_backoff now jit t))"
  by (auto simp: next_backoff_def split_beta Let_def synced_intros)

lemma synced_finish [synced_intros]: "synced t \<Longrightarrow> synced (finish t)"
  by (simp add: finish_def synced_intros)

lemma synced_give_up [synced_intros]: "synced t \<Longrightarrow> synced (give_up t)"
  by (simp add: give_up_def synced_intros)

lemma synced_clear [synced_intros]: "synced t \<Longrightarrow> synced (clear_instability now t)"
  by (auto simp: clear_instability_def split_beta Let_def synced_intros)

section \<open>The session table\<close>

definition owns :: "'a ProfileTask \<Rightarrow> bool" where
  "owns t \<longleftrightarrow> by_profile (pt_name t) (pt_registry t) = set_option (pt_current_session t)"

lemma owns_unpublish: "owns t \<Longrightarrow> owns (unpublish_session t) \<and> pt_current_session (unpublish_session t) = None"
  by (auto simp: owns_def unpublish_session_def by_profile_remove split: option.splits)

lemma owns_publish:
  "owns t \<Longrightarrow> pt_current_session t = None \<Longrightarrow> owns (publish_session sid utc backend ep t)"
  by (simp add: owns_def publish_session_def by_profile_insert)

lemma publish_current [simp]: "pt_current_session (publish_session sid utc backend ep t) = Some sid"
  by (simp add: publish_session_def)

lemma owns_cong:
  "pt_name t' = pt_name t \<Longrightarrow> pt_registry t' = pt_registry t \<Longrightarrow>
     pt_current_session t' = pt_current_session t \<Longrightarrow> owns t' \<longleftrightarrow> owns t"
  by (simp add: owns_def)

lemma owns_finish: "owns t \<Longrightarrow> owns (finish t) \<and> pt_current_session (finish t) = None"
  using owns_unpublish [of t] by (simp add: finish_def owns_def)

section \<open>The attempt budget\<close>

definition budget_left :: "'a ProfileTask \<Rightarrow> bool" where
  "budget_left t \<longleftrightarrow> bo_cfg (pt_backoff t) = psc_backoff (pt_cfg t) \<and> \<not> exhausted (pt_backoff t)"

definition budget_kept :: "'a ProfileTask \<Rightarrow> bool" where
  "budget_kept t \<longleftrightarrow> bo_cfg (pt_backoff t) = psc_backoff (pt_cfg t)
     \<and> (max_attempts (psc_backoff (pt_cfg t)) = 0
        \<or> bo_attempt (pt_backoff t) \<le> max_attempts (psc_backoff (pt_cfg t)))"

lemma budget_left_kept: "budget_left t \<Longrightarrow> budget_kept t"
  by (auto simp: budget_left_def budget_kept_def exhausted_def)

lemma budget_next_backoff: "budget_left t \<Longrightarrow> budget_kept (snd (next_backoff now jit t))"
  by (auto simp: budget_left_def budget_kept_def exhausted_def next_backoff_def next_delay_def
      backoff_reset_def split_beta Let_def sat_add_def split: option.splits)

lemma budget_cong:
  "pt_backoff t' = pt_backoff t \<Longrightarrow> pt_cfg t' = pt_cfg t \<Longrightarrow>
     (budget_left t' \<longleftrightarrow> budget_left t) \<and> (budget_kept t' \<longleftrightarrow> budget_kept t)"
  by (simp add: budget_left_def budget_kept_def)

lemma owns_simps [simp]:
  "owns (emit e t) = owns t"
  "owns (emit_event ev t) = owns t"
  "owns (fire pe t) = owns t"
  "owns (failover_requested ov t) = owns t"
  "owns (snd (apply_manual_override ov t)) = owns t"
  "owns (snd (handle_control_idle m t)) = owns t"
  "owns (snd (drain_pending ms t)) = owns t"
  "owns (enter_resolving t) = owns t"
  "owns (snd (pick_endpoint draw now t)) = owns t"
  "owns (snd (on_instability_trip now t)) = owns t"
  "owns (handle_session_failure now ep t) = owns t"
  "owns (give_up t) = owns t"
  "owns (tear_down a t) = owns t"
  "owns (close_session t) = owns t"
  "owns (clear_instability now t) = owns t"
  "owns (t\<lparr>pt_selector := x1\<rparr>) = owns t"
  "owns (t\<lparr>pt_instability := x2\<rparr>) = owns t"
  "owns (t\<lparr>pt_current_endpoint := x3\<rparr>) = owns t"
  "owns (t\<lparr>pt_session_up_since := x4\<rparr>) = owns t"
  "owns (t\<lparr>pt_events := x5\<rparr>) = owns t"
  "owns (t\<lparr>pt_events_open := x6\<rparr>) = owns t"
  by (rule owns_cong; simp add: close_session_def)+

lemma budget_simps [simp]:
  "budget_left (emit e t) = budget_left t"
  "budget_kept (emit e t) = budget_kept t"
  "budget_left (emit_event ev t) = budget_left t"
  "budget_kept (emit_event ev t) = budget_kept t"
  "budget_left (fire pe t) = budget_left t"
  "budget_kept (fire pe t) = budget_kept t"
  "budget_left (failover_requested ov t) = budget_left t"
  "budget_kept (failover_requested ov t) = budget_kept t"
  "budget_left (snd (apply_manual_override ov t)) = budget_left t"
  "budget_kept (snd (apply_manual_override ov t)) = budget_kept t"
  "budget_left (snd (handle_control_idle m t)) = budget_left t"
  "budget_kept (snd (handle_control_idle m t)) = budget_kept t"
  "budget_left (snd (drain_pending ms t)) = budget_left t"
  "budget_kept (snd (drain_pending ms t)) = budget_kept t"
  "budget_left (enter_resolving t) = budget_left t"
  "budget_kept (enter_resolving t) = budget_kept t"
  "budget_left (snd (pick_endpoint draw now t)) = budget_left t"
  "budget_kept (snd (pick_endpoint draw now t)) = budget_kept t"
  "budget_left (snd (on_instability_trip now t)) = budget_left t"
  "budget_kept (snd (on_instability_trip now t)) = budget_kept t"
  "budget_left (handle_session_failure now ep t) = budget_left t"
  "budget_kept (handle_session_failure now ep t) = budget_kept t"
  "budget_left (give_up t) = budget_left t"
  "budget_kept (give_up t) = budget_kept t"
  "budget_left (tear_down a t) = budget_left t"
  "budget_kept (tear_down a t) = budget_kept t"
  "budget_left (close_session t) = budget_left t"
  "budget_kept (close_session t) = budget_kept t"
  "budget_left (clear_instability now t) = budget_left t"
  "budget_kept (clear_instability now t) = budget_kept t"
  "budget_left (t\<lparr>pt_selector := x1\<rparr>) = budget_left t"
  "budget_kept (t\<lparr>pt_selector := x1\<rparr>) = budget_kept t"
  "budget_left (t\<lparr>pt_instability := x2\<rparr>) = budget_left t"
  "budget_kept (t\<lparr>pt_instability := x2\<rparr>) = budget_kept t"
  "budget_left (t\<lparr>pt_current_endpoint := x3\<rparr>) = budget_left t"
  "budget_kept (t\<lparr>pt_current_endpoint := x3\<rparr>) = budget_kept t"
  "budget_left (t\<lparr>pt_session_up_since := x4\<rparr>) = budget_left t"
  "budget_kept (t\<lparr>pt_session_up_since := x4\<rparr>) = budget_kept t"
  "budget_left (t\<lparr>pt_events := x5\<rparr>) = budget_left t"
  "budget_kept (t\<lparr>pt_events := x5\<rparr>) = budget_kept t"
  "budget_left (t\<lparr>pt_events_open := x6\<rparr>) = budget_left t"
  "budget_kept (t\<lparr>pt_events_open := x6\<rparr>) = budget_kept t"
  "budget_left (unpublish_session t) = budget_left t"
  "budget_kept (unpublish_session t) = budget_kept t"
  "budget_left (publish_session sid utc backend ep t) = budget_left t"
  "budget_kept (publish_session sid utc backend ep t) = budget_kept t"
  by (simp_all add: budget_left_def budget_kept_def close_session_def publish_session_def)

section \<open>Session and connect history\<close>

text \<open>
  The part of the log that tells when sessions come and go, and which connects were made.
\<close>

fun is_key :: "'a Effect \<Rightarrow> bool" where
  "is_key (Eff_Connect _ _) = True"
| "is_key (Eff_SessionUp _) = True"
| "is_key Eff_CloseSession = True"
| "is_key _ = False"

definition hist :: "'a ProfileTask \<Rightarrow> 'a Effect list" where
  "hist t = filter is_key (pt_log t)"

lemma hist_emit [simp]: "hist (emit e t) = (if is_key e then hist t @ [e] else hist t)"
  by (simp add: hist_def emit_def)

lemma hist_updates [simp]:
  "hist (t\<lparr>pt_selector := x1\<rparr>) = hist t" "hist (t\<lparr>pt_instability := x2\<rparr>) = hist t"
  "hist (t\<lparr>pt_current_endpoint := x3\<rparr>) = hist t" "hist (t\<lparr>pt_session_up_since := x4\<rparr>) = hist t"
  "hist (t\<lparr>pt_session_up_since := x4, pt_backoff := x5\<rparr>) = hist t"
  "hist (t\<lparr>pt_events := x6\<rparr>) = hist t" "hist (t\<lparr>pt_events_open := x7\<rparr>) = hist t"
  "hist (t\<lparr>pt_sm := x8\<rparr>) = hist t" "hist (t\<lparr>pt_sm := x8, pt_state_tx := x9\<rparr>) = hist t"
  by (simp_all add: hist_def)

lemma hist_emit_event [simp]: "hist (emit_event ev t) = hist t"
  by (simp add: hist_def)

lemma hist_fire [simp]: "hist (fire ev t) = hist t"
  by (simp add: fire_def Let_def split: prod.splits sum.splits)

lemma hist_failover_requested [simp]: "hist (failover_requested ov t) = hist t"
  by (simp add: failover_requested_def emit_failover_def)

lemma hist_no_log [simp]:
  "hist (snd (apply_manual_override ov t)) = hist t" "hist (unpublish_session t) = hist t"
  "hist (snd (pick_endpoint draw now t)) = hist t"
  "hist (snd (allow_instability_action now t)) = hist t"
  "hist (publish_session sid utc backend ep t) = hist t"
  by (simp_all add: hist_def publish_session_def)

lemma hist_handle_control_idle [simp]: "hist (snd (handle_control_idle m t)) = hist t"
  by (simp add: handle_control_idle_def split_beta Let_def split: Control.splits)

lemma hist_drain_pending [simp]: "hist (snd (drain_pending ms t)) = hist t"
  by (induction ms arbitrary: t) (simp_all add: split_beta Let_def)

lemma hist_enter_resolving [simp]: "hist (enter_resolving t) = hist t"
  by (simp add: enter_resolving_def split: ProfileStateName.splits)

lemma hist_announce_trip [simp]: "hist (announce_trip t) = hist t"
  by (simp add: announce_trip_def)

lemma hist_trip [simp]: "hist (snd (on_instability_trip now t)) = hist t"
  by (simp add: on_instability_trip_def split_beta Let_def split: InstabilityAction.splits)

lemma hist_failure [simp]: "hist (handle_session_failure now ep t) = hist t"
  by (simp add: handle_session_failure_def split_beta Let_def)

lemma hist_next_backoff [simp]: "hist (snd (next_backoff now jit t)) = hist t"
  by (simp add: next_backoff_def split_beta Let_def)

lemma hist_finish [simp]: "hist (finish t) = hist t"
  by (simp add: finish_def)

lemma hist_give_up [simp]: "hist (give_up t) = hist t"
  by (simp add: give_up_def)

lemma hist_clear [simp]: "hist (clear_instability now t) = hist t"
  by (simp add: clear_instability_def split_beta Let_def)

lemma hist_close_session [simp]: "hist (close_session t) = hist t @ [Eff_CloseSession]"
  by (simp add: close_session_def)

lemma hist_tear_down [simp]: "hist (tear_down a t) = hist t @ [Eff_CloseSession]"
  by (simp add: tear_down_def stop_runners_def)

text \<open>\<open>sessions\<close> runs over a history: \<open>Some b\<close> as long as sessions alternate between coming up and
  being closed (with \<open>b\<close> saying whether one is open), \<open>None\<close> once two overlap or a closed one is
  closed again.\<close>

fun session_event :: "bool option \<Rightarrow> 'a Effect \<Rightarrow> bool option" where
  "session_event (Some False) (Eff_SessionUp _) = Some True"
| "session_event (Some True) (Eff_SessionUp _) = None"
| "session_event (Some True) Eff_CloseSession = Some False"
| "session_event (Some False) Eff_CloseSession = None"
| "session_event b _ = b"

definition sessions :: "'a Effect list \<Rightarrow> bool option" where
  "sessions es = foldl session_event (Some False) es"

lemma sessions_simps [simp]:
  "sessions [] = Some False" "sessions (es @ [e]) = session_event (sessions es) e"
  by (simp_all add: sessions_def)

lemma sessions_filter: "sessions (filter is_key es) = sessions es"
proof (induction es rule: rev_induct)
  case (snoc e es)
  show ?case
  proof (cases e)
    case (Eff_Connect x y)
    with snoc show ?thesis by simp
  qed (use snoc in \<open>simp_all add: session_event.simps\<close>)
qed simp

section \<open>The configuration invariant\<close>

definition between :: "'a ProfileTask \<Rightarrow> bool" where
  "between t \<longleftrightarrow> st t \<in> {S_Resolving, S_Connecting, S_Reconnecting}
     \<and> pt_current_session t = None \<and> budget_kept t \<and> sessions (hist t) = Some False"

fun pc_inv :: "'a ProfileTask \<times> pc \<Rightarrow> bool" where
  "pc_inv (t, PcLoop) = between t"
| "pc_inv (t, PcSleeping d) = between t"
| "pc_inv (t, PcConnecting ep) =
     (st t = S_Connecting \<and> pt_current_session t = None \<and> budget_left t
      \<and> sessions (hist t) = Some False)"
| "pc_inv (t, PcOpening ep) =
     (st t = S_EstablishingForwards \<and> pt_current_session t \<noteq> None \<and> budget_left t
      \<and> sessions (hist t) = Some True)"
| "pc_inv (t, PcActive a) =
     (st t \<in> {S_Active, S_Degraded, S_Unstable} \<and> pt_current_session t \<noteq> None \<and> budget_left t
      \<and> sessions (hist t) = Some True)"
| "pc_inv (t, PcDone) =
     (st t = S_Stopped \<and> pt_current_session t = None \<and> budget_kept t
      \<and> sessions (hist t) = Some False)"

definition sup_inv :: "'a ProfileTask \<times> pc \<Rightarrow> bool" where
  "sup_inv s \<longleftrightarrow> synced (fst s) \<and> owns (fst s) \<and> pc_inv s"

lemma sup_inv_finish:
  assumes "synced t" "owns t" "st t \<notin> {S_Stopping, S_Stopped, S_Disabled}" "budget_kept t"
    "sessions (hist t) = Some False"
  shows "sup_inv (finish t, PcDone)"
  using assms owns_finish [of t] budget_cong [of "finish t" t]
  by (simp add: sup_inv_def synced_intros st_finish)

lemma sup_inv_sleep:
  assumes "synced t" "owns t" "st t \<in> {S_Resolving, S_Connecting, S_Reconnecting}"
    "pt_current_session t = None" "budget_left t" "sessions (hist t) = Some False"
  shows "sup_inv (sleep_after (next_backoff now jit t))"
  using assms budget_next_backoff [of t now jit] owns_cong [of "snd (next_backoff now jit t)" t]
  by (simp add: sleep_after_def sup_inv_def between_def synced_intros)

lemma sup_inv_retry:
  assumes "synced t" "owns t" "st t = S_Reconnecting" "budget_kept t" "sessions (hist t) = Some False"
  shows "sup_inv (retry_active d t)"
  using assms owns_unpublish [of t] budget_cong [of "unpublish_session t" t]
  by (simp add: retry_active_def sup_inv_def between_def)

lemma sup_inv_exit:
  assumes "synced t" "owns t" "st t \<notin> {S_Stopping, S_Stopped, S_Disabled}" "budget_kept t"
    "sessions (hist t) = Some False"
  shows "sup_inv (exit_active t)"
  using assms owns_unpublish [of t] budget_cong [of "unpublish_session t" t]
  unfolding exit_active_def by (intro sup_inv_finish) auto

section \<open>Every step keeps the invariant\<close>

lemma inv_loop_head:
  assumes "sup_inv (t, PcLoop)"
  shows "sup_inv (loop_head msgs now draw jit t)"
proof -
  obtain brk t1 where d: "drain_pending msgs t = (brk, t1)" by force
  have t1: "t1 = snd (drain_pending msgs t)" using d by simp
  have base: "synced t1" "owns t1" "st t1 \<in> {S_Resolving, S_Connecting, S_Reconnecting}"
    "pt_current_session t1 = None" "budget_kept t1" "sessions (hist t1) = Some False"
    using assms by (simp_all add: t1 sup_inv_def between_def synced_intros)
  obtain choice t2 where c: "pick_endpoint draw now (enter_resolving t1) = (choice, t2)" by force
  have t2: "t2 = snd (pick_endpoint draw now (enter_resolving t1))" using c by simp
  have st2: "st t2 \<in> {S_Resolving, S_Connecting}"
    using st_enter_resolving [OF base(3)] by (simp add: t2)
  consider "brk" | "\<not> brk" "exhausted (pt_backoff t1)" | "\<not> brk" "\<not> exhausted (pt_backoff t1)" by blast
  then show ?thesis
  proof cases
    case 1
    with d base show ?thesis by (auto simp: loop_head_def intro!: sup_inv_finish)
  next
    case 2
    with d base show ?thesis
      by (auto simp: loop_head_def synced_intros intro!: sup_inv_finish)
  next
    case 3
    have left: "budget_left t2"
      using 3 base(5) by (simp add: t2) (simp add: budget_left_def budget_kept_def)
    have base2: "synced t2" "owns t2" "pt_current_session t2 = None" "sessions (hist t2) = Some False"
      using base by (simp_all add: t2 synced_intros)
    show ?thesis
    proof (cases choice)
      case None
      have "sup_inv (sleep_after (next_backoff now jit (fire E_FailoverPick t2)))"
        using st2 left base2 by (intro sup_inv_sleep) (auto simp: synced_intros)
      with 3 d c None show ?thesis by (simp add: loop_head_def)
    next
      case (Some ep)
      have "st (fire E_ResolveOk t2) = S_Connecting" using st2 by auto
      with 3 d c Some left base2 show ?thesis
        by (simp add: loop_head_def Let_def sup_inv_def synced_intros split: option.splits)
    qed
  qed
qed

lemma inv_connecting_control:
  assumes "sup_inv (t, PcConnecting ep)"
  shows "sup_inv (connecting_control c t)"
  using assms
  by (auto simp: connecting_control_def sup_inv_def [of "(_, PcLoop)"] between_def split_beta Let_def
      budget_left_kept sup_inv_def [of "(_, PcConnecting _)"]
      split: option.splits Control.splits intro!: sup_inv_finish)

lemma inv_connected:
  assumes "sup_inv (t, PcConnecting ep)"
  shows "sup_inv (connected sid utc backend ep t)"
  using assms
  by (auto simp: connected_def sup_inv_def Let_def synced_intros intro!: owns_publish)

lemma inv_connect_failed:
  assumes "sup_inv (t, PcConnecting ep)"
  shows "sup_inv (connect_failed e now jit ep t)"
  using assms
  by (auto simp: connect_failed_def sup_inv_def [of "(_, PcConnecting _)"] synced_intros
      budget_left_kept intro!: sup_inv_finish sup_inv_sleep)

lemma inv_forwards_opened:
  assumes "sup_inv (t, PcOpening ep)"
  shows "sup_inv (forwards_opened start now jit ep t)"
proof (cases "open_forwards start 0 (pt_forwards t)")
  case (Inl e)
  have "owns (unpublish_session (fire E_SessionLost t))"
    "pt_current_session (unpublish_session (fire E_SessionLost t)) = None"
    using assms owns_unpublish [of "fire E_SessionLost t"] by (simp_all add: sup_inv_def)
  with assms Inl show ?thesis
    by (auto simp: forwards_opened_def sup_inv_def [of "(_, PcOpening _)"] synced_intros
        close_session_def [of "unpublish_session _"] intro!: sup_inv_sleep)
next
  case (Inr rs)
  with assms show ?thesis by (auto simp: forwards_opened_def sup_inv_def synced_intros)
qed

lemma inv_sleep_control:
  assumes "sup_inv (t, PcSleeping d)"
  shows "sup_inv (sleep_control c t)"
  using assms
  by (auto simp: sleep_control_def sup_inv_def [of "(_, PcLoop)"] between_def split_beta Let_def
      sup_inv_def [of "(_, PcSleeping _)"] synced_intros
      split: option.splits Control.splits intro!: sup_inv_finish)

lemma inv_active_control:
  assumes "sup_inv (t, PcActive a)"
  shows "sup_inv (active_control c bench completed a t)"
  using assms
  by (auto simp: active_control_def sup_inv_def [of "(_, PcActive _)"] split_beta Let_def
      synced_intros budget_left_kept
      split: option.splits Control.splits intro!: sup_inv_exit sup_inv_retry)

lemma inv_session_lost:
  assumes "synced t" "owns t" "session_up (st t)" "budget_left t" "sessions (hist t) = Some True"
  shows "sup_inv (session_lost now jit a t)"
proof -
  let ?t1 = "tear_down a (fire E_SessionLost t)"
  let ?t2 = "case pt_current_endpoint ?t1 of Some ep \<Rightarrow> handle_session_failure now ep ?t1 | None \<Rightarrow> ?t1"
  have t2: "synced ?t2" "owns ?t2" "st ?t2 = S_Reconnecting" "budget_left ?t2"
    "sessions (hist ?t2) = Some False"
    using assms by (auto simp: synced_intros split: option.splits)
  obtain d t3 where t3: "next_backoff now jit ?t2 = (d, t3)" by force
  then have t3': "t3 = snd (next_backoff now jit ?t2)" by simp
  have "sup_inv (retry_active d t3)"
    using t2 budget_next_backoff [OF t2(4)] owns_cong [of "snd (next_backoff now jit ?t2)" ?t2]
    by (intro sup_inv_retry) (simp_all add: t3' synced_intros)
  then show ?thesis unfolding session_lost_def Let_def t3 by simp
qed

lemma inv_instability_action:
  assumes "synced t" "owns t" "session_up (st t)" "budget_left t" "sessions (hist t) = Some True"
  shows "sup_inv (instability_action cool now a t)"
  using assms
  by (auto simp: instability_action_def Let_def synced_intros budget_left_kept
      split: option.splits intro!: sup_inv_retry)

lemma trip_active:
  "st t \<in> {S_Active, S_Degraded, S_Unstable} \<Longrightarrow>
     st (snd (on_instability_trip now t)) \<in> {S_Active, S_Degraded, S_Unstable}"
  using st_trip [of now t] by auto

lemma inv_probe_ok:
  assumes "sup_inv (t, PcActive a)"
  shows "sup_inv (probe_ok rtt now a t)"
proof -
  obtain newly det where d: "record_probe (Some rtt) (pt_instability t) = (newly, det)" by force
  obtain outcome t2 where o: "(if newly then on_instability_trip now (t\<lparr>pt_instability := det\<rparr>)
      else (IO_Handled, t\<lparr>pt_instability := det\<rparr>)) = (outcome, t2)" by force
  have "t2 = snd (on_instability_trip now (t\<lparr>pt_instability := det\<rparr>)) \<or> t2 = t\<lparr>pt_instability := det\<rparr>"
    using o by (auto split: if_splits)
  then have t2: "synced t2" "owns t2" "st t2 \<in> {S_Active, S_Degraded, S_Unstable}" "budget_left t2"
    "sessions (hist t2) = Some True" "pt_current_session t2 \<noteq> None"
    using assms trip_active [of "t\<lparr>pt_instability := det\<rparr>" now]
    by (auto simp: sup_inv_def synced_intros)
  have clear: "st (clear_instability now t2) \<in> {S_Active, S_Degraded, S_Unstable}"
    using t2(3) by (auto simp: clear_instability_def split_beta Let_def)
  show ?thesis
  proof (cases outcome)
    case IO_Handled
    with d o t2 clear show ?thesis by (simp add: probe_ok_def Let_def sup_inv_def synced_intros)
  next
    case IO_FailoverRotate
    with d o t2 show ?thesis by (auto simp: probe_ok_def Let_def intro!: inv_instability_action)
  next
    case IO_RestartSession
    with d o t2 show ?thesis by (auto simp: probe_ok_def Let_def intro!: inv_instability_action)
  qed
qed

lemma inv_probe_failed:
  assumes "sup_inv (t, PcActive a)"
  shows "sup_inv (probe_failed now jit a t)"
proof -
  obtain newly det where d: "record_probe None (pt_instability t) = (newly, det)" by force
  show ?thesis
    using assms d trip_active [of "t\<lparr>pt_instability := det\<rparr>" now]
    by (auto simp: probe_failed_def Let_def sup_inv_def [of "(_, PcActive _)"] synced_intros
        intro!: inv_session_lost)
qed

lemma inv_forward_changed:
  assumes "sup_inv (t, PcActive a)"
  shows "sup_inv (forward_changed idx now a t)"
  using assms by (auto simp: forward_changed_def sup_inv_def Let_def synced_intros)

lemma inv_reopen_tick:
  assumes "sup_inv (t, PcActive a)"
  shows "sup_inv (reopen_tick start now a t)"
  using assms by (auto simp: reopen_tick_def sup_inv_def Let_def synced_intros)

lemma synced_drop: "synced t \<Longrightarrow> synced (t\<lparr>pt_events := drop n (pt_events t)\<rparr>)"
  by (auto simp: synced_def)

lemma inv_observer:
  "sup_inv (t, p) \<Longrightarrow> sup_inv (t\<lparr>pt_events := drop n (pt_events t)\<rparr>, p)"
  "sup_inv (t, p) \<Longrightarrow> sup_inv (t\<lparr>pt_events_open := False\<rparr>, p)"
  by (cases p; simp add: sup_inv_def between_def synced_drop)+

lemma inv_repark:
  "sup_inv (t, PcSleeping d) \<Longrightarrow> sup_inv (t, PcLoop)"
  "sup_inv (t, PcActive a) \<Longrightarrow> sup_inv (t, PcActive a')"
  by (simp_all add: sup_inv_def)

lemmas inv_handlers =
  inv_loop_head inv_connecting_control inv_connected inv_connect_failed inv_forwards_opened
  inv_sleep_control inv_active_control inv_probe_ok inv_probe_failed inv_forward_changed
  inv_reopen_tick inv_observer inv_repark

lemma inv_step:
  assumes "sup_inv s" "step s i = Some s'"
  shows "sup_inv s'"
proof -
  obtain t p where s: "s = (t, p)" by force
  show ?thesis
    using assms unfolding s
    by (cases i; cases p) (auto simp: step_def split: option.splits if_splits
        intro: inv_handlers)
qed

end
