(* ===== verification/Profile_Runs.thy ===== *)
theory Profile_Runs
  imports Profile_Invariants
begin

text \<open>
  Facts about runs of the profile task beyond its invariant: what never changes, which credential a
  connect uses, the clock that spaces instability teardowns, and what stops or retries a task.
\<close>

section \<open>Runs\<close>

lemma inv_run: "sup_inv s \<Longrightarrow> run s is = Some s' \<Longrightarrow> sup_inv s'"
  by (induction "is" arbitrary: s) (auto split: option.splits intro: inv_step)

lemma run_append:
  "run s (is @ js) = (case run s is of None \<Rightarrow> None | Some s' \<Rightarrow> run s' js)"
  by (induction "is" arbitrary: s) (auto split: option.splits)

definition boot ::
  "string \<Rightarrow> 'a \<Rightarrow> (string \<times> nat \<rightharpoonup> 'a) \<Rightarrow> Endpoint list \<Rightarrow> Forward list \<Rightarrow> ProfileSupervisorConfig
     \<Rightarrow> SessionRegistry \<Rightarrow> 'a ProfileTask \<times> pc" where
  "boot name auth auths eps fwds cfg reg =
     run_prologue (spawn_with_auth name auth auths eps fwds cfg reg)"

lemma warn_unsupported_simps [simp]:
  "st (warn_unsupported_config t) = st t" "synced (warn_unsupported_config t) = synced t"
  "owns (warn_unsupported_config t) = owns t" "hist (warn_unsupported_config t) = hist t"
  "budget_kept (warn_unsupported_config t) = budget_kept t"
  "pt_current_session (warn_unsupported_config t) = pt_current_session t"
  by (simp_all add: warn_unsupported_config_def warn_config_def Let_def)

lemma inv_boot:
  assumes "by_profile name reg = {}"
  shows "sup_inv (boot name auth auths eps fwds cfg reg)"
proof -
  let ?t = "(spawn_with_auth name auth auths eps fwds cfg reg)
      \<lparr>pt_backoff := backoff_new (psc_backoff cfg), pt_instability := detector_new (psc_instability cfg)\<rparr>"
  have "st ?t = S_Idle" "synced ?t" "owns ?t" "hist ?t = []" "budget_kept ?t" "pt_current_session ?t = None"
    using assms by (simp_all add: spawn_with_auth_def st_def sm_new_def synced_def owns_def hist_def
        budget_kept_def backoff_new_def)
  moreover have "pt_cfg (spawn_with_auth name auth auths eps fwds cfg reg) = cfg"
    by (simp add: spawn_with_auth_def)
  ultimately show ?thesis
    by (simp add: boot_def run_prologue_def sup_inv_def between_def synced_intros)
qed

section \<open>What never changes\<close>

definition fixed_part ::
  "'a ProfileTask \<Rightarrow> string \<times> 'a \<times> (string \<times> nat \<rightharpoonup> 'a) \<times> Forward list \<times> ProfileSupervisorConfig" where
  "fixed_part t = (pt_name t, pt_auth t, pt_auth_by_endpoint t, pt_forwards t, pt_cfg t)"

definition endpoints_of :: "'a ProfileTask \<Rightarrow> Endpoint list" where
  "endpoints_of t = map ee_ep (es_entries (pt_selector t))"

lemma fixed_simps [simp]:
  "fixed_part (emit e t) = fixed_part t" "fixed_part (emit_event ev t) = fixed_part t"
  "fixed_part (fire pe t) = fixed_part t" "fixed_part (failover_requested ov t) = fixed_part t"
  "fixed_part (snd (apply_manual_override ov t)) = fixed_part t"
  "fixed_part (snd (drain_pending ms t)) = fixed_part t"
  "fixed_part (enter_resolving t) = fixed_part t"
  "fixed_part (snd (pick_endpoint draw now t)) = fixed_part t"
  "fixed_part (snd (on_instability_trip now t)) = fixed_part t"
  "fixed_part (handle_session_failure now ep t) = fixed_part t"
  "fixed_part (snd (next_backoff now jit t)) = fixed_part t"
  "fixed_part (finish t) = fixed_part t" "fixed_part (give_up t) = fixed_part t"
  "fixed_part (tear_down a t) = fixed_part t" "fixed_part (close_session t) = fixed_part t"
  "fixed_part (clear_instability now t) = fixed_part t"
  "fixed_part (unpublish_session t) = fixed_part t"
  "fixed_part (publish_session sid utc backend ep t) = fixed_part t"
  "fixed_part (t\<lparr>pt_selector := x1\<rparr>) = fixed_part t" "fixed_part (t\<lparr>pt_instability := x2\<rparr>) = fixed_part t"
  "fixed_part (t\<lparr>pt_current_endpoint := x3\<rparr>) = fixed_part t"
  "fixed_part (t\<lparr>pt_session_up_since := x4\<rparr>) = fixed_part t"
  "fixed_part (t\<lparr>pt_events := x5\<rparr>) = fixed_part t" "fixed_part (t\<lparr>pt_events_open := x6\<rparr>) = fixed_part t"
  by (simp_all add: fixed_part_def close_session_def publish_session_def)

lemma endpoints_of_selector:
  "map ee_ep (es_entries sel) = endpoints_of t \<Longrightarrow> endpoints_of (t\<lparr>pt_selector := sel\<rparr>) = endpoints_of t"
  by (simp add: endpoints_of_def)

lemma endpoints_of_cong: "pt_selector t' = pt_selector t \<Longrightarrow> endpoints_of t' = endpoints_of t"
  by (simp add: endpoints_of_def)

lemma selector_ops_endpoints [simp]:
  "map ee_ep (es_entries (Failover.record_failure h p now s)) = map ee_ep (es_entries s)"
  "map ee_ep (es_entries (Failover.record_success h p s)) = map ee_ep (es_entries s)"
  "map ee_ep (es_entries (set_manual m s)) = map ee_ep (es_entries s)"
  using fo_apply_endpoints [of s "FO_Failure h p now"] fo_apply_endpoints [of s "FO_Success h p"]
    fo_apply_endpoints [of s "FO_Manual m"] by simp_all

lemma endpoints_simps [simp]:
  "endpoints_of (emit e t) = endpoints_of t" "endpoints_of (emit_event ev t) = endpoints_of t"
  "endpoints_of (fire pe t) = endpoints_of t" "endpoints_of (failover_requested ov t) = endpoints_of t"
  "endpoints_of (enter_resolving t) = endpoints_of t"
  "endpoints_of (snd (on_instability_trip now t)) = endpoints_of t"
  "endpoints_of (snd (next_backoff now jit t)) = endpoints_of t"
  "endpoints_of (finish t) = endpoints_of t" "endpoints_of (give_up t) = endpoints_of t"
  "endpoints_of (tear_down a t) = endpoints_of t" "endpoints_of (close_session t) = endpoints_of t"
  "endpoints_of (clear_instability now t) = endpoints_of t"
  "endpoints_of (unpublish_session t) = endpoints_of t"
  "endpoints_of (publish_session sid utc backend ep t) = endpoints_of t"
  "endpoints_of (t\<lparr>pt_instability := x2\<rparr>) = endpoints_of t"
  "endpoints_of (t\<lparr>pt_current_endpoint := x3\<rparr>) = endpoints_of t"
  "endpoints_of (t\<lparr>pt_session_up_since := x4\<rparr>) = endpoints_of t"
  "endpoints_of (t\<lparr>pt_events := x5\<rparr>) = endpoints_of t"
  "endpoints_of (t\<lparr>pt_events_open := x6\<rparr>) = endpoints_of t"
  "endpoints_of (t\<lparr>pt_selector := Failover.record_failure h p now (pt_selector t)\<rparr>) = endpoints_of t"
  "endpoints_of (t\<lparr>pt_selector := Failover.record_success h p (pt_selector t)\<rparr>) = endpoints_of t"
  "endpoints_of (t\<lparr>pt_selector := set_manual m (pt_selector t)\<rparr>) = endpoints_of t"
  by (simp_all add: endpoints_of_def close_session_def publish_session_def)

lemma endpoints_override [simp]: "endpoints_of (snd (apply_manual_override ov t)) = endpoints_of t"
  by (auto simp: apply_manual_override_def split: option.splits sum.splits)

lemma endpoints_idle [simp]: "endpoints_of (snd (handle_control_idle m t)) = endpoints_of t"
  by (simp add: handle_control_idle_def split_beta Let_def split: Control.splits)

lemma endpoints_drain [simp]: "endpoints_of (snd (drain_pending ms t)) = endpoints_of t"
  by (induction ms arbitrary: t) (simp_all add: split_beta Let_def)

lemma endpoints_pick [simp]: "endpoints_of (snd (pick_endpoint draw now t)) = endpoints_of t"
  by (simp add: pick_endpoint_def endpoints_of_def split_beta Let_def)

lemma endpoints_failure [simp]: "endpoints_of (handle_session_failure now ep t) = endpoints_of t"
  by (simp add: handle_session_failure_def split_beta Let_def)

lemma pick_endpoint_mem: "fst (pick_endpoint draw now t) = Some ep \<Longrightarrow> ep \<in> set (endpoints_of t)"
proof -
  assume p: "fst (pick_endpoint draw now t) = Some ep"
  then have r: "fst (Failover.pick draw now (pt_selector t)) = Inr ep"
    by (auto simp: pick_endpoint_def split_beta Let_def split: sum.splits)
  then have "es_entries (pt_selector t) \<noteq> []" by (auto simp: Failover.pick_def)
  from pick_in_entries [OF this r] show ?thesis by (simp add: endpoints_of_def image_image)
qed

text \<open>Connects use a configured endpoint and the credential configured for it.\<close>

definition creds_ok :: "'a ProfileTask \<Rightarrow> bool" where
  "creds_ok t \<longleftrightarrow> (\<forall>ep c. Eff_Connect ep c \<in> set (hist t) \<longrightarrow>
     ep \<in> set (endpoints_of t) \<and> c = auth_for t ep)"

lemma auth_for_simps [simp]:
  "auth_for (emit e t) = auth_for t" "auth_for (fire pe t) = auth_for t"
  "auth_for (snd (pick_endpoint draw now t)) = auth_for t" "auth_for (enter_resolving t) = auth_for t"
  "auth_for (snd (drain_pending ms t)) = auth_for t"
  by (simp_all add: auth_for_def fun_eq_iff cong: option.case_cong)

lemma creds_cong:
  assumes "hist t' = hist t \<or> (\<exists>e. hist t' = hist t @ [e] \<and> (\<forall>ep c. e \<noteq> Eff_Connect ep c))"
    "endpoints_of t' = endpoints_of t" "fixed_part t' = fixed_part t" "creds_ok t"
  shows "creds_ok t'"
proof -
  have "auth_for t' = auth_for t"
    using assms(3) by (auto simp: auth_for_def fixed_part_def fun_eq_iff cong: option.case_cong)
  with assms(1,2,4) show ?thesis by (auto simp: creds_ok_def)
qed

definition quiet :: "'a ProfileTask \<Rightarrow> 'a ProfileTask \<Rightarrow> bool" where
  "quiet t t' \<longleftrightarrow> fixed_part t' = fixed_part t \<and> endpoints_of t' = endpoints_of t
     \<and> (hist t' = hist t \<or> (\<exists>e. hist t' = hist t @ [e] \<and> (\<forall>ep c. e \<noteq> Eff_Connect ep c)))"

lemma quiet_connecting: "quiet t (fst (connecting_control c t))"
  by (auto simp: quiet_def connecting_control_def split_beta Let_def split: option.splits Control.splits)

lemma quiet_connected: "quiet t (fst (connected sid utc backend ep t))"
  by (simp add: quiet_def connected_def Let_def)

lemma quiet_connect_failed: "quiet t (fst (connect_failed e now jit ep t))"
  by (simp add: quiet_def connect_failed_def sleep_after_def)

lemma quiet_forwards_opened: "quiet t (fst (forwards_opened start now jit ep t))"
  by (simp add: quiet_def forwards_opened_def sleep_after_def split: sum.splits)

lemma quiet_sleep: "quiet t (fst (sleep_control c t))"
  by (auto simp: quiet_def sleep_control_def split_beta Let_def split: option.splits Control.splits)

lemma quiet_active_control: "quiet t (fst (active_control c bench completed a t))"
  by (auto simp: quiet_def active_control_def exit_active_def retry_active_def split_beta Let_def
      split: option.splits Control.splits)

lemma quiet_session_lost: "quiet t (fst (session_lost now jit a t))"
  by (simp add: quiet_def session_lost_def retry_active_def split_beta Let_def split: option.splits)

lemma quiet_instability_action: "quiet t (fst (instability_action cool now a t))"
  by (simp add: quiet_def instability_action_def retry_active_def Let_def endpoints_of_def
      split: option.splits)

lemma quiet_trans: "fixed_part t1 = fixed_part t \<Longrightarrow> endpoints_of t1 = endpoints_of t \<Longrightarrow> hist t1 = hist t \<Longrightarrow>
    quiet t1 t2 \<Longrightarrow> quiet t t2"
  by (simp add: quiet_def)

lemma quiet_probe_ok: "quiet t (fst (probe_ok rtt now a t))"
  by (auto simp: probe_ok_def split_beta Let_def split: InstabilityOutcome.splits
      intro: quiet_trans [OF _ _ _ quiet_instability_action]) (simp_all add: quiet_def)

lemma quiet_probe_failed: "quiet t (fst (probe_failed now jit a t))"
  by (auto simp: probe_failed_def split_beta Let_def intro: quiet_trans [OF _ _ _ quiet_session_lost])

lemma quiet_forward_changed: "quiet t (fst (forward_changed idx now a t))"
  by (simp add: quiet_def forward_changed_def Let_def)

lemma quiet_reopen_tick: "quiet t (fst (reopen_tick start now a t))"
  by (simp add: quiet_def reopen_tick_def Let_def)

lemmas quiet_handlers =
  quiet_connecting quiet_connected quiet_connect_failed quiet_forwards_opened quiet_sleep
  quiet_active_control quiet_probe_ok quiet_probe_failed quiet_forward_changed quiet_reopen_tick

lemma loop_head_creds:
  assumes "creds_ok t"
  shows "fixed_part (fst (loop_head msgs now draw jit t)) = fixed_part t
    \<and> endpoints_of (fst (loop_head msgs now draw jit t)) = endpoints_of t
    \<and> creds_ok (fst (loop_head msgs now draw jit t))"
proof -
  let ?t1 = "snd (drain_pending msgs t)"
  let ?r = "pick_endpoint draw now (enter_resolving ?t1)"
  have quiet: "creds_ok t'" if "fixed_part t' = fixed_part t" "endpoints_of t' = endpoints_of t" "hist t' = hist t"
    for t'
    using creds_cong [OF _ that(2,1) assms] that(3) by blast
  consider "fst (drain_pending msgs t)" | "\<not> fst (drain_pending msgs t)" "exhausted (pt_backoff ?t1)"
    | "\<not> fst (drain_pending msgs t)" "\<not> exhausted (pt_backoff ?t1)" "fst ?r = None"
    | ep where "\<not> fst (drain_pending msgs t)" "\<not> exhausted (pt_backoff ?t1)" "fst ?r = Some ep"
    by blast
  then show ?thesis
  proof cases
    case (4 ep)
    let ?t' = "emit (Eff_Connect ep (auth_for (fire E_ResolveOk (snd ?r)) ep)) (fire E_ResolveOk (snd ?r))"
    have eq: "fst (loop_head msgs now draw jit t) = ?t'"
      using 4 by (simp add: loop_head_def split_beta Let_def)
    have mem: "ep \<in> set (endpoints_of t)" using pick_endpoint_mem [OF 4(3)] by simp
    show ?thesis
      unfolding eq using assms mem by (auto simp: creds_ok_def)
  qed (auto simp: loop_head_def sleep_after_def split_beta Let_def intro!: quiet)
qed

lemma step_quiet:
  assumes "step (t, p) i = Some s'"
  shows "quiet t (fst s') \<or> (\<exists>msgs now draw jit. i = In_Loop msgs now draw jit \<and> p = PcLoop
    \<and> s' = loop_head msgs now draw jit t)"
proof -
  have observer: "quiet t (t\<lparr>pt_events := x\<rparr>)" "quiet t (t\<lparr>pt_events_open := y\<rparr>)" "quiet t t" for x y
    by (simp_all add: quiet_def)
  show ?thesis
    using assms by (cases i; cases p) (auto simp: step_def split: option.splits if_splits
        intro: quiet_handlers observer)
qed

lemma step_creds:
  assumes "step s i = Some s'" "creds_ok (fst s)"
  shows "fixed_part (fst s') = fixed_part (fst s) \<and> endpoints_of (fst s') = endpoints_of (fst s)
    \<and> creds_ok (fst s')"
proof -
  obtain t p where s: "s = (t, p)" by force
  have quiet: "fixed_part t' = fixed_part t \<and> endpoints_of t' = endpoints_of t \<and> creds_ok t'"
    if "quiet t t'" for t'
    using that creds_cong [of t' t] assms(2) by (auto simp: quiet_def s)
  have "quiet t (fst s') \<or> (\<exists>msgs now draw jit. s' = loop_head msgs now draw jit t)"
    using step_quiet assms(1) unfolding s by blast
  then show ?thesis using quiet [of "fst s'"] loop_head_creds [of t] assms(2) by (auto simp: s)
qed

lemma run_creds:
  "run s is = Some s' \<Longrightarrow> creds_ok (fst s) \<Longrightarrow>
     fixed_part (fst s') = fixed_part (fst s) \<and> endpoints_of (fst s') = endpoints_of (fst s) \<and> creds_ok (fst s')"
  by (induction "is" arbitrary: s) (auto split: option.splits dest: step_creds)

lemma boot_simps [simp]:
  "fixed_part (fst (boot name auth auths eps fwds cfg reg)) = (name, auth, auths, fwds, cfg)"
  "endpoints_of (fst (boot name auth auths eps fwds cfg reg)) = eps"
  "hist (fst (boot name auth auths eps fwds cfg reg)) = []"
  by (simp_all add: boot_def run_prologue_def spawn_with_auth_def warn_unsupported_config_def
      warn_config_def Let_def fixed_part_def endpoints_of_def with_cooldown_def with_fail_after_def
      selector_new_def comp_def) (simp_all add: hist_def)

lemma creds_boot: "creds_ok (fst (boot name auth auths eps fwds cfg reg))"
  by (simp add: creds_ok_def)

lemma run_boot:
  assumes "run (boot name auth auths eps fwds cfg reg) is = Some (t, p)"
  shows "pt_name t = name" "pt_auth t = auth" "pt_auth_by_endpoint t = auths" "pt_cfg t = cfg"
    "endpoints_of t = eps" "creds_ok t"
proof -
  have "fixed_part t = (name, auth, auths, fwds, cfg) \<and> endpoints_of t = eps \<and> creds_ok t"
    using run_creds [OF assms creds_boot] by simp
  then show "pt_name t = name" "pt_auth t = auth" "pt_auth_by_endpoint t = auths" "pt_cfg t = cfg"
    "endpoints_of t = eps" "creds_ok t" by (simp_all add: fixed_part_def)
qed

section \<open>The teardown clock\<close>

fun input_time :: "input \<Rightarrow> instant option" where
  "input_time (In_Loop _ now _ _) = Some now"
| "input_time (In_ConnectFailed _ now _) = Some now"
| "input_time (In_ForwardsOpened _ now _) = Some now"
| "input_time (In_Probe _ now _) = Some now"
| "input_time (In_ForwardChanged _ now) = Some now"
| "input_time (In_ReopenTick _ now) = Some now"
| "input_time _ = None"

definition not_before :: "instant \<Rightarrow> input \<Rightarrow> bool" where
  "not_before t0 i = (case input_time i of None \<Rightarrow> True | Some now \<Rightarrow> t0 \<le> now)"

text \<open>A healthy probe of the live session that ends the session.\<close>

definition live_teardown :: "'a ProfileTask \<times> pc \<Rightarrow> input \<Rightarrow> bool" where
  "live_teardown s i =
     (case i of
        In_Probe (Some rtt) now jit \<Rightarrow>
          (case step s i of Some (t', PcSleeping d) \<Rightarrow> True | _ \<Rightarrow> False)
      | _ \<Rightarrow> False)"

definition acted_since :: "instant \<Rightarrow> 'a ProfileTask \<Rightarrow> bool" where
  "acted_since t0 t = (case pt_last_instability_action t of None \<Rightarrow> False | Some x \<Rightarrow> t0 \<le> x)"

lemma trip_clock:
  "pt_last_instability_action (snd (on_instability_trip now t)) \<in> {pt_last_instability_action t, Some now}"
  "fst (on_instability_trip now t) \<noteq> IO_Handled \<Longrightarrow>
     pt_last_instability_action (snd (on_instability_trip now t)) = Some now
     \<and> (case pt_last_instability_action t of None \<Rightarrow> True | Some x \<Rightarrow> from_secs 10 \<le> now - x)"
  by (auto simp: on_instability_trip_def allow_instability_action_def split_beta Let_def
      INSTABILITY_ACTION_MIN_INTERVAL_def split: InstabilityAction.splits option.splits if_splits)

lemma acted_cong:
  "pt_last_instability_action t' = pt_last_instability_action t \<Longrightarrow> acted_since t0 t' = acted_since t0 t"
  by (simp add: acted_since_def)

lemma acted_simps [simp]:
  "acted_since t0 (emit e t) = acted_since t0 t" "acted_since t0 (emit_event ev t) = acted_since t0 t"
  "acted_since t0 (fire pe t) = acted_since t0 t"
  "acted_since t0 (failover_requested ov t) = acted_since t0 t"
  "acted_since t0 (snd (apply_manual_override ov t)) = acted_since t0 t"
  "acted_since t0 (snd (drain_pending ms t)) = acted_since t0 t"
  "acted_since t0 (enter_resolving t) = acted_since t0 t"
  "acted_since t0 (snd (pick_endpoint draw now t)) = acted_since t0 t"
  "acted_since t0 (snd (next_backoff now jit t)) = acted_since t0 t"
  "acted_since t0 (finish t) = acted_since t0 t" "acted_since t0 (give_up t) = acted_since t0 t"
  "acted_since t0 (tear_down a t) = acted_since t0 t"
  "acted_since t0 (close_session t) = acted_since t0 t"
  "acted_since t0 (clear_instability now t) = acted_since t0 t"
  "acted_since t0 (unpublish_session t) = acted_since t0 t"
  "acted_since t0 (publish_session sid utc backend ep t) = acted_since t0 t"
  "acted_since t0 (t\<lparr>pt_selector := x1\<rparr>) = acted_since t0 t"
  "acted_since t0 (t\<lparr>pt_instability := x2\<rparr>) = acted_since t0 t"
  "acted_since t0 (t\<lparr>pt_current_endpoint := x3\<rparr>) = acted_since t0 t"
  "acted_since t0 (t\<lparr>pt_session_up_since := x4\<rparr>) = acted_since t0 t"
  "acted_since t0 (t\<lparr>pt_events := x5\<rparr>) = acted_since t0 t"
  "acted_since t0 (t\<lparr>pt_events_open := x6\<rparr>) = acted_since t0 t"
  by (rule acted_cong; simp add: close_session_def publish_session_def)+

lemma acted_trip: "t0 \<le> now \<Longrightarrow> acted_since t0 t \<Longrightarrow> acted_since t0 (snd (on_instability_trip now t))"
  using trip_clock(1) [of now t] by (auto simp: acted_since_def)

lemma acted_failure: "t0 \<le> now \<Longrightarrow> acted_since t0 t \<Longrightarrow> acted_since t0 (handle_session_failure now ep t)"
  by (simp add: handle_session_failure_def split_beta Let_def acted_trip)

lemma acted_handlers:
  assumes "acted_since t0 t"
  shows "acted_since t0 (fst (loop_head msgs now draw jit t))"
    and "acted_since t0 (fst (connecting_control c t))"
    and "acted_since t0 (fst (connected sid utc backend ep t))"
    and "t0 \<le> now \<Longrightarrow> acted_since t0 (fst (connect_failed e now jit ep t))"
    and "t0 \<le> now \<Longrightarrow> acted_since t0 (fst (forwards_opened start now jit ep t))"
    and "acted_since t0 (fst (sleep_control c t))"
    and "acted_since t0 (fst (active_control c bench completed a t))"
    and "acted_since t0 (fst (forward_changed idx now a t))"
    and "acted_since t0 (fst (reopen_tick start now a t))"
  using assms
  by (auto simp: loop_head_def connecting_control_def connected_def connect_failed_def
      forwards_opened_def sleep_control_def active_control_def forward_changed_def reopen_tick_def
      sleep_after_def exit_active_def retry_active_def acted_failure split_beta Let_def
      split: option.splits Control.splits sum.splits)

lemma acted_probes:
  assumes "acted_since t0 t" "t0 \<le> now"
  shows "acted_since t0 (fst (probe_ok rtt now a t))" "acted_since t0 (fst (probe_failed now jit a t))"
  using assms
  by (auto simp: probe_ok_def probe_failed_def instability_action_def session_lost_def retry_active_def
      acted_failure acted_trip split_beta Let_def split: option.splits InstabilityOutcome.splits)

lemma acted_step:
  assumes "acted_since t0 (fst s)" "step s i = Some s'" "not_before t0 i"
  shows "acted_since t0 (fst s')"
proof -
  obtain t p where s: "s = (t, p)" by force
  show ?thesis
    using assms unfolding s not_before_def
    by (cases i; cases p) (auto simp: step_def split: option.splits if_splits
        intro: acted_handlers acted_probes)
qed

lemma acted_run:
  "acted_since t0 (fst s) \<Longrightarrow> run s is = Some s' \<Longrightarrow> \<forall>i\<in>set is. not_before t0 i \<Longrightarrow> acted_since t0 (fst s')"
  by (induction "is" arbitrary: s) (auto split: option.splits intro: acted_step)

lemma live_teardown_clock:
  assumes "live_teardown s i"
  obtains now s' where "input_time i = Some now" "step s i = Some s'" "acted_since now (fst s')"
    "\<And>t0. acted_since t0 (fst s) \<Longrightarrow> t0 + from_secs 10 \<le> now"
proof -
  from assms obtain rtt now jit t' d where i: "i = In_Probe (Some rtt) now jit"
    and st: "step s i = Some (t', PcSleeping d)"
    by (auto simp: live_teardown_def split: input.splits option.splits prod.splits pc.splits)
  from st i obtain t a where s: "s = (t, PcActive a)" and p: "probe_ok rtt now a t = (t', PcSleeping d)"
    by (cases s) (auto simp: step_def split: pc.splits)
  let ?t1 = "t\<lparr>pt_instability := snd (record_probe (Some rtt) (pt_instability t))\<rparr>"
  have trip: "fst (on_instability_trip now ?t1) \<noteq> IO_Handled"
    and t': "pt_last_instability_action t' = pt_last_instability_action (snd (on_instability_trip now ?t1))"
    using p by (auto simp: probe_ok_def instability_action_def retry_active_def split_beta Let_def
        split: if_splits InstabilityOutcome.splits option.splits)
  have pos: "0 < from_secs 10" by (simp add: from_secs_def)
  show thesis
  proof (rule that [of now "(t', PcSleeping d)"])
    show "acted_since now (fst (t', PcSleeping d))"
      using trip_clock(2) [OF trip] t' by (simp add: acted_since_def)
    show "t0 + from_secs 10 \<le> now" if "acted_since t0 (fst s)" for t0
      using that trip_clock(2) [OF trip] s pos by (auto simp: acted_since_def split: option.splits)
  qed (use i st in auto)
qed

section \<open>Stopping, failing, retrying\<close>

definition stop_message :: "Control \<Rightarrow> bool" where
  "stop_message c = (case c of C_Shutdown \<Rightarrow> True | C_Drain _ \<Rightarrow> True | _ \<Rightarrow> False)"

text \<open>An input that delivers a shutdown or a drain, or finds the control channel closed.\<close>

definition asks_to_stop :: "input \<Rightarrow> bool" where
  "asks_to_stop i =
     (case i of
        In_Loop msgs _ _ _ \<Rightarrow> list_ex stop_message msgs
      | In_Control c _ _ \<Rightarrow> (case c of None \<Rightarrow> True | Some m \<Rightarrow> stop_message m)
      | _ \<Rightarrow> False)"

text \<open>The await points that take control messages, with the inputs that carry them.\<close>

definition listens :: "pc \<Rightarrow> input \<Rightarrow> bool" where
  "listens p i =
     (case i of
        In_Loop _ _ _ _ \<Rightarrow> p = PcLoop
      | In_Control _ _ _ \<Rightarrow>
          (case p of PcConnecting _ \<Rightarrow> True | PcActive _ \<Rightarrow> True | PcSleeping _ \<Rightarrow> True | _ \<Rightarrow> False)
      | _ \<Rightarrow> False)"

lemma drain_pending_stop: "list_ex stop_message ms \<Longrightarrow> fst (drain_pending ms t)"
proof (induction ms arbitrary: t)
  case (Cons m ms)
  then show ?case
    by (cases "stop_message m")
      (auto simp: handle_control_idle_def stop_message_def split_beta Let_def split: Control.splits)
qed simp

lemma asks_to_stop_done:
  assumes "asks_to_stop i" "step s i = Some s'"
  shows "snd s' = PcDone"
proof -
  obtain t p where s: "s = (t, p)" by force
  show ?thesis
    using assms unfolding s
    by (cases i; cases p)
      (auto simp: step_def asks_to_stop_def loop_head_def drain_pending_stop connecting_control_def
        sleep_control_def active_control_def exit_active_def stop_message_def split_beta Let_def
        split: option.splits Control.splits if_splits)
qed

lemma done_hist:
  assumes "run (t, PcDone) is = Some s'"
  shows "snd s' = PcDone \<and> hist (fst s') = hist t"
  using assms
proof (induction "is" arbitrary: t)
  case (Cons i "is")
  then obtain t1 p1 where "step (t, PcDone) i = Some (t1, p1)" "run (t1, p1) is = Some s'"
    by (auto split: option.splits)
  moreover from this(1) have "p1 = PcDone" "hist t1 = hist t"
    by (cases i; auto simp: step_def)+
  ultimately show ?case using Cons.IH by auto
qed auto

lemma connect_failed_pc:
  "snd (connect_failed e now jit ep t) =
     (if is_terminal_connect_error e
         \<or> is_auth_failure e \<and> \<not> retry_auth_failures (psc_backoff (pt_cfg t))
      then PcDone else PcSleeping (fst (next_backoff now jit (handle_session_failure now ep (fire E_ConnectFail t)))))"
  by (simp add: connect_failed_def sleep_after_def)

lemma next_backoff_attempt:
  "bo_attempt (pt_backoff (snd (next_backoff now jit t))) =
     sat_add u32_max
       (case pt_session_up_since t of
          Some since \<Rightarrow> if reset_after (psc_backoff (pt_cfg t)) \<le> now - since then 0
                        else bo_attempt (pt_backoff t)
        | None \<Rightarrow> bo_attempt (pt_backoff t)) 1"
  by (simp add: next_backoff_def next_delay_def backoff_reset_def split_beta Let_def split: option.splits)

lemma es_mode_manual_enter [simp]:
  "pt_selector (enter_resolving t) = pt_selector t" by simp

lemma pick_endpoint_exists:
  assumes "endpoints_of t \<noteq> []" "es_manual (pt_selector t) = None" "es_mode (pt_selector t) \<noteq> FM_Manual"
  shows "\<exists>ep. fst (pick_endpoint draw now t) = Some ep"
proof -
  have ne: "es_entries (pt_selector t) \<noteq> []" using assms(1) by (simp add: endpoints_of_def)
  then have "fst (Failover.pick draw now (pt_selector t)) = fst (pick_unpinned draw now (pt_selector t))"
    using assms(2) by (simp add: Failover.pick_def)
  then show ?thesis
    using pick_unpinned_outcome [OF ne, of draw now] assms(3)
    by (auto simp: pick_endpoint_def split_beta Let_def split: sum.splits)
qed

end
