(* ===== verification/Profile_Demo.thy ===== *)
theory Profile_Demo
  imports Profile_Runs
begin

text \<open>
  A small concrete supervisor, one endpoint and no forwards, on which the properties are exercised,
  and the definitions that let the simplifier run it.
\<close>

section \<open>A concrete supervisor\<close>

definition demo_cfg :: ProfileSupervisorConfig where
  "demo_cfg = default_supervisor_config
     \<lparr>psc_backoff := default_backoff_config\<lparr>initial_delay := 0, max_delay := 0, max_attempts := 2\<rparr>,
      psc_instability := default_instability_window
        \<lparr>iw_max_latency_p95 := Some 0, iw_clear_after := 0, iw_action := IA_RestartSession\<rparr>\<rparr>"

definition demo :: "nat ProfileTask \<times> pc" where
  "demo = boot ''p'' 7 (\<lambda>_. None) [endpoint_new ''a'' 22] [] demo_cfg (\<lambda>_. None)"

definition go :: "nat \<Rightarrow> input" where
  "go now = In_Loop [] now (\<lambda>_. 0) (\<lambda>_. 0)"

definition opened :: "nat \<Rightarrow> input" where
  "opened now = In_ForwardsOpened (\<lambda>_. Inr F_Active) now (\<lambda>_. 0)"

lemmas task_exec =
  demo_def demo_cfg_def boot_def run_prologue_def spawn_with_auth_def warn_unsupported_config_def
  warn_config_def default_supervisor_config_def default_backoff_config_def
  default_instability_window_def go_def opened_def step_def loop_head_def enter_resolving_def
  pick_endpoint_def Failover.pick_def pick_unpinned_def pick_via_policy_def pick_by_mode_def
  eligible_def with_cooldown_def with_fail_after_def selector_new_def endpoint_new_def
  fire_def emit_def emit_event_def sm_step_def sm_new_def exhausted_def backoff_new_def
  connected_def publish_session_def unpublish_session_def registry_insert_def registry_remove_def
  Failover.record_success_def is_entry_def forwards_opened_def sleep_after_def auth_for_def
  PROFILE_EVENTS_CHANNEL_CAP_def current_key_def connecting_control_def active_control_def
  exit_active_def retry_active_def tear_down_def stop_runners_def runner_names_def
  close_session_def finish_def set_manual_def detector_new_def split_beta Let_def

lemma dec_22: "dec 22 = ''22''"
  by code_simp

lemma demo_connecting:
  obtains t ep where "run demo [go 1] = Some (t, PcConnecting ep)"
    "\<not> exhausted (pt_backoff t)" "\<forall>e\<in>set (es_entries (pt_selector t)). eligible now e"
proof -
  have "(case run demo [go 1] of
           Some (t, PcConnecting _) \<Rightarrow> \<not> exhausted (pt_backoff t) \<and> list_all (eligible now) (es_entries (pt_selector t))
         | _ \<Rightarrow> False)" by (simp add: task_exec)
  then show thesis using that by (auto simp: list_all_iff split: option.splits prod.splits pc.splits)
qed

lemmas retry_exec =
  connect_failed_def is_terminal_connect_error_def is_auth_failure_def handle_session_failure_def
  next_backoff_def record_disconnect_def next_delay_def Failover.record_failure_def window_cutoff_def
  sat_add_def u32_max_def

lemma demo_retry:
  obtains t d where "run demo [go 1, In_ConnectFailed (Err_KeepaliveTimeout 5) 2 (\<lambda>_. 0)] = Some (t, PcSleeping d)"
    "\<not> exhausted (pt_backoff t)" "es_manual (pt_selector t) = None" "bo_attempt (pt_backoff t) = 1"
proof -
  have "(case run demo [go 1, In_ConnectFailed (Err_KeepaliveTimeout 5) 2 (\<lambda>_. 0)] of
           Some (t, PcSleeping _) \<Rightarrow> \<not> exhausted (pt_backoff t) \<and> es_manual (pt_selector t) = None
             \<and> bo_attempt (pt_backoff t) = 1
         | _ \<Rightarrow> False)" by (simp add: task_exec retry_exec)
  then show thesis using that by (auto split: option.splits prod.splits pc.splits)
qed

lemma demo_active:
  obtains t a where "run demo [go 1, In_Connected 5 0 ''ssh2'', opened 2] = Some (t, PcActive a)"
proof -
  have "(case run demo [go 1, In_Connected 5 0 ''ssh2'', opened 2] of Some (_, PcActive _) \<Rightarrow> True | _ \<Rightarrow> False)"
    by (simp add: task_exec)
  then show thesis using that by (auto split: option.splits prod.splits pc.splits)
qed

end
