(* ===== verification/Profile_Properties.thy ===== *)
theory Profile_Properties
  imports Profile_Demo
begin

text \<open>
  What a profile supervisor guarantees over its whole life, whatever inputs arrive.
\<close>

section \<open>Properties\<close>

text \<open>
  C1: in every configuration a supervisor can reach, by any sequence of control messages, backend
  results, probe outcomes and timers: the published state is the state of the machine and the
  event queue holds at most 256 events; the process-wide session table lists exactly this
  profile's current session; a session is listed exactly while the task is opening or holding
  one; the task has ended exactly if its state is \<open>Stopped\<close>; and the states \<open>Disabled\<close>, \<open>Idle\<close>,
  \<open>Authenticating\<close>, \<open>FailingOver\<close> and \<open>Stopping\<close> are never observed at an await point.
\<close>
theorem supervisor_invariant:
  assumes "by_profile name reg = {}" "run (boot name auth auths eps fwds cfg reg) is = Some (t, p)"
  shows "pt_state_tx t = sm_state (pt_sm t) \<and> length (pt_events t) \<le> 256
    \<and> by_profile name (pt_registry t) = set_option (pt_current_session t)
    \<and> (pt_current_session t \<noteq> None \<longleftrightarrow> (\<exists>ep. p = PcOpening ep) \<or> (\<exists>a. p = PcActive a))
    \<and> (p = PcDone \<longleftrightarrow> sm_state (pt_sm t) = S_Stopped)
    \<and> sm_state (pt_sm t) \<notin> {S_Disabled, S_Idle, S_Authenticating, S_FailingOver, S_Stopping}"
proof -
  have inv: "sup_inv (t, p)" using inv_run [OF inv_boot [OF assms(1)] assms(2)] .
  have "pt_name t = name" using assms(2) by (rule run_boot)
  with inv show ?thesis
    by (cases p) (auto simp: sup_inv_def synced_def owns_def st_def between_def
        PROFILE_EVENTS_CHANNEL_CAP_def)
qed

theorem supervisor_invariant_witness:
  "\<exists>t p. run demo [go 1, In_Connected 5 0 ''ssh2'', opened 2] = Some (t, p)
     \<and> by_profile ''p'' (pt_registry t) = set_option (pt_current_session t)"
proof -
  let ?is = "[go 1, In_Connected 5 0 ''ssh2'', opened 2]"
  obtain t a where "run demo ?is = Some (t, PcActive a)" by (rule demo_active)
  with supervisor_invariant [of "''p''" "\<lambda>_. None" 7 "\<lambda>_. None" "[endpoint_new ''a'' 22]" "[]" demo_cfg
      ?is t "PcActive a"]
  show ?thesis by (auto simp: demo_def by_profile_def)
qed

text \<open>
  C3: sessions neither leak nor overlap: over the whole life of a supervisor, sessions strictly
  alternate between coming up and being closed, and a session is open exactly while the task is
  opening its forwards or holding it; in particular a stopped supervisor has closed every session
  it ever established.
\<close>
theorem sessions_never_leak:
  assumes "by_profile name reg = {}" "run (boot name auth auths eps fwds cfg reg) is = Some (t, p)"
  shows "sessions (pt_log t) = Some ((\<exists>ep. p = PcOpening ep) \<or> (\<exists>a. p = PcActive a))"
proof -
  have inv: "sup_inv (t, p)" using inv_run [OF inv_boot [OF assms(1)] assms(2)] .
  have "sessions (pt_log t) = sessions (hist t)" by (simp add: hist_def sessions_filter)
  with inv show ?thesis by (cases p) (simp_all add: sup_inv_def between_def)
qed

theorem sessions_never_leak_witness:
  "\<exists>t. run demo [go 1, In_Connected 5 0 ''ssh2'', opened 2, In_Control (Some C_Shutdown) (Inl no_live_session_err) (\<lambda>_. True)]
       = Some (t, PcDone) \<and> sessions (pt_log t) = Some False"
proof -
  let ?i = "In_Control (Some C_Shutdown) (Inl no_live_session_err) (\<lambda>_. True)"
  let ?is = "[go 1, In_Connected 5 0 ''ssh2'', opened 2, ?i]"
  obtain t0 a where r: "run demo [go 1, In_Connected 5 0 ''ssh2'', opened 2] = Some (t0, PcActive a)"
    by (rule demo_active)
  have "\<exists>t. step (t0, PcActive a) ?i = Some (t, PcDone)"
    by (simp add: step_def active_control_def exit_active_def)
  then obtain t where "run demo ?is = Some (t, PcDone)"
    using run_append [of demo "[go 1, In_Connected 5 0 ''ssh2'', opened 2]" "[?i]"] r by auto
  with sessions_never_leak [of "''p''" "\<lambda>_. None" 7 "\<lambda>_. None" "[endpoint_new ''a'' 22]" "[]" demo_cfg ?is t PcDone]
  show ?thesis by (auto simp: demo_def by_profile_def)
qed

text \<open>
  C21: every connect a supervisor ever makes goes to one of the configured endpoints, with the
  credential configured for exactly that host and port, or the profile's default credential if
  the endpoint has none of its own.
\<close>
theorem connect_credentials:
  assumes "run (boot name auth auths eps fwds cfg reg) is = Some (t, p)"
    "Eff_Connect ep c \<in> set (pt_log t)"
  shows "ep \<in> set eps \<and> c = (case auths (ep_host ep, ep_port ep) of Some a \<Rightarrow> a | None \<Rightarrow> auth)"
proof -
  have "Eff_Connect ep c \<in> set (hist t)" using assms(2) by (simp add: hist_def)
  then show ?thesis
    using run_boot [OF assms(1)] by (auto simp: creds_ok_def auth_for_def)
qed

theorem connect_credentials_witness:
  "\<exists>t p. run demo [go 1] = Some (t, p) \<and> (\<forall>ep c. Eff_Connect ep c \<in> set (pt_log t) \<longrightarrow> c = 7)
     \<and> map_option (list_ex (\<lambda>e. case e of Eff_Connect _ _ \<Rightarrow> True | _ \<Rightarrow> False)) (map_option (pt_log \<circ> fst) (run demo [go 1])) = Some True"
proof -
  have a: "map_option (list_ex (\<lambda>e. case e of Eff_Connect _ _ \<Rightarrow> True | _ \<Rightarrow> False))
      (map_option (pt_log \<circ> fst) (run demo [go 1])) = Some True" by (simp add: task_exec)
  then obtain t p where "run demo [go 1] = Some (t, p)" by (cases "run demo [go 1]") auto
  with a connect_credentials [of "''p''" 7 "\<lambda>_. None" "[endpoint_new ''a'' 22]" "[]" demo_cfg "\<lambda>_. None" "[go 1]" t p]
  show ?thesis by (auto simp: demo_def)
qed

text \<open>
  C18: stopping always works: at every reachable await point that listens to the control channel, a
  shutdown, a drain or a closed channel ends the task in that very step, in state \<open>Stopped\<close>, with
  its row gone from the session table and every session closed.  The one await that does not
  listen, opening the forwards, ends in a listening one whatever the backend answers.
\<close>
theorem stop_always_works:
  assumes "by_profile name reg = {}" "run (boot name auth auths eps fwds cfg reg) is = Some (t, p)"
  shows "(\<forall>i. asks_to_stop i \<and> listens p i \<longrightarrow>
           (\<exists>t'. step (t, p) i = Some (t', PcDone) \<and> sm_state (pt_sm t') = S_Stopped
              \<and> by_profile name (pt_registry t') = {} \<and> sessions (pt_log t') = Some False))
    \<and> (\<forall>ep start now jit. p = PcOpening ep \<longrightarrow>
          (\<exists>t' p'. step (t, p) (In_ForwardsOpened start now jit) = Some (t', p')
             \<and> ((\<exists>a. p' = PcActive a) \<or> (\<exists>d. p' = PcSleeping d))))"
proof (intro conjI allI impI)
  have inv: "sup_inv (t, p)" using inv_run [OF inv_boot [OF assms(1)] assms(2)] .
  fix i assume i: "asks_to_stop i \<and> listens p i"
  then have "step (t, p) i \<noteq> None"
    by (cases i; cases p) (simp_all add: step_def listens_def)
  then obtain t' p' where s: "step (t, p) i = Some (t', p')" by force
  have fin: "p' = PcDone" using asks_to_stop_done [OF _ s] i by simp
  have "pt_name t' = name"
    using step_creds [OF s] run_boot [OF assms(2)] by (simp add: fixed_part_def)
  then have "sm_state (pt_sm t') = S_Stopped \<and> by_profile name (pt_registry t') = {}
      \<and> sessions (pt_log t') = Some False"
    using inv_step [OF inv s] fin by (auto simp: sup_inv_def owns_def st_def hist_def sessions_filter)
  with s fin show "\<exists>t'. step (t, p) i = Some (t', PcDone) \<and> sm_state (pt_sm t') = S_Stopped
      \<and> by_profile name (pt_registry t') = {} \<and> sessions (pt_log t') = Some False" by blast
next
  fix ep start now jit assume "p = PcOpening ep"
  then show "\<exists>t' p'. step (t, p) (In_ForwardsOpened start now jit) = Some (t', p')
      \<and> ((\<exists>a. p' = PcActive a) \<or> (\<exists>d. p' = PcSleeping d))"
    by (cases "forwards_opened start now jit ep t")
      (auto simp: step_def forwards_opened_def sleep_after_def split: sum.splits)
qed

theorem stop_always_works_witness:
  "\<exists>t p t'. run demo [go 1] = Some (t, p)
     \<and> step (t, p) (In_Control (Some (C_Drain 3)) (Inl no_live_session_err) (\<lambda>_. True)) = Some (t', PcDone)
     \<and> sm_state (pt_sm t') = S_Stopped"
proof -
  obtain t ep where r: "run demo [go 1] = Some (t, PcConnecting ep)" by (rule demo_connecting)
  let ?i = "In_Control (Some (C_Drain 3)) (Inl no_live_session_err) (\<lambda>_. True)"
  have "by_profile ''p'' (\<lambda>_. None) = {}" by (simp add: by_profile_def)
  moreover have "asks_to_stop ?i \<and> listens (PcConnecting ep) ?i"
    by (simp add: asks_to_stop_def stop_message_def listens_def)
  ultimately have "\<exists>t'. step (t, PcConnecting ep) ?i = Some (t', PcDone) \<and> sm_state (pt_sm t') = S_Stopped"
    using conjunct1 [OF stop_always_works [OF _ r [unfolded demo_def]], rule_format, of ?i] by blast
  with r show ?thesis by blast
qed



text \<open>
  C35: the attempt budget is exact: with \<open>max_attempts\<close> set, no reachable configuration has used more
  attempts, a retried connect failure uses exactly one (after a reset if the last session was up
  for \<open>reset_after\<close>), and at the loop head the task gives up without connecting exactly when the
  budget is used up and no message stops it first.
\<close>
theorem attempt_budget_exact:
  assumes "by_profile name reg = {}" "run (boot name auth auths eps fwds cfg reg) is = Some (t, p)"
    "m = max_attempts (psc_backoff cfg)" "m \<noteq> 0"
  shows "bo_attempt (pt_backoff t) \<le> m
    \<and> (\<forall>ep e now jit t' d. p = PcConnecting ep \<and>
          step (t, p) (In_ConnectFailed e now jit) = Some (t', PcSleeping d) \<longrightarrow>
          bo_attempt (pt_backoff t') = sat_add u32_max
            (case pt_session_up_since t of
               Some since \<Rightarrow> if reset_after (psc_backoff cfg) \<le> now - since then 0
                             else bo_attempt (pt_backoff t)
             | None \<Rightarrow> bo_attempt (pt_backoff t)) 1)
    \<and> (\<forall>now draw jit t' p'. p = PcLoop \<and> step (t, p) (In_Loop [] now draw jit) = Some (t', p') \<longrightarrow>
          (p' = PcDone \<longleftrightarrow> bo_attempt (pt_backoff t) = m))"
proof (intro conjI allI impI)
  have inv: "sup_inv (t, p)" using inv_run [OF inv_boot [OF assms(1)] assms(2)] .
  have cfg: "pt_cfg t = cfg" using assms(2) by (rule run_boot)
  have kept: "budget_kept t" using inv by (cases p) (auto simp: sup_inv_def between_def budget_left_kept)
  then show le: "bo_attempt (pt_backoff t) \<le> m" using assms(3,4) cfg by (simp add: budget_kept_def)
  fix now draw jit t' p'
  assume s: "p = PcLoop \<and> step (t, p) (In_Loop [] now draw jit) = Some (t', p')"
  have "exhausted (pt_backoff t) \<longleftrightarrow> bo_attempt (pt_backoff t) = m"
    using kept le assms(3,4) cfg by (auto simp: exhausted_def budget_kept_def)
  with s show "p' = PcDone \<longleftrightarrow> bo_attempt (pt_backoff t) = m"
    by (auto simp: step_def loop_head_def sleep_after_def split_beta Let_def split: option.splits)
next
  fix ep e now jit t' d
  assume "p = PcConnecting ep \<and> step (t, p) (In_ConnectFailed e now jit) = Some (t', PcSleeping d)"
  then have "connect_failed e now jit ep t = (t', PcSleeping d)" by (auto simp: step_def)
  moreover have "pt_cfg t = cfg" using assms(2) by (rule run_boot)
  ultimately show "bo_attempt (pt_backoff t') = sat_add u32_max
      (case pt_session_up_since t of
         Some since \<Rightarrow> if reset_after (psc_backoff cfg) \<le> now - since then 0 else bo_attempt (pt_backoff t)
       | None \<Rightarrow> bo_attempt (pt_backoff t)) 1"
    using next_backoff_attempt [of now jit "handle_session_failure now ep (fire E_ConnectFail t)"]
    by (auto simp: connect_failed_def sleep_after_def split: if_splits option.splits cong: option.case_cong)
qed

theorem attempt_budget_exact_witness:
  "\<exists>t. run demo [go 1, In_ConnectFailed (Err_KeepaliveTimeout 5) 2 (\<lambda>_. 0), In_SleepElapsed] = Some (t, PcLoop)
     \<and> bo_attempt (pt_backoff t) \<le> 2
     \<and> (\<forall>t' p'. step (t, PcLoop) (go 9) = Some (t', p') \<longrightarrow> p' \<noteq> PcDone)"
proof -
  obtain t d where r: "run demo [go 1, In_ConnectFailed (Err_KeepaliveTimeout 5) 2 (\<lambda>_. 0)] = Some (t, PcSleeping d)"
    and a: "bo_attempt (pt_backoff t) = 1"
    by (rule demo_retry)
  let ?is = "[go 1, In_ConnectFailed (Err_KeepaliveTimeout 5) 2 (\<lambda>_. 0), In_SleepElapsed]"
  have r': "run demo ?is = Some (t, PcLoop)"
    using run_append [of demo "[go 1, In_ConnectFailed (Err_KeepaliveTimeout 5) 2 (\<lambda>_. 0)]" "[In_SleepElapsed]"] r
    by (simp add: step_def)
  have m: "2 = max_attempts (psc_backoff demo_cfg)" and p: "by_profile ''p'' (\<lambda>_. None) = {}"
    by (simp_all add: demo_cfg_def by_profile_def)
  have "bo_attempt (pt_backoff t) \<le> 2
      \<and> (\<forall>t' p'. step (t, PcLoop) (In_Loop [] 9 (\<lambda>_. 0) (\<lambda>_. 0)) = Some (t', p') \<longrightarrow>
            (p' = PcDone \<longleftrightarrow> bo_attempt (pt_backoff t) = 2))"
    using attempt_budget_exact [OF p r' [unfolded demo_def] m] by simp
  with r' a show ?thesis by (simp add: go_def)
qed

section \<open>No teardown storm\<close>

text \<open>
  an instability action never tears down live sessions in quick succession: between two probes
  that each end a live session by a failover or restart action there are at least ten seconds,
  whatever happens in between, reconnects included, as long as the clock does not run backwards.
\<close>
theorem instability_teardowns_spaced:
  assumes "live_teardown s1 i1" "run s1 (i1 # is) = Some s2" "live_teardown s2 i2"
    "input_time i1 = Some t1" "input_time i2 = Some t2" "\<forall>i\<in>set is. not_before t1 i"
  shows "t1 + from_secs 10 \<le> t2"
proof -
  from assms(1) obtain s where s: "step s1 i1 = Some s" "acted_since t1 (fst s)"
    using assms(4) by (auto elim: live_teardown_clock)
  with assms(2) have "run s is = Some s2" by simp
  with s(2) assms(6) have "acted_since t1 (fst s2)" by (blast intro: acted_run)
  with assms(3,5) show ?thesis by (auto elim: live_teardown_clock)
qed

text \<open>The concrete supervisor trips, reconnects, calms down and trips again.\<close>

definition steady :: "InstabilityDetector \<Rightarrow> instant option \<Rightarrow> nat ProfileTask \<Rightarrow> bool" where
  "steady d act t \<longleftrightarrow> pt_cfg t = demo_cfg \<and> pt_forwards t = [] \<and> \<not> exhausted (pt_backoff t)
     \<and> endpoints_of t \<noteq> [] \<and> es_manual (pt_selector t) = None \<and> es_mode (pt_selector t) \<noteq> FM_Manual
     \<and> pt_instability t = d \<and> pt_last_instability_action t = act"

lemma demo_steady:
  obtains t a where "run demo [go 1, In_Connected 5 0 ''ssh2'', opened 2] = Some (t, PcActive a)"
    "steady (detector_new (psc_instability demo_cfg)) None t"
proof -
  have "(case run demo [go 1, In_Connected 5 0 ''ssh2'', opened 2] of
           Some (t, PcActive _) \<Rightarrow> steady (detector_new (psc_instability demo_cfg)) None t | _ \<Rightarrow> False)"
    by (simp add: task_exec steady_def endpoints_of_def)
  then show thesis using that by (auto split: option.splits prod.splits pc.splits)
qed

lemma steady_loop:
  assumes "steady d act t"
  shows "\<exists>t' ep. step (t, PcLoop) (go n) = Some (t', PcConnecting ep) \<and> steady d act t'"
proof -
  obtain ep where "fst (pick_endpoint (\<lambda>_. 0) n (enter_resolving t)) = Some ep"
    using assms pick_endpoint_exists [of "enter_resolving t" "\<lambda>_. 0" n] by (auto simp: steady_def)
  with assms show ?thesis
    by (auto simp: steady_def go_def step_def loop_head_def pick_endpoint_def split_beta Let_def
        endpoints_of_def)
qed

lemma steady_connected:
  assumes "steady d act t"
  shows "\<exists>t' a. run (t, PcConnecting ep) [In_Connected 5 0 ''ssh2'', opened n] = Some (t', PcActive a) \<and> steady d act t'"
  using assms
  by (auto simp: steady_def opened_def step_def connected_def forwards_opened_def publish_session_def Let_def
      endpoints_of_def Failover.record_success_def set_manual_def)

lemma steady_trip:
  assumes "steady d act t" "record_probe (Some r) d = (True, d')"
    "case act of None \<Rightarrow> True | Some x \<Rightarrow> from_secs 10 \<le> now - x"
  shows "\<exists>t'. step (t, PcActive a) (In_Probe (Some r) now jit) = Some (t', PcSleeping 0) \<and> steady d' (Some now) t'"
  using assms
  by (auto simp: steady_def step_def probe_ok_def on_instability_trip_def allow_instability_action_def
      instability_action_def retry_active_def split_beta Let_def demo_cfg_def
      INSTABILITY_ACTION_MIN_INTERVAL_def endpoints_of_def split: option.splits)

lemma steady_calm:
  assumes "steady d act t" "record_probe (Some r) d = (False, d')"
  shows "\<exists>t'. step (t, PcActive a) (In_Probe (Some r) now jit) = Some (t', PcActive a)
    \<and> steady (snd (tick_healthy now d')) act t'"
  using assms
  by (auto simp: steady_def step_def probe_ok_def clear_instability_def split_beta Let_def endpoints_of_def)

abbreviation probe_at :: "instant \<Rightarrow> input" where
  "probe_at now \<equiv> In_Probe (Some 22) now (\<lambda>_. 0)"

lemma demo_detector:
  fixes d0 d1 :: InstabilityDetector
  defines "d0 \<equiv> detector_new (psc_instability demo_cfg)"
    and "d1 \<equiv> d0\<lparr>det_triggered := True, det_latency := [22]\<rparr>"
  shows "record_probe (Some 22) d0 = (True, d1)"
    "\<exists>d2. record_probe (Some 22) d1 = (False, d2) \<and> (\<exists>d3. record_probe (Some 22) (snd (tick_healthy 6 d2)) = (False, d3)
        \<and> (\<exists>d4. record_probe (Some 22) (snd (tick_healthy 7 d3)) = (True, d4)))"
  unfolding d1_def d0_def
  by (simp_all add: detector_new_def demo_cfg_def default_supervisor_config_def
      default_instability_window_def record_probe_def latency_record_def p95_def LATENCY_WINDOW_def
      tick_healthy_def)

theorem instability_teardowns_spaced_witness:
  "\<exists>s1 s2. live_teardown s1 (probe_at 3)
     \<and> run s1 [probe_at 3, In_SleepElapsed, go 4, In_Connected 5 0 ''ssh2'', opened 5, probe_at 6, probe_at 7] = Some s2
     \<and> live_teardown (s2 :: nat ProfileTask \<times> pc) (probe_at (from_secs 20)) \<and> 3 + from_secs 10 \<le> from_secs 20"
proof -
  let ?d0 = "detector_new (psc_instability demo_cfg)"
  let ?d1 = "?d0\<lparr>det_triggered := True, det_latency := [22]\<rparr>"
  obtain d2 d3 d4 where d: "record_probe (Some 22) ?d1 = (False, d2)"
      "record_probe (Some 22) (snd (tick_healthy 6 d2)) = (False, d3)"
      "record_probe (Some 22) (snd (tick_healthy 7 d3)) = (True, d4)"
    using demo_detector(2) by blast
  obtain t0 and a0 :: ActiveState where s0: "steady ?d0 None t0" by (rule demo_steady)
  obtain t1 where s1: "step (t0, PcActive a0) (probe_at 3) = Some (t1, PcSleeping 0)" "steady ?d1 (Some 3) t1"
    using steady_trip [OF s0 demo_detector(1)] by fastforce
  obtain t2 e2 where s2: "step (t1, PcLoop) (go 4) = Some (t2, PcConnecting e2)" "steady ?d1 (Some 3) t2"
    using steady_loop [OF s1(2)] by blast
  obtain t3 a3 where s3: "run (t2, PcConnecting e2) [In_Connected 5 0 ''ssh2'', opened 5] = Some (t3, PcActive a3)"
      "steady ?d1 (Some 3) t3"
    using steady_connected [OF s2(2)] by blast
  obtain t4 where s4: "step (t3, PcActive a3) (probe_at 6) = Some (t4, PcActive a3)"
      "steady (snd (tick_healthy 6 d2)) (Some 3) t4"
    using steady_calm [OF s3(2) d(1)] by blast
  obtain t5 where s5: "step (t4, PcActive a3) (probe_at 7) = Some (t5, PcActive a3)"
      "steady (snd (tick_healthy 7 d3)) (Some 3) t5"
    using steady_calm [OF s4(2) d(2)] by blast
  have "from_secs 10 \<le> from_secs 20 - 3" by (simp add: from_secs_def)
  then obtain t6 where s6: "step (t5, PcActive a3) (probe_at (from_secs 20)) = Some (t6, PcSleeping 0)"
    using steady_trip [OF s5(2) d(3)] by fastforce
  let ?is = "[In_SleepElapsed, go 4, In_Connected 5 0 ''ssh2'', opened 5, probe_at 6, probe_at 7]"
  have "step (t1, PcSleeping 0) In_SleepElapsed = Some (t1, PcLoop)" by (simp add: step_def)
  then have r: "run (t0, PcActive a0) (probe_at 3 # ?is) = Some (t5, PcActive a3)"
    using s1(1) s2(1) s3(1) s4(1) s5(1)
      run_append [of "(t2, PcConnecting e2)" "[In_Connected 5 0 ''ssh2'', opened 5]" "[probe_at 6, probe_at 7]"]
    by simp
  have live: "live_teardown (t0, PcActive a0) (probe_at 3)" "live_teardown (t5, PcActive a3) (probe_at (from_secs 20))"
    using s1(1) s6 by (simp_all add: live_teardown_def)
  have "\<forall>i\<in>set ?is. not_before 3 i" by (simp add: not_before_def go_def opened_def)
  with instability_teardowns_spaced [OF live(1) r live(2)] have "3 + from_secs 10 \<le> from_secs 20" by simp
  with live r show ?thesis by blast
qed

end
