(* ===== verification/Profile_Failover.thy ===== *)
theory Profile_Failover
  imports Profile_Demo
begin

text \<open>
  How the profile task drives its endpoint selector.  Every step touches the selector only through
  the selector's own operations, and sets the manual pin only on a failover request; so a run of
  the task is a run of the selector, and the selector's facts carry over.  From this follow what a
  failover request does, and when the loop head connects.
\<close>

section \<open>A run of the task is a run of the selector\<close>

text \<open>
  Which selector operations a stretch of the task may use: the pin only on request, a success only
  for the given hosts and ports.
\<close>

definition allowed :: "bool \<Rightarrow> (string \<times> nat) set \<Rightarrow> fo_op \<Rightarrow> bool" where
  "allowed ovr known x =
     (case x of FO_Manual _ \<Rightarrow> ovr | FO_Success h p \<Rightarrow> (h, p) \<in> known | _ \<Rightarrow> True)"

definition drives :: "bool \<Rightarrow> (string \<times> nat) set \<Rightarrow> 'a ProfileTask \<Rightarrow> 'a ProfileTask \<Rightarrow> bool" where
  "drives ovr known t t' \<longleftrightarrow>
     (\<exists>ops. pt_selector t' = fo_run (pt_selector t) ops \<and> list_all (allowed ovr known) ops)"

definition is_failover :: "Control \<Rightarrow> bool" where
  "is_failover c = (case c of C_Failover _ \<Rightarrow> True | _ \<Rightarrow> False)"

text \<open>The inputs that carry a failover request.\<close>

definition overrides :: "input \<Rightarrow> bool" where
  "overrides i =
     (case i of
        In_Loop msgs _ _ _ \<Rightarrow> list_ex is_failover msgs
      | In_Control (Some c) _ _ \<Rightarrow> is_failover c
      | _ \<Rightarrow> False)"

lemma fo_run_append [simp]: "fo_run s (xs @ ys) = fo_run (fo_run s xs) ys"
  by (simp add: fo_run_def)

lemma drives_same: "pt_selector t' = pt_selector t \<Longrightarrow> drives ovr known t t'"
  unfolding drives_def by (rule exI [of _ "[]"]) simp

lemma drives_op: "pt_selector t' = fo_apply (pt_selector t) x \<Longrightarrow> allowed ovr known x \<Longrightarrow> drives ovr known t t'"
  unfolding drives_def by (rule exI [of _ "[x]"]) auto

lemma drives_trans: "drives ovr known t1 t2 \<Longrightarrow> drives ovr known t2 t3 \<Longrightarrow> drives ovr known t1 t3"
  unfolding drives_def by (metis fo_run_append list_all_append)

lemma drives_mono:
  assumes "drives ovr known t t'" "ovr \<Longrightarrow> ovr'" "known \<subseteq> known'"
  shows "drives ovr' known' t t'"
proof -
  have "list_all (allowed ovr' known') ops" if "list_all (allowed ovr known) ops" for ops
    using that by (rule list.pred_mono_strong) (use assms(2,3) in \<open>auto simp: allowed_def split: fo_op.splits\<close>)
  with assms(1) show ?thesis by (auto simp: drives_def)
qed

lemma drives_cong: "drives ovr known t t1 \<Longrightarrow> pt_selector t2 = pt_selector t1 \<Longrightarrow> drives ovr known t t2"
  by (simp add: drives_def)

lemma drives_failure:
  "pt_selector t' = Failover.record_failure h p now (pt_selector t) \<Longrightarrow> drives ovr known t t'"
  by (rule drives_op [of _ _ "FO_Failure h p now"]) (simp_all add: allowed_def)

lemma drives_success:
  "pt_selector t' = Failover.record_success h p (pt_selector t) \<Longrightarrow> drives ovr {(h, p)} t t'"
  by (rule drives_op [of _ _ "FO_Success h p"]) (simp_all add: allowed_def)

lemma drives_override: "drives True known t (snd (apply_manual_override ov t))"
  by (auto simp: apply_manual_override_def split: option.splits sum.splits
      intro: drives_same drives_op [of _ _ "FO_Manual None"] drives_op [of _ _ "FO_Manual (Some m)" for m]
      simp: allowed_def)

lemma drives_idle: "drives (is_failover c) known t (snd (handle_control_idle c t))"
  by (auto simp: handle_control_idle_def is_failover_def split_beta Let_def split: Control.splits
      intro: drives_same drives_cong [OF drives_override])

lemma drives_drain: "drives (list_ex is_failover ms) known t (snd (drain_pending ms t))"
proof (induction ms arbitrary: t)
  case (Cons m ms)
  have "drives (list_ex is_failover (m # ms)) known t (snd (handle_control_idle m t))"
    by (rule drives_mono [OF drives_idle _ subset_refl]) simp
  moreover have "drives (list_ex is_failover (m # ms)) known (snd (handle_control_idle m t))
      (snd (drain_pending ms (snd (handle_control_idle m t))))"
    by (rule drives_mono [OF Cons.IH _ subset_refl]) simp
  ultimately show ?case by (auto simp: split_beta Let_def intro: drives_trans)
qed (simp add: drives_same)

lemma drives_pick: "drives ovr known t (snd (pick_endpoint draw now t))"
  by (rule drives_op [of _ _ "FO_Pick draw now"]) (simp_all add: pick_endpoint_def allowed_def split_beta Let_def)

lemma drives_loop_head: "drives (list_ex is_failover msgs) known t (fst (loop_head msgs now draw jit t))"
proof -
  let ?t1 = "snd (drain_pending msgs t)"
  let ?t2 = "snd (pick_endpoint draw now (enter_resolving ?t1))"
  have "drives (list_ex is_failover msgs) known t (enter_resolving ?t1)"
    by (rule drives_cong [OF drives_drain]) simp
  then have "drives (list_ex is_failover msgs) known t ?t2" using drives_pick by (rule drives_trans)
  then show ?thesis
    by (auto simp: loop_head_def sleep_after_def split_beta Let_def split: option.splits
        intro: drives_cong drives_cong [OF drives_drain])
qed

lemma selector_failure [simp]:
  "pt_selector (handle_session_failure now ep t)
     = Failover.record_failure (ep_host ep) (ep_port ep) now (pt_selector t)"
  by (simp add: handle_session_failure_def split_beta Let_def)

lemma selector_misc [simp]:
  "pt_selector (publish_session sid utc backend ep t) = pt_selector t"
  "pt_selector (close_session t) = pt_selector t"
  by (simp_all add: publish_session_def close_session_def)

lemma drives_connected: "drives ovr {(ep_host ep, ep_port ep)} t (fst (connected sid utc backend ep t))"
  by (rule drives_success) (simp add: connected_def Let_def)

lemma drives_connect_failed: "drives ovr known t (fst (connect_failed e now jit ep t))"
  by (rule drives_failure [of _ "ep_host ep" "ep_port ep" now]) (simp add: connect_failed_def sleep_after_def)

lemma drives_forwards_opened: "drives ovr known t (fst (forwards_opened start now jit ep t))"
  by (auto simp: forwards_opened_def sleep_after_def split: sum.splits
      intro: drives_same drives_failure)

lemma drives_session_lost: "drives ovr known t (fst (session_lost now jit a t))"
  by (auto simp: session_lost_def retry_active_def split_beta Let_def split: option.splits
      intro: drives_same drives_failure)

lemma drives_instability_action: "drives ovr known t (fst (instability_action cool now a t))"
  by (auto simp: instability_action_def retry_active_def Let_def split: option.splits
      intro: drives_same drives_failure)

lemma drives_from: "pt_selector t1 = pt_selector t \<Longrightarrow> drives ovr known t1 t' \<Longrightarrow> drives ovr known t t'"
  by (simp add: drives_def)

lemma drives_probe_ok: "drives ovr known t (fst (probe_ok rtt now a t))"
  by (auto simp: probe_ok_def split_beta Let_def split: InstabilityOutcome.splits
      intro: drives_same drives_from [OF _ drives_instability_action])

lemma drives_probe_failed: "drives ovr known t (fst (probe_failed now jit a t))"
  by (auto simp: probe_failed_def split_beta Let_def intro: drives_from [OF _ drives_session_lost])

lemma drives_forward_changed: "drives ovr known t (fst (forward_changed idx now a t))"
  by (rule drives_same) (simp add: forward_changed_def Let_def)

lemma drives_reopen_tick: "drives ovr known t (fst (reopen_tick start now a t))"
  by (rule drives_same) (simp add: reopen_tick_def Let_def)

lemma drives_control:
  "drives (is_failover c) known t (fst (connecting_control (Some c) t))"
  "drives (is_failover c) known t (fst (sleep_control (Some c) t))"
  "drives (is_failover c) known t (fst (active_control (Some c) bench completed a t))"
  by (cases c; auto simp: connecting_control_def sleep_control_def active_control_def exit_active_def
      retry_active_def is_failover_def split_beta Let_def
      intro: drives_same drives_cong [OF drives_override])+

lemma drives_closed:
  "drives ovr known t (fst (connecting_control None t))" "drives ovr known t (fst (sleep_control None t))"
  "drives ovr known t (fst (active_control None bench completed a t))"
  by (simp_all add: drives_same connecting_control_def sleep_control_def active_control_def exit_active_def)

lemmas drives_handlers =
  drives_connected drives_connect_failed drives_forwards_opened drives_probe_ok drives_probe_failed
  drives_forward_changed drives_reopen_tick drives_control drives_closed drives_loop_head

definition connecting_to :: "pc \<Rightarrow> (string \<times> nat) set" where
  "connecting_to p = (case p of PcConnecting ep \<Rightarrow> {(ep_host ep, ep_port ep)} | _ \<Rightarrow> {})"

lemma step_drives:
  assumes "step (t, p) i = Some s'"
  shows "drives (overrides i) (connecting_to p) t (fst s')"
proof (cases i)
  case (In_Control c bench completed)
  with assms show ?thesis
    by (cases c; cases p) (auto simp: step_def overrides_def intro: drives_handlers)
qed (use assms in \<open>auto simp: step_def overrides_def drives_same connecting_to_def
  split: pc.splits option.splits if_splits intro: drives_handlers\<close>)

text \<open>The endpoint being connected to is a configured one.\<close>

definition addresses :: "'a ProfileTask \<Rightarrow> (string \<times> nat) set" where
  "addresses t = (\<lambda>ep. (ep_host ep, ep_port ep)) ` set (endpoints_of t)"

lemma loop_head_known:
  "snd (loop_head msgs now draw jit t) = PcConnecting ep \<Longrightarrow> ep \<in> set (endpoints_of t)"
  using pick_endpoint_mem [of draw now "enter_resolving (snd (drain_pending msgs t))" ep]
  by (auto simp: loop_head_def sleep_after_def split_beta Let_def split: if_splits option.splits)

lemma step_endpoints:
  assumes "step (t, p) i = Some s'"
  shows "endpoints_of (fst s') = endpoints_of t"
proof -
  obtain ops where "pt_selector (fst s') = fo_run (pt_selector t) ops"
    using step_drives [OF assms] by (auto simp: drives_def)
  moreover have "map ee_ep (es_entries (fo_run s ops)) = map ee_ep (es_entries s)" for s
    by (induction ops arbitrary: s) simp_all
  ultimately show ?thesis by (simp add: endpoints_of_def)
qed

lemma step_known:
  assumes "step (t, p) i = Some (t', p')" "connecting_to p \<subseteq> addresses t"
  shows "connecting_to p' \<subseteq> addresses t'"
proof (cases p')
  case (PcConnecting ep)
  have "p = PcConnecting ep \<or> (\<exists>msgs now draw jit. snd (loop_head msgs now draw jit t) = PcConnecting ep)"
    using assms(1) unfolding PcConnecting
    by (cases i; cases p) (auto simp: step_def connecting_control_def sleep_control_def active_control_def
        exit_active_def retry_active_def connected_def connect_failed_def forwards_opened_def sleep_after_def
        probe_ok_def probe_failed_def session_lost_def instability_action_def forward_changed_def
        reopen_tick_def split_beta Let_def
        split: option.splits Control.splits if_splits sum.splits InstabilityOutcome.splits, metis snd_conv)
  then show ?thesis
    using assms(2) step_endpoints [OF assms(1)] loop_head_known [of _ _ _ _ t ep]
    by (auto simp: PcConnecting connecting_to_def addresses_def)
qed (simp_all add: connecting_to_def)

lemma run_drives:
  assumes "run (t, p) is = Some (t', p')" "connecting_to p \<subseteq> addresses t"
  shows "drives (list_ex overrides is) (addresses t) t t' \<and> connecting_to p' \<subseteq> addresses t'"
  using assms
proof (induction "is" arbitrary: t p)
  case (Cons i "is")
  then obtain t1 p1 where s: "step (t, p) i = Some (t1, p1)" "run (t1, p1) is = Some (t', p')"
    by (auto split: option.splits)
  have eq: "addresses t1 = addresses t" using step_endpoints [OF s(1)] by (simp add: addresses_def)
  have "drives (list_ex overrides (i # is)) (addresses t) t t1"
    using drives_mono [OF step_drives [OF s(1)] _ Cons.prems(2)] by simp
  moreover note IH = Cons.IH [OF s(2) step_known [OF s(1) Cons.prems(2)]]
  have "drives (list_ex overrides (i # is)) (addresses t) t1 t'"
    using drives_mono [OF conjunct1 [OF IH], of "list_ex overrides (i # is)" "addresses t"] by (simp add: eq)
  ultimately show ?case using IH drives_trans by blast
qed (auto simp: drives_same)

section \<open>What the selector keeps\<close>

text \<open>A pin that names no configured endpoint.\<close>

definition unknown_pin :: "EndpointSelector \<Rightarrow> bool" where
  "unknown_pin s =
     (case es_manual s of
        None \<Rightarrow> False
      | Some m \<Rightarrow> \<not> list_ex (is_entry (mo_host m) (mo_port m)) (es_entries s))"

lemma is_entry_by_endpoint:
  "list_ex (is_entry h p) es \<longleftrightarrow> (\<exists>ep\<in>set (map ee_ep es). ep_host ep = h \<and> ep_port ep = p)"
  by (auto simp: list_ex_iff is_entry_def)

lemma fo_apply_mode: "es_mode (fo_apply s x) = es_mode s"
  by (cases x) (simp_all add: Failover.record_success_def Failover.record_failure_def set_manual_def Let_def)

lemma fo_apply_no_policy: "es_policy s = None \<Longrightarrow> es_policy (fo_apply s x) = None"
  by (cases x) (auto simp: Failover.record_success_def Failover.record_failure_def set_manual_def Let_def
      Failover.pick_def pick_unpinned_def pick_via_policy_def split: option.splits)

lemma fo_apply_unknown_pin:
  assumes "allowed False ((\<lambda>ep. (ep_host ep, ep_port ep)) ` set (map ee_ep (es_entries s))) x" "unknown_pin s"
  shows "unknown_pin (fo_apply s x)"
proof -
  obtain m where m: "es_manual s = Some m" "\<not> list_ex (is_entry (mo_host m) (mo_port m)) (es_entries s)"
    using assms(2) by (auto simp: unknown_pin_def split: option.splits)
  have "es_manual (fo_apply s x) = es_manual s"
    using m assms(1) by (cases x) (auto simp: allowed_def Failover.record_failure_def
        Failover.record_success_def is_entry_by_endpoint Let_def)
  with m fo_apply_endpoints [of s x] show ?thesis by (simp add: unknown_pin_def is_entry_by_endpoint)
qed

lemma fo_run_keeps:
  "es_mode (fo_run s ops) = es_mode s" "es_policy s = None \<Longrightarrow> es_policy (fo_run s ops) = None"
  "list_all (allowed False ((\<lambda>ep. (ep_host ep, ep_port ep)) ` set (map ee_ep (es_entries s)))) ops \<Longrightarrow>
     unknown_pin s \<Longrightarrow> unknown_pin (fo_run s ops)"
  by (induction ops arbitrary: s) (simp_all add: fo_apply_mode fo_apply_no_policy fo_apply_unknown_pin
      del: set_map fo_apply.simps)

lemma boot_selector:
  assumes "run (boot name auth auths eps fwds cfg reg) is = Some (t, p)"
  shows "es_mode (pt_selector t) = psc_failover_mode cfg" "es_policy (pt_selector t) = None"
    "connecting_to p \<subseteq> addresses t"
proof -
  obtain t0 where b: "boot name auth auths eps fwds cfg reg = (t0, PcLoop)"
    by (simp add: boot_def run_prologue_def)
  have "es_mode (pt_selector (fst (boot name auth auths eps fwds cfg reg))) = psc_failover_mode cfg
      \<and> es_policy (pt_selector (fst (boot name auth auths eps fwds cfg reg))) = None"
    by (simp add: boot_def run_prologue_def spawn_with_auth_def warn_unsupported_config_def
        warn_config_def Let_def with_cooldown_def with_fail_after_def selector_new_def)
  then have s0: "es_mode (pt_selector t0) = psc_failover_mode cfg" "es_policy (pt_selector t0) = None"
    by (simp_all add: b)
  have "drives (list_ex overrides is) (addresses t0) t0 t \<and> connecting_to p \<subseteq> addresses t"
    by (rule run_drives [OF assms [unfolded b]]) (simp add: connecting_to_def)
  then show "es_mode (pt_selector t) = psc_failover_mode cfg" "es_policy (pt_selector t) = None"
    "connecting_to p \<subseteq> addresses t"
    using s0 by (auto simp: drives_def fo_run_keeps)
qed

section \<open>When the loop head connects\<close>

lemma list_ex_find: "list_ex P xs \<longleftrightarrow> List.find P xs \<noteq> None"
  by (auto simp: find_None_iff list_ex_iff)

lemma pick_fails_iff:
  assumes "es_policy s = None"
  shows "(\<exists>err. fst (Failover.pick draw now s) = Inl err) \<longleftrightarrow>
    es_entries s = [] \<or> unknown_pin s \<or> (es_mode s = FM_Manual \<and> \<not> pin_usable now s)"
proof (cases "es_entries s = []")
  case False
  have unpinned: "(\<exists>err. fst (pick_unpinned draw now s) = Inl err) \<longleftrightarrow> es_mode s = FM_Manual"
    using pick_unpinned_outcome [OF False, of draw now] assms
    by (auto simp: fst_pick_unpinned pick_via_policy_def pick_by_mode_def split: sum.splits)
  show ?thesis
  proof (cases "es_manual s")
    case None
    with False unpinned show ?thesis by (auto simp: Failover.pick_def unknown_pin_def pin_usable_def)
  next
    case (Some m)
    then show ?thesis
      using False unpinned
      by (cases "List.find (is_entry (mo_host m) (mo_port m)) (es_entries s)")
        (auto simp: Failover.pick_def unknown_pin_def pin_usable_def list_ex_find)
  qed
qed (simp add: Failover.pick_def)

lemma pick_endpoint_none_iff:
  assumes "es_policy (pt_selector t) = None"
  shows "fst (pick_endpoint draw now t) = None \<longleftrightarrow>
    endpoints_of t = [] \<or> unknown_pin (pt_selector t)
    \<or> (es_mode (pt_selector t) = FM_Manual \<and> \<not> pin_usable now (pt_selector t))"
  using pick_fails_iff [OF assms, of draw now]
  by (auto simp: pick_endpoint_def endpoints_of_def split_beta Let_def split: sum.splits)

lemma loop_head_quiet:
  assumes "es_policy (pt_selector t) = None"
  shows "snd (loop_head [] now draw jit t) =
    (if exhausted (pt_backoff t) then PcDone
     else case fst (pick_endpoint draw now (enter_resolving t)) of
       None \<Rightarrow> PcSleeping (fst (next_backoff now jit
                 (fire E_FailoverPick (snd (pick_endpoint draw now (enter_resolving t))))))
     | Some ep \<Rightarrow> PcConnecting ep)"
  by (simp add: loop_head_def sleep_after_def split_beta Let_def split: option.splits)

section \<open>Overrides\<close>

lemma parse_endpoint_key_print:
  "p \<le> u16_max \<Longrightarrow> parse_endpoint_key (h @ '':'' @ dec p) = Inr (h, p)"
  using rsplit_once_notin [of "CHR '':''" "dec p" h] by (simp add: parse_endpoint_key_def parse_uint_dec)

definition is_connect :: "'a Effect \<Rightarrow> bool" where
  "is_connect e = (case e of Eff_Connect _ _ \<Rightarrow> True | _ \<Rightarrow> False)"

definition connects :: "'a ProfileTask \<Rightarrow> 'a Effect list" where
  "connects t = filter is_connect (pt_log t)"

lemma connects_hist: "connects t = filter is_connect (hist t)"
proof -
  have "is_connect e = (is_key e \<and> is_connect e)" for e :: "'b Effect"
    by (cases e) (simp_all add: is_connect_def)
  then show ?thesis unfolding connects_def hist_def by (auto simp: filter_filter intro: filter_cong)
qed

lemma quiet_connects: "quiet t t' \<Longrightarrow> connects t' = connects t"
  by (auto simp: quiet_def connects_hist is_connect_def split: Effect.splits)

lemma wedged_step:
  assumes "step (t, p) i = Some (t', p')" "unknown_pin (pt_selector t)" "\<not> overrides i"
    "connecting_to p \<subseteq> addresses t" "es_policy (pt_selector t) = None"
  shows "connects t' = connects t \<and> unknown_pin (pt_selector t') \<and> es_policy (pt_selector t') = None"
proof (intro conjI)
  from step_drives [OF assms(1)] assms(3) have "drives False (addresses t) t t'"
    using assms(4) by (auto intro: drives_mono)
  then show "unknown_pin (pt_selector t')" "es_policy (pt_selector t') = None"
    using assms(2,5) by (auto simp: drives_def addresses_def endpoints_of_def fo_run_keeps)
  show "connects t' = connects t"
    using step_quiet [OF assms(1)]
  proof
    assume "\<exists>msgs now draw jit. i = In_Loop msgs now draw jit \<and> p = PcLoop \<and> (t', p') = loop_head msgs now draw jit t"
    then obtain msgs now draw jit where i: "i = In_Loop msgs now draw jit"
      and h: "(t', p') = loop_head msgs now draw jit t" by blast
    let ?t1 = "enter_resolving (snd (drain_pending msgs t))"
    from i assms(3) have "drives False (addresses t) t (snd (drain_pending msgs t))"
      using drives_drain [of msgs "addresses t" t] by (simp add: overrides_def)
    then have "unknown_pin (pt_selector ?t1)" "es_policy (pt_selector ?t1) = None"
      using assms(2,5) by (auto simp: drives_def addresses_def endpoints_of_def fo_run_keeps)
    then have "fst (pick_endpoint draw now ?t1) = None" by (simp add: pick_endpoint_none_iff)
    with h show ?thesis
      by (auto simp: loop_head_def sleep_after_def connects_hist split_beta Let_def split: if_splits)
  qed (simp add: quiet_connects)
qed

lemma wedged_run:
  assumes "run (t, p) is = Some (t', p')" "unknown_pin (pt_selector t)" "\<not> list_ex overrides is"
    "connecting_to p \<subseteq> addresses t" "es_policy (pt_selector t) = None"
  shows "connects t' = connects t"
  using assms
proof (induction "is" arbitrary: t p)
  case (Cons i "is")
  then obtain t1 p1 where s: "step (t, p) i = Some (t1, p1)" "run (t1, p1) is = Some (t', p')"
    by (auto split: option.splits)
  have "connects t1 = connects t \<and> unknown_pin (pt_selector t1) \<and> es_policy (pt_selector t1) = None"
    using wedged_step [OF s(1)] Cons.prems by simp
  moreover have "connecting_to p1 \<subseteq> addresses t1" using step_known [OF s(1) Cons.prems(4)] .
  ultimately show ?case using Cons.IH [OF s(2)] Cons.prems(3) by simp
qed simp

lemma failover_control:
  assumes "step (t, p) (In_Control (Some (C_Failover ov)) bench completed) = Some (t', p')"
  shows "pt_selector t' = pt_selector (snd (apply_manual_override ov t)) \<and> connects t' = connects t
    \<and> pt_backoff t' = pt_backoff t
    \<and> p' = (case p of PcActive _ \<Rightarrow> PcSleeping 0 | _ \<Rightarrow> PcLoop)"
  using assms step_quiet [OF assms, THEN disjE, OF quiet_connects]
  by (cases p) (auto simp: step_def connecting_control_def sleep_control_def active_control_def
      retry_active_def split_beta Let_def)

section \<open>Properties\<close>



text \<open>
  a failover request that names a configured endpoint is honoured: whether it arrives while
  connecting, with a live session or during a backoff sleep, the next pick connects to exactly the
  named host and port, as long as that endpoint is not cooling down and attempts are left.
\<close>
theorem failover_override_honoured:
  assumes "run (boot name auth auths eps fwds cfg reg) is = Some (t, p)"
    "ep \<in> set eps" "ep_port ep \<le> u16_max"
    "(\<exists>e. p = PcConnecting e) \<or> (\<exists>a. p = PcActive a) \<or> (\<exists>d. p = PcSleeping d)"
    "\<not> exhausted (pt_backoff t)"
    "\<forall>e\<in>set (es_entries (pt_selector t)). is_entry (ep_host ep) (ep_port ep) e \<longrightarrow> eligible now e"
  shows "\<exists>t' ep'. run (t, p) (In_Control (Some (C_Failover (Some (endpoint_id ep)))) bench completed
        # (case p of PcActive _ \<Rightarrow> [In_SleepElapsed] | _ \<Rightarrow> []) @ [In_Loop [] now draw jit])
      = Some (t', PcConnecting ep') \<and> ep_host ep' = ep_host ep \<and> ep_port ep' = ep_port ep"
proof -
  let ?i = "In_Control (Some (C_Failover (Some (endpoint_id ep)))) bench completed"
  have "step (t, p) ?i \<noteq> None" using assms(4) by (auto simp: step_def)
  then obtain t1 p1 where s: "step (t, p) ?i = Some (t1, p1)" by force
  note c = failover_control [OF s]
  have sel: "pt_selector t1 = set_manual (Some \<lparr>mo_host = ep_host ep, mo_port = ep_port ep\<rparr>) (pt_selector t)"
    using c parse_endpoint_key_print [OF assms(3), of "ep_host ep"]
    by (simp add: apply_manual_override_def endpoint_id_def)
  have "map ee_ep (es_entries (pt_selector t)) = eps"
    using run_boot [OF assms(1)] by (simp add: endpoints_of_def)
  then obtain e where e: "e \<in> set (es_entries (pt_selector t))" "is_entry (ep_host ep) (ep_port ep) e"
    using assms(2) by (auto simp: is_entry_def)
  obtain e' where f: "List.find (is_entry (ep_host ep) (ep_port ep)) (es_entries (pt_selector t)) = Some e'"
    using e by (cases "List.find (is_entry (ep_host ep) (ep_port ep)) (es_entries (pt_selector t))")
      (auto simp: find_None_iff)
  then have e': "is_entry (ep_host ep) (ep_port ep) e'" "eligible now e'"
    using assms(6) find_Some_mem [OF f] by auto
  have "fst (pick_endpoint draw now (enter_resolving t1)) = Some (ee_ep e')"
    using e(1) f e' by (auto simp: pick_endpoint_def sel Failover.pick_def set_manual_def Let_def)
  moreover have "es_policy (pt_selector t1) = None" using boot_selector [OF assms(1)] by (simp add: sel set_manual_def)
  ultimately have "snd (loop_head [] now draw jit t1) = PcConnecting (ee_ep e')"
    using loop_head_quiet [of t1 now draw jit] c assms(5) by simp
  then obtain t2 where "loop_head [] now draw jit t1 = (t2, PcConnecting (ee_ep e'))"
    by (metis prod.collapse)
  with s c e'(1) assms(4) show ?thesis by (auto simp: step_def [of "(t1, x)" for x] is_entry_def)
qed

theorem failover_override_honoured_witness:
  "\<exists>t ep t' ep'. run demo [go 1] = Some (t, PcConnecting ep)
     \<and> run (t, PcConnecting ep) [In_Control (Some (C_Failover (Some ''a:22''))) (Inl no_live_session_err) (\<lambda>_. True),
          In_Loop [] 3 (\<lambda>_. 0) (\<lambda>_. 0)] = Some (t', PcConnecting ep') \<and> ep_host ep' = ''a'' \<and> ep_port ep' = 22"
proof -
  obtain t ep where r: "run demo [go 1] = Some (t, PcConnecting ep)"
    and ok: "\<not> exhausted (pt_backoff t)" "\<forall>e\<in>set (es_entries (pt_selector t)). eligible 3 e"
    by (rule demo_connecting)
  have key: "endpoint_id (endpoint_new ''a'' 22) = ''a:22''" "ep_host (endpoint_new ''a'' 22) = ''a''"
    "ep_port (endpoint_new ''a'' 22) = 22"
    by (simp_all add: endpoint_id_def endpoint_new_def dec_22)
  have "ep_port (endpoint_new ''a'' 22) \<le> u16_max" by (simp add: key u16_max_def)
  with ok failover_override_honoured [OF r [unfolded demo_def], of "endpoint_new ''a'' 22" 3
      "Inl no_live_session_err" "\<lambda>_. True" "\<lambda>_. 0" "\<lambda>_. 0"] r
  show ?thesis by (simp add: key)
qed

text \<open>
  C39: a failover request whose key names no configured endpoint is accepted and then strands the
  profile: whatever happens afterwards, short of another failover request, the supervisor never
  starts another connection attempt.
\<close>
theorem unknown_override_strands:
  assumes "run (boot name auth auths eps fwds cfg reg) is = Some (t, p)"
    "port \<le> u16_max" "\<forall>ep\<in>set eps. \<not> (ep_host ep = host \<and> ep_port ep = port)"
    "step (t, p) (In_Control (Some (C_Failover (Some (host_port_key host port)))) bench completed) = Some s1"
    "run s1 js = Some (t', p')" "\<not> list_ex overrides js"
  shows "fst (apply_manual_override (Some (host_port_key host port)) t) = Inr ()
    \<and> connects t' = connects t"
proof -
  let ?m = "\<lparr>mo_host = host, mo_port = port\<rparr>"
  obtain t1 p1 where s1: "s1 = (t1, p1)" by force
  have ovr: "apply_manual_override (Some (host_port_key host port)) t
      = (Inr (), t\<lparr>pt_selector := set_manual (Some ?m) (pt_selector t)\<rparr>)"
    using parse_endpoint_key_print [OF assms(2), of host] by (simp add: apply_manual_override_def host_port_key_def)
  note c = failover_control [OF assms(4) [unfolded s1]]
  have sel: "pt_selector t1 = set_manual (Some ?m) (pt_selector t)" using c ovr by simp
  have "map ee_ep (es_entries (pt_selector t)) = eps"
    using run_boot [OF assms(1)] by (simp add: endpoints_of_def)
  then have "unknown_pin (pt_selector t1)"
    using assms(3) by (auto simp: unknown_pin_def sel set_manual_def is_entry_by_endpoint)
  moreover have "es_policy (pt_selector t1) = None" using boot_selector [OF assms(1)] by (simp add: sel set_manual_def)
  moreover have "connecting_to p1 \<subseteq> addresses t1"
    using step_known [OF assms(4) [unfolded s1] boot_selector(3) [OF assms(1)]] .
  ultimately have "connects t' = connects t1" using wedged_run assms(5,6) unfolding s1 by blast
  with c ovr show ?thesis by simp
qed

theorem unknown_override_strands_witness:
  "\<exists>t ep s1 t' p'. run demo [go 1] = Some (t, PcConnecting ep)
     \<and> step (t, PcConnecting ep) (In_Control (Some (C_Failover (Some ''b:22''))) (Inl no_live_session_err) (\<lambda>_. True))
         = Some s1
     \<and> run s1 [In_Loop [] 3 (\<lambda>_. 0) (\<lambda>_. 0)] = Some (t', p') \<and> connects t' = connects t"
proof -
  let ?i = "In_Control (Some (C_Failover (Some ''b:22''))) (Inl no_live_session_err) (\<lambda>_. True)"
  let ?js = "[In_Loop [] 3 (\<lambda>_. 0) (\<lambda>_. 0)]"
  obtain t ep where r: "run demo [go 1] = Some (t, PcConnecting ep)" by (rule demo_connecting)
  obtain t1 where s: "step (t, PcConnecting ep) ?i = Some (t1, PcLoop)"
    by (cases "apply_manual_override (Some ''b:22'') t") (simp add: step_def connecting_control_def)
  obtain t' p' where j: "run (t1, PcLoop) ?js = Some (t', p')"
    by (cases "loop_head [] 3 (\<lambda>_. 0) (\<lambda>_. 0) t1") (simp add: step_def)
  have key: "host_port_key ''b'' 22 = ''b:22''" by (simp add: host_port_key_def dec_22)
  have "\<forall>e\<in>set [endpoint_new ''a'' 22]. \<not> (ep_host e = ''b'' \<and> ep_port e = 22)" "22 \<le> u16_max"
    "\<not> list_ex overrides ?js"
    by (simp_all add: endpoint_new_def u16_max_def overrides_def)
  then have "connects t' = connects t"
    using unknown_override_strands [OF r [unfolded demo_def] _ _ s [folded key] j] by blast
  with r s j show ?thesis by blast
qed

end
