(* ===== verification/Rate_Limits.thy ===== *)
theory Rate_Limits
  imports Prelude
begin

text \<open>
  The token bucket, the connection gate and the event rate gate of
  \<open>crates/spt-forward/src/limits.rs\<close>.  Token accounting is in integers scaled by the number of
  nanoseconds in a second, with the saturating \<open>u128\<close> operations of the source; the clock reading
  of a call is an argument.  The locale \<open>meter\<close> states once what a metered resource promises and
  derives the conformance bound; both the bucket and the rate gate are instances.
\<close>

section \<open>Token bucket\<close>

definition NANOS_PER_SEC :: nat where
  "NANOS_PER_SEC = 1000000000"

record TokenBucket =
  tb_rate_bps :: nat
  tb_burst :: nat
  tb_capacity_scaled :: nat
  tb_tokens_scaled :: nat
  tb_last :: instant

definition bucket_new :: "nat \<Rightarrow> nat \<Rightarrow> instant \<Rightarrow> TokenBucket" where
  "bucket_new rate_bps burst now =
     (let burst = max burst (max rate_bps 1);
          capacity_scaled = sat_mul u128_max burst NANOS_PER_SEC
      in \<lparr>tb_rate_bps = rate_bps, tb_burst = burst, tb_capacity_scaled = capacity_scaled,
          tb_tokens_scaled = capacity_scaled, tb_last = now\<rparr>)"

definition bucket_unlimited :: "instant \<Rightarrow> TokenBucket" where
  "bucket_unlimited now = bucket_new 0 0 now"

definition bucket_is_active :: "TokenBucket \<Rightarrow> bool" where
  "bucket_is_active tb \<longleftrightarrow> 0 < tb_rate_bps tb"

definition try_acquire :: "nat \<Rightarrow> instant \<Rightarrow> TokenBucket \<Rightarrow> duration option \<times> TokenBucket" where
  "try_acquire n now tb =
     (if \<not> bucket_is_active tb then (None, tb)
      else
        let rate = tb_rate_bps tb;
            cap = tb_capacity_scaled tb;
            need_scaled = sat_mul u128_max n NANOS_PER_SEC;
            elapsed_nanos = now - tb_last tb;
            refill = sat_mul u128_max elapsed_nanos rate;
            tokens = min (sat_add u128_max (tb_tokens_scaled tb) refill) cap
        in if need_scaled \<le> tokens
           then (None, tb\<lparr>tb_last := now, tb_tokens_scaled := tokens - need_scaled\<rparr>)
           else
             let deficit = need_scaled - tokens;
                 wait_nanos = deficit div rate + 1
             in (Some (min wait_nanos u64_max), tb\<lparr>tb_last := now, tb_tokens_scaled := tokens\<rparr>))"

text \<open>
  \<open>acquire\<close>: both of its loops.  \<open>late k\<close> is the time that passes, beyond any requested sleep,
  between the k-th clock reading and the next one.  \<open>None\<close>: the fuel does not suffice.
\<close>

fun acquire_loop ::
  "nat \<Rightarrow> (nat \<Rightarrow> duration) \<Rightarrow> nat \<Rightarrow> instant \<Rightarrow> TokenBucket \<Rightarrow> (instant \<times> TokenBucket) option" where
  "acquire_loop fuel late remaining now tb =
     (if remaining = 0 then Some (now, tb)
      else case fuel of
        0 \<Rightarrow> None
      | Suc f \<Rightarrow>
          let take = min remaining (tb_burst tb) in
          (case try_acquire take now tb of
             (None, tb') \<Rightarrow> acquire_loop f (late \<circ> Suc) (remaining - take) (now + late 0) tb'
           | (Some wait, tb') \<Rightarrow> acquire_loop f (late \<circ> Suc) remaining (now + wait + late 0) tb'))"

declare acquire_loop.simps [simp del]

definition acquire :: "nat \<Rightarrow> (nat \<Rightarrow> duration) \<Rightarrow> nat \<Rightarrow> instant \<Rightarrow> TokenBucket \<Rightarrow> (instant \<times> TokenBucket) option" where
  "acquire fuel late n now tb =
     (if \<not> bucket_is_active tb \<or> n = 0 then Some (now, tb) else acquire_loop fuel late n now tb)"

section \<open>Connection gate\<close>

text \<open>
  The counting semaphore of the runtime library is its number of free permits; \<open>max_permits\<close> is the
  library's largest permit count, used when the gate is unlimited.
\<close>

record ConnectionGate =
  cg_available :: nat
  cg_cap :: nat

definition gate_new :: "nat \<Rightarrow> nat \<Rightarrow> ConnectionGate" where
  "gate_new max_permits cap = \<lparr>cg_available = (if cap = 0 then max_permits else cap), cg_cap = cap\<rparr>"

definition gate_try_acquire :: "ConnectionGate \<Rightarrow> bool \<times> ConnectionGate" where
  "gate_try_acquire g =
     (if cg_available g = 0 then (False, g) else (True, g\<lparr>cg_available := cg_available g - 1\<rparr>))"

text \<open>Dropping a permit.\<close>

definition gate_release :: "ConnectionGate \<Rightarrow> ConnectionGate" where
  "gate_release g = g\<lparr>cg_available := cg_available g + 1\<rparr>"

definition gate_in_flight :: "ConnectionGate \<Rightarrow> nat" where
  "gate_in_flight g = (if cg_cap g = 0 then 0 else (cg_cap g - cg_available g) mod 2 ^ 32)"

section \<open>Rate gate\<close>

record RateGate =
  rg_rate :: nat
  rg_capacity_scaled :: nat
  rg_tokens_scaled :: nat
  rg_last :: instant

definition rate_gate_new :: "nat \<Rightarrow> nat \<Rightarrow> instant \<Rightarrow> RateGate" where
  "rate_gate_new rate burst now =
     (let burst_events = max burst (max rate 1);
          capacity_scaled = sat_mul u128_max burst_events NANOS_PER_SEC
      in \<lparr>rg_rate = rate, rg_capacity_scaled = capacity_scaled, rg_tokens_scaled = capacity_scaled,
          rg_last = now\<rparr>)"

definition rate_gate_unlimited :: "instant \<Rightarrow> RateGate" where
  "rate_gate_unlimited now = rate_gate_new 0 0 now"

definition rate_gate_is_active :: "RateGate \<Rightarrow> bool" where
  "rate_gate_is_active g \<longleftrightarrow> 0 < rg_rate g"

definition admit :: "instant \<Rightarrow> RateGate \<Rightarrow> bool \<times> RateGate" where
  "admit now g =
     (if \<not> rate_gate_is_active g then (True, g)
      else
        let rate = rg_rate g;
            cap = rg_capacity_scaled g;
            need_scaled = NANOS_PER_SEC;
            elapsed_nanos = now - rg_last g;
            refill = sat_mul u128_max elapsed_nanos rate;
            tokens = min (sat_add u128_max (rg_tokens_scaled g) refill) cap
        in if need_scaled \<le> tokens
           then (True, g\<lparr>rg_last := now, rg_tokens_scaled := tokens - need_scaled\<rparr>)
           else (False, g\<lparr>rg_last := now, rg_tokens_scaled := tokens\<rparr>))"

section \<open>Metered resources\<close>

text \<open>
  A meter refills its tokens at a constant rate up to a capacity and grants a request exactly if
  the tokens cover its cost.
\<close>

locale meter =
  fixes rate :: "'s \<Rightarrow> nat" and cap :: "'s \<Rightarrow> nat" and tokens :: "'s \<Rightarrow> nat" and last_use :: "'s \<Rightarrow> instant"
    and request :: "'r \<Rightarrow> instant \<Rightarrow> 's \<Rightarrow> bool \<times> 's" and cost :: "'r \<Rightarrow> nat"
    and fits :: "'r \<Rightarrow> bool" and invar :: "'s \<Rightarrow> bool"
  assumes grant_iff: "invar s \<Longrightarrow> fits r \<Longrightarrow> request r now s = (ok, s') \<Longrightarrow>
      ok \<longleftrightarrow> cost r \<le> min (tokens s + (now - last_use s) * rate s) (cap s)"
    and tokens_after: "invar s \<Longrightarrow> fits r \<Longrightarrow> request r now s = (ok, s') \<Longrightarrow>
      tokens s' = min (tokens s + (now - last_use s) * rate s) (cap s) - (if ok then cost r else 0)"
    and last_after: "invar s \<Longrightarrow> fits r \<Longrightarrow> request r now s = (ok, s') \<Longrightarrow> last_use s' = now"
    and fixed: "invar s \<Longrightarrow> fits r \<Longrightarrow> request r now s = (ok, s') \<Longrightarrow> rate s' = rate s \<and> cap s' = cap s"
    and invar_after: "invar s \<Longrightarrow> fits r \<Longrightarrow> request r now s = (ok, s') \<Longrightarrow> invar s'"
    and tokens_le_cap: "invar s \<Longrightarrow> tokens s \<le> cap s"
begin

text \<open>Requests in the order of their clock readings, and the total cost of the granted ones.\<close>

fun requests :: "('r \<times> instant) list \<Rightarrow> 's \<Rightarrow> nat \<times> 's" where
  "requests [] s = (0, s)"
| "requests ((r, now) # rs) s =
     (let (ok, s1) = request r now s; (total, s2) = requests rs s1
      in ((if ok then cost r else 0) + total, s2))"

lemma conformance:
  assumes "invar s" "\<forall>(r, t)\<in>set rs. fits r" "sorted (last_use s # map snd rs)"
  shows "fst (requests rs s) + tokens (snd (requests rs s))
    \<le> tokens s + (last_use (snd (requests rs s)) - last_use s) * rate s
    \<and> last_use s \<le> last_use (snd (requests rs s)) \<and> invar (snd (requests rs s))"
  using assms
proof (induction rs arbitrary: s)
  case (Cons x rs)
  obtain r now where x: "x = (r, now)" by force
  obtain ok s1 where r: "request r now s = (ok, s1)" by force
  have f: "fits r" using Cons.prems(2) x by simp
  note law = Cons.prems(1) f r
  have s1: "last_use s1 = now" "rate s1 = rate s" "invar s1"
    using last_after [OF law] fixed [OF law] invar_after [OF law] by simp_all
  have spent: "tokens s1 + (if ok then cost r else 0) = min (tokens s + (now - last_use s) * rate s) (cap s)"
    using tokens_after [OF law] grant_iff [OF law] by simp
  have le: "last_use s \<le> now" using Cons.prems(3) x by simp
  have IH: "fst (requests rs s1) + tokens (snd (requests rs s1))
      \<le> tokens s1 + (last_use (snd (requests rs s1)) - now) * rate s
      \<and> now \<le> last_use (snd (requests rs s1)) \<and> invar (snd (requests rs s1))"
    using Cons.IH [of s1] Cons.prems(2,3) s1 x by auto
  let ?e = "last_use (snd (requests rs s1))"
  have eq: "(now - last_use s) * rate s + (?e - now) * rate s = (?e - last_use s) * rate s"
    using le IH by (simp flip: add_mult_distrib)
  have "tokens s1 + (if ok then cost r else 0) \<le> tokens s + (now - last_use s) * rate s" using spent by simp
  then have "(if ok then cost r else 0) + fst (requests rs s1) + tokens (snd (requests rs s1))
      \<le> tokens s + (?e - last_use s) * rate s"
    using conjunct1 [OF IH] eq by linarith
  moreover have "last_use s \<le> ?e" "invar (snd (requests rs s1))" using IH le by auto
  ultimately show ?case by (simp only: x r requests.simps split_beta Let_def fst_conv snd_conv)
qed simp

text \<open>In a window that opens with the first request at most a full bucket and the refill are granted.\<close>

lemma window_bound:
  assumes "invar s" "\<forall>(r, t)\<in>set ((r, now) # rs). fits r" "sorted (now # map snd rs)"
  shows "fst (requests ((r, now) # rs) s)
    \<le> cap s + (last_use (snd (requests ((r, now) # rs) s)) - now) * rate s"
proof -
  obtain ok s1 where r: "request r now s = (ok, s1)" by force
  have f: "fits r" using assms(2) by simp
  note law = assms(1) f r
  have "tokens s1 + (if ok then cost r else 0) \<le> cap s"
    using tokens_after [OF law] grant_iff [OF law] by simp
  moreover have "fst (requests rs s1) \<le> tokens s1 + (last_use (snd (requests rs s1)) - now) * rate s"
    using conformance [of s1 rs] invar_after [OF law] last_after [OF law] fixed [OF law] assms(2,3) by auto
  ultimately show ?thesis by (simp add: r split_beta Let_def)
qed

lemma invar_requests: "invar s \<Longrightarrow> \<forall>(r, t)\<in>set rs. fits r \<Longrightarrow> invar (snd (requests rs s)) \<and> cap (snd (requests rs s)) = cap s
    \<and> rate (snd (requests rs s)) = rate s"
proof (induction rs arbitrary: s)
  case (Cons x rs)
  obtain r now where x: "x = (r, now)" by force
  obtain ok s1 where r: "request r now s = (ok, s1)" by force
  have f: "fits r" using Cons.prems(2) x by simp
  note law = Cons.prems(1) f r
  show ?case
    using Cons.IH [of s1] invar_after [OF law] fixed [OF law] Cons.prems(2) by (simp add: x r split_beta Let_def)
qed simp

lemma last_requests:
  "invar s \<Longrightarrow> \<forall>(r, t)\<in>set rs. fits r \<Longrightarrow> rs \<noteq> [] \<Longrightarrow> last_use (snd (requests rs s)) = snd (last rs)"
proof (induction rs arbitrary: s)
  case (Cons x rs)
  obtain r now where x: "x = (r, now)" by force
  obtain ok s1 where r: "request r now s = (ok, s1)" by force
  have f: "fits r" using Cons.prems(2) x by simp
  note law = Cons.prems(1) f r
  show ?case
    using Cons.IH [of s1] invar_after [OF law] last_after [OF law] Cons.prems(2)
    by (cases "rs = []") (simp_all add: x r split_beta Let_def)
qed simp

end

text \<open>Capping at the capacity makes the saturation of the refill invisible.\<close>

lemma refill_exact:
  "cap \<le> u128_max \<Longrightarrow> min (sat_add u128_max a (sat_mul u128_max b c)) cap = min (a + b * c) cap"
  by (simp add: sat_add_def sat_mul_def min_def)

definition bucket_ok :: "TokenBucket \<Rightarrow> bool" where
  "bucket_ok tb \<longleftrightarrow> 0 < tb_rate_bps tb \<and> 0 < tb_burst tb \<and> tb_tokens_scaled tb \<le> tb_capacity_scaled tb
     \<and> tb_capacity_scaled tb \<le> u128_max \<and> tb_burst tb * NANOS_PER_SEC \<le> tb_capacity_scaled tb"

definition rate_gate_ok :: "RateGate \<Rightarrow> bool" where
  "rate_gate_ok g \<longleftrightarrow> 0 < rg_rate g \<and> rg_tokens_scaled g \<le> rg_capacity_scaled g
     \<and> rg_capacity_scaled g \<le> u128_max"

lemma scaled_le: "n \<le> u64_max \<Longrightarrow> n * NANOS_PER_SEC \<le> u128_max"
  by (simp add: NANOS_PER_SEC_def u64_max_def u128_max_def)

lemma need_exact: "n \<le> u64_max \<Longrightarrow> sat_mul u128_max n NANOS_PER_SEC = n * NANOS_PER_SEC"
  by (simp add: sat_mul_exact scaled_le)

lemma bucket_ok_new: "0 < rate \<Longrightarrow> rate \<le> u64_max \<Longrightarrow> burst \<le> u64_max \<Longrightarrow> bucket_ok (bucket_new rate burst now)"
  by (simp add: bucket_ok_def bucket_new_def Let_def need_exact scaled_le max_def)

lemma rate_gate_ok_new: "0 < rate \<Longrightarrow> rate_gate_ok (rate_gate_new rate burst now)"
  by (simp add: rate_gate_ok_def rate_gate_new_def Let_def)

lemma try_acquire_exact:
  assumes "bucket_ok tb" "n \<le> u64_max"
  shows "try_acquire n now tb =
    (let tokens = min (tb_tokens_scaled tb + (now - tb_last tb) * tb_rate_bps tb) (tb_capacity_scaled tb) in
     if n * NANOS_PER_SEC \<le> tokens
     then (None, tb\<lparr>tb_last := now, tb_tokens_scaled := tokens - n * NANOS_PER_SEC\<rparr>)
     else (Some (min ((n * NANOS_PER_SEC - tokens) div tb_rate_bps tb + 1) u64_max),
           tb\<lparr>tb_last := now, tb_tokens_scaled := tokens\<rparr>))"
proof -
  have cap: "tb_capacity_scaled tb \<le> u128_max" and active: "bucket_is_active tb"
    using assms(1) by (simp_all add: bucket_ok_def bucket_is_active_def)
  show ?thesis
    unfolding try_acquire_def Let_def refill_exact [OF cap] need_exact [OF assms(2)] using active by simp
qed

lemma admit_exact:
  assumes "rate_gate_ok g"
  shows "admit now g =
    (let tokens = min (rg_tokens_scaled g + (now - rg_last g) * rg_rate g) (rg_capacity_scaled g) in
     if NANOS_PER_SEC \<le> tokens
     then (True, g\<lparr>rg_last := now, rg_tokens_scaled := tokens - NANOS_PER_SEC\<rparr>)
     else (False, g\<lparr>rg_last := now, rg_tokens_scaled := tokens\<rparr>))"
proof -
  have cap: "rg_capacity_scaled g \<le> u128_max" and active: "rate_gate_is_active g"
    using assms by (simp_all add: rate_gate_ok_def rate_gate_is_active_def)
  show ?thesis unfolding admit_def Let_def refill_exact [OF cap] using active by simp
qed

definition grant :: "nat \<Rightarrow> instant \<Rightarrow> TokenBucket \<Rightarrow> bool \<times> TokenBucket" where
  "grant n now tb = map_prod Option.is_none id (try_acquire n now tb)"

interpretation bucket: meter tb_rate_bps tb_capacity_scaled tb_tokens_scaled tb_last grant
  "\<lambda>n. n * NANOS_PER_SEC" "\<lambda>n. n \<le> u64_max" bucket_ok
  by unfold_locales
    (auto simp: grant_def try_acquire_exact Let_def bucket_ok_def split: if_splits)

interpretation gate: meter rg_rate rg_capacity_scaled rg_tokens_scaled rg_last "\<lambda>(_::unit). admit"
  "\<lambda>_. NANOS_PER_SEC" "\<lambda>_. True" rate_gate_ok
  by unfold_locales (auto simp: admit_exact Let_def rate_gate_ok_def split: if_splits)

section \<open>Conformance of the bucket\<close>

fun granted :: "(nat \<times> instant) list \<Rightarrow> TokenBucket \<Rightarrow> nat \<times> TokenBucket" where
  "granted [] tb = (0, tb)"
| "granted ((n, now) # rs) tb =
     (let (w, tb1) = try_acquire n now tb; (total, tb2) = granted rs tb1
      in ((if w = None then n else 0) + total, tb2))"

lemma granted_requests:
  "bucket.requests rs tb = map_prod (\<lambda>n. n * NANOS_PER_SEC) id (granted rs tb)"
proof (induction rs arbitrary: tb)
  case (Cons x rs)
  obtain n now where x: "x = (n, now)" by force
  obtain w tb1 where t: "try_acquire n now tb = (w, tb1)" by force
  then have "grant n now tb = (w = None, tb1)" by (cases w) (simp_all add: grant_def)
  with t show ?case by (simp add: x Cons.IH split_beta Let_def add_mult_distrib)
qed simp

lemma granted_conformance:
  assumes "bucket_ok tb" "\<forall>(n, t)\<in>set rs. n \<le> u64_max" "sorted (tb_last tb # map snd rs)"
  shows "fst (granted rs tb) * NANOS_PER_SEC + tb_tokens_scaled (snd (granted rs tb))
    \<le> tb_tokens_scaled tb + (tb_last (snd (granted rs tb)) - tb_last tb) * tb_rate_bps tb"
  using bucket.conformance [OF assms(1) _ assms(3)] assms(2) by (simp add: granted_requests)

section \<open>Acquiring\<close>

text \<open>The tokens a call at a given time finds.\<close>

definition avail :: "instant \<Rightarrow> TokenBucket \<Rightarrow> nat" where
  "avail now tb = min (tb_tokens_scaled tb + (now - tb_last tb) * tb_rate_bps tb) (tb_capacity_scaled tb)"

lemma try_acquire_avail:
  assumes "bucket_ok tb" "n \<le> u64_max"
  shows "try_acquire n now tb =
    (if n * NANOS_PER_SEC \<le> avail now tb
     then (None, tb\<lparr>tb_last := now, tb_tokens_scaled := avail now tb - n * NANOS_PER_SEC\<rparr>)
     else (Some (min ((n * NANOS_PER_SEC - avail now tb) div tb_rate_bps tb + 1) u64_max),
           tb\<lparr>tb_last := now, tb_tokens_scaled := avail now tb\<rparr>))"
  using try_acquire_exact [OF assms] by (simp add: avail_def Let_def)

lemma avail_le_capacity: "avail now tb \<le> tb_capacity_scaled tb"
  by (simp add: avail_def)

lemma bucket_ok_update:
  "bucket_ok tb \<Longrightarrow> x \<le> tb_capacity_scaled tb \<Longrightarrow> bucket_ok (tb\<lparr>tb_last := now, tb_tokens_scaled := x\<rparr>)"
  by (simp add: bucket_ok_def)

text \<open>After the requested sleep the deficit is gone, or the sleep was cut to the longest one.\<close>

lemma avail_after_sleep:
  assumes "bucket_ok tb" "n \<le> tb_burst tb" "avail now tb < n * NANOS_PER_SEC"
    "w = min ((n * NANOS_PER_SEC - avail now tb) div tb_rate_bps tb + 1) u64_max" "now + w \<le> now'"
  defines "tb' \<equiv> tb\<lparr>tb_last := now, tb_tokens_scaled := avail now tb\<rparr>"
  shows "n * NANOS_PER_SEC - avail now' tb' < n * NANOS_PER_SEC - avail now tb"
proof -
  let ?need = "n * NANOS_PER_SEC" and ?r = "tb_rate_bps tb"
  have r: "0 < ?r" and cap: "?need \<le> tb_capacity_scaled tb"
    using assms(1,2) by (auto simp: bucket_ok_def intro: order_trans [OF mult_le_mono1])
  have w: "0 < w" using assms(4) by (simp add: u64_max_def)
  have "0 < (now' - now) * ?r" using assms(5) r w by simp
  then have "avail now tb < avail now' tb'"
    using cap assms(3) by (simp add: avail_def [of now'] tb'_def)
  then show ?thesis using assms(3) by simp
qed

text \<open>
  The loop returns, and the bytes it took are covered by the tokens it started with and the refill
  up to the time it returns.
\<close>

definition completes :: "(nat \<Rightarrow> duration) \<Rightarrow> nat \<Rightarrow> instant \<Rightarrow> TokenBucket \<Rightarrow> bool" where
  "completes late remaining now tb \<longleftrightarrow>
     (\<exists>fuel now' tb'. acquire_loop fuel late remaining now tb = Some (now', tb') \<and> now \<le> now' \<and> bucket_ok tb'
        \<and> remaining * NANOS_PER_SEC \<le> tb_tokens_scaled tb + (now' - tb_last tb) * tb_rate_bps tb)"

lemma completes_0: "bucket_ok tb \<Longrightarrow> completes late 0 now tb"
  unfolding completes_def by (subst acquire_loop.simps) auto

text \<open>One turn of the loop leaves \<open>spent\<close> units fewer in the bucket.\<close>

lemma completes_step:
  assumes "acquire_loop (Suc fuel) late remaining now tb = Some (now', tb')" "bucket_ok tb'"
    "tb_last tb \<le> now" "now \<le> now'" "spent \<le> avail now tb"
    "rest * NANOS_PER_SEC \<le> avail now tb - spent + (now' - now) * tb_rate_bps tb"
    "remaining * NANOS_PER_SEC = rest * NANOS_PER_SEC + spent"
  shows "completes late remaining now tb"
proof -
  have "avail now tb \<le> tb_tokens_scaled tb + (now - tb_last tb) * tb_rate_bps tb"
    by (simp add: avail_def)
  moreover have "(now - tb_last tb) * tb_rate_bps tb + (now' - now) * tb_rate_bps tb = (now' - tb_last tb) * tb_rate_bps tb"
    using assms(3,4) by (simp flip: add_mult_distrib)
  ultimately have "remaining * NANOS_PER_SEC \<le> tb_tokens_scaled tb + (now' - tb_last tb) * tb_rate_bps tb"
    using assms(5-7) by linarith
  with assms(1,2,4) show ?thesis unfolding completes_def by blast
qed

lemma completes_grant:
  assumes "bucket_ok tb" "tb_burst tb \<le> u64_max" "tb_last tb \<le> now" "remaining \<noteq> 0"
    "n = min remaining (tb_burst tb)" "n * NANOS_PER_SEC \<le> avail now tb"
    "completes (late \<circ> Suc) (remaining - n) (now + late 0)
       (tb\<lparr>tb_last := now, tb_tokens_scaled := avail now tb - n * NANOS_PER_SEC\<rparr>)"
  shows "completes late remaining now tb"
proof -
  let ?tb = "tb\<lparr>tb_last := now, tb_tokens_scaled := avail now tb - n * NANOS_PER_SEC\<rparr>"
  obtain fuel now' tb' where f: "acquire_loop fuel (late \<circ> Suc) (remaining - n) (now + late 0) ?tb = Some (now', tb')"
      "now + late 0 \<le> now'" "bucket_ok tb'"
      "(remaining - n) * NANOS_PER_SEC \<le> tb_tokens_scaled ?tb + (now' - tb_last ?tb) * tb_rate_bps ?tb"
    using assms(7) unfolding completes_def by blast
  have "n \<le> u64_max" using assms(2,5) by simp
  with f(1) assms(1,4-6) have "acquire_loop (Suc fuel) late remaining now tb = Some (now', tb')"
    by (subst acquire_loop.simps) (simp add: try_acquire_avail Let_def)
  moreover have "remaining * NANOS_PER_SEC = (remaining - n) * NANOS_PER_SEC + n * NANOS_PER_SEC"
    using assms(5) by (simp flip: add_mult_distrib)
  ultimately show ?thesis using f assms(3,6) by (intro completes_step) auto
qed

lemma completes_wait:
  assumes "bucket_ok tb" "tb_burst tb \<le> u64_max" "tb_last tb \<le> now" "remaining \<noteq> 0"
    "n = min remaining (tb_burst tb)" "avail now tb < n * NANOS_PER_SEC"
    "w = min ((n * NANOS_PER_SEC - avail now tb) div tb_rate_bps tb + 1) u64_max"
    "completes (late \<circ> Suc) remaining (now + w + late 0) (tb\<lparr>tb_last := now, tb_tokens_scaled := avail now tb\<rparr>)"
  shows "completes late remaining now tb"
proof -
  let ?tb = "tb\<lparr>tb_last := now, tb_tokens_scaled := avail now tb\<rparr>"
  obtain fuel now' tb' where f: "acquire_loop fuel (late \<circ> Suc) remaining (now + w + late 0) ?tb = Some (now', tb')"
      "now + w + late 0 \<le> now'" "bucket_ok tb'"
      "remaining * NANOS_PER_SEC \<le> tb_tokens_scaled ?tb + (now' - tb_last ?tb) * tb_rate_bps ?tb"
    using assms(8) unfolding completes_def by blast
  have "n \<le> u64_max" using assms(2,5) by simp
  with f(1) assms(1,4-7) have "acquire_loop (Suc fuel) late remaining now tb = Some (now', tb')"
    by (subst acquire_loop.simps) (simp add: try_acquire_avail Let_def)
  then show ?thesis using f assms(3) by (intro completes_step [where spent = 0 and rest = remaining]) auto
qed

lemma acquire_loop_completes:
  assumes "bucket_ok tb" "tb_burst tb \<le> u64_max" "tb_last tb \<le> now"
  shows "completes late remaining now tb"
  using assms
proof (induction remaining arbitrary: late now tb rule: less_induct)
  case (less remaining)
  show ?case
    using less.prems
  proof (induction "min remaining (tb_burst tb) * NANOS_PER_SEC - avail now tb" arbitrary: late now tb
      rule: less_induct)
    case inner: less
    let ?n = "min remaining (tb_burst tb)"
    let ?w = "min ((?n * NANOS_PER_SEC - avail now tb) div tb_rate_bps tb + 1) u64_max"
    have ok: "bucket_ok (tb\<lparr>tb_last := now, tb_tokens_scaled := avail now tb - x\<rparr>)" for x
      using bucket_ok_update [OF inner.prems(1)] avail_le_capacity [of now tb] by (simp add: le_diff_conv2)
    consider "remaining = 0" | "remaining \<noteq> 0" "?n * NANOS_PER_SEC \<le> avail now tb"
      | "remaining \<noteq> 0" "avail now tb < ?n * NANOS_PER_SEC" by linarith
    then show ?case
    proof cases
      case 1
      then show ?thesis using completes_0 [OF inner.prems(1)] by simp
    next
      case 2
      then have "remaining - ?n < remaining" using inner.prems(1) by (simp add: bucket_ok_def)
      then show ?thesis
        using 2 ok [of "?n * NANOS_PER_SEC"] inner.prems
        by (intro completes_grant [OF inner.prems _ refl] less.IH) auto
    next
      case 3
      let ?tb = "tb\<lparr>tb_last := now, tb_tokens_scaled := avail now tb\<rparr>"
      have "?n * NANOS_PER_SEC - avail (now + ?w + late 0) ?tb < ?n * NANOS_PER_SEC - avail now tb"
        by (rule avail_after_sleep [OF inner.prems(1)]) (use 3 in auto)
      then show ?thesis
        using 3 ok [of 0] inner.prems
        by (intro completes_wait [OF inner.prems _ refl _ refl] inner.hyps) auto
    qed
  qed
qed

section \<open>Properties\<close>

text \<open>
  C30: a throttled stream never exceeds its rate: for every bucket and every sequence of requests with
  a monotonic clock, in every window of that sequence the bytes granted are at most the burst plus
  the rate times the length of the window.
\<close>
theorem throttle_conformance:
  assumes "0 < rate" "rate \<le> u64_max" "burst \<le> u64_max"
    "\<forall>(n, t)\<in>set (before @ window). n \<le> u64_max" "sorted (map snd window)" "window \<noteq> []"
  shows "fst (granted window (snd (granted before (bucket_new rate burst t0)))) * NANOS_PER_SEC
    \<le> max burst rate * NANOS_PER_SEC + (snd (last window) - snd (hd window)) * rate"
proof -
  let ?init = "bucket_new rate burst t0"
  let ?tb = "snd (granted before ?init)"
  obtain n t rs where w: "window = (n, t) # rs" using assms(6) by (cases window) auto
  have "bucket_ok ?init" using assms(1-3) by (rule bucket_ok_new)
  then have tb: "bucket_ok ?tb" "tb_capacity_scaled ?tb = tb_capacity_scaled ?init" "tb_rate_bps ?tb = tb_rate_bps ?init"
    using bucket.invar_requests [of ?init before] assms(4) by (auto simp: granted_requests)
  have "fst (bucket.requests window ?tb)
      \<le> tb_capacity_scaled ?tb + (tb_last (snd (bucket.requests window ?tb)) - t) * tb_rate_bps ?tb"
    using bucket.window_bound [OF tb(1), of n t rs] assms(4,5) by (simp add: w)
  moreover have "tb_last (snd (bucket.requests window ?tb)) = snd (last window)"
    using bucket.last_requests [OF tb(1)] assms(4,6) by simp
  moreover have "tb_capacity_scaled ?init = max burst rate * NANOS_PER_SEC" "tb_rate_bps ?init = rate"
    using assms(1-3) by (simp_all add: bucket_new_def Let_def need_exact max_def)
  ultimately show ?thesis using tb by (simp add: w granted_requests)
qed

theorem throttle_conformance_witness:
  "fst (granted [(5, 1), (4, 2), (3, 500000000)] (snd (granted [(1, 0)] (bucket_new 4 8 0)))) * NANOS_PER_SEC
     \<le> 8 * NANOS_PER_SEC + (500000000 - 1) * 4"
proof -
  have "(22::nat) \<le> u64_max" by (simp add: u64_max_def)
  then show ?thesis
    using throttle_conformance [of 4 8 "[(1, 0)]" "[(5, 1), (4, 2), (3, 500000000)]" 0] by simp
qed

text \<open>
  waiting for bandwidth always ends: for every byte count and however late the timers fire, the
  acquire loop returns, and when it does the bytes are covered by the tokens it found plus the
  refill since.
\<close>
theorem acquire_completes:
  assumes "bucket_ok tb" "tb_burst tb \<le> u64_max" "tb_last tb \<le> now"
  shows "\<exists>fuel now' tb'. acquire fuel late n now tb = Some (now', tb') \<and> now \<le> now' \<and> bucket_ok tb'
    \<and> n * NANOS_PER_SEC \<le> tb_tokens_scaled tb + (now' - tb_last tb) * tb_rate_bps tb"
proof (cases "n = 0")
  case True
  then show ?thesis using assms(1) by (auto simp: acquire_def)
next
  case False
  have "bucket_is_active tb" using assms(1) by (simp add: bucket_ok_def bucket_is_active_def)
  with False show ?thesis
    using acquire_loop_completes [OF assms, of late n] by (simp add: completes_def acquire_def)
qed

theorem acquire_completes_witness:
  "\<exists>fuel now' tb'. acquire fuel (\<lambda>_. 7) 50 9 (bucket_new 10 20 0) = Some (now', tb')
     \<and> 50 * NANOS_PER_SEC \<le> 20 * NANOS_PER_SEC + now' * 10"
proof -
  let ?tb = "bucket_new 10 20 0"
  have lim: "(22::nat) \<le> u64_max" by (simp add: u64_max_def)
  then have ok: "bucket_ok ?tb" by (intro bucket_ok_new) auto
  have tb: "tb_burst ?tb = 20" "tb_tokens_scaled ?tb = 20 * NANOS_PER_SEC" "tb_last ?tb = 0" "tb_rate_bps ?tb = 10"
    using lim by (simp_all add: bucket_new_def Let_def need_exact)
  show ?thesis using acquire_completes [OF ok, of 9 "\<lambda>_. 7" 50] lim by (auto simp: tb)
qed

end
