(* ===== verification/Udp_Flows.thy ===== *)
theory Udp_Flows
  imports Rate_Limits Forward_Config "HOL-Library.AList"
begin

text \<open>
  The UDP flow table, \<open>crates/spt-forward/src/udp.rs\<close>, and the per-peer table built on it,
  \<open>udp_ssh2.rs\<close>.  The concurrent map is an association list with distinct keys.  A call of
  \<open>touch_or_insert\<close> reads the number of flows before it locks the entry, so it is two steps that
  calls from other tasks can come between; what the code claims about the resulting overshoot is
  proved for every interleaving.
\<close>

section \<open>Model\<close>

record UdpFlowTableConfig =
  fc_idle_timeout :: duration
  fc_max_datagram_size :: nat
  fc_max_flows :: nat

definition DEFAULT_MAX_FLOWS :: nat where
  "DEFAULT_MAX_FLOWS = 65536"

definition default_flow_config :: UdpFlowTableConfig where
  "default_flow_config =
     \<lparr>fc_idle_timeout = from_secs 60, fc_max_datagram_size = 1500, fc_max_flows = DEFAULT_MAX_FLOWS\<rparr>"

record 'v FlowEntry =
  fe_value :: 'v
  fe_last_seen :: instant

record ('k, 'v) UdpFlowTable =
  ft_cfg :: UdpFlowTableConfig
  ft_map :: "('k \<times> 'v FlowEntry) list"
  ft_oversized :: nat
  ft_rejected_full :: nat
  ft_pps_gate :: RateGate
  ft_rejected_pps :: nat
  ft_byte_gate :: TokenBucket
  ft_rejected_bytes :: nat

text \<open>\<open>fetch_add(1)\<close> on an \<open>AtomicU64\<close>.\<close>

definition incr_u64 :: "nat \<Rightarrow> nat" where
  "incr_u64 c = (c + 1) mod 2 ^ 64"

definition flow_table_with_pps :: "UdpFlowTableConfig \<Rightarrow> nat \<Rightarrow> instant \<Rightarrow> ('k, 'v) UdpFlowTable" where
  "flow_table_with_pps cfg max_packets_per_sec now =
     \<lparr>ft_cfg = cfg, ft_map = [], ft_oversized = 0, ft_rejected_full = 0,
      ft_pps_gate = rate_gate_new max_packets_per_sec max_packets_per_sec now, ft_rejected_pps = 0,
      ft_byte_gate = bucket_unlimited now, ft_rejected_bytes = 0\<rparr>"

definition flow_table_new :: "UdpFlowTableConfig \<Rightarrow> instant \<Rightarrow> ('k, 'v) UdpFlowTable" where
  "flow_table_new cfg now = flow_table_with_pps cfg 0 now"

definition with_byte_rate :: "nat \<Rightarrow> nat \<Rightarrow> instant \<Rightarrow> ('k, 'v) UdpFlowTable \<Rightarrow> ('k, 'v) UdpFlowTable" where
  "with_byte_rate max_bytes_per_sec burst_bytes now t =
     t\<lparr>ft_byte_gate := bucket_new max_bytes_per_sec burst_bytes now\<rparr>"

definition admit_bytes :: "nat \<Rightarrow> instant \<Rightarrow> ('k, 'v) UdpFlowTable \<Rightarrow> bool \<times> ('k, 'v) UdpFlowTable" where
  "admit_bytes len now t =
     (let (wait, g) = try_acquire len now (ft_byte_gate t); t1 = t\<lparr>ft_byte_gate := g\<rparr> in
      if wait = None then (True, t1)
      else (False, t1\<lparr>ft_rejected_bytes := incr_u64 (ft_rejected_bytes t1)\<rparr>))"

definition admit_packet :: "instant \<Rightarrow> ('k, 'v) UdpFlowTable \<Rightarrow> bool \<times> ('k, 'v) UdpFlowTable" where
  "admit_packet now t =
     (let (ok, g) = admit now (ft_pps_gate t); t1 = t\<lparr>ft_pps_gate := g\<rparr> in
      if ok then (True, t1) else (False, t1\<lparr>ft_rejected_pps := incr_u64 (ft_rejected_pps t1)\<rparr>))"

definition flow_count :: "('k, 'v) UdpFlowTable \<Rightarrow> nat" where
  "flow_count t = length (ft_map t)"

definition admit_size :: "nat \<Rightarrow> ('k, 'v) UdpFlowTable \<Rightarrow> bool \<times> ('k, 'v) UdpFlowTable" where
  "admit_size len t =
     (if fc_max_datagram_size (ft_cfg t) < len
      then (False, t\<lparr>ft_oversized := incr_u64 (ft_oversized t)\<rparr>) else (True, t))"

text \<open>The two steps of \<open>touch_or_insert\<close>: the snapshot, and the work under the entry lock.\<close>

definition touch_snapshot :: "('k, 'v) UdpFlowTable \<Rightarrow> nat" where
  "touch_snapshot t = flow_count t mod 2 ^ 32"

definition touch_commit ::
  "nat \<Rightarrow> 'k \<Rightarrow> 'v \<Rightarrow> instant \<Rightarrow> ('k, 'v) UdpFlowTable \<Rightarrow> bool \<times> ('k, 'v) UdpFlowTable" where
  "touch_commit len_snapshot key made now t =
     (case map_of (ft_map t) key of
        Some e \<Rightarrow> (True, t\<lparr>ft_map := AList.update key (e\<lparr>fe_last_seen := now\<rparr>) (ft_map t)\<rparr>)
      | None \<Rightarrow>
          if 0 < fc_max_flows (ft_cfg t) \<and> fc_max_flows (ft_cfg t) \<le> len_snapshot
          then (False, t\<lparr>ft_rejected_full := incr_u64 (ft_rejected_full t)\<rparr>)
          else (True, t\<lparr>ft_map := AList.update key \<lparr>fe_value = made, fe_last_seen = now\<rparr> (ft_map t)\<rparr>))"

definition touch_or_insert ::
  "'k \<Rightarrow> 'v \<Rightarrow> instant \<Rightarrow> ('k, 'v) UdpFlowTable \<Rightarrow> bool \<times> ('k, 'v) UdpFlowTable" where
  "touch_or_insert key made now t = touch_commit (touch_snapshot t) key made now t"

definition with_value :: "'k \<Rightarrow> ('k, 'v) UdpFlowTable \<Rightarrow> 'v option" where
  "with_value key t = map_option fe_value (map_of (ft_map t) key)"

definition evict_cutoff :: "instant \<Rightarrow> ('k, 'v) UdpFlowTable \<Rightarrow> instant" where
  "evict_cutoff now t =
     (case checked_sub_instant now (fc_idle_timeout (ft_cfg t)) of Some c \<Rightarrow> c | None \<Rightarrow> now)"

definition evict_idle :: "instant \<Rightarrow> ('k, 'v) UdpFlowTable \<Rightarrow> nat \<times> ('k, 'v) UdpFlowTable" where
  "evict_idle now t =
     (let cutoff = evict_cutoff now t;
          t1 = t\<lparr>ft_map := filter (\<lambda>(k, e). cutoff \<le> fe_last_seen e) (ft_map t)\<rparr>
      in (flow_count t - flow_count t1, t1))"

section \<open>Per-peer table of the SSH2 backend\<close>

definition DEFAULT_IDLE_TTL :: duration where
  "DEFAULT_IDLE_TTL = from_secs 60"

definition MAX_FRAME_BYTES :: nat where
  "MAX_FRAME_BYTES = 64 * 1024"

definition resolve_udp_mode :: "Forward \<Rightarrow> UdpMode" where
  "resolve_udp_mode f = (case fw_udp_mode f of Some m \<Rightarrow> m | None \<Rightarrow> UM_TcpFramed)"

record 'v PeerEntry =
  pe_value :: 'v
  pe_local_port :: nat

definition peer_table_with_max_flows ::
  "duration \<Rightarrow> nat \<Rightarrow> instant \<Rightarrow> ('k, 'v PeerEntry) UdpFlowTable" where
  "peer_table_with_max_flows idle_ttl max_flows now =
     flow_table_new \<lparr>fc_idle_timeout = idle_ttl, fc_max_datagram_size = MAX_FRAME_BYTES, fc_max_flows = max_flows\<rparr> now"

definition peer_table_new :: "duration \<Rightarrow> instant \<Rightarrow> ('k, 'v PeerEntry) UdpFlowTable" where
  "peer_table_new idle_ttl now = peer_table_with_max_flows idle_ttl DEFAULT_MAX_FLOWS now"

text \<open>The entry lock is free.\<close>

definition peer_local_port :: "'k \<Rightarrow> ('k, 'v PeerEntry) UdpFlowTable \<Rightarrow> nat option" where
  "peer_local_port peer t = map_option pe_local_port (with_value peer t)"

section \<open>Interleaved calls\<close>

text \<open>The table together with the snapshots of the calls that have not yet committed.\<close>

record ('k, 'v) shared_table =
  sh_table :: "('k, 'v) UdpFlowTable"
  sh_pending :: "('k \<times> nat) list"

datatype ('k, 'v) flow_op = Begin 'k | Commit nat 'v instant | Evict instant

definition flow_step :: "('k, 'v) flow_op \<Rightarrow> ('k, 'v) shared_table \<Rightarrow> ('k, 'v) shared_table option" where
  "flow_step x s =
     (case x of
        Begin key \<Rightarrow> Some (s\<lparr>sh_pending := sh_pending s @ [(key, touch_snapshot (sh_table s))]\<rparr>)
      | Commit i made now \<Rightarrow>
          if i < length (sh_pending s) then
            let (key, snap) = sh_pending s ! i in
            Some (s\<lparr>sh_table := snd (touch_commit snap key made now (sh_table s)),
                    sh_pending := take i (sh_pending s) @ drop (Suc i) (sh_pending s)\<rparr>)
          else None
      | Evict now \<Rightarrow> Some (s\<lparr>sh_table := snd (evict_idle now (sh_table s))\<rparr>))"

text \<open>A run in which at most \<open>w\<close> calls are ever in progress.\<close>

fun flow_run :: "nat \<Rightarrow> ('k, 'v) flow_op list \<Rightarrow> ('k, 'v) shared_table \<Rightarrow> ('k, 'v) shared_table option" where
  "flow_run w [] s = Some s"
| "flow_run w (x # xs) s =
     (case flow_step x s of
        None \<Rightarrow> None
      | Some s' \<Rightarrow> if length (sh_pending s') \<le> w then flow_run w xs s' else None)"

text \<open>The pending calls that will still insert.\<close>

definition low :: "nat \<Rightarrow> ('k \<times> nat) list \<Rightarrow> nat" where
  "low m ps = length (filter (\<lambda>(k, snap). snap < m) ps)"

definition table_ok :: "nat \<Rightarrow> ('k, 'v) shared_table \<Rightarrow> bool" where
  "table_ok w s \<longleftrightarrow>
     (let m = fc_max_flows (ft_cfg (sh_table s)) in
      distinct (map fst (ft_map (sh_table s))) \<and> length (sh_pending s) \<le> w
      \<and> flow_count (sh_table s) + low m (sh_pending s) \<le> m - 1 + w)"

lemma low_append [simp]: "low m (ps @ qs) = low m ps + low m qs"
  by (simp add: low_def)

lemma low_simps [simp]: "low m [] = 0" "low m ((k, x) # ps) = (if x < m then 1 else 0) + low m ps"
  by (simp_all add: low_def)

lemma low_le: "low m ps \<le> length ps"
  by (simp add: low_def)

lemma low_remove:
  assumes "i < length ps" "ps ! i = (k, x)"
  shows "low m (take i ps @ drop (Suc i) ps) + (if x < m then 1 else 0) = low m ps"
proof -
  have "low m ps = low m (take i ps @ [(k, x)] @ drop (Suc i) ps)"
    using id_take_nth_drop [OF assms(1)] assms(2) by simp
  then show ?thesis by simp
qed

lemma length_update_new: "map_of xs k = None \<Longrightarrow> length (AList.update k v xs) = Suc (length xs)"
  by (induction xs) (auto split: if_splits)

lemma length_update_old: "map_of xs k = Some e \<Longrightarrow> length (AList.update k v xs) = length xs"
  by (induction xs) (auto split: if_splits)

lemma touch_commit_cfg [simp]: "ft_cfg (snd (touch_commit snap key made now t)) = ft_cfg t"
  by (simp add: touch_commit_def split: option.splits)

lemma evict_cfg [simp]: "ft_cfg (snd (evict_idle now t)) = ft_cfg t"
  by (simp add: evict_idle_def Let_def)

lemma flow_step_cfg: "flow_step x s = Some s' \<Longrightarrow> ft_cfg (sh_table s') = ft_cfg (sh_table s)"
  by (auto simp: flow_step_def split_beta Let_def split: flow_op.splits if_splits)

lemma touch_commit_count:
  "flow_count (snd (touch_commit snap key made now t))
     \<le> flow_count t + (if fc_max_flows (ft_cfg t) = 0 \<or> snap < fc_max_flows (ft_cfg t) then 1 else 0)"
  by (auto simp: touch_commit_def flow_count_def length_update_new length_update_old split: option.splits)

lemma touch_commit_distinct:
  "distinct (map fst (ft_map t)) \<Longrightarrow> distinct (map fst (ft_map (snd (touch_commit snap key made now t))))"
  by (auto simp: touch_commit_def distinct_update split: option.splits)

lemma evict_sub:
  "flow_count (snd (evict_idle now t)) \<le> flow_count t"
  "distinct (map fst (ft_map t)) \<Longrightarrow> distinct (map fst (ft_map (snd (evict_idle now t))))"
  by (simp_all add: evict_idle_def flow_count_def Let_def distinct_map_filter)

lemma table_ok_step:
  assumes "table_ok w s" "flow_step x s = Some s'" "length (sh_pending s') \<le> w"
    "0 < fc_max_flows (ft_cfg (sh_table s))" "fc_max_flows (ft_cfg (sh_table s)) + w \<le> 2 ^ 32"
  shows "table_ok w s'"
proof (cases x)
  case (Begin key)
  let ?t = "sh_table s" and ?m = "fc_max_flows (ft_cfg (sh_table s))"
  have "flow_count ?t < 2 ^ 32" using assms(1,4,5) unfolding table_ok_def Let_def by linarith
  then have snap: "touch_snapshot ?t = flow_count ?t" by (simp add: touch_snapshot_def)
  have s': "s' = s\<lparr>sh_pending := sh_pending s @ [(key, flow_count ?t)]\<rparr>"
    using assms(2) Begin snap by (simp add: flow_step_def)
  then have "low ?m (sh_pending s) + 1 \<le> w" using low_le [of ?m "sh_pending s"] assms(3) by simp
  with s' assms(1,3) show ?thesis by (auto simp: table_ok_def Let_def)
next
  case (Commit i made now)
  obtain key snap where p: "i < length (sh_pending s)" "sh_pending s ! i = (key, snap)"
    using assms(2) Commit by (cases "sh_pending s ! i") (auto simp: flow_step_def split: if_splits)
  then have s': "s' = s\<lparr>sh_table := snd (touch_commit snap key made now (sh_table s)),
      sh_pending := take i (sh_pending s) @ drop (Suc i) (sh_pending s)\<rparr>"
    using assms(2) Commit by (simp add: flow_step_def)
  show ?thesis
    using assms(1,3,4) touch_commit_count [of snap key made now "sh_table s"]
      low_remove [OF p, of "fc_max_flows (ft_cfg (sh_table s))"]
    by (auto simp: s' table_ok_def Let_def touch_commit_distinct simp del: low_append split: if_splits)
next
  case (Evict now)
  with assms(1,2) evict_sub(1) [of now "sh_table s"] show ?thesis
    by (auto simp: flow_step_def table_ok_def Let_def evict_sub(2))
qed

lemma table_ok_run:
  assumes "table_ok w s" "flow_run w xs s = Some s'"
    "0 < fc_max_flows (ft_cfg (sh_table s))" "fc_max_flows (ft_cfg (sh_table s)) + w \<le> 2 ^ 32"
  shows "table_ok w s' \<and> ft_cfg (sh_table s') = ft_cfg (sh_table s)"
  using assms
proof (induction xs arbitrary: s)
  case (Cons x xs)
  then obtain s1 where s1: "flow_step x s = Some s1" "length (sh_pending s1) \<le> w" "flow_run w xs s1 = Some s'"
    by (auto split: option.splits if_splits)
  show ?case
    using Cons.IH [OF table_ok_step [OF Cons.prems(1) s1(1,2) Cons.prems(3,4)] s1(3)] flow_step_cfg [OF s1(1)]
      Cons.prems(3,4) by simp
qed simp

section \<open>Properties\<close>

text \<open>
  the flow table is bounded under concurrency: with at most \<open>w\<close> calls of \<open>touch_or_insert\<close> in
  progress at any time, in any interleaving with evictions, it never holds more than
  \<open>max_flows + w - 1\<close> flows (exactly \<open>max_flows\<close> without concurrency), one per key.
\<close>
theorem flow_table_bounded:
  assumes "0 < w" "0 < fc_max_flows cfg" "fc_max_flows cfg + w \<le> 2 ^ 32"
    "flow_run w xs \<lparr>sh_table = flow_table_with_pps cfg pps t0, sh_pending = []\<rparr> = Some s"
  shows "flow_count (sh_table s) \<le> fc_max_flows cfg + w - 1 \<and> distinct (map fst (ft_map (sh_table s)))"
proof -
  have "table_ok w s \<and> ft_cfg (sh_table s) = cfg"
    using table_ok_run [OF _ assms(4)] assms(2,3)
    by (auto simp: table_ok_def flow_table_with_pps_def flow_count_def Let_def)
  then show ?thesis using assms(1,2) by (auto simp: table_ok_def Let_def)
qed

theorem flow_table_bounded_witness:
  "\<exists>s. flow_run 2 [Begin ''a'', Begin ''b'', Commit 0 (7::nat) 5, Commit 0 8 6, Begin ''c'', Commit 0 9 7]
      \<lparr>sh_table = flow_table_with_pps \<lparr>fc_idle_timeout = 60, fc_max_datagram_size = 9, fc_max_flows = 2\<rparr> 0 0, sh_pending = []\<rparr>
     = Some s \<and> flow_count (sh_table s) \<le> 3"
proof -
  let ?cfg = "\<lparr>fc_idle_timeout = 60, fc_max_datagram_size = 9, fc_max_flows = 2\<rparr>"
  let ?s = "\<lparr>sh_table = flow_table_with_pps ?cfg 0 0, sh_pending = []\<rparr>"
  let ?xs = "[Begin ''a'', Begin ''b'', Commit 0 (7::nat) 5, Commit 0 8 6, Begin ''c'', Commit 0 9 7]"
  have "\<not> Option.is_none (flow_run 2 ?xs ?s)"
    by (simp add: flow_step_def touch_snapshot_def touch_commit_def flow_count_def flow_table_with_pps_def)
  then obtain s where s: "flow_run 2 ?xs ?s = Some s" by (cases "flow_run 2 ?xs ?s") auto
  with flow_table_bounded [of 2 ?cfg ?xs 0 0 s] show ?thesis by auto
qed

end
