(* ===== verification/Access_Control.thy ===== *)
theory Access_Control
  imports Std_Text
begin

text \<open>
  Address based access control: the CIDR list of \<open>crates/spt-net/src/cidr.rs\<close>, the per-forward
  policy of \<open>crates/spt-forward/src/acl.rs\<close> and the recursion scope of the embedded resolver,
  \<open>crates/spt-dns/src/forward_acl.rs\<close>.  Networks are values of the \<open>ipnet\<close> crate; the list only
  asks them whether they contain an address, so \<open>contains\<close> is an argument.
\<close>

unbundle bit_operations_syntax

section \<open>CIDR lists\<close>

record 'net CidrAcl =
  acl_allow :: "'net list"
  acl_deny :: "'net list"

definition cidr_acl_default :: "'net CidrAcl" where
  "cidr_acl_default = \<lparr>acl_allow = [], acl_deny = []\<rparr>"

text \<open>\<open>Ipv6Addr::segments\<close> and \<open>Ipv6Addr::octets\<close>.\<close>

definition segment :: "nat \<Rightarrow> 128 word \<Rightarrow> nat" where
  "segment i v6 = (unat v6 div 2 ^ (112 - 16 * i)) mod 2 ^ 16"

definition octet :: "nat \<Rightarrow> 128 word \<Rightarrow> nat" where
  "octet i v6 = (unat v6 div 2 ^ (120 - 8 * i)) mod 2 ^ 8"

definition v4_from_mapped :: "128 word \<Rightarrow> 32 word option" where
  "v4_from_mapped v6 =
     (if list_all (\<lambda>i. segment i v6 = 0) [0..<5] \<and> segment 5 v6 = 65535
      then Some (v4_from_octets (map (\<lambda>i. octet i v6) [12, 13, 14, 15])) else None)"

definition unmap_v4 :: "IpAddr \<Rightarrow> IpAddr" where
  "unmap_v4 ip =
     (case ip of
        V6 v6 \<Rightarrow> (case v4_from_mapped v6 of Some v4 \<Rightarrow> V4 v4 | None \<Rightarrow> V6 v6)
      | V4 v4 \<Rightarrow> V4 v4)"

definition cidr_matches :: "('net \<Rightarrow> IpAddr \<Rightarrow> bool) \<Rightarrow> 'net CidrAcl \<Rightarrow> IpAddr \<Rightarrow> bool" where
  "cidr_matches contains acl ip0 =
     (let ip = unmap_v4 ip0 in
      if list_ex (\<lambda>net. contains net ip) (acl_deny acl) then False
      else if acl_allow acl = [] then True
      else list_ex (\<lambda>net. contains net ip) (acl_allow acl))"

section \<open>Per-forward policy\<close>

datatype AclDecision = Allow | Deny

definition is_allow :: "AclDecision \<Rightarrow> bool" where
  "is_allow d = (case d of Allow \<Rightarrow> True | Deny \<Rightarrow> False)"

record 'net ForwardAcl =
  fa_inner :: "'net CidrAcl"
  fa_default_allow :: bool

definition acl_allow_all :: "'net ForwardAcl" where
  "acl_allow_all = \<lparr>fa_inner = cidr_acl_default, fa_default_allow = True\<rparr>"

definition acl_deny_all :: "'net ForwardAcl" where
  "acl_deny_all = \<lparr>fa_inner = cidr_acl_default, fa_default_allow = False\<rparr>"

definition decide :: "('net \<Rightarrow> IpAddr \<Rightarrow> bool) \<Rightarrow> 'net ForwardAcl \<Rightarrow> IpAddr \<Rightarrow> AclDecision" where
  "decide contains a ip =
     (if fa_default_allow a then (if cidr_matches contains (fa_inner a) ip then Allow else Deny)
      else if acl_allow (fa_inner a) = [] then Deny
      else if cidr_matches contains (fa_inner a) ip then Allow
      else Deny)"

section \<open>Recursion scope of the resolver\<close>

datatype ForwardScope = LoopbackOnly | PrivateNetworks | AnyClient

text \<open>\<open>is_loopback\<close>, \<open>is_private\<close> and \<open>is_link_local\<close> of the standard library.\<close>

definition v4_octet :: "nat \<Rightarrow> 32 word \<Rightarrow> nat" where
  "v4_octet i v4 = (unat v4 div 2 ^ (24 - 8 * i)) mod 2 ^ 8"

definition is_loopback :: "IpAddr \<Rightarrow> bool" where
  "is_loopback ip = (case ip of V4 v4 \<Rightarrow> v4_octet 0 v4 = 127 | V6 v6 \<Rightarrow> v6 = 1)"

definition is_private_v4 :: "32 word \<Rightarrow> bool" where
  "is_private_v4 v4 \<longleftrightarrow>
     v4_octet 0 v4 = 10
     \<or> (v4_octet 0 v4 = 172 \<and> 16 \<le> v4_octet 1 v4 \<and> v4_octet 1 v4 \<le> 31)
     \<or> (v4_octet 0 v4 = 192 \<and> v4_octet 1 v4 = 168)"

definition is_link_local_v4 :: "32 word \<Rightarrow> bool" where
  "is_link_local_v4 v4 \<longleftrightarrow> v4_octet 0 v4 = 169 \<and> v4_octet 1 v4 = 254"

definition is_private :: "IpAddr \<Rightarrow> bool" where
  "is_private ip =
     (case ip of
        V4 v4 \<Rightarrow> is_private_v4 v4 \<or> is_link_local_v4 v4
      | V6 v6 \<Rightarrow>
          (let seg0 = (word_of_nat (segment 0 v6) :: 16 word);
               ula = (seg0 AND 0xfe00) = 0xfc00;
               ll = (seg0 AND 0xffc0) = 0xfe80
           in ula \<or> ll))"

definition scope_allows :: "ForwardScope \<Rightarrow> IpAddr \<Rightarrow> bool" where
  "scope_allows scope src =
     (case scope of
        AnyClient \<Rightarrow> True
      | LoopbackOnly \<Rightarrow> is_loopback src
      | PrivateNetworks \<Rightarrow> is_loopback src \<or> is_private src)"

section \<open>Mapped addresses\<close>

text \<open>The IPv4-mapped IPv6 form of an IPv4 address.\<close>

definition to_mapped :: "32 word \<Rightarrow> 128 word" where
  "to_mapped v4 = word_of_nat (65535 * 2 ^ 32 + unat v4)"

lemma unat_to_mapped: "unat (to_mapped v4) = 65535 * 2 ^ 32 + unat v4"
proof -
  have "unat v4 < 2 ^ 32" using unsigned_less [of v4] by simp
  then show ?thesis unfolding to_mapped_def by (subst unat_of_nat) simp
qed

lemma octets_recombine:
  fixes x :: nat
  defines "a \<equiv> x div 16777216 mod 256" and "b \<equiv> x div 65536 mod 256" and "c \<equiv> x div 256 mod 256" and "d \<equiv> x mod 256"
  shows "((a * 256 + b) * 256 + c) * 256 + d = x mod 4294967296"
proof -
  have "x mod 4294967296 = x mod (256 * 16777216)" by simp
  also have "\<dots> = 256 * (x div 256 mod 16777216) + d" unfolding d_def by (rule mod_mult2_eq)
  also have "x div 256 mod 16777216 = x div 256 mod (256 * 65536)" by simp
  also have "\<dots> = 256 * (x div 256 div 256 mod 65536) + c" unfolding c_def by (rule mod_mult2_eq)
  also have "x div 256 div 256 mod 65536 = x div 65536 mod (256 * 256)" by (simp flip: div_mult2_eq)
  also have "\<dots> = 256 * (x div 65536 div 256 mod 256) + b" unfolding b_def by (rule mod_mult2_eq)
  also have "x div 65536 div 256 mod 256 = a" unfolding a_def by (simp flip: div_mult2_eq)
  finally show ?thesis by (simp add: mult.commute)
qed

lemma low_octets:
  "foldl (\<lambda>acc b. acc * 256 + b) 0 (map (\<lambda>i. octet i w) [12, 13, 14, 15]) = unat w mod 4294967296"
proof -
  have "octet 12 w = unat w div 16777216 mod 256" "octet 13 w = unat w div 65536 mod 256"
    "octet 14 w = unat w div 256 mod 256" "octet 15 w = unat w mod 256"
    by (simp_all add: octet_def)
  then show ?thesis using octets_recombine [of "unat w"] by (simp only: list.map foldl.simps mult_0 add_0)
qed

lemma v4_from_mapped_to_mapped: "v4_from_mapped (to_mapped v4) = Some v4"
proof -
  have lt: "unat v4 < 4294967296" using unsigned_less [of v4] by simp
  have "(4294967296 * 65535 + unat v4) mod 4294967296 = unat v4"
    using lt by (simp only: mod_mult_self4 mod_less)
  then have "unat (to_mapped v4) mod 4294967296 = unat v4" by (simp add: unat_to_mapped)
  then have "v4_from_octets (map (\<lambda>i. octet i (to_mapped v4)) [12, 13, 14, 15]) = of_nat (unat v4)"
    unfolding v4_from_octets_def low_octets by (simp only:)
  moreover have "segment i (to_mapped v4) = 0" if "i < 5" for i
  proof -
    have "unat (to_mapped v4) < 2 ^ 48" using lt by (simp add: unat_to_mapped)
    also have "(2::nat) ^ 48 \<le> 2 ^ (112 - 16 * i)" using that by (intro power_increasing) auto
    finally show ?thesis by (simp add: segment_def)
  qed
  moreover have "segment 5 (to_mapped v4) = 65535"
  proof -
    have "(65535 * 2 ^ 32 + unat v4) div 2 ^ 32 = 65535" using lt by (simp add: div_mult_self3)
    then show ?thesis by (simp only: segment_def unat_to_mapped) simp
  qed
  ultimately show ?thesis by (simp add: v4_from_mapped_def list_all_iff)
qed

lemma unmap_to_mapped [simp]: "unmap_v4 (V6 (to_mapped v4)) = unmap_v4 (V4 v4)"
  by (simp add: unmap_v4_def v4_from_mapped_to_mapped)

section \<open>Properties\<close>

text \<open>
  The per-forward access decision is exactly: no deny rule contains the peer, and either some
  allow rule does, or there are no allow rules and the forward allows by default; and an IPv4 peer
  cannot change the decision by connecting under its IPv4-mapped IPv6 address.
\<close>
theorem acl_decision_exact:
  "(decide contains a ip = Allow \<longleftrightarrow>
      (\<nexists>net. net \<in> set (acl_deny (fa_inner a)) \<and> contains net (unmap_v4 ip))
      \<and> ((\<exists>net. net \<in> set (acl_allow (fa_inner a)) \<and> contains net (unmap_v4 ip))
          \<or> (fa_default_allow a \<and> acl_allow (fa_inner a) = [])))
   \<and> decide contains a (V6 (to_mapped v4)) = decide contains a (V4 v4)"
  by (auto simp: decide_def cidr_matches_def list_ex_iff Let_def)

end
