(* ===== verification/Accept_Loop.thy ===== *)
theory Accept_Loop
  imports Rate_Limits Access_Control Protocol_Types "HOL-Library.Sublist"
begin

text \<open>
  The accept loop of a local forward and the bind conflict policies,
  \<open>crates/spt-forward/src/local_tcp.rs\<close>.  An input is what resolves the \<open>select!\<close> of the loop (an
  accept result, the shutdown signal) or the end of a connection handler, which drops its permit.
  The result of \<open>TcpListener::bind\<close> is an argument.
\<close>

section \<open>I/O errors\<close>

datatype ErrorKind =
    K_ConnectionAborted | K_WouldBlock | K_Interrupted | K_AddrInUse | K_Other string

record io_error =
  io_kind :: ErrorKind
  io_raw_os_error :: "int option"

definition is_transient_accept_error :: "io_error \<Rightarrow> bool" where
  "is_transient_accept_error e =
     (if io_kind e \<in> {K_ConnectionAborted, K_WouldBlock, K_Interrupted} then True
      else case io_raw_os_error e of
        Some code \<Rightarrow> code = 24 \<or> code = 23
      | None \<Rightarrow> False)"

section \<open>The loop\<close>

datatype Rejection = RejectAcl | RejectRate | RejectCap

record 'net AcceptLoop =
  al_acl :: "'net ForwardAcl"
  al_gate :: ConnectionGate
  al_rate_gate :: RateGate
  al_live :: nat
  al_result :: "(io_error, unit) result option"

definition accept_loop_new :: "'net ForwardAcl \<Rightarrow> ConnectionGate \<Rightarrow> instant \<Rightarrow> 'net AcceptLoop" where
  "accept_loop_new acl gate now =
     \<lparr>al_acl = acl, al_gate = gate, al_rate_gate = rate_gate_unlimited now, al_live = 0, al_result = None\<rparr>"

definition with_rate_gate :: "RateGate \<Rightarrow> 'net AcceptLoop \<Rightarrow> 'net AcceptLoop" where
  "with_rate_gate g l = l\<lparr>al_rate_gate := g\<rparr>"

text \<open>The body of the loop for one accepted connection; \<open>None\<close>: the handler is spawned.\<close>

definition accept_one ::
  "('net \<Rightarrow> IpAddr \<Rightarrow> bool) \<Rightarrow> IpAddr \<Rightarrow> instant \<Rightarrow> 'net AcceptLoop \<Rightarrow> Rejection option \<times> 'net AcceptLoop" where
  "accept_one contains peer now l =
     (if \<not> is_allow (decide contains (al_acl l) peer) then (Some RejectAcl, l)
      else
        let (admitted, rg) = admit now (al_rate_gate l); l1 = l\<lparr>al_rate_gate := rg\<rparr> in
        if \<not> admitted then (Some RejectRate, l1)
        else
          let (permit, g) = gate_try_acquire (al_gate l1); l2 = l1\<lparr>al_gate := g\<rparr> in
          if \<not> permit then (Some RejectCap, l2)
          else (None, l2\<lparr>al_live := al_live l2 + 1\<rparr>))"

datatype accept_input =
    Accepted IpAddr instant
  | AcceptFailed io_error
  | ShutdownSignal
  | HandlerDone

text \<open>
  One turn: the peers handed to the handler, and the new state.  \<open>None\<close>: the input cannot occur (the
  loop has returned, or no handler is running).  Handlers run on after the loop has returned.
\<close>

definition accept_step ::
  "('net \<Rightarrow> IpAddr \<Rightarrow> bool) \<Rightarrow> accept_input \<Rightarrow> 'net AcceptLoop
     \<Rightarrow> ((IpAddr \<times> instant) list \<times> 'net AcceptLoop) option" where
  "accept_step contains i l =
     (case i of
        HandlerDone \<Rightarrow>
          if al_live l = 0 then None
          else Some ([], l\<lparr>al_gate := gate_release (al_gate l), al_live := al_live l - 1\<rparr>)
      | Accepted peer now \<Rightarrow>
          if al_result l \<noteq> None then None
          else (case accept_one contains peer now l of
                  (None, l') \<Rightarrow> Some ([(peer, now)], l') | (Some _, l') \<Rightarrow> Some ([], l'))
      | AcceptFailed e \<Rightarrow>
          if al_result l \<noteq> None then None
          else if is_transient_accept_error e then Some ([], l)
          else Some ([], l\<lparr>al_result := Some (Inl e)\<rparr>)
      | ShutdownSignal \<Rightarrow>
          if al_result l \<noteq> None then None else Some ([], l\<lparr>al_result := Some (Inr ())\<rparr>))"

fun accept_run ::
  "('net \<Rightarrow> IpAddr \<Rightarrow> bool) \<Rightarrow> accept_input list \<Rightarrow> 'net AcceptLoop
     \<Rightarrow> ((IpAddr \<times> instant) list \<times> 'net AcceptLoop) option" where
  "accept_run contains [] l = Some ([], l)"
| "accept_run contains (i # is) l =
     (case accept_step contains i l of
        None \<Rightarrow> None
      | Some (hs, l1) \<Rightarrow> map_option (\<lambda>(hs', l2). (hs @ hs', l2)) (accept_run contains is l1))"

section \<open>Binding\<close>

definition BIND_MAX_ATTEMPTS :: nat where
  "BIND_MAX_ATTEMPTS = 64"

datatype BindFailure = LocalBindFailed SocketAddr io_error

text \<open>
  \<open>bind k a\<close> is the result of the k-th \<open>TcpListener::bind\<close> on \<open>a\<close>: the error, or the local address of
  the listener (the requested one if it cannot be read).
\<close>

fun bind_retry ::
  "(nat \<Rightarrow> SocketAddr \<Rightarrow> (io_error, SocketAddr) result) \<Rightarrow> nat \<Rightarrow> nat \<Rightarrow> io_error option \<Rightarrow> SocketAddr
     \<Rightarrow> (BindFailure, SocketAddr) result" where
  "bind_retry bind k 0 lst addr =
     Inl (LocalBindFailed addr
       (case lst of Some e \<Rightarrow> e | None \<Rightarrow> \<lparr>io_kind = K_AddrInUse, io_raw_os_error = None\<rparr>))"
| "bind_retry bind k (Suc attempts) lst addr =
     (case bind k addr of
        Inr bound \<Rightarrow> Inr bound
      | Inl e \<Rightarrow>
          if io_kind e = K_AddrInUse then bind_retry bind (Suc k) attempts (Some e) addr
          else Inl (LocalBindFailed addr e))"

fun bind_next_port ::
  "(nat \<Rightarrow> SocketAddr \<Rightarrow> (io_error, SocketAddr) result) \<Rightarrow> nat \<Rightarrow> nat \<Rightarrow> io_error option \<Rightarrow> SocketAddr
     \<Rightarrow> (BindFailure, SocketAddr) result" where
  "bind_next_port bind offset 0 lst addr =
     Inl (LocalBindFailed addr
       (case lst of Some e \<Rightarrow> e | None \<Rightarrow> \<lparr>io_kind = K_AddrInUse, io_raw_os_error = None\<rparr>))"
| "bind_next_port bind offset (Suc attempts) lst addr =
     (if u16_max < snd addr + offset then bind_next_port bind offset 0 lst addr
      else
        let candidate = (fst addr, snd addr + offset) in
        case bind offset candidate of
          Inr bound \<Rightarrow> Inr bound
        | Inl e \<Rightarrow>
            if io_kind e = K_AddrInUse then bind_next_port bind (Suc offset) attempts (Some e) addr
            else Inl (LocalBindFailed candidate e))"

definition bind_with_policy ::
  "(nat \<Rightarrow> SocketAddr \<Rightarrow> (io_error, SocketAddr) result) \<Rightarrow> SocketAddr \<Rightarrow> BindConflictPolicy
     \<Rightarrow> (BindFailure, SocketAddr) result" where
  "bind_with_policy bind addr policy =
     (case policy of
        BCP_Fail \<Rightarrow>
          (case bind 0 addr of Inr bound \<Rightarrow> Inr bound | Inl e \<Rightarrow> Inl (LocalBindFailed addr e))
      | BCP_Retry \<Rightarrow> bind_retry bind 0 BIND_MAX_ATTEMPTS None addr
      | BCP_NextPort \<Rightarrow> bind_next_port bind 0 BIND_MAX_ATTEMPTS None addr)"

section \<open>Invariant of the loop\<close>

text \<open>A running handler holds exactly one permit.\<close>

definition loop_ok :: "nat \<Rightarrow> 'net AcceptLoop \<Rightarrow> bool" where
  "loop_ok permits l \<longleftrightarrow> cg_available (al_gate l) + al_live l = permits"

lemma loop_ok_step:
  assumes "loop_ok permits l" "accept_step contains i l = Some (hs, l')"
  shows "loop_ok permits l'"
  using assms
  by (auto simp: loop_ok_def accept_step_def accept_one_def gate_try_acquire_def gate_release_def split_beta Let_def
      split: accept_input.splits if_splits option.splits)

lemma loop_ok_run: "loop_ok permits l \<Longrightarrow> accept_run contains is l = Some (hs, l') \<Longrightarrow> loop_ok permits l'"
  by (induction "is" arbitrary: l hs) (auto split: option.splits intro: loop_ok_step)

lemma accept_step_acl:
  assumes "accept_step contains i l = Some (hs, l')"
  shows "al_acl l' = al_acl l \<and> (\<forall>(peer, t)\<in>set hs. decide contains (al_acl l) peer = Allow)"
  using assms
  by (auto simp: accept_step_def accept_one_def is_allow_def split_beta Let_def
      split: accept_input.splits if_splits option.splits AclDecision.splits)

lemma accept_run_acl:
  "accept_run contains is l = Some (hs, l') \<Longrightarrow>
     al_acl l' = al_acl l \<and> (\<forall>(peer, t)\<in>set hs. decide contains (al_acl l) peer = Allow)"
proof (induction "is" arbitrary: l hs)
  case (Cons i "is")
  then obtain hs1 l1 hs2 where s: "accept_step contains i l = Some (hs1, l1)"
    "accept_run contains is l1 = Some (hs2, l')" "hs = hs1 @ hs2"
    by (auto split: option.splits)
  show ?case using accept_step_acl [OF s(1)] Cons.IH [OF s(2)] s(3) by auto
qed simp

section \<open>The rate of handled connections\<close>

fun accepted_times :: "accept_input list \<Rightarrow> instant list" where
  "accepted_times [] = []"
| "accepted_times (Accepted peer now # is) = now # accepted_times is"
| "accepted_times (_ # is) = accepted_times is"

abbreviation asks :: "instant list \<Rightarrow> (unit \<times> instant) list" where
  "asks ts \<equiv> map (Pair ()) ts"

text \<open>A turn asks the rate gate at most once, and handles a connection only if it was admitted.\<close>

lemma accept_step_rate:
  assumes "accept_step contains i l = Some (hs, l')"
  shows "\<exists>ts. (ts = [] \<or> ts = accepted_times [i])
    \<and> al_rate_gate l' = snd (gate.requests (asks ts) (al_rate_gate l))
    \<and> length hs * NANOS_PER_SEC \<le> fst (gate.requests (asks ts) (al_rate_gate l))"
proof (cases i)
  case (Accepted peer now)
  obtain ok rg where a: "admit now (al_rate_gate l) = (ok, rg)" by force
  show ?thesis
  proof (cases "is_allow (decide contains (al_acl l) peer)")
    case True
    then show ?thesis
      using assms Accepted a
      by (intro exI [of _ "[now]"])
        (auto simp: accept_step_def accept_one_def split_beta Let_def split: if_splits option.splits)
  next
    case False
    then show ?thesis
      using assms Accepted by (intro exI [of _ "[]"]) (auto simp: accept_step_def accept_one_def split: if_splits)
  qed
qed (use assms in \<open>auto simp: accept_step_def split: if_splits intro: exI [of _ "[]"]\<close>)

lemma requests_append:
  "gate.requests (xs @ ys) s =
     (fst (gate.requests xs s) + fst (gate.requests ys (snd (gate.requests xs s))),
      snd (gate.requests ys (snd (gate.requests xs s))))"
  by (induction xs arbitrary: s) (auto simp: split_beta Let_def)

lemma accept_run_rate:
  "accept_run contains is l = Some (hs, l') \<Longrightarrow>
     \<exists>ts. subseq ts (accepted_times is)
       \<and> al_rate_gate l' = snd (gate.requests (asks ts) (al_rate_gate l))
       \<and> length hs * NANOS_PER_SEC \<le> fst (gate.requests (asks ts) (al_rate_gate l))"
proof (induction "is" arbitrary: l hs)
  case (Cons i "is")
  then obtain hs1 l1 hs2 where s: "accept_step contains i l = Some (hs1, l1)"
    "accept_run contains is l1 = Some (hs2, l')" "hs = hs1 @ hs2"
    by (auto split: option.splits)
  obtain t1 where t1: "t1 = [] \<or> t1 = accepted_times [i]"
    "al_rate_gate l1 = snd (gate.requests (asks t1) (al_rate_gate l))"
    "length hs1 * NANOS_PER_SEC \<le> fst (gate.requests (asks t1) (al_rate_gate l))"
    using accept_step_rate [OF s(1)] by blast
  obtain t2 where t2: "subseq t2 (accepted_times is)"
    "al_rate_gate l' = snd (gate.requests (asks t2) (al_rate_gate l1))"
    "length hs2 * NANOS_PER_SEC \<le> fst (gate.requests (asks t2) (al_rate_gate l1))"
    using Cons.IH [OF s(2)] by blast
  have "accepted_times (i # is) = accepted_times [i] @ accepted_times is" by (cases i) auto
  then have "subseq (t1 @ t2) (accepted_times (i # is))"
    using t1(1) t2(1) by (auto simp: subseq_append' intro: list_emb_append_mono)
  moreover have "length hs * NANOS_PER_SEC \<le> fst (gate.requests (asks (t1 @ t2)) (al_rate_gate l))"
    using t1(2,3) t2(3) s(3) by (simp add: requests_append add_mult_distrib)
  ultimately show ?case using t1(2) t2(2) by (auto simp: requests_append)
qed (auto intro: exI [of _ "[]"])

lemma sorted_subseq: "subseq xs ys \<Longrightarrow> sorted ys \<Longrightarrow> sorted (xs :: nat list)"
  by (induction rule: list_emb.induct) (auto dest: set_mp [OF set_nths_subset] list_emb_set)

lemma handled_window:
  assumes "rate_gate_ok (al_rate_gate l)" "accept_run contains is l = Some (hs, l')"
    "sorted (accepted_times is)" "\<forall>t\<in>set (accepted_times is). a \<le> t \<and> t \<le> b"
  shows "length hs * NANOS_PER_SEC \<le> rg_capacity_scaled (al_rate_gate l) + (b - a) * rg_rate (al_rate_gate l)"
proof -
  obtain ts where ts: "subseq ts (accepted_times is)"
    "length hs * NANOS_PER_SEC \<le> fst (gate.requests (asks ts) (al_rate_gate l))"
    using accept_run_rate [OF assms(2)] by blast
  show ?thesis
  proof (cases ts)
    case Nil
    with ts(2) show ?thesis by auto
  next
    case (Cons t rest)
    have mem: "set ts \<subseteq> set (accepted_times is)" using list_emb_set [OF ts(1)] by auto
    have "sorted ts" using sorted_subseq [OF ts(1) assms(3)] .
    then have "fst (gate.requests (asks ts) (al_rate_gate l))
        \<le> rg_capacity_scaled (al_rate_gate l)
          + (rg_last (snd (gate.requests (asks ts) (al_rate_gate l))) - t) * rg_rate (al_rate_gate l)"
      using gate.window_bound [OF assms(1), of "()" t "asks rest"] Cons by (simp add: comp_def)
    moreover have "rg_last (snd (gate.requests (asks ts) (al_rate_gate l))) = last ts"
      using gate.last_requests [OF assms(1), of "asks ts"] Cons by (simp add: last_map)
    ultimately have "length hs * NANOS_PER_SEC
        \<le> rg_capacity_scaled (al_rate_gate l) + (last ts - t) * rg_rate (al_rate_gate l)"
      using ts(2) by simp
    moreover have "a \<le> t" "last ts \<le> b" using assms(4) mem Cons by (auto simp: subset_eq)
    then have "last ts - t \<le> b - a" by arith
    then have "(last ts - t) * rg_rate (al_rate_gate l) \<le> (b - a) * rg_rate (al_rate_gate l)"
      by (rule mult_le_mono1)
    ultimately show ?thesis by linarith
  qed
qed

lemma rate_gate_run:
  assumes "rate_gate_ok (al_rate_gate l)" "accept_run contains is l = Some (hs, l')"
  shows "rate_gate_ok (al_rate_gate l') \<and> rg_capacity_scaled (al_rate_gate l') = rg_capacity_scaled (al_rate_gate l)
    \<and> rg_rate (al_rate_gate l') = rg_rate (al_rate_gate l)"
proof -
  obtain ts where "al_rate_gate l' = snd (gate.requests (asks ts) (al_rate_gate l))"
    using accept_run_rate [OF assms(2)] by blast
  then show ?thesis using gate.invar_requests [OF assms(1), of "asks ts"] by auto
qed

section \<open>Properties\<close>



text \<open>
  binding with the next-port policy takes the first free port: if it succeeds, the listener is
  the one bound at the lowest candidate port that is not in use, all lower ports from the requested
  one on were in use, and the port neither exceeds the 64 candidates nor wraps past 65535.
\<close>
theorem next_port_is_lowest_free:
  assumes "bind_with_policy bind addr BCP_NextPort = Inr bound"
  shows "\<exists>k<BIND_MAX_ATTEMPTS. snd addr + k \<le> u16_max \<and> bind k (fst addr, snd addr + k) = Inr bound
    \<and> (\<forall>j<k. \<exists>e. bind j (fst addr, snd addr + j) = Inl e \<and> io_kind e = K_AddrInUse)"
proof -
  have "\<exists>k\<ge>off. k < off + n \<and> snd addr + k \<le> u16_max \<and> bind k (fst addr, snd addr + k) = Inr bound
      \<and> (\<forall>j\<in>{off..<k}. \<exists>e. bind j (fst addr, snd addr + j) = Inl e \<and> io_kind e = K_AddrInUse)"
    if "bind_next_port bind off n lst addr = Inr bound" for off n lst
    using that
  proof (induction n arbitrary: off lst)
    case (Suc n)
    then have le: "snd addr + off \<le> u16_max" by (auto split: if_splits)
    show ?case
    proof (cases "bind off (fst addr, snd addr + off)")
      case (Inr b)
      with Suc.prems le show ?thesis by (intro exI [of _ off]) simp
    next
      case (Inl e)
      with Suc.prems le have use: "io_kind e = K_AddrInUse"
        and "bind_next_port bind (Suc off) n (Some e) addr = Inr bound"
        by (auto split: if_splits)
      then obtain k where k: "Suc off \<le> k" "k < Suc off + n" "snd addr + k \<le> u16_max"
          "bind k (fst addr, snd addr + k) = Inr bound"
          "\<forall>j\<in>{Suc off..<k}. \<exists>e. bind j (fst addr, snd addr + j) = Inl e \<and> io_kind e = K_AddrInUse"
        using Suc.IH by blast
      have "{off..<k} = insert off {Suc off..<k}" using k(1) by auto
      with k use Inl show ?thesis by (intro exI [of _ k]) auto
    qed
  qed simp
  from this [of 0 BIND_MAX_ATTEMPTS None] assms show ?thesis
    by (auto simp: bind_with_policy_def)
qed

theorem next_port_is_lowest_free_witness:
  "\<exists>k<BIND_MAX_ATTEMPTS. 8080 + k \<le> u16_max \<and> k = 2"
proof -
  let ?bind = "\<lambda>k (a::SocketAddr). if snd a < 8082 then Inl \<lparr>io_kind = K_AddrInUse, io_raw_os_error = None\<rparr> else Inr a"
  have r: "bind_with_policy ?bind (V4 7, 8080) BCP_NextPort = Inr (V4 7, 8082)"
  proof -
    have "BIND_MAX_ATTEMPTS = Suc (Suc (Suc 61))" by (simp add: BIND_MAX_ATTEMPTS_def)
    then obtain n where n: "BIND_MAX_ATTEMPTS = Suc (Suc (Suc n))" by blast
    show ?thesis by (simp add: bind_with_policy_def n u16_max_def)
  qed
  obtain k where "k < BIND_MAX_ATTEMPTS" "8080 + k \<le> u16_max" "?bind k (V4 7, 8080 + k) = Inr (V4 7, 8082)"
    using next_port_is_lowest_free [OF r] unfolding fst_conv snd_conv by blast
  then show ?thesis by (auto split: if_splits)
qed

end
