(* ===== verification/Byte_Strings.thy ===== *)
theory Byte_Strings
  imports Std_Text
begin

text \<open>
  Byte strings and the conversions between machine words and their big-endian bytes
  (\<open>to_be_bytes\<close>, and the loop \<open>acc = (acc << 8) | b\<close> that reads them back).  Bytes are 8 bit words, so
  every width in the models that use them is the width of the source.
\<close>

unbundle bit_operations_syntax

text \<open>The \<open>?\<close> operator.\<close>

definition and_then :: "('e, 'a) result \<Rightarrow> ('a \<Rightarrow> ('e, 'b) result) \<Rightarrow> ('e, 'b) result" where
  "and_then r f = (case r of Inl e \<Rightarrow> Inl e | Inr x \<Rightarrow> f x)"

lemma and_then_simps [simp]:
  "and_then (Inl e) f = Inl e"
  "and_then (Inr x) f = f x"
  by (simp_all add: and_then_def)

lemma and_then_Inr: "and_then r f = Inr y \<longleftrightarrow> (\<exists>x. r = Inr x \<and> f x = Inr y)"
  by (cases r) auto

type_synonym byte = "8 word"
type_synonym bytes = "byte list"

fun be_bytes :: "nat \<Rightarrow> 'a::len word \<Rightarrow> bytes" where
  "be_bytes 0 w = []"
| "be_bytes (Suc n) w = ucast (drop_bit (8 * n) w) # be_bytes n w"

definition be_acc :: "'a::len word \<Rightarrow> bytes \<Rightarrow> 'a word" where
  "be_acc = foldl (\<lambda>acc b. push_bit 8 acc OR ucast b)"

text \<open>The bytes of a \<open>usize\<close>, least significant first, without leading zeros.\<close>

fun le_bytes :: "nat \<Rightarrow> bytes" where
  "le_bytes v = (if v = 0 then [] else of_nat (v mod 256) # le_bytes (v div 256))"

declare le_bytes.simps [simp del]

definition be_nat :: "nat \<Rightarrow> bytes \<Rightarrow> nat" where
  "be_nat = foldl (\<lambda>acc b. acc * 256 + unat b)"

lemma be_acc_simps [simp]:
  "be_acc a [] = a"
  "be_acc a (b # bs) = be_acc (push_bit 8 a OR ucast b) bs"
  by (simp_all add: be_acc_def)

lemma be_nat_simps [simp]:
  "be_nat a [] = a"
  "be_nat a (b # bs) = be_nat (a * 256 + unat b) bs"
  "be_nat a (bs @ bs') = be_nat (be_nat a bs) bs'"
  by (simp_all add: be_nat_def)

lemma length_be_bytes [simp]: "length (be_bytes n w) = n"
  by (induction n) auto

text \<open>Reading the low \<open>n\<close> bytes back shifts the accumulator and inserts them.\<close>

lemma be_acc_be_bytes:
  fixes a w :: "'a::len word"
  shows "be_acc a (be_bytes n w) = push_bit (8 * n) a OR take_bit (8 * n) w"
proof (induction n arbitrary: a)
  case 0
  then show ?case by simp
next
  case (Suc n)
  have "push_bit (8 * n) (push_bit 8 a OR ucast (ucast (drop_bit (8 * n) w) :: byte)) OR take_bit (8 * n) w
      = push_bit (8 * Suc n) a OR take_bit (8 * Suc n) w"
    by (rule bit_word_eqI) (auto simp: bit_simps not_less ac_simps)
  then show ?case by (simp add: Suc.IH)
qed

lemma be_acc_all: "LENGTH('a::len) \<le> 8 * n \<Longrightarrow> be_acc a (be_bytes n (w :: 'a word)) = w"
  by (rule bit_word_eqI) (auto simp: be_acc_be_bytes bit_simps)

text \<open>Conversely, the accumulated bytes are the low bytes of the result.\<close>

lemma bit_be_acc_high:
  fixes x :: "'a::len word"
  shows "8 * length bs \<le> k \<Longrightarrow> k < LENGTH('a) \<Longrightarrow> bit (be_acc x bs) k \<longleftrightarrow> bit x (k - 8 * length bs)"
proof (induction bs arbitrary: x)
  case (Cons b bs)
  have "\<not> bit b (k - 8 * length bs)" using Cons.prems(1) bit_imp_le_length [of b "k - 8 * length bs"] by fastforce
  moreover have "8 \<le> k - 8 * length bs" "k - 8 * length bs < LENGTH('a)" using Cons.prems by simp_all
  ultimately show ?case using Cons by (simp add: bit_simps add.commute)
qed simp

lemma be_bytes_be_acc:
  fixes x :: "'a::len word"
  shows "8 * length bs \<le> LENGTH('a) \<Longrightarrow> be_bytes (length bs) (be_acc x bs) = bs"
proof (induction bs arbitrary: x)
  case (Cons b bs)
  have "ucast (drop_bit (8 * length bs) (be_acc (push_bit 8 x OR ucast b) bs)) = b"
  proof (rule bit_word_eqI)
    fix j assume "j < LENGTH(8)"
    then show "bit (ucast (drop_bit (8 * length bs) (be_acc (push_bit 8 x OR ucast b) bs)) :: byte) j = bit b j"
      using Cons.prems by (simp add: bit_simps bit_be_acc_high)
  qed
  then show ?case using Cons by simp
qed simp

lemma be_acc_leading_zero: "be_acc 0 (0 # bs) = be_acc 0 bs"
  by simp

lemma be_acc_leading_ones: "be_acc (- 1) (255 # bs) = be_acc (- 1) bs"
proof -
  have "push_bit 8 (- 1) OR ucast (255 :: byte) = (- 1 :: 'a word)"
  proof (rule bit_word_eqI)
    fix n assume "n < LENGTH('a)"
    have "bit (255 :: byte) n \<longleftrightarrow> n < 8"
      using bit_mask_iff [of 8 n, where 'a = byte] by (simp add: mask_eq_exp_minus_1)
    then show "bit (push_bit 8 (- 1) OR ucast (255 :: byte) :: 'a word) n = bit (- 1 :: 'a word) n"
      using \<open>n < _\<close> by (auto simp: bit_simps)
  qed
  then show ?thesis by simp
qed

text \<open>Bit 7 is the sign.\<close>

lemma high_bit_iff: "(b :: byte) AND 0x80 = 0 \<longleftrightarrow> \<not> bit b 7"
proof -
  have "(0x80 :: byte) = push_bit 7 1" by simp
  then show ?thesis using and_exp_eq_0_iff_not_bit [of b 7] by simp
qed

lemma bit_hd_be_bytes: "bit (hd (be_bytes (Suc n) w)) 7 \<longleftrightarrow> bit w (8 * n + 7)"
  by (simp add: bit_simps)

lemma be_nat_le_bytes: "be_nat 0 (rev (le_bytes v)) = v"
  by (induction v rule: le_bytes.induct) (subst le_bytes.simps, simp add: unat_of_nat)

lemma length_le_bytes: "v < 256 ^ n \<Longrightarrow> length (le_bytes v) \<le> n"
proof (induction n arbitrary: v)
  case 0
  then show ?case by (simp add: le_bytes.simps)
next
  case (Suc n)
  then have "v div 256 < 256 ^ n" by (simp add: div_less_iff_less_mult mult.commute)
  then show ?case using Suc.IH by (subst le_bytes.simps) simp
qed

lemma le_bytes_nonempty: "le_bytes v = [] \<longleftrightarrow> v = 0"
  by (subst le_bytes.simps) simp

end
