(* ===== verification/Bidir_Copy.thy ===== *)
theory Bidir_Copy
  imports Accept_Loop Byte_Strings
begin

text \<open>
  The throttled bidirectional copy with its idle watchdog, \<open>crates/spt-forward/src/bidir.rs\<close>.  Each
  direction is a loop that reads a chunk and then drains it (waits for the token bucket and writes
  it out); the two directions and the watchdog timer interleave freely.  An input is a finished
  read, a finished or failed drain, or a tick of the watchdog.
\<close>

section \<open>Model\<close>



definition BUF_SIZE :: nat where
  "BUF_SIZE = 16 * 1024"

record ActivityBeacon =
  ab_generation :: nat
  ab_in_flight :: nat

definition beacon_default :: ActivityBeacon where
  "beacon_default = \<lparr>ab_generation = 0, ab_in_flight = 0\<rparr>"

definition bump :: "ActivityBeacon \<Rightarrow> ActivityBeacon" where
  "bump b = b\<lparr>ab_generation := (ab_generation b + 1) mod 2 ^ 64\<rparr>"

definition enter_transfer :: "ActivityBeacon \<Rightarrow> ActivityBeacon" where
  "enter_transfer b = b\<lparr>ab_in_flight := ab_in_flight b + 1\<rparr>"

definition exit_transfer :: "ActivityBeacon \<Rightarrow> ActivityBeacon" where
  "exit_transfer b = b\<lparr>ab_in_flight := ab_in_flight b - 1\<rparr>"

definition is_busy :: "ActivityBeacon \<Rightarrow> bool" where
  "is_busy b \<longleftrightarrow> 0 < ab_in_flight b"

record CopyStats =
  cs_a_to_b :: nat
  cs_b_to_a :: nat

definition default_copy_stats :: CopyStats where
  "default_copy_stats = \<lparr>cs_a_to_b = 0, cs_b_to_a = 0\<rparr>"

text \<open>A direction: what \<open>copy_one\<close> is doing, its byte count, and the bytes it has read and written.\<close>

datatype phase = Reading | Draining "byte list" | Ended "(io_error, nat) result"

record direction =
  d_phase :: phase
  d_total :: nat
  d_read :: "byte list"
  d_written :: "byte list"

definition direction_new :: direction where
  "direction_new = \<lparr>d_phase = Reading, d_total = 0, d_read = [], d_written = []\<rparr>"

text \<open>
  One await of \<open>copy_one\<close>, with the calls on the beacon that go with it: a read of at most
  \<open>BUF_SIZE\<close> bytes (none at end of file), a failed read, a completed drain, a failed drain that wrote
  only the first \<open>k\<close> bytes of the chunk.
\<close>

datatype copy_input = ReadOk "byte list" | ReadErr io_error | DrainOk | DrainErr io_error nat

definition copy_one ::
  "copy_input \<Rightarrow> direction \<times> ActivityBeacon \<Rightarrow> (direction \<times> ActivityBeacon) option" where
  "copy_one i s =
     (let (d, b) = s in
      case (d_phase d, i) of
        (Reading, ReadErr e) \<Rightarrow> Some (d\<lparr>d_phase := Ended (Inl e)\<rparr>, b)
      | (Reading, ReadOk chunk) \<Rightarrow>
          if BUF_SIZE < length chunk then None
          else if chunk = [] then Some (d\<lparr>d_phase := Ended (Inr (d_total d))\<rparr>, b)
          else Some (d\<lparr>d_phase := Draining chunk, d_read := d_read d @ chunk\<rparr>, enter_transfer (bump b))
      | (Draining chunk, DrainOk) \<Rightarrow>
          Some (d\<lparr>d_phase := Reading, d_total := d_total d + length chunk, d_written := d_written d @ chunk\<rparr>,
                exit_transfer (bump b))
      | (Draining chunk, DrainErr e k) \<Rightarrow>
          Some (d\<lparr>d_phase := Ended (Inl e), d_written := d_written d @ take k chunk\<rparr>, exit_transfer (bump b))
      | _ \<Rightarrow> None)"

record Copy =
  cp_a_to_b :: direction
  cp_b_to_a :: direction
  cp_beacon :: ActivityBeacon
  cp_last_seen :: nat
  cp_outcome :: "(io_error, CopyStats) result option"

definition copy_start :: Copy where
  "copy_start =
     \<lparr>cp_a_to_b = direction_new, cp_b_to_a = direction_new, cp_beacon = beacon_default,
      cp_last_seen = ab_generation beacon_default, cp_outcome = None\<rparr>"

text \<open>\<open>join!\<close> returns once both directions have ended; the errors are looked at in order.\<close>

definition joined :: "Copy \<Rightarrow> Copy" where
  "joined c =
     (case (d_phase (cp_a_to_b c), d_phase (cp_b_to_a c)) of
        (Ended ab, Ended ba) \<Rightarrow>
          c\<lparr>cp_outcome := Some (case ab of Inl e \<Rightarrow> Inl e | Inr n \<Rightarrow>
              (case ba of Inl e \<Rightarrow> Inl e | Inr m \<Rightarrow> Inr \<lparr>cs_a_to_b = n, cs_b_to_a = m\<rparr>))\<rparr>
      | _ \<Rightarrow> c)"

text \<open>
  Without a timeout, or with a zero one, there is no watchdog: the copy is
  \<open>copy_bidirectional_throttled\<close> and no tick ever arrives.
\<close>

definition idle_active :: "duration option \<Rightarrow> bool" where
  "idle_active idle = (case idle of None \<Rightarrow> False | Some d \<Rightarrow> d \<noteq> 0)"

datatype bidir_input = AtoB copy_input | BtoA copy_input | WatchdogTick

definition bidir_step :: "duration option \<Rightarrow> bidir_input \<Rightarrow> Copy \<Rightarrow> Copy option" where
  "bidir_step idle i c =
     (if cp_outcome c \<noteq> None then None
      else case i of
        AtoB x \<Rightarrow> map_option (\<lambda>(d, b). joined (c\<lparr>cp_a_to_b := d, cp_beacon := b\<rparr>)) (copy_one x (cp_a_to_b c, cp_beacon c))
      | BtoA x \<Rightarrow> map_option (\<lambda>(d, b). joined (c\<lparr>cp_b_to_a := d, cp_beacon := b\<rparr>)) (copy_one x (cp_b_to_a c, cp_beacon c))
      | WatchdogTick \<Rightarrow>
          let now = ab_generation (cp_beacon c) in
          if \<not> idle_active idle then None
          else if now = cp_last_seen c \<and> \<not> is_busy (cp_beacon c)
          then Some (c\<lparr>cp_outcome := Some (Inr default_copy_stats)\<rparr>)
          else Some (c\<lparr>cp_last_seen := now\<rparr>))"

fun bidir_run :: "duration option \<Rightarrow> bidir_input list \<Rightarrow> Copy \<Rightarrow> Copy option" where
  "bidir_run idle [] c = Some c"
| "bidir_run idle (i # is) c = (case bidir_step idle i c of None \<Rightarrow> None | Some c' \<Rightarrow> bidir_run idle is c')"

section \<open>Invariant\<close>

definition draining :: "direction \<Rightarrow> nat" where
  "draining d = (case d_phase d of Draining _ \<Rightarrow> 1 | _ \<Rightarrow> 0)"

text \<open>Nothing is lost, duplicated or reordered.\<close>

definition direction_ok :: "direction \<Rightarrow> bool" where
  "direction_ok d =
     (case d_phase d of
        Reading \<Rightarrow> d_written d = d_read d \<and> d_total d = length (d_written d)
      | Draining chunk \<Rightarrow> d_read d = d_written d @ chunk \<and> d_total d = length (d_written d)
      | Ended (Inr n) \<Rightarrow> d_written d = d_read d \<and> n = length (d_written d)
      | Ended (Inl e) \<Rightarrow> (\<exists>k. d_written d = take k (d_read d)))"

definition copy_ok :: "Copy \<Rightarrow> bool" where
  "copy_ok c \<longleftrightarrow> direction_ok (cp_a_to_b c) \<and> direction_ok (cp_b_to_a c)
     \<and> ab_in_flight (cp_beacon c) = draining (cp_a_to_b c) + draining (cp_b_to_a c)"

lemmas beacon_defs = bump_def enter_transfer_def exit_transfer_def

lemma whole_is_prefix: "\<exists>k. xs = take k xs"
  by (rule exI [of _ "length xs"]) simp

lemma copy_one_ok:
  assumes "copy_one x (d, b) = Some (d', b')" "direction_ok d" "ab_in_flight b = draining d + n"
  shows "direction_ok d' \<and> ab_in_flight b' = draining d' + n"
proof (cases "d_phase d")
  case (Draining chunk)
  have "\<exists>j. d_written d @ take k chunk = take j (d_written d @ chunk)" for k
    by (intro exI [of _ "length (d_written d) + k"]) simp
  with assms Draining show ?thesis
    by (cases x) (auto simp: copy_one_def direction_ok_def draining_def beacon_defs)
next
  case Reading
  with assms show ?thesis
    by (cases x) (auto simp: copy_one_def direction_ok_def draining_def beacon_defs split: if_splits
        intro: whole_is_prefix)
next
  case (Ended r)
  with assms(1) show ?thesis by (simp add: copy_one_def)
qed

lemma joined_simps [simp]:
  "cp_a_to_b (joined c) = cp_a_to_b c" "cp_b_to_a (joined c) = cp_b_to_a c" "cp_beacon (joined c) = cp_beacon c"
  "cp_last_seen (joined c) = cp_last_seen c"
  by (auto simp: joined_def split: phase.splits)

lemma copy_ok_step: "copy_ok c \<Longrightarrow> bidir_step idle i c = Some c' \<Longrightarrow> copy_ok c'"
proof (cases i)
  case (AtoB x)
  assume ok: "copy_ok c" and s: "bidir_step idle i c = Some c'"
  then obtain d b where "copy_one x (cp_a_to_b c, cp_beacon c) = Some (d, b)"
    "c' = joined (c\<lparr>cp_a_to_b := d, cp_beacon := b\<rparr>)"
    using AtoB by (auto simp: bidir_step_def split: if_splits)
  with ok show ?thesis using copy_one_ok [of x "cp_a_to_b c" "cp_beacon c" d b "draining (cp_b_to_a c)"]
    by (simp add: copy_ok_def)
next
  case (BtoA x)
  assume ok: "copy_ok c" and s: "bidir_step idle i c = Some c'"
  then obtain d b where "copy_one x (cp_b_to_a c, cp_beacon c) = Some (d, b)"
    "c' = joined (c\<lparr>cp_b_to_a := d, cp_beacon := b\<rparr>)"
    using BtoA by (auto simp: bidir_step_def split: if_splits)
  with ok show ?thesis using copy_one_ok [of x "cp_b_to_a c" "cp_beacon c" d b "draining (cp_a_to_b c)"]
    by (simp add: copy_ok_def)
qed (auto simp: bidir_step_def copy_ok_def Let_def split: if_splits)

lemma copy_ok_run: "copy_ok c \<Longrightarrow> bidir_run idle is c = Some c' \<Longrightarrow> copy_ok c'"
  by (induction "is" arbitrary: c) (auto split: option.splits intro: copy_ok_step)

lemma copy_ok_start: "copy_ok copy_start"
  by (simp add: copy_ok_def copy_start_def direction_ok_def direction_new_def draining_def beacon_default_def)

section \<open>The watchdog\<close>

text \<open>Inputs that move bytes.\<close>

definition moves :: "copy_input \<Rightarrow> bool" where
  "moves x = (case x of ReadOk chunk \<Rightarrow> chunk \<noteq> [] | ReadErr _ \<Rightarrow> False | _ \<Rightarrow> True)"

definition moved :: "bidir_input \<Rightarrow> bool" where
  "moved i = (case i of AtoB x \<Rightarrow> moves x | BtoA x \<Rightarrow> moves x | WatchdogTick \<Rightarrow> False)"

lemma copy_one_generation:
  "copy_one x (d, b) = Some (d', b') \<Longrightarrow> ab_generation b < 2 ^ 64 \<Longrightarrow>
     ab_generation b' = (ab_generation b + of_bool (moves x)) mod 2 ^ 64"
  by (auto simp: copy_one_def moves_def beacon_defs split: phase.splits copy_input.splits if_splits)

lemma bidir_step_generation:
  assumes "bidir_step idle i c = Some c'" "i \<noteq> WatchdogTick" "ab_generation (cp_beacon c) < 2 ^ 64"
  shows "ab_generation (cp_beacon c') = (ab_generation (cp_beacon c) + of_bool (moved i)) mod 2 ^ 64
    \<and> cp_last_seen c' = cp_last_seen c"
  using assms
  by (cases i) (auto simp: bidir_step_def moved_def dest: copy_one_generation split: if_splits)

lemma bidir_run_generation:
  assumes "bidir_run idle is c = Some c'" "WatchdogTick \<notin> set is" "ab_generation (cp_beacon c) < 2 ^ 64"
  shows "ab_generation (cp_beacon c') = (ab_generation (cp_beacon c) + length (filter moved is)) mod 2 ^ 64
    \<and> cp_last_seen c' = cp_last_seen c"
  using assms
proof (induction "is" arbitrary: c)
  case Nil
  then show ?case by simp
next
  case (Cons i "is")
  then obtain c1 where c1: "bidir_step idle i c = Some c1" "bidir_run idle is c1 = Some c'"
    by (auto split: option.splits)
  have i: "i \<noteq> WatchdogTick" and rest: "WatchdogTick \<notin> set is" using Cons.prems(2) by auto
  define m :: nat where "m = 2 ^ 64"
  have g: "ab_generation (cp_beacon c1) = (ab_generation (cp_beacon c) + of_bool (moved i)) mod m
      \<and> cp_last_seen c1 = cp_last_seen c"
    unfolding m_def by (rule bidir_step_generation [OF c1(1) i Cons.prems(3)])
  moreover have "ab_generation (cp_beacon c') = (ab_generation (cp_beacon c1) + length (filter moved is)) mod m
      \<and> cp_last_seen c' = cp_last_seen c1"
    unfolding m_def by (rule Cons.IH [OF c1(2) rest]) (use g in \<open>simp add: m_def\<close>)
  ultimately show ?case unfolding m_def [symmetric] by (auto simp: mod_simps add.assoc)
qed

lemma mod_shift_neq:
  fixes g k m :: nat
  assumes "g < m" "0 < k" "k < m"
  shows "(g + k) mod m \<noteq> g"
proof
  assume "(g + k) mod m = g"
  then have "m dvd k" using assms(1) by (metis add_left_cancel mod_less mod_eq_dvd_iff_nat le_add1 diff_add_inverse)
  with assms(2,3) show False by (simp add: nat_dvd_not_less)
qed

lemma generation_bounded: "ab_generation (cp_beacon c) < 2 ^ 64 \<Longrightarrow> bidir_step idle i c = Some c' \<Longrightarrow>
    ab_generation (cp_beacon c') < 2 ^ 64"
proof (cases "i = WatchdogTick")
  case False
  assume "ab_generation (cp_beacon c) < 2 ^ 64" "bidir_step idle i c = Some c'"
  then show ?thesis using bidir_step_generation [OF _ False] by simp
qed (auto simp: bidir_step_def Let_def split: if_splits)

lemma generation_bounded_run: "ab_generation (cp_beacon c) < 2 ^ 64 \<Longrightarrow> bidir_run idle is c = Some c' \<Longrightarrow>
    ab_generation (cp_beacon c') < 2 ^ 64"
  by (induction "is" arbitrary: c) (auto split: option.splits dest: generation_bounded [simplified])

lemma bidir_run_append:
  "bidir_run idle (is @ js) c = (case bidir_run idle is c of None \<Rightarrow> None | Some c' \<Rightarrow> bidir_run idle js c')"
  by (induction "is" arbitrary: c) (auto split: option.splits)

text \<open>What a tick finds at the end of a window, that is after inputs none of which is a tick.\<close>

lemma tick_decides:
  assumes ok: "copy_ok c0" "ab_generation (cp_beacon c0) < 2 ^ 64" "cp_last_seen c0 = ab_generation (cp_beacon c0)"
    and window: "bidir_run idle win c0 = Some c" "WatchdogTick \<notin> set win" "length win < 2 ^ 64"
    and tick: "bidir_step idle WatchdogTick c = Some c'"
  shows "cp_outcome c' = None \<longleftrightarrow> (\<exists>i \<in> set win. moved i) \<or> 0 < draining (cp_a_to_b c) + draining (cp_b_to_a c)"
proof -
  let ?k = "length (filter moved win)"
  have g: "ab_generation (cp_beacon c) = (cp_last_seen c + ?k) mod 2 ^ 64" "cp_last_seen c < 2 ^ 64"
    using bidir_run_generation [OF window(1,2) ok(2)] ok(2,3) by auto
  have "?k < 2 ^ 64" using window(3) length_filter_le le_less_trans by blast
  then have k: "ab_generation (cp_beacon c) = cp_last_seen c \<longleftrightarrow> ?k = 0"
    unfolding g(1) using g(2) mod_shift_neq [of "cp_last_seen c" "2 ^ 64" ?k] by (cases "?k = 0") auto
  have b: "is_busy (cp_beacon c) \<longleftrightarrow> 0 < draining (cp_a_to_b c) + draining (cp_b_to_a c)"
    using copy_ok_run [OF ok(1) window(1)] by (simp add: copy_ok_def is_busy_def)
  have "cp_outcome c' = None \<longleftrightarrow> \<not> (ab_generation (cp_beacon c) = cp_last_seen c \<and> \<not> is_busy (cp_beacon c))"
    using tick by (auto simp: bidir_step_def Let_def split: if_splits)
  then show ?thesis unfolding k b by (auto simp: filter_empty_conv)
qed

lemma window_start:
  assumes run: "bidir_run idle is copy_start = Some c0" and open_: "is = [] \<or> last is = WatchdogTick" "cp_outcome c0 = None"
  shows "copy_ok c0" "ab_generation (cp_beacon c0) < 2 ^ 64" "cp_last_seen c0 = ab_generation (cp_beacon c0)"
proof -
  show "copy_ok c0" by (rule copy_ok_run [OF copy_ok_start run])
  show "ab_generation (cp_beacon c0) < 2 ^ 64"
    by (rule generation_bounded_run [OF _ run]) (simp add: copy_start_def beacon_default_def)
  show "cp_last_seen c0 = ab_generation (cp_beacon c0)"
  proof (cases "is = []")
    case True
    then show ?thesis using run by (auto simp: copy_start_def)
  next
    case False
    then have "is = butlast is @ [WatchdogTick]" using open_(1) append_butlast_last_id by metis
    then have "bidir_run idle (butlast is @ [WatchdogTick]) copy_start = Some c0" using run by simp
    then obtain c where "bidir_step idle WatchdogTick c = Some c0"
      by (auto simp: bidir_run_append split: option.splits)
    then show ?thesis using open_(2) by (auto simp: bidir_step_def Let_def split: if_splits)
  qed
qed

text \<open>How an ended copy came to its outcome.\<close>

lemma joined_outcome:
  assumes "cp_outcome c = None" "cp_outcome (joined c) = Some (Inr st)"
  shows "d_phase (cp_a_to_b c) = Ended (Inr (cs_a_to_b st)) \<and> d_phase (cp_b_to_a c) = Ended (Inr (cs_b_to_a st))"
  using assms by (cases "d_phase (cp_a_to_b c)"; cases "d_phase (cp_b_to_a c)")
    (auto simp: joined_def split: sum.splits)

lemma outcome_step:
  assumes "bidir_step idle i c = Some c'" "i \<noteq> WatchdogTick" "cp_outcome c' = Some (Inr st)"
  shows "d_phase (cp_a_to_b c') = Ended (Inr (cs_a_to_b st)) \<and> d_phase (cp_b_to_a c') = Ended (Inr (cs_b_to_a st))"
proof -
  obtain c0 where "c' = joined c0" "cp_outcome c0 = None"
    using assms(1,2) by (cases i) (auto simp: bidir_step_def split: if_splits)
  then show ?thesis using joined_outcome [of c0 st] assms(3) by simp
qed

lemma outcome_run:
  assumes "bidir_run idle is c = Some c'" "cp_outcome c = None" "cp_outcome c' = Some r"
  shows "\<exists>c1 js i. is = js @ [i] \<and> bidir_run idle js c = Some c1 \<and> bidir_step idle i c1 = Some c'"
proof -
  have "is \<noteq> []" using assms by auto
  then obtain js i where "is = js @ [i]" by (metis rev_exhaust)
  then show ?thesis using assms(1) by (auto simp: bidir_run_append split: option.splits)
qed

lemma direction_prefix: "direction_ok d \<Longrightarrow> \<exists>k. d_written d = take k (d_read d)"
  by (cases "d_phase d") (auto simp: direction_ok_def whole_is_prefix split: sum.splits
      intro: exI [of _ "length (d_written d)"])

section \<open>Properties\<close>

text \<open>C12: Whatever the interleaving of the two directions and the watchdog, each side has been sent a prefix of
  what the other side sent: nothing is lost in the middle, duplicated or reordered.  When the copy ends by itself
  with success, everything read was written and the counts returned are the exact byte counts; an idle close, the
  only other way to return success, reports zero for both directions.\<close>

theorem copy_faithful:
  assumes run: "bidir_run idle is copy_start = Some c"
  shows "(\<exists>k. d_written (cp_a_to_b c) = take k (d_read (cp_a_to_b c)))
    \<and> (\<exists>k. d_written (cp_b_to_a c) = take k (d_read (cp_b_to_a c)))
    \<and> (\<forall>st. cp_outcome c = Some (Inr st) \<longrightarrow>
         (if last is = WatchdogTick then st = default_copy_stats
          else d_written (cp_a_to_b c) = d_read (cp_a_to_b c) \<and> cs_a_to_b st = length (d_read (cp_a_to_b c))
             \<and> d_written (cp_b_to_a c) = d_read (cp_b_to_a c) \<and> cs_b_to_a st = length (d_read (cp_b_to_a c))))"
proof (intro conjI allI impI)
  have ok: "direction_ok (cp_a_to_b c)" "direction_ok (cp_b_to_a c)"
    using copy_ok_run [OF copy_ok_start run] by (auto simp: copy_ok_def)
  then show "\<exists>k. d_written (cp_a_to_b c) = take k (d_read (cp_a_to_b c))"
    "\<exists>k. d_written (cp_b_to_a c) = take k (d_read (cp_b_to_a c))"
    using direction_prefix by auto
  fix st assume st: "cp_outcome c = Some (Inr st)"
  obtain c1 js i where i: "is = js @ [i]" "bidir_step idle i c1 = Some c"
    using outcome_run [OF run _ st] by (auto simp: copy_start_def)
  show "if last is = WatchdogTick then st = default_copy_stats
    else d_written (cp_a_to_b c) = d_read (cp_a_to_b c) \<and> cs_a_to_b st = length (d_read (cp_a_to_b c))
      \<and> d_written (cp_b_to_a c) = d_read (cp_b_to_a c) \<and> cs_b_to_a st = length (d_read (cp_b_to_a c))"
  proof (cases "i = WatchdogTick")
    case True
    then show ?thesis using i st by (auto simp: bidir_step_def Let_def split: if_splits)
  next
    case False
    then show ?thesis using outcome_step [OF i(2) False st] ok i(1) by (auto simp: direction_ok_def)
  qed
qed

theorem copy_faithful_witness:
  "\<exists>c. bidir_run None [AtoB (ReadOk [1, 2]), BtoA (ReadOk [7]), AtoB DrainOk, AtoB (ReadOk []), BtoA DrainOk, BtoA (ReadOk [])]
      copy_start = Some c \<and> cp_outcome c = Some (Inr \<lparr>cs_a_to_b = 2, cs_b_to_a = 1\<rparr>)
    \<and> (\<exists>k. d_written (cp_a_to_b c) = take k (d_read (cp_a_to_b c)))"
proof -
  let ?is = "[AtoB (ReadOk [1, 2]), BtoA (ReadOk [7]), AtoB DrainOk, AtoB (ReadOk []), BtoA DrainOk, BtoA (ReadOk [])]"
  obtain c where c: "bidir_run None ?is copy_start = Some c"
      "cp_outcome c = Some (Inr \<lparr>cs_a_to_b = 2, cs_b_to_a = 1\<rparr>)"
    by (simp add: bidir_step_def copy_one_def copy_start_def direction_new_def beacon_default_def beacon_defs
        joined_def BUF_SIZE_def)
  then show ?thesis using copy_faithful [OF c(1)] by blast
qed

text \<open>The idle watchdog closes a connection exactly when a whole window passed in which no byte was read or
  written and at its end no direction was in the middle of draining a chunk; in particular a chunk held up by the
  rate limit for longer than the window is never cut off.  (A window of \<open>2 ^ 64\<close> or more steps could wrap the
  generation counter.)\<close>

theorem idle_close_exact:
  assumes "bidir_run idle is copy_start = Some c0" "is = [] \<or> last is = WatchdogTick" "cp_outcome c0 = None"
    and "bidir_run idle win c0 = Some c" "WatchdogTick \<notin> set win" "length win < 2 ^ 64"
    and "bidir_step idle WatchdogTick c = Some c'"
  shows "cp_outcome c' = Some (Inr default_copy_stats) \<longleftrightarrow>
      (\<forall>i \<in> set win. \<not> moved i)
      \<and> (\<forall>chunk. d_phase (cp_a_to_b c) \<noteq> Draining chunk \<and> d_phase (cp_b_to_a c) \<noteq> Draining chunk)"
proof -
  have "cp_outcome c' = None \<or> cp_outcome c' = Some (Inr default_copy_stats)"
    using assms(7) by (auto simp: bidir_step_def Let_def split: if_splits)
  moreover have "0 < draining d \<longleftrightarrow> (\<exists>chunk. d_phase d = Draining chunk)" for d
    by (simp add: draining_def split: phase.splits)
  ultimately show ?thesis using tick_decides [OF window_start [OF assms(1-3)] assms(4-7)] by auto
qed

theorem idle_close_exact_witness:
  "\<exists>c c'. bidir_run (Some 5) [AtoB (ReadOk [1])] copy_start = Some c
     \<and> bidir_run (Some 5) [AtoB (ReadOk [1]), WatchdogTick, AtoB DrainOk, WatchdogTick] copy_start = Some c'
     \<and> cp_outcome c' = None
     \<and> (\<exists>c''. bidir_step (Some 5) WatchdogTick c' = Some c'' \<and> cp_outcome c'' = Some (Inr default_copy_stats))"
proof -
  let ?is = "[AtoB (ReadOk [1]), WatchdogTick, AtoB DrainOk, WatchdogTick]"
  note defs = bidir_step_def copy_one_def copy_start_def direction_new_def beacon_default_def beacon_defs
    joined_def BUF_SIZE_def idle_active_def is_busy_def
  obtain c where c: "bidir_run (Some 5) [AtoB (ReadOk [1])] copy_start = Some c" by (simp add: defs)
  obtain c' where c': "bidir_run (Some 5) ?is copy_start = Some c'" "cp_outcome c' = None"
      "d_phase (cp_a_to_b c') = Reading" "d_phase (cp_b_to_a c') = Reading"
    by (simp add: defs)
  obtain c'' where c'': "bidir_step (Some 5) WatchdogTick c' = Some c''"
    using c'(2) by (fastforce simp: bidir_step_def Let_def idle_active_def)
  have "cp_outcome c'' = Some (Inr default_copy_stats)"
    using idle_close_exact [OF c'(1) _ c'(2), of "[]" c' c''] c'(3,4) c'' by simp
  then show ?thesis using c c' c'' by blast
qed

end
