(* ===== verification/Snmp_Ber.thy ===== *)
theory Snmp_Ber
  imports Byte_Strings
begin

text \<open>
  The BER encoder and decoder of the SNMP agent, \<open>crates/spt-snmp/src/ber.rs\<close>, with the error type of
  \<open>error.rs\<close>.  An encoder is its buffer.  A decoder is a byte slice with a position; a read returns the
  value and the advanced decoder.  Texts of error messages are dropped.  Arithmetic that the release
  profile checks for overflow ends in \<open>Panic\<close>.
\<close>

section \<open>Errors\<close>

datatype UsmError =
    UnsupportedSecLevel | NotInTimeWindow | UnknownUserName | UnknownEngineId | WrongDigest | DecryptionError

datatype SnmpError =
    Ber | BerEncode | MessageError | Usm UsmError | Io | Config | Privacy | Internal | Panic

section \<open>Tags\<close>

type_synonym Tag = byte

abbreviation (input) INTEGER :: Tag where "INTEGER \<equiv> 0x02"
abbreviation (input) OCTET_STRING :: Tag where "OCTET_STRING \<equiv> 0x04"
abbreviation (input) NULL_TAG :: Tag where "NULL_TAG \<equiv> 0x05"
abbreviation (input) OID_TAG :: Tag where "OID_TAG \<equiv> 0x06"
abbreviation (input) SEQUENCE :: Tag where "SEQUENCE \<equiv> 0x30"
abbreviation (input) IP_ADDRESS :: Tag where "IP_ADDRESS \<equiv> 0x40"
abbreviation (input) COUNTER32 :: Tag where "COUNTER32 \<equiv> 0x41"
abbreviation (input) GAUGE32 :: Tag where "GAUGE32 \<equiv> 0x42"
abbreviation (input) TIMETICKS :: Tag where "TIMETICKS \<equiv> 0x43"
abbreviation (input) OPAQUE :: Tag where "OPAQUE \<equiv> 0x44"
abbreviation (input) COUNTER64 :: Tag where "COUNTER64 \<equiv> 0x46"
abbreviation (input) NO_SUCH_OBJECT :: Tag where "NO_SUCH_OBJECT \<equiv> 0x80"
abbreviation (input) NO_SUCH_INSTANCE :: Tag where "NO_SUCH_INSTANCE \<equiv> 0x81"
abbreviation (input) END_OF_MIB :: Tag where "END_OF_MIB \<equiv> 0x82"
abbreviation (input) GET_REQUEST :: Tag where "GET_REQUEST \<equiv> 0xA0"
abbreviation (input) GET_NEXT_REQUEST :: Tag where "GET_NEXT_REQUEST \<equiv> 0xA1"
abbreviation (input) RESPONSE :: Tag where "RESPONSE \<equiv> 0xA2"
abbreviation (input) SET_REQUEST :: Tag where "SET_REQUEST \<equiv> 0xA3"
abbreviation (input) GET_BULK_REQUEST :: Tag where "GET_BULK_REQUEST \<equiv> 0xA5"
abbreviation (input) INFORM_REQUEST :: Tag where "INFORM_REQUEST \<equiv> 0xA6"
abbreviation (input) SNMPV2_TRAP :: Tag where "SNMPV2_TRAP \<equiv> 0xA7"
abbreviation (input) REPORT :: Tag where "REPORT \<equiv> 0xA8"

section \<open>Primitive encodings\<close>

type_synonym i64 = "64 word"

definition write_length :: "bytes \<Rightarrow> nat \<Rightarrow> bytes" where
  "write_length out len =
     (if len < 128 then out @ [of_nat len]
      else let tmp = le_bytes len in out @ [0x80 OR of_nat (length tmp)] @ rev tmp)"

fun strip_zeros :: "bytes \<Rightarrow> bytes" where
  "strip_zeros (a # b # bs) = (if a = 0 \<and> b AND 0x80 = 0 then strip_zeros (b # bs) else a # b # bs)"
| "strip_zeros bs = bs"

fun strip_ones :: "bytes \<Rightarrow> bytes" where
  "strip_ones (a # b # bs) = (if a = 0xFF \<and> b AND 0x80 \<noteq> 0 then strip_ones (b # bs) else a # b # bs)"
| "strip_ones bs = bs"

definition encode_int :: "i64 \<Rightarrow> bytes" where
  "encode_int v =
     (if v = 0 then [0]
      else if 0 < sint v then strip_zeros (be_bytes 8 v)
      else strip_ones (be_bytes 8 v))"

definition decode_int :: "bytes \<Rightarrow> (SnmpError, i64) result" where
  "decode_int bs =
     (if bs = [] then Inl Ber
      else if 9 < length bs then Inl Ber
      else let acc = be_acc (if hd bs AND 0x80 \<noteq> 0 then - 1 else 0) bs in
        if length bs = 9 \<and> hd bs \<noteq> 0 then Inl Ber else Inr acc)"

fun strip_leading_zeros :: "bytes \<Rightarrow> bytes" where
  "strip_leading_zeros (a # b # bs) = (if a = 0 then strip_leading_zeros (b # bs) else a # b # bs)"
| "strip_leading_zeros bs = bs"

definition encode_uint :: "64 word \<Rightarrow> bytes" where
  "encode_uint v =
     (if v = 0 then [0]
      else let bs = strip_leading_zeros (be_bytes 8 v) in
        if hd bs AND 0x80 \<noteq> 0 then 0 # bs else bs)"

definition decode_uint :: "bytes \<Rightarrow> (SnmpError, 64 word) result" where
  "decode_uint bs =
     (if bs = [] then Inl Ber
      else if 9 < length bs then Inl Ber
      else if length bs = 9 then (if hd bs \<noteq> 0 then Inl Ber else Inr (be_acc 0 (tl bs)))
      else Inr (be_acc 0 bs))"

function base128 :: "32 word \<Rightarrow> bytes" where
  "base128 v = (if v = 0 then [] else ucast (v AND 0x7F) # base128 (drop_bit 7 v))"
  by auto

lemma unat_drop_bit_less: "v \<noteq> 0 \<Longrightarrow> unat (drop_bit 7 v) < unat (v :: 32 word)"
proof -
  assume "v \<noteq> 0"
  then have "0 < unat v" by (simp add: unat_gt_0)
  moreover have "unat (drop_bit 7 v) = unat v div 2 ^ 7"
    by (simp add: unat_drop_bit_eq drop_bit_nat_def)
  ultimately show ?thesis by simp
qed

termination base128
  by (relation "measure unat") (simp_all add: unat_drop_bit_less)

declare base128.simps [simp del]

definition encode_arc :: "bytes \<Rightarrow> 32 word \<Rightarrow> bytes" where
  "encode_arc out v =
     (if v < 0x80 then out @ [ucast v]
      else let tmp = base128 v in out @ map (\<lambda>b. b OR 0x80) (rev (tl tmp)) @ [hd tmp])"

definition encode_oid :: "32 word list \<Rightarrow> (SnmpError, bytes) result" where
  "encode_oid arcs =
     (case arcs of
        a # b # rest \<Rightarrow>
          if 2 < a then Inl BerEncode
          else if a < 2 \<and> 40 \<le> b then Inl BerEncode
          else if 2 ^ 32 \<le> unat a * 40 + unat b then Inl Panic
          else Inr (foldl encode_arc (encode_arc [] (a * 40 + b)) rest)
      | _ \<Rightarrow> Inl BerEncode)"

text \<open>The arc loop reads from the rest of the body and returns what it leaves.\<close>

fun arc_loop :: "32 word \<Rightarrow> bytes \<Rightarrow> (SnmpError, 32 word \<times> bytes) result" where
  "arc_loop acc [] = Inl Ber"
| "arc_loop acc (b # bs) =
     (if acc AND 0xFE000000 \<noteq> 0 then Inl Ber
      else let acc' = push_bit 7 acc OR ucast (b AND 0x7F) in
        if b AND 0x80 = 0 then Inr (acc', bs) else arc_loop acc' bs)"

definition decode_arc :: "bytes \<Rightarrow> (SnmpError, 32 word \<times> bytes) result" where
  "decode_arc bs = arc_loop 0 bs"

lemma arc_loop_shorter: "arc_loop acc bs = Inr (v, bs') \<Longrightarrow> length bs' < length bs"
  by (induction bs arbitrary: acc) (fastforce split: if_splits simp: Let_def)+

function decode_arcs :: "bytes \<Rightarrow> (SnmpError, 32 word list) result" where
  "decode_arcs bs =
     (if bs = [] then Inr []
      else case decode_arc bs of
        Inl e \<Rightarrow> Inl e
      | Inr (v, bs') \<Rightarrow> and_then (decode_arcs bs') (\<lambda>vs. Inr (v # vs)))"
  by pat_completeness auto
termination decode_arcs
  by (relation "measure length") (auto simp: decode_arc_def dest: arc_loop_shorter)

declare decode_arcs.simps [simp del]

definition first_arcs :: "32 word \<Rightarrow> 32 word \<times> 32 word" where
  "first_arcs f = (if f < 40 then (0, f) else if f < 80 then (1, f - 40) else (2, f - 80))"

definition decode_oid :: "bytes \<Rightarrow> (SnmpError, 32 word list) result" where
  "decode_oid bs =
     (if bs = [] then Inl Ber
      else and_then (decode_arc bs) (\<lambda>(first, rest).
        let (a, b) = first_arcs first in
        and_then (decode_arcs rest) (\<lambda>arcs. Inr (a # b # arcs))))"

section \<open>Encoder\<close>

type_synonym Encoder = bytes

definition write_tlv :: "Tag \<Rightarrow> bytes \<Rightarrow> Encoder \<Rightarrow> Encoder" where
  "write_tlv tag value buf = write_length (buf @ [tag]) (length value) @ value"

definition write_i64 :: "i64 \<Rightarrow> Encoder \<Rightarrow> Encoder" where
  "write_i64 v = write_tlv INTEGER (encode_int v)"

definition write_u32 :: "32 word \<Rightarrow> Encoder \<Rightarrow> Encoder" where
  "write_u32 v = write_i64 (ucast v)"

definition write_app_u32 :: "Tag \<Rightarrow> 32 word \<Rightarrow> Encoder \<Rightarrow> Encoder" where
  "write_app_u32 tag v = write_tlv tag (encode_uint (ucast v))"

definition write_counter64 :: "64 word \<Rightarrow> Encoder \<Rightarrow> Encoder" where
  "write_counter64 v = write_tlv COUNTER64 (encode_uint v)"

definition write_octet_string :: "bytes \<Rightarrow> Encoder \<Rightarrow> Encoder" where
  "write_octet_string v = write_tlv OCTET_STRING v"

definition write_app_octet_string :: "Tag \<Rightarrow> bytes \<Rightarrow> Encoder \<Rightarrow> Encoder" where
  "write_app_octet_string tag v = write_tlv tag v"

definition write_null :: "Encoder \<Rightarrow> Encoder" where
  "write_null = write_tlv NULL_TAG []"

definition write_oid :: "32 word list \<Rightarrow> Encoder \<Rightarrow> (SnmpError, Encoder) result" where
  "write_oid arcs buf = and_then (encode_oid arcs) (\<lambda>bs. Inr (write_tlv OID_TAG bs buf))"

definition write_raw :: "bytes \<Rightarrow> Encoder \<Rightarrow> Encoder" where
  "write_raw bs buf = buf @ bs"

text \<open>\<open>write_sequence\<close> and \<open>write_constructed\<close> run their body on a fresh encoder.\<close>

definition write_constructed :: "Tag \<Rightarrow> (Encoder \<Rightarrow> Encoder) \<Rightarrow> Encoder \<Rightarrow> Encoder" where
  "write_constructed tag body buf = write_tlv tag (body []) buf"

definition write_sequence :: "(Encoder \<Rightarrow> Encoder) \<Rightarrow> Encoder \<Rightarrow> Encoder" where
  "write_sequence body buf = write_tlv SEQUENCE (body []) buf"

section \<open>Decoder\<close>

record Decoder =
  d_bytes :: bytes
  d_pos :: nat

type_synonym 'a reader = "Decoder \<Rightarrow> (SnmpError, 'a \<times> Decoder) result"

definition decoder_new :: "bytes \<Rightarrow> Decoder" where
  "decoder_new bs = \<lparr>d_bytes = bs, d_pos = 0\<rparr>"

definition remaining :: "Decoder \<Rightarrow> nat" where
  "remaining d = length (d_bytes d) - d_pos d"

definition decoder_is_empty :: "Decoder \<Rightarrow> bool" where
  "decoder_is_empty d \<longleftrightarrow> length (d_bytes d) \<le> d_pos d"

definition read_byte :: "byte reader" where
  "read_byte d =
     (if d_pos d < length (d_bytes d) then Inr (d_bytes d ! d_pos d, d\<lparr>d_pos := d_pos d + 1\<rparr>)
      else Inl Ber)"

definition peek_tag :: "Decoder \<Rightarrow> (SnmpError, Tag) result" where
  "peek_tag d = (if d_pos d < length (d_bytes d) then Inr (d_bytes d ! d_pos d) else Inl Ber)"

fun read_length_bytes :: "nat \<Rightarrow> nat \<Rightarrow> nat reader" where
  "read_length_bytes 0 len d = Inr (len, d)"
| "read_length_bytes (Suc n) len d =
     and_then (read_byte d) (\<lambda>(b, d). read_length_bytes n (len * 256 + unat b) d)"

definition read_length :: "nat reader" where
  "read_length d =
     and_then (read_byte d) (\<lambda>(b, d).
       if b < 0x80 then Inr (unat b, d)
       else if b = 0x80 then Inl Ber
       else let n = unat (b AND 0x7F) in
         if 8 < n then Inl Ber else read_length_bytes n 0 d)"

definition read_tlv :: "(Tag \<times> bytes) reader" where
  "read_tlv d =
     and_then (read_byte d) (\<lambda>(tag, d).
     and_then (read_length d) (\<lambda>(len, d).
       if 2 ^ 64 \<le> d_pos d + len then Inl Ber
       else if d_pos d + len \<le> length (d_bytes d)
       then Inr ((tag, take len (drop (d_pos d) (d_bytes d))), d\<lparr>d_pos := d_pos d + len\<rparr>)
       else Inl Ber))"

definition read_expected :: "Tag \<Rightarrow> bytes reader" where
  "read_expected expected d =
     and_then (read_tlv d) (\<lambda>((tag, v), d). if tag \<noteq> expected then Inl Ber else Inr (v, d))"

definition read_sequence :: "Decoder reader" where
  "read_sequence d = and_then (read_expected SEQUENCE d) (\<lambda>(body, d). Inr (decoder_new body, d))"

definition read_constructed :: "Tag \<Rightarrow> Decoder reader" where
  "read_constructed tag d = and_then (read_expected tag d) (\<lambda>(body, d). Inr (decoder_new body, d))"

definition read_i64 :: "i64 reader" where
  "read_i64 d =
     and_then (read_expected INTEGER d) (\<lambda>(v, d). and_then (decode_int v) (\<lambda>n. Inr (n, d)))"

definition read_u32 :: "32 word reader" where
  "read_u32 d =
     and_then (read_i64 d) (\<lambda>(v, d). if 0 \<le> sint v \<and> sint v < 2 ^ 32 then Inr (ucast v, d) else Inl Ber)"

definition read_octet_string :: "bytes reader" where
  "read_octet_string = read_expected OCTET_STRING"

definition read_null :: "unit reader" where
  "read_null d =
     and_then (read_expected NULL_TAG d) (\<lambda>(v, d). if v \<noteq> [] then Inl Ber else Inr ((), d))"

definition read_oid :: "32 word list reader" where
  "read_oid d =
     and_then (read_expected OID_TAG d) (\<lambda>(v, d). and_then (decode_oid v) (\<lambda>arcs. Inr (arcs, d)))"

definition read_app_u32 :: "Tag \<Rightarrow> 32 word reader" where
  "read_app_u32 tag d =
     and_then (read_expected tag d) (\<lambda>(v, d).
     and_then (decode_uint v) (\<lambda>n.
       if 0xFFFFFFFF < n then Inl Ber else Inr (ucast n, d)))"

definition read_counter64 :: "64 word reader" where
  "read_counter64 d =
     and_then (read_expected COUNTER64 d) (\<lambda>(v, d). and_then (decode_uint v) (\<lambda>n. Inr (n, d)))"

section \<open>Integers read back\<close>

abbreviation signed_acc :: "bytes \<Rightarrow> i64" where
  "signed_acc bs \<equiv> be_acc (if hd bs AND 0x80 \<noteq> 0 then - 1 else 0) bs"

lemma strip_zeros_acc: "signed_acc (strip_zeros bs) = signed_acc bs"
  by (induction bs rule: strip_zeros.induct) (auto simp: be_acc_leading_zero)

lemma strip_ones_acc: "signed_acc (strip_ones bs) = signed_acc bs"
proof (induction bs rule: strip_ones.induct)
  case (1 a b bs)
  show ?case
  proof (cases "a = 0xFF \<and> b AND 0x80 \<noteq> 0")
    case True
    moreover have "(0xFF :: byte) AND 0x80 \<noteq> 0" by simp
    moreover have "be_acc (- 1) (0xFF # b # bs) = be_acc (- 1 :: i64) (b # bs)"
      by (rule be_acc_leading_ones)
    ultimately show ?thesis using 1 by (simp del: be_acc_simps)
  qed auto
qed simp_all

lemma strip_zeros_length: "length (strip_zeros bs) \<le> length bs \<and> (strip_zeros bs = [] \<longleftrightarrow> bs = [])"
  by (induction bs rule: strip_zeros.induct) auto

lemma strip_ones_length: "length (strip_ones bs) \<le> length bs \<and> (strip_ones bs = [] \<longleftrightarrow> bs = [])"
  by (induction bs rule: strip_ones.induct) auto

lemma strip_leading_zeros_length:
  "length (strip_leading_zeros bs) \<le> length bs \<and> (strip_leading_zeros bs = [] \<longleftrightarrow> bs = [])"
  by (induction bs rule: strip_leading_zeros.induct) auto

lemma be_bytes_Nil [simp]: "be_bytes n w = [] \<longleftrightarrow> n = 0"
  by (cases n) auto

lemma encode_int_length: "encode_int v \<noteq> [] \<and> length (encode_int v) \<le> 8"
  using strip_zeros_length [of "be_bytes 8 v"] strip_ones_length [of "be_bytes 8 v"] by (simp add: encode_int_def)

lemma encode_int_acc: "signed_acc (encode_int v) = v"
proof -
  have "signed_acc (be_bytes 8 v) = v" by (rule be_acc_all) simp
  then show ?thesis unfolding encode_int_def using strip_zeros_acc strip_ones_acc by simp
qed

lemma decode_encode_int [simp]: "decode_int (encode_int v) = Inr v"
  using encode_int_length [of v] encode_int_acc [of v] by (auto simp: decode_int_def Let_def)

lemma strip_leading_zeros_acc: "be_acc 0 (strip_leading_zeros bs) = be_acc 0 bs"
  by (induction bs rule: strip_leading_zeros.induct) auto

lemma encode_uint_length: "encode_uint v \<noteq> [] \<and> length (encode_uint v) \<le> 9 \<and>
    (length (encode_uint v) = 9 \<longrightarrow> hd (encode_uint v) = 0)"
  using strip_leading_zeros_length [of "be_bytes 8 v"] by (auto simp: encode_uint_def Let_def)

lemma encode_uint_acc: "be_acc 0 (encode_uint v) = v"
proof -
  have "be_acc 0 (be_bytes 8 v) = v" by (rule be_acc_all) simp
  then show ?thesis by (auto simp: encode_uint_def Let_def strip_leading_zeros_acc)
qed

lemma decode_encode_uint [simp]: "decode_uint (encode_uint v) = Inr v"
proof -
  have "be_acc 0 (tl bs) = be_acc (0 :: 64 word) bs" if "bs \<noteq> []" "hd bs = 0" for bs
    using that by (cases bs) auto
  then show ?thesis using encode_uint_length [of v] encode_uint_acc [of v]
    by (auto simp: decode_uint_def)
qed

section \<open>Object identifiers read back\<close>

lemma septet_constants:
  "(0x7F :: byte) = mask 7" "(0x7F :: 32 word) = mask 7"
  "(0xFE000000 :: 32 word) = push_bit 25 (mask 7)"
  by (simp_all add: mask_eq_exp_minus_1)

lemma bit_0x80 [simp]: "bit (0x80 :: byte) n \<longleftrightarrow> n = 7" "bit (0x80 :: int) n \<longleftrightarrow> n = 7"
proof -
  have "bit (2 ^ 7 :: byte) n \<longleftrightarrow> n = 7" "bit (2 ^ 7 :: int) n \<longleftrightarrow> n = 7"
    by (subst bit_exp_iff; auto)+
  then show "bit (0x80 :: byte) n \<longleftrightarrow> n = 7" "bit (0x80 :: int) n \<longleftrightarrow> n = 7" by simp_all
qed

lemma septet_join:
  fixes v :: "32 word"
  shows "push_bit 7 (drop_bit 7 v) OR ucast ((ucast (v AND 0x7F) :: byte) AND 0x7F) = v"
    and "push_bit 7 (drop_bit 7 v) OR ucast (((ucast (v AND 0x7F) :: byte) OR 0x80) AND 0x7F) = v"
proof -
  have idx: "bit v (7 + (n - 7)) \<longleftrightarrow> (if n < 7 then bit v 7 else bit v n)" for n by simp
  show "push_bit 7 (drop_bit 7 v) OR ucast ((ucast (v AND 0x7F) :: byte) AND 0x7F) = v"
    unfolding septet_constants by (rule bit_word_eqI) (auto simp: bit_simps idx)
  show "push_bit 7 (drop_bit 7 v) OR ucast (((ucast (v AND 0x7F) :: byte) OR 0x80) AND 0x7F) = v"
    unfolding septet_constants by (rule bit_word_eqI) (auto simp: bit_simps idx)
qed

lemma septet_tests [simp]:
  fixes v :: "32 word"
  shows "drop_bit 7 v AND 0xFE000000 = 0"
    and "(ucast (v AND 0x7F) :: byte) AND 0x80 = 0"
    and "((ucast (v AND 0x7F) :: byte) OR 0x80) AND 0x80 \<noteq> 0"
proof -
  show "drop_bit 7 v AND 0xFE000000 = 0"
    unfolding septet_constants by (rule bit_word_eqI) (auto simp: bit_simps dest: bit_imp_le_length)
qed (simp_all add: high_bit_iff bit_simps septet_constants)

lemma arc_loop_continued:
  "arc_loop 0 (map (\<lambda>b. b OR 0x80) (rev (base128 v)) @ rest) = arc_loop v rest"
proof (induction v arbitrary: rest rule: base128.induct)
  case (1 v)
  show ?case
  proof (cases "v = 0")
    case True
    then show ?thesis by (simp add: base128.simps)
  next
    case False
    have "arc_loop 0 (map (\<lambda>b. b OR 0x80) (rev (base128 v)) @ rest)
        = arc_loop (drop_bit 7 v) ((ucast (v AND 0x7F) OR 0x80) # rest)"
      using "1.IH" [OF False] False by (subst base128.simps) simp
    also have "\<dots> = arc_loop v rest" by (simp add: septet_join)
    finally show ?thesis .
  qed
qed

definition enc_arc :: "32 word \<Rightarrow> bytes" where
  "enc_arc v = encode_arc [] v"

lemma encode_arc_append: "encode_arc out v = out @ enc_arc v"
  by (simp add: encode_arc_def enc_arc_def Let_def)

lemma small_arc:
  fixes v :: "32 word"
  assumes "v < 0x80"
  shows "drop_bit 7 v = 0" "ucast v = (ucast (v AND 0x7F) :: byte)"
proof -
  have "take_bit 7 v = v"
    using assms by (simp add: word_unat_eq_iff unsigned_take_bit_eq take_bit_nat_def word_less_nat_alt)
  then have m: "v AND mask 7 = v" by (simp add: take_bit_eq_mask)
  then show "ucast v = (ucast (v AND 0x7F) :: byte)" by (simp add: septet_constants)
  show "drop_bit 7 v = 0" using \<open>take_bit 7 v = v\<close> by (metis drop_bit_take_bit diff_self_eq_0 take_bit_0)
qed

lemma decode_enc_arc [simp]: "decode_arc (enc_arc v @ rest) = Inr (v, rest)"
proof (cases "v < 0x80")
  case True
  have "arc_loop (drop_bit 7 v) (ucast (v AND 0x7F) # rest) = Inr (v, rest)" by (simp add: septet_join)
  then show ?thesis using True small_arc [OF True] by (simp add: enc_arc_def encode_arc_def decode_arc_def)
next
  case False
  then have "v \<noteq> 0" by auto
  then have "enc_arc v @ rest
      = map (\<lambda>b. b OR 0x80) (rev (base128 (drop_bit 7 v))) @ (ucast (v AND 0x7F) # rest)"
    using False by (simp add: enc_arc_def encode_arc_def Let_def base128.simps [of v])
  then show ?thesis by (simp add: decode_arc_def arc_loop_continued septet_join)
qed

lemma enc_arc_nonempty [simp]: "enc_arc v \<noteq> []"
  by (simp add: enc_arc_def encode_arc_def Let_def)

lemma foldl_encode_arc: "foldl encode_arc out arcs = out @ concat (map enc_arc arcs)"
  by (induction arcs arbitrary: out) (auto simp: encode_arc_append)

lemma decode_arcs_concat: "decode_arcs (concat (map enc_arc arcs)) = Inr arcs"
  by (induction arcs) (auto simp: decode_arcs.simps)

text \<open>Whatever can be encoded is read back.\<close>

lemma decode_encode_oid:
  assumes "encode_oid arcs = Inr bs"
  shows "decode_oid bs = Inr arcs" "bs \<noteq> []"
proof -
  obtain a b rest where arcs: "arcs = a # b # rest" and a: "a \<le> 2" "a < 2 \<longrightarrow> b < 40"
    and o: "unat a * 40 + unat b < 2 ^ 32" and bs: "bs = enc_arc (a * 40 + b) @ concat (map enc_arc rest)"
    using assms by (auto simp: encode_oid_def foldl_encode_arc encode_arc_append not_less not_le
        split: list.splits if_splits)
  then show "bs \<noteq> []" by simp
  have u: "unat (a * 40 + b) = unat a * 40 + unat b"
    using o by (simp add: unat_word_ariths unat_of_nat mod_less)
  have "unat a \<le> 2" using a(1) by (simp add: word_le_nat_alt)
  then have "unat a = 0 \<or> unat a = 1 \<or> unat a = 2" by arith
  then consider "a = 0" | "a = 1" | "a = 2" by (auto simp: word_unat_eq_iff)
  then have "first_arcs (a * 40 + b) = (a, b)"
    using a(2) u by cases (simp_all add: first_arcs_def word_less_nat_alt)
  then show "decode_oid bs = Inr arcs"
    by (simp add: decode_oid_def bs decode_arcs_concat arcs)
qed

text \<open>Every object identifier that arrives on the wire can be encoded again: in particular the sum of its
  first two arcs does not overflow.\<close>

lemma decoded_oid_encodes:
  assumes "decode_oid bs = Inr arcs"
  shows "\<exists>bs'. encode_oid arcs = Inr bs'"
proof -
  obtain f a b rest where f: "arcs = a # b # rest" "first_arcs f = (a, b)"
    using assms by (fastforce simp: decode_oid_def and_then_Inr case_prod_beta split: if_splits)
  have "f < 40 \<or> \<not> f < 40 \<and> f < 80 \<or> \<not> f < 40 \<and> \<not> f < 80" by blast
  then have "a \<le> 2 \<and> (a < 2 \<longrightarrow> b < 40) \<and> unat a * 40 + unat b < 2 ^ 32"
  proof (elim disjE)
    assume "f < 40"
    then show ?thesis using f(2) by (auto simp: first_arcs_def word_less_nat_alt)
  next
    assume "\<not> f < 40 \<and> f < 80"
    then show ?thesis using f(2) by (auto simp: first_arcs_def word_less_nat_alt word_le_nat_alt unat_sub)
  next
    assume "\<not> f < 40 \<and> \<not> f < 80"
    then show ?thesis using f(2) unsigned_less [of f, where 'a = nat] by (auto simp: first_arcs_def word_less_nat_alt word_le_nat_alt unat_sub)
  qed
  then show ?thesis using f(1) by (auto simp: encode_oid_def not_less not_le)
qed

section \<open>Readers and what they read back\<close>

text \<open>\<open>reads f e x\<close>: wherever the bytes \<open>e\<close> stand in a slice, \<open>f\<close> reads exactly them and returns \<open>x\<close>.\<close>

definition reads :: "'a reader \<Rightarrow> bytes \<Rightarrow> 'a \<Rightarrow> bool" where
  "reads f e x \<longleftrightarrow> (\<forall>pre post. length (pre @ e @ post) < 2 ^ 64 \<longrightarrow>
     f \<lparr>d_bytes = pre @ e @ post, d_pos = length pre\<rparr>
       = Inr (x, \<lparr>d_bytes = pre @ e @ post, d_pos = length pre + length e\<rparr>))"

lemma readsD: "reads f e x \<Longrightarrow> length (pre @ e @ post) < 2 ^ 64 \<Longrightarrow>
    f \<lparr>d_bytes = pre @ e @ post, d_pos = length pre\<rparr>
      = Inr (x, \<lparr>d_bytes = pre @ e @ post, d_pos = length pre + length e\<rparr>)"
  by (simp add: reads_def)

lemma readsI: "(\<And>pre post. length (pre @ e @ post) < 2 ^ 64 \<Longrightarrow>
    f \<lparr>d_bytes = pre @ e @ post, d_pos = length pre\<rparr>
      = Inr (x, \<lparr>d_bytes = pre @ e @ post, d_pos = length pre + length e\<rparr>)) \<Longrightarrow> reads f e x"
  by (simp add: reads_def)

text \<open>Sequencing.\<close>

lemma reads_bind:
  assumes "reads f e x" "reads (g x) e' y"
  shows "reads (\<lambda>d. and_then (f d) (\<lambda>(x, d). g x d)) (e @ e') y"
proof (rule readsI)
  fix pre post :: bytes assume l: "length (pre @ (e @ e') @ post) < 2 ^ 64"
  have "f \<lparr>d_bytes = pre @ (e @ e') @ post, d_pos = length pre\<rparr>
      = Inr (x, \<lparr>d_bytes = pre @ (e @ e') @ post, d_pos = length pre + length e\<rparr>)"
    using readsD [OF assms(1), of pre "e' @ post"] l by simp
  moreover have "g x \<lparr>d_bytes = pre @ (e @ e') @ post, d_pos = length pre + length e\<rparr>
      = Inr (y, \<lparr>d_bytes = pre @ (e @ e') @ post, d_pos = length pre + length (e @ e')\<rparr>)"
    using readsD [OF assms(2), of "pre @ e" post] l by (simp add: add.assoc)
  ultimately show "and_then (f \<lparr>d_bytes = pre @ (e @ e') @ post, d_pos = length pre\<rparr>) (\<lambda>(x, d). g x d)
      = Inr (y, \<lparr>d_bytes = pre @ (e @ e') @ post, d_pos = length pre + length (e @ e')\<rparr>)" by simp
qed

lemma reads_return: "reads (\<lambda>d. Inr (x, d)) [] x"
  by (rule readsI) simp

lemma reads_map:
  assumes "reads f e x" "h x = Inr y"
  shows "reads (\<lambda>d. and_then (f d) (\<lambda>(x, d). and_then (h x) (\<lambda>y. Inr (y, d)))) e y"
  by (rule readsI) (use readsD [OF assms(1)] assms(2) in simp)

lemma reads_whole: "reads f e x \<Longrightarrow> length e < 2 ^ 64 \<Longrightarrow>
    f (decoder_new e) = Inr (x, \<lparr>d_bytes = e, d_pos = length e\<rparr>)"
  using readsD [of f e x "[]" "[]"] by (simp add: decoder_new_def)

text \<open>A decoder that has consumed \<open>p\<close> and has \<open>r\<close> left.\<close>

definition pos_at :: "bytes \<Rightarrow> bytes \<Rightarrow> Decoder" where
  "pos_at p r = \<lparr>d_bytes = p @ r, d_pos = length p\<rparr>"

lemma reads_at: "reads f e x \<Longrightarrow> length (p @ e @ r) < 2 ^ 64 \<Longrightarrow> f (pos_at p (e @ r)) = Inr (x, pos_at (p @ e) r)"
  using readsD [of f e x p r] by (simp add: pos_at_def)

lemma reads_at_end: "reads f e x \<Longrightarrow> length (p @ e) < 2 ^ 64 \<Longrightarrow> f (pos_at p e) = Inr (x, pos_at (p @ e) [])"
  using reads_at [of f e x p "[]"] by simp

lemma decoder_new_at: "decoder_new bs = pos_at [] bs"
  by (simp add: decoder_new_def pos_at_def)

lemma reads_atI: "(\<And>p r. length (p @ e @ r) < 2 ^ 64 \<Longrightarrow> f (pos_at p (e @ r)) = Inr (x, pos_at (p @ e) r)) \<Longrightarrow> reads f e x"
  by (simp add: reads_def pos_at_def)

lemma empty_at [simp]: "decoder_is_empty (pos_at p r) \<longleftrightarrow> r = []"
  by (auto simp: decoder_is_empty_def pos_at_def)

lemma reads_byte: "reads read_byte [b] b"
  by (rule readsI) (simp add: read_byte_def nth_append)

lemma reads_length_bytes: "reads (read_length_bytes (length bs) acc) bs (be_nat acc bs)"
proof (induction bs arbitrary: acc)
  case Nil
  then show ?case by (simp add: reads_return)
next
  case (Cons b bs)
  have "reads (\<lambda>d. and_then (read_byte d) (\<lambda>(b, d). read_length_bytes (length bs) (acc * 256 + unat b) d))
      ([b] @ bs) (be_nat (acc * 256 + unat b) bs)"
    by (rule reads_bind [OF reads_byte Cons.IH])
  then show ?case by simp
qed

definition length_bytes :: "nat \<Rightarrow> bytes" where
  "length_bytes len = write_length [] len"

lemma write_length_append: "write_length out len = out @ length_bytes len"
  by (simp add: write_length_def length_bytes_def Let_def)

lemma long_form_byte:
  assumes "0 < n" "n \<le> 8"
  shows "\<not> (0x80 OR of_nat n :: byte) < 0x80" "(0x80 OR of_nat n :: byte) \<noteq> 0x80"
    "unat ((0x80 OR of_nat n :: byte) AND 0x7F) = n"
proof -
  have "n \<in> {1, 2, 3, 4, 5, 6, 7, 8}" using assms by auto
  then show "\<not> (0x80 OR of_nat n :: byte) < 0x80" "(0x80 OR of_nat n :: byte) \<noteq> 0x80"
    "unat ((0x80 OR of_nat n :: byte) AND 0x7F) = n"
    by auto
qed

lemma reads_length:
  assumes "len < 2 ^ 64"
  shows "reads read_length (length_bytes len) len"
proof (cases "len < 128")
  case True
  then have "unat (of_nat len :: byte) = len" by (simp add: unat_of_nat)
  then have "reads (\<lambda>d. and_then (read_byte d) (\<lambda>(b, d). Inr (unat b, d))) ([of_nat len] @ []) len"
    by (intro reads_bind [OF reads_byte]) (simp add: reads_return)
  moreover have "(of_nat len :: byte) < 0x80"
    using True by (simp add: word_less_nat_alt unat_of_nat)
  ultimately show ?thesis using True
    by (auto simp: reads_def read_length_def length_bytes_def write_length_def read_byte_def nth_append)
next
  case False
  let ?tmp = "le_bytes len"
  have n: "0 < length ?tmp" "length ?tmp \<le> 8"
    using False assms length_le_bytes [of len 8] le_bytes_nonempty [of len] by auto
  note f = long_form_byte [OF n]
  let ?g = "\<lambda>(b :: byte) d. if b < 0x80 then Inr (unat b, d) else if b = 0x80 then Inl Ber
       else let n = unat (b AND 0x7F) in if 8 < n then Inl Ber else read_length_bytes n 0 d"
  have "reads (?g (0x80 OR of_nat (length ?tmp))) (rev ?tmp) len"
    using reads_length_bytes [of "rev ?tmp" 0] f n by (simp add: be_nat_le_bytes)
  then have "reads (\<lambda>d. and_then (read_byte d) (\<lambda>(b, d). ?g b d)) ([0x80 OR of_nat (length ?tmp)] @ rev ?tmp) len"
    by (rule reads_bind [OF reads_byte])
  then show ?thesis using False
    by (simp add: read_length_def [abs_def] length_bytes_def write_length_def Let_def)
qed

definition tlv :: "Tag \<Rightarrow> bytes \<Rightarrow> bytes" where
  "tlv tag v = tag # length_bytes (length v) @ v"

lemma write_tlv_append: "write_tlv tag v buf = buf @ tlv tag v"
  by (simp add: write_tlv_def tlv_def write_length_append)

lemma length_bytes_nonempty: "length_bytes n \<noteq> []"
  by (simp add: length_bytes_def write_length_def Let_def)

lemma reads_tlv: "reads read_tlv (tlv tag v) (tag, v)"
proof (rule readsI)
  fix pre post :: bytes assume l: "length (pre @ tlv tag v @ post) < 2 ^ 64"
  let ?bs = "pre @ tlv tag v @ post"
  have 1: "read_byte \<lparr>d_bytes = ?bs, d_pos = length pre\<rparr> = Inr (tag, \<lparr>d_bytes = ?bs, d_pos = length pre + 1\<rparr>)"
    using readsD [OF reads_byte [of tag], of pre "length_bytes (length v) @ v @ post"] l by (simp add: tlv_def)
  have len: "length v < 2 ^ 64" using l by (simp add: tlv_def)
  have 2: "read_length \<lparr>d_bytes = ?bs, d_pos = length pre + 1\<rparr>
      = Inr (length v, \<lparr>d_bytes = ?bs, d_pos = length pre + 1 + length (length_bytes (length v))\<rparr>)"
    using readsD [OF reads_length [OF len], of "pre @ [tag]" "v @ post"] l by (simp add: tlv_def)
  have v: "take (length v) (drop (length pre + 1 + length (length_bytes (length v))) ?bs) = v"
    by (simp add: tlv_def)
  show "read_tlv \<lparr>d_bytes = ?bs, d_pos = length pre\<rparr>
      = Inr ((tag, v), \<lparr>d_bytes = ?bs, d_pos = length pre + length (tlv tag v)\<rparr>)"
    unfolding read_tlv_def 1 and_then_simps prod.case 2 using l v by (simp add: tlv_def)
qed

lemma reads_expected: "reads (read_expected tag) (tlv tag v) v"
  using reads_tlv [of tag v] by (simp add: reads_def read_expected_def)

lemma reads_sequence: "reads read_sequence (tlv SEQUENCE v) (decoder_new v)"
  using reads_expected [of SEQUENCE v] by (simp add: reads_def read_sequence_def)

lemma reads_octet_string: "reads read_octet_string (tlv OCTET_STRING v) v"
  unfolding read_octet_string_def by (rule reads_expected)

definition int_tlv :: "i64 \<Rightarrow> bytes" where
  "int_tlv v = tlv INTEGER (encode_int v)"

lemma write_i64_append: "write_i64 v buf = buf @ int_tlv v"
  by (simp add: write_i64_def write_tlv_append int_tlv_def)

lemma reads_i64: "reads read_i64 (int_tlv v) v"
  unfolding read_i64_def [abs_def] int_tlv_def by (rule reads_map [OF reads_expected]) simp

lemma sint_ucast_u32: "sint (ucast (v :: 32 word) :: i64) = uint v"
proof -
  have "- (2 ^ 63) \<le> uint v" by (rule order_trans [of _ 0]) simp_all
  moreover have "uint v < 2 ^ 63" using unsigned_less [of v, where 'a = int] by simp
  ultimately show ?thesis by (simp add: signed_ucast_eq signed_take_bit_int_eq_self_iff)
qed

lemma ucast_ucast_u32 [simp]: "ucast (ucast (v :: 32 word) :: 64 word) = v"
  by (rule bit_word_eqI) (simp add: bit_simps)

lemma reads_u32: "reads read_u32 (int_tlv (ucast v)) v"
proof (rule readsI)
  fix pre post :: bytes assume l: "length (pre @ int_tlv (ucast v) @ post) < 2 ^ 64"
  show "read_u32 \<lparr>d_bytes = pre @ int_tlv (ucast v) @ post, d_pos = length pre\<rparr>
      = Inr (v, \<lparr>d_bytes = pre @ int_tlv (ucast v) @ post, d_pos = length pre + length (int_tlv (ucast v))\<rparr>)"
    unfolding read_u32_def readsD [OF reads_i64 l]
    using unsigned_less [of v, where 'a = int] unsigned_greater_eq [of v, where 'a = int]
    by (simp add: sint_ucast_u32)
qed

section \<open>Readers stay inside their slice\<close>

definition advances :: "'a reader \<Rightarrow> bool" where
  "advances f \<longleftrightarrow> (\<forall>d x d'. f d = Inr (x, d') \<longrightarrow>
     d_bytes d' = d_bytes d \<and> d_pos d < d_pos d' \<and> d_pos d' \<le> length (d_bytes d))"

lemma advancesD: "advances f \<Longrightarrow> f d = Inr (x, d') \<Longrightarrow>
    d_bytes d' = d_bytes d \<and> d_pos d < d_pos d' \<and> d_pos d' \<le> length (d_bytes d)"
  by (auto simp: advances_def)

lemma advances_bind:
  assumes "advances f" "\<And>x. advances (g x)"
  shows "advances (\<lambda>d. and_then (f d) (\<lambda>(x, d). g x d))"
  using assms unfolding advances_def by (fastforce simp: and_then_Inr)

lemma advances_map: "advances f \<Longrightarrow> advances (\<lambda>d. and_then (f d) (\<lambda>(x, d). and_then (h x) (\<lambda>y. Inr (y, d))))"
  unfolding advances_def by (fastforce simp: and_then_Inr)

lemma advances_byte: "advances read_byte"
  by (auto simp: advances_def read_byte_def split: if_splits)

lemma read_length_bytes_advance:
  "read_length_bytes n acc d = Inr (len, d') \<Longrightarrow> d_pos d \<le> length (d_bytes d) \<Longrightarrow>
     d_bytes d' = d_bytes d \<and> d_pos d \<le> d_pos d' \<and> d_pos d' \<le> length (d_bytes d)"
proof (induction n arbitrary: acc d)
  case (Suc n)
  then obtain b d1 where "read_byte d = Inr (b, d1)" "read_length_bytes n (acc * 256 + unat b) d1 = Inr (len, d')"
    by (auto simp: and_then_Inr)
  then show ?case using Suc.IH advancesD [OF advances_byte] by fastforce
qed auto

lemma advances_length: "advances read_length"
  unfolding advances_def
proof (intro allI impI)
  fix d len d' assume "read_length d = Inr (len, d')"
  then obtain b d1 where b: "read_byte d = Inr (b, d1)"
    and r: "(\<exists>v. Inr (v, d1) = Inr (len, d')) \<or> (\<exists>n. read_length_bytes n 0 d1 = Inr (len, d'))"
    by (auto simp: read_length_def and_then_Inr Let_def split: if_splits)
  note a = advancesD [OF advances_byte b]
  from r show "d_bytes d' = d_bytes d \<and> d_pos d < d_pos d' \<and> d_pos d' \<le> length (d_bytes d)"
  proof (elim disjE exE)
    fix n assume "read_length_bytes n 0 d1 = Inr (len, d')"
    from read_length_bytes_advance [OF this] a show ?thesis by auto
  qed (use a in auto)
qed

lemma advances_tlv: "advances read_tlv"
  unfolding advances_def
proof (intro allI impI)
  fix d x d' assume "read_tlv d = Inr (x, d')"
  then obtain b d1 len d2 where b: "read_byte d = Inr (b, d1)" and l: "read_length d1 = Inr (len, d2)"
    and d': "d' = d2\<lparr>d_pos := d_pos d2 + len\<rparr>" "d_pos d2 + len \<le> length (d_bytes d2)"
    by (auto simp: read_tlv_def and_then_Inr Let_def split: if_splits)
  then show "d_bytes d' = d_bytes d \<and> d_pos d < d_pos d' \<and> d_pos d' \<le> length (d_bytes d)"
    using advancesD [OF advances_byte b] advancesD [OF advances_length l] by auto
qed

lemma advances_expected: "advances (read_expected tag)"
  using advances_tlv unfolding advances_def read_expected_def by (fastforce simp: and_then_Inr split: if_splits)

lemma advances_sequence: "advances read_sequence"
  using advances_expected [of SEQUENCE] unfolding advances_def read_sequence_def by (fastforce simp: and_then_Inr)

section \<open>Codecs\<close>

text \<open>
  The contract between the encoder and the decoder of a type: encoding appends some bytes, and they are
  read back as the encoded value.  It gives unique decodability and reading back of a whole sequence
  of items.
\<close>

locale codec =
  fixes wr :: "'a \<Rightarrow> Encoder \<Rightarrow> (SnmpError, Encoder) result"
    and rd :: "'a reader"
  assumes writes: "wr x buf = Inr buf' \<Longrightarrow> \<exists>e. buf' = buf @ e \<and> reads rd e x \<and> (\<forall>b. wr x b = Inr (b @ e))"
    and rd_advances: "advances rd"
begin

definition code :: "'a \<Rightarrow> bytes" where
  "code x = (case wr x [] of Inl _ \<Rightarrow> [] | Inr e \<Rightarrow> e)"

lemma write_code: "wr x b0 = Inr b1 \<Longrightarrow> wr x buf = Inr (buf @ code x) \<and> reads rd (code x) x"
  using writes [of x b0 b1] by (auto simp: code_def)

lemma read_back: "wr x buf = Inr buf' \<Longrightarrow> length buf' < 2 ^ 64 \<Longrightarrow>
    rd \<lparr>d_bytes = buf', d_pos = length buf\<rparr> = Inr (x, \<lparr>d_bytes = buf', d_pos = length buf'\<rparr>)"
  using writes [of x buf buf'] readsD [of rd _ x buf "[]"] by fastforce

lemma uniquely_decodable:
  assumes "wr x [] = Inr e" "wr y [] = Inr f" "e @ p = f @ q" "length (e @ p) < 2 ^ 64"
  shows "x = y \<and> p = q"
proof -
  have "rd \<lparr>d_bytes = e @ p, d_pos = 0\<rparr> = Inr (x, \<lparr>d_bytes = e @ p, d_pos = length e\<rparr>)"
    using writes [OF assms(1)] readsD [of rd e x "[]" p] assms(4) by auto
  moreover have "rd \<lparr>d_bytes = f @ q, d_pos = 0\<rparr> = Inr (y, \<lparr>d_bytes = f @ q, d_pos = length f\<rparr>)"
    using writes [OF assms(2)] readsD [of rd f y "[]" q] assms(3,4) by auto
  ultimately show ?thesis using assms(3) by (auto simp: append_eq_append_conv)
qed

lemma code_nonempty: "wr x b0 = Inr b1 \<Longrightarrow> length (code x) < 2 ^ 64 \<Longrightarrow> code x \<noteq> []"
  using write_code [of x b0 b1] reads_whole [of rd "code x" x] advancesD [OF rd_advances]
  by (fastforce simp: decoder_new_def)

end

text \<open>Writers that cannot fail.\<close>

lemma codec_total: "(\<And>x buf. w x buf = buf @ e x) \<Longrightarrow> (\<And>x. reads rd (e x) x) \<Longrightarrow> advances rd \<Longrightarrow>
    codec (\<lambda>x buf. Inr (w x buf)) rd"
  by unfold_locales auto

lemma advances_i64: "advances read_i64"
  unfolding read_i64_def [abs_def] by (rule advances_map [OF advances_expected])

lemma advances_u32: "advances read_u32"
  using advances_i64 unfolding advances_def read_u32_def by (fastforce simp: and_then_Inr split: if_splits)

lemma advances_oid: "advances read_oid"
  unfolding read_oid_def [abs_def] by (rule advances_map [OF advances_expected])

interpretation int_codec: codec "\<lambda>v buf. Inr (write_i64 v buf)" read_i64
  by (rule codec_total [OF write_i64_append reads_i64 advances_i64])

interpretation u32_codec: codec "\<lambda>v buf. Inr (write_u32 v buf)" read_u32
  by (rule codec_total [OF _ reads_u32 advances_u32]) (simp add: write_u32_def write_i64_append)

interpretation octets_codec: codec "\<lambda>v buf. Inr (write_octet_string v buf)" read_octet_string
  by (rule codec_total [OF _ reads_octet_string])
    (simp_all add: write_octet_string_def write_tlv_append read_octet_string_def advances_expected)

interpretation oid_codec: codec write_oid read_oid
proof
  fix x buf buf' assume "write_oid x buf = Inr buf'"
  then obtain bs where bs: "encode_oid x = Inr bs" "buf' = buf @ tlv OID_TAG bs"
    by (auto simp: write_oid_def and_then_Inr write_tlv_append)
  have "reads read_oid (tlv OID_TAG bs) x"
    unfolding read_oid_def [abs_def] by (rule reads_map [OF reads_expected]) (rule decode_encode_oid(1) [OF bs(1)])
  then show "\<exists>e. buf' = buf @ e \<and> reads read_oid e x \<and> (\<forall>b. write_oid x b = Inr (b @ e))"
    using bs by (auto simp: write_oid_def write_tlv_append)
qed (rule advances_oid)

end
