(* ===== verification/Std_Strings.thy ===== *)
theory Std_Strings
  imports Std_Text
begin

text \<open>
  String functions of the Rust standard library.  A \<open>str\<close> is its UTF-8 bytes: a white space character is one
  of a fixed list of byte sequences, and in valid UTF-8 these occur only at character boundaries.
\<close>

section \<open>Splitting\<close>

fun split_on :: "char \<Rightarrow> string \<Rightarrow> string list" where
  "split_on c [] = [[]]"
| "split_on c (x # xs) =
     (if x = c then [] # split_on c xs
      else case split_on c xs of [] \<Rightarrow> [[x]] | p # ps \<Rightarrow> (x # p) # ps)"

definition strip_prefix :: "string \<Rightarrow> string \<Rightarrow> string option" where
  "strip_prefix p s = (if take (length p) s = p then Some (drop (length p) s) else None)"

definition strip_suffix :: "string \<Rightarrow> string \<Rightarrow> string option" where
  "strip_suffix p s = map_option rev (strip_prefix (rev p) (rev s))"

fun str_contains :: "string \<Rightarrow> string \<Rightarrow> bool" where
  "str_contains needle [] = (needle = [])"
| "str_contains needle (c # cs) = (take (length needle) (c # cs) = needle \<or> str_contains needle cs)"

definition strip_cr :: "string \<Rightarrow> string" where
  "strip_cr s = (if s \<noteq> [] \<and> last s = CHR 0x0D then butlast s else s)"

text \<open>\<open>str::lines\<close>: a final line without newline is kept as it is; an empty one is dropped.\<close>

definition str_lines :: "string \<Rightarrow> string list" where
  "str_lines s =
     (let ps = split_on CHR 0x0A s
      in map strip_cr (butlast ps) @ (if last ps = [] then [] else [last ps]))"

section \<open>White space\<close>

definition white_space :: "string list" where
  "white_space =
    [[CHR 0x09], [CHR 0x0A], [CHR 0x0B], [CHR 0x0C],
     [CHR 0x0D], [CHR 0x20], [CHR 0xC2, CHR 0x85], [CHR 0xC2, CHR 0xA0],
     [CHR 0xE1, CHR 0x9A, CHR 0x80], [CHR 0xE2, CHR 0x80, CHR 0x80], [CHR 0xE2, CHR 0x80, CHR 0x81], [CHR 0xE2, CHR 0x80, CHR 0x82],
     [CHR 0xE2, CHR 0x80, CHR 0x83], [CHR 0xE2, CHR 0x80, CHR 0x84], [CHR 0xE2, CHR 0x80, CHR 0x85], [CHR 0xE2, CHR 0x80, CHR 0x86],
     [CHR 0xE2, CHR 0x80, CHR 0x87], [CHR 0xE2, CHR 0x80, CHR 0x88], [CHR 0xE2, CHR 0x80, CHR 0x89], [CHR 0xE2, CHR 0x80, CHR 0x8A],
     [CHR 0xE2, CHR 0x80, CHR 0xA8], [CHR 0xE2, CHR 0x80, CHR 0xA9], [CHR 0xE2, CHR 0x80, CHR 0xAF], [CHR 0xE2, CHR 0x81, CHR 0x9F],
     [CHR 0xE3, CHR 0x80, CHR 0x80]]"

definition ws_len :: "string \<Rightarrow> nat" where
  "ws_len s = (case List.find (\<lambda>w. take (length w) s = w) white_space of Some w \<Rightarrow> length w | None \<Rightarrow> 0)"

definition ws_end_len :: "string \<Rightarrow> nat" where
  "ws_end_len s =
     (case List.find (\<lambda>w. length w \<le> length s \<and> drop (length s - length w) s = w) white_space of
        Some w \<Rightarrow> length w | None \<Rightarrow> 0)"

lemma white_space_nonempty: "w \<in> set white_space \<Longrightarrow> w \<noteq> []"
  by (auto simp: white_space_def)

lemma ws_len_le: "ws_len s \<le> length s"
proof (cases "List.find (\<lambda>w. take (length w) s = w) white_space")
  case (Some w)
  then have "take (length w) s = w" by (simp add: find_Some_iff) blast
  then have "length w \<le> length s" by (metis length_take min.cobounded1)
  then show ?thesis using Some by (simp add: ws_len_def)
qed (simp add: ws_len_def)

lemma ws_end_len_le: "ws_end_len s \<le> length s"
proof (cases "List.find (\<lambda>w. length w \<le> length s \<and> drop (length s - length w) s = w) white_space")
  case (Some w)
  then have "length w \<le> length s" by (simp add: find_Some_iff) blast
  then show ?thesis unfolding ws_end_len_def Some by simp
qed (simp add: ws_end_len_def)

function trim_start :: "string \<Rightarrow> string" where
  "trim_start s = (if ws_len s = 0 then s else trim_start (drop (ws_len s) s))"
  by auto
termination trim_start
proof (relation "measure length")
  fix s assume "ws_len s \<noteq> 0"
  then show "(drop (ws_len s) s, s) \<in> measure length" using ws_len_le [of s] by simp
qed simp

function trim_end :: "string \<Rightarrow> string" where
  "trim_end s = (if ws_end_len s = 0 then s else trim_end (take (length s - ws_end_len s) s))"
  by auto
termination trim_end
proof (relation "measure length")
  fix s assume "ws_end_len s \<noteq> 0"
  then show "(take (length s - ws_end_len s) s, s) \<in> measure length" using ws_end_len_le [of s] by simp
qed simp

declare trim_start.simps [simp del] trim_end.simps [simp del]

definition trim :: "string \<Rightarrow> string" where
  "trim s = trim_end (trim_start s)"

text \<open>\<open>splitn(2, char::is_whitespace)\<close>: the part before the first white space character, and the part after it.\<close>

fun split_ws :: "string \<Rightarrow> string \<times> string option" where
  "split_ws [] = ([], None)"
| "split_ws (c # cs) =
     (if ws_len (c # cs) \<noteq> 0 then ([], Some (drop (ws_len (c # cs)) (c # cs)))
      else let (l, r) = split_ws cs in (c # l, r))"

definition trim_matches :: "char \<Rightarrow> string \<Rightarrow> string" where
  "trim_matches c s = rev (dropWhile (\<lambda>x. x = c) (rev (dropWhile (\<lambda>x. x = c) s)))"

section \<open>Case\<close>

definition ascii_lower :: "char \<Rightarrow> char" where
  "ascii_lower c = (let k = (of_char c :: nat) in if 65 \<le> k \<and> k \<le> 90 then char_of (k + 32) else c)"

section \<open>Lemmas\<close>

lemma split_on_not_Nil [simp]: "split_on c s \<noteq> []"
  by (induction s) (auto split: list.splits)

lemma split_on_notin: "c \<notin> set s \<Longrightarrow> split_on c s = [s]"
  by (induction s) auto

lemma split_on_sep: "c \<notin> set s \<Longrightarrow> split_on c (s @ c # t) = s # split_on c t"
  by (induction s) auto

lemma split_on_append: "split_on c (s @ c # t) = split_on c s @ split_on c t"
  by (induction s) (auto split: list.splits)

lemma split_on_chars: "p \<in> set (split_on c s) \<Longrightarrow> set p \<subseteq> set s"
  by (induction s arbitrary: p) (fastforce split: list.splits if_splits)+

text \<open>Visible ASCII characters are neither white space nor part of one.\<close>

definition visible :: "char \<Rightarrow> bool" where
  "visible c \<longleftrightarrow> (of_char c :: nat) \<in> {33..126}"

lemma white_space_visible: "w \<in> set white_space \<Longrightarrow> c \<in> set w \<Longrightarrow> \<not> visible c"
  by (auto simp: white_space_def visible_def)

lemma ws_len_visible [simp]: "visible c \<Longrightarrow> ws_len (c # s) = 0"
proof -
  assume v: "visible c"
  have "\<not> take (length w) (c # s) = w" if "w \<in> set white_space" for w
    using white_space_nonempty [OF that] white_space_visible [OF that] v by (cases w) auto
  then have "List.find (\<lambda>w. take (length w) (c # s) = w) white_space = None" by (simp add: find_None_iff)
  then show ?thesis by (simp add: ws_len_def)
qed

lemma ws_end_len_visible [simp]: "visible c \<Longrightarrow> ws_end_len (s @ [c]) = 0"
proof -
  assume v: "visible c"
  have "\<not> (length w \<le> length (s @ [c]) \<and> drop (length (s @ [c]) - length w) (s @ [c]) = w)" if "w \<in> set white_space" for w
  proof
    assume a: "length w \<le> length (s @ [c]) \<and> drop (length (s @ [c]) - length w) (s @ [c]) = w"
    have "last (drop (length (s @ [c]) - length w) (s @ [c])) = c"
      using white_space_nonempty [OF that] by (subst last_drop) auto
    then have "last w = c" using a by simp
    then show False using white_space_visible [OF that] white_space_nonempty [OF that] v by (metis last_in_set)
  qed
  then have "List.find (\<lambda>w. length w \<le> length (s @ [c]) \<and> drop (length (s @ [c]) - length w) (s @ [c]) = w) white_space = None"
    unfolding find_None_iff by blast
  then show ?thesis unfolding ws_end_len_def by simp
qed

lemma trim_start_visible [simp]: "visible c \<Longrightarrow> trim_start (c # s) = c # s"
  by (simp add: trim_start.simps)

lemma trim_end_visible [simp]: "visible c \<Longrightarrow> trim_end (s @ [c]) = s @ [c]"
  by (simp add: trim_end.simps)

lemma trim_visible: "s \<noteq> [] \<Longrightarrow> visible (hd s) \<Longrightarrow> visible (last s) \<Longrightarrow> trim s = s"
  by (metis append_butlast_last_id list.collapse trim_def trim_end_visible trim_start_visible)

lemma ws_len_space [simp]: "ws_len (CHR '' '' # s) = 1"
  by (simp add: ws_len_def white_space_def)

lemma trim_start_space [simp]: "trim_start (CHR '' '' # s) = trim_start s"
  by (subst trim_start.simps) simp

lemma split_ws_visible: "\<forall>c \<in> set s. visible c \<Longrightarrow> split_ws (s @ CHR '' '' # t) = (s, Some t)"
  by (induction s) auto

lemma trim_start_chars: "set (trim_start s) \<subseteq> set s"
proof (induction s rule: trim_start.induct)
  case (1 s)
  then show ?case by (subst trim_start.simps) (auto dest: in_set_dropD)
qed

lemma trim_end_chars: "set (trim_end s) \<subseteq> set s"
proof (induction s rule: trim_end.induct)
  case (1 s)
  then show ?case by (subst trim_end.simps) (auto dest: in_set_takeD)
qed

lemma trim_chars: "set (trim s) \<subseteq> set s"
  using trim_start_chars [of s] trim_end_chars [of "trim_start s"] by (auto simp: trim_def)

section \<open>Lines\<close>

lemma str_lines_append: "str_lines (a @ CHR 0x0A # b) = map strip_cr (split_on CHR 0x0A a) @ str_lines b"
  by (simp add: str_lines_def split_on_append Let_def butlast_append)

lemma str_lines_Nil [simp]: "str_lines [] = []"
  by (simp add: str_lines_def)

lemma split_on_last: "s \<noteq> [] \<Longrightarrow> last s \<noteq> c \<Longrightarrow> last (split_on c s) \<noteq> []"
  by (induction s) (auto split: list.splits if_splits)

lemma strip_cr_visible [simp]: "visible c \<Longrightarrow> strip_cr (s @ [c]) = s @ [c]"
  by (auto simp: strip_cr_def visible_def)

lemma white_space_cr: "w \<in> set white_space \<Longrightarrow> CHR 0x0D \<in> set w \<Longrightarrow> w = [CHR 0x0D]"
  by (auto simp: white_space_def)

lemma ws_len_Nil [simp]: "ws_len [] = 0"
  using ws_len_le [of "[]"] by simp

lemma trim_start_Nil [simp]: "trim_start [] = []"
  by (simp add: trim_start.simps)

lemma trim_end_Nil [simp]: "trim_end [] = []"
  using ws_end_len_le [of "[]"] by (simp add: trim_end.simps)

lemma ws_len_cr: "x \<noteq> [] \<Longrightarrow> ws_len (x @ [CHR 0x0D]) = ws_len x"
proof -
  assume x: "x \<noteq> []"
  have "take (length w) (x @ [CHR 0x0D]) = w \<longleftrightarrow> take (length w) x = w" if w: "w \<in> set white_space" for w
  proof (cases "length w \<le> length x")
    case False
    have "w = x @ [CHR 0x0D] \<Longrightarrow> False" using white_space_cr [OF w] x by auto
    moreover have "take (length w) x \<noteq> w" using False by (metis length_take min.cobounded1)
    ultimately show ?thesis using False by auto
  qed simp
  then have "List.find (\<lambda>w. take (length w) (x @ [CHR 0x0D]) = w) white_space = List.find (\<lambda>w. take (length w) x = w) white_space"
    by (intro find_cong) auto
  then show ?thesis unfolding ws_len_def by simp
qed

lemma ws_end_len_cr: "ws_end_len (x @ [CHR 0x0D]) = 1"
proof -
  let ?P = "\<lambda>w. length w \<le> length (x @ [CHR 0x0D]) \<and> drop (length (x @ [CHR 0x0D]) - length w) (x @ [CHR 0x0D]) = w"
  have only: "w = [CHR 0x0D]" if w: "w \<in> set white_space" and p: "?P w" for w
  proof -
    have "last (drop (length (x @ [CHR 0x0D]) - length w) (x @ [CHR 0x0D])) = CHR 0x0D"
      using white_space_nonempty [OF w] by (subst last_drop) auto
    then have "last w = CHR 0x0D" using p by simp
    then show ?thesis using white_space_cr [OF w] white_space_nonempty [OF w] by (metis last_in_set)
  qed
  have "?P [CHR 0x0D]" "[CHR 0x0D] \<in> set white_space" by (simp_all add: white_space_def)
  then have "List.find ?P white_space \<noteq> None" unfolding find_None_iff by blast
  then obtain w where w: "List.find ?P white_space = Some w" by blast
  then have "w \<in> set white_space" "?P w" by (blast dest: find_Some_mem)+
  then have "w = [CHR 0x0D]" by (rule only)
  then show ?thesis unfolding ws_end_len_def w by simp
qed

lemma trim_start_cr: "trim_start (x @ [CHR 0x0D]) = (if trim_start x = [] then [] else trim_start x @ [CHR 0x0D])"
proof (induction x rule: trim_start.induct)
  case (1 x)
  show ?case
  proof (cases "x = []")
    case True
    have "ws_len [CHR 0x0D] = 1" by (simp add: ws_len_def white_space_def)
    then show ?thesis using True by (simp add: trim_start.simps)
  next
    case False
    show ?thesis
    proof (cases "ws_len x = 0")
      case True
      then show ?thesis using False ws_len_cr [OF False] by (simp add: trim_start.simps)
    next
      case nz: False
      have "trim_start (x @ [CHR 0x0D]) = trim_start (drop (ws_len x) x @ [CHR 0x0D])"
        using nz ws_len_cr [OF False] ws_len_le [of x] by (subst trim_start.simps) simp
      also have "\<dots> = (if trim_start x = [] then [] else trim_start x @ [CHR 0x0D])"
        unfolding 1 [OF nz] by (simp add: trim_start.simps [of x] nz)
      finally show ?thesis .
    qed
  qed
qed

lemma trim_strip_cr [simp]: "trim (strip_cr s) = trim s"
proof (cases "s \<noteq> [] \<and> last s = CHR 0x0D")
  case True
  then obtain x where s: "s = x @ [CHR 0x0D]" by (metis append_butlast_last_id)
  have "trim_end (y @ [CHR 0x0D]) = trim_end y" for y
    by (subst trim_end.simps) (simp add: ws_end_len_cr)
  then show ?thesis by (simp add: s strip_cr_def trim_def trim_start_cr)
qed (auto simp: strip_cr_def)

end
