(* ===== verification/Snmp_Pdu.thy ===== *)
theory Snmp_Pdu
  imports Snmp_Ber Std_Strings "HOL-Library.List_Lexorder"
begin

text \<open>
  Object identifiers, variable bindings and protocol data units of the SNMP agent:
  \<open>crates/spt-snmp/src/oid.rs\<close>, \<open>value.rs\<close> and \<open>pdu.rs\<close>.
\<close>

section \<open>Object identifiers\<close>

datatype ObjectIdentifier = ObjectIdentifier (arcs: "32 word list")

definition ENTERPRISES_PREFIX :: "32 word list" where
  "ENTERPRISES_PREFIX = [1, 3, 6, 1, 4, 1]"

definition enterprise_oid :: "32 word \<Rightarrow> ObjectIdentifier" where
  "enterprise_oid pen = ObjectIdentifier (ENTERPRISES_PREFIX @ [pen])"

definition with_suffix :: "ObjectIdentifier \<Rightarrow> 32 word \<Rightarrow> ObjectIdentifier" where
  "with_suffix o1 arc = ObjectIdentifier (arcs o1 @ [arc])"

definition starts_with :: "ObjectIdentifier \<Rightarrow> ObjectIdentifier \<Rightarrow> bool" where
  "starts_with o1 prefix \<longleftrightarrow> take (length (arcs prefix)) (arcs o1) = arcs prefix"

instantiation ObjectIdentifier :: linorder
begin

definition less_eq_ObjectIdentifier :: "ObjectIdentifier \<Rightarrow> ObjectIdentifier \<Rightarrow> bool" where
  "less_eq_ObjectIdentifier o1 o2 \<longleftrightarrow> arcs o1 \<le> arcs o2"

definition less_ObjectIdentifier :: "ObjectIdentifier \<Rightarrow> ObjectIdentifier \<Rightarrow> bool" where
  "less_ObjectIdentifier o1 o2 \<longleftrightarrow> arcs o1 < arcs o2"

instance
  by standard (auto simp: less_eq_ObjectIdentifier_def less_ObjectIdentifier_def ObjectIdentifier.expand)

end

text \<open>\<open>Display\<close>, \<open>str::split\<close> and \<open>FromStr\<close>.\<close>

fun join_dots :: "string list \<Rightarrow> string" where
  "join_dots [] = []"
| "join_dots [s] = s"
| "join_dots (s # ss) = s @ ''.'' @ join_dots ss"

definition display_oid :: "ObjectIdentifier \<Rightarrow> string" where
  "display_oid o1 = join_dots (map (\<lambda>a. dec (unat a)) (arcs o1))"

fun parse_arcs :: "string list \<Rightarrow> (SnmpError, 32 word list) result" where
  "parse_arcs [] = Inr []"
| "parse_arcs (part # parts) =
     (case parse_uint u32_max part of
        None \<Rightarrow> Inl Ber
      | Some v \<Rightarrow> and_then (parse_arcs parts) (\<lambda>vs. Inr (of_nat v # vs)))"

definition oid_from_str :: "string \<Rightarrow> (SnmpError, ObjectIdentifier) result" where
  "oid_from_str s =
     and_then (parse_arcs (split_on CHR ''.'' (dropWhile (\<lambda>c. c = CHR ''.'') s))) (\<lambda>vs.
       if length vs < 2 then Inl Ber else Inr (ObjectIdentifier vs))"

section \<open>Values and variable bindings\<close>

datatype Value =
    V_Integer i64
  | V_OctetString bytes
  | V_Null
  | V_Oid ObjectIdentifier
  | V_Counter32 "32 word"
  | V_Gauge32 "32 word"
  | V_TimeTicks "32 word"
  | V_Opaque bytes
  | V_Counter64 "64 word"
  | V_IpAddress byte byte byte byte
  | V_NoSuchObject
  | V_NoSuchInstance
  | V_EndOfMibView

definition value_encode :: "Value \<Rightarrow> Encoder \<Rightarrow> (SnmpError, Encoder) result" where
  "value_encode v enc =
     (case v of
        V_Integer n \<Rightarrow> Inr (write_i64 n enc)
      | V_OctetString bs \<Rightarrow> Inr (write_octet_string bs enc)
      | V_Null \<Rightarrow> Inr (write_null enc)
      | V_Oid o1 \<Rightarrow> write_oid (arcs o1) enc
      | V_Counter32 n \<Rightarrow> Inr (write_app_u32 COUNTER32 n enc)
      | V_Gauge32 n \<Rightarrow> Inr (write_app_u32 GAUGE32 n enc)
      | V_TimeTicks n \<Rightarrow> Inr (write_app_u32 TIMETICKS n enc)
      | V_Opaque bs \<Rightarrow> Inr (write_app_octet_string OPAQUE bs enc)
      | V_Counter64 n \<Rightarrow> Inr (write_counter64 n enc)
      | V_IpAddress a b c d \<Rightarrow> Inr (write_app_octet_string IP_ADDRESS [a, b, c, d] enc)
      | V_NoSuchObject \<Rightarrow> Inr (write_tlv NO_SUCH_OBJECT [] enc)
      | V_NoSuchInstance \<Rightarrow> Inr (write_tlv NO_SUCH_INSTANCE [] enc)
      | V_EndOfMibView \<Rightarrow> Inr (write_tlv END_OF_MIB [] enc))"

definition decode_i64 :: "bytes \<Rightarrow> (SnmpError, i64) result" where
  "decode_i64 body =
     (if body = [] then Inl Ber
      else Inr (be_acc (if hd body AND 0x80 \<noteq> 0 then - 1 else 0) body))"

definition value_decode_uint :: "bytes \<Rightarrow> (SnmpError, 64 word) result" where
  "value_decode_uint body =
     (if body = [] then Inl Ber
      else if 9 < length body then Inl Ber
      else if length body = 9 then (if hd body \<noteq> 0 then Inl Ber else Inr (be_acc 0 (tl body)))
      else Inr (be_acc 0 body))"

definition decode_u32_app :: "bytes \<Rightarrow> (SnmpError, 32 word) result" where
  "decode_u32_app body =
     and_then (value_decode_uint body) (\<lambda>v. if 0xFFFFFFFF < v then Inl Ber else Inr (ucast v))"

definition value_of_tlv :: "Tag \<times> bytes \<Rightarrow> (SnmpError, Value) result" where
  "value_of_tlv tb =
     (let (tag, body) = tb in
      if tag = INTEGER then and_then (decode_i64 body) (\<lambda>v. Inr (V_Integer v))
      else if tag = OCTET_STRING then Inr (V_OctetString body)
      else if tag = NULL_TAG then (if body \<noteq> [] then Inl Ber else Inr V_Null)
      else if tag = OID_TAG then and_then (decode_oid body) (\<lambda>v. Inr (V_Oid (ObjectIdentifier v)))
      else if tag = COUNTER32 then and_then (decode_u32_app body) (\<lambda>v. Inr (V_Counter32 v))
      else if tag = GAUGE32 then and_then (decode_u32_app body) (\<lambda>v. Inr (V_Gauge32 v))
      else if tag = TIMETICKS then and_then (decode_u32_app body) (\<lambda>v. Inr (V_TimeTicks v))
      else if tag = OPAQUE then Inr (V_Opaque body)
      else if tag = COUNTER64 then and_then (value_decode_uint body) (\<lambda>v. Inr (V_Counter64 v))
      else if tag = IP_ADDRESS then
        (case body of [a, b, c, d] \<Rightarrow> Inr (V_IpAddress a b c d) | _ \<Rightarrow> Inl Ber)
      else if tag = NO_SUCH_OBJECT then Inr V_NoSuchObject
      else if tag = NO_SUCH_INSTANCE then Inr V_NoSuchInstance
      else if tag = END_OF_MIB then Inr V_EndOfMibView
      else Inl Ber)"

definition value_decode :: "Value reader" where
  "value_decode d =
     and_then (read_tlv d) (\<lambda>(tb, d). and_then (value_of_tlv tb) (\<lambda>v. Inr (v, d)))"

record VarBind =
  vb_name :: ObjectIdentifier
  vb_value :: Value

definition varbind_null :: "ObjectIdentifier \<Rightarrow> VarBind" where
  "varbind_null n = \<lparr>vb_name = n, vb_value = V_Null\<rparr>"

definition varbind_encode :: "VarBind \<Rightarrow> Encoder \<Rightarrow> (SnmpError, Encoder) result" where
  "varbind_encode vb enc =
     and_then (write_oid (arcs (vb_name vb)) []) (\<lambda>inner.
     and_then (value_encode (vb_value vb) inner) (\<lambda>inner.
       Inr (write_tlv SEQUENCE inner enc)))"

definition varbind_decode :: "VarBind reader" where
  "varbind_decode d =
     and_then (read_sequence d) (\<lambda>(seq, d).
     and_then (read_oid seq) (\<lambda>(name, seq).
     and_then (value_decode seq) (\<lambda>(v, seq).
       Inr (\<lparr>vb_name = ObjectIdentifier name, vb_value = v\<rparr>, d))))"

section \<open>Protocol data units\<close>

type_synonym i32 = "32 word"

datatype PduKind =
    GetRequest | GetNextRequest | Response | SetRequest | GetBulkRequest | InformRequest | SnmpV2Trap | Report

definition pdu_tag :: "PduKind \<Rightarrow> Tag" where
  "pdu_tag k =
     (case k of
        GetRequest \<Rightarrow> GET_REQUEST | GetNextRequest \<Rightarrow> GET_NEXT_REQUEST | Response \<Rightarrow> RESPONSE
      | SetRequest \<Rightarrow> SET_REQUEST | GetBulkRequest \<Rightarrow> GET_BULK_REQUEST | InformRequest \<Rightarrow> INFORM_REQUEST
      | SnmpV2Trap \<Rightarrow> SNMPV2_TRAP | Report \<Rightarrow> REPORT)"

definition pdu_from_tag :: "Tag \<Rightarrow> (SnmpError, PduKind) result" where
  "pdu_from_tag t =
     (if t = GET_REQUEST then Inr GetRequest
      else if t = GET_NEXT_REQUEST then Inr GetNextRequest
      else if t = RESPONSE then Inr Response
      else if t = SET_REQUEST then Inr SetRequest
      else if t = GET_BULK_REQUEST then Inr GetBulkRequest
      else if t = INFORM_REQUEST then Inr InformRequest
      else if t = SNMPV2_TRAP then Inr SnmpV2Trap
      else if t = REPORT then Inr Report
      else Inl MessageError)"

datatype ErrorStatus =
    NoError | TooBig | NoSuchName | BadValue | ReadOnly | GenErr | NoAccess | WrongType | WrongLength
  | WrongEncoding | WrongValue | NoCreation | InconsistentValue | ResourceUnavailable | CommitFailed
  | UndoFailed | AuthorizationError | NotWritable | InconsistentName

fun error_status_code :: "ErrorStatus \<Rightarrow> i32" where
  "error_status_code NoError = 0"
| "error_status_code TooBig = 1"
| "error_status_code NoSuchName = 2"
| "error_status_code BadValue = 3"
| "error_status_code ReadOnly = 4"
| "error_status_code GenErr = 5"
| "error_status_code NoAccess = 6"
| "error_status_code WrongType = 7"
| "error_status_code WrongLength = 8"
| "error_status_code WrongEncoding = 9"
| "error_status_code WrongValue = 10"
| "error_status_code NoCreation = 11"
| "error_status_code InconsistentValue = 12"
| "error_status_code ResourceUnavailable = 13"
| "error_status_code CommitFailed = 14"
| "error_status_code UndoFailed = 15"
| "error_status_code AuthorizationError = 16"
| "error_status_code NotWritable = 17"
| "error_status_code InconsistentName = 18"

record Pdu =
  pdu_kind :: PduKind
  request_id :: i32
  error_status :: i32
  error_index :: i32
  variable_bindings :: "VarBind list"

text \<open>\<open>i64::from\<close> and \<open>i32::try_from\<close>.\<close>

definition i64_from_i32 :: "i32 \<Rightarrow> i64" where
  "i64_from_i32 v = scast v"

definition i32_try_from :: "i64 \<Rightarrow> (SnmpError, i32) result" where
  "i32_try_from v = (if - (2 ^ 31) \<le> sint v \<and> sint v < 2 ^ 31 then Inr (scast v) else Inl MessageError)"

fun encode_bindings :: "VarBind list \<Rightarrow> Encoder \<Rightarrow> (SnmpError, Encoder) result" where
  "encode_bindings [] enc = Inr enc"
| "encode_bindings (vb # vbs) enc = and_then (varbind_encode vb enc) (encode_bindings vbs)"

definition pdu_encode :: "Pdu \<Rightarrow> Encoder \<Rightarrow> (SnmpError, Encoder) result" where
  "pdu_encode p enc =
     (let body = write_i64 (i64_from_i32 (request_id p)) [];
          body = write_i64 (i64_from_i32 (error_status p)) body;
          body = write_i64 (i64_from_i32 (error_index p)) body
      in and_then (encode_bindings (variable_bindings p) []) (\<lambda>vbs.
           Inr (write_tlv (pdu_tag (pdu_kind p)) (write_tlv SEQUENCE vbs body) enc)))"

definition read_i32 :: "i32 reader" where
  "read_i32 d = and_then (read_i64 d) (\<lambda>(v, d). and_then (i32_try_from v) (\<lambda>v. Inr (v, d)))"

lemma advances_varbind: "advances varbind_decode"
  unfolding advances_def
proof (intro allI impI)
  fix d x d' assume "varbind_decode d = Inr (x, d')"
  then obtain seq where "read_sequence d = Inr (seq, d')"
    by (auto simp: varbind_decode_def and_then_Inr)
  then show "d_bytes d' = d_bytes d \<and> d_pos d < d_pos d' \<and> d_pos d' \<le> length (d_bytes d)"
    by (rule advancesD [OF advances_sequence])
qed

function decode_bindings :: "Decoder \<Rightarrow> (SnmpError, VarBind list) result" where
  "decode_bindings d =
     (if decoder_is_empty d then Inr []
      else case varbind_decode d of
        Inl e \<Rightarrow> Inl e
      | Inr (vb, d') \<Rightarrow> and_then (decode_bindings d') (\<lambda>vbs. Inr (vb # vbs)))"
  by pat_completeness auto
termination decode_bindings
proof (relation "measure remaining")
  fix d r vb d' assume "\<not> decoder_is_empty d" "varbind_decode d = Inr r" "(vb, d') = r"
  then show "(d', d) \<in> measure remaining"
    using advancesD [OF advances_varbind, of d vb d'] by (auto simp: remaining_def)
qed simp

declare decode_bindings.simps [simp del]

definition pdu_decode :: "Pdu reader" where
  "pdu_decode d =
     and_then (read_tlv d) (\<lambda>((tag, body), d).
     and_then (pdu_from_tag tag) (\<lambda>kind.
     and_then (read_i32 (decoder_new body)) (\<lambda>(rid, bd).
     and_then (read_i32 bd) (\<lambda>(es, bd).
     and_then (read_i32 bd) (\<lambda>(ei, bd).
     and_then (read_sequence bd) (\<lambda>(vbs, bd).
     and_then (decode_bindings vbs) (\<lambda>bindings.
       Inr (\<lparr>pdu_kind = kind, request_id = rid, error_status = es, error_index = ei,
             variable_bindings = bindings\<rparr>, d))))))))"

section \<open>Printing and parsing object identifiers\<close>

lemma split_join: "ss \<noteq> [] \<Longrightarrow> (\<And>s. s \<in> set ss \<Longrightarrow> CHR ''.'' \<notin> set s) \<Longrightarrow> split_on CHR ''.'' (join_dots ss) = ss"
proof (induction ss rule: join_dots.induct)
  case (3 s s' ss)
  then have "split_on CHR ''.'' (s @ CHR ''.'' # join_dots (s' # ss)) = s # split_on CHR ''.'' (join_dots (s' # ss))"
    by (intro split_on_sep) simp
  with 3 show ?case by simp
qed (auto simp: split_on_notin)

lemma parse_arcs_dec: "parse_arcs (map (\<lambda>a. dec (unat a)) as) = Inr as"
proof (induction as)
  case (Cons a as)
  have "unat a \<le> u32_max" using unsigned_less [of a, where 'a = nat] by (simp add: u32_max_def)
  then show ?case using Cons by (simp add: parse_uint_dec)
qed simp

lemma display_no_dot_start: "dropWhile (\<lambda>c. c = CHR ''.'') (join_dots (map (\<lambda>a. dec (unat a)) as))
    = join_dots (map (\<lambda>a. dec (unat a)) as)"
proof (cases as)
  case (Cons a as')
  obtain c cs where c: "dec (unat a) = c # cs" using dec_nonempty by (cases "dec (unat a)") auto
  moreover have "c \<noteq> CHR ''.''" using sep_notin_dec(2) [of "unat a"] c by auto
  ultimately show ?thesis using Cons by (cases as') simp_all
qed simp

lemma oid_from_display: "2 \<le> length (arcs o1) \<Longrightarrow> oid_from_str (display_oid o1) = Inr o1"
proof -
  assume l: "2 \<le> length (arcs o1)"
  then have "split_on CHR ''.'' (join_dots (map (\<lambda>a. dec (unat a)) (arcs o1))) = map (\<lambda>a. dec (unat a)) (arcs o1)"
    by (intro split_join) auto
  then show ?thesis using l by (simp add: oid_from_str_def display_oid_def display_no_dot_start parse_arcs_dec)
qed

section \<open>Reading back values, bindings and units\<close>

lemma value_decode_uint_eq: "value_decode_uint = decode_uint"
  by (rule ext) (simp add: value_decode_uint_def decode_uint_def)

lemma decode_i64_encode_int [simp]: "decode_i64 (encode_int v) = Inr v"
  using encode_int_length [of v] encode_int_acc [of v] by (simp add: decode_i64_def)

lemma decode_u32_app_encode [simp]: "decode_u32_app (encode_uint (ucast v)) = Inr v"
proof -
  have "\<not> (0xFFFFFFFF :: 64 word) < ucast v"
    using unsigned_less [of v, where 'a = nat] by (simp add: word_less_nat_alt unsigned_ucast_eq take_bit_nat_eq_self)
  then show ?thesis by (simp add: decode_u32_app_def value_decode_uint_eq)
qed

fun value_tlv :: "Value \<Rightarrow> (SnmpError, Tag \<times> bytes) result" where
  "value_tlv (V_Integer n) = Inr (INTEGER, encode_int n)"
| "value_tlv (V_OctetString bs) = Inr (OCTET_STRING, bs)"
| "value_tlv V_Null = Inr (NULL_TAG, [])"
| "value_tlv (V_Oid o1) = and_then (encode_oid (arcs o1)) (\<lambda>bs. Inr (OID_TAG, bs))"
| "value_tlv (V_Counter32 n) = Inr (COUNTER32, encode_uint (ucast n))"
| "value_tlv (V_Gauge32 n) = Inr (GAUGE32, encode_uint (ucast n))"
| "value_tlv (V_TimeTicks n) = Inr (TIMETICKS, encode_uint (ucast n))"
| "value_tlv (V_Opaque bs) = Inr (OPAQUE, bs)"
| "value_tlv (V_Counter64 n) = Inr (COUNTER64, encode_uint n)"
| "value_tlv (V_IpAddress a b c d) = Inr (IP_ADDRESS, [a, b, c, d])"
| "value_tlv V_NoSuchObject = Inr (NO_SUCH_OBJECT, [])"
| "value_tlv V_NoSuchInstance = Inr (NO_SUCH_INSTANCE, [])"
| "value_tlv V_EndOfMibView = Inr (END_OF_MIB, [])"

lemma value_encode_tlv: "value_encode v buf = and_then (value_tlv v) (\<lambda>tb. Inr (buf @ tlv (fst tb) (snd tb)))"
proof (cases v)
  case (V_Oid o1)
  then show ?thesis by (cases "encode_oid (arcs o1)") (simp_all add: value_encode_def write_oid_def write_tlv_append)
qed (simp_all add: value_encode_def write_i64_append int_tlv_def write_octet_string_def write_tlv_append
    write_null_def write_app_u32_def write_app_octet_string_def write_counter64_def)

lemma value_of_value_tlv: "value_tlv v = Inr tb \<Longrightarrow> value_of_tlv tb = Inr v"
proof (cases v)
  case (V_Oid o1)
  assume "value_tlv v = Inr tb"
  then obtain bs where "encode_oid (arcs o1) = Inr bs" "tb = (OID_TAG, bs)"
    using V_Oid by (auto simp: and_then_Inr)
  then show ?thesis using V_Oid decode_encode_oid by (simp add: value_of_tlv_def)
qed (auto simp: value_of_tlv_def value_decode_uint_eq)

lemma reads_value: "value_of_tlv (t, body) = Inr v \<Longrightarrow> reads value_decode (tlv t body) v"
  unfolding value_decode_def [abs_def] by (rule reads_map [OF reads_tlv])

interpretation value_codec: codec value_encode value_decode
proof
  fix x buf buf' assume "value_encode x buf = Inr buf'"
  then obtain t body where "value_tlv x = Inr (t, body)" "buf' = buf @ tlv t body"
    by (auto simp: value_encode_tlv and_then_Inr)
  then show "\<exists>e. buf' = buf @ e \<and> reads value_decode e x \<and> (\<forall>b. value_encode x b = Inr (b @ e))"
    using reads_value [OF value_of_value_tlv] by (auto simp: value_encode_tlv)
next
  show "advances value_decode" unfolding value_decode_def [abs_def] by (rule advances_map [OF advances_tlv])
qed

lemma tlv_longer: "length body < length (tlv t body)"
  by (simp add: tlv_def)

lemma body_fits: "length (p @ tlv t body @ r) < 2 ^ 64 \<Longrightarrow> length body < 2 ^ 64"
  using tlv_longer [of body t] by simp

interpretation varbind_codec: codec varbind_encode varbind_decode
proof
  fix vb buf buf' assume "varbind_encode vb buf = Inr buf'"
  then obtain i1 i2 where i: "write_oid (arcs (vb_name vb)) [] = Inr i1" "value_encode (vb_value vb) i1 = Inr i2"
    "buf' = buf @ tlv SEQUENCE i2"
    by (auto simp: varbind_encode_def and_then_Inr write_tlv_append)
  have o: "reads read_oid i1 (arcs (vb_name vb))" using oid_codec.writes [OF i(1)] by auto
  obtain e where e: "i2 = i1 @ e" "reads value_decode e (vb_value vb)" using value_codec.writes [OF i(2)] by auto
  have "reads varbind_decode (tlv SEQUENCE i2) vb"
  proof (rule reads_atI)
    fix p r assume l: "length (p @ tlv SEQUENCE i2 @ r) < 2 ^ 64"
    note l' = body_fits [OF l]
    show "varbind_decode (pos_at p (tlv SEQUENCE i2 @ r)) = Inr (vb, pos_at (p @ tlv SEQUENCE i2) r)"
      using l' unfolding varbind_decode_def reads_at [OF reads_sequence l]
      by (simp add: decoder_new_at e(1) reads_at [OF o] reads_at_end [OF e(2)])
  qed
  then show "\<exists>e. buf' = buf @ e \<and> reads varbind_decode e vb \<and> (\<forall>b. varbind_encode vb b = Inr (b @ e))"
    using i by (auto simp: varbind_encode_def write_tlv_append)
qed (rule advances_varbind)

lemma encode_bindings_code:
  "encode_bindings vbs buf = Inr buf' \<Longrightarrow> buf' = buf @ concat (map varbind_codec.code vbs)
     \<and> (\<forall>vb \<in> set vbs. reads varbind_decode (varbind_codec.code vb) vb)"
proof (induction vbs arbitrary: buf)
  case (Cons vb vbs)
  then obtain b1 where b1: "varbind_encode vb buf = Inr b1" "encode_bindings vbs b1 = Inr buf'"
    by (auto simp: and_then_Inr)
  then show ?case using Cons.IH [OF b1(2)] varbind_codec.write_code [OF b1(1), of buf] by auto
qed simp

lemma decode_bindings_back:
  "\<forall>vb \<in> set vbs. reads varbind_decode (varbind_codec.code vb) vb \<Longrightarrow>
   length (p @ concat (map varbind_codec.code vbs)) < 2 ^ 64 \<Longrightarrow>
     decode_bindings (pos_at p (concat (map varbind_codec.code vbs))) = Inr vbs"
proof (induction vbs arbitrary: p)
  case Nil
  then show ?case by (simp add: decode_bindings.simps)
next
  case (Cons vb vbs)
  let ?c = "varbind_codec.code vb" and ?r = "concat (map varbind_codec.code vbs)"
  have c: "reads varbind_decode ?c vb" using Cons.prems(1) by simp
  have r: "varbind_decode (pos_at p (?c @ ?r)) = Inr (vb, pos_at (p @ ?c) ?r)"
    using Cons.prems(2) by (intro reads_at [OF c]) simp
  then have "?c \<noteq> []" using advancesD [OF advances_varbind r] by (auto simp: pos_at_def)
  moreover have "decode_bindings (pos_at (p @ ?c) ?r) = Inr vbs" using Cons by simp
  ultimately show ?case using r by (simp add: decode_bindings.simps [of "pos_at p (?c @ ?r)"])
qed

lemma sint_scast_i32: "sint (scast (v :: i32) :: i64) = sint v"
proof -
  have "- (2 ^ 63) \<le> sint v" "sint v < 2 ^ 63"
    using sint_ge [of v] sint_lt [of v] by auto
  then show ?thesis by (simp add: signed_scast_eq signed_take_bit_int_eq_self_iff)
qed

lemma i32_try_from_back [simp]: "i32_try_from (i64_from_i32 v) = Inr v"
proof -
  have "(scast (scast v :: i64) :: i32) = v" by (rule bit_word_eqI) (auto simp: bit_simps)
  then show ?thesis using sint_ge [of v] sint_lt [of v]
    by (simp add: i32_try_from_def i64_from_i32_def sint_scast_i32)
qed

lemma reads_i32: "reads read_i32 (int_tlv (i64_from_i32 v)) v"
  unfolding read_i32_def [abs_def] by (rule reads_map [OF reads_i64]) simp

lemma pdu_from_tag_back [simp]: "pdu_from_tag (pdu_tag k) = Inr k"
  by (cases k) (simp_all add: pdu_tag_def pdu_from_tag_def)

interpretation pdu_codec: codec pdu_encode pdu_decode
proof
  fix x buf buf' assume "pdu_encode x buf = Inr buf'"
  then obtain vbs where v: "encode_bindings (variable_bindings x) [] = Inr vbs" by (auto simp: pdu_encode_def and_then_Inr)
  let ?vbs = "concat (map varbind_codec.code (variable_bindings x))"
  let ?ints = "int_tlv (i64_from_i32 (request_id x)) @ int_tlv (i64_from_i32 (error_status x))
      @ int_tlv (i64_from_i32 (error_index x))"
  let ?body = "?ints @ tlv SEQUENCE ?vbs" and ?t = "pdu_tag (pdu_kind x)"
  note vb = encode_bindings_code [OF v]
  have enc: "pdu_encode x b = Inr (b @ tlv ?t ?body)" for b
    using v vb by (simp add: pdu_encode_def write_i64_append write_tlv_append)
  have "reads pdu_decode (tlv ?t ?body) x"
  proof (rule reads_atI)
    fix p r assume l: "length (p @ tlv ?t ?body @ r) < 2 ^ 64"
    note l' = body_fits [OF l]
    then have lv: "length ?vbs < 2 ^ 64" by (rule_tac body_fits [of ?ints SEQUENCE ?vbs "[]"]) simp
    have "decode_bindings (pos_at [] ?vbs) = Inr (variable_bindings x)"
      using decode_bindings_back [of "variable_bindings x" "[]"] vb lv by simp
    then show "pdu_decode (pos_at p (tlv ?t ?body @ r)) = Inr (x, pos_at (p @ tlv ?t ?body) r)"
      using l' unfolding pdu_decode_def reads_at [OF reads_tlv l]
      by (simp add: decoder_new_at reads_at [OF reads_i32] reads_at_end [OF reads_sequence])
  qed
  then show "\<exists>e. buf' = buf @ e \<and> reads pdu_decode e x \<and> (\<forall>b. pdu_encode x b = Inr (b @ e))"
    using enc \<open>pdu_encode x buf = Inr buf'\<close> by auto
next
  show "advances pdu_decode"
    using advances_tlv unfolding advances_def pdu_decode_def by (fastforce simp: and_then_Inr)
qed

end
