(* ===== verification/Snmp_Message.thy ===== *)
theory Snmp_Message
  imports Snmp_Pdu
begin

text \<open>
  The SNMPv3 message envelope, \<open>crates/spt-snmp/src/message.rs\<close>: header, security parameters, scoped
  data unit, and the serialisation of the whole message.
\<close>

section \<open>Model\<close>

definition SNMP_VERSION_3 :: i32 where
  "SNMP_VERSION_3 = 3"

definition SECURITY_MODEL_USM :: i32 where
  "SECURITY_MODEL_USM = 3"

definition FLAG_AUTH :: byte where
  "FLAG_AUTH = 0b001"

definition FLAG_PRIV :: byte where
  "FLAG_PRIV = 0b010"

definition FLAG_REPORTABLE :: byte where
  "FLAG_REPORTABLE = 0b100"

record GlobalData =
  msg_id :: i32
  msg_max_size :: i32
  msg_flags :: byte
  msg_security_model :: i32

definition auth_bit :: "GlobalData \<Rightarrow> bool" where
  "auth_bit g \<longleftrightarrow> msg_flags g AND FLAG_AUTH \<noteq> 0"

definition priv_bit :: "GlobalData \<Rightarrow> bool" where
  "priv_bit g \<longleftrightarrow> msg_flags g AND FLAG_PRIV \<noteq> 0"

definition reportable_bit :: "GlobalData \<Rightarrow> bool" where
  "reportable_bit g \<longleftrightarrow> msg_flags g AND FLAG_REPORTABLE \<noteq> 0"

record SecurityParameters =
  engine_id :: bytes
  engine_boots :: "32 word"
  engine_time :: "32 word"
  user_name :: bytes
  auth_params :: bytes
  priv_params :: bytes

definition encode_inner :: "SecurityParameters \<Rightarrow> Encoder \<Rightarrow> Encoder" where
  "encode_inner sp = write_sequence (\<lambda>inner.
     let inner = write_octet_string (engine_id sp) inner;
         inner = write_u32 (engine_boots sp) inner;
         inner = write_u32 (engine_time sp) inner;
         inner = write_octet_string (user_name sp) inner;
         inner = write_octet_string (auth_params sp) inner
     in write_octet_string (priv_params sp) inner)"

definition to_inner_bytes :: "SecurityParameters \<Rightarrow> bytes" where
  "to_inner_bytes sp = encode_inner sp []"

definition decode_inner :: "bytes \<Rightarrow> (SnmpError, SecurityParameters) result" where
  "decode_inner bs =
     and_then (read_sequence (decoder_new bs)) (\<lambda>(s, d).
     and_then (read_octet_string s) (\<lambda>(eid, s).
     and_then (read_u32 s) (\<lambda>(boots, s).
     and_then (read_u32 s) (\<lambda>(time, s).
     and_then (read_octet_string s) (\<lambda>(user, s).
     and_then (read_octet_string s) (\<lambda>(auth, s).
     and_then (read_octet_string s) (\<lambda>(prv, s).
       Inr \<lparr>engine_id = eid, engine_boots = boots, engine_time = time, user_name = user,
            auth_params = auth, priv_params = prv\<rparr>)))))))"

record ScopedPdu =
  context_engine_id :: bytes
  context_name :: bytes
  scoped_pdu :: Pdu

definition scoped_to_bytes :: "ScopedPdu \<Rightarrow> (SnmpError, bytes) result" where
  "scoped_to_bytes s =
     (let inner = write_octet_string (context_engine_id s) [];
          inner = write_octet_string (context_name s) inner
      in and_then (pdu_encode (scoped_pdu s) inner) (\<lambda>inner. Inr (write_tlv SEQUENCE inner [])))"

definition scoped_from_bytes :: "bytes \<Rightarrow> (SnmpError, ScopedPdu) result" where
  "scoped_from_bytes bs =
     and_then (read_sequence (decoder_new bs)) (\<lambda>(s, d).
     and_then (read_octet_string s) (\<lambda>(ceid, s).
     and_then (read_octet_string s) (\<lambda>(cname, s).
     and_then (pdu_decode s) (\<lambda>(pdu, s).
       Inr \<lparr>context_engine_id = ceid, context_name = cname, scoped_pdu = pdu\<rparr>))))"

datatype MessageData = Plain bytes | Encrypted bytes

record Message =
  msg_global :: GlobalData
  msg_security :: SecurityParameters
  msg_data :: MessageData

definition message_to_bytes :: "Message \<Rightarrow> bytes" where
  "message_to_bytes m = write_sequence (\<lambda>e.
     let e = write_i64 (i64_from_i32 SNMP_VERSION_3) e;
         e = write_sequence (\<lambda>g.
               let g = write_i64 (i64_from_i32 (msg_id (msg_global m))) g;
                   g = write_i64 (i64_from_i32 (msg_max_size (msg_global m))) g;
                   g = write_octet_string [msg_flags (msg_global m)] g
               in write_i64 (i64_from_i32 (msg_security_model (msg_global m))) g) e;
         e = write_octet_string (to_inner_bytes (msg_security m)) e
     in case msg_data m of
          Plain b \<Rightarrow> write_raw b e
        | Encrypted b \<Rightarrow> write_octet_string b e) []"

definition message_from_bytes :: "bytes \<Rightarrow> (SnmpError, Message) result" where
  "message_from_bytes bs =
     and_then (read_sequence (decoder_new bs)) (\<lambda>(outer, d).
     and_then (read_i32 outer) (\<lambda>(version, outer).
     if version \<noteq> SNMP_VERSION_3 then Inl MessageError else
     and_then (read_sequence outer) (\<lambda>(g, outer).
     and_then (read_i32 g) (\<lambda>(mid, g).
     and_then (read_i32 g) (\<lambda>(mmax, g).
     and_then (read_octet_string g) (\<lambda>(flags, g).
     if length flags \<noteq> 1 then Inl MessageError else
     and_then (read_i32 g) (\<lambda>(model, g).
     and_then (read_octet_string outer) (\<lambda>(sec_outer, outer).
     and_then (decode_inner sec_outer) (\<lambda>security.
     and_then (read_tlv outer) (\<lambda>((tag, body), outer).
     and_then (if hd flags AND FLAG_PRIV \<noteq> 0
               then (if tag \<noteq> OCTET_STRING then Inl MessageError else Inr (Encrypted body))
               else (if tag \<noteq> SEQUENCE then Inl MessageError else Inr (Plain (write_tlv SEQUENCE body []))))
       (\<lambda>data.
       Inr \<lparr>msg_global = \<lparr>msg_id = mid, msg_max_size = mmax, msg_flags = hd flags, msg_security_model = model\<rparr>,
            msg_security = security, msg_data = data\<rparr>)))))))))))"

section \<open>Reading back\<close>

text \<open>The payload matches the privacy flag, and a plain payload is one sequence.\<close>

definition payload_ok :: "Message \<Rightarrow> bool" where
  "payload_ok m = (case msg_data m of
       Plain b \<Rightarrow> \<not> priv_bit (msg_global m) \<and> (\<exists>body. b = tlv SEQUENCE body)
     | Encrypted _ \<Rightarrow> priv_bit (msg_global m))"

abbreviation (input) octets :: "bytes \<Rightarrow> bytes" where
  "octets v \<equiv> tlv OCTET_STRING v"

definition inner_body :: "SecurityParameters \<Rightarrow> bytes" where
  "inner_body sp = octets (engine_id sp) @ int_tlv (ucast (engine_boots sp)) @ int_tlv (ucast (engine_time sp))
     @ octets (user_name sp) @ octets (auth_params sp) @ octets (priv_params sp)"

lemma to_inner_bytes_eq: "to_inner_bytes sp = tlv SEQUENCE (inner_body sp)"
  by (simp add: to_inner_bytes_def encode_inner_def write_sequence_def write_octet_string_def write_tlv_append
      write_u32_def write_i64_append inner_body_def)

lemma decode_inner_back:
  assumes "length (to_inner_bytes sp) < 2 ^ 64"
  shows "decode_inner (to_inner_bytes sp) = Inr sp"
proof -
  have l: "length (inner_body sp) < 2 ^ 64"
    using assms body_fits [of "[]" SEQUENCE "inner_body sp" "[]"] by (simp add: to_inner_bytes_eq)
  show ?thesis using assms l
    unfolding decode_inner_def to_inner_bytes_eq
    by (simp add: decoder_new_at reads_at_end [OF reads_sequence])
      (simp add: inner_body_def reads_at [OF reads_octet_string] reads_at_end [OF reads_octet_string]
        reads_at [OF reads_u32])
qed

lemma scoped_to_bytes_eq:
  assumes "scoped_to_bytes s = Inr bs"
  shows "bs = tlv SEQUENCE (octets (context_engine_id s) @ octets (context_name s) @ pdu_codec.code (scoped_pdu s))
    \<and> reads pdu_decode (pdu_codec.code (scoped_pdu s)) (scoped_pdu s)"
proof -
  let ?i = "octets (context_engine_id s) @ octets (context_name s)"
  obtain inner where i: "pdu_encode (scoped_pdu s) ?i = Inr inner" "bs = tlv SEQUENCE inner"
    using assms by (auto simp: scoped_to_bytes_def write_octet_string_def write_tlv_append and_then_Inr)
  then show ?thesis using pdu_codec.write_code [OF i(1), of ?i] by auto
qed

text \<open>A scoped data unit is read back.\<close>

lemma scoped_from_to_bytes:
  assumes "scoped_to_bytes s = Inr bs" "length bs < 2 ^ 64"
  shows "scoped_from_bytes bs = Inr s"
proof -
  note eq = scoped_to_bytes_eq [OF assms(1)]
  let ?body = "octets (context_engine_id s) @ octets (context_name s) @ pdu_codec.code (scoped_pdu s)"
  have l: "length ?body < 2 ^ 64" using assms(2) eq body_fits [of "[]" SEQUENCE ?body "[]"] by simp
  show ?thesis using assms(2) l eq
    by (simp add: scoped_from_bytes_def decoder_new_at reads_at_end [OF reads_sequence]
        reads_at [OF reads_octet_string] reads_at_end [OF eq [THEN conjunct2]])
qed

definition global_body :: "GlobalData \<Rightarrow> bytes" where
  "global_body g = int_tlv (i64_from_i32 (msg_id g)) @ int_tlv (i64_from_i32 (msg_max_size g))
     @ octets [msg_flags g] @ int_tlv (i64_from_i32 (msg_security_model g))"

definition payload :: "MessageData \<Rightarrow> bytes" where
  "payload d = (case d of Plain b \<Rightarrow> b | Encrypted b \<Rightarrow> octets b)"

definition message_body :: "Message \<Rightarrow> bytes" where
  "message_body m = int_tlv (i64_from_i32 SNMP_VERSION_3) @ tlv SEQUENCE (global_body (msg_global m))
     @ octets (to_inner_bytes (msg_security m)) @ payload (msg_data m)"

lemma message_to_bytes_eq: "message_to_bytes m = tlv SEQUENCE (message_body m)"
  by (simp add: message_to_bytes_def write_sequence_def write_octet_string_def write_tlv_append write_i64_append
      write_raw_def message_body_def global_body_def payload_def split: MessageData.split)

lemma message_from_to_bytes:
  assumes "payload_ok m" "length (message_to_bytes m) < 2 ^ 64"
  shows "message_from_bytes (message_to_bytes m) = Inr m"
proof -
  have l: "length (message_body m) < 2 ^ 64"
    using assms(2) body_fits [of "[]" SEQUENCE "message_body m" "[]"] by (simp add: message_to_bytes_eq)
  have lg: "length (global_body (msg_global m)) < 2 ^ 64" and ls: "length (to_inner_bytes (msg_security m)) < 2 ^ 64"
    using l tlv_longer [of "global_body (msg_global m)" SEQUENCE] tlv_longer [of "to_inner_bytes (msg_security m)" OCTET_STRING]
    by (simp_all add: message_body_def)
  obtain t body where p: "payload (msg_data m) = tlv t body"
      "(if priv_bit (msg_global m) then (if t \<noteq> OCTET_STRING then Inl MessageError else Inr (Encrypted body))
        else (if t \<noteq> SEQUENCE then Inl MessageError else Inr (Plain (write_tlv SEQUENCE body [])))) = Inr (msg_data m)"
    using assms(1) by (auto simp: payload_ok_def payload_def write_tlv_append split: MessageData.splits)
  show ?thesis
    using assms(2) l lg ls p(2)
    unfolding message_from_bytes_def message_to_bytes_eq
    by (simp add: decoder_new_at reads_at_end [OF reads_sequence])
      (simp add: message_body_def global_body_def p(1) reads_at [OF reads_i32] reads_at_end [OF reads_i32]
        reads_at [OF reads_sequence] reads_at [OF reads_octet_string] decoder_new_at decode_inner_back
        reads_at_end [OF reads_tlv] priv_bit_def)
qed

lemma message_from_bytes_ok: "message_from_bytes bs = Inr m \<Longrightarrow> payload_ok m"
  by (auto simp: message_from_bytes_def and_then_Inr payload_ok_def priv_bit_def write_tlv_append split: if_splits)

section \<open>Whatever is accepted can be sent again\<close>

lemma value_of_tlv_encodes: "value_of_tlv tb = Inr v \<Longrightarrow> \<exists>tb'. value_tlv v = Inr tb'"
  by (cases v) (auto simp: value_of_tlv_def and_then_Inr case_prod_beta dest: decoded_oid_encodes split: if_splits list.splits)

lemma varbind_encodes:
  assumes "varbind_decode d = Inr (vb, d')"
  shows "\<exists>e. \<forall>b. varbind_encode vb b = Inr (b @ e)"
proof -
  obtain n body bs tb where n: "vb_name vb = ObjectIdentifier n" "decode_oid body = Inr n"
    and v: "value_of_tlv tb = Inr (vb_value vb)"
    using assms by (auto simp: varbind_decode_def and_then_Inr read_oid_def value_decode_def)
  obtain bs where "encode_oid n = Inr bs" using decoded_oid_encodes [OF n(2)] by auto
  moreover obtain t b where "value_tlv (vb_value vb) = Inr (t, b)" using value_of_tlv_encodes [OF v] by auto
  ultimately have "varbind_encode vb buf = Inr (buf @ tlv SEQUENCE (tlv OID_TAG bs @ tlv t b))" for buf
    using n(1) by (simp add: varbind_encode_def write_oid_def write_tlv_append value_encode_tlv)
  then show ?thesis by blast
qed

lemma bindings_encode: "decode_bindings d = Inr vbs \<Longrightarrow> \<exists>e. \<forall>b. encode_bindings vbs b = Inr (b @ e)"
proof (induction d arbitrary: vbs rule: decode_bindings.induct)
  case (1 d)
  show ?case
  proof (cases "decoder_is_empty d")
    case True
    then show ?thesis using 1(2) by (auto simp: decode_bindings.simps)
  next
    case False
    then obtain vb d' rest where r: "varbind_decode d = Inr (vb, d')" "decode_bindings d' = Inr rest" "vbs = vb # rest"
      using 1(2) by (auto simp: decode_bindings.simps [of d] and_then_Inr split: sum.splits)
    obtain e where "\<forall>b. varbind_encode vb b = Inr (b @ e)" using varbind_encodes [OF r(1)] by auto
    moreover obtain e' where "\<forall>b. encode_bindings rest b = Inr (b @ e')" using 1(1) [OF False r(1) _ r(2)] by auto
    ultimately have "encode_bindings vbs b = Inr (b @ e @ e')" for b using r(3) by simp
    then show ?thesis by blast
  qed
qed

lemma pdu_bindings: "pdu_decode d = Inr (p, d') \<Longrightarrow> \<exists>vd. decode_bindings vd = Inr (variable_bindings p)"
  by (auto simp: pdu_decode_def and_then_Inr)

lemma scoped_encodes: "scoped_from_bytes bs = Inr s \<Longrightarrow> \<exists>bs'. scoped_to_bytes s = Inr bs'"
proof -
  assume "scoped_from_bytes bs = Inr s"
  then obtain d d' where "pdu_decode d = Inr (scoped_pdu s, d')" by (auto simp: scoped_from_bytes_def and_then_Inr)
  then obtain vd where "decode_bindings vd = Inr (variable_bindings (scoped_pdu s))"
    using pdu_bindings by blast
  from bindings_encode [OF this] show ?thesis
    by (auto simp: scoped_to_bytes_def pdu_encode_def)
qed

text \<open>No input makes a decoder panic.\<close>

definition no_panic :: "'a reader \<Rightarrow> bool" where
  "no_panic f \<longleftrightarrow> (\<forall>d. f d \<noteq> Inl Panic)"

lemma and_then_Inl: "and_then r f = Inl e \<longleftrightarrow> r = Inl e \<or> (\<exists>x. r = Inr x \<and> f x = Inl e)"
  by (cases r) auto

lemma no_panic_primitives:
  "decode_int bs \<noteq> Inl Panic" "decode_uint bs \<noteq> Inl Panic" "decode_i64 bs \<noteq> Inl Panic"
  "value_decode_uint bs \<noteq> Inl Panic" "decode_u32_app bs \<noteq> Inl Panic"
  "i32_try_from v \<noteq> Inl Panic" "pdu_from_tag t \<noteq> Inl Panic"
  by (auto simp: decode_int_def decode_uint_def decode_i64_def value_decode_uint_def decode_u32_app_def
      i32_try_from_def pdu_from_tag_def and_then_Inl Let_def)

lemma arc_loop_no_panic: "arc_loop acc bs \<noteq> Inl Panic"
  by (induction bs arbitrary: acc) (auto simp: Let_def)

lemma decode_arcs_no_panic: "decode_arcs bs \<noteq> Inl Panic"
proof (induction bs rule: decode_arcs.induct)
  case (1 bs)
  then show ?case
    using arc_loop_no_panic [of 0 bs]
    by (subst decode_arcs.simps) (auto simp: and_then_Inl decode_arc_def split: sum.splits)
qed

lemma decode_oid_no_panic: "decode_oid bs \<noteq> Inl Panic"
  using arc_loop_no_panic decode_arcs_no_panic
  by (auto simp: decode_oid_def and_then_Inl decode_arc_def case_prod_beta)

lemma read_length_bytes_no_panic: "read_length_bytes n acc d \<noteq> Inl Panic"
  by (induction n arbitrary: acc d) (auto simp: and_then_Inl read_byte_def)

lemma tlv_no_panic: "read_tlv d \<noteq> Inl Panic"
  using read_length_bytes_no_panic
  by (auto simp: read_tlv_def read_length_def read_byte_def and_then_Inl Let_def split: if_splits)

lemma readers_no_panic:
  "read_expected t d \<noteq> Inl Panic" "read_sequence d \<noteq> Inl Panic" "read_octet_string d \<noteq> Inl Panic"
  "read_i64 d \<noteq> Inl Panic" "read_u32 d \<noteq> Inl Panic" "read_i32 d \<noteq> Inl Panic" "read_oid d \<noteq> Inl Panic"
  using tlv_no_panic no_panic_primitives decode_oid_no_panic
  by (auto simp: read_expected_def read_sequence_def read_octet_string_def read_i64_def read_u32_def read_i32_def
      read_oid_def and_then_Inl split: if_splits)

lemma value_no_panic: "value_decode d \<noteq> Inl Panic"
  using tlv_no_panic no_panic_primitives decode_oid_no_panic
  by (auto simp: value_decode_def value_of_tlv_def and_then_Inl case_prod_beta split: if_splits list.splits)

lemma varbind_no_panic: "varbind_decode d \<noteq> Inl Panic"
  using readers_no_panic value_no_panic by (auto simp: varbind_decode_def and_then_Inl)

lemma bindings_no_panic: "decode_bindings d \<noteq> Inl Panic"
proof (induction d rule: decode_bindings.induct)
  case (1 d)
  then show ?case using varbind_no_panic [of d]
    by (subst decode_bindings.simps) (auto simp: and_then_Inl split: sum.splits)
qed

lemma pdu_no_panic: "pdu_decode d \<noteq> Inl Panic"
  using readers_no_panic tlv_no_panic bindings_no_panic no_panic_primitives
  by (auto simp: pdu_decode_def and_then_Inl)

lemma scoped_no_panic: "scoped_from_bytes bs \<noteq> Inl Panic"
  using readers_no_panic pdu_no_panic by (auto simp: scoped_from_bytes_def and_then_Inl)

lemma message_no_panic: "message_from_bytes bs \<noteq> Inl Panic"
  using readers_no_panic tlv_no_panic
  by (auto simp: message_from_bytes_def decode_inner_def and_then_Inl split: if_splits)

text \<open>Two places where a value is accepted although it does not fit.\<close>

lemma nine_byte_integer_wraps: "decode_int [0, 0xFF, 0xFF, 0xFF, 0xFF, 0xFF, 0xFF, 0xFF, 0xFF] = Inr (- 1)"
  by code_simp

lemma long_integer_value_wraps: "decode_i64 [1, 0, 0, 0, 0, 0, 0, 0, 0] = Inr 0"
  by code_simp

section \<open>Properties\<close>

text \<open>C8: A message read from its own serialisation is the message: the header, the security parameters, an
  encrypted payload, and a plain payload with the scoped data unit, all variable bindings and values included.\<close>

theorem wire_roundtrip:
  assumes "length (message_to_bytes m) < 2 ^ 64"
    and "case msg_data m of Plain b \<Rightarrow> \<not> priv_bit (msg_global m) \<and> scoped_to_bytes s = Inr b
         | Encrypted b \<Rightarrow> priv_bit (msg_global m)"
  shows "message_from_bytes (message_to_bytes m) = Inr m
    \<and> (case msg_data m of Plain b \<Rightarrow> scoped_from_bytes b = Inr s | Encrypted b \<Rightarrow> True)"
proof
  have "payload_ok m"
    using assms(2) scoped_to_bytes_eq [of s] by (auto simp: payload_ok_def split: MessageData.splits)
  then show "message_from_bytes (message_to_bytes m) = Inr m" by (rule message_from_to_bytes [OF _ assms(1)])
  show "case msg_data m of Plain b \<Rightarrow> scoped_from_bytes b = Inr s | Encrypted b \<Rightarrow> True"
  proof (cases "msg_data m")
    case (Plain b)
    then have "length b < 2 ^ 64"
      using assms(1) tlv_longer [of "message_body m" SEQUENCE]
      by (simp add: message_to_bytes_eq message_body_def payload_def)
    then show ?thesis using Plain assms(2) scoped_from_to_bytes by simp
  qed simp
qed

definition demo_scoped :: ScopedPdu where
  "demo_scoped = \<lparr>context_engine_id = [1], context_name = [],
     scoped_pdu = \<lparr>pdu_kind = GetRequest, request_id = 7, error_status = 0, error_index = 0,
       variable_bindings = [\<lparr>vb_name = ObjectIdentifier [1, 3, 6], vb_value = V_Null\<rparr>]\<rparr>\<rparr>"

definition demo_bytes :: bytes where
  "demo_bytes = [48, 26, 4, 1, 1, 4, 0, 160, 19, 2, 1, 7, 2, 1, 0, 2, 1, 0, 48, 8, 48, 6, 6, 2, 43, 6, 5, 0]"

lemma small_int_bytes: "encode_int 0 = [0]" "encode_int 7 = [7]" "encode_int 3 = [3]"
  by code_simp+

lemma demo_to_bytes: "scoped_to_bytes demo_scoped = Inr demo_bytes"
  by (simp add: scoped_to_bytes_def demo_scoped_def write_octet_string_def write_tlv_append tlv_def length_bytes_def
      write_length_def pdu_encode_def i64_from_i32_def write_i64_def small_int_bytes varbind_encode_def write_oid_def
      encode_oid_def encode_arc_def value_encode_def write_null_def pdu_tag_def demo_bytes_def)

lemma length_tlv_small: "length v < 128 \<Longrightarrow> length (tlv t v) = length v + 2"
  by (simp add: tlv_def length_bytes_def write_length_def)

definition demo_message :: Message where
  "demo_message = \<lparr>msg_global = \<lparr>msg_id = 7, msg_max_size = 0, msg_flags = 0, msg_security_model = 3\<rparr>,
     msg_security = \<lparr>engine_id = [1], engine_boots = 7, engine_time = 0, user_name = [97], auth_params = [], priv_params = []\<rparr>,
     msg_data = Plain demo_bytes\<rparr>"

lemma demo_message_length: "length (message_to_bytes demo_message) < 2 ^ 64"
  by (simp add: message_to_bytes_eq message_body_def global_body_def payload_def demo_message_def to_inner_bytes_eq
      inner_body_def int_tlv_def i64_from_i32_def SNMP_VERSION_3_def small_int_bytes demo_bytes_def length_tlv_small)

theorem wire_roundtrip_witness:
  "message_from_bytes (message_to_bytes demo_message) = Inr demo_message \<and> scoped_from_bytes demo_bytes = Inr demo_scoped"
  using wire_roundtrip [OF demo_message_length, of demo_scoped] demo_to_bytes
  by (simp add: demo_message_def priv_bit_def)

text \<open>
  No datagram makes the decoder panic, whatever its bytes; and everything it accepts can be encoded again,
  so answering with the received object identifiers cannot overflow either.\<close>

theorem hostile_bytes_handled:
  "message_from_bytes bs \<noteq> Inl Panic \<and> scoped_from_bytes bs \<noteq> Inl Panic
   \<and> (\<forall>s. scoped_from_bytes bs = Inr s \<longrightarrow> (\<exists>bs'. scoped_to_bytes s = Inr bs'))"
  using message_no_panic scoped_no_panic scoped_encodes by blast

theorem hostile_bytes_handled_witness:
  "scoped_from_bytes demo_bytes = Inr demo_scoped \<and> (\<exists>bs'. scoped_to_bytes demo_scoped = Inr bs')"
proof -
  have "scoped_from_bytes demo_bytes = Inr demo_scoped"
    by (rule scoped_from_to_bytes [OF demo_to_bytes]) (simp add: demo_bytes_def)
  then show ?thesis using hostile_bytes_handled [of demo_bytes] by blast
qed

end
