(* ===== verification/Snmp_Usm.thy ===== *)
theory Snmp_Usm
  imports Snmp_Message
begin

text \<open>
  The user-based security model of the SNMP agent: \<open>crates/spt-snmp/src/usm.rs\<close> and \<open>engine.rs\<close>.
  The digests, the message authentication codes and the ciphers come from third-party crates and are
  the parameters collected in \<open>Crypto\<close>; strings are their UTF-8 bytes.
\<close>

section \<open>Protocols and users\<close>

datatype AuthProtocol = HmacMd5 | HmacSha1 | HmacSha256

definition auth_key_len :: "AuthProtocol \<Rightarrow> nat" where
  "auth_key_len p = (case p of HmacMd5 \<Rightarrow> 16 | HmacSha1 \<Rightarrow> 20 | HmacSha256 \<Rightarrow> 32)"

definition digest_len :: "AuthProtocol \<Rightarrow> nat" where
  "digest_len p = (case p of HmacMd5 \<Rightarrow> 12 | HmacSha1 \<Rightarrow> 12 | HmacSha256 \<Rightarrow> 24)"

datatype PrivProtocol = Aes128 | Aes256 | Des

definition priv_key_len :: "PrivProtocol \<Rightarrow> nat" where
  "priv_key_len p = (case p of Aes128 \<Rightarrow> 16 | Aes256 \<Rightarrow> 32 | Des \<Rightarrow> 16)"

record UsmUser =
  u_name :: bytes
  u_auth :: "(AuthProtocol \<times> bytes) option"
  u_priv :: "(PrivProtocol \<times> bytes) option"
  u_writable :: bool

definition no_auth :: "bytes \<Rightarrow> UsmUser" where
  "no_auth n = \<lparr>u_name = n, u_auth = None, u_priv = None, u_writable = False\<rparr>"

definition auth_only :: "bytes \<Rightarrow> AuthProtocol \<Rightarrow> bytes \<Rightarrow> UsmUser" where
  "auth_only n a pw = \<lparr>u_name = n, u_auth = Some (a, pw), u_priv = None, u_writable = False\<rparr>"

definition auth_priv :: "bytes \<Rightarrow> AuthProtocol \<Rightarrow> bytes \<Rightarrow> PrivProtocol \<Rightarrow> bytes \<Rightarrow> UsmUser" where
  "auth_priv n a apw p ppw = \<lparr>u_name = n, u_auth = Some (a, apw), u_priv = Some (p, ppw), u_writable = False\<rparr>"

definition set_writable :: "bool \<Rightarrow> UsmUser \<Rightarrow> UsmUser" where
  "set_writable w u = u\<lparr>u_writable := w\<rparr>"

datatype SecurityLevel = NoAuthNoPriv | AuthNoPriv | AuthPriv

definition security_level :: "UsmUser \<Rightarrow> SecurityLevel" where
  "security_level u =
     (case (u_auth u, u_priv u) of
        (None, _) \<Rightarrow> NoAuthNoPriv
      | (Some _, None) \<Rightarrow> AuthNoPriv
      | (Some _, Some _) \<Rightarrow> AuthPriv)"

definition flags_bits :: "SecurityLevel \<Rightarrow> byte" where
  "flags_bits l = (case l of NoAuthNoPriv \<Rightarrow> 0 | AuthNoPriv \<Rightarrow> 0b01 | AuthPriv \<Rightarrow> 0b11)"

definition from_flags :: "byte \<Rightarrow> (SnmpError, SecurityLevel) result" where
  "from_flags flags =
     (let f = flags AND 0b11 in
      if f = 0b00 then Inr NoAuthNoPriv
      else if f = 0b01 then Inr AuthNoPriv
      else if f = 0b11 then Inr AuthPriv
      else Inl (Usm UnsupportedSecLevel))"

section \<open>Counters\<close>

record UsmCounters =
  unsupported_sec_levels :: "32 word"
  not_in_time_windows :: "32 word"
  unknown_user_names :: "32 word"
  unknown_engine_ids :: "32 word"
  wrong_digests :: "32 word"
  decryption_errors :: "32 word"

definition default_counters :: UsmCounters where
  "default_counters = \<lparr>unsupported_sec_levels = 0, not_in_time_windows = 0, unknown_user_names = 0,
     unknown_engine_ids = 0, wrong_digests = 0, decryption_errors = 0\<rparr>"

definition counter_of :: "UsmError \<Rightarrow> UsmCounters \<Rightarrow> 32 word" where
  "counter_of e c =
     (case e of
        UnsupportedSecLevel \<Rightarrow> unsupported_sec_levels c
      | NotInTimeWindow \<Rightarrow> not_in_time_windows c
      | UnknownUserName \<Rightarrow> unknown_user_names c
      | UnknownEngineId \<Rightarrow> unknown_engine_ids c
      | WrongDigest \<Rightarrow> wrong_digests c
      | DecryptionError \<Rightarrow> decryption_errors c)"

text \<open>\<open>+= 1\<close> on a \<open>u32\<close> panics at the maximum.\<close>

definition record_usm :: "UsmError \<Rightarrow> UsmCounters \<Rightarrow> (SnmpError, UsmCounters) result" where
  "record_usm e c =
     (if counter_of e c = - 1 then Inl Panic
      else Inr (case e of
        UnsupportedSecLevel \<Rightarrow> c\<lparr>unsupported_sec_levels := unsupported_sec_levels c + 1\<rparr>
      | NotInTimeWindow \<Rightarrow> c\<lparr>not_in_time_windows := not_in_time_windows c + 1\<rparr>
      | UnknownUserName \<Rightarrow> c\<lparr>unknown_user_names := unknown_user_names c + 1\<rparr>
      | UnknownEngineId \<Rightarrow> c\<lparr>unknown_engine_ids := unknown_engine_ids c + 1\<rparr>
      | WrongDigest \<Rightarrow> c\<lparr>wrong_digests := wrong_digests c + 1\<rparr>
      | DecryptionError \<Rightarrow> c\<lparr>decryption_errors := decryption_errors c + 1\<rparr>))"

section \<open>Keys\<close>

record Crypto =
  c_hash :: "AuthProtocol \<Rightarrow> bytes \<Rightarrow> bytes"
  c_hmac :: "AuthProtocol \<Rightarrow> bytes \<Rightarrow> bytes \<Rightarrow> bytes"
  c_cfb_enc :: "bytes \<Rightarrow> bytes \<Rightarrow> bytes \<Rightarrow> bytes"
  c_cfb_dec :: "bytes \<Rightarrow> bytes \<Rightarrow> bytes \<Rightarrow> bytes"

definition KEY_EXPANSION_BYTES :: nat where
  "KEY_EXPANSION_BYTES = 1048576"

text \<open>The 64 byte buffer is filled from the password cyclically; the blocks are hashed one after the other.\<close>

fun fill_block :: "nat \<Rightarrow> bytes \<Rightarrow> nat \<Rightarrow> bytes \<times> nat" where
  "fill_block 0 pw i = ([], i)"
| "fill_block (Suc n) pw i =
     (let (bs, j) = fill_block n pw ((i + 1) mod length pw) in (pw ! i # bs, j))"

function feed_blocks :: "nat \<Rightarrow> bytes \<Rightarrow> nat \<Rightarrow> bytes" where
  "feed_blocks count pw i =
     (if count < KEY_EXPANSION_BYTES
      then let (buf, j) = fill_block 64 pw i in buf @ feed_blocks (count + 64) pw j
      else [])"
  by auto
termination feed_blocks
  by (relation "measure (\<lambda>(count, pw, i). KEY_EXPANSION_BYTES - count)") auto

declare feed_blocks.simps [simp del]

definition hash_repeating :: "Crypto \<Rightarrow> AuthProtocol \<Rightarrow> bytes \<Rightarrow> bytes" where
  "hash_repeating c auth pw = c_hash c auth (feed_blocks 0 pw 0)"

definition password_to_key :: "Crypto \<Rightarrow> AuthProtocol \<Rightarrow> bytes \<Rightarrow> bytes" where
  "password_to_key c auth pw = (if pw = [] then hash_repeating c auth [0] else hash_repeating c auth pw)"

definition localize_key :: "Crypto \<Rightarrow> AuthProtocol \<Rightarrow> bytes \<Rightarrow> bytes \<Rightarrow> bytes" where
  "localize_key c auth ku eid = c_hash c auth (ku @ eid @ ku)"

text \<open>The extension loop; it would run forever on a hash that returns nothing.\<close>

partial_function (option) extend_key ::
  "Crypto \<Rightarrow> AuthProtocol \<Rightarrow> bytes \<Rightarrow> nat \<Rightarrow> bytes \<Rightarrow> bytes option" where
  "extend_key c auth eid needed kul =
     (if length kul < needed then extend_key c auth eid needed (kul @ localize_key c auth kul eid)
      else Some kul)"

definition derive_keys :: "Crypto \<Rightarrow> UsmUser \<Rightarrow> bytes \<Rightarrow> (bytes \<times> bytes) option" where
  "derive_keys c u eid =
     (let auth_kul = (case u_auth u of
            Some (p, pw) \<Rightarrow> localize_key c p (password_to_key c p pw) eid
          | None \<Rightarrow> [])
      in case (u_auth u, u_priv u) of
           (Some (a, _), Some (p, pw)) \<Rightarrow>
             let kul = localize_key c a (password_to_key c a pw) eid; needed = priv_key_len p in
             if needed \<le> length kul then Some (auth_kul, take needed kul)
             else map_option (\<lambda>kul. (auth_kul, take needed kul)) (extend_key c a eid needed kul)
         | _ \<Rightarrow> Some (auth_kul, []))"

section \<open>Authentication and privacy\<close>

text \<open>Slicing the code to the digest length panics when it is shorter.\<close>

definition auth_digest :: "Crypto \<Rightarrow> AuthProtocol \<Rightarrow> bytes \<Rightarrow> bytes \<Rightarrow> (SnmpError, bytes) result" where
  "auth_digest c auth kul msg =
     (let mac = c_hmac c auth kul msg in
      if length mac < digest_len auth then Inl Panic else Inr (take (digest_len auth) mac))"

definition digests_match :: "bytes \<Rightarrow> bytes \<Rightarrow> bool" where
  "digests_match a b \<longleftrightarrow> length a = length b \<and> a = b"

definition aes_iv :: "32 word \<Rightarrow> 32 word \<Rightarrow> bytes \<Rightarrow> bytes" where
  "aes_iv boots time salt = be_bytes 4 boots @ be_bytes 4 time @ salt"

definition encrypt :: "Crypto \<Rightarrow> PrivProtocol \<Rightarrow> bytes \<Rightarrow> 32 word \<Rightarrow> 32 word \<Rightarrow> bytes \<Rightarrow> bytes
    \<Rightarrow> (SnmpError, bytes) result" where
  "encrypt c p key boots time salt data =
     (case p of
        Aes128 \<Rightarrow> if length key < 16 then Inl Privacy
                  else Inr (c_cfb_enc c (take 16 key) (aes_iv boots time salt) data)
      | Aes256 \<Rightarrow> if length key < 32 then Inl Privacy
                  else Inr (c_cfb_enc c (take 32 key) (aes_iv boots time salt) data)
      | Des \<Rightarrow> Inl Privacy)"

definition decrypt :: "Crypto \<Rightarrow> PrivProtocol \<Rightarrow> bytes \<Rightarrow> 32 word \<Rightarrow> 32 word \<Rightarrow> bytes \<Rightarrow> bytes
    \<Rightarrow> (SnmpError, bytes) result" where
  "decrypt c p key boots time salt data =
     (case p of
        Aes128 \<Rightarrow> if length key < 16 then Inl (Usm DecryptionError)
                  else Inr (c_cfb_dec c (take 16 key) (aes_iv boots time salt) data)
      | Aes256 \<Rightarrow> if length key < 32 then Inl (Usm DecryptionError)
                  else Inr (c_cfb_dec c (take 32 key) (aes_iv boots time salt) data)
      | Des \<Rightarrow> Inl (Usm DecryptionError))"

section \<open>Engine clock\<close>

definition engine_id_new :: "bytes \<Rightarrow> (SnmpError, bytes) result" where
  "engine_id_new v = (if v = [] \<or> 32 < length v then Inl Config else Inr v)"

definition TIME_WINDOW_SECS :: nat where
  "TIME_WINDOW_SECS = 150"

text \<open>\<open>rnd\<close> are the four random bytes.\<close>

definition generate_engine_id :: "32 word \<Rightarrow> bytes \<Rightarrow> bytes" where
  "generate_engine_id pen_arg rnd =
     (let pen = pen_arg AND 0x7FFFFFFF; pen_bytes = be_bytes 4 pen in
      (hd pen_bytes OR 0x80) # tl pen_bytes @ [5] @ rnd)"

record EngineClock =
  ec_boots :: "32 word"
  ec_started_at :: instant

definition engine_clock_new :: "32 word \<Rightarrow> instant \<Rightarrow> EngineClock" where
  "engine_clock_new boots now = \<lparr>ec_boots = boots, ec_started_at = now\<rparr>"

definition clock_time :: "instant \<Rightarrow> EngineClock \<Rightarrow> 32 word" where
  "clock_time now c = of_nat (min (as_secs (now - ec_started_at c)) u32_max)"

definition bump_boots :: "EngineClock \<Rightarrow> EngineClock" where
  "bump_boots c = c\<lparr>ec_boots := ec_boots c + 1\<rparr>"

definition check_time_window :: "instant \<Rightarrow> EngineClock \<Rightarrow> 32 word \<Rightarrow> 32 word \<Rightarrow> (SnmpError, unit) result" where
  "check_time_window now c peer_boots peer_time =
     (let local_time = unat (clock_time now c); pt = unat peer_time in
      if peer_boots \<noteq> ec_boots c then Inl (Usm NotInTimeWindow)
      else if TIME_WINDOW_SECS < (if pt \<le> local_time then local_time - pt else pt - local_time)
      then Inl (Usm NotInTimeWindow)
      else Inr ())"

section \<open>Key derivation\<close>

lemma fill_block_eq:
  "i < length pw \<Longrightarrow> fill_block n pw i = (map (\<lambda>k. pw ! ((i + k) mod length pw)) [0..<n], (i + n) mod length pw)"
proof (induction n arbitrary: i)
  case (Suc n)
  let ?m = "length pw"
  have "(i + 1) mod ?m < ?m" using Suc.prems by (intro mod_less_divisor) (cases pw, auto)
  from Suc.IH [OF this] have "fill_block n pw ((i + 1) mod ?m)
      = (map (\<lambda>k. pw ! ((i + Suc k) mod ?m)) [0..<n], (i + Suc n) mod ?m)"
    by (simp add: mod_simps)
  then show ?case using Suc.prems by (simp add: map_upt_Suc del: upt_Suc)
qed simp

lemma map_upt_shift: "map f [0..<a] @ map (\<lambda>k. f (a + k)) [0..<b] = map f [0..<a + b]"
  by (induction b) (simp_all add: append_assoc [symmetric] del: append_assoc)

text \<open>What is hashed is exactly one mebibyte of the cyclically repeated password.\<close>

lemma feed_blocks_eq:
  assumes "i < length pw" "count + 64 * k = KEY_EXPANSION_BYTES"
  shows "feed_blocks count pw i = map (\<lambda>j. pw ! ((i + j) mod length pw)) [0..<64 * k]"
  using assms
proof (induction k arbitrary: count i)
  case 0
  then show ?case by (simp add: feed_blocks.simps)
next
  case (Suc k)
  let ?m = "length pw" and ?f = "\<lambda>j. pw ! ((i + j) mod length pw)"
  have "(i + 64) mod ?m < ?m" using Suc.prems by (intro mod_less_divisor) (cases pw, auto)
  from Suc.IH [OF this, of "count + 64"] Suc.prems
  have "feed_blocks (count + 64) pw ((i + 64) mod ?m) = map (\<lambda>j. ?f (64 + j)) [0..<64 * k]"
    by (simp add: mod_simps add.assoc)
  then have "feed_blocks count pw i = map ?f [0..<64] @ map (\<lambda>j. ?f (64 + j)) [0..<64 * k]"
    using Suc.prems by (subst feed_blocks.simps) (simp add: fill_block_eq)
  also have "\<dots> = map ?f [0..<64 * Suc k]" using map_upt_shift [of ?f 64 "64 * k"] by (simp only: mult_Suc_right)
  finally show ?case .
qed

lemma password_to_key_reference:
  "password_to_key c auth pw =
     c_hash c auth (map (\<lambda>j. (if pw = [] then [0] else pw) ! (j mod length (if pw = [] then [0] else pw))) [0..<KEY_EXPANSION_BYTES])"
proof -
  let ?pw = "if pw = [] then [0] else pw"
  have "feed_blocks 0 ?pw 0 = map (\<lambda>j. ?pw ! ((0 + j) mod length ?pw)) [0..<64 * 16384]"
    by (rule feed_blocks_eq) (auto simp: KEY_EXPANSION_BYTES_def)
  moreover have "64 * 16384 = KEY_EXPANSION_BYTES" by (simp add: KEY_EXPANSION_BYTES_def)
  moreover have "password_to_key c auth pw = c_hash c auth (feed_blocks 0 ?pw 0)"
    by (simp add: password_to_key_def hash_repeating_def)
  ultimately show ?thesis by (simp only: add_0)
qed

text \<open>With digests of the documented lengths the extension ends, and every key has the length its protocol needs.\<close>

lemma extend_key_ends:
  assumes "\<And>m. 0 < length (c_hash c auth m)"
  shows "\<exists>kul'. extend_key c auth eid needed kul = Some kul' \<and> needed \<le> length kul'"
proof (induction "needed - length kul" arbitrary: kul rule: less_induct)
  case less
  show ?case
  proof (cases "length kul < needed")
    case True
    let ?k = "kul @ localize_key c auth kul eid"
    have "needed - length ?k < needed - length kul"
      using True assms [of "kul @ eid @ kul"] unfolding localize_key_def length_append by linarith
    from less [OF this] True show ?thesis by (subst extend_key.simps) simp
  next
    case False
    then show ?thesis by (subst extend_key.simps) simp
  qed
qed

lemma derive_keys_lengths:
  assumes "\<And>p m. length (c_hash c p m) = auth_key_len p" "u_auth u = Some (a, apw)" "u_priv u = Some (p, ppw)"
  shows "\<exists>ak pk. derive_keys c u eid = Some (ak, pk) \<and> length ak = auth_key_len a \<and> length pk = priv_key_len p"
proof -
  let ?kul = "localize_key c a (password_to_key c a ppw) eid"
  have pos: "0 < length (c_hash c a m)" for m using assms(1) by (simp add: auth_key_len_def split: AuthProtocol.split)
  obtain k where "extend_key c a eid (priv_key_len p) ?kul = Some k" "priv_key_len p \<le> length k"
    using extend_key_ends [OF pos] by blast
  then show ?thesis using assms by (simp add: derive_keys_def Let_def localize_key_def)
qed

text \<open>Replays: a request is accepted only for the current boot and within 150 seconds of the clock.\<close>

lemma time_window_iff: "check_time_window now c pb pt = Inr () \<longleftrightarrow>
    pb = ec_boots c \<and> unat (clock_time now c) \<le> unat pt + 150 \<and> unat pt \<le> unat (clock_time now c) + 150"
  by (auto simp: check_time_window_def TIME_WINDOW_SECS_def Let_def)

lemma clock_time_mono: "now \<le> now' \<Longrightarrow> unat (clock_time now c) \<le> unat (clock_time now' c)"
proof -
  assume "now \<le> now'"
  then have "min (as_secs (now - ec_started_at c)) u32_max \<le> min (as_secs (now' - ec_started_at c)) u32_max"
    by (simp add: as_secs_def div_le_mono min.coboundedI1)
  then show ?thesis by (simp add: clock_time_def unat_of_nat u32_max_def)
qed

text \<open>A cipher that undoes itself makes the privacy layer a round trip.\<close>

lemma decrypt_encrypt:
  assumes "\<And>k iv d. c_cfb_dec c k iv (c_cfb_enc c k iv d) = d" "encrypt c p key b t salt d = Inr e"
  shows "decrypt c p key b t salt e = Inr d"
  using assms by (auto simp: encrypt_def decrypt_def split: PrivProtocol.splits if_splits)

lemma from_flags_back [simp]: "from_flags (flags_bits l) = Inr l"
  by (cases l) (simp_all add: from_flags_def flags_bits_def)

end
