(* ===== verification/Snmp_Mib.thy ===== *)
theory Snmp_Mib
  imports Snmp_Pdu
begin

text \<open>
  The MIB registry of the SNMP agent, \<open>crates/spt-snmp/src/mib.rs\<close>.  A handler is given by its methods as
  functions of the managed state \<open>'w\<close>; only \<open>set\<close> changes that state.  A \<open>BTreeMap\<close> is the list of its
  entries in key order.
\<close>

section \<open>Model\<close>

datatype SetOutcome = SetOk | SetNotWritable | SetWrongValue | SetGenErr

definition to_error_status :: "SetOutcome \<Rightarrow> ErrorStatus" where
  "to_error_status s =
     (case s of SetOk \<Rightarrow> NoError | SetNotWritable \<Rightarrow> NotWritable | SetWrongValue \<Rightarrow> WrongValue | SetGenErr \<Rightarrow> GenErr)"

record 'w Handler =
  h_get :: "'w \<Rightarrow> (SnmpError, Value) result"
  h_set :: "Value \<Rightarrow> 'w \<Rightarrow> SetOutcome \<times> 'w"

definition default_set :: "Value \<Rightarrow> 'w \<Rightarrow> SetOutcome \<times> 'w" where
  "default_set v w = (SetNotWritable, w)"

definition const_scalar :: "Value \<Rightarrow> 'w Handler" where
  "const_scalar v = \<lparr>h_get = \<lambda>w. Inr v, h_set = default_set\<rparr>"

type_synonym 'w table_next = "'w \<Rightarrow> ObjectIdentifier option \<Rightarrow> (SnmpError, (ObjectIdentifier \<times> Value) option) result"

record 'w TableHandler =
  t_next :: "'w table_next"
  t_get :: "'w \<Rightarrow> ObjectIdentifier \<Rightarrow> (SnmpError, Value option) result"

text \<open>The default \<open>TableHandler::get\<close> walks from the cursor; a table that does not advance keeps it running.\<close>

partial_function (option) default_table_get ::
  "'w table_next \<Rightarrow> 'w \<Rightarrow> ObjectIdentifier \<Rightarrow> ObjectIdentifier option \<Rightarrow> (SnmpError, Value option) result option" where
  "default_table_get nxt w oid cur =
     (case nxt w cur of
        Inl e \<Rightarrow> Some (Inl e)
      | Inr None \<Rightarrow> Some (Inr None)
      | Inr (Some (found, v)) \<Rightarrow>
          if found = oid then Some (Inr (Some v))
          else if oid < found then Some (Inr None)
          else default_table_get nxt w oid (Some found))"

record 'w MibRegistry =
  scalars :: "(ObjectIdentifier \<times> 'w Handler) list"
  tables :: "(ObjectIdentifier \<times> 'w TableHandler) list"

fun btree_insert :: "'k::linorder \<Rightarrow> 'v \<Rightarrow> ('k \<times> 'v) list \<Rightarrow> ('k \<times> 'v) list" where
  "btree_insert k v [] = [(k, v)]"
| "btree_insert k v ((k', v') # xs) =
     (if k < k' then (k, v) # (k', v') # xs
      else if k = k' then (k, v) # xs
      else (k', v') # btree_insert k v xs)"

definition registry_new :: "'w MibRegistry" where
  "registry_new = \<lparr>scalars = [], tables = []\<rparr>"

definition add_scalar :: "ObjectIdentifier \<Rightarrow> 'w Handler \<Rightarrow> 'w MibRegistry \<Rightarrow> 'w MibRegistry" where
  "add_scalar oid h r = r\<lparr>scalars := btree_insert oid h (scalars r)\<rparr>"

definition add_table :: "ObjectIdentifier \<Rightarrow> 'w TableHandler \<Rightarrow> 'w MibRegistry \<Rightarrow> 'w MibRegistry" where
  "add_table oid h r = r\<lparr>tables := btree_insert oid h (tables r)\<rparr>"

definition scalar :: "'w MibRegistry \<Rightarrow> ObjectIdentifier \<Rightarrow> 'w Handler option" where
  "scalar r oid = map_of (scalars r) oid"

definition table_for :: "'w MibRegistry \<Rightarrow> ObjectIdentifier \<Rightarrow> (ObjectIdentifier \<times> 'w TableHandler) option" where
  "table_for r oid = List.find (\<lambda>(prefix, h). starts_with oid prefix) (tables r)"

definition registry_get :: "'w MibRegistry \<Rightarrow> 'w \<Rightarrow> ObjectIdentifier \<Rightarrow> (SnmpError, Value option) result" where
  "registry_get r w oid =
     (case scalar r oid of
        Some h \<Rightarrow> and_then (h_get h w) (\<lambda>v. Inr (Some v))
      | None \<Rightarrow> (case table_for r oid of
            Some (_, t) \<Rightarrow> t_get t w oid
          | None \<Rightarrow> Inr None))"

definition better :: "ObjectIdentifier \<Rightarrow> (ObjectIdentifier \<times> Value) option \<Rightarrow> (ObjectIdentifier \<times> Value) option
    \<Rightarrow> (ObjectIdentifier \<times> Value) option" where
  "better after best found =
     (case found of
        None \<Rightarrow> best
      | Some (oid, v) \<Rightarrow>
          if after < oid then
            (case best of
               None \<Rightarrow> Some (oid, v)
             | Some (b, bv) \<Rightarrow> if oid < b then Some (oid, v) else best)
          else best)"

fun best_table :: "'w \<Rightarrow> ObjectIdentifier \<Rightarrow> (ObjectIdentifier \<times> 'w TableHandler) list
    \<Rightarrow> (ObjectIdentifier \<times> Value) option \<Rightarrow> (SnmpError, (ObjectIdentifier \<times> Value) option) result" where
  "best_table w after [] best = Inr best"
| "best_table w after ((prefix, t) # ts) best =
     (if starts_with after prefix \<or> after < prefix then
        and_then (t_next t w (if after < prefix then None else Some after)) (\<lambda>found.
          best_table w after ts (better after best found))
      else best_table w after ts best)"

definition registry_next :: "'w MibRegistry \<Rightarrow> 'w \<Rightarrow> ObjectIdentifier \<Rightarrow> (SnmpError, (ObjectIdentifier \<times> Value) option) result" where
  "registry_next r w after =
     (let scalar_next = List.find (\<lambda>(k, h). after < k) (scalars r) in
      and_then (best_table w after (tables r) None) (\<lambda>best.
      and_then (case scalar_next of
                  Some (oid, h) \<Rightarrow> and_then (h_get h w) (\<lambda>v. Inr (Some (oid, v)))
                | None \<Rightarrow> Inr None) (\<lambda>scalar_resolved.
        Inr (case (scalar_resolved, best) of
               (Some (so, sv), Some (to, tv)) \<Rightarrow> if so \<le> to then Some (so, sv) else Some (to, tv)
             | (Some s, None) \<Rightarrow> Some s
             | (None, Some t) \<Rightarrow> Some t
             | (None, None) \<Rightarrow> None))))"

section \<open>Key order\<close>

abbreviation ordered :: "('k::linorder \<times> 'v) list \<Rightarrow> bool" where
  "ordered xs \<equiv> sorted_wrt (<) (map fst xs)"

lemma btree_insert_keys: "set (map fst (btree_insert k v xs)) = insert k (set (map fst xs))"
  by (induction k v xs rule: btree_insert.induct) auto

lemma btree_insert_ordered: "ordered xs \<Longrightarrow> ordered (btree_insert k v xs)"
proof (induction k v xs rule: btree_insert.induct)
  case (2 k v k' v' xs)
  then show ?case using btree_insert_keys [of k v xs] by fastforce
qed simp

lemma btree_insert_lookup: "ordered xs \<Longrightarrow> map_of (btree_insert k v xs) = (map_of xs)(k \<mapsto> v)"
proof (induction k v xs rule: btree_insert.induct)
  case (2 k v k' v' xs)
  then show ?case by (auto simp: fun_upd_twist)
qed simp

definition registry_ok :: "'w MibRegistry \<Rightarrow> bool" where
  "registry_ok r \<longleftrightarrow> ordered (scalars r) \<and> ordered (tables r)"

lemma registry_ok_ops [simp]:
  "registry_ok registry_new"
  "registry_ok r \<Longrightarrow> registry_ok (add_scalar o1 h r)"
  "registry_ok r \<Longrightarrow> registry_ok (add_table o1 t r)"
  by (simp_all add: registry_ok_def registry_new_def add_scalar_def add_table_def btree_insert_ordered)

text \<open>The first entry above a key is the least one.\<close>

lemma find_above_least:
  assumes "ordered xs" "List.find (\<lambda>(k, v). a < k) xs = Some (k, v)"
  shows "(k, v) \<in> set xs \<and> a < k \<and> (\<forall>k' \<in> set (map fst xs). a < k' \<longrightarrow> k \<le> k')"
  using assms by (induction xs) (auto split: if_splits)

lemma find_above_none: "List.find (\<lambda>(k, v). a < k) xs = None \<longleftrightarrow> (\<forall>k \<in> set (map fst xs). \<not> a < k)"
  by (auto simp: find_None_iff)

section \<open>Order and prefixes\<close>

lemma starts_with_iff: "starts_with o1 p \<longleftrightarrow> (\<exists>s. arcs o1 = arcs p @ s)"
  by (auto simp: starts_with_def) (metis append_take_drop_id)

lemma list_less_append: "(xs :: 'a::linorder list) \<le> xs @ ys"
  by (induction xs) auto

lemma prefix_le: "starts_with o1 p \<Longrightarrow> p \<le> o1"
  by (auto simp: starts_with_iff less_eq_ObjectIdentifier_def list_less_append)

text \<open>Everything below a prefix that \<open>a\<close> has passed lies below \<open>a\<close>.\<close>

lemma list_passed_prefix:
  "(p :: 'a::linorder list) \<le> a \<Longrightarrow> (\<nexists>s. a = p @ s) \<Longrightarrow> p @ s < a"
proof (induction p arbitrary: a)
  case (Cons x p)
  then show ?case by (cases a) auto
qed simp

lemma passed_prefix:
  assumes "\<not> starts_with after p" "\<not> after < p" "starts_with o1 p"
  shows "o1 < after"
proof -
  have "arcs p \<le> arcs after" using assms(2) by (simp add: less_ObjectIdentifier_def not_less)
  moreover obtain s where "arcs o1 = arcs p @ s" using assms(3) by (auto simp: starts_with_iff)
  ultimately show ?thesis
    using list_passed_prefix [of "arcs p" "arcs after" s] assms(1) by (auto simp: starts_with_iff less_ObjectIdentifier_def)
qed

section \<open>The lexicographic successor\<close>

text \<open>\<open>is_next a E r\<close>: \<open>r\<close> is an entry of \<open>E\<close> with the least identifier above \<open>a\<close>, or there is none.\<close>

definition is_next :: "ObjectIdentifier \<Rightarrow> (ObjectIdentifier \<times> Value) set \<Rightarrow> (ObjectIdentifier \<times> Value) option \<Rightarrow> bool" where
  "is_next a E r =
     (case r of
        None \<Rightarrow> \<forall>o2 v2. (o2, v2) \<in> E \<longrightarrow> \<not> a < o2
      | Some (o1, v) \<Rightarrow> (o1, v) \<in> E \<and> a < o1 \<and> (\<forall>o2 v2. (o2, v2) \<in> E \<longrightarrow> a < o2 \<longrightarrow> o1 \<le> o2))"

lemma is_next_Some: "is_next a E (Some (o1, v)) \<longleftrightarrow>
    (o1, v) \<in> E \<and> a < o1 \<and> (\<forall>o2 v2. (o2, v2) \<in> E \<longrightarrow> a < o2 \<longrightarrow> o1 \<le> o2)"
  by (simp add: is_next_def)

lemma is_next_None: "is_next a E None \<longleftrightarrow> (\<forall>o2 v2. (o2, v2) \<in> E \<longrightarrow> \<not> a < o2)"
  by (simp add: is_next_def)

lemma is_next_union:
  "is_next a E None \<Longrightarrow> is_next a F r \<Longrightarrow> is_next a (E \<union> F) r"
  "is_next a E r \<Longrightarrow> is_next a F None \<Longrightarrow> is_next a (E \<union> F) r"
  "is_next a E (Some (o1, v)) \<Longrightarrow> is_next a F (Some (o2, v2)) \<Longrightarrow> o1 \<le> o2 \<Longrightarrow> is_next a (E \<union> F) (Some (o1, v))"
  "is_next a E (Some (o1, v)) \<Longrightarrow> is_next a F (Some (o2, v2)) \<Longrightarrow> o2 \<le> o1 \<Longrightarrow> is_next a (E \<union> F) (Some (o2, v2))"
  by (auto simp: is_next_def split: option.splits; blast intro: order_trans)+

lemma is_next_better:
  assumes "is_next a E best" "is_next a F found"
  shows "is_next a (E \<union> F) (better a best found)"
proof (cases found)
  case None
  then show ?thesis using assms by (simp add: better_def is_next_union(2))
next
  case (Some f)
  then obtain o2 v2 where f: "found = Some (o2, v2)" "a < o2" using assms(2) by (cases f) (auto simp: is_next_Some)
  show ?thesis
  proof (cases best)
    case None
    then show ?thesis using assms f by (simp add: better_def is_next_union(1))
  next
    case (Some b)
    then show ?thesis using assms f is_next_union(3,4) [of a E "fst b" "snd b" F o2 v2]
      by (cases b) (simp add: better_def less_imp_le not_less)
  qed
qed

lemma find_is_next:
  assumes "ordered rows"
  shows "is_next a (set rows) (List.find (\<lambda>(k, v). a < k) rows)"
proof (cases "List.find (\<lambda>(k, v). a < k) rows")
  case None
  then have "\<forall>k \<in> set (map fst rows). \<not> a < k" by (simp only: find_above_none)
  then show ?thesis unfolding None is_next_None by force
next
  case (Some kv)
  then show ?thesis using find_above_least [OF assms, of a] by (cases kv) (auto simp: is_next_Some)
qed

text \<open>The contract of \<open>TableHandler::next\<close> for a table with the given rows below its prefix.\<close>

definition serves :: "'w \<Rightarrow> ObjectIdentifier \<Rightarrow> 'w TableHandler \<Rightarrow> (ObjectIdentifier \<times> Value) list \<Rightarrow> bool" where
  "serves w p t rows \<longleftrightarrow> ordered rows \<and> (\<forall>o1 \<in> fst ` set rows. starts_with o1 p)
     \<and> t_next t w None = Inr (case rows of [] \<Rightarrow> None | r # _ \<Rightarrow> Some r)
     \<and> (\<forall>a. t_next t w (Some a) = Inr (List.find (\<lambda>(k, v). a < k) rows))"

lemma table_is_next:
  assumes "serves w p t rows" "starts_with a p \<or> a < p"
  shows "\<exists>found. t_next t w (if a < p then None else Some a) = Inr found \<and> is_next a (set rows) found"
proof (cases "a < p")
  case True
  have above: "a < o1" if "o1 \<in> fst ` set rows" for o1
    using assms(1) True that prefix_le by (fastforce simp: serves_def)
  have "is_next a (set rows) (case rows of [] \<Rightarrow> None | r # _ \<Rightarrow> Some r)"
  proof (cases rows)
    case (Cons r rest)
    then show ?thesis using above assms(1) by (cases r) (auto simp: is_next_Some serves_def intro: less_imp_le)
  qed (simp add: is_next_None)
  then show ?thesis using True assms(1) by (auto simp: serves_def)
next
  case False
  then show ?thesis using assms find_is_next [of rows a] by (auto simp: serves_def)
qed

lemma best_table_is_next:
  assumes "\<And>p t. (p, t) \<in> set ts \<Longrightarrow> serves w p t (rows p)" "is_next a E best"
  shows "\<exists>b. best_table w a ts best = Inr b \<and> is_next a (E \<union> (\<Union>p \<in> fst ` set ts. set (rows p))) b"
  using assms
proof (induction ts arbitrary: E best)
  case Nil
  then show ?case by simp
next
  case (Cons pt ts)
  obtain p t where pt: "pt = (p, t)" by (cases pt)
  have s: "serves w p t (rows p)" using Cons.prems(1) pt by simp
  have rest: "\<And>p t. (p, t) \<in> set ts \<Longrightarrow> serves w p t (rows p)" using Cons.prems(1) by simp
  show ?case
  proof (cases "starts_with a p \<or> a < p")
    case True
    obtain found where f: "t_next t w (if a < p then None else Some a) = Inr found" "is_next a (set (rows p)) found"
      using table_is_next [OF s True] by auto
    from Cons.IH [OF rest is_next_better [OF Cons.prems(2) f(2)]] show ?thesis
      using True f(1) pt by (simp add: Un_assoc)
  next
    case False
    have "\<not> a < o1" if "o1 \<in> fst ` set (rows p)" for o1
      using passed_prefix [of a p o1] False s that by (auto simp: serves_def not_less less_imp_le)
    then have "is_next a (set (rows p)) None" by (force simp: is_next_None)
    then have "is_next a (E \<union> set (rows p)) best" by (rule is_next_union(2) [OF Cons.prems(2)])
    from Cons.IH [OF rest this] show ?thesis using False pt by (simp add: Un_assoc)
  qed
qed

text \<open>All entries of a registry: its scalars with their values, and the rows of its tables.\<close>

definition entries :: "'w MibRegistry \<Rightarrow> 'w \<Rightarrow> (ObjectIdentifier \<Rightarrow> (ObjectIdentifier \<times> Value) list) \<Rightarrow> (ObjectIdentifier \<times> Value) set" where
  "entries r w rows = {(o1, v). \<exists>h. (o1, h) \<in> set (scalars r) \<and> h_get h w = Inr v}
     \<union> (\<Union>p \<in> fst ` set (tables r). set (rows p))"

definition readable :: "'w MibRegistry \<Rightarrow> 'w \<Rightarrow> (ObjectIdentifier \<Rightarrow> (ObjectIdentifier \<times> Value) list) \<Rightarrow> bool" where
  "readable r w rows \<longleftrightarrow> registry_ok r \<and> (\<forall>(o1, h) \<in> set (scalars r). \<exists>v. h_get h w = Inr v)
     \<and> (\<forall>(p, t) \<in> set (tables r). serves w p t (rows p))"

lemma scalar_is_next:
  assumes "readable r w rows"
  shows "\<exists>s. (case List.find (\<lambda>(k, h). a < k) (scalars r) of
        Some (oid, h) \<Rightarrow> and_then (h_get h w) (\<lambda>v. Inr (Some (oid, v))) | None \<Rightarrow> Inr None) = Inr s
    \<and> is_next a {(o1, v). \<exists>h. (o1, h) \<in> set (scalars r) \<and> h_get h w = Inr v} s"
proof (cases "List.find (\<lambda>(k, h). a < k) (scalars r)")
  case None
  then have "\<forall>k \<in> set (map fst (scalars r)). \<not> a < k" by (simp only: find_above_none)
  then show ?thesis unfolding None by (force simp: is_next_None)
next
  case (Some oh)
  obtain o1 h where oh: "oh = (o1, h)" by (cases oh)
  have l: "(o1, h) \<in> set (scalars r)" "a < o1" "\<forall>k' \<in> set (map fst (scalars r)). a < k' \<longrightarrow> o1 \<le> k'"
    using find_above_least [of "scalars r" a o1 h] Some oh assms by (auto simp: readable_def registry_ok_def)
  moreover obtain v where "h_get h w = Inr v" using l(1) assms by (auto simp: readable_def)
  ultimately show ?thesis using Some oh by (force simp: is_next_Some)
qed

lemma registry_next_is_next:
  assumes "readable r w rows"
  shows "\<exists>n. registry_next r w a = Inr n \<and> is_next a (entries r w rows) n"
proof -
  let ?S = "{(o1, v). \<exists>h. (o1, h) \<in> set (scalars r) \<and> h_get h w = Inr v}"
  let ?T = "\<Union>p \<in> fst ` set (tables r). set (rows p)"
  obtain s where s: "(case List.find (\<lambda>(k, h). a < k) (scalars r) of
        Some (oid, h) \<Rightarrow> and_then (h_get h w) (\<lambda>v. Inr (Some (oid, v))) | None \<Rightarrow> Inr None) = Inr s" "is_next a ?S s"
    using scalar_is_next [OF assms] by blast
  obtain b where b: "best_table w a (tables r) None = Inr b" "is_next a ?T b"
  proof -
    have "\<And>p t. (p, t) \<in> set (tables r) \<Longrightarrow> serves w p t (rows p)" using assms by (auto simp: readable_def)
    from best_table_is_next [where ts = "tables r" and a = a and E = "{}" and best = None, OF this] that show thesis by (auto simp: is_next_None)
  qed
  let ?n = "case (s, b) of (Some (so, sv), Some (to, tv)) \<Rightarrow> if so \<le> to then Some (so, sv) else Some (to, tv)
     | (Some s, None) \<Rightarrow> Some s | (None, Some t) \<Rightarrow> Some t | (None, None) \<Rightarrow> None"
  have "is_next a (?S \<union> ?T) ?n"
    using s(2) b(2) is_next_union by (cases s; cases b) (auto simp: not_le less_imp_le)
  moreover have "registry_next r w a = Inr ?n" using s(1) b(1) by (simp add: registry_next_def)
  ultimately show ?thesis by (auto simp: entries_def)
qed

section \<open>Walks\<close>

fun walk :: "nat \<Rightarrow> 'w MibRegistry \<Rightarrow> 'w \<Rightarrow> ObjectIdentifier \<Rightarrow> (ObjectIdentifier \<times> Value) list" where
  "walk 0 r w a = []"
| "walk (Suc n) r w a =
     (case registry_next r w a of
        Inr (Some (o1, v)) \<Rightarrow> (o1, v) # walk n r w o1
      | _ \<Rightarrow> [])"

definition above :: "ObjectIdentifier \<Rightarrow> (ObjectIdentifier \<times> Value) set \<Rightarrow> ObjectIdentifier set" where
  "above a E = {o1 \<in> fst ` E. a < o1}"

lemma finite_entries:
  assumes "readable r w rows"
  shows "finite (entries r w rows)"
proof -
  have "{(o1, v). \<exists>h. (o1, h) \<in> set (scalars r) \<and> h_get h w = Inr v}
      \<subseteq> (\<lambda>(o1, h). (o1, case h_get h w of Inr v \<Rightarrow> v | Inl _ \<Rightarrow> V_Null)) ` set (scalars r)"
    by force
  then have "finite {(o1, v). \<exists>h. (o1, h) \<in> set (scalars r) \<and> h_get h w = Inr v}"
    by (rule finite_subset) simp
  then show ?thesis by (simp add: entries_def)
qed

lemma is_next_above_Some:
  assumes "is_next a E (Some (o1, v))"
  shows "above a E = insert o1 (above o1 E)" "o1 \<notin> above o1 E" "\<forall>o2 \<in> above o1 E. o1 < o2"
proof -
  from assms have o: "(o1, v) \<in> E" "a < o1" "\<And>o2 v2. (o2, v2) \<in> E \<Longrightarrow> a < o2 \<Longrightarrow> o1 \<le> o2"
    by (auto simp: is_next_Some)
  show "above a E = insert o1 (above o1 E)"
  proof (intro equalityI subsetI)
    fix x assume "x \<in> above a E"
    then obtain v2 where x: "(x, v2) \<in> E" "a < x" by (auto simp: above_def)
    then have "x = o1 \<or> o1 < x" using o(3) [OF x] by (auto simp: order_le_less)
    then show "x \<in> insert o1 (above o1 E)" using image_eqI [of x fst "(x, v2)" E] x(1) by (auto simp: above_def)
  next
    fix x assume "x \<in> insert o1 (above o1 E)"
    then show "x \<in> above a E" using image_eqI [of o1 fst "(o1, v)" E] o(1,2) by (auto simp: above_def)
  qed
qed (auto simp: above_def)

lemma walk_lists_above:
  assumes "readable r w rows" "card (above a (entries r w rows)) \<le> n"
  shows "map fst (walk n r w a) = sorted_list_of_set (above a (entries r w rows))
    \<and> set (walk n r w a) \<subseteq> entries r w rows"
  using assms(2)
proof (induction n arbitrary: a)
  case 0
  have "finite (above a (entries r w rows))" using finite_entries [OF assms(1)] by (simp add: above_def)
  then have "above a (entries r w rows) = {}" using 0 by (simp only: card_0_eq le_zero_eq)
  then show ?case by simp
next
  case (Suc n)
  let ?E = "entries r w rows"
  obtain nx where nx: "registry_next r w a = Inr nx" "is_next a ?E nx"
    using registry_next_is_next [OF assms(1)] by blast
  show ?case
  proof (cases nx)
    case None
    then have "above a ?E = {}" using nx(2) by (auto simp: is_next_None above_def)
    then show ?thesis using nx(1) None by simp
  next
    case (Some ov)
    obtain o1 v where ov: "ov = (o1, v)" by (cases ov)
    note ab = is_next_above_Some [OF nx(2) [unfolded Some ov]]
    have fin: "finite (above o1 ?E)" using finite_entries [OF assms(1)] by (simp add: above_def)
    then have "card (above o1 ?E) \<le> n" using Suc.prems ab by simp
    from Suc.IH [OF this] have IH: "map fst (walk n r w o1) = sorted_list_of_set (above o1 ?E)"
      "set (walk n r w o1) \<subseteq> ?E" by auto
    have "sorted_list_of_set (insert o1 (above o1 ?E)) = o1 # sorted_list_of_set (above o1 ?E)"
      using ab fin by (simp add: insort_is_Cons less_imp_le)
    then show ?thesis using IH nx Some ov ab(1) by (auto simp: is_next_Some)
  qed
qed

section \<open>The default instance lookup\<close>

lemma find_append: "List.find q (xs @ ys) = (case List.find q xs of None \<Rightarrow> List.find q ys | Some x \<Rightarrow> Some x)"
  by (induction xs) auto

lemma next_after_visited:
  assumes "serves w p t (pre @ rest)"
  shows "t_next t w (if pre = [] then None else Some (fst (last pre)))
    = Inr (case rest of [] \<Rightarrow> None | r # _ \<Rightarrow> Some r)"
proof (cases "pre = []")
  case False
  let ?a = "fst (last pre)"
  have o: "ordered (pre @ rest)" using assms by (simp add: serves_def)
  have "\<forall>k \<in> set (map fst pre). \<not> ?a < k"
    using o False by (cases pre rule: rev_cases) (auto simp: sorted_wrt_append not_less less_imp_le)
  then have 1: "List.find (\<lambda>(k, v). ?a < k) pre = None" by (simp only: find_above_none)
  have "\<forall>k \<in> set (map fst rest). ?a < k" using o False by (force simp: sorted_wrt_append)
  then have 2: "List.find (\<lambda>(k, v). ?a < k) rest = (case rest of [] \<Rightarrow> None | r # _ \<Rightarrow> Some r)"
    by (cases rest) auto
  show ?thesis using False assms by (simp add: serves_def find_append 1 2)
qed (use assms in \<open>simp add: serves_def\<close>)

text \<open>On a table that keeps its contract the default lookup always returns, and with the row asked for.\<close>

lemma default_table_get_lookup:
  assumes "serves w p t (pre @ rest)" "\<forall>k \<in> fst ` set pre. k < oid"
  shows "default_table_get (t_next t) w oid (if pre = [] then None else Some (fst (last pre)))
    = Some (Inr (map_of rest oid))"
  using assms
proof (induction rest arbitrary: pre)
  case Nil
  show ?case by (subst default_table_get.simps, subst next_after_visited [OF Nil.prems(1)]) simp
next
  case (Cons r rest)
  obtain k v where r: "r = (k, v)" by (cases r)
  have n: "t_next t w (if pre = [] then None else Some (fst (last pre))) = Inr (Some (k, v))"
    using next_after_visited [OF Cons.prems(1)] r by simp
  show ?case
  proof (cases "k < oid")
    case True
    have "default_table_get (t_next t) w oid (Some k) = Some (Inr (map_of rest oid))"
      using Cons.IH [of "pre @ [r]"] Cons.prems True r by auto
    then show ?thesis using r True by (subst default_table_get.simps, subst n) auto
  next
    case False
    have "\<forall>k' \<in> fst ` set rest. k < k'" using Cons.prems(1) r by (auto simp: serves_def sorted_wrt_append)
    then have "oid \<noteq> k \<longrightarrow> map_of rest oid = None" using False by (fastforce simp: map_of_eq_None_iff)
    then show ?thesis using r False by (subst default_table_get.simps, subst n) auto
  qed
qed

section \<open>Property\<close>

text \<open>C24: A walk by repeated GetNext visits every managed object above its starting point exactly once, in
  lexicographic order, scalars and table rows merged, and then ends; every value reported is the one the handler of
  that object gives.  Tables are assumed to keep the documented contract of \<open>TableHandler::next\<close>.\<close>

theorem mib_walk_complete:
  assumes "readable r w rows" "card (above a (entries r w rows)) \<le> n"
  shows "map fst (walk n r w a) = sorted_list_of_set (above a (entries r w rows))
    \<and> set (walk n r w a) \<subseteq> entries r w rows"
  by (rule walk_lists_above [OF assms])

definition demo_rows :: "ObjectIdentifier \<Rightarrow> (ObjectIdentifier \<times> Value) list" where
  "demo_rows p = [(ObjectIdentifier [1, 2, 1], V_Integer 10), (ObjectIdentifier [1, 2, 7], V_Integer 20)]"

definition demo_table :: "unit TableHandler" where
  "demo_table = (let nxt = (\<lambda>w cur. Inr (case cur of
        None \<Rightarrow> Some (ObjectIdentifier [1, 2, 1], V_Integer 10)
      | Some a \<Rightarrow> List.find (\<lambda>(k, v). a < k) (demo_rows (ObjectIdentifier [1, 2]))))
     in \<lparr>t_next = nxt, t_get = \<lambda>w o1. Inr None\<rparr>)"

definition demo_registry :: "unit MibRegistry" where
  "demo_registry = add_scalar (ObjectIdentifier [1, 3, 0]) (const_scalar (V_Integer 5))
     (add_table (ObjectIdentifier [1, 2]) demo_table registry_new)"

lemma demo_readable: "readable demo_registry () demo_rows"
  by (auto simp: readable_def demo_registry_def add_scalar_def add_table_def registry_new_def registry_ok_def serves_def
      demo_rows_def demo_table_def const_scalar_def starts_with_def less_ObjectIdentifier_def)

theorem mib_walk_complete_witness:
  "map fst (walk 3 demo_registry () (ObjectIdentifier []))
     = sorted_list_of_set (above (ObjectIdentifier []) (entries demo_registry () demo_rows))
   \<and> walk 3 demo_registry () (ObjectIdentifier [])
     = [(ObjectIdentifier [1, 2, 1], V_Integer 10), (ObjectIdentifier [1, 2, 7], V_Integer 20),
        (ObjectIdentifier [1, 3, 0], V_Integer 5)]"
proof
  have "above (ObjectIdentifier []) (entries demo_registry () demo_rows)
      \<subseteq> {ObjectIdentifier [1, 2, 1], ObjectIdentifier [1, 2, 7], ObjectIdentifier [1, 3, 0]}"
    by (auto simp: above_def entries_def demo_registry_def add_scalar_def add_table_def registry_new_def demo_rows_def)
  from card_mono [OF _ this] have "card (above (ObjectIdentifier []) (entries demo_registry () demo_rows)) \<le> 3"
    by (simp add: card_insert_if)
  then show "map fst (walk 3 demo_registry () (ObjectIdentifier []))
     = sorted_list_of_set (above (ObjectIdentifier []) (entries demo_registry () demo_rows))"
    using mib_walk_complete [OF demo_readable] by blast
  have three: "(3 :: nat) = Suc (Suc (Suc 0))" by simp
  show "walk 3 demo_registry () (ObjectIdentifier [])
     = [(ObjectIdentifier [1, 2, 1], V_Integer 10), (ObjectIdentifier [1, 2, 7], V_Integer 20),
        (ObjectIdentifier [1, 3, 0], V_Integer 5)]"
    unfolding three by (simp add: registry_next_def demo_registry_def add_scalar_def add_table_def registry_new_def
        demo_rows_def demo_table_def const_scalar_def starts_with_def less_ObjectIdentifier_def
        less_eq_ObjectIdentifier_def better_def)
qed

end
