(* ===== verification/Utf8.thy ===== *)
theory Utf8
  imports Byte_Strings
begin

text \<open>
  The UTF-8 decoding of the Rust standard library: \<open>String::from_utf8_lossy\<close> and the check of \<open>str::from_utf8\<close>.  A
  \<open>String\<close> is the list of its bytes.
\<close>

text \<open>
  \<open>String::from_utf8_lossy\<close>: the length of the next chunk and whether it is a character; every maximal
  invalid chunk becomes U+FFFD.
\<close>

definition continuation :: "byte \<Rightarrow> bool" where
  "continuation b \<longleftrightarrow> 0x80 \<le> b \<and> b \<le> 0xBF"

definition second_ok :: "byte \<Rightarrow> byte \<Rightarrow> bool" where
  "second_ok a b =
     (if a = 0xE0 then 0xA0 \<le> b \<and> b \<le> 0xBF
      else if a = 0xED then 0x80 \<le> b \<and> b \<le> 0x9F
      else if a = 0xF0 then 0x90 \<le> b \<and> b \<le> 0xBF
      else if a = 0xF4 then 0x80 \<le> b \<and> b \<le> 0x8F
      else continuation b)"

definition utf8_width :: "byte \<Rightarrow> nat" where
  "utf8_width a =
     (if a < 0x80 then 1
      else if 0xC2 \<le> a \<and> a \<le> 0xDF then 2
      else if 0xE0 \<le> a \<and> a \<le> 0xEF then 3
      else if 0xF0 \<le> a \<and> a \<le> 0xF4 then 4
      else 0)"

fun utf8_chunk :: "bytes \<Rightarrow> nat \<times> bool" where
  "utf8_chunk [] = (0, True)"
| "utf8_chunk (a # bs) =
     (let w = utf8_width a in
      if w = 1 then (1, True)
      else if w = 0 then (1, False)
      else case bs of
        [] \<Rightarrow> (1, False)
      | b # cs \<Rightarrow>
          if \<not> second_ok a b then (1, False)
          else if w = 2 then (2, True)
          else case cs of
            [] \<Rightarrow> (2, False)
          | c # ds \<Rightarrow>
              if \<not> continuation c then (2, False)
              else if w = 3 then (3, True)
              else case ds of
                [] \<Rightarrow> (3, False)
              | d # _ \<Rightarrow> if \<not> continuation d then (3, False) else (4, True))"

lemma utf8_chunk_pos: "0 < fst (utf8_chunk (a # bs))"
  by (auto simp: Let_def split: list.splits)

function from_utf8_lossy :: "bytes \<Rightarrow> bytes" where
  "from_utf8_lossy [] = []"
| "from_utf8_lossy (a # bs) =
     (let (n, ok) = utf8_chunk (a # bs) in
      (if ok then take n (a # bs) else [0xEF, 0xBF, 0xBD]) @ from_utf8_lossy (drop n (a # bs)))"
  by pat_completeness auto
termination from_utf8_lossy
proof (relation "measure length")
  fix a :: byte and bs :: bytes and x n ok
  assume x: "x = utf8_chunk (a # bs)" and n: "(n, ok) = x"
  have "n = fst (utf8_chunk (a # bs))" using x n by (metis fst_conv)
  then show "(drop n (a # bs), a # bs) \<in> measure length"
    using utf8_chunk_pos [of a bs] by simp
qed simp

declare from_utf8_lossy.simps [simp del]

function utf8_ok :: "bytes \<Rightarrow> bool" where
  "utf8_ok [] \<longleftrightarrow> True"
| "utf8_ok (a # bs) \<longleftrightarrow> (case utf8_chunk (a # bs) of (n, ok) \<Rightarrow> ok \<and> utf8_ok (drop n (a # bs)))"
  by pat_completeness auto
termination utf8_ok
proof (relation "measure length")
  fix a :: byte and bs :: bytes and n ok
  assume "(n, ok) = utf8_chunk (a # bs)"
  then have "n = fst (utf8_chunk (a # bs))" by (metis fst_conv)
  then show "(drop n (a # bs), a # bs) \<in> measure length"
    using utf8_chunk_pos [of a bs] by simp
qed simp

declare utf8_ok.simps [simp del]

lemma utf8_ok_Nil [simp]: "utf8_ok []"
  by (simp add: utf8_ok.simps)

lemma utf8_ok_ascii: "(\<forall>b \<in> set bs. b < 0x80) \<Longrightarrow> utf8_ok bs"
  by (induction bs) (simp_all add: utf8_ok.simps utf8_width_def)

lemma from_utf8_lossy_ok: "utf8_ok bs \<Longrightarrow> from_utf8_lossy bs = bs"
proof (induction bs rule: utf8_ok.induct)
  case (2 a bs)
  then show ?case by (cases "utf8_chunk (a # bs)") (simp add: utf8_ok.simps from_utf8_lossy.simps)
qed (simp add: from_utf8_lossy.simps)

end
