(* ===== verification/Snmp_Agent.thy ===== *)
theory Snmp_Agent
  imports Snmp_Usm Snmp_Mib Utf8 Protocol_Types Complex_Main
begin

text \<open>
  The SNMPv3 agent, \<open>crates/spt-snmp/src/agent.rs\<close>: what happens to one datagram, from the wire to the
  reply.  Clock readings and random bytes are inputs.  The unauthenticated discovery path is rate limited
  with \<open>f64\<close> token buckets: the rounding of \<open>f64\<close> arithmetic and \<open>Duration::as_secs_f64\<close> are parameters.
\<close>

section \<open>Limits\<close>

definition DOCUMENTATION_ENTERPRISE_PEN :: "32 word" where
  "DOCUMENTATION_ENTERPRISE_PEN = 32473"

definition OLD_PLACEHOLDER_ENTERPRISE_PEN :: "32 word" where
  "OLD_PLACEHOLDER_ENTERPRISE_PEN = 99999"

definition is_reserved_enterprise_pen :: "32 word \<Rightarrow> bool" where
  "is_reserved_enterprise_pen pen \<longleftrightarrow> pen = DOCUMENTATION_ENTERPRISE_PEN \<or> pen = OLD_PLACEHOLDER_ENTERPRISE_PEN"

definition validate_production_enterprise_pen :: "32 word \<Rightarrow> (SnmpError, unit) result" where
  "validate_production_enterprise_pen pen =
     (if pen = 0 then Inl Config
      else if is_reserved_enterprise_pen pen then Inl Config
      else Inr ())"

definition MAX_DATAGRAM :: nat where
  "MAX_DATAGRAM = 65507"

definition MAX_BULK_REPETITIONS :: nat where
  "MAX_BULK_REPETITIONS = 100"

definition MAX_BULK_NON_REPEATERS :: nat where
  "MAX_BULK_NON_REPEATERS = 100"

definition MAX_BULK_RESPONSE_BYTES :: nat where
  "MAX_BULK_RESPONSE_BYTES = MAX_DATAGRAM"

definition BULK_RESPONSE_OVERHEAD :: nat where
  "BULK_RESPONSE_OVERHEAD = 512"

text \<open>\<open>usize::try_from(v.max(0))\<close> always succeeds on a 64 bit target.\<close>

definition clamp_i32 :: "i32 \<Rightarrow> nat" where
  "clamp_i32 v = nat (max (sint v) 0)"

definition bulk_response_budget :: "i32 \<Rightarrow> nat" where
  "bulk_response_budget peer_msg_max_size =
     (let peer = clamp_i32 peer_msg_max_size;
          cap = min MAX_BULK_RESPONSE_BYTES (max peer 484)
      in max (cap - BULK_RESPONSE_OVERHEAD) 64)"

definition encoded_varbind_len :: "VarBind \<Rightarrow> nat" where
  "encoded_varbind_len vb = (case varbind_encode vb [] of Inr e \<Rightarrow> length e | Inl _ \<Rightarrow> 32)"

section \<open>Discovery rate limiter\<close>

definition DISCOVERY_BURST :: nat where
  "DISCOVERY_BURST = 5"

definition DISCOVERY_MAX_SOURCES :: nat where
  "DISCOVERY_MAX_SOURCES = 4096"

record DiscoveryBucket =
  db_tokens :: real
  db_last :: instant

type_synonym limiter = "IpAddr \<rightharpoonup> DiscoveryBucket"

record F64 =
  f_round :: "real \<Rightarrow> real"
  f_secs :: "duration \<Rightarrow> real"

text \<open>\<open>tokens + elapsed * 1.0\<close>; multiplying by one is exact.\<close>

definition refilled :: "F64 \<Rightarrow> instant \<Rightarrow> DiscoveryBucket \<Rightarrow> real" where
  "refilled f now b = f_round f (db_tokens b + f_secs f (now - db_last b))"

definition evict_refilled :: "F64 \<Rightarrow> instant \<Rightarrow> limiter \<Rightarrow> limiter" where
  "evict_refilled f now m =
     (\<lambda>ip. case m ip of
        Some b \<Rightarrow> if refilled f now b < real DISCOVERY_BURST then Some b else None
      | None \<Rightarrow> None)"

definition limiter_allow :: "F64 \<Rightarrow> IpAddr \<Rightarrow> instant \<Rightarrow> limiter \<Rightarrow> bool \<times> limiter" where
  "limiter_allow f src now m =
     (let full = DISCOVERY_MAX_SOURCES \<le> card (dom m) \<and> src \<notin> dom m;
          m = (if full then evict_refilled f now m else m)
      in if full \<and> DISCOVERY_MAX_SOURCES \<le> card (dom m) then (False, m)
         else
           let b = (case m src of Some b \<Rightarrow> b | None \<Rightarrow> \<lparr>db_tokens = real DISCOVERY_BURST, db_last = now\<rparr>);
               tokens = min (refilled f now b) (real DISCOVERY_BURST)
           in if 1 \<le> tokens
              then (True, m(src \<mapsto> \<lparr>db_tokens = f_round f (tokens - 1), db_last = now\<rparr>))
              else (False, m(src \<mapsto> \<lparr>db_tokens = tokens, db_last = now\<rparr>)))"

section \<open>Agent state\<close>

record UserKeys =
  k_user :: UsmUser
  k_auth_kul :: bytes
  k_priv_kul :: bytes

record 'w Agent =
  a_engine_id :: bytes
  a_clock :: EngineClock
  a_users :: "bytes \<rightharpoonup> UserKeys"
  a_registry :: "'w MibRegistry"
  a_counters :: UsmCounters
  a_limiter :: limiter
  a_world :: 'w

record 'w AgentBuilder =
  ab_bind :: "SocketAddr option"
  ab_engine_id :: "bytes option"
  ab_pen :: "32 word option"
  ab_allow_documentation_pen :: bool
  ab_users :: "UsmUser list"
  ab_registry :: "'w MibRegistry"

definition builder_new :: "'w AgentBuilder" where
  "builder_new = \<lparr>ab_bind = None, ab_engine_id = None, ab_pen = None, ab_allow_documentation_pen = False, ab_users = [],
     ab_registry = registry_new\<rparr>"

definition builder_bind :: "SocketAddr \<Rightarrow> 'w AgentBuilder \<Rightarrow> 'w AgentBuilder" where
  "builder_bind addr b = b\<lparr>ab_bind := Some addr\<rparr>"

definition builder_enterprise_pen :: "32 word \<Rightarrow> 'w AgentBuilder \<Rightarrow> 'w AgentBuilder" where
  "builder_enterprise_pen pen b = b\<lparr>ab_pen := Some pen, ab_allow_documentation_pen := False\<rparr>"

definition builder_documentation_enterprise_pen :: "'w AgentBuilder \<Rightarrow> 'w AgentBuilder" where
  "builder_documentation_enterprise_pen b =
     b\<lparr>ab_pen := Some DOCUMENTATION_ENTERPRISE_PEN, ab_allow_documentation_pen := True\<rparr>"

definition builder_set_engine_id :: "bytes \<Rightarrow> 'w AgentBuilder \<Rightarrow> 'w AgentBuilder" where
  "builder_set_engine_id eid b = b\<lparr>ab_engine_id := Some eid\<rparr>"

definition builder_add_user :: "UsmUser \<Rightarrow> 'w AgentBuilder \<Rightarrow> 'w AgentBuilder" where
  "builder_add_user u b = b\<lparr>ab_users := ab_users b @ [u]\<rparr>"

definition builder_add_scalar :: "ObjectIdentifier \<Rightarrow> 'w Handler \<Rightarrow> 'w AgentBuilder \<Rightarrow> 'w AgentBuilder" where
  "builder_add_scalar oid h b = b\<lparr>ab_registry := add_scalar oid h (ab_registry b)\<rparr>"

definition builder_add_table :: "ObjectIdentifier \<Rightarrow> 'w TableHandler \<Rightarrow> 'w AgentBuilder \<Rightarrow> 'w AgentBuilder" where
  "builder_add_table oid h b = b\<lparr>ab_registry := add_table oid h (ab_registry b)\<rparr>"

definition builder_engine_id :: "'w AgentBuilder \<Rightarrow> bytes \<Rightarrow> (SnmpError, bytes) result" where
  "builder_engine_id b rnd =
     (case ab_engine_id b of
        Some eid \<Rightarrow> Inr eid
      | None \<Rightarrow> (case ab_pen b of
            None \<Rightarrow> Inl Config
          | Some pen \<Rightarrow>
              and_then (if ab_allow_documentation_pen b
                        then (if pen = 0 then Inl Config else Inr ())
                        else validate_production_enterprise_pen pen)
                (\<lambda>_. Inr (generate_engine_id pen rnd))))"

fun derive_all :: "Crypto \<Rightarrow> bytes \<Rightarrow> UsmUser list \<Rightarrow> (bytes \<rightharpoonup> UserKeys) \<Rightarrow> (bytes \<rightharpoonup> UserKeys) option" where
  "derive_all c eid [] m = Some m"
| "derive_all c eid (u # us) m =
     (case derive_keys c u eid of
        None \<Rightarrow> None
      | Some (ak, pk) \<Rightarrow> derive_all c eid us (m(u_name u \<mapsto> \<lparr>k_user = u, k_auth_kul = ak, k_priv_kul = pk\<rparr>)))"

text \<open>\<open>AgentBuilder::run\<close> up to the spawned task; \<open>None\<close> would be a key derivation that does not end.\<close>

definition agent_start :: "Crypto \<Rightarrow> 'w AgentBuilder \<Rightarrow> bytes \<Rightarrow> bool \<Rightarrow> instant \<Rightarrow> 'w \<Rightarrow> (SnmpError, 'w Agent) result option" where
  "agent_start c b rnd bind_ok now w =
     (case ab_bind b of
        None \<Rightarrow> Some (Inl Config)
      | Some addr \<Rightarrow> (case builder_engine_id b rnd of
            Inl e \<Rightarrow> Some (Inl e)
          | Inr eid \<Rightarrow>
              if \<not> bind_ok then Some (Inl Io)
              else map_option (\<lambda>users. Inr \<lparr>a_engine_id = eid, a_clock = engine_clock_new 1 now, a_users = users,
                     a_registry = ab_registry b, a_counters = default_counters, a_limiter = Map.empty, a_world = w\<rparr>)
                   (derive_all c eid (ab_users b) Map.empty)))"

section \<open>Requests\<close>

definition response_pdu :: "Pdu \<Rightarrow> i32 \<Rightarrow> i32 \<Rightarrow> VarBind list \<Rightarrow> Pdu" where
  "response_pdu req es ei vbs =
     \<lparr>pdu_kind = Response, request_id = request_id req, error_status = es, error_index = ei, variable_bindings = vbs\<rparr>"

text \<open>\<open>None\<close> when the next binding does not fit the budget; the first one always does.\<close>

definition try_push :: "nat \<Rightarrow> VarBind \<Rightarrow> VarBind list \<times> nat \<Rightarrow> (VarBind list \<times> nat) option" where
  "try_push budget vb acc =
     (let (bindings, used) = acc; est = encoded_varbind_len vb in
      if bindings \<noteq> [] \<and> budget < sat_add u64_max used est then None
      else Some (bindings @ [vb], sat_add u64_max used est))"

definition get_binding :: "'w MibRegistry \<Rightarrow> 'w \<Rightarrow> VarBind \<Rightarrow> VarBind" where
  "get_binding r w vb =
     \<lparr>vb_name = vb_name vb,
      vb_value = (case registry_get r w (vb_name vb) of Inr (Some v) \<Rightarrow> v | _ \<Rightarrow> V_NoSuchObject)\<rparr>"

fun get_loop :: "'w MibRegistry \<Rightarrow> 'w \<Rightarrow> nat \<Rightarrow> VarBind list \<Rightarrow> VarBind list \<times> nat \<Rightarrow> (VarBind list \<times> nat) option" where
  "get_loop r w budget [] acc = Some acc"
| "get_loop r w budget (vb # vbs) acc =
     (case try_push budget (get_binding r w vb) acc of
        None \<Rightarrow> None
      | Some acc \<Rightarrow> get_loop r w budget vbs acc)"

definition handle_get :: "'w MibRegistry \<Rightarrow> 'w \<Rightarrow> Pdu \<Rightarrow> i32 \<Rightarrow> Pdu" where
  "handle_get r w req max_size =
     (case get_loop r w (bulk_response_budget max_size) (variable_bindings req) ([], 0) of
        None \<Rightarrow> response_pdu req (error_status_code TooBig) 0 []
      | Some (bindings, used) \<Rightarrow> response_pdu req 0 0 bindings)"

definition next_binding :: "'w MibRegistry \<Rightarrow> 'w \<Rightarrow> ObjectIdentifier \<Rightarrow> VarBind" where
  "next_binding r w n =
     (case registry_next r w n of
        Inr (Some (o1, v)) \<Rightarrow> \<lparr>vb_name = o1, vb_value = v\<rparr>
      | _ \<Rightarrow> \<lparr>vb_name = n, vb_value = V_EndOfMibView\<rparr>)"

text \<open>Successors of the given names until the budget is reached; the flag says that it was.\<close>

fun next_loop :: "'w MibRegistry \<Rightarrow> 'w \<Rightarrow> nat \<Rightarrow> ObjectIdentifier list \<Rightarrow> VarBind list \<times> nat \<Rightarrow> (VarBind list \<times> nat) \<times> bool" where
  "next_loop r w budget [] acc = (acc, False)"
| "next_loop r w budget (n # ns) acc =
     (case try_push budget (next_binding r w n) acc of
        None \<Rightarrow> (acc, True)
      | Some acc \<Rightarrow> next_loop r w budget ns acc)"

definition handle_get_next :: "'w MibRegistry \<Rightarrow> 'w \<Rightarrow> Pdu \<Rightarrow> i32 \<Rightarrow> Pdu" where
  "handle_get_next r w req max_size =
     (let ((bindings, used), hit) =
        next_loop r w (bulk_response_budget max_size) (map vb_name (variable_bindings req)) ([], 0)
      in response_pdu req 0 0 bindings)"

text \<open>One pass over the cursors of the repeating part: the advanced cursors, whether all were at the end, and
  whether the budget was reached.\<close>

fun bulk_pass :: "'w MibRegistry \<Rightarrow> 'w \<Rightarrow> nat \<Rightarrow> ObjectIdentifier list \<Rightarrow> VarBind list \<times> nat
    \<Rightarrow> ObjectIdentifier list \<times> (VarBind list \<times> nat) \<times> bool \<times> bool" where
  "bulk_pass r w budget [] acc = ([], acc, True, False)"
| "bulk_pass r w budget (cur # cs) acc =
     (let (cur', resp, at_end) =
        (case registry_next r w cur of
           Inr (Some (o1, v)) \<Rightarrow> (o1, \<lparr>vb_name = o1, vb_value = v\<rparr>, False)
         | _ \<Rightarrow> (cur, \<lparr>vb_name = cur, vb_value = V_EndOfMibView\<rparr>, True))
      in case try_push budget resp acc of
           None \<Rightarrow> (cur' # cs, acc, at_end, True)
         | Some acc \<Rightarrow>
             let (cs', acc, ends, hit) = bulk_pass r w budget cs acc in (cur' # cs', acc, at_end \<and> ends, hit))"

fun bulk_repeat :: "'w MibRegistry \<Rightarrow> 'w \<Rightarrow> nat \<Rightarrow> nat \<Rightarrow> ObjectIdentifier list \<Rightarrow> VarBind list \<times> nat \<Rightarrow> VarBind list \<times> nat" where
  "bulk_repeat r w budget 0 cs acc = acc"
| "bulk_repeat r w budget (Suc reps) cs acc =
     (let (cs, acc, all_end, hit) = bulk_pass r w budget cs acc in
      if hit \<or> all_end then acc else bulk_repeat r w budget reps cs acc)"

definition handle_get_bulk :: "'w MibRegistry \<Rightarrow> 'w \<Rightarrow> Pdu \<Rightarrow> i32 \<Rightarrow> Pdu" where
  "handle_get_bulk r w req max_size =
     (let total = length (variable_bindings req);
          n = min (min (clamp_i32 (error_status req)) MAX_BULK_NON_REPEATERS) total;
          max_rep = min (clamp_i32 (error_index req)) MAX_BULK_REPETITIONS;
          budget = bulk_response_budget max_size;
          names = map vb_name (variable_bindings req);
          (acc, budget_hit) = next_loop r w budget (take n names) ([], 0);
          acc = (if \<not> budget_hit \<and> n < total \<and> 0 < max_rep
                 then bulk_repeat r w budget max_rep (drop n names) acc else acc)
      in response_pdu req 0 0 (fst acc))"

fun set_loop :: "'w MibRegistry \<Rightarrow> nat \<Rightarrow> VarBind list \<Rightarrow> 'w \<Rightarrow> (i32 \<times> i32) \<times> 'w" where
  "set_loop r i [] w = ((error_status_code NoError, 0), w)"
| "set_loop r i (vb # vbs) w =
     (case scalar r (vb_name vb) of
        Some h \<Rightarrow>
          let (outcome, w) = h_set h (vb_value vb) w in
          if outcome \<noteq> SetOk then ((error_status_code (to_error_status outcome), of_nat (i + 1)), w)
          else set_loop r (i + 1) vbs w
      | None \<Rightarrow> ((error_status_code NotWritable, of_nat (i + 1)), w))"

definition handle_set :: "'w MibRegistry \<Rightarrow> 'w \<Rightarrow> Pdu \<Rightarrow> bool \<Rightarrow> Pdu \<times> 'w" where
  "handle_set r w req writable =
     (if \<not> writable
      then (response_pdu req (error_status_code NoAccess) (of_bool (variable_bindings req \<noteq> [])) (variable_bindings req), w)
      else let ((es, ei), w) = set_loop r 0 (variable_bindings req) w in
        (response_pdu req es ei (variable_bindings req), w))"

definition dispatch_pdu :: "'w MibRegistry \<Rightarrow> 'w \<Rightarrow> Pdu \<Rightarrow> bool \<Rightarrow> i32 \<Rightarrow> Pdu \<times> 'w" where
  "dispatch_pdu r w req writable max_size =
     (case pdu_kind req of
        GetRequest \<Rightarrow> (handle_get r w req max_size, w)
      | GetNextRequest \<Rightarrow> (handle_get_next r w req max_size, w)
      | GetBulkRequest \<Rightarrow> (handle_get_bulk r w req max_size, w)
      | SetRequest \<Rightarrow> handle_set r w req writable
      | Response \<Rightarrow> (response_pdu req (error_status_code GenErr) 0 [], w)
      | Report \<Rightarrow> (response_pdu req (error_status_code GenErr) 0 [], w)
      | SnmpV2Trap \<Rightarrow> (response_pdu req 0 0 [], w)
      | InformRequest \<Rightarrow> (response_pdu req 0 0 [], w))"

section \<open>Verification of a request\<close>

definition zero_auth :: "nat \<Rightarrow> Message \<Rightarrow> Message" where
  "zero_auth n m = m\<lparr>msg_security := (msg_security m)\<lparr>auth_params := replicate n 0\<rparr>\<rparr>"

definition plain_scoped :: "UsmError \<Rightarrow> Message \<Rightarrow> (SnmpError, ScopedPdu) result" where
  "plain_scoped e m = (case msg_data m of Plain b \<Rightarrow> scoped_from_bytes b | Encrypted _ \<Rightarrow> Inl (Usm e))"

definition decrypt_scoped :: "Crypto \<Rightarrow> UserKeys \<Rightarrow> Message \<Rightarrow> (SnmpError, ScopedPdu) result" where
  "decrypt_scoped c keys m =
     (case msg_data m of
        Plain _ \<Rightarrow> Inl (Usm DecryptionError)
      | Encrypted b \<Rightarrow> (case u_priv (k_user keys) of
            None \<Rightarrow> Inl (Usm UnsupportedSecLevel)
          | Some (proto, _) \<Rightarrow>
              if length (priv_params (msg_security m)) \<noteq> 8 then Inl (Usm DecryptionError)
              else case decrypt c proto (k_priv_kul keys) (engine_boots (msg_security m)) (engine_time (msg_security m))
                     (priv_params (msg_security m)) b of
                Inl _ \<Rightarrow> Inl (Usm DecryptionError)
              | Inr buf \<Rightarrow> scoped_from_bytes buf))"

definition usm_verify :: "Crypto \<Rightarrow> instant \<Rightarrow> 'w Agent \<Rightarrow> Message \<Rightarrow> SecurityLevel \<Rightarrow> (SnmpError, ScopedPdu) result" where
  "usm_verify c now ag m level =
     (case a_users ag (from_utf8_lossy (user_name (msg_security m))) of
        None \<Rightarrow> Inl (Usm UnknownUserName)
      | Some keys \<Rightarrow>
          if level \<noteq> security_level (k_user keys) then Inl (Usm UnsupportedSecLevel)
          else if level = NoAuthNoPriv then plain_scoped UnsupportedSecLevel m
          else case u_auth (k_user keys) of
            None \<Rightarrow> Inl (Usm UnsupportedSecLevel)
          | Some (proto, _) \<Rightarrow>
              and_then (check_time_window now (a_clock ag) (engine_boots (msg_security m)) (engine_time (msg_security m))) (\<lambda>_.
              let received_tag = auth_params (msg_security m) in
              if length received_tag \<noteq> digest_len proto then Inl (Usm WrongDigest)
              else and_then (auth_digest c proto (k_auth_kul keys) (message_to_bytes (zero_auth (digest_len proto) m))) (\<lambda>computed.
                if \<not> digests_match received_tag computed then Inl (Usm WrongDigest)
                else if level = AuthPriv then decrypt_scoped c keys m
                else plain_scoped DecryptionError m)))"

section \<open>Replies\<close>

definition extract_request_id :: "Message \<Rightarrow> i32 option" where
  "extract_request_id m =
     (case msg_data m of
        Plain b \<Rightarrow> (case scoped_from_bytes b of Inr s \<Rightarrow> Some (request_id (scoped_pdu s)) | Inl _ \<Rightarrow> None)
      | Encrypted _ \<Rightarrow> None)"

definition stats_oid :: "UsmError \<Rightarrow> string" where
  "stats_oid e =
     (case e of
        UnsupportedSecLevel \<Rightarrow> ''1.3.6.1.6.3.15.1.1.1.0''
      | NotInTimeWindow \<Rightarrow> ''1.3.6.1.6.3.15.1.1.2.0''
      | UnknownUserName \<Rightarrow> ''1.3.6.1.6.3.15.1.1.3.0''
      | UnknownEngineId \<Rightarrow> ''1.3.6.1.6.3.15.1.1.4.0''
      | WrongDigest \<Rightarrow> ''1.3.6.1.6.3.15.1.1.5.0''
      | DecryptionError \<Rightarrow> ''1.3.6.1.6.3.15.1.1.6.0'')"

definition build_report :: "'w Agent \<Rightarrow> Message \<Rightarrow> UsmError \<Rightarrow> (SnmpError, ScopedPdu) result" where
  "build_report ag m e =
     and_then (oid_from_str (stats_oid e)) (\<lambda>oid.
       Inr \<lparr>context_engine_id = a_engine_id ag, context_name = [],
            scoped_pdu = \<lparr>pdu_kind = Report,
              request_id = (case extract_request_id m of Some i \<Rightarrow> i | None \<Rightarrow> 0),
              error_status = 0, error_index = 0,
              variable_bindings = [\<lparr>vb_name = oid, vb_value = V_Counter32 (counter_of e (a_counters ag))\<rparr>]\<rparr>\<rparr>)"

definition reply_global :: "Message \<Rightarrow> byte \<Rightarrow> GlobalData" where
  "reply_global request flags =
     \<lparr>msg_id = msg_id (msg_global request),
      msg_max_size = (if sint (msg_max_size (msg_global request)) < 484 then 484 else msg_max_size (msg_global request)),
      msg_flags = flags, msg_security_model = SECURITY_MODEL_USM\<rparr>"

text \<open>\<open>now\<close> is the reading for the security parameters.\<close>

definition assemble_auth :: "Crypto \<Rightarrow> 'w Agent \<Rightarrow> instant \<Rightarrow> Message \<Rightarrow> bytes \<Rightarrow> bytes \<Rightarrow> AuthProtocol \<Rightarrow> bytes
    \<Rightarrow> bytes option \<Rightarrow> (SnmpError, bytes) result" where
  "assemble_auth c ag now request body user proto kul priv_info =
     (let flags = (if priv_info \<noteq> None then FLAG_AUTH OR FLAG_PRIV else FLAG_AUTH);
          sec = \<lparr>engine_id = a_engine_id ag, engine_boots = ec_boots (a_clock ag), engine_time = clock_time now (a_clock ag),
                 user_name = user, auth_params = replicate (digest_len proto) 0,
                 priv_params = (case priv_info of Some salt \<Rightarrow> salt | None \<Rightarrow> [])\<rparr>;
          m = \<lparr>msg_global = reply_global request flags, msg_security = sec,
               msg_data = (if priv_info \<noteq> None then Encrypted body else Plain body)\<rparr>
      in and_then (auth_digest c proto kul (message_to_bytes m)) (\<lambda>tag.
           Inr (message_to_bytes (m\<lparr>msg_security := sec\<lparr>auth_params := tag\<rparr>\<rparr>))))"

text \<open>\<open>now_enc\<close> is the clock reading for the cipher, \<open>now\<close> the later one for the security parameters.\<close>

definition build_response_message :: "Crypto \<Rightarrow> 'w Agent \<Rightarrow> instant \<Rightarrow> instant \<Rightarrow> bytes \<Rightarrow> Message \<Rightarrow> ScopedPdu \<Rightarrow> SecurityLevel
    \<Rightarrow> UserKeys option \<Rightarrow> (SnmpError, bytes) result" where
  "build_response_message c ag now_enc now salt request scoped level user_keys =
     and_then (scoped_to_bytes scoped) (\<lambda>scoped_bytes.
     case level of
       NoAuthNoPriv \<Rightarrow>
         Inr (message_to_bytes
           \<lparr>msg_global = reply_global request 0,
            msg_security = \<lparr>engine_id = a_engine_id ag, engine_boots = ec_boots (a_clock ag),
              engine_time = clock_time now (a_clock ag),
              user_name = (case user_keys of Some k \<Rightarrow> u_name (k_user k) | None \<Rightarrow> []),
              auth_params = [], priv_params = []\<rparr>,
            msg_data = Plain scoped_bytes\<rparr>)
     | AuthNoPriv \<Rightarrow> (case user_keys of
           None \<Rightarrow> Inl (Usm UnknownUserName)
         | Some keys \<Rightarrow> (case u_auth (k_user keys) of
               None \<Rightarrow> Inl (Usm UnsupportedSecLevel)
             | Some (proto, _) \<Rightarrow>
                 assemble_auth c ag now request scoped_bytes (u_name (k_user keys)) proto (k_auth_kul keys) None))
     | AuthPriv \<Rightarrow> (case user_keys of
           None \<Rightarrow> Inl (Usm UnknownUserName)
         | Some keys \<Rightarrow> (case u_auth (k_user keys) of
               None \<Rightarrow> Inl (Usm UnsupportedSecLevel)
             | Some (proto, _) \<Rightarrow> (case u_priv (k_user keys) of
                   None \<Rightarrow> Inl (Usm UnsupportedSecLevel)
                 | Some (pproto, _) \<Rightarrow>
                     and_then (encrypt c pproto (k_priv_kul keys) (ec_boots (a_clock ag)) (clock_time now_enc (a_clock ag)) salt scoped_bytes)
                       (\<lambda>ciphertext.
                         assemble_auth c ag now request ciphertext (u_name (k_user keys)) proto (k_auth_kul keys) (Some salt))))))"

section \<open>One datagram\<close>

record datagram_input =
  i_peer :: IpAddr
  i_now_limit :: instant
  i_now_check :: instant
  i_now_encrypt :: instant
  i_now_reply :: instant
  i_salt :: bytes

definition bump_counter :: "UsmError \<Rightarrow> 'w Agent \<Rightarrow> (SnmpError, 'w Agent) result" where
  "bump_counter e ag = and_then (record_usm e (a_counters ag)) (\<lambda>cs. Inr (ag\<lparr>a_counters := cs\<rparr>))"

text \<open>A reply is the bytes handed to \<open>send_to\<close>.  An error is logged by the caller; a panic ends the process.\<close>

type_synonym 'w outcome = "(SnmpError, bytes option) result \<times> 'w Agent"

definition report_reply :: "Crypto \<Rightarrow> datagram_input \<Rightarrow> Message \<Rightarrow> UsmError \<Rightarrow> 'w Agent \<Rightarrow> 'w outcome" where
  "report_reply c i m e ag =
     (and_then (build_report ag m e) (\<lambda>scoped.
      and_then (build_response_message c ag (i_now_encrypt i) (i_now_reply i) (i_salt i) m scoped NoAuthNoPriv None) (\<lambda>reply.
        Inr (Some reply))), ag)"

definition answer :: "Crypto \<Rightarrow> datagram_input \<Rightarrow> Message \<Rightarrow> SecurityLevel \<Rightarrow> ScopedPdu \<Rightarrow> 'w Agent \<Rightarrow> 'w outcome" where
  "answer c i m level scoped ag =
     (let name = from_utf8_lossy (user_name (msg_security m));
          writable = (case a_users ag name of Some k \<Rightarrow> u_writable (k_user k) | None \<Rightarrow> False);
          (response, w) = dispatch_pdu (a_registry ag) (a_world ag) (scoped_pdu scoped) writable (msg_max_size (msg_global m));
          ag = ag\<lparr>a_world := w\<rparr>;
          resp_scoped = \<lparr>context_engine_id = a_engine_id ag, context_name = context_name scoped, scoped_pdu = response\<rparr>
      in (and_then (build_response_message c ag (i_now_encrypt i) (i_now_reply i) (i_salt i) m resp_scoped level (a_users ag name))
            (\<lambda>reply. Inr (Some reply)), ag))"

definition handle_datagram :: "Crypto \<Rightarrow> F64 \<Rightarrow> datagram_input \<Rightarrow> bytes \<Rightarrow> 'w Agent \<Rightarrow> 'w outcome" where
  "handle_datagram c f i bs ag =
     (case message_from_bytes bs of
        Inl _ \<Rightarrow> (Inr None, ag)
      | Inr m \<Rightarrow>
          let level = (case from_flags (msg_flags (msg_global m)) of Inr l \<Rightarrow> l | Inl _ \<Rightarrow> NoAuthNoPriv) in
          if engine_id (msg_security m) = [] then
            (case bump_counter UnknownEngineId ag of
               Inl e \<Rightarrow> (Inl e, ag)
             | Inr ag \<Rightarrow>
                 let (allowed, lim) = limiter_allow f (i_peer i) (i_now_limit i) (a_limiter ag);
                     ag = ag\<lparr>a_limiter := lim\<rparr>
                 in if \<not> allowed then (Inr None, ag) else report_reply c i m UnknownEngineId ag)
          else if engine_id (msg_security m) \<noteq> a_engine_id ag then
            (case bump_counter UnknownEngineId ag of Inl e \<Rightarrow> (Inl e, ag) | Inr ag \<Rightarrow> (Inr None, ag))
          else case usm_verify c (i_now_check i) ag m level of
            Inr scoped \<Rightarrow> answer c i m level scoped ag
          | Inl (Usm e) \<Rightarrow>
              (case bump_counter e ag of
                 Inl p \<Rightarrow> (Inl p, ag)
               | Inr ag \<Rightarrow>
                   if reportable_bit (msg_global m) \<and> (case build_report ag m e of Inr _ \<Rightarrow> True | Inl _ \<Rightarrow> False)
                   then report_reply c i m e ag
                   else (Inr None, ag))
          | Inl e \<Rightarrow> (Inl e, ag))"

section \<open>The receive loop\<close>

datatype agent_event = Shutdown | RecvError | Received bytes datagram_input

text \<open>
  One round of the loop per event, until the shutdown; the replies are those handed to the socket, with their
  destinations.  An error of \<open>handle_datagram\<close> is only logged; a panic aborts the process, which is the flag of the result.
\<close>

fun run_loop :: "Crypto \<Rightarrow> F64 \<Rightarrow> agent_event list \<Rightarrow> 'w Agent \<Rightarrow> (IpAddr \<times> bytes) list \<times> bool \<times> 'w Agent" where
  "run_loop c f [] ag = ([], False, ag)"
| "run_loop c f (Shutdown # es) ag = ([], False, ag)"
| "run_loop c f (RecvError # es) ag = run_loop c f es ag"
| "run_loop c f (Received bs i # es) ag =
     (case handle_datagram c f i bs ag of
        (Inl Panic, ag) \<Rightarrow> ([], True, ag)
      | (Inr (Some reply), ag) \<Rightarrow> (let (rs, p, ag) = run_loop c f es ag in ((i_peer i, reply) # rs, p, ag))
      | (_, ag) \<Rightarrow> run_loop c f es ag)"

end
