(* ===== verification/Snmp_Properties.thy ===== *)
theory Snmp_Properties
  imports Snmp_Agent
begin

text \<open>
  What the SNMP agent guarantees: only genuine requests are served, its replies verify at the other end, and
  neither its replies nor its rate limiter grow without bound.
\<close>

section \<open>Genuine requests\<close>

text \<open>
  A message that the security model must let pass: a known user, at exactly the level provisioned for that user; unless
  that level asks for nothing, a fresh message whose tag is the code over the message under the user's key; and a
  payload that is, or decrypts to, the scoped data unit.
\<close>

definition genuine :: "Crypto \<Rightarrow> instant \<Rightarrow> 'w Agent \<Rightarrow> Message \<Rightarrow> UserKeys \<Rightarrow> ScopedPdu \<Rightarrow> bool" where
  "genuine c now ag m keys scoped \<longleftrightarrow>
     a_users ag (from_utf8_lossy (user_name (msg_security m))) = Some keys
     \<and> engine_id (msg_security m) = a_engine_id ag
     \<and> from_flags (msg_flags (msg_global m)) = Inr (security_level (k_user keys))
     \<and> (security_level (k_user keys) \<noteq> NoAuthNoPriv \<longrightarrow>
          (\<exists>proto pw. u_auth (k_user keys) = Some (proto, pw)
             \<and> check_time_window now (a_clock ag) (engine_boots (msg_security m)) (engine_time (msg_security m)) = Inr ()
             \<and> auth_params (msg_security m)
                 = take (digest_len proto) (c_hmac c proto (k_auth_kul keys) (message_to_bytes (zero_auth (digest_len proto) m)))
             \<and> length (auth_params (msg_security m)) = digest_len proto))
     \<and> (if security_level (k_user keys) = AuthPriv
         then decrypt_scoped c keys m = Inr scoped
         else \<exists>b. msg_data m = Plain b \<and> scoped_from_bytes b = Inr scoped)"

lemma plain_scoped_Inr: "plain_scoped e m = Inr s \<longleftrightarrow> (\<exists>b. msg_data m = Plain b \<and> scoped_from_bytes b = Inr s)"
  by (auto simp: plain_scoped_def split: MessageData.splits)

lemma auth_digest_Inr: "auth_digest c p k m = Inr d \<longleftrightarrow>
    digest_len p \<le> length (c_hmac c p k m) \<and> d = take (digest_len p) (c_hmac c p k m)"
  by (auto simp: auth_digest_def Let_def)

text \<open>An illegal flag combination is treated as no security at all, but its payload is then encrypted and refused.\<close>

lemma illegal_flags_priv: "from_flags f = Inl e \<Longrightarrow> f AND FLAG_PRIV \<noteq> 0"
proof -
  assume "from_flags f = Inl e"
  then have f: "f AND 0b11 \<noteq> 0b00" "f AND 0b11 \<noteq> 0b01" "f AND 0b11 \<noteq> 0b11"
    by (auto simp: from_flags_def Let_def split: if_splits)
  show "f AND FLAG_PRIV \<noteq> 0"
  proof
    assume p: "f AND FLAG_PRIV = 0"
    have "f AND 0b11 = (f AND FLAG_PRIV) OR (f AND 0b01)"
      unfolding FLAG_PRIV_def by (simp add: bit.conj_disj_distrib [symmetric])
    then have "f AND 0b11 = f AND 1" using p by simp
    then show False using f by (simp add: and_one_eq mod_2_eq_odd split: if_splits)
  qed
qed

lemma usm_verify_genuine:
  assumes "message_from_bytes bs = Inr m" "engine_id (msg_security m) = a_engine_id ag"
    and "level = (case from_flags (msg_flags (msg_global m)) of Inr l \<Rightarrow> l | Inl _ \<Rightarrow> NoAuthNoPriv)"
    and v: "usm_verify c now ag m level = Inr scoped"
  shows "\<exists>keys. genuine c now ag m keys scoped"
proof -
  obtain keys where k: "a_users ag (from_utf8_lossy (user_name (msg_security m))) = Some keys"
    "level = security_level (k_user keys)"
    using v by (auto simp: usm_verify_def split: option.splits if_splits)
  have fl: "from_flags (msg_flags (msg_global m)) = Inr level"
  proof (cases "from_flags (msg_flags (msg_global m))")
    case (Inl e)
    then have "priv_bit (msg_global m)" using illegal_flags_priv by (simp add: priv_bit_def)
    then obtain b where "msg_data m = Encrypted b"
      using message_from_bytes_ok [OF assms(1)] by (auto simp: payload_ok_def split: MessageData.splits)
    moreover have "level = NoAuthNoPriv" using Inl assms(3) by simp
    ultimately show ?thesis using v k by (simp add: usm_verify_def plain_scoped_def)
  qed (use assms(3) in simp)
  show ?thesis
  proof (cases "level = NoAuthNoPriv")
    case True
    then show ?thesis using v k fl assms(2) by (auto simp: usm_verify_def genuine_def plain_scoped_Inr)
  next
    case False
    obtain proto pw where "u_auth (k_user keys) = Some (proto, pw)"
      using False k by (auto simp: security_level_def split: option.splits)
    then show ?thesis using v k fl False assms(2)
      by (auto simp: usm_verify_def genuine_def plain_scoped_Inr and_then_Inr auth_digest_Inr digests_match_def Let_def
          split: if_splits)
  qed
qed

lemma dispatch_world: "snd (dispatch_pdu r w req writable mx) \<noteq> w \<Longrightarrow> pdu_kind req = SetRequest \<and> writable"
  by (cases "pdu_kind req") (auto simp: dispatch_pdu_def handle_set_def split: if_splits)

lemma bump_counter_frame:
  "bump_counter e ag = Inr ag' \<Longrightarrow> a_world ag' = a_world ag \<and> a_engine_id ag' = a_engine_id ag \<and> a_users ag' = a_users ag
     \<and> a_registry ag' = a_registry ag \<and> a_clock ag' = a_clock ag \<and> a_limiter ag' = a_limiter ag"
  by (auto simp: bump_counter_def and_then_Inr)

lemma report_reply_state: "report_reply c i m e ag = (res, ag') \<Longrightarrow> ag' = ag \<and> (res, ag') = report_reply c i m e ag'"
  by (auto simp: report_reply_def)

lemma answer_world:
  "a_users ag (from_utf8_lossy (user_name (msg_security m))) = Some keys \<Longrightarrow>
     a_world (snd (answer c i m l scoped ag)) = snd (dispatch_pdu (a_registry ag) (a_world ag) (scoped_pdu scoped)
       (u_writable (k_user keys)) (msg_max_size (msg_global m)))"
  by (simp add: answer_def Let_def case_prod_beta)

text \<open>The two ways a datagram can end: served as a genuine request, or turned away.\<close>

lemma handle_datagram_cases:
  assumes "handle_datagram c f i bs ag = (res, ag')"
  shows "(\<exists>m keys scoped. message_from_bytes bs = Inr m \<and> genuine c (i_now_check i) ag m keys scoped
           \<and> (res, ag') = answer c i m (security_level (k_user keys)) scoped ag)
    \<or> (a_world ag' = a_world ag \<and> (\<forall>reply. res = Inr (Some reply) \<longrightarrow>
         (\<exists>m e. message_from_bytes bs = Inr m \<and> (res, ag') = report_reply c i m e ag')))"
proof (cases "message_from_bytes bs")
  case (Inl e)
  then show ?thesis using assms by (auto simp: handle_datagram_def)
next
  case (Inr m)
  define level where "level = (case from_flags (msg_flags (msg_global m)) of Inr l \<Rightarrow> l | Inl _ \<Rightarrow> NoAuthNoPriv)"
  show ?thesis
  proof (cases "engine_id (msg_security m) = []")
    case True
    then show ?thesis using assms Inr
      by (fastforce simp: handle_datagram_def Let_def split: sum.splits prod.splits if_splits
          dest: bump_counter_frame report_reply_state)
  next
    case nonempty: False
    show ?thesis
    proof (cases "engine_id (msg_security m) = a_engine_id ag")
      case False
      then show ?thesis using assms Inr nonempty
        by (auto simp: handle_datagram_def Let_def split: sum.splits dest!: bump_counter_frame)
    next
      case eid: True
      show ?thesis
      proof (cases "usm_verify c (i_now_check i) ag m level")
        case (Inr scoped)
        obtain keys where g: "genuine c (i_now_check i) ag m keys scoped"
          using usm_verify_genuine [OF \<open>message_from_bytes bs = Inr m\<close> eid level_def Inr] by auto
        then have l: "level = security_level (k_user keys)" by (simp add: genuine_def level_def)
        have "handle_datagram c f i bs ag = answer c i m level scoped ag"
          using Inr \<open>message_from_bytes bs = Inr m\<close> nonempty eid by (simp add: handle_datagram_def level_def [symmetric])
        then have "(res, ag') = answer c i m (security_level (k_user keys)) scoped ag" using assms l by simp
        then show ?thesis using g \<open>message_from_bytes bs = Inr m\<close> by blast
      next
        case (Inl e)
        then show ?thesis using assms \<open>message_from_bytes bs = Inr m\<close> nonempty eid
          by (cases e) (fastforce simp: handle_datagram_def level_def [symmetric] split: sum.splits if_splits
            dest: bump_counter_frame report_reply_state)+
      qed
    qed
  qed
qed

text \<open>The reply to a request that is turned away: a report at the lowest level, without user name, with one counter.\<close>

definition bare_report :: "'w Agent \<Rightarrow> Message \<Rightarrow> UsmError \<Rightarrow> instant \<Rightarrow> bytes \<Rightarrow> bool" where
  "bare_report ag m e now reply \<longleftrightarrow>
     (\<exists>oid b. oid_from_str (stats_oid e) = Inr oid
       \<and> scoped_to_bytes \<lparr>context_engine_id = a_engine_id ag, context_name = [],
            scoped_pdu = \<lparr>pdu_kind = Report, request_id = (case extract_request_id m of Some i \<Rightarrow> i | None \<Rightarrow> 0),
              error_status = 0, error_index = 0,
              variable_bindings = [\<lparr>vb_name = oid, vb_value = V_Counter32 (counter_of e (a_counters ag))\<rparr>]\<rparr>\<rparr> = Inr b
       \<and> reply = message_to_bytes
           \<lparr>msg_global = reply_global m 0,
            msg_security = \<lparr>engine_id = a_engine_id ag, engine_boots = ec_boots (a_clock ag),
              engine_time = clock_time now (a_clock ag), user_name = [], auth_params = [], priv_params = []\<rparr>,
            msg_data = Plain b\<rparr>)"

lemma report_reply_bare: "(Inr (Some reply), ag') = report_reply c i m e ag' \<Longrightarrow> bare_report ag' m e (i_now_reply i) reply"
proof -
  assume "(Inr (Some reply), ag') = report_reply c i m e ag'"
  then have "and_then (build_report ag' m e) (\<lambda>scoped.
      and_then (build_response_message c ag' (i_now_encrypt i) (i_now_reply i) (i_salt i) m scoped NoAuthNoPriv None)
        (\<lambda>reply. Inr (Some reply))) = Inr (Some reply)"
    unfolding report_reply_def by (metis fst_conv)
  then show ?thesis by (auto simp: build_report_def build_response_message_def and_then_Inr bare_report_def)
qed

section \<open>Replies verify\<close>

lemma payload_shorter: "length (payload (msg_data m)) < length (message_to_bytes m)"
  using tlv_longer [of "message_body m" SEQUENCE] by (simp add: message_to_bytes_eq message_body_def)

lemma scoped_bytes_sequence: "scoped_to_bytes s = Inr b \<Longrightarrow> \<exists>body. b = tlv SEQUENCE body"
  using scoped_to_bytes_eq by blast

lemma zero_auth_update: "zero_auth n (m\<lparr>msg_security := s\<rparr>) = m\<lparr>msg_security := s\<lparr>auth_params := replicate n 0\<rparr>\<rparr>"
  by (simp add: zero_auth_def)

text \<open>What the assembly of an authenticated reply gives: a message that is read back and carries its own code.\<close>

lemma assemble_auth_reads:
  assumes "assemble_auth c ag now request body user proto kul info = Inr reply" "length reply < 2 ^ 64"
    and "info = None \<Longrightarrow> \<exists>b. body = tlv SEQUENCE b"
  obtains m where "message_from_bytes reply = Inr m" "reply = message_to_bytes m"
    "msg_data m = (if info = None then Plain body else Encrypted body)"
    "engine_boots (msg_security m) = ec_boots (a_clock ag)" "engine_time (msg_security m) = clock_time now (a_clock ag)"
    "user_name (msg_security m) = user" "priv_params (msg_security m) = (case info of Some salt \<Rightarrow> salt | None \<Rightarrow> [])"
    "length (auth_params (msg_security m)) = digest_len proto"
    "auth_digest c proto kul (message_to_bytes (zero_auth (digest_len proto) m)) = Inr (auth_params (msg_security m))"
proof -
  let ?sec = "\<lparr>engine_id = a_engine_id ag, engine_boots = ec_boots (a_clock ag), engine_time = clock_time now (a_clock ag),
      user_name = user, auth_params = replicate (digest_len proto) 0,
      priv_params = (case info of Some salt \<Rightarrow> salt | None \<Rightarrow> [])\<rparr>"
  let ?base = "\<lparr>msg_global = reply_global request (if info \<noteq> None then FLAG_AUTH OR FLAG_PRIV else FLAG_AUTH), msg_security = ?sec,
      msg_data = (if info \<noteq> None then Encrypted body else Plain body)\<rparr>"
  obtain tag where t: "auth_digest c proto kul (message_to_bytes ?base) = Inr tag"
      "reply = message_to_bytes (?base\<lparr>msg_security := ?sec\<lparr>auth_params := tag\<rparr>\<rparr>)"
    using assms(1) unfolding assemble_auth_def Let_def and_then_Inr by auto
  let ?m = "?base\<lparr>msg_security := ?sec\<lparr>auth_params := tag\<rparr>\<rparr>"
  have ok: "payload_ok ?m"
    using assms(3) by (auto simp: payload_ok_def priv_bit_def reply_global_def FLAG_AUTH_def FLAG_PRIV_def)
  have rd: "message_from_bytes reply = Inr ?m" unfolding t(2) by (rule message_from_to_bytes [OF ok]) (use assms(2) t(2) in simp)
  have z: "zero_auth (digest_len proto) ?m = ?base" unfolding zero_auth_update by simp
  have len: "length tag = digest_len proto" using t(1) by (auto simp: auth_digest_Inr)
  show thesis
  proof (rule that [OF rd t(2)])
    show "auth_digest c proto kul (message_to_bytes (zero_auth (digest_len proto) ?m)) = Inr (auth_params (msg_security ?m))"
      unfolding z using t(1) by simp
  qed (use len in auto)
qed

lemma reply_plain_verifies:
  assumes "scoped_to_bytes scoped = Inr b" "length b < 2 ^ 64" "msg_data m = Plain b"
  shows "plain_scoped e m = Inr scoped"
  using assms scoped_from_to_bytes by (simp add: plain_scoped_def)

lemma reply_verifies_lemma:
  assumes reply: "build_response_message c ag now_enc now salt request scoped (security_level (k_user keys)) (Some keys) = Inr reply"
    and fits: "length reply < 2 ^ 64" and salt: "length salt = 8"
    and second: "clock_time now_enc (a_clock ag) = clock_time now (a_clock ag)"
    and cfb: "\<And>k iv d. c_cfb_dec c k iv (c_cfb_enc c k iv d) = d" "\<And>k iv d. length (c_cfb_enc c k iv d) = length d"
    and peer: "a_users peer (from_utf8_lossy (u_name (k_user keys))) = Some keys"
      "check_time_window peer_now (a_clock peer) (ec_boots (a_clock ag)) (clock_time now (a_clock ag)) = Inr ()"
  shows "\<exists>m. message_from_bytes reply = Inr m \<and> usm_verify c peer_now peer m (security_level (k_user keys)) = Inr scoped"
proof -
  obtain b where b: "scoped_to_bytes scoped = Inr b" using reply by (auto simp: build_response_message_def and_then_Inr)
  obtain body where body: "b = tlv SEQUENCE body" using scoped_bytes_sequence [OF b] by auto
  show ?thesis
  proof (cases "security_level (k_user keys)")
    case NoAuthNoPriv
    let ?m = "\<lparr>msg_global = reply_global request 0,
        msg_security = \<lparr>engine_id = a_engine_id ag, engine_boots = ec_boots (a_clock ag), engine_time = clock_time now (a_clock ag),
          user_name = u_name (k_user keys), auth_params = [], priv_params = []\<rparr>, msg_data = Plain b\<rparr>"
    have r: "reply = message_to_bytes ?m" using reply b NoAuthNoPriv by (simp add: build_response_message_def)
    have "payload_ok ?m" using body by (auto simp: payload_ok_def priv_bit_def reply_global_def)
    then have "message_from_bytes reply = Inr ?m" unfolding r by (rule message_from_to_bytes) (use fits r in simp)
    moreover have "length b < 2 ^ 64" using payload_shorter [of ?m] fits r by (simp add: payload_def)
    ultimately show ?thesis using NoAuthNoPriv peer reply_plain_verifies [OF b, of ?m] by (simp add: usm_verify_def)
  next
    case AuthNoPriv
    then obtain proto pw where a: "u_auth (k_user keys) = Some (proto, pw)"
      by (auto simp: security_level_def split: option.splits)
    have "assemble_auth c ag now request b (u_name (k_user keys)) proto (k_auth_kul keys) None = Inr reply"
      using reply b AuthNoPriv a by (simp add: build_response_message_def)
    from assemble_auth_reads [OF this fits] body obtain m where m: "message_from_bytes reply = Inr m" "reply = message_to_bytes m"
      "msg_data m = Plain b" "engine_boots (msg_security m) = ec_boots (a_clock ag)" "engine_time (msg_security m) = clock_time now (a_clock ag)"
      "user_name (msg_security m) = u_name (k_user keys)" "length (auth_params (msg_security m)) = digest_len proto"
      "auth_digest c proto (k_auth_kul keys) (message_to_bytes (zero_auth (digest_len proto) m)) = Inr (auth_params (msg_security m))"
      by auto
    have "length b < 2 ^ 64" using payload_shorter [of m] fits m by (simp add: payload_def)
    then have "usm_verify c peer_now peer m AuthNoPriv = Inr scoped"
      using AuthNoPriv peer a m reply_plain_verifies [OF b _ m(3)] by (simp add: usm_verify_def digests_match_def)
    then show ?thesis using m(1) AuthNoPriv by auto
  next
    case AuthPriv
    then obtain proto pw pproto ppw where a: "u_auth (k_user keys) = Some (proto, pw)" "u_priv (k_user keys) = Some (pproto, ppw)"
      by (auto simp: security_level_def split: option.splits)
    obtain e where e: "encrypt c pproto (k_priv_kul keys) (ec_boots (a_clock ag)) (clock_time now (a_clock ag)) salt b = Inr e"
      "assemble_auth c ag now request e (u_name (k_user keys)) proto (k_auth_kul keys) (Some salt) = Inr reply"
      using reply b AuthPriv a second by (auto simp: build_response_message_def and_then_Inr)
    from assemble_auth_reads [OF e(2) fits] obtain m where m: "message_from_bytes reply = Inr m" "reply = message_to_bytes m"
      "msg_data m = Encrypted e" "engine_boots (msg_security m) = ec_boots (a_clock ag)" "engine_time (msg_security m) = clock_time now (a_clock ag)"
      "user_name (msg_security m) = u_name (k_user keys)" "priv_params (msg_security m) = salt"
      "length (auth_params (msg_security m)) = digest_len proto"
      "auth_digest c proto (k_auth_kul keys) (message_to_bytes (zero_auth (digest_len proto) m)) = Inr (auth_params (msg_security m))"
      by auto
    have "length e = length b" using e(1) cfb(2) by (auto simp: encrypt_def split: PrivProtocol.splits if_splits)
    moreover have "length e < 2 ^ 64" using payload_shorter [of m] fits m tlv_longer [of e OCTET_STRING] by (simp add: payload_def)
    ultimately have "scoped_from_bytes b = Inr scoped" using scoped_from_to_bytes [OF b] by simp
    then have "decrypt_scoped c keys m = Inr scoped"
      using m a salt decrypt_encrypt [OF cfb(1) e(1)] by (simp add: decrypt_scoped_def)
    then have "usm_verify c peer_now peer m AuthPriv = Inr scoped"
      using AuthPriv peer a m by (simp add: usm_verify_def digests_match_def)
    then show ?thesis using m(1) AuthPriv by auto
  qed
qed

section \<open>Size of replies\<close>

abbreviation total_len :: "VarBind list \<Rightarrow> nat" where
  "total_len vbs \<equiv> sum_list (map encoded_varbind_len vbs)"

definition in_budget :: "nat \<Rightarrow> VarBind list \<times> nat \<Rightarrow> bool" where
  "in_budget budget acc \<longleftrightarrow> snd acc = min u64_max (total_len (fst acc))
     \<and> (length (fst acc) \<le> 1 \<or> total_len (fst acc) \<le> budget)"

lemma budget_bounds: "64 \<le> bulk_response_budget mx" "bulk_response_budget mx \<le> 64995"
  by (auto simp: bulk_response_budget_def Let_def MAX_BULK_RESPONSE_BYTES_def MAX_DATAGRAM_def BULK_RESPONSE_OVERHEAD_def)

lemma in_budget_start [simp]: "in_budget budget ([], 0)"
  by (simp add: in_budget_def)

lemma try_push_in_budget:
  assumes "in_budget budget acc" "try_push budget vb acc = Some acc'" "budget < u64_max"
  shows "in_budget budget acc' \<and> length (fst acc') = length (fst acc) + 1"
proof -
  obtain bs used where acc: "acc = (bs, used)" by (cases acc)
  have u: "used = min u64_max (total_len bs)" using assms(1) acc by (simp add: in_budget_def)
  have s: "sat_add u64_max used (encoded_varbind_len vb) = min u64_max (total_len bs + encoded_varbind_len vb)"
    by (simp add: u sat_add_def min_def)
  have a: "acc' = (bs @ [vb], min u64_max (total_len bs + encoded_varbind_len vb))"
    and b: "bs = [] \<or> min u64_max (total_len bs + encoded_varbind_len vb) \<le> budget"
    using assms(2) acc s by (auto simp: try_push_def Let_def split: if_splits)
  then have "bs = [] \<or> total_len bs + encoded_varbind_len vb \<le> budget" using assms(3) by auto
  then show ?thesis using a acc by (auto simp: in_budget_def)
qed

lemma get_loop_in_budget: "in_budget budget acc \<Longrightarrow> budget < u64_max \<Longrightarrow> get_loop r w budget vbs acc = Some acc' \<Longrightarrow> in_budget budget acc'"
  by (induction vbs arbitrary: acc) (auto split: option.splits dest: try_push_in_budget)

lemma next_loop_in_budget:
  "in_budget budget acc \<Longrightarrow> budget < u64_max \<Longrightarrow> next_loop r w budget ns acc = (acc', hit) \<Longrightarrow>
     in_budget budget acc' \<and> length (fst acc') \<le> length (fst acc) + length ns"
proof (induction ns arbitrary: acc)
  case (Cons n ns)
  show ?case
  proof (cases "try_push budget (next_binding r w n) acc")
    case None
    then show ?thesis using Cons.prems by auto
  next
    case (Some acc1)
    note t = try_push_in_budget [OF Cons.prems(1) Some Cons.prems(2)]
    have "next_loop r w budget ns acc1 = (acc', hit)" using Cons.prems(3) Some by simp
    from Cons.IH [OF _ Cons.prems(2) this] t show ?thesis by auto
  qed
qed simp

lemma bulk_pass_in_budget:
  "in_budget budget acc \<Longrightarrow> budget < u64_max \<Longrightarrow> bulk_pass r w budget cs acc = (cs', acc', ends, hit) \<Longrightarrow>
     in_budget budget acc' \<and> length (fst acc') \<le> length (fst acc) + length cs \<and> length cs' = length cs"
proof (induction cs arbitrary: acc cs' acc' ends hit)
  case (Cons cur cs)
  obtain cur' resp at_end where h: "(case registry_next r w cur of
        Inr (Some (o1, v)) \<Rightarrow> (o1, \<lparr>vb_name = o1, vb_value = v\<rparr>, False)
      | _ \<Rightarrow> (cur, \<lparr>vb_name = cur, vb_value = V_EndOfMibView\<rparr>, True)) = (cur', resp, at_end)"
    using prod_cases3 by blast
  show ?case
  proof (cases "try_push budget resp acc")
    case None
    then show ?thesis using Cons.prems h by auto
  next
    case (Some acc1)
    obtain cs1 acc2 ends1 hit1 where p: "bulk_pass r w budget cs acc1 = (cs1, acc2, ends1, hit1)" using prod_cases4 by blast
    note t = try_push_in_budget [OF Cons.prems(1) Some Cons.prems(2)]
    have "cs' = cur' # cs1" "acc' = acc2" using Cons.prems(3) h Some p by auto
    then show ?thesis using Cons.IH [OF _ Cons.prems(2) p] t by auto
  qed
qed simp

lemma bulk_repeat_in_budget:
  "in_budget budget acc \<Longrightarrow> budget < u64_max \<Longrightarrow>
     in_budget budget (bulk_repeat r w budget reps cs acc)
     \<and> length (fst (bulk_repeat r w budget reps cs acc)) \<le> length (fst acc) + reps * length cs"
proof (induction reps arbitrary: cs acc)
  case (Suc reps)
  obtain cs1 acc1 ends hit where p: "bulk_pass r w budget cs acc = (cs1, acc1, ends, hit)" using prod_cases4 by blast
  note b = bulk_pass_in_budget [OF Suc.prems p]
  show ?case
  proof (cases "hit \<or> ends")
    case True
    then show ?thesis using p b by auto
  next
    case False
    then show ?thesis using p b Suc.IH [of acc1 cs1] Suc.prems(2) by auto
  qed
qed simp

lemma budget_small: "bulk_response_budget mx < u64_max"
  using budget_bounds(2) [of mx] by (simp add: u64_max_def)

lemma response_pdu_bindings [simp]: "variable_bindings (response_pdu req es ei vbs) = vbs"
  by (simp add: response_pdu_def)

lemma handle_get_in_budget: "\<exists>u. in_budget (bulk_response_budget mx) (variable_bindings (handle_get r w req mx), u)"
proof (cases "get_loop r w (bulk_response_budget mx) (variable_bindings req) ([], 0)")
  case None
  then show ?thesis by (intro exI [of _ 0]) (simp add: handle_get_def)
next
  case (Some acc)
  then show ?thesis using get_loop_in_budget [OF in_budget_start budget_small Some] by (cases acc) (auto simp: handle_get_def)
qed

lemma handle_get_next_in_budget: "\<exists>u. in_budget (bulk_response_budget mx) (variable_bindings (handle_get_next r w req mx), u)"
proof -
  obtain bs u hit where n: "next_loop r w (bulk_response_budget mx) (map vb_name (variable_bindings req)) ([], 0) = ((bs, u), hit)"
    using prod.exhaust by metis
  then show ?thesis using next_loop_in_budget [OF in_budget_start budget_small n] by (auto simp: handle_get_next_def)
qed

lemma handle_get_bulk_in_budget:
  "\<exists>u. in_budget (bulk_response_budget mx) (variable_bindings (handle_get_bulk r w req mx), u)
     \<and> length (variable_bindings (handle_get_bulk r w req mx)) \<le> 100 + 100 * length (variable_bindings req)"
proof -
  define total where "total = length (variable_bindings req)"
  define n where "n = min (min (clamp_i32 (error_status req)) MAX_BULK_NON_REPEATERS) total"
  define m where "m = min (clamp_i32 (error_index req)) MAX_BULK_REPETITIONS"
  define budget where "budget = bulk_response_budget mx"
  define names where "names = map vb_name (variable_bindings req)"
  have small: "budget < u64_max" unfolding budget_def by (rule budget_small)
  obtain acc hit where nl: "next_loop r w budget (take n names) ([], 0) = (acc, hit)"
    by (cases "next_loop r w budget (take n names) ([], 0)")
  have le: "m \<le> 100" "length (take n names) \<le> 100" "length (drop n names) \<le> total"
    by (auto simp: m_def n_def names_def total_def MAX_BULK_REPETITIONS_def MAX_BULK_NON_REPEATERS_def)
  have acc: "in_budget budget acc" "length (fst acc) \<le> 100"
    using next_loop_in_budget [OF in_budget_start small nl] le(2) by auto
  define final where "final = (if \<not> hit \<and> n < total \<and> 0 < m then bulk_repeat r w budget m (drop n names) acc else acc)"
  have v: "variable_bindings (handle_get_bulk r w req mx) = fst final"
    using nl by (simp add: handle_get_bulk_def Let_def total_def n_def m_def budget_def names_def final_def)
  note rep = bulk_repeat_in_budget [OF acc(1) small, of r w m "drop n names"]
  have "m * length (drop n names) \<le> 100 * total" by (intro mult_le_mono le)
  then have "length (fst final) \<le> 100 + 100 * total" using rep acc(2) unfolding final_def by auto
  moreover have "in_budget budget final" using rep acc(1) unfolding final_def by auto
  ultimately show ?thesis unfolding v budget_def [symmetric] total_def [symmetric] by (metis prod.collapse)
qed

section \<open>Discovery rate limiter\<close>

fun limiter_run :: "F64 \<Rightarrow> (IpAddr \<times> instant) list \<Rightarrow> limiter \<Rightarrow> bool list \<times> limiter" where
  "limiter_run f [] m = ([], m)"
| "limiter_run f ((ip, t) # qs) m =
     (let (a, m) = limiter_allow f ip t m; (as, m) = limiter_run f qs m in (a # as, m))"

text \<open>What is relied on of \<open>f64\<close> arithmetic: rounding is monotone and exact on small integers.\<close>

definition f64_ok :: "F64 \<Rightarrow> bool" where
  "f64_ok f \<longleftrightarrow> (\<forall>x y. x \<le> y \<longrightarrow> f_round f x \<le> f_round f y) \<and> (\<forall>n \<le> 5. f_round f (real n) = real n) \<and> f_secs f 0 = 0"

lemma evict_refilled_dom: "dom (evict_refilled f t m) \<subseteq> dom m"
  by (auto simp: evict_refilled_def split: option.splits if_splits)

lemma limiter_allow_dom:
  assumes "limiter_allow f src t m = (a, m')" "finite (dom m)" "card (dom m) \<le> DISCOVERY_MAX_SOURCES"
  shows "finite (dom m') \<and> card (dom m') \<le> DISCOVERY_MAX_SOURCES"
proof -
  define full where "full \<longleftrightarrow> DISCOVERY_MAX_SOURCES \<le> card (dom m) \<and> src \<notin> dom m"
  define m1 where "m1 = (if full then evict_refilled f t m else m)"
  have m1: "finite (dom m1)" "card (dom m1) \<le> card (dom m)"
    using assms(2) evict_refilled_dom [of f t m] by (auto simp: m1_def intro: finite_subset card_mono)
  have "m' = m1 \<or> (\<exists>b. m' = m1(src \<mapsto> b)) \<and> \<not> (full \<and> DISCOVERY_MAX_SOURCES \<le> card (dom m1))"
    using assms(1) unfolding limiter_allow_def full_def [symmetric] m1_def [symmetric] Let_def
    by (simp split: if_splits) blast+
  then show ?thesis
  proof (elim disjE conjE exE)
    fix b assume m': "m' = m1(src \<mapsto> b)" and room: "\<not> (full \<and> DISCOVERY_MAX_SOURCES \<le> card (dom m1))"
    have "src \<in> dom m1 \<or> card (dom m1) < DISCOVERY_MAX_SOURCES"
      using room m1(2) assms(3) by (cases full) (auto simp: full_def m1_def not_le)
    then have "card (insert src (dom m1)) \<le> DISCOVERY_MAX_SOURCES"
      using m1 assms(3) by (auto simp: card_insert_if insert_absorb)
    then show ?thesis using m' m1(1) by simp
  qed (use m1 assms(3) in simp)
qed

lemma limiter_run_dom:
  "limiter_run f qs m = (as, m') \<Longrightarrow> finite (dom m) \<Longrightarrow> card (dom m) \<le> DISCOVERY_MAX_SOURCES \<Longrightarrow>
     finite (dom m') \<and> card (dom m') \<le> DISCOVERY_MAX_SOURCES \<and> length as = length qs"
proof (induction qs arbitrary: m as)
  case (Cons q qs)
  obtain ip t where q: "q = (ip, t)" by (cases q)
  obtain a m1 where a: "limiter_allow f ip t m = (a, m1)" by (cases "limiter_allow f ip t m")
  obtain as1 where r: "limiter_run f qs m1 = (as1, m')" "as = a # as1" using Cons.prems(1) q a by (auto split: prod.splits)
  show ?case using Cons.IH [OF r(1)] limiter_allow_dom [OF a Cons.prems(2,3)] r(2) by auto
qed auto

text \<open>\<open>k\<close> replies sent to \<open>src\<close> at this instant leave at most \<open>5 - k\<close> tokens.\<close>

definition spent :: "IpAddr \<Rightarrow> nat \<Rightarrow> limiter \<Rightarrow> bool" where
  "spent src k m \<longleftrightarrow> k = 0 \<or> (k \<le> 5 \<and> (\<exists>b. m src = Some b \<and> db_tokens b \<le> real (5 - k)))"

abbreviation at_instant :: "instant \<Rightarrow> IpAddr \<Rightarrow> limiter \<Rightarrow> bool" where
  "at_instant t src m \<equiv> \<forall>b. m src = Some b \<longrightarrow> t \<le> db_last b"

lemma limiter_allow_spent:
  assumes "f64_ok f" "limiter_allow f ip t m = (a, m')" "spent src k m" "0 < k \<longrightarrow> at_instant t src m"
  shows "spent src (if a \<and> ip = src then k + 1 else k) m'
    \<and> (0 < (if a \<and> ip = src then k + 1 else k) \<longrightarrow> at_instant t src m')"
proof -
  have mono: "x \<le> y \<Longrightarrow> f_round f x \<le> f_round f y" and exact: "n \<le> 5 \<Longrightarrow> f_round f (real n) = real n" and z: "f_secs f 0 = 0"
    for x y n using assms(1) by (auto simp: f64_ok_def)
  define full where "full \<longleftrightarrow> DISCOVERY_MAX_SOURCES \<le> card (dom m) \<and> ip \<notin> dom m"
  define m1 where "m1 = (if full then evict_refilled f t m else m)"
  have keep: "m1 src = m src" if "0 < k"
  proof -
    obtain b where b: "m src = Some b" "db_tokens b \<le> real (5 - k)" using assms(3) \<open>0 < k\<close> by (auto simp: spent_def)
    then have "t - db_last b = 0" using assms(4) \<open>0 < k\<close> by simp
    then have "refilled f t b \<le> real (5 - k)"
      using mono [OF b(2)] exact [of "5 - k"] z by (simp add: refilled_def)
    then have "refilled f t b < real DISCOVERY_BURST" using \<open>0 < k\<close> by (simp add: DISCOVERY_BURST_def)
    then show ?thesis using b by (simp add: m1_def evict_refilled_def)
  qed
  define b where "b = (case m1 ip of Some b \<Rightarrow> b | None \<Rightarrow> \<lparr>db_tokens = real DISCOVERY_BURST, db_last = t\<rparr>)"
  define tokens where "tokens = min (refilled f t b) (real DISCOVERY_BURST)"
  have cases: "(a = False \<and> m' = m1) \<or> (a = (1 \<le> tokens) \<and>
      m' = m1(ip \<mapsto> \<lparr>db_tokens = (if 1 \<le> tokens then f_round f (tokens - 1) else tokens), db_last = t\<rparr>))"
    using assms(2)
    unfolding limiter_allow_def full_def [symmetric] m1_def [symmetric] Let_def b_def [symmetric] tokens_def [symmetric]
    by (simp split: if_splits)
  consider (other) "\<not> (a \<and> ip = src)" "m' src = m1 src"
    | (own) "ip = src" "a = (1 \<le> tokens)"
      "m' src = Some \<lparr>db_tokens = (if 1 \<le> tokens then f_round f (tokens - 1) else tokens), db_last = t\<rparr>"
    using cases by (cases "ip = src"; elim disjE conjE; simp)
  then show ?thesis
  proof cases
    case other
    then show ?thesis using keep assms(3,4) by (auto simp: spent_def)
  next
    case own
    have tk: "tokens \<le> real (5 - k)" if "k \<le> 5"
    proof (cases "k = 0")
      case True
      then show ?thesis by (simp add: tokens_def DISCOVERY_BURST_def)
    next
      case False
      then obtain b' where b': "m src = Some b'" "db_tokens b' \<le> real (5 - k)" using assms(3) by (auto simp: spent_def)
      then have "b = b'" "t - db_last b' = 0" using keep False own(1) assms(4) by (auto simp: b_def)
      then have "refilled f t b \<le> real (5 - k)"
        using mono [OF b'(2)] exact [of "5 - k"] z by (simp add: refilled_def)
      then show ?thesis by (simp add: tokens_def)
    qed
    have k5: "k \<le> 5" using assms(3) by (auto simp: spent_def)
    show ?thesis
    proof (cases "1 \<le> tokens")
      case g: True
      have "k + 1 \<le> 5" using g tk [OF k5] k5 by (cases "k = 5") auto
      moreover have "f_round f (tokens - 1) \<le> real (5 - (k + 1))"
        using mono [of "tokens - 1" "real (5 - (k + 1))"] exact [of "5 - (k + 1)"] tk [OF k5] \<open>k + 1 \<le> 5\<close> by (simp add: of_nat_diff)
      ultimately show ?thesis using own g by (auto simp: spent_def)
    next
      case False
      then show ?thesis using own tk [OF k5] k5 by (auto simp: spent_def)
    qed
  qed
qed

lemma limiter_run_spent:
  assumes "f64_ok f" "limiter_run f (map (\<lambda>ip. (ip, t)) ips) m = (as, m')" "spent src k m" "0 < k \<longrightarrow> at_instant t src m"
  shows "k + length (filter (\<lambda>(ip, a). ip = src \<and> a) (zip ips as)) \<le> 5"
  using assms(2-4)
proof (induction ips arbitrary: m as k)
  case Nil
  then show ?case by (auto simp: spent_def)
next
  case (Cons ip ips)
  obtain a m1 where a: "limiter_allow f ip t m = (a, m1)" by (cases "limiter_allow f ip t m")
  obtain as1 where r: "limiter_run f (map (\<lambda>ip. (ip, t)) ips) m1 = (as1, m')" "as = a # as1"
    using Cons.prems(1) a by (auto split: prod.splits)
  note s = limiter_allow_spent [OF assms(1) a Cons.prems(2,3)]
  then show ?case using Cons.IH [OF r(1) conjunct1 [OF s] conjunct2 [OF s]] r(2) by (auto split: if_splits)
qed

lemma limiter_run_append:
  "limiter_run f (ps @ qs) m = (let (as, m1) = limiter_run f ps m; (bs, m2) = limiter_run f qs m1 in (as @ bs, m2))"
  by (induction f ps m rule: limiter_run.induct) (auto simp: Let_def split: prod.splits)

section \<open>Start and receive loop\<close>

lemma derive_keys_total:
  assumes "\<And>p m. length (c_hash c p m) = auth_key_len p"
  shows "\<exists>ak pk. derive_keys c u eid = Some (ak, pk)"
proof (cases "u_auth u = None \<or> u_priv u = None")
  case True
  then show ?thesis by (auto simp: derive_keys_def split: option.split)
next
  case False
  then obtain a apw p ppw where "u_auth u = Some (a, apw)" "u_priv u = Some (p, ppw)" by auto
  then show ?thesis using derive_keys_lengths [of c u a apw p ppw eid] assms by auto
qed

lemma derive_all_total:
  "(\<And>p m. length (c_hash c p m) = auth_key_len p) \<Longrightarrow> \<exists>m'. derive_all c eid us m = Some m'"
proof (induction us arbitrary: m)
  case (Cons u us)
  obtain ak pk where "derive_keys c u eid = Some (ak, pk)" using derive_keys_total [of c u eid] Cons.prems by blast
  then show ?case using Cons.IH [OF Cons.prems] by simp
qed simp

lemma derive_all_users:
  "derive_all c eid us m = Some m' \<Longrightarrow> dom m' = dom m \<union> u_name ` set us
     \<and> (\<forall>n k. m' n = Some k \<longrightarrow> m n = Some k \<or> k_user k \<in> set us \<and> u_name (k_user k) = n
          \<and> derive_keys c (k_user k) eid = Some (k_auth_kul k, k_priv_kul k))"
proof (induction us arbitrary: m)
  case (Cons u us)
  obtain ak pk where k: "derive_keys c u eid = Some (ak, pk)" using Cons.prems by (auto split: option.splits)
  define uk where "uk = \<lparr>k_user = u, k_auth_kul = ak, k_priv_kul = pk\<rparr>"
  have r: "derive_all c eid us (m(u_name u \<mapsto> uk)) = Some m'" using Cons.prems k by (simp add: uk_def)
  have "k_user uk = u" "derive_keys c (k_user uk) eid = Some (k_auth_kul uk, k_priv_kul uk)" using k by (simp_all add: uk_def)
  then show ?case using Cons.IH [OF r] by (auto split: if_splits)
qed simp

lemma agent_start_Inr:
  "agent_start c b rnd bind_ok now w = Some (Inr ag) \<longleftrightarrow>
     ab_bind b \<noteq> None \<and> bind_ok \<and> (\<exists>eid users. builder_engine_id b rnd = Inr eid \<and> derive_all c eid (ab_users b) Map.empty = Some users
       \<and> ag = \<lparr>a_engine_id = eid, a_clock = engine_clock_new 1 now, a_users = users, a_registry = ab_registry b,
            a_counters = default_counters, a_limiter = Map.empty, a_world = w\<rparr>)"
  by (auto simp: agent_start_def split: option.splits sum.splits if_splits)

lemma handle_datagram_users:
  assumes "handle_datagram c f i bs ag = (res, ag')"
  shows "a_users ag' = a_users ag \<and> a_registry ag' = a_registry ag \<and> a_engine_id ag' = a_engine_id ag \<and> a_clock ag' = a_clock ag"
  using assms
  by (auto simp: handle_datagram_def answer_def Let_def split: sum.splits prod.splits if_splits SnmpError.splits
      dest!: bump_counter_frame report_reply_state)

lemma handle_datagram_world:
  assumes "handle_datagram c f i bs ag = (res, ag')" "a_world ag' \<noteq> a_world ag"
  shows "\<exists>m keys scoped. message_from_bytes bs = Inr m \<and> genuine c (i_now_check i) ag m keys scoped
    \<and> u_writable (k_user keys) \<and> pdu_kind (scoped_pdu scoped) = SetRequest"
  using handle_datagram_cases [OF assms(1)]
proof (elim disjE exE conjE)
  fix m keys scoped
  assume m: "message_from_bytes bs = Inr m" and g: "genuine c (i_now_check i) ag m keys scoped"
    and a: "(res, ag') = answer c i m (security_level (k_user keys)) scoped ag"
  have "a_world ag' = snd (dispatch_pdu (a_registry ag) (a_world ag) (scoped_pdu scoped) (u_writable (k_user keys)) (msg_max_size (msg_global m)))"
    using a g answer_world [of ag m keys c i _ scoped] unfolding genuine_def by (metis snd_conv)
  then show ?thesis using m g assms(2) dispatch_world by metis
qed (use assms(2) in simp)

lemma run_loop_Received:
  assumes "handle_datagram c f i bs ag = (res, ag1)" "run_loop c f (Received bs i # es) ag = (rs, p, ag')"
  shows "ag' = ag1 \<or> (\<exists>rs1. run_loop c f es ag1 = (rs1, p, ag'))"
  using assms by (auto split: sum.splits SnmpError.splits option.splits prod.splits)

lemma run_loop_read_only:
  "run_loop c f es ag = (rs, p, ag') \<Longrightarrow> (\<forall>n k. a_users ag n = Some k \<longrightarrow> \<not> u_writable (k_user k)) \<Longrightarrow> a_world ag' = a_world ag"
proof (induction es arbitrary: ag rs)
  case (Cons e es)
  show ?case
  proof (cases e)
    case (Received bs i)
    obtain res ag1 where h: "handle_datagram c f i bs ag = (res, ag1)" by (cases "handle_datagram c f i bs ag")
    have w: "a_world ag1 = a_world ag"
      using handle_datagram_world [OF h] Cons.prems(2) unfolding genuine_def by metis
    have u: "\<forall>n k. a_users ag1 n = Some k \<longrightarrow> \<not> u_writable (k_user k)" using handle_datagram_users [OF h] Cons.prems(2) by simp
    show ?thesis using run_loop_Received [OF h Cons.prems(1) [unfolded Received]] Cons.IH [OF _ u] w by metis
  qed (use Cons in auto)
qed simp

section \<open>Properties\<close>

text \<open>C2: Whatever arrives, the managed objects are read or changed only for a genuine request: from a known user, at exactly
  the security level provisioned for that user (no downgrade), and, when that level asks for authentication, fresh and with a
  tag that is the authentication code of the message under the user's key.  They are changed only by a \<open>SetRequest\<close>
  of a user with write permission.  Every other datagram leaves them alone and is answered, if at all, by a bare report that
  carries one error counter.\<close>

theorem only_genuine_requests_served:
  assumes "handle_datagram c f i bs ag = (res, ag')"
  shows "(\<exists>m keys scoped. message_from_bytes bs = Inr m \<and> genuine c (i_now_check i) ag m keys scoped
           \<and> (a_world ag' \<noteq> a_world ag \<longrightarrow> u_writable (k_user keys) \<and> pdu_kind (scoped_pdu scoped) = SetRequest))
    \<or> (a_world ag' = a_world ag
        \<and> (\<forall>reply. res = Inr (Some reply) \<longrightarrow> (\<exists>m e. message_from_bytes bs = Inr m \<and> bare_report ag' m e (i_now_reply i) reply)))"
proof (cases "a_world ag' = a_world ag")
  case True
  from handle_datagram_cases [OF assms] show ?thesis using True report_reply_bare by metis
next
  case False
  then show ?thesis using handle_datagram_world [OF assms] by blast
qed

section \<open>A concrete agent\<close>

text \<open>Stand-ins for the cryptography and \<open>f64\<close>, with the properties that the theorems ask of them.\<close>

definition demo_crypto :: Crypto where
  "demo_crypto = \<lparr>c_hash = \<lambda>p m. replicate (auth_key_len p) 7, c_hmac = \<lambda>p k m. replicate (auth_key_len p) 9,
     c_cfb_enc = \<lambda>k iv d. map (\<lambda>b. b XOR 0x55) d, c_cfb_dec = \<lambda>k iv d. map (\<lambda>b. b XOR 0x55) d\<rparr>"

definition demo_f64 :: F64 where
  "demo_f64 = \<lparr>f_round = \<lambda>x. x, f_secs = \<lambda>d. real d / 1000000000\<rparr>"

definition demo_input :: datagram_input where
  "demo_input = \<lparr>i_peer = V4 0, i_now_limit = 0, i_now_check = 0, i_now_encrypt = 0, i_now_reply = 0, i_salt = replicate 8 1\<rparr>"

definition demo_keys :: UserKeys where
  "demo_keys = \<lparr>k_user = auth_priv [98] HmacSha256 [1] Aes128 [2], k_auth_kul = replicate 32 7, k_priv_kul = replicate 16 7\<rparr>"

definition demo_agent :: "unit Agent" where
  "demo_agent = \<lparr>a_engine_id = [1], a_clock = engine_clock_new 7 0,
     a_users = [[97] \<mapsto> \<lparr>k_user = no_auth [97], k_auth_kul = [], k_priv_kul = []\<rparr>, [98] \<mapsto> demo_keys],
     a_registry = demo_registry, a_counters = default_counters, a_limiter = Map.empty, a_world = ()\<rparr>"

lemma lossy_ascii: "from_utf8_lossy [97] = [97]" "from_utf8_lossy [98] = [98]"
  by (simp_all add: from_utf8_lossy.simps utf8_width_def)

lemma demo_scoped_back: "scoped_from_bytes demo_bytes = Inr demo_scoped"
  by (rule scoped_from_to_bytes [OF demo_to_bytes]) (simp add: demo_bytes_def)

lemma demo_genuine:
  "message_from_bytes (message_to_bytes demo_message) = Inr demo_message
   \<and> genuine demo_crypto 0 demo_agent demo_message \<lparr>k_user = no_auth [97], k_auth_kul = [], k_priv_kul = []\<rparr> demo_scoped"
proof
  have "payload_ok demo_message"
    using scoped_bytes_sequence [OF demo_to_bytes] by (auto simp: payload_ok_def demo_message_def priv_bit_def)
  then show "message_from_bytes (message_to_bytes demo_message) = Inr demo_message"
    by (rule message_from_to_bytes [OF _ demo_message_length])
  show "genuine demo_crypto 0 demo_agent demo_message \<lparr>k_user = no_auth [97], k_auth_kul = [], k_priv_kul = []\<rparr> demo_scoped"
    by (simp add: genuine_def demo_agent_def demo_message_def lossy_ascii demo_scoped_back no_auth_def security_level_def
        from_flags_def)
qed

theorem only_genuine_requests_served_witness:
  "\<exists>res ag'. handle_datagram demo_crypto demo_f64 demo_input (message_to_bytes demo_message) demo_agent = (res, ag')
     \<and> (\<exists>keys. genuine demo_crypto 0 demo_agent demo_message keys demo_scoped) \<and> a_world ag' = a_world demo_agent
     \<and> ((\<exists>m keys scoped. message_from_bytes (message_to_bytes demo_message) = Inr m
            \<and> genuine demo_crypto (i_now_check demo_input) demo_agent m keys scoped)
        \<or> (\<forall>reply. res = Inr (Some reply) \<longrightarrow> (\<exists>m e. bare_report ag' m e (i_now_reply demo_input) reply)))"
proof -
  obtain res ag' where r: "handle_datagram demo_crypto demo_f64 demo_input (message_to_bytes demo_message) demo_agent = (res, ag')"
    by (cases "handle_datagram demo_crypto demo_f64 demo_input (message_to_bytes demo_message) demo_agent")
  have "a_world ag' = a_world demo_agent" by simp
  then show ?thesis using only_genuine_requests_served [OF r] r demo_genuine by blast
qed


definition demo_reply :: Message where
  "demo_reply = \<lparr>msg_global = reply_global demo_message (FLAG_AUTH OR FLAG_PRIV),
     msg_security = \<lparr>engine_id = [1], engine_boots = 7, engine_time = 0, user_name = [98], auth_params = replicate 24 9,
       priv_params = replicate 8 1\<rparr>,
     msg_data = Encrypted (map (\<lambda>b. b XOR 0x55) demo_bytes)\<rparr>"

lemma demo_level: "security_level (k_user demo_keys) = AuthPriv"
  by (simp add: demo_keys_def auth_priv_def security_level_def)

lemma demo_response: "build_response_message demo_crypto demo_agent 0 0 (replicate 8 1) demo_message demo_scoped AuthPriv (Some demo_keys)
    = Inr (message_to_bytes demo_reply)"
  by (simp add: build_response_message_def demo_to_bytes demo_keys_def auth_priv_def encrypt_def demo_crypto_def demo_agent_def
      engine_clock_new_def assemble_auth_def auth_digest_def digest_len_def auth_key_len_def demo_reply_def clock_time_def as_secs_def)

lemma more_int_bytes: "encode_int 484 = [1, 228]"
  by code_simp

lemma demo_reply_length: "length (message_to_bytes demo_reply) < 2 ^ 64"
  by (simp add: message_to_bytes_eq message_body_def global_body_def payload_def demo_reply_def demo_message_def reply_global_def
      to_inner_bytes_eq inner_body_def int_tlv_def i64_from_i32_def SNMP_VERSION_3_def SECURITY_MODEL_USM_def small_int_bytes
      more_int_bytes demo_bytes_def length_tlv_small)


text \<open>
  The agent does not amplify: the bindings of a reply other than to a \<open>SetRequest\<close> are at most one, or
  together within the budget computed from the size the peer announced, which is at most 64995 bytes; a \<open>GetBulkRequest\<close>
  is answered by at most 100 bindings plus 100 for each name requested, however many repetitions it asks for.\<close>

theorem response_bounded:
  assumes "pdu_kind req \<noteq> SetRequest" and "dispatch_pdu r w req writable mx = (resp, w')"
  shows "(length (variable_bindings resp) \<le> 1 \<or> total_len (variable_bindings resp) \<le> bulk_response_budget mx)
    \<and> bulk_response_budget mx \<le> 64995 \<and> w' = w
    \<and> (pdu_kind req = GetBulkRequest \<longrightarrow> length (variable_bindings resp) \<le> 100 + 100 * length (variable_bindings req))"
proof (cases "pdu_kind req")
  case GetRequest
  then show ?thesis using assms budget_bounds(2) handle_get_in_budget [of mx r w req] by (auto simp: dispatch_pdu_def in_budget_def)
next
  case GetNextRequest
  then show ?thesis using assms budget_bounds(2) handle_get_next_in_budget [of mx r w req] by (auto simp: dispatch_pdu_def in_budget_def)
next
  case GetBulkRequest
  then show ?thesis using assms budget_bounds(2) handle_get_bulk_in_budget [of mx r w req] by (auto simp: dispatch_pdu_def in_budget_def)
qed (use assms budget_bounds(2) in \<open>auto simp: dispatch_pdu_def\<close>)

definition demo_bulk :: Pdu where
  "demo_bulk = \<lparr>pdu_kind = GetBulkRequest, request_id = 1, error_status = 0, error_index = 2147483647,
     variable_bindings = [varbind_null (ObjectIdentifier [1, 3])]\<rparr>"

theorem response_bounded_witness:
  "length (variable_bindings (fst (dispatch_pdu demo_registry () demo_bulk False 1472))) \<le> 200"
proof -
  have k: "pdu_kind demo_bulk \<noteq> SetRequest" "pdu_kind demo_bulk = GetBulkRequest" "length (variable_bindings demo_bulk) = 1"
    by (simp_all add: demo_bulk_def)
  obtain resp w' where d: "dispatch_pdu demo_registry () demo_bulk False 1472 = (resp, w')"
    by (cases "dispatch_pdu demo_registry () demo_bulk False 1472")
  show ?thesis using response_bounded [OF k(1) d] k(2,3) d by simp
qed

text \<open>
  Discovery replies are limited per source: the limiter never tracks more than 4096 sources, whatever addresses are
  forged, and however the requests of one instant are interleaved with those of other sources and whatever went before, at most
  five of them are answered for one source.\<close>

theorem discovery_bounded:
  assumes "f64_ok f" and "limiter_run f (before @ map (\<lambda>ip. (ip, t)) ips) Map.empty = (answers, m)"
  shows "finite (dom m) \<and> card (dom m) \<le> 4096
    \<and> length (filter (\<lambda>(ip, a). ip = src \<and> a) (zip ips (drop (length before) answers))) \<le> 5"
proof -
  obtain as m1 where a: "limiter_run f before Map.empty = (as, m1)" by (cases "limiter_run f before Map.empty")
  obtain bs where b: "limiter_run f (map (\<lambda>ip. (ip, t)) ips) m1 = (bs, m)" "answers = as @ bs"
    using assms(2) a by (auto simp: limiter_run_append split: prod.splits)
  have "length as = length before" using limiter_run_dom [OF a] by simp
  moreover have "spent src 0 m1" by (simp add: spent_def)
  ultimately show ?thesis
    using limiter_run_spent [OF assms(1) b(1), of src 0] limiter_run_dom [OF assms(2)] b(2) by (simp add: DISCOVERY_MAX_SOURCES_def)
qed

theorem discovery_bounded_witness:
  "f64_ok demo_f64
   \<and> length (filter (\<lambda>(ip, a). ip = V4 1 \<and> a)
       (zip (replicate 9 (V4 1)) (fst (limiter_run demo_f64 (replicate 9 (V4 1, 0)) Map.empty)))) \<le> 5
   \<and> fst (limiter_allow demo_f64 (V4 1) 0 Map.empty)"
proof -
  have ok: "f64_ok demo_f64" by (simp add: f64_ok_def demo_f64_def)
  obtain as m where r: "limiter_run demo_f64 (replicate 9 (V4 1, 0)) Map.empty = (as, m)"
    by (cases "limiter_run demo_f64 (replicate 9 (V4 1, 0)) Map.empty")
  then have "limiter_run demo_f64 ([] @ map (\<lambda>ip. (ip, 0)) (replicate 9 (V4 1))) Map.empty = (as, m)" by simp
  from discovery_bounded [OF ok this, of "V4 1"]
  show ?thesis using ok r
    by (simp add: limiter_allow_def DISCOVERY_MAX_SOURCES_def refilled_def DISCOVERY_BURST_def demo_f64_def)
qed

text \<open>
  An agent built with no writable user is read-only for its whole life: whatever datagrams arrive, in whatever
  order and number, forged or genuine, the managed objects keep the state they had at the start; and starting it ends, with the
  keys of every configured user derived for the engine's identifier.\<close>

theorem read_only_agent:
  assumes "\<And>p m. length (c_hash c p m) = auth_key_len p" and "\<forall>u \<in> set (ab_users b). \<not> u_writable u"
  shows "\<exists>r. agent_start c b rnd bind_ok now w = Some r \<and> (\<forall>ag. r = Inr ag \<longrightarrow>
     dom (a_users ag) = u_name ` set (ab_users b)
     \<and> (\<forall>n k. a_users ag n = Some k \<longrightarrow> derive_keys c (k_user k) (a_engine_id ag) = Some (k_auth_kul k, k_priv_kul k))
     \<and> (\<forall>es. a_world (snd (snd (run_loop c f es ag))) = w))"
proof -
  have run: "a_world (snd (snd (run_loop c f es ag))) = w \<and> dom (a_users ag) = u_name ` set (ab_users b)
      \<and> (\<forall>n k. a_users ag n = Some k \<longrightarrow> derive_keys c (k_user k) (a_engine_id ag) = Some (k_auth_kul k, k_priv_kul k))"
    if st: "agent_start c b rnd bind_ok now w = Some (Inr ag)" for es ag
  proof -
    obtain rs p ag' where r: "run_loop c f es ag = (rs, p, ag')" by (cases "run_loop c f es ag")
    obtain eid users where d: "derive_all c eid (ab_users b) Map.empty = Some users" "a_users ag = users"
      "a_engine_id ag = eid" "a_world ag = w"
      using st by (auto simp: agent_start_Inr)
    then show ?thesis
      using derive_all_users [OF d(1)] run_loop_read_only [OF r] r assms(2) by auto
  qed
  have "agent_start c b rnd bind_ok now w \<noteq> None"
  proof (cases "builder_engine_id b rnd")
    case (Inr eid)
    then show ?thesis using derive_all_total [OF assms(1), of eid "ab_users b" Map.empty]
      by (auto simp: agent_start_def split: option.split)
  qed (simp add: agent_start_def split: option.split)
  then show ?thesis using run by blast
qed

definition demo_builder :: "bytes AgentBuilder" where
  "demo_builder = builder_add_user (auth_priv [98] HmacSha256 [1] Aes128 [2])
     (builder_add_scalar (ObjectIdentifier [1, 3, 6]) \<lparr>h_get = \<lambda>w. Inr (V_OctetString w), h_set = \<lambda>v w. (SetOk, [])\<rparr>
       (builder_set_engine_id [1] (builder_bind (V4 0, 161) builder_new)))"

theorem read_only_agent_witness:
  "\<exists>ag. agent_start demo_crypto demo_builder [] True 0 [5] = Some (Inr ag)
     \<and> a_world (snd (snd (run_loop demo_crypto demo_f64 [RecvError, Received [48] demo_input, Shutdown] ag))) = [5]"
proof -
  have len: "length (c_hash demo_crypto p m) = auth_key_len p" for p m by (simp add: demo_crypto_def)
  have ro: "\<forall>u \<in> set (ab_users demo_builder). \<not> u_writable u"
    by (simp add: demo_builder_def builder_add_user_def builder_add_scalar_def builder_set_engine_id_def builder_bind_def
        builder_new_def auth_priv_def)
  obtain users where "derive_all demo_crypto [1] (ab_users demo_builder) Map.empty = Some users"
    using derive_all_total [OF len] by blast
  then obtain ag where ag: "agent_start demo_crypto demo_builder [] True 0 [5] = Some (Inr ag)"
    by (simp add: agent_start_def builder_engine_id_def demo_builder_def builder_add_user_def builder_add_scalar_def
        builder_set_engine_id_def builder_bind_def builder_new_def)
  have "\<forall>es. a_world (snd (snd (run_loop demo_crypto demo_f64 es ag))) = [5]"
    using read_only_agent [OF len ro, of "[]" True 0 "[5]" demo_f64] ag by auto
  then show ?thesis using ag by blast
qed

end
