(* ===== verification/Known_Hosts.thy ===== *)
theory Known_Hosts
  imports Std_Strings Core_Errors
begin

text \<open>
  Host keys a profile trusts: \<open>crates/spt-trust/src/known_hosts.rs\<close> (parser, index, verifier and writer of
  \<open>known_hosts\<close> files) and \<open>sha256_pin.rs\<close> (pinned fingerprints).  Public keys, HMAC and base64 belong to
  third-party crates: their type and functions are parameters, collected in \<open>KeyLib\<close>.
\<close>

section \<open>Parameters\<close>

record 'k KeyLib =
  kl_from_openssh :: "string \<Rightarrow> 'k option"
  kl_to_openssh :: "'k \<Rightarrow> string option"
  kl_to_bytes :: "'k \<Rightarrow> string option"
  kl_fingerprint :: "'k \<Rightarrow> string"
  kl_hmac_sha1 :: "string \<Rightarrow> string \<Rightarrow> string"
  kl_b64_encode :: "string \<Rightarrow> string"
  kl_b64_decode :: "string \<Rightarrow> string option"

section \<open>Entries\<close>

datatype 'k KnownHostsResult = KH_Match | KH_Mismatch "'k list" | KH_NotFound | KH_Revoked

datatype Marker = CertAuthority | Revoked

record 'k Entry =
  e_marker :: "Marker option"
  e_host_field :: string
  e_key :: 'k

record HostIndex =
  hi_exact :: "string \<rightharpoonup> nat list"
  hi_needs_scan :: "nat list"

record 'k KnownHosts =
  kh_path :: "string option"
  kh_entries :: "'k Entry list"
  kh_index :: "HostIndex option"

definition keys_equal :: "'k KeyLib \<Rightarrow> 'k \<Rightarrow> 'k \<Rightarrow> bool" where
  "keys_equal lib a b =
     (case (kl_to_bytes lib a, kl_to_bytes lib b) of (Some x, Some y) \<Rightarrow> x = y | _ \<Rightarrow> False)"

definition format_host :: "string \<Rightarrow> nat \<Rightarrow> string" where
  "format_host host port = (if port = 22 then host else ''['' @ host @ '']:'' @ dec port)"

section \<open>Matching\<close>

fun glob_match :: "string \<Rightarrow> string \<Rightarrow> bool" where
  "glob_match [] [] = True"
| "glob_match [] (t # ts) = False"
| "glob_match (p # ps) ts =
     (if p = CHR ''*'' then
        (if glob_match ps ts then True
         else case ts of [] \<Rightarrow> False | t # ts' \<Rightarrow> glob_match (p # ps) ts')
      else case ts of
        [] \<Rightarrow> False
      | t # ts' \<Rightarrow> (p = CHR ''?'' \<or> ascii_lower p = ascii_lower t) \<and> glob_match ps ts')"

definition verify_hashed :: "'k KeyLib \<Rightarrow> string \<Rightarrow> string \<Rightarrow> string \<Rightarrow> nat \<Rightarrow> bool" where
  "verify_hashed lib salt_b64 hash_b64 host port =
     (case kl_b64_decode lib salt_b64 of
        None \<Rightarrow> False
      | Some salt \<Rightarrow> (case kl_b64_decode lib hash_b64 of
            None \<Rightarrow> False
          | Some want \<Rightarrow> kl_hmac_sha1 lib salt (format_host host port) = want))"

fun match_list :: "string \<Rightarrow> string list \<Rightarrow> bool \<Rightarrow> bool" where
  "match_list candidate [] positive_hit = positive_hit"
| "match_list candidate (raw # raws) positive_hit =
     (let pat = trim raw in
      if pat = [] then match_list candidate raws positive_hit
      else
        let (neg, pat) = (case strip_prefix ''!'' pat of Some r \<Rightarrow> (True, r) | None \<Rightarrow> (False, pat));
            m = glob_match (trim_matches CHR 0x22 pat) candidate
        in if m \<and> neg then False
           else match_list candidate raws (positive_hit \<or> m))"

definition host_matches :: "'k KeyLib \<Rightarrow> string \<Rightarrow> string \<Rightarrow> nat \<Rightarrow> bool" where
  "host_matches lib field host port =
     (case strip_prefix ''|1|'' field of
        Some rest \<Rightarrow> (case split_once CHR ''|'' rest of
            Some (salt_b64, hash_b64) \<Rightarrow> verify_hashed lib salt_b64 hash_b64 host port
          | None \<Rightarrow> False)
      | None \<Rightarrow> match_list (format_host host port) (split_on CHR '','' field) False)"

section \<open>Index\<close>

definition index_literal :: "nat \<Rightarrow> string \<Rightarrow> (string \<rightharpoonup> nat list) \<Rightarrow> (string \<rightharpoonup> nat list)" where
  "index_literal i raw m =
     (let pat = trim_matches CHR 0x22 (trim raw) in
      if pat = [] then m
      else let k = map ascii_lower pat in m(k \<mapsto> (case m k of Some is \<Rightarrow> is | None \<Rightarrow> []) @ [i]))"

definition index_one :: "HostIndex \<Rightarrow> nat \<Rightarrow> string \<Rightarrow> HostIndex" where
  "index_one idx i host_field =
     (if strip_prefix ''|1|'' host_field \<noteq> None
        \<or> CHR ''*'' \<in> set host_field \<or> CHR ''?'' \<in> set host_field \<or> CHR ''!'' \<in> set host_field
      then idx\<lparr>hi_needs_scan := hi_needs_scan idx @ [i]\<rparr>
      else idx\<lparr>hi_exact := fold (index_literal i) (split_on CHR '','' host_field) (hi_exact idx)\<rparr>)"

definition empty_index :: HostIndex where
  "empty_index = \<lparr>hi_exact = Map.empty, hi_needs_scan = []\<rparr>"

definition build_index :: "'k Entry list \<Rightarrow> HostIndex" where
  "build_index es = foldl (\<lambda>idx (i, e). index_one idx i (e_host_field e)) empty_index (enumerate 0 es)"

section \<open>Parsing, verifying, adding, printing\<close>

text \<open>The error of a line is discarded by the only caller, so \<open>None\<close> stands for it.\<close>

definition parse_line :: "'k KeyLib \<Rightarrow> string \<Rightarrow> 'k Entry option" where
  "parse_line lib line =
     (let (marker, rest) =
        (case strip_prefix ''@cert-authority'' line of
           Some after \<Rightarrow> (Some CertAuthority, trim_start after)
         | None \<Rightarrow> (case strip_prefix ''@revoked'' line of
               Some after \<Rightarrow> (Some Revoked, trim_start after)
             | None \<Rightarrow> (None, line)))
      in case split_ws rest of
           (host_field, None) \<Rightarrow> None
         | (host_field, Some key_blob) \<Rightarrow>
             map_option (\<lambda>k. \<lparr>e_marker = marker, e_host_field = host_field, e_key = k\<rparr>)
               (kl_from_openssh lib (trim key_blob)))"

definition parse_raw :: "'k KeyLib \<Rightarrow> string \<Rightarrow> 'k Entry list" where
  "parse_raw lib raw =
     (let line = trim raw in
      if line = [] \<or> hd line = CHR ''#'' then []
      else case parse_line lib line of Some e \<Rightarrow> [e] | None \<Rightarrow> [])"

definition kh_parse :: "'k KeyLib \<Rightarrow> string \<Rightarrow> 'k KnownHosts" where
  "kh_parse lib text =
     (let entries = concat (map (parse_raw lib) (str_lines text))
      in \<lparr>kh_path = None, kh_entries = entries, kh_index = Some (build_index entries)\<rparr>)"

definition kh_default :: "'k KnownHosts" where
  "kh_default = \<lparr>kh_path = None, kh_entries = [], kh_index = None\<rparr>"

text \<open>\<open>read\<close> is what \<open>fs::read_to_string\<close> returns for the path.\<close>

definition kh_load :: "'k KeyLib \<Rightarrow> string \<Rightarrow> (string, string) result \<Rightarrow> (spt_error, 'k KnownHosts) result" where
  "kh_load lib path read =
     (case read of
        Inl e \<Rightarrow> Inl (Err_RuntimeFailure (''read known_hosts '' @ [CHR 0x60] @ path @ [CHR 0x60] @ '': '' @ e))
      | Inr text \<Rightarrow> Inr ((kh_parse lib text)\<lparr>kh_path := Some path\<rparr>))"

record 'k scan =
  sc_found_host :: bool
  sc_stored :: "'k list"
  sc_matched_key :: bool

text \<open>\<open>None\<close> is the early return with \<open>Revoked\<close>.\<close>

definition consider_entry :: "'k KeyLib \<Rightarrow> 'k \<Rightarrow> 'k Entry \<Rightarrow> 'k scan \<Rightarrow> 'k scan option" where
  "consider_entry lib key e sc =
     (case e_marker e of
        Some Revoked \<Rightarrow> if keys_equal lib (e_key e) key then None else Some sc
      | Some CertAuthority \<Rightarrow> Some sc
      | None \<Rightarrow>
          Some (sc\<lparr>sc_found_host := True, sc_stored := sc_stored sc @ [e_key e],
                   sc_matched_key := sc_matched_key sc \<or> keys_equal lib (e_key e) key\<rparr>))"

fun scan_entries :: "'k KeyLib \<Rightarrow> 'k \<Rightarrow> 'k Entry list \<Rightarrow> 'k scan \<Rightarrow> 'k scan option" where
  "scan_entries lib key [] sc = Some sc"
| "scan_entries lib key (e # es) sc =
     (case consider_entry lib key e sc of None \<Rightarrow> None | Some sc \<Rightarrow> scan_entries lib key es sc)"

text \<open>
  The entries considered, in order.  The positions of the index are in range (\<open>index_in_range\<close> below); out of
  range the indexing would panic.
\<close>

definition candidates :: "'k KeyLib \<Rightarrow> 'k KnownHosts \<Rightarrow> string \<Rightarrow> nat \<Rightarrow> 'k Entry list" where
  "candidates lib kh host port =
     (case kh_index kh of
        Some idx \<Rightarrow>
          map ((!) (kh_entries kh))
            (case hi_exact idx (map ascii_lower (format_host host port)) of Some hits \<Rightarrow> hits | None \<Rightarrow> [])
          @ filter (\<lambda>e. host_matches lib (e_host_field e) host port) (map ((!) (kh_entries kh)) (hi_needs_scan idx))
      | None \<Rightarrow> filter (\<lambda>e. host_matches lib (e_host_field e) host port) (kh_entries kh))"

definition kh_verify :: "'k KeyLib \<Rightarrow> 'k KnownHosts \<Rightarrow> string \<Rightarrow> nat \<Rightarrow> 'k \<Rightarrow> 'k KnownHostsResult" where
  "kh_verify lib kh host port key =
     (case scan_entries lib key (candidates lib kh host port)
             \<lparr>sc_found_host = False, sc_stored = [], sc_matched_key = False\<rparr> of
        None \<Rightarrow> KH_Revoked
      | Some sc \<Rightarrow>
          if sc_matched_key sc then KH_Match
          else if sc_found_host sc then KH_Mismatch (sc_stored sc)
          else KH_NotFound)"

text \<open>\<open>salt\<close> are the 20 random bytes.\<close>

definition hash_host_random :: "'k KeyLib \<Rightarrow> string \<Rightarrow> string \<Rightarrow> string" where
  "hash_host_random lib salt host_text =
     ''|1|'' @ kl_b64_encode lib salt @ ''|'' @ kl_b64_encode lib (kl_hmac_sha1 lib salt host_text)"

definition kh_add :: "'k KeyLib \<Rightarrow> string \<Rightarrow> string \<Rightarrow> nat \<Rightarrow> 'k \<Rightarrow> bool \<Rightarrow> 'k KnownHosts \<Rightarrow> 'k KnownHosts" where
  "kh_add lib salt host port key hashed kh =
     (let host_field = (if hashed then hash_host_random lib salt (format_host host port) else format_host host port);
          e = \<lparr>e_marker = None, e_host_field = host_field, e_key = key\<rparr>
      in kh\<lparr>kh_index := map_option (\<lambda>idx. index_one idx (length (kh_entries kh)) host_field) (kh_index kh),
           kh_entries := kh_entries kh @ [e]\<rparr>)"

definition render_entry :: "'k KeyLib \<Rightarrow> 'k Entry \<Rightarrow> string" where
  "render_entry lib e =
     (case e_marker e of Some CertAuthority \<Rightarrow> ''@cert-authority '' | Some Revoked \<Rightarrow> ''@revoked '' | None \<Rightarrow> [])
     @ e_host_field e @ '' ''
     @ (case kl_to_openssh lib (e_key e) of Some s \<Rightarrow> s | None \<Rightarrow> []) @ [CHR 0x0A]"

definition render :: "'k KeyLib \<Rightarrow> 'k KnownHosts \<Rightarrow> string" where
  "render lib kh = concat (map (render_entry lib) (kh_entries kh))"

section \<open>Fingerprint pins\<close>

record Sha256HostPin =
  pins :: "string \<rightharpoonup> string list"

definition pin_new :: Sha256HostPin where
  "pin_new = \<lparr>pins = Map.empty\<rparr>"

definition format_host_key :: "string \<Rightarrow> nat \<Rightarrow> string" where
  "format_host_key host port = host @ '':'' @ dec port"

definition pin_insert :: "string \<Rightarrow> nat \<Rightarrow> string \<Rightarrow> Sha256HostPin \<Rightarrow> Sha256HostPin" where
  "pin_insert host port fp p =
     (let k = format_host_key host port
      in p\<lparr>pins := (pins p)(k \<mapsto> (case pins p k of Some fps \<Rightarrow> fps | None \<Rightarrow> []) @ [fp])\<rparr>)"

definition pins_for :: "string \<Rightarrow> nat \<Rightarrow> Sha256HostPin \<Rightarrow> string list option" where
  "pins_for host port p = pins p (format_host_key host port)"

definition pin_verify :: "'k KeyLib \<Rightarrow> Sha256HostPin \<Rightarrow> string \<Rightarrow> nat \<Rightarrow> 'k \<Rightarrow> 'k KnownHostsResult" where
  "pin_verify lib p host port key =
     (case pins p (format_host_key host port) of
        None \<Rightarrow> KH_NotFound
      | Some fps \<Rightarrow> if kl_fingerprint lib key \<in> set fps then KH_Match else KH_Mismatch [key])"

section \<open>Pattern language\<close>

text \<open>What a pattern means: a star any text, a question mark any byte, another byte itself up to ASCII case.\<close>

fun glob_lang :: "string \<Rightarrow> string set" where
  "glob_lang [] = {[]}"
| "glob_lang (p # ps) =
     (if p = CHR ''*'' then {xs @ ys | xs ys. ys \<in> glob_lang ps}
      else {x # ys | x ys. (p = CHR ''?'' \<or> ascii_lower p = ascii_lower x) \<and> ys \<in> glob_lang ps})"

lemma glob_lang_star: "ts \<in> glob_lang (CHR ''*'' # ps) \<longleftrightarrow> ts \<in> glob_lang ps \<or> (\<exists>t ts'. ts = t # ts' \<and> ts' \<in> glob_lang (CHR ''*'' # ps))"
proof
  assume "ts \<in> glob_lang (CHR ''*'' # ps)"
  then obtain xs ys where "ts = xs @ ys" "ys \<in> glob_lang ps" by auto
  then show "ts \<in> glob_lang ps \<or> (\<exists>t ts'. ts = t # ts' \<and> ts' \<in> glob_lang (CHR ''*'' # ps))" by (cases xs) auto
next
  assume "ts \<in> glob_lang ps \<or> (\<exists>t ts'. ts = t # ts' \<and> ts' \<in> glob_lang (CHR ''*'' # ps))"
  then show "ts \<in> glob_lang (CHR ''*'' # ps)"
  proof (elim disjE exE conjE)
    assume "ts \<in> glob_lang ps"
    then have "\<exists>xs ys. ts = xs @ ys \<and> ys \<in> glob_lang ps" by (intro exI [of _ "[]"] exI [of _ ts]) simp
    then show ?thesis by simp
  next
    fix t ts' assume t: "ts = t # ts'" "ts' \<in> glob_lang (CHR ''*'' # ps)"
    then obtain xs ys where "ts' = xs @ ys" "ys \<in> glob_lang ps" by auto
    then have "\<exists>xs ys. ts = xs @ ys \<and> ys \<in> glob_lang ps" using t(1) by (intro exI [of _ "t # xs"] exI [of _ ys]) simp
    then show ?thesis by simp
  qed
qed

lemma glob_match_iff: "glob_match ps ts \<longleftrightarrow> ts \<in> glob_lang ps"
proof (induction ps ts rule: glob_match.induct)
  case (3 p ps ts)
  show ?case
  proof (cases "p = CHR ''*''")
    case True
    then show ?thesis using 3 glob_lang_star [of ts ps] by (cases ts) (simp_all del: glob_lang.simps)
  next
    case False
    then show ?thesis using 3 by (cases ts) auto
  qed
qed auto

lemma glob_match_plain:
  "CHR ''*'' \<notin> set p \<Longrightarrow> CHR ''?'' \<notin> set p \<Longrightarrow> glob_match p t \<longleftrightarrow> map ascii_lower p = map ascii_lower t"
proof (induction p arbitrary: t)
  case Nil
  then show ?case by (cases t) auto
next
  case (Cons p ps)
  then show ?case by (cases t) auto
qed

section \<open>Index\<close>

abbreviation literal :: "string \<Rightarrow> string" where
  "literal raw \<equiv> trim_matches CHR 0x22 (trim raw)"

definition plain_field :: "string \<Rightarrow> bool" where
  "plain_field f \<longleftrightarrow> strip_prefix ''|1|'' f = None \<and> CHR ''*'' \<notin> set f \<and> CHR ''?'' \<notin> set f \<and> CHR ''!'' \<notin> set f"

definition names :: "string \<Rightarrow> string \<Rightarrow> bool" where
  "names f k \<longleftrightarrow> (\<exists>raw \<in> set (split_on CHR '','' f). literal raw \<noteq> [] \<and> map ascii_lower (literal raw) = k)"

abbreviation hits :: "(string \<rightharpoonup> nat list) \<Rightarrow> string \<Rightarrow> nat set" where
  "hits m k \<equiv> (case m k of Some is \<Rightarrow> set is | None \<Rightarrow> {})"

lemma trim_matches_chars: "set (trim_matches c s) \<subseteq> set s"
  by (auto simp: trim_matches_def dest!: set_dropWhileD)

lemma match_list_plain:
  assumes "candidate \<noteq> []" "\<forall>raw \<in> set raws. CHR ''*'' \<notin> set raw \<and> CHR ''?'' \<notin> set raw \<and> CHR ''!'' \<notin> set raw"
  shows "match_list candidate raws b \<longleftrightarrow>
    b \<or> (\<exists>raw \<in> set raws. literal raw \<noteq> [] \<and> map ascii_lower (literal raw) = map ascii_lower candidate)"
  using assms(2)
proof (induction raws arbitrary: b)
  case (Cons raw raws)
  have sub: "set (trim raw) \<subseteq> set raw" "set (literal raw) \<subseteq> set raw"
    using trim_chars [of raw] trim_matches_chars [of "CHR 0x22" "trim raw"] by auto
  have np: "strip_prefix ''!'' (trim raw) = None"
    using sub(1) Cons.prems by (cases "trim raw") (auto simp: strip_prefix_def)
  have g: "glob_match (literal raw) candidate \<longleftrightarrow> map ascii_lower (literal raw) = map ascii_lower candidate"
    using sub(2) Cons.prems by (intro glob_match_plain) auto
  have e: "trim raw = [] \<Longrightarrow> literal raw = []" by (simp add: trim_matches_def)
  show ?case using Cons.IH Cons.prems np g e assms(1) by (auto simp: Let_def)
qed simp

lemma host_matches_plain:
  assumes "plain_field f" "format_host host port \<noteq> []"
  shows "host_matches lib f host port \<longleftrightarrow> names f (map ascii_lower (format_host host port))"
proof -
  have "\<forall>raw \<in> set (split_on CHR '','' f). CHR ''*'' \<notin> set raw \<and> CHR ''?'' \<notin> set raw \<and> CHR ''!'' \<notin> set raw"
    using assms(1) split_on_chars [of _ "CHR '',''" f] by (auto simp: plain_field_def)
  from match_list_plain [OF assms(2) this] show ?thesis
    using assms(1) by (simp add: host_matches_def plain_field_def names_def)
qed

lemma hits_index_literals:
  "hits (fold (index_literal i) raws m) k =
     hits m k \<union> {j. j = i \<and> (\<exists>raw \<in> set raws. literal raw \<noteq> [] \<and> map ascii_lower (literal raw) = k)}"
proof (induction raws arbitrary: m)
  case (Cons raw raws)
  have "hits (index_literal i raw m) k = hits m k \<union> {j. j = i \<and> literal raw \<noteq> [] \<and> map ascii_lower (literal raw) = k}"
    by (auto simp: index_literal_def Let_def split: option.splits)
  then show ?case using Cons.IH [of "index_literal i raw m"] by auto
qed simp

lemma build_index_snoc: "build_index (es @ [e]) = index_one (build_index es) (length es) (e_host_field e)"
  by (simp add: build_index_def enumerate_append_eq)

lemma build_index_sound:
  "hits (hi_exact (build_index es)) k = {i. i < length es \<and> plain_field (e_host_field (es ! i)) \<and> names (e_host_field (es ! i)) k}
   \<and> set (hi_needs_scan (build_index es)) = {i. i < length es \<and> \<not> plain_field (e_host_field (es ! i))}"
proof (induction es rule: rev_induct)
  case Nil
  then show ?case by (simp add: build_index_def empty_index_def)
next
  case (snoc e es)
  have plain: "index_one idx i f = (if plain_field f
      then idx\<lparr>hi_exact := fold (index_literal i) (split_on CHR '','' f) (hi_exact idx)\<rparr>
      else idx\<lparr>hi_needs_scan := hi_needs_scan idx @ [i]\<rparr>)" for idx i f
    by (auto simp: index_one_def plain_field_def)
  let ?f = "e_host_field e" and ?idx = "build_index es"
  have h: "hits (hi_exact (index_one ?idx (length es) ?f)) k =
      hits (hi_exact ?idx) k \<union> {i. i = length es \<and> plain_field ?f \<and> names ?f k}"
    using hits_index_literals [of "length es" "split_on CHR '','' ?f" "hi_exact ?idx" k] by (simp add: plain names_def)
  have n: "set (hi_needs_scan (index_one ?idx (length es) ?f)) =
      set (hi_needs_scan ?idx) \<union> {i. i = length es \<and> \<not> plain_field ?f}"
    by (simp add: plain)
  have split: "{i. i < length (es @ [e]) \<and> P ((es @ [e]) ! i)} = {i. i < length es \<and> P (es ! i)} \<union> {i. i = length es \<and> P e}" for P
    by (auto simp: less_Suc_eq nth_append)
  show ?case
    unfolding build_index_snoc h n snoc.IH [THEN conjunct1] snoc.IH [THEN conjunct2]
    using split [of "\<lambda>x. plain_field (e_host_field x) \<and> names (e_host_field x) k"]
      split [of "\<lambda>x. \<not> plain_field (e_host_field x)"] by simp
qed

definition index_ok :: "'k KnownHosts \<Rightarrow> bool" where
  "index_ok kh \<longleftrightarrow> (\<forall>idx. kh_index kh = Some idx \<longrightarrow> idx = build_index (kh_entries kh))"

lemma index_ok_parse: "index_ok (kh_parse lib text)"
  by (simp add: index_ok_def kh_parse_def Let_def)

lemma index_ok_default: "index_ok kh_default"
  by (simp add: index_ok_def kh_default_def)

lemma index_ok_add: "index_ok kh \<Longrightarrow> index_ok (kh_add lib salt host port key hashed kh)"
  by (auto simp: index_ok_def kh_add_def Let_def build_index_snoc)

text \<open>No position of the index is out of range, so indexing the entries never panics.\<close>

lemma index_in_range:
  assumes "index_ok kh" "kh_index kh = Some idx"
  shows "\<forall>i \<in> hits (hi_exact idx) k \<union> set (hi_needs_scan idx). i < length (kh_entries kh)"
  using build_index_sound [of "kh_entries kh" k] assms by (auto simp: index_ok_def)

lemma set_candidates:
  assumes "index_ok kh" "format_host host port \<noteq> []"
  shows "set (candidates lib kh host port) = {e \<in> set (kh_entries kh). host_matches lib (e_host_field e) host port}"
proof (cases "kh_index kh")
  case None
  then show ?thesis by (auto simp: candidates_def)
next
  case (Some idx)
  let ?k = "map ascii_lower (format_host host port)"
  have idx: "idx = build_index (kh_entries kh)" using assms(1) Some by (simp add: index_ok_def)
  have c: "set (candidates lib kh host port) = (!) (kh_entries kh) ` hits (hi_exact idx) ?k
      \<union> {e \<in> (!) (kh_entries kh) ` set (hi_needs_scan idx). host_matches lib (e_host_field e) host port}"
    using Some by (auto simp: candidates_def split: option.splits)
  have img: "(!) (kh_entries kh) ` {i. i < length (kh_entries kh) \<and> P (kh_entries kh ! i)} = {e \<in> set (kh_entries kh). P e}" for P
    by (force simp: in_set_conv_nth)
  show ?thesis
    unfolding c idx build_index_sound [THEN conjunct1] build_index_sound [THEN conjunct2]
    using img [of "\<lambda>e. plain_field (e_host_field e) \<and> names (e_host_field e) ?k"] img [of "\<lambda>e. \<not> plain_field (e_host_field e)"]
      host_matches_plain [OF _ assms(2), where lib = lib]
    by auto
qed

section \<open>Verdicts\<close>

text \<open>The verdict as a question about the entries of the file that match the host, in any order.\<close>

definition revokes :: "'k KeyLib \<Rightarrow> 'k \<Rightarrow> 'k Entry \<Rightarrow> bool" where
  "revokes lib key e \<longleftrightarrow> e_marker e = Some Revoked \<and> keys_equal lib (e_key e) key"

definition verdict :: "'k KeyLib \<Rightarrow> 'k \<Rightarrow> 'k Entry list \<Rightarrow> 'k KnownHostsResult" where
  "verdict lib key ms =
     (let own = filter (\<lambda>e. e_marker e = None) ms
      in if \<exists>e \<in> set ms. revokes lib key e then KH_Revoked
         else if \<exists>e \<in> set own. keys_equal lib (e_key e) key then KH_Match
         else if own \<noteq> [] then KH_Mismatch (map e_key own)
         else KH_NotFound)"

definition kh_spec :: "'k KeyLib \<Rightarrow> 'k Entry list \<Rightarrow> string \<Rightarrow> nat \<Rightarrow> 'k \<Rightarrow> 'k KnownHostsResult" where
  "kh_spec lib es host port key = verdict lib key (filter (\<lambda>e. host_matches lib (e_host_field e) host port) es)"

text \<open>Equal verdicts, up to order and repetition of the keys reported with a mismatch.\<close>

definition same_verdict :: "'k KnownHostsResult \<Rightarrow> 'k KnownHostsResult \<Rightarrow> bool" where
  "same_verdict r s =
     (case (r, s) of (KH_Mismatch ks, KH_Mismatch ls) \<Rightarrow> set ks = set ls | _ \<Rightarrow> r = s)"

lemma scan_entries_eq:
  "scan_entries lib key es sc =
     (if \<exists>e \<in> set es. revokes lib key e then None
      else let own = filter (\<lambda>e. e_marker e = None) es in
        Some \<lparr>sc_found_host = sc_found_host sc \<or> own \<noteq> [], sc_stored = sc_stored sc @ map e_key own,
              sc_matched_key = sc_matched_key sc \<or> (\<exists>e \<in> set own. keys_equal lib (e_key e) key)\<rparr>)"
proof (induction es arbitrary: sc)
  case (Cons e es)
  show ?case
  proof (cases "e_marker e")
    case None
    then show ?thesis using Cons by (auto simp: consider_entry_def revokes_def Let_def)
  next
    case (Some m)
    then show ?thesis using Cons by (cases m) (auto simp: consider_entry_def revokes_def Let_def)
  qed
qed simp

lemma kh_verify_verdict: "kh_verify lib kh host port key = verdict lib key (candidates lib kh host port)"
  by (auto simp: kh_verify_def scan_entries_eq verdict_def Let_def)

lemma verdict_cong: "set ms = set ns \<Longrightarrow> same_verdict (verdict lib key ms) (verdict lib key ns)"
  unfolding verdict_def Let_def same_verdict_def by (simp add: filter_empty_conv)

lemma kh_verify_spec:
  "index_ok kh \<Longrightarrow> format_host host port \<noteq> [] \<Longrightarrow>
     same_verdict (kh_verify lib kh host port key) (kh_spec lib (kh_entries kh) host port key)"
  unfolding kh_verify_verdict kh_spec_def by (rule verdict_cong) (simp add: set_candidates)

section \<open>Text form\<close>

text \<open>What is asked of the key crate: the text of a key is one line that parses back to the key.\<close>

definition key_text_ok :: "'k KeyLib \<Rightarrow> 'k \<Rightarrow> bool" where
  "key_text_ok lib k \<longleftrightarrow>
     (\<exists>s. kl_to_openssh lib k = Some s \<and> kl_from_openssh lib s = Some k
        \<and> s \<noteq> [] \<and> visible (hd s) \<and> visible (last s) \<and> CHR 0x0A \<notin> set s)"

definition field_ok :: "string \<Rightarrow> bool" where
  "field_ok f \<longleftrightarrow> f \<noteq> [] \<and> (\<forall>c \<in> set f. visible c)"

definition entry_ok :: "'k KeyLib \<Rightarrow> 'k Entry \<Rightarrow> bool" where
  "entry_ok lib e \<longleftrightarrow> field_ok (e_host_field e) \<and> key_text_ok lib (e_key e)
     \<and> (e_marker e = None \<longrightarrow> hd (e_host_field e) \<noteq> CHR ''#'' \<and> hd (e_host_field e) \<noteq> CHR ''@'')"

lemma not_visible_LF [simp]: "\<not> visible CHR 0x0A"
  by (simp add: visible_def)

lemma parse_line_unmarked:
  assumes "field_ok f" "hd f \<noteq> CHR ''@''" "kl_from_openssh lib s = Some k" "s \<noteq> []" "visible (hd s)" "visible (last s)"
  shows "parse_line lib (f @ '' '' @ s) = Some \<lparr>e_marker = None, e_host_field = f, e_key = k\<rparr>"
proof -
  have "split_ws (f @ '' '' @ s) = (f, Some s)" using assms(1) split_ws_visible [of f s] by (simp add: field_ok_def)
  moreover have "strip_prefix ''@cert-authority'' (f @ '' '' @ s) = None" "strip_prefix ''@revoked'' (f @ '' '' @ s) = None"
    using assms(1,2) by (cases f; simp add: strip_prefix_def field_ok_def)+
  ultimately show ?thesis using assms(3-6) by (simp add: parse_line_def trim_visible)
qed

lemma parse_line_marked:
  assumes "field_ok f" "kl_from_openssh lib s = Some k" "s \<noteq> []" "visible (hd s)" "visible (last s)"
  shows "parse_line lib (''@cert-authority '' @ f @ '' '' @ s) = Some \<lparr>e_marker = Some CertAuthority, e_host_field = f, e_key = k\<rparr>"
    and "parse_line lib (''@revoked '' @ f @ '' '' @ s) = Some \<lparr>e_marker = Some Revoked, e_host_field = f, e_key = k\<rparr>"
proof -
  have "split_ws (f @ '' '' @ s) = (f, Some s)" using assms(1) split_ws_visible [of f s] by (simp add: field_ok_def)
  moreover have "trim_start ('' '' @ f @ '' '' @ s) = f @ '' '' @ s" using assms(1) by (cases f) (simp_all add: field_ok_def)
  ultimately show "parse_line lib (''@cert-authority '' @ f @ '' '' @ s) = Some \<lparr>e_marker = Some CertAuthority, e_host_field = f, e_key = k\<rparr>"
    and "parse_line lib (''@revoked '' @ f @ '' '' @ s) = Some \<lparr>e_marker = Some Revoked, e_host_field = f, e_key = k\<rparr>"
    using assms(2-5) by (simp_all add: parse_line_def strip_prefix_def trim_visible)
qed

text \<open>A printed entry is a line, without newline inside, that parses to the entry.\<close>

lemma render_entry_line:
  assumes "entry_ok lib e"
  shows "\<exists>l. render_entry lib e = l @ [CHR 0x0A] \<and> CHR 0x0A \<notin> set l \<and> parse_raw lib l = [e]"
proof -
  obtain s where s: "kl_to_openssh lib (e_key e) = Some s" "kl_from_openssh lib s = Some (e_key e)"
    "s \<noteq> []" "visible (hd s)" "visible (last s)" "CHR 0x0A \<notin> set s"
    using assms by (auto simp: entry_ok_def key_text_ok_def)
  let ?f = "e_host_field e"
  have f: "field_ok ?f" using assms by (simp add: entry_ok_def)
  define m where "m = (case e_marker e of Some CertAuthority \<Rightarrow> ''@cert-authority '' | Some Revoked \<Rightarrow> ''@revoked '' | None \<Rightarrow> [])"
  let ?l = "m @ ?f @ '' '' @ s"
  have "parse_line lib ?l = Some e"
  proof (cases "e_marker e")
    case None
    then show ?thesis using parse_line_unmarked [OF f _ s(2-5)] assms by (simp add: m_def entry_ok_def)
  next
    case (Some x)
    then show ?thesis using parse_line_marked [OF f s(2-5)] by (cases x) (simp_all add: m_def)
  qed
  moreover have "visible (hd ?l)" "hd ?l \<noteq> CHR ''#''" "last ?l = last s"
    using f s(3) assms by (auto simp: m_def entry_ok_def field_ok_def visible_def split: option.split Marker.split)
  ultimately have "parse_raw lib ?l = [e]" using s(3,5) by (simp add: parse_raw_def trim_visible)
  moreover have "CHR 0x0A \<notin> set ?l" using f s(6) by (auto simp: m_def field_ok_def split: option.split Marker.split)
  moreover have "render_entry lib e = ?l @ [CHR 0x0A]" by (simp add: render_entry_def s(1) m_def)
  ultimately show ?thesis by blast
qed

lemma kh_entries_parse: "kh_entries (kh_parse lib c) = concat (map (parse_raw lib) (str_lines c))"
  by (simp add: kh_parse_def Let_def)

lemma parse_raw_strip_cr [simp]: "parse_raw lib (strip_cr s) = parse_raw lib s"
  by (simp add: parse_raw_def)

lemma entries_append_line:
  "CHR 0x0A \<notin> set l \<Longrightarrow>
     concat (map (parse_raw lib) (str_lines (l @ CHR 0x0A # t))) = parse_raw lib l @ concat (map (parse_raw lib) (str_lines t))"
  by (simp add: str_lines_append split_on_notin)

lemma entries_render:
  "\<forall>e \<in> set es. entry_ok lib e \<Longrightarrow>
     concat (map (parse_raw lib) (str_lines (concat (map (render_entry lib) es)))) = es"
proof (induction es)
  case (Cons e es)
  then obtain l where l: "render_entry lib e = l @ [CHR 0x0A]" "CHR 0x0A \<notin> set l" "parse_raw lib l = [e]"
    using render_entry_line [of lib e] by auto
  then show ?case using Cons entries_append_line [OF l(2), of lib] by simp
qed simp

text \<open>What a newline at the end, missing or not, does not change.\<close>

lemma entries_terminated:
  "concat (map (parse_raw lib) (str_lines (c @ [CHR 0x0A]))) = concat (map (parse_raw lib) (str_lines c))"
  if "c = [] \<or> last c \<noteq> CHR 0x0A"
proof (cases "c = []")
  case True
  then show ?thesis by (simp add: str_lines_def parse_raw_def trim_def strip_cr_def)
next
  case False
  then have ne: "last (split_on CHR 0x0A c) \<noteq> []" using that split_on_last by blast
  obtain xs x where ps: "split_on CHR 0x0A c = xs @ [x]" by (metis append_butlast_last_id split_on_not_Nil)
  have "str_lines c = map strip_cr xs @ [x]" "str_lines (c @ [CHR 0x0A]) = map strip_cr (xs @ [x])"
    using ne str_lines_append [of c "[]"] by (simp_all add: str_lines_def Let_def ps)
  then show ?thesis by simp
qed

text \<open>Appending an entry to a file, as a new line, appends it to the entries.\<close>

lemma entries_append_entry:
  assumes "entry_ok lib e" "c = [] \<or> last c = CHR 0x0A"
  shows "kh_entries (kh_parse lib (c @ render_entry lib e)) = kh_entries (kh_parse lib c) @ [e]"
proof -
  obtain l where l: "render_entry lib e = l @ [CHR 0x0A]" "CHR 0x0A \<notin> set l" "parse_raw lib l = [e]"
    using render_entry_line [OF assms(1)] by auto
  show ?thesis
  proof (cases "c = []")
    case True
    then show ?thesis using entries_append_line [OF l(2), of lib "[]"] l by (simp add: kh_entries_parse)
  next
    case False
    then obtain c' where c: "c = c' @ [CHR 0x0A]" using assms(2) by (metis append_butlast_last_id)
    show ?thesis using entries_append_line [OF l(2), of lib "[]"] l str_lines_append [of c' "l @ [CHR 0x0A]"] str_lines_append [of c' "[]"]
      by (simp add: kh_entries_parse c)
  qed
qed

section \<open>Properties\<close>

text \<open>The files a program can hold: read from text, or empty, and extended by \<open>add\<close>.\<close>

inductive built :: "'k KeyLib \<Rightarrow> 'k KnownHosts \<Rightarrow> bool" for lib where
  built_default: "built lib kh_default"
| built_parse: "built lib (kh_parse lib text)"
| built_load: "kh_load lib path read = Inr kh \<Longrightarrow> built lib kh"
| built_add: "built lib kh \<Longrightarrow> built lib (kh_add lib salt host port key hashed kh)"

lemma built_index_ok: "built lib kh \<Longrightarrow> index_ok kh"
proof (induction rule: built.induct)
  case (built_load path read kh)
  then show ?case using index_ok_parse [of lib] by (auto simp: kh_load_def index_ok_def split: sum.splits)
qed (auto intro: index_ok_default index_ok_parse index_ok_add)

text \<open>C17: The lookup index is only an optimisation: for every file that was parsed and extended in any way, every host, port and
  key, the verdict found through the index is the one of a scan of all entries that match the host: revoked if one of them revokes
  the key, else a match if one has the key, else a mismatch that reports exactly the stored keys, else not found.  The entries need
  not be in order, and a revocation is never overtaken by an exact match.  (A lookup of the empty host name is excluded.)\<close>

theorem index_refines_scan:
  assumes "built lib kh" and "host \<noteq> []"
  shows "same_verdict (kh_verify lib kh host port key) (kh_spec lib (kh_entries kh) host port key)"
  by (rule kh_verify_spec [OF built_index_ok [OF assms(1)]]) (simp add: format_host_def assms(2))

definition demo_lib :: "string KeyLib" where
  "demo_lib = \<lparr>kl_from_openssh = (\<lambda>s. if s = [] then None else Some s), kl_to_openssh = Some, kl_to_bytes = Some,
     kl_fingerprint = (\<lambda>k. k), kl_hmac_sha1 = (\<lambda>k m. k @ m), kl_b64_encode = (\<lambda>s. s), kl_b64_decode = Some\<rparr>"

theorem index_refines_scan_witness:
  "same_verdict (kh_verify demo_lib (kh_parse demo_lib ''*.x K'') ''a.x'' 22 ''L'')
     (kh_spec demo_lib (kh_entries (kh_parse demo_lib ''*.x K'')) ''a.x'' 22 ''L'')
   \<and> kh_spec demo_lib (kh_entries (kh_parse demo_lib ''*.x K'')) ''a.x'' 22 ''L'' = KH_Mismatch [''K'']"
proof -
  have "kh_spec demo_lib (kh_entries (kh_parse demo_lib ''*.x K'')) ''a.x'' 22 ''L'' = KH_Mismatch [''K'']"
    by code_simp
  then show ?thesis using index_refines_scan [OF built_parse, of "''a.x''" demo_lib "''*.x K''" 22 "''L''"] by simp
qed

text \<open>C32: Printing a file and reading it back gives the same entries in the same order, for entries whose host field is visible
  ASCII text that does not look like a comment or a marker, and keys that print as one line and parse back.\<close>

theorem render_parse_roundtrip:
  assumes "\<forall>e \<in> set (kh_entries kh). entry_ok lib e"
  shows "kh_entries (kh_parse lib (render lib kh)) = kh_entries kh"
  using entries_render [OF assms] by (simp add: kh_entries_parse render_def)

theorem render_parse_roundtrip_witness:
  "kh_entries (kh_parse demo_lib (render demo_lib (kh_add demo_lib [] ''h'' 22 ''K'' False kh_default)))
     = [\<lparr>e_marker = None, e_host_field = ''h'', e_key = ''K''\<rparr>]"
proof -
  let ?kh = "kh_add demo_lib [] ''h'' 22 ''K'' False kh_default"
  have e: "kh_entries ?kh = [\<lparr>e_marker = None, e_host_field = ''h'', e_key = ''K''\<rparr>]"
    by (simp add: kh_add_def kh_default_def format_host_def)
  have "\<forall>e \<in> set (kh_entries ?kh). entry_ok demo_lib e"
    unfolding e by (simp add: entry_ok_def field_ok_def key_text_ok_def visible_def demo_lib_def)
  from render_parse_roundtrip [OF this] show ?thesis by (simp add: e)
qed

text \<open>
  The backtracking matcher for host patterns always ends and decides exactly the language of the pattern: a star stands for
  any text, a question mark for any one byte, every other byte for itself up to ASCII case.\<close>

theorem glob_match_exact: "glob_match pattern txt \<longleftrightarrow> txt \<in> glob_lang pattern"
  by (rule glob_match_iff)

end
