(* ===== verification/Host_Trust.thy ===== *)
theory Host_Trust
  imports Known_Hosts
begin

text \<open>
  Acceptance of a server's host key: \<open>TrustVerifier::verify\<close> and the trust-on-first-use append of
  \<open>crates/spt-ssh2/src/hostkey.rs\<close>, and \<open>check_server_key\<close> of \<open>russh_backend.rs\<close>, which decides whether the
  connection goes on.  The file on disk is the state: its contents, or nothing when it does not exist.  Whether the lock, the
  reading and the atomic replacement succeed are inputs; the texts of foreign errors are left out.
\<close>

section \<open>Model\<close>

record 'k TrustVerifier =
  tv_known_hosts :: "'k KnownHosts option"
  tv_sha256_pins :: "Sha256HostPin option"
  tv_known_hosts_path :: "string option"
  tv_strict :: bool
  tv_accept_new :: bool

datatype HostKeyOutcome = HK_Match | HK_NotFound | HK_TofuAdded

text \<open>The steps of the append that can fail, each with the text of its error.\<close>

record tofu_io =
  io_lock_error :: "string option"
  io_read_error :: "string option"
  io_replace_error :: "string option"

definition append_known_hosts ::
  "'k KeyLib \<Rightarrow> tofu_io \<Rightarrow> string \<Rightarrow> string \<Rightarrow> nat \<Rightarrow> 'k \<Rightarrow> string option \<Rightarrow> (spt_error, unit) result \<times> string option" where
  "append_known_hosts lib io path host port key file =
     (let host_prefix = (if port = 22 then host else ''['' @ host @ '']:'' @ dec port) in
      case kl_to_openssh lib key of
        None \<Rightarrow> (Inl (Err_TrustFailed ''encode host key for TOFU append''), file)
      | Some encoded \<Rightarrow>
          let line = host_prefix @ '' '' @ encoded @ [CHR 0x0A] in
          case io_lock_error io of
            Some e \<Rightarrow> (Inl (Err_TrustFailed e), file)
          | None \<Rightarrow> (case io_read_error io of
                Some e \<Rightarrow> (Inl (Err_TrustFailed (''read known_hosts '' @ path @ '' for TOFU append: '' @ e)), file)
              | None \<Rightarrow>
                  let content = (case file of Some b \<Rightarrow> b | None \<Rightarrow> []);
                      content = (if content \<noteq> [] \<and> last content \<noteq> CHR 0x0A then content @ [CHR 0x0A] else content)
                  in case io_replace_error io of
                       Some e \<Rightarrow> (Inl (Err_TrustFailed e), file)
                     | None \<Rightarrow> (Inr (), Some (content @ line))))"

definition tofu_or_refuse ::
  "'k KeyLib \<Rightarrow> tofu_io \<Rightarrow> 'k TrustVerifier \<Rightarrow> string \<Rightarrow> nat \<Rightarrow> 'k \<Rightarrow> string option
     \<Rightarrow> (spt_error, HostKeyOutcome) result \<times> string option" where
  "tofu_or_refuse lib io tv host port key file =
     (let refuse =
        (if tv_strict tv
         then Inl (Err_TrustFailed (''host '' @ host @ '':'' @ dec port @ '' not found in any trust source (strict mode)''))
         else Inr HK_NotFound, file)
      in if tv_accept_new tv then
           (case tv_known_hosts_path tv of
              Some path \<Rightarrow>
                (let (r, file) = append_known_hosts lib io path host port key file
                 in (case r of Inl e \<Rightarrow> Inl e | Inr _ \<Rightarrow> Inr HK_TofuAdded, file))
            | None \<Rightarrow> refuse)
         else refuse)"

definition check_pins ::
  "'k KeyLib \<Rightarrow> tofu_io \<Rightarrow> 'k TrustVerifier \<Rightarrow> string \<Rightarrow> nat \<Rightarrow> 'k \<Rightarrow> string option
     \<Rightarrow> (spt_error, HostKeyOutcome) result \<times> string option" where
  "check_pins lib io tv host port key file =
     (case map_option (\<lambda>p. pin_verify lib p host port key) (tv_sha256_pins tv) of
        Some KH_Match \<Rightarrow> (Inr HK_Match, file)
      | Some (KH_Mismatch _) \<Rightarrow> (Inl (Err_TrustFailed (''SHA-256 pin mismatch for '' @ host @ '':'' @ dec port)), file)
      | Some KH_Revoked \<Rightarrow> (Inl (Err_TrustFailed (''SHA-256 pin: revoked key for '' @ host @ '':'' @ dec port)), file)
      | _ \<Rightarrow> tofu_or_refuse lib io tv host port key file)"

definition verify_host ::
  "'k KeyLib \<Rightarrow> tofu_io \<Rightarrow> 'k TrustVerifier \<Rightarrow> string \<Rightarrow> nat \<Rightarrow> 'k \<Rightarrow> string option
     \<Rightarrow> (spt_error, HostKeyOutcome) result \<times> string option" where
  "verify_host lib io tv host port key file =
     (case map_option (\<lambda>kh. kh_verify lib kh host port key) (tv_known_hosts tv) of
        Some KH_Match \<Rightarrow> (Inr HK_Match, file)
      | Some (KH_Mismatch _) \<Rightarrow> (Inl (Err_TrustFailed (''known_hosts mismatch for '' @ host @ '':'' @ dec port)), file)
      | Some KH_Revoked \<Rightarrow>
          (Inl (Err_TrustFailed (''host key for '' @ host @ '':'' @ dec port @ '' is @revoked in known_hosts'')), file)
      | _ \<Rightarrow> check_pins lib io tv host port key file)"

text \<open>What \<open>check_server_key\<close> leaves in \<open>trust_failure\<close>: an error or its own message.\<close>

datatype trust_failure = TF_Error spt_error | TF_Message string

text \<open>\<open>conv\<close> is the server's key after the conversion between the two key crates.\<close>

definition check_server_key ::
  "'k KeyLib \<Rightarrow> tofu_io \<Rightarrow> 'k TrustVerifier \<Rightarrow> string \<Rightarrow> nat \<Rightarrow> (spt_error, 'k) result \<Rightarrow> string option
     \<Rightarrow> bool \<times> trust_failure option \<times> string option" where
  "check_server_key lib io tv host port conv file =
     (case conv of
        Inl e \<Rightarrow> (False, Some (TF_Error e), file)
      | Inr key \<Rightarrow>
          (case verify_host lib io tv host port key file of
             (Inl e, file) \<Rightarrow> (False, Some (TF_Error e), file)
           | (Inr HK_Match, file) \<Rightarrow> (True, None, file)
           | (Inr HK_TofuAdded, file) \<Rightarrow> (True, None, file)
           | (Inr HK_NotFound, file) \<Rightarrow>
               (False, Some (TF_Message (''host '' @ host @ '':'' @ dec port
                  @ '' not found in any trust source and accept_new is disabled'')), file)))"

section \<open>Acceptance\<close>

definition file_verdict :: "'k KeyLib \<Rightarrow> 'k TrustVerifier \<Rightarrow> string \<Rightarrow> nat \<Rightarrow> 'k \<Rightarrow> 'k KnownHostsResult" where
  "file_verdict lib tv host port key =
     (case tv_known_hosts tv of Some kh \<Rightarrow> kh_spec lib (kh_entries kh) host port key | None \<Rightarrow> KH_NotFound)"

definition pin_verdict :: "'k KeyLib \<Rightarrow> 'k TrustVerifier \<Rightarrow> string \<Rightarrow> nat \<Rightarrow> 'k \<Rightarrow> 'k KnownHostsResult" where
  "pin_verdict lib tv host port key =
     (case tv_sha256_pins tv of Some p \<Rightarrow> pin_verify lib p host port key | None \<Rightarrow> KH_NotFound)"

definition can_append :: "'k KeyLib \<Rightarrow> tofu_io \<Rightarrow> 'k \<Rightarrow> bool" where
  "can_append lib io key \<longleftrightarrow> kl_to_openssh lib key \<noteq> None
     \<and> io_lock_error io = None \<and> io_read_error io = None \<and> io_replace_error io = None"

lemma append_ok_iff: "fst (append_known_hosts lib io path host port key file) = Inr () \<longleftrightarrow> can_append lib io key"
  by (auto simp: append_known_hosts_def can_append_def Let_def split: option.split)

lemma append_failed_file:
  "fst (append_known_hosts lib io path host port key file) = Inl e \<Longrightarrow> snd (append_known_hosts lib io path host port key file) = file"
  by (auto simp: append_known_hosts_def Let_def split: option.splits if_splits)

definition trusting :: "'k KeyLib \<Rightarrow> 'k TrustVerifier \<Rightarrow> bool" where
  "trusting lib tv \<longleftrightarrow> (\<forall>kh. tv_known_hosts tv = Some kh \<longrightarrow> built lib kh)"

lemma same_verdict_simps [simp]:
  "same_verdict r KH_Match \<longleftrightarrow> r = KH_Match" "same_verdict r KH_NotFound \<longleftrightarrow> r = KH_NotFound"
  "same_verdict r KH_Revoked \<longleftrightarrow> r = KH_Revoked"
  "same_verdict r (KH_Mismatch ks) \<longleftrightarrow> (\<exists>ls. r = KH_Mismatch ls \<and> set ls = set ks)"
  by (cases r; auto simp: same_verdict_def)+

lemma verify_host_eq:
  assumes "trusting lib tv" "host \<noteq> []"
  shows "verify_host lib io tv host port key file =
    (case file_verdict lib tv host port key of
       KH_Match \<Rightarrow> (Inr HK_Match, file)
     | KH_Mismatch _ \<Rightarrow> (Inl (Err_TrustFailed (''known_hosts mismatch for '' @ host @ '':'' @ dec port)), file)
     | KH_Revoked \<Rightarrow> (Inl (Err_TrustFailed (''host key for '' @ host @ '':'' @ dec port @ '' is @revoked in known_hosts'')), file)
     | KH_NotFound \<Rightarrow> check_pins lib io tv host port key file)"
proof (cases "tv_known_hosts tv")
  case None
  then show ?thesis by (simp add: verify_host_def file_verdict_def)
next
  case (Some kh)
  have "same_verdict (kh_verify lib kh host port key) (kh_spec lib (kh_entries kh) host port key)"
    using assms Some by (intro kh_verify_spec built_index_ok) (auto simp: trusting_def format_host_def)
  then show ?thesis using Some
    by (cases "kh_spec lib (kh_entries kh) host port key") (auto simp: verify_host_def file_verdict_def)
qed

lemma pin_verify_not_revoked [simp]: "pin_verify lib p host port key \<noteq> KH_Revoked"
  by (auto simp: pin_verify_def split: option.split)

lemma check_pins_eq:
  "check_pins lib io tv host port key file =
    (case pin_verdict lib tv host port key of
       KH_Match \<Rightarrow> (Inr HK_Match, file)
     | KH_NotFound \<Rightarrow> tofu_or_refuse lib io tv host port key file
     | _ \<Rightarrow> (Inl (Err_TrustFailed (''SHA-256 pin mismatch for '' @ host @ '':'' @ dec port)), file))"
  by (auto simp: check_pins_def pin_verdict_def split: option.split KnownHostsResult.split)

lemma tofu_cases:
  "tofu_or_refuse lib io tv host port key file =
    (case (tv_accept_new tv, tv_known_hosts_path tv) of
       (True, Some path) \<Rightarrow>
         (case append_known_hosts lib io path host port key file of
            (Inr _, f) \<Rightarrow> (Inr HK_TofuAdded, f) | (Inl e, f) \<Rightarrow> (Inl e, file))
     | _ \<Rightarrow> (if tv_strict tv
           then Inl (Err_TrustFailed (''host '' @ host @ '':'' @ dec port @ '' not found in any trust source (strict mode)''))
           else Inr HK_NotFound, file))"
proof -
  have "append_known_hosts lib io path host port key file = (Inl e, f) \<Longrightarrow> f = file" for path e f
    using append_failed_file by (metis fst_conv snd_conv)
  then show ?thesis by (auto simp: tofu_or_refuse_def Let_def split: option.split sum.split prod.split)
qed


definition demo_verifier :: "string TrustVerifier" where
  "demo_verifier = \<lparr>tv_known_hosts = None, tv_sha256_pins = None, tv_known_hosts_path = Some ''p'', tv_strict = True,
     tv_accept_new = True\<rparr>"

definition demo_io :: tofu_io where
  "demo_io = \<lparr>io_lock_error = None, io_read_error = None, io_replace_error = None\<rparr>"

lemma demo_trusting: "trusting demo_lib demo_verifier"
  by (simp add: trusting_def demo_verifier_def)

lemma demo_can_append: "can_append demo_lib demo_io k"
  by (simp add: can_append_def demo_lib_def demo_io_def)

lemma demo_verdicts:
  "file_verdict demo_lib demo_verifier host port key = KH_NotFound" "pin_verdict demo_lib demo_verifier host port key = KH_NotFound"
  by (simp_all add: file_verdict_def pin_verdict_def demo_verifier_def)


section \<open>Trust on first use\<close>

text \<open>Host names without the characters that have a meaning in a known-hosts file.\<close>

definition host_ok :: "string \<Rightarrow> bool" where
  "host_ok host \<longleftrightarrow> host \<noteq> [] \<and> (\<forall>c \<in> set host. visible c \<and> c \<notin> set ''*?!,|#@'' \<and> c \<noteq> CHR 0x22)"

lemma dec_visible: "c \<in> set (dec n) \<Longrightarrow> visible c \<and> c \<notin> set ''*?!,|#@'' \<and> c \<noteq> CHR 0x22"
proof -
  assume "c \<in> set (dec n)"
  then obtain d where "d < 10" "c = digit_char d" using dec_chars by blast
  then have "(of_char c :: nat) \<in> {48..57}" by simp
  then show ?thesis by (auto simp: visible_def)
qed

lemma format_host_chars:
  "host_ok host \<Longrightarrow> format_host host port \<noteq> []
     \<and> (\<forall>c \<in> set (format_host host port). visible c \<and> c \<notin> set ''*?!,|#@'' \<and> c \<noteq> CHR 0x22)"
  using dec_visible [of _ port] by (auto simp: format_host_def host_ok_def visible_def)

lemma trim_matches_notin: "c \<notin> set s \<Longrightarrow> trim_matches c s = s"
proof -
  assume "c \<notin> set s"
  then have "dropWhile (\<lambda>x. x = c) s = s" "dropWhile (\<lambda>x. x = c) (rev s) = rev s"
    unfolding dropWhile_eq_self_iff using hd_in_set [of s] hd_in_set [of "rev s"] by auto
  then show ?thesis by (simp add: trim_matches_def)
qed

lemma own_field_matches:
  assumes "host_ok host"
  shows "host_matches lib (format_host host port) host port"
proof -
  let ?f = "format_host host port"
  note c = format_host_chars [OF assms, of port]
  have "plain_field ?f" using c by (cases ?f) (auto simp: plain_field_def strip_prefix_def)
  moreover have "split_on CHR '','' ?f = [?f]" using c by (intro split_on_notin) auto
  moreover have "trim ?f = ?f" using c by (intro trim_visible) auto
  moreover have "trim_matches CHR 0x22 ?f = ?f" using c by (intro trim_matches_notin) auto
  ultimately show ?thesis using c host_matches_plain [of ?f host port lib] by (simp add: names_def)
qed

lemma append_entries:
  assumes "host_ok host" "key_text_ok lib key"
    and "append_known_hosts lib io path host port key file = (Inr (), file')"
  shows "\<exists>text. file' = Some text \<and> kh_entries (kh_parse lib text) =
    kh_entries (kh_parse lib (case file of Some b \<Rightarrow> b | None \<Rightarrow> []))
      @ [\<lparr>e_marker = None, e_host_field = format_host host port, e_key = key\<rparr>]"
proof -
  define e where "e = \<lparr>e_marker = None, e_host_field = format_host host port, e_key = key\<rparr>"
  define c where "c = (case file of Some b \<Rightarrow> b | None \<Rightarrow> [])"
  define t where "t = (if c \<noteq> [] \<and> last c \<noteq> CHR 0x0A then c @ [CHR 0x0A] else c)"
  note chars = format_host_chars [OF assms(1), of port]
  have "hd (format_host host port) \<in> set (format_host host port)" using chars by simp
  then have ok: "entry_ok lib e" using chars assms(2) by (auto simp: entry_ok_def field_ok_def e_def)
  have f: "file' = Some (t @ render_entry lib e)"
    using assms(3) unfolding append_known_hosts_def Let_def c_def [symmetric] t_def [symmetric]
    by (simp add: render_entry_def format_host_def e_def split: option.splits if_splits)
  have "kh_entries (kh_parse lib (t @ render_entry lib e)) = kh_entries (kh_parse lib t) @ [e]"
    by (rule entries_append_entry [OF ok]) (simp add: t_def)
  moreover have "kh_entries (kh_parse lib t) = kh_entries (kh_parse lib c)"
  proof (cases "c \<noteq> [] \<and> last c \<noteq> CHR 0x0A")
    case True
    then show ?thesis using entries_terminated [of c lib] by (simp add: kh_entries_parse t_def)
  qed (auto simp: t_def)
  ultimately show ?thesis using f by (simp add: e_def c_def)
qed

lemma verdict_snoc:
  assumes "e_marker e = None"
  shows "verdict lib key (ms @ [e]) =
    (case verdict lib key ms of
       KH_Revoked \<Rightarrow> KH_Revoked
     | KH_Match \<Rightarrow> KH_Match
     | KH_Mismatch ks \<Rightarrow> if keys_equal lib (e_key e) key then KH_Match else KH_Mismatch (ks @ [e_key e])
     | KH_NotFound \<Rightarrow> if keys_equal lib (e_key e) key then KH_Match else KH_Mismatch [e_key e])"
proof -
  have r: "\<not> revokes lib key e" using assms by (simp add: revokes_def)
  define own where "own = filter (\<lambda>e. e_marker e = None) ms"
  have o: "filter (\<lambda>e. e_marker e = None) (ms @ [e]) = own @ [e]" using assms by (simp add: own_def)
  show ?thesis unfolding verdict_def Let_def o own_def [symmetric] using r by auto
qed

lemma spec_append_own:
  "host_ok host \<Longrightarrow>
   kh_spec lib (es @ [\<lparr>e_marker = None, e_host_field = format_host host port, e_key = key\<rparr>]) host port presented =
    (case kh_spec lib es host port presented of
       KH_Revoked \<Rightarrow> KH_Revoked
     | KH_Match \<Rightarrow> KH_Match
     | KH_Mismatch ks \<Rightarrow> if keys_equal lib key presented then KH_Match else KH_Mismatch (ks @ [key])
     | KH_NotFound \<Rightarrow> if keys_equal lib key presented then KH_Match else KH_Mismatch [key])"
  by (simp add: kh_spec_def own_field_matches verdict_snoc split: KnownHostsResult.split)

text \<open>C26: A key accepted on first use is really recorded: reading the file back gives the entries it had before, torn last line or
  not, plus the new one, and from then on the file matches this key for the host, while any other key is a mismatch, unless the file
  already says more about the host.\<close>

theorem tofu_recorded:
  assumes "trusting lib tv" and "host_ok host" and "key_text_ok lib key" and "keys_equal lib key key"
    and "verify_host lib io tv host port key file = (Inr HK_TofuAdded, file')"
  shows "\<exists>text. file' = Some text
    \<and> kh_entries (kh_parse lib text) = kh_entries (kh_parse lib (case file of Some b \<Rightarrow> b | None \<Rightarrow> []))
        @ [\<lparr>e_marker = None, e_host_field = format_host host port, e_key = key\<rparr>]
    \<and> (kh_spec lib (kh_entries (kh_parse lib (case file of Some b \<Rightarrow> b | None \<Rightarrow> []))) host port key \<noteq> KH_Revoked \<longrightarrow>
         kh_verify lib (kh_parse lib text) host port key = KH_Match)
    \<and> (\<forall>other. kh_spec lib (kh_entries (kh_parse lib (case file of Some b \<Rightarrow> b | None \<Rightarrow> []))) host port other = KH_NotFound
         \<and> \<not> keys_equal lib key other \<longrightarrow>
         (\<exists>ks. kh_verify lib (kh_parse lib text) host port other = KH_Mismatch ks \<and> set ks = {key}))"
proof -
  have ne: "host \<noteq> []" using assms(2) by (simp add: host_ok_def)
  obtain path where a: "append_known_hosts lib io path host port key file = (Inr (), file')"
    using assms(5) unfolding verify_host_eq [OF assms(1) ne] check_pins_eq tofu_cases
    by (auto split: KnownHostsResult.splits option.splits bool.splits prod.splits sum.splits if_splits)
  obtain body where t: "file' = Some body" and e: "kh_entries (kh_parse lib body) =
      kh_entries (kh_parse lib (case file of Some b \<Rightarrow> b | None \<Rightarrow> []))
        @ [\<lparr>e_marker = None, e_host_field = format_host host port, e_key = key\<rparr>]"
    using append_entries [OF assms(2,3) a] by blast
  have v: "same_verdict (kh_verify lib (kh_parse lib body) host port k) (kh_spec lib (kh_entries (kh_parse lib body)) host port k)" for k
    by (rule kh_verify_spec [OF index_ok_parse]) (use ne in \<open>simp add: format_host_def\<close>)
  have "kh_verify lib (kh_parse lib body) host port key = KH_Match"
    if "kh_spec lib (kh_entries (kh_parse lib (case file of Some b \<Rightarrow> b | None \<Rightarrow> []))) host port key \<noteq> KH_Revoked"
    using v [of key] that assms(4) unfolding e spec_append_own [OF assms(2)] by (auto split: KnownHostsResult.splits)
  moreover have "\<exists>ks. kh_verify lib (kh_parse lib body) host port other = KH_Mismatch ks \<and> set ks = {key}"
    if "kh_spec lib (kh_entries (kh_parse lib (case file of Some b \<Rightarrow> b | None \<Rightarrow> []))) host port other = KH_NotFound"
      "\<not> keys_equal lib key other" for other
    using v [of other] that unfolding e spec_append_own [OF assms(2)] by simp
  ultimately show ?thesis using t e by blast
qed

lemma demo_key_ok: "key_text_ok demo_lib ''K''" "keys_equal demo_lib ''K'' ''K''"
  by (simp_all add: key_text_ok_def keys_equal_def demo_lib_def visible_def)

lemma demo_host_ok: "host_ok ''h''"
  by (simp add: host_ok_def visible_def)

lemma demo_tofu:
  "verify_host demo_lib demo_io demo_verifier ''h'' 22 k file =
     (Inr HK_TofuAdded, snd (append_known_hosts demo_lib demo_io ''p'' ''h'' 22 k file))"
proof -
  have "fst (append_known_hosts demo_lib demo_io ''p'' ''h'' 22 k file) = Inr ()" by (simp add: append_ok_iff demo_can_append)
  then show ?thesis
    unfolding verify_host_eq [OF demo_trusting list.distinct(2)] check_pins_eq tofu_cases demo_verdicts
    by (auto simp: demo_verifier_def split: prod.splits)
qed

theorem tofu_recorded_witness:
  "\<exists>text. snd (verify_host demo_lib demo_io demo_verifier ''h'' 22 ''K'' None) = Some text
     \<and> kh_verify demo_lib (kh_parse demo_lib text) ''h'' 22 ''K'' = KH_Match"
proof -
  have e: "kh_entries (kh_parse demo_lib []) = []" by (simp add: kh_entries_parse)
  show ?thesis
    using tofu_recorded [OF demo_trusting demo_host_ok demo_key_ok demo_tofu, of None] unfolding demo_tofu
    by (auto simp: e kh_spec_def verdict_def)
qed

text \<open>C33: Trust on first use does not end with the first use: the verifier keeps the known hosts it was built with, so as long as
  it runs, a host it did not know then is accepted with any key, again and again, although the file by then records another key for
  the host and, read back, calls the new one a mismatch.\<close>

theorem tofu_forgets:
  assumes "trusting lib tv" and "host_ok host" and "key_text_ok lib first" and "\<not> keys_equal lib first second"
    and "\<forall>k. file_verdict lib tv host port k = KH_NotFound" and "\<forall>k. pin_verdict lib tv host port k = KH_NotFound"
    and "tv_accept_new tv" and "tv_known_hosts_path tv = Some path" and "can_append lib io first" and "can_append lib io' second"
    and "verify_host lib io tv host port first None = (r, file')"
  shows "r = Inr HK_TofuAdded
    \<and> kh_spec lib (kh_entries (kh_parse lib (the file'))) host port second = KH_Mismatch [first]
    \<and> fst (verify_host lib io' tv host port second file') = Inr HK_TofuAdded"
proof -
  have ne: "host \<noteq> []" using assms(2) by (simp add: host_ok_def)
  have t: "verify_host lib io'' tv host port k f = (Inr HK_TofuAdded, snd (append_known_hosts lib io'' path host port k f))"
    if "can_append lib io'' k" for io'' k f
  proof -
    have "fst (append_known_hosts lib io'' path host port k f) = Inr ()" using that by (simp add: append_ok_iff)
    then show ?thesis
      unfolding verify_host_eq [OF assms(1) ne] check_pins_eq tofu_cases using assms(5-8) by (auto split: prod.splits)
  qed
  have r: "r = Inr HK_TofuAdded" "append_known_hosts lib io path host port first None = (Inr (), file')"
    using assms(11) t [OF assms(9), of None] append_ok_iff [of lib io path host port first None] assms(9)
    by (auto simp: prod_eq_iff)
  obtain body where "file' = Some body"
    "kh_entries (kh_parse lib body) = [\<lparr>e_marker = None, e_host_field = format_host host port, e_key = first\<rparr>]"
    using append_entries [OF assms(2,3) r(2)] by (auto simp: kh_entries_parse)
  then have "kh_spec lib (kh_entries (kh_parse lib (the file'))) host port second = KH_Mismatch [first]"
    using spec_append_own [OF assms(2), of lib "[]" port first second] assms(4) by (simp add: kh_spec_def verdict_def)
  then show ?thesis using r(1) t [OF assms(10)] by simp
qed

theorem tofu_forgets_witness:
  "fst (verify_host demo_lib demo_io demo_verifier ''h'' 22 ''L''
     (snd (verify_host demo_lib demo_io demo_verifier ''h'' 22 ''K'' None))) = Inr HK_TofuAdded"
proof -
  have "\<not> keys_equal demo_lib ''K'' ''L''" by (simp add: keys_equal_def demo_lib_def)
  moreover have "tv_accept_new demo_verifier" "tv_known_hosts_path demo_verifier = Some ''p''" by (simp_all add: demo_verifier_def)
  ultimately show ?thesis
    using tofu_forgets [OF demo_trusting demo_host_ok demo_key_ok(1) _ _ _ _ _ demo_can_append demo_can_append prod.collapse [symmetric],
        of "''L''" 22 "''p''"] demo_verdicts by blast
qed

end
