(* ===== verification/Reload_Plan.thy ===== *)
theory Reload_Plan
  imports Prelude Forward_Config
begin

text \<open>
  The reload reconciler, \<open>crates/spt-supervisor/src/reload.rs\<close>: the actions that bring the running profiles from one
  configuration to another.  A profile is \<open>Profile\<close> of \<open>crates/spt-config/src/schema.rs\<close>; its sub-tables are only
  compared here, so their type is a parameter.
\<close>

section \<open>Model\<close>

record 't Profile =
  p_name :: string
  p_description :: "string option"
  p_enabled :: "bool option"
  p_protocol :: string
  p_host :: "string option"
  p_port :: "nat option"
  p_endpoint :: "string option"
  p_acknowledge_experimental :: "bool option"
  p_user :: "string option"
  p_connect_timeout :: "string option"
  p_dns_resolution :: "string option"
  p_network_change_reconnect :: "bool option"
  p_startup :: "string option"
  p_failure_policy :: "string option"
  p_tags :: "string list option"
  p_connection :: "'t option"
  p_crypto :: "'t option"
  p_auth :: "'t option"
  p_trust :: "'t option"
  p_tls :: "'t option"
  p_ssh3 :: "'t option"
  p_keepalive :: "'t option"
  p_reconnect :: "'t option"
  p_instability :: "'t option"
  p_failover :: "'t option"
  p_limits :: "'t option"
  p_endpoints :: "'t list"
  p_hops :: "'t list"
  p_forwards :: "Forward list"
  p_sftp_mounts :: "'t list"
  p_script :: "'t option"
  p_transport :: "'t option"

datatype ReloadAction =
    StartProfile string
  | StopProfile string
  | RestartProfile string
  | AddForward string string
  | RemoveForward string string
  | RestartForward string string

definition connection_level_changed :: "'t Profile \<Rightarrow> 't Profile \<Rightarrow> bool" where
  "connection_level_changed a b \<longleftrightarrow>
     p_protocol a \<noteq> p_protocol b \<or> p_host a \<noteq> p_host b \<or> p_port a \<noteq> p_port b \<or> p_endpoint a \<noteq> p_endpoint b
     \<or> p_user a \<noteq> p_user b \<or> p_connect_timeout a \<noteq> p_connect_timeout b \<or> p_connection a \<noteq> p_connection b
     \<or> p_crypto a \<noteq> p_crypto b \<or> p_auth a \<noteq> p_auth b \<or> p_trust a \<noteq> p_trust b \<or> p_tls a \<noteq> p_tls b
     \<or> p_ssh3 a \<noteq> p_ssh3 b \<or> p_endpoints a \<noteq> p_endpoints b \<or> p_hops a \<noteq> p_hops b \<or> p_enabled a \<noteq> p_enabled b
     \<or> p_transport a \<noteq> p_transport b \<or> p_script a \<noteq> p_script b \<or> p_sftp_mounts a \<noteq> p_sftp_mounts b"

definition removed_forwards :: "string \<Rightarrow> Forward list \<Rightarrow> Forward list \<Rightarrow> ReloadAction list" where
  "removed_forwards profile old new =
     map (\<lambda>f. RemoveForward profile (fw_name f)) (filter (\<lambda>f. \<not> list_ex (\<lambda>nf. fw_name nf = fw_name f) new) old)"

definition new_forward :: "string \<Rightarrow> Forward list \<Rightarrow> Forward \<Rightarrow> ReloadAction list" where
  "new_forward profile old nf =
     (case List.find (\<lambda>f. fw_name f = fw_name nf) old of
        None \<Rightarrow> [AddForward profile (fw_name nf)]
      | Some f \<Rightarrow> if f \<noteq> nf then [RestartForward profile (fw_name nf)] else [])"

definition diff_forwards :: "string \<Rightarrow> Forward list \<Rightarrow> Forward list \<Rightarrow> ReloadAction list" where
  "diff_forwards profile old new = removed_forwards profile old new @ concat (map (new_forward profile old) new)"

definition disabled :: "'t Profile \<Rightarrow> bool" where
  "disabled p \<longleftrightarrow> p_enabled p = Some False"

definition stop_removed :: "'t Profile list \<Rightarrow> 't Profile \<Rightarrow> ReloadAction list" where
  "stop_removed new op = (if list_ex (\<lambda>np. p_name np = p_name op) new then [] else [StopProfile (p_name op)])"

definition start_added :: "'t Profile list \<Rightarrow> 't Profile \<Rightarrow> ReloadAction list" where
  "start_added old np =
     (if list_ex (\<lambda>op. p_name op = p_name np) old then []
      else if disabled np then [] else [StartProfile (p_name np)])"

text \<open>What stays unapplied is only logged (\<open>warn_restart_only_changes\<close>).\<close>

definition update_kept :: "'t Profile list \<Rightarrow> 't Profile \<Rightarrow> ReloadAction list" where
  "update_kept new op =
     (case List.find (\<lambda>p. p_name p = p_name op) new of
        None \<Rightarrow> []
      | Some np \<Rightarrow>
          if disabled np then (if \<not> disabled op then [StopProfile (p_name op)] else [])
          else if connection_level_changed op np then [RestartProfile (p_name op)]
          else diff_forwards (p_name op) (p_forwards op) (p_forwards np))"

definition compute :: "'t Profile list \<Rightarrow> 't Profile list \<Rightarrow> ReloadAction list" where
  "compute old new =
     concat (map (stop_removed new) old) @ concat (map (start_added old) new) @ concat (map (update_kept new) old)"

section \<open>Lemmas\<close>

fun about :: "ReloadAction \<Rightarrow> string" where
  "about (StartProfile n) = n"
| "about (StopProfile n) = n"
| "about (RestartProfile n) = n"
| "about (AddForward n _) = n"
| "about (RemoveForward n _) = n"
| "about (RestartForward n _) = n"

abbreviation concerning :: "string \<Rightarrow> ReloadAction list \<Rightarrow> ReloadAction list" where
  "concerning n \<equiv> filter (\<lambda>a. about a = n)"

lemma diff_forwards_about: "a \<in> set (diff_forwards n old new) \<Longrightarrow> about a = n"
  by (auto simp: diff_forwards_def removed_forwards_def new_forward_def split: option.splits if_splits)

lemma stop_removed_about: "a \<in> set (stop_removed new p) \<Longrightarrow> about a = p_name p"
  by (auto simp: stop_removed_def split: if_splits)

lemma start_added_about: "a \<in> set (start_added old p) \<Longrightarrow> about a = p_name p"
  by (auto simp: start_added_def split: if_splits)

lemma update_kept_about: "a \<in> set (update_kept new p) \<Longrightarrow> about a = p_name p"
  by (auto simp: update_kept_def dest: diff_forwards_about split: option.splits if_splits)

text \<open>With unique names, what concerns a name comes from the one profile of that name.\<close>

lemma concerning_map:
  assumes "distinct (map p_name ps)" "\<And>p a. a \<in> set (f p) \<Longrightarrow> about a = p_name p"
  shows "concerning n (concat (map f ps)) = (case List.find (\<lambda>p. p_name p = n) ps of Some p \<Rightarrow> f p | None \<Rightarrow> [])"
  using assms(1)
proof (induction ps)
  case (Cons p ps)
  have own: "concerning n (f p) = (if p_name p = n then f p else [])"
    using assms(2) by (auto simp: filter_id_conv filter_empty_conv)
  show ?case
  proof (cases "p_name p = n")
    case True
    then have "List.find (\<lambda>p. p_name p = n) ps = None" unfolding find_None_all using Cons.prems by (auto simp: image_iff)
    then show ?thesis using Cons own True by simp
  qed (use Cons own in simp)
qed simp

lemma find_name: "List.find (\<lambda>p. p_name p = n) ps = Some p \<Longrightarrow> p \<in> set ps \<and> p_name p = n"
  by (blast dest: find_Some_mem)

lemma list_ex_name: "list_ex (\<lambda>p. p_name p = n) ps \<longleftrightarrow> List.find (\<lambda>p. p_name p = n) ps \<noteq> None"
  by (auto simp: list_ex_iff find_None_all)

text \<open>What a reload does to the profile named \<open>n\<close>.\<close>

lemma compute_concerning:
  assumes "distinct (map p_name old)" "distinct (map p_name new)"
  shows "concerning n (compute old new) =
    (case (List.find (\<lambda>p. p_name p = n) old, List.find (\<lambda>p. p_name p = n) new) of
       (None, None) \<Rightarrow> []
     | (None, Some np) \<Rightarrow> if disabled np then [] else [StartProfile n]
     | (Some op, None) \<Rightarrow> [StopProfile n]
     | (Some op, Some np) \<Rightarrow>
         if disabled np then (if \<not> disabled op then [StopProfile n] else [])
         else if connection_level_changed op np then [RestartProfile n]
         else diff_forwards n (p_forwards op) (p_forwards np))"
proof -
  have eqs: "concerning n (concat (map (stop_removed new) old)) =
      (case List.find (\<lambda>p. p_name p = n) old of Some p \<Rightarrow> stop_removed new p | None \<Rightarrow> [])"
    "concerning n (concat (map (start_added old) new)) =
      (case List.find (\<lambda>p. p_name p = n) new of Some p \<Rightarrow> start_added old p | None \<Rightarrow> [])"
    "concerning n (concat (map (update_kept new) old)) =
      (case List.find (\<lambda>p. p_name p = n) old of Some p \<Rightarrow> update_kept new p | None \<Rightarrow> [])"
    by (intro concerning_map assms stop_removed_about start_added_about update_kept_about; assumption)+
  show ?thesis
  proof (cases "List.find (\<lambda>p. p_name p = n) old")
    case None
    then show ?thesis unfolding compute_def filter_append eqs
      by (auto simp: start_added_def list_ex_name dest: find_name split: option.split)
  next
    case (Some op)
    then have op: "p_name op = n" using find_name by blast
    show ?thesis
    proof (cases "List.find (\<lambda>p. p_name p = n) new")
      case None
      then show ?thesis unfolding compute_def filter_append eqs using Some op
        by (simp add: stop_removed_def update_kept_def list_ex_name)
    next
      case (Some np)
      then have "p_name np = n" using find_name by blast
      then show ?thesis unfolding compute_def filter_append eqs using Some \<open>List.find (\<lambda>p. p_name p = n) old = Some op\<close> op
        by (simp add: stop_removed_def start_added_def update_kept_def list_ex_name)
    qed
  qed
qed

lemma diff_forwards_Nil:
  assumes "diff_forwards n old new = []" "distinct (map fw_name old)"
  shows "set old = set new"
proof
  have find: "List.find (\<lambda>f. fw_name f = fw_name nf) old = Some nf" if "nf \<in> set new" for nf
    using assms(1) that by (fastforce simp: diff_forwards_def new_forward_def split: option.splits if_splits)
  then show "set new \<subseteq> set old" by (auto dest: find_Some_mem)
  show "set old \<subseteq> set new"
  proof
    fix f assume f: "f \<in> set old"
    then obtain nf where nf: "nf \<in> set new" "fw_name nf = fw_name f"
      using assms(1) by (auto simp: diff_forwards_def removed_forwards_def filter_empty_conv list_ex_iff)
    then have "nf \<in> set old" using find find_Some_mem by fastforce
    then have "nf = f" using f nf(2) assms(2) by (auto simp: distinct_map inj_on_def)
    then show "f \<in> set new" using nf(1) by simp
  qed
qed

end
