(* ===== verification/Orchestrator.thy ===== *)
theory Orchestrator
  imports Reload_Plan Profile_Task "HOL-Library.AList" "HOL-Library.Multiset"
begin

text \<open>
  The owner of the profile supervisors, \<open>crates/spt-supervisor/src/orchestrator.rs\<close>.  A supervisor task is a number and the
  profile it was spawned for; \<open>oc_live\<close> are the tasks that were spawned and have neither ended nor been aborted.  The public
  operations are composed of the sections the code runs under the \<open>profiles\<close> lock, first one after the other, then
  interleaved as steps of concurrent threads.
\<close>

section \<open>State\<close>

type_synonym 't task = "nat \<times> 't Profile"

record 't Orchestrator =
  oc_profiles :: "(string \<times> 't task) list"
  oc_overrides :: "string set"
  oc_shutting_down :: bool
  oc_live :: "nat set"
  oc_next :: nat

definition orch_new :: "'t Orchestrator" where
  "orch_new = \<lparr>oc_profiles = [], oc_overrides = {}, oc_shutting_down = False, oc_live = {}, oc_next = 0\<rparr>"

definition running :: "'t Orchestrator \<Rightarrow> string \<Rightarrow> 't task option" where
  "running oc = map_of (oc_profiles oc)"

definition orch_len :: "'t Orchestrator \<Rightarrow> nat" where
  "orch_len oc = length (oc_profiles oc)"

section \<open>Critical sections\<close>

text \<open>
  Dropping a supervisor aborts its task; a caller of \<open>profile_handle\<close> that still holds it, which would defer the abort to
  its own drop, is left out.
\<close>

definition drop_task :: "'t task option \<Rightarrow> 't Orchestrator \<Rightarrow> 't Orchestrator" where
  "drop_task d oc = (case d of Some (tid, _) \<Rightarrow> oc\<lparr>oc_live := oc_live oc - {tid}\<rparr> | None \<Rightarrow> oc)"

definition take_profile :: "string \<Rightarrow> 't Orchestrator \<Rightarrow> 't task option \<times> 't Orchestrator" where
  "take_profile n oc =
     (running oc n,
      oc\<lparr>oc_profiles := AList.delete n (oc_profiles oc), oc_overrides := oc_overrides oc - {n}\<rparr>)"

definition spawn_task :: "'t Orchestrator \<Rightarrow> nat \<times> 't Orchestrator" where
  "spawn_task oc = (oc_next oc, oc\<lparr>oc_next := oc_next oc + 1, oc_live := insert (oc_next oc) (oc_live oc)\<rparr>)"

definition insert_profile :: "'t Profile \<Rightarrow> nat \<Rightarrow> 't Orchestrator \<Rightarrow> 't Orchestrator" where
  "insert_profile p tid oc =
     (if oc_shutting_down oc then drop_task (Some (tid, p)) oc
      else (drop_task (running oc (p_name p)) oc)\<lparr>oc_profiles := AList.update (p_name p) (tid, p) (oc_profiles oc)\<rparr>)"

definition await_stop :: "nat \<Rightarrow> 't Orchestrator \<Rightarrow> 't Orchestrator" where
  "await_stop tid oc = oc\<lparr>oc_live := oc_live oc - {tid}\<rparr>"

definition drain_profiles :: "'t Orchestrator \<Rightarrow> nat list \<times> 't Orchestrator" where
  "drain_profiles oc =
     (map (fst \<circ> snd) (oc_profiles oc),
      oc\<lparr>oc_profiles := [], oc_overrides := {}, oc_shutting_down := True\<rparr>)"

section \<open>Operations\<close>

definition start_profile :: "'t Profile \<Rightarrow> 't Orchestrator \<Rightarrow> 't Orchestrator" where
  "start_profile p oc =
     (if oc_shutting_down oc then oc
      else
        let (displaced, oc) = take_profile (p_name p) oc; oc = drop_task displaced oc in
        if p_enabled p = Some False then oc
        else let (tid, oc) = spawn_task oc in insert_profile p tid oc)"

definition stop_profile :: "string \<Rightarrow> 't Orchestrator \<Rightarrow> 't Orchestrator" where
  "stop_profile n oc =
     (let (sup, oc) = take_profile n oc in case sup of Some (tid, _) \<Rightarrow> await_stop tid oc | None \<Rightarrow> oc)"

definition restart_profile :: "'t Profile \<Rightarrow> 't Orchestrator \<Rightarrow> 't Orchestrator" where
  "restart_profile p oc = start_profile p (stop_profile (p_name p) oc)"

definition restart_provided :: "(string \<Rightarrow> 't Profile option) \<Rightarrow> string \<Rightarrow> 't Orchestrator \<Rightarrow> 't Orchestrator" where
  "restart_provided provider n oc = (case provider n of Some p \<Rightarrow> restart_profile p oc | None \<Rightarrow> oc)"

text \<open>The loop over the actions, with the profiles that need a restart because of their forwards.\<close>

fun apply_actions ::
  "(string \<Rightarrow> 't Profile option) \<Rightarrow> ReloadAction list \<Rightarrow> string list \<Rightarrow> 't Orchestrator \<Rightarrow> string list \<times> 't Orchestrator" where
  "apply_actions provider [] fr oc = (fr, oc)"
| "apply_actions provider (a # as) fr oc =
     (case a of
        StopProfile n \<Rightarrow> apply_actions provider as fr (stop_profile n oc)
      | StartProfile n \<Rightarrow> apply_actions provider as fr (restart_provided provider n oc)
      | RestartProfile n \<Rightarrow> apply_actions provider as fr (restart_provided provider n oc)
      | AddForward n _ \<Rightarrow> apply_actions provider as (if n \<in> set fr then fr else fr @ [n]) oc
      | RemoveForward n _ \<Rightarrow> apply_actions provider as (if n \<in> set fr then fr else fr @ [n]) oc
      | RestartForward n _ \<Rightarrow> apply_actions provider as (if n \<in> set fr then fr else fr @ [n]) oc)"

definition apply_plan :: "(string \<Rightarrow> 't Profile option) \<Rightarrow> ReloadAction list \<Rightarrow> 't Orchestrator \<Rightarrow> 't Orchestrator" where
  "apply_plan provider plan oc =
     (if oc_shutting_down oc then oc
      else let (fr, oc) = apply_actions provider plan [] oc in fold (restart_provided provider) fr oc)"

definition shutdown :: "'t Orchestrator \<Rightarrow> 't Orchestrator" where
  "shutdown oc = (let (tids, oc) = drain_profiles oc in fold await_stop tids oc)"

text \<open>Where a control request goes: the task and the message, or the error.\<close>

definition not_running_err :: "string \<Rightarrow> spt_error" where
  "not_running_err name =
     Err_RuntimeFailureDiagnostic
       ((diagnostic_what (''Profile '' @ [CHR 0x60] @ name @ [CHR 0x60] @ '' is not running''))
         \<lparr>dg_why := Some ''no ProfileSupervisor entry exists for the requested name in the orchestrator registry'',
          dg_how_to_fix := Some (''Run '' @ [CHR 0x60] @ ''spt profile list'' @ [CHR 0x60] @ '' to see active profiles. Start the profile with ''
             @ [CHR 0x60] @ ''spt tunnel run --profile <name>'' @ [CHR 0x60] @ '' (or its CLI equivalent), or double-check spelling.''),
          dg_endpoint := Some name, dg_retry_advice := Some NotRetryable\<rparr>)"

definition orch_profile :: "string \<Rightarrow> 't Orchestrator \<Rightarrow> (spt_error, nat) result" where
  "orch_profile name oc = (case running oc name of Some (tid, _) \<Rightarrow> Inr tid | None \<Rightarrow> Inl (not_running_err name))"

definition send_to :: "string \<Rightarrow> Control \<Rightarrow> 't Orchestrator \<Rightarrow> (spt_error, nat \<times> Control) result" where
  "send_to name msg oc = (case orch_profile name oc of Inl e \<Rightarrow> Inl e | Inr tid \<Rightarrow> Inr (tid, msg))"

definition orch_failover :: "string \<Rightarrow> string option \<Rightarrow> 't Orchestrator \<Rightarrow> (spt_error, nat \<times> Control) result" where
  "orch_failover name endpoint oc = send_to name (C_Failover endpoint) oc"

text \<open>\<open>shown\<close> is the text of the session id.\<close>

definition session_close :: "SessionRegistry \<Rightarrow> SessionId \<Rightarrow> string \<Rightarrow> 't Orchestrator \<Rightarrow> (spt_error, nat \<times> Control) result" where
  "session_close reg sid shown oc =
     (case registry_get sid reg of
        None \<Rightarrow> Inl (Err_SessionNotFound shown)
      | Some row \<Rightarrow> send_to (row_profile row) C_CloseSession oc)"

definition session_drain :: "string \<Rightarrow> duration \<Rightarrow> 't Orchestrator \<Rightarrow> (spt_error, nat \<times> Control) result" where
  "session_drain name grace oc = send_to name (C_Drain grace) oc"

section \<open>Interleaving\<close>

text \<open>
  What is left to do of an operation that other threads can interrupt between its critical sections.  The thread of an
  operation is the list of what is left; the stops of a shutdown are threads of their own.
\<close>

datatype 't op =
    Op_Start "'t Profile"
  | Op_Remove "'t Profile"
  | Op_Drop "'t task"
  | Op_Spawn "'t Profile"
  | Op_Insert "'t Profile" nat
  | Op_Stop string
  | Op_Await nat
  | Op_Apply "ReloadAction list"
  | Op_Shutdown

definition restart_ops :: "(string \<Rightarrow> 't Profile option) \<Rightarrow> string \<Rightarrow> 't op list" where
  "restart_ops provider n = (case provider n of Some p \<Rightarrow> [Op_Stop (p_name p), Op_Start p] | None \<Rightarrow> [])"

fun forward_restarts :: "ReloadAction list \<Rightarrow> string list \<Rightarrow> string list" where
  "forward_restarts [] fr = fr"
| "forward_restarts (a # as) fr =
     (case a of
        AddForward n _ \<Rightarrow> forward_restarts as (if n \<in> set fr then fr else fr @ [n])
      | RemoveForward n _ \<Rightarrow> forward_restarts as (if n \<in> set fr then fr else fr @ [n])
      | RestartForward n _ \<Rightarrow> forward_restarts as (if n \<in> set fr then fr else fr @ [n])
      | _ \<Rightarrow> forward_restarts as fr)"

definition action_ops :: "(string \<Rightarrow> 't Profile option) \<Rightarrow> ReloadAction \<Rightarrow> 't op list" where
  "action_ops provider a =
     (case a of
        StopProfile n \<Rightarrow> [Op_Stop n]
      | StartProfile n \<Rightarrow> restart_ops provider n
      | RestartProfile n \<Rightarrow> restart_ops provider n
      | _ \<Rightarrow> [])"

definition apply_ops :: "(string \<Rightarrow> 't Profile option) \<Rightarrow> ReloadAction list \<Rightarrow> 't op list" where
  "apply_ops provider plan =
     concat (map (action_ops provider) plan) @ concat (map (restart_ops provider) (forward_restarts plan []))"

text \<open>One section: what the thread does next, the threads it starts, and the new state.\<close>

definition op_step ::
  "(string \<Rightarrow> 't Profile option) \<Rightarrow> 't op \<Rightarrow> 't Orchestrator \<Rightarrow> 't op list \<times> 't op list list \<times> 't Orchestrator" where
  "op_step provider op oc =
     (case op of
        Op_Start p \<Rightarrow> (if oc_shutting_down oc then [] else [Op_Remove p], [], oc)
      | Op_Remove p \<Rightarrow>
          (let (displaced, oc) = take_profile (p_name p) oc
           in ((case displaced of Some t \<Rightarrow> [Op_Drop t] | None \<Rightarrow> []) @ (if p_enabled p = Some False then [] else [Op_Spawn p]), [], oc))
      | Op_Drop t \<Rightarrow> ([], [], drop_task (Some t) oc)
      | Op_Spawn p \<Rightarrow> (let (tid, oc) = spawn_task oc in ([Op_Insert p tid], [], oc))
      | Op_Insert p tid \<Rightarrow> ([], [], insert_profile p tid oc)
      | Op_Stop n \<Rightarrow>
          (let (sup, oc) = take_profile n oc
           in (case sup of Some (tid, _) \<Rightarrow> [Op_Await tid] | None \<Rightarrow> [], [], oc))
      | Op_Await tid \<Rightarrow> ([], [], await_stop tid oc)
      | Op_Apply plan \<Rightarrow> (if oc_shutting_down oc then [] else apply_ops provider plan, [], oc)
      | Op_Shutdown \<Rightarrow> (let (tids, oc) = drain_profiles oc in ([], map (\<lambda>tid. [Op_Await tid]) tids, oc)))"

type_synonym 't pool = "'t op list list"

inductive pool_step ::
  "(string \<Rightarrow> 't Profile option) \<Rightarrow> 't pool \<times> 't Orchestrator \<Rightarrow> 't pool \<times> 't Orchestrator \<Rightarrow> bool" for provider where
  pool_stepI: "i < length pool \<Longrightarrow> pool ! i = op # rest \<Longrightarrow> op_step provider op oc = (cont, started, oc') \<Longrightarrow>
     pool_step provider (pool, oc) (pool[i := cont @ rest] @ started, oc')"

inductive_cases pool_stepE: "pool_step provider (pool, oc) c"

text \<open>A new request joins the pool at any time.\<close>

fun is_request :: "'t op \<Rightarrow> bool" where
  "is_request (Op_Start p) \<longleftrightarrow> True"
| "is_request (Op_Stop n) \<longleftrightarrow> True"
| "is_request (Op_Apply plan) \<longleftrightarrow> True"
| "is_request Op_Shutdown \<longleftrightarrow> True"
| "is_request _ \<longleftrightarrow> False"

inductive reachable :: "(string \<Rightarrow> 't Profile option) \<Rightarrow> 't pool \<times> 't Orchestrator \<Rightarrow> bool" for provider where
  reach_new: "reachable provider ([], orch_new)"
| reach_request: "reachable provider (pool, oc) \<Longrightarrow> is_request r \<Longrightarrow> reachable provider (pool @ [[r]], oc)"
| reach_step: "reachable provider c \<Longrightarrow> pool_step provider c c' \<Longrightarrow> reachable provider c'"

section \<open>One thread alone\<close>

abbreviation solo :: "(string \<Rightarrow> 't Profile option) \<Rightarrow> 't op list \<times> 't Orchestrator \<Rightarrow> 't op list \<times> 't Orchestrator \<Rightarrow> bool" where
  "solo provider a b \<equiv> (pool_step provider)\<^sup>*\<^sup>* ([fst a], snd a) ([fst b], snd b)"

lemma solo_op: "op_step provider op oc = (cont, [], oc') \<Longrightarrow> pool_step provider ([op # rest], oc) ([cont @ rest], oc')"
  using pool_stepI [of 0 "[op # rest]" op rest provider oc cont "[]" oc'] by simp

lemma solo_start: "solo provider (Op_Start p # rest, oc) (rest, start_profile p oc)"
proof (cases "oc_shutting_down oc")
  case True
  then have "op_step provider (Op_Start p) oc = ([], [], oc)" by (simp add: op_step_def)
  from solo_op [OF this] show ?thesis using True by (auto simp: start_profile_def)
next
  case False
  let ?more = "if p_enabled p = Some False then [] else [Op_Spawn p]"
  define oc1 where "oc1 = drop_task (running oc (p_name p)) (snd (take_profile (p_name p) oc))"
  have s1: "op_step provider (Op_Start p) oc = ([Op_Remove p], [], oc)" using False by (simp add: op_step_def)
  have s2: "op_step provider (Op_Remove p) oc =
      ((case running oc (p_name p) of Some t \<Rightarrow> [Op_Drop t] | None \<Rightarrow> []) @ ?more, [], snd (take_profile (p_name p) oc))"
    by (simp add: op_step_def take_profile_def)
  have s3: "op_step provider (Op_Drop t) oc' = ([], [], drop_task (Some t) oc')" for t oc' by (simp add: op_step_def)
  have removed: "solo provider (Op_Remove p # rest, oc) (?more @ rest, oc1)"
    using solo_op [OF s2, where rest = rest] solo_op [OF s3, where rest = "?more @ rest"]
    by (cases "running oc (p_name p)") (auto simp: oc1_def drop_task_def [of None] intro: converse_rtranclp_into_rtranclp [OF _ r_into_rtranclp])
  have "solo provider (?more @ rest, oc1) (rest, start_profile p oc)"
  proof (cases "p_enabled p = Some False")
    case True
    then show ?thesis using False by (simp add: start_profile_def oc1_def take_profile_def)
  next
    case enabled: False
    obtain tid oc2 where sp: "spawn_task oc1 = (tid, oc2)" by (cases "spawn_task oc1")
    have s4: "op_step provider (Op_Spawn p) oc1 = ([Op_Insert p tid], [], oc2)" by (simp add: op_step_def sp)
    have s5: "op_step provider (Op_Insert p tid) oc2 = ([], [], insert_profile p tid oc2)" by (simp add: op_step_def)
    have "start_profile p oc = insert_profile p tid oc2"
      using False enabled sp by (simp add: start_profile_def oc1_def take_profile_def)
    then show ?thesis using solo_op [OF s4, of rest] solo_op [OF s5, of rest] enabled by (simp add: converse_rtranclp_into_rtranclp)
  qed
  with removed solo_op [OF s1, of rest] show ?thesis by (auto intro: converse_rtranclp_into_rtranclp rtranclp_trans)
qed

lemma solo_stop: "solo provider (Op_Stop n # rest, oc) (rest, stop_profile n oc)"
proof -
  obtain sup oc1 where t: "take_profile n oc = (sup, oc1)" by (cases "take_profile n oc")
  have s1: "op_step provider (Op_Stop n) oc = (case sup of Some (tid, _) \<Rightarrow> [Op_Await tid] | None \<Rightarrow> [], [], oc1)"
    by (simp add: op_step_def t)
  have s2: "op_step provider (Op_Await tid) oc1 = ([], [], await_stop tid oc1)" for tid by (simp add: op_step_def)
  show ?thesis using solo_op [OF s1, where rest = rest] solo_op [OF s2, where rest = rest]
    by (cases sup) (auto simp: stop_profile_def t intro: converse_rtranclp_into_rtranclp [OF _ r_into_rtranclp])
qed

lemma solo_restart: "solo provider (restart_ops provider n @ rest, oc) (rest, restart_provided provider n oc)"
proof (cases "provider n")
  case (Some p)
  then show ?thesis
    using solo_stop [of provider "p_name p" "Op_Start p # rest" oc] solo_start [of provider p rest "stop_profile (p_name p) oc"]
    by (simp add: restart_ops_def restart_provided_def restart_profile_def)
qed (simp add: restart_ops_def restart_provided_def)

lemma solo_restarts:
  "solo provider (concat (map (restart_ops provider) ns) @ rest, oc) (rest, fold (restart_provided provider) ns oc)"
proof (induction ns arbitrary: oc)
  case (Cons n ns)
  then show ?case
    using solo_restart [of provider n "concat (map (restart_ops provider) ns) @ rest" oc]
    by (auto intro: rtranclp_trans)
qed simp

lemma solo_actions:
  "solo provider (concat (map (action_ops provider) as) @ rest, oc) (rest, snd (apply_actions provider as fr oc))
   \<and> fst (apply_actions provider as fr oc) = forward_restarts as fr"
proof (induction as arbitrary: oc fr)
  case (Cons a as)
  have "solo provider (action_ops provider a @ r, oc)
      (r, case a of StopProfile n \<Rightarrow> stop_profile n oc | StartProfile n \<Rightarrow> restart_provided provider n oc
           | RestartProfile n \<Rightarrow> restart_provided provider n oc | _ \<Rightarrow> oc)" for r
    using solo_stop [of provider _ r oc] solo_restart [of provider _ r oc] by (cases a) (simp_all add: action_ops_def)
  from this [of "concat (map (action_ops provider) as) @ rest"] show ?case
    by (cases a) (use Cons.IH in \<open>auto intro: rtranclp_trans\<close>)
qed simp

text \<open>Alone, the threads do what the operations do.\<close>

lemma solo_apply: "solo provider (Op_Apply plan # rest, oc) (rest, apply_plan provider plan oc)"
proof (cases "oc_shutting_down oc")
  case True
  then have "op_step provider (Op_Apply plan) oc = ([], [], oc)" by (simp add: op_step_def)
  from solo_op [OF this] show ?thesis using True by (auto simp: apply_plan_def)
next
  case False
  then have "op_step provider (Op_Apply plan) oc = (apply_ops provider plan, [], oc)" by (simp add: op_step_def)
  from solo_op [OF this, of rest]
  have s: "pool_step provider ([Op_Apply plan # rest], oc) ([apply_ops provider plan @ rest], oc)" .
  obtain fr oc1 where a: "apply_actions provider plan [] oc = (fr, oc1)" by (cases "apply_actions provider plan [] oc")
  have "solo provider (apply_ops provider plan @ rest, oc) (rest, fold (restart_provided provider) fr oc1)"
    using solo_actions [of provider plan "concat (map (restart_ops provider) fr) @ rest" oc "[]"] solo_restarts [of provider fr rest oc1] a
    by (auto simp: apply_ops_def intro: rtranclp_trans)
  then show ?thesis using s False a by (auto simp: apply_plan_def intro: converse_rtranclp_into_rtranclp)
qed

section \<open>Accounting of tasks\<close>

definition mapped :: "(string \<times> 't task) list \<Rightarrow> nat multiset" where
  "mapped al = mset (map (fst \<circ> snd) al)"

fun op_tids :: "'t op \<Rightarrow> nat multiset" where
  "op_tids (Op_Insert p tid) = {#tid#}"
| "op_tids (Op_Await tid) = {#tid#}"
| "op_tids (Op_Drop t) = {#fst t#}"
| "op_tids _ = {#}"

definition held :: "'t op list \<Rightarrow> nat multiset" where
  "held ops = sum_list (map op_tids ops)"

lemma held_simps [simp]: "held [] = {#}" "held (op # ops) = op_tids op + held ops" "held (ops @ ops') = held ops + held ops'"
  by (simp_all add: held_def)

lemma mapped_simps [simp]: "mapped [] = {#}" "mapped ((n, tid, p) # al) = add_mset tid (mapped al)"
  by (simp_all add: mapped_def)

text \<open>Every live task is accounted for exactly once: by the map, or by a thread that is about to insert, drop or await it.\<close>

definition accounts :: "'t Orchestrator \<Rightarrow> nat multiset \<Rightarrow> bool" where
  "accounts oc m \<longleftrightarrow> distinct (map fst (oc_profiles oc)) \<and> finite (oc_live oc) \<and> (\<forall>tid \<in> oc_live oc. tid < oc_next oc)
     \<and> mapped (oc_profiles oc) + m = mset_set (oc_live oc) \<and> (oc_shutting_down oc \<longrightarrow> oc_profiles oc = [])"

lemma mapped_delete_None: "map_of al n = None \<Longrightarrow> AList.delete n al = al"
  by (simp add: delete_id map_of_eq_None_iff)

lemma mapped_delete: "distinct (map fst al) \<Longrightarrow> map_of al n = Some (tid, p) \<Longrightarrow> mapped al = add_mset tid (mapped (AList.delete n al))"
proof (induction al)
  case (Cons x al)
  obtain k t q where x: "x = (k, t, q)" by (cases x)
  show ?case
  proof (cases "k = n")
    case True
    then have "AList.delete n al = al" using Cons.prems x by (intro delete_id) auto
    then show ?thesis using True Cons.prems x by simp
  qed (use Cons x in simp)
qed simp

lemma mapped_update: "distinct (map fst al) \<Longrightarrow> mapped (AList.update n (tid, p) al) = add_mset tid (mapped (AList.delete n al))"
proof (induction al)
  case (Cons x al)
  obtain k t q where x: "x = (k, t, q)" by (cases x)
  show ?case
  proof (cases "k = n")
    case True
    then have "AList.delete n al = al" using Cons.prems x by (intro delete_id) auto
    then show ?thesis using True x by simp
  qed (use Cons x in simp)
qed simp

lemma drop_task_fields [simp]:
  "oc_profiles (drop_task d oc) = oc_profiles oc" "oc_next (drop_task d oc) = oc_next oc"
  "oc_shutting_down (drop_task d oc) = oc_shutting_down oc"
  "oc_live (drop_task d oc) = oc_live oc - (case d of Some (tid, _) \<Rightarrow> {tid} | None \<Rightarrow> {})"
  by (simp_all add: drop_task_def split: option.split prod.split)

lemma live_minus:
  assumes "m + m' = mset_set live" "finite live" "add_mset tid m'' = m + m'"
  shows "m'' = mset_set (live - {tid})"
proof -
  have "tid \<in> live" using assms by (metis count_add_mset count_mset_set(3) nat.distinct(1))
  then have "mset_set (live - {tid}) = mset_set live - {#tid#}" using assms(2) by (simp add: mset_set_Diff)
  then show ?thesis using assms by (metis add_mset_remove_trivial)
qed

lemma accounts_take:
  assumes "accounts oc m"
  shows "case running oc n of
      None \<Rightarrow> accounts (snd (take_profile n oc)) m
    | Some (tid, p) \<Rightarrow> accounts (snd (take_profile n oc)) (add_mset tid m)"
proof (cases "running oc n")
  case None
  then show ?thesis using assms by (simp add: accounts_def take_profile_def running_def mapped_delete_None)
next
  case (Some t)
  obtain tid p where t: "t = (tid, p)" by (cases t)
  then have "mapped (oc_profiles oc) = add_mset tid (mapped (AList.delete n (oc_profiles oc)))"
    using assms Some by (intro mapped_delete [of _ _ _ p]) (simp_all add: accounts_def running_def)
  moreover have "distinct (map fst (AList.delete n (oc_profiles oc)))" using assms by (simp add: accounts_def distinct_delete)
  ultimately show ?thesis using assms Some t by (auto simp: accounts_def take_profile_def)
qed

lemma accounts_await: "accounts oc (add_mset tid m) \<Longrightarrow> accounts (await_stop tid oc) m"
  using live_minus [of "mapped (oc_profiles oc)" "add_mset tid m" "oc_live oc" tid "mapped (oc_profiles oc) + m"]
  by (auto simp: accounts_def await_stop_def)

lemma accounts_drop: "accounts oc (add_mset tid m) \<Longrightarrow> accounts (drop_task (Some (tid, p)) oc) m"
  using accounts_await [of oc tid m] by (simp add: drop_task_def await_stop_def)

lemma accounts_spawn: "accounts oc m \<Longrightarrow> spawn_task oc = (tid, oc') \<Longrightarrow> accounts oc' (add_mset tid m)"
  by (auto simp: accounts_def spawn_task_def less_Suc_eq)

lemma accounts_insert:
  assumes "accounts oc (add_mset tid m)"
  shows "accounts (insert_profile p tid oc) m"
proof (cases "oc_shutting_down oc")
  case True
  then show ?thesis using accounts_drop [OF assms] by (simp add: insert_profile_def)
next
  case False
  let ?al = "oc_profiles oc" and ?n = "p_name p"
  define oc1 where "oc1 = drop_task (running oc ?n) oc"
  have d: "distinct (map fst ?al)" using assms by (simp add: accounts_def)
  have live: "mapped (AList.delete ?n ?al) + add_mset tid m = mset_set (oc_live oc1)"
  proof (cases "running oc ?n")
    case None
    then show ?thesis using assms by (simp add: oc1_def accounts_def running_def mapped_delete_None)
  next
    case (Some t)
    obtain dis q where t: "t = (dis, q)" by (cases t)
    have "mapped ?al = add_mset dis (mapped (AList.delete ?n ?al))"
      using Some t d by (intro mapped_delete [of _ _ _ q]) (simp_all add: running_def)
    then have "mapped (AList.delete ?n ?al) + add_mset tid m = mset_set (oc_live oc - {dis})"
      using assms by (intro live_minus [of "mapped ?al" "add_mset tid m"]) (auto simp: accounts_def add_mset_commute)
    then show ?thesis using Some t by (simp add: oc1_def)
  qed
  have "distinct (map fst (AList.update ?n (tid, p) ?al))" using d by (simp add: distinct_update)
  then show ?thesis using False live d assms mapped_update [OF d, of ?n tid p]
    by (auto simp: insert_profile_def accounts_def oc1_def)
qed

lemma held_concat: "(\<And>x. held (f x) = {#}) \<Longrightarrow> held (concat (map f xs)) = {#}"
  by (induction xs) simp_all

lemma held_awaits: "sum_list (map held (map (\<lambda>tid. [Op_Await tid]) tids)) = mset tids"
  by (induction tids) simp_all

lemma op_step_accounts:
  assumes "accounts oc (op_tids op + m)" "op_step provider op oc = (cont, started, oc')"
  shows "accounts oc' (held cont + sum_list (map held started) + m)"
proof (cases op)
  case (Op_Start p)
  then show ?thesis using assms by (auto simp: op_step_def)
next
  case (Op_Remove p)
  then show ?thesis using assms accounts_take [of oc m "p_name p"]
    by (cases "running oc (p_name p)") (auto simp: op_step_def take_profile_def split: prod.splits)
next
  case (Op_Drop t)
  then show ?thesis using assms accounts_drop [of oc "fst t" m "snd t"] by (auto simp: op_step_def)
next
  case (Op_Spawn p)
  then show ?thesis using assms accounts_spawn [of oc m] by (auto simp: op_step_def split: prod.splits)
next
  case (Op_Insert p tid)
  then show ?thesis using assms accounts_insert [of oc tid m p] by (auto simp: op_step_def)
next
  case (Op_Stop n)
  then show ?thesis using assms accounts_take [of oc m n]
    by (cases "running oc n") (auto simp: op_step_def take_profile_def split: prod.splits)
next
  case (Op_Await tid)
  then show ?thesis using assms accounts_await [of oc tid m] by (auto simp: op_step_def)
next
  case (Op_Apply plan)
  have "held (restart_ops provider n) = {#}" for n by (simp add: restart_ops_def split: option.split)
  moreover from this have "held (action_ops provider a) = {#}" for a by (cases a) (simp_all add: action_ops_def)
  ultimately have "held (apply_ops provider plan) = {#}" by (simp add: apply_ops_def held_concat)
  then show ?thesis using assms Op_Apply by (auto simp: op_step_def)
next
  case Op_Shutdown
  then have s: "started = map (\<lambda>tid. [Op_Await tid]) (map (fst \<circ> snd) (oc_profiles oc))" "cont = []"
    "oc' = oc\<lparr>oc_profiles := [], oc_overrides := {}, oc_shutting_down := True\<rparr>"
    using assms(2) by (auto simp: op_step_def drain_profiles_def)
  have "sum_list (map held started) = mapped (oc_profiles oc)" unfolding s(1) held_awaits mapped_def ..
  then show ?thesis using assms(1) Op_Shutdown s(2,3) by (simp add: accounts_def)
qed

lemma pool_step_split:
  assumes "pool_step provider (pool, oc) c"
  obtains us op rest vs cont started oc' where "pool = us @ (op # rest) # vs"
    "c = (us @ (cont @ rest) # vs @ started, oc')" "op_step provider op oc = (cont, started, oc')"
proof -
  obtain i op rest cont started oc' where s: "i < length pool" "pool ! i = op # rest" "op_step provider op oc = (cont, started, oc')"
    "c = (pool[i := cont @ rest] @ started, oc')"
    using assms by (auto elim: pool_stepE)
  have "pool = take i pool @ (op # rest) # drop (Suc i) pool" using s(1,2) by (metis id_take_nth_drop)
  moreover have "pool[i := cont @ rest] = take i pool @ (cont @ rest) # drop (Suc i) pool" using s(1) by (simp add: upd_conv_take_nth_drop)
  ultimately show thesis using that s(3,4) by (metis append.assoc append_Cons)
qed

lemma reachable_accounts: "reachable provider c \<Longrightarrow> accounts (snd c) (sum_list (map held (fst c)))"
proof (induction rule: reachable.induct)
  case reach_new
  then show ?case by (simp add: accounts_def orch_new_def)
next
  case (reach_request pool oc r)
  then show ?case by (cases r) simp_all
next
  case (reach_step c c')
  obtain us op rest vs cont started oc' where p: "fst c = us @ (op # rest) # vs"
    "c' = (us @ (cont @ rest) # vs @ started, oc')" "op_step provider op (snd c) = (cont, started, oc')"
    using reach_step.hyps(2) by (cases c) (auto elim: pool_step_split)
  show ?case
    using op_step_accounts [OF _ p(3), of "held rest + sum_list (map held us) + sum_list (map held vs)"] reach_step.IH p(1,2)
    by (simp add: ac_simps)
qed

section \<open>Every run of the threads ends\<close>

fun op_rank :: "'t op \<Rightarrow> nat" where
  "op_rank (Op_Await tid) = 1"
| "op_rank (Op_Stop n) = 1"
| "op_rank (Op_Drop t) = 1"
| "op_rank (Op_Insert p tid) = 2"
| "op_rank (Op_Spawn p) = 3"
| "op_rank (Op_Remove p) = 4"
| "op_rank (Op_Start p) = 5"
| "op_rank (Op_Apply plan) = 1 + 6 * length plan"
| "op_rank Op_Shutdown = 1"

definition thread_rank :: "'t op list \<Rightarrow> nat" where
  "thread_rank ops = sum_list (map op_rank ops)"

lemma thread_rank_simps [simp]:
  "thread_rank [] = 0" "thread_rank (op # ops) = op_rank op + thread_rank ops"
  "thread_rank (ops @ ops') = thread_rank ops + thread_rank ops'"
  by (simp_all add: thread_rank_def)

definition pool_rank :: "'t pool \<times> 't Orchestrator \<Rightarrow> nat" where
  "pool_rank c = sum_list (map thread_rank (fst c)) + length (oc_profiles (snd c))"

lemma restart_ops_rank: "thread_rank (restart_ops provider n) \<le> 6"
  by (simp add: restart_ops_def split: option.split)

lemma restarts_rank: "thread_rank (concat (map (restart_ops provider) ns)) \<le> 6 * length ns"
proof (induction ns)
  case (Cons n ns)
  then show ?case using restart_ops_rank [of provider n] by simp
qed simp

lemma actions_rank:
  "thread_rank (concat (map (action_ops provider) as)) + 6 * length (forward_restarts as fr) \<le> 6 * length as + 6 * length fr"
proof (induction as arbitrary: fr)
  case (Cons a as)
  show ?case using Cons.IH [of fr] Cons.IH [of "fr @ [about a]"] restart_ops_rank [of provider "about a"]
    by (cases a) (simp_all add: action_ops_def)
qed simp

lemma apply_ops_rank: "thread_rank (apply_ops provider plan) \<le> 6 * length plan"
  using actions_rank [of provider plan "[]"] restarts_rank [of provider "forward_restarts plan []"] by (simp add: apply_ops_def)

lemma length_delete: "length (AList.delete n al) \<le> length al"
  by (simp add: AList.delete_eq)

lemma length_delete_Some: "map_of al n \<noteq> None \<Longrightarrow> length (AList.delete n al) < length al"
  by (auto simp: AList.delete_eq map_of_eq_None_iff intro!: length_filter_less)

lemma length_update: "length (AList.update n v al) \<le> Suc (length al)"
  by (induction al) auto

lemma awaits_rank: "sum_list (map thread_rank (map (\<lambda>tid. [Op_Await tid]) tids)) = length tids"
  by (induction tids) simp_all

lemma op_step_rank:
  assumes "op_step provider op oc = (cont, started, oc')"
  shows "thread_rank cont + sum_list (map thread_rank started) + length (oc_profiles oc') < op_rank op + length (oc_profiles oc)"
proof (cases op)
  case (Op_Remove p)
  show ?thesis
  proof (cases "running oc (p_name p)")
    case None
    then show ?thesis using assms Op_Remove length_delete [of "p_name p" "oc_profiles oc"] by (auto simp: op_step_def take_profile_def)
  next
    case (Some t)
    then show ?thesis using assms Op_Remove length_delete_Some [of "oc_profiles oc" "p_name p"]
      by (auto simp: op_step_def take_profile_def running_def)
  qed
next
  case (Op_Insert p tid)
  then show ?thesis using assms length_update [of "p_name p" "(tid, p)" "oc_profiles oc"] by (auto simp: op_step_def insert_profile_def)
next
  case (Op_Stop n)
  show ?thesis
  proof (cases "running oc n")
    case None
    then show ?thesis using assms Op_Stop length_delete [of n "oc_profiles oc"] by (auto simp: op_step_def take_profile_def)
  next
    case (Some t)
    then show ?thesis using assms Op_Stop length_delete_Some [of "oc_profiles oc" n]
      by (auto simp: op_step_def take_profile_def running_def split: prod.splits)
  qed
next
  case (Op_Apply plan)
  then show ?thesis using assms apply_ops_rank [of provider plan] by (auto simp: op_step_def)
next
  case Op_Shutdown
  then have s: "started = map (\<lambda>tid. [Op_Await tid]) (map (fst \<circ> snd) (oc_profiles oc))" "cont = []" "oc_profiles oc' = []"
    using assms by (auto simp: op_step_def drain_profiles_def)
  have "sum_list (map thread_rank started) = length (oc_profiles oc)" unfolding s(1) awaits_rank by simp
  then show ?thesis using s Op_Shutdown by simp
qed (use assms in \<open>auto simp: op_step_def spawn_task_def await_stop_def\<close>)

lemma pool_step_rank: "pool_step provider c c' \<Longrightarrow> pool_rank c' < pool_rank c"
proof (cases c)
  fix pool oc assume s: "pool_step provider c c'" and c: "c = (pool, oc)"
  obtain us op rest vs cont started oc' where "pool = us @ (op # rest) # vs"
    "c' = (us @ (cont @ rest) # vs @ started, oc')" "op_step provider op oc = (cont, started, oc')"
    using s c by (auto elim: pool_step_split)
  then show ?thesis using op_step_rank [of provider op oc cont started oc'] c by (simp add: pool_rank_def)
qed

lemma stuck_pool: "(\<nexists>c'. pool_step provider (pool, oc) c') \<longleftrightarrow> concat pool = []"
proof
  assume stuck: "\<nexists>c'. pool_step provider (pool, oc) c'"
  show "concat pool = []"
  proof (rule ccontr)
    assume "concat pool \<noteq> []"
    then obtain i op rest where "i < length pool" "pool ! i = op # rest" by (auto simp: in_set_conv_nth neq_Nil_conv)
    moreover obtain cont started oc' where "op_step provider op oc = (cont, started, oc')" by (cases "op_step provider op oc")
    ultimately show False using stuck pool_stepI by blast
  qed
qed (auto elim!: pool_step_split)

section \<open>What a reload leaves running\<close>

lemma stop_fields [simp]:
  "oc_shutting_down (stop_profile n oc) = oc_shutting_down oc" "oc_next (stop_profile n oc) = oc_next oc"
  by (simp_all add: stop_profile_def take_profile_def await_stop_def split: option.split prod.split)

lemma running_stop: "running (stop_profile n oc) m = (if m = n then None else running oc m)"
  by (simp add: stop_profile_def take_profile_def await_stop_def running_def delete_conv split: option.split prod.split)

lemma start_profile_not_down:
  assumes "\<not> oc_shutting_down oc"
  shows "\<not> oc_shutting_down (start_profile p oc)"
    "running (start_profile p oc) m =
      (if m = p_name p then (if disabled p then None else Some (oc_next oc, p)) else running oc m)"
  using assms
  by (simp_all add: start_profile_def insert_profile_def spawn_task_def take_profile_def running_def delete_conv update_conv disabled_def Let_def)

definition own_names :: "(string \<Rightarrow> 't Profile option) \<Rightarrow> bool" where
  "own_names provider \<longleftrightarrow> (\<forall>n p. provider n = Some p \<longrightarrow> p_name p = n)"

lemma restart_provided_not_down:
  assumes "\<not> oc_shutting_down oc" "own_names provider"
  shows "\<not> oc_shutting_down (restart_provided provider n oc)"
    "running (restart_provided provider n oc) m =
      (if m = n then (case provider n of Some p \<Rightarrow> if disabled p then None else Some (oc_next oc, p) | None \<Rightarrow> running oc n)
       else running oc m)"
  using assms by (auto simp: own_names_def restart_provided_def restart_profile_def start_profile_not_down running_stop split: option.split)

text \<open>The actions about a name, on the task of that name: what they leave, up to the number of a task they start.\<close>

definition provided :: "(string \<Rightarrow> 't Profile option) \<Rightarrow> string \<Rightarrow> 't Profile option \<Rightarrow> 't Profile option" where
  "provided provider n q = (case provider n of Some p \<Rightarrow> if disabled p then None else Some p | None \<Rightarrow> q)"

fun act :: "(string \<Rightarrow> 't Profile option) \<Rightarrow> ReloadAction \<Rightarrow> 't Profile option \<Rightarrow> 't Profile option" where
  "act provider (StopProfile n) q = None"
| "act provider (StartProfile n) q = provided provider n q"
| "act provider (RestartProfile n) q = provided provider n q"
| "act provider _ q = q"

fun forward_action :: "ReloadAction \<Rightarrow> bool" where
  "forward_action (StopProfile n) \<longleftrightarrow> False"
| "forward_action (StartProfile n) \<longleftrightarrow> False"
| "forward_action (RestartProfile n) \<longleftrightarrow> False"
| "forward_action _ \<longleftrightarrow> True"

abbreviation profile_of :: "'t Orchestrator \<Rightarrow> string \<Rightarrow> 't Profile option" where
  "profile_of oc n \<equiv> map_option snd (running oc n)"

lemma apply_actions_not_down:
  assumes "\<not> oc_shutting_down oc" "own_names provider"
  shows "\<not> oc_shutting_down (snd (apply_actions provider as fr oc))
    \<and> profile_of (snd (apply_actions provider as fr oc)) n = fold (act provider) (concerning n as) (profile_of oc n)
    \<and> (list_all forward_action (concerning n as) \<longrightarrow> running (snd (apply_actions provider as fr oc)) n = running oc n)"
  using assms(1)
proof (induction as arbitrary: fr oc)
  case (Cons a as)
  note down = restart_provided_not_down [OF Cons.prems assms(2)]
  show ?case
  proof (cases a)
    case (StopProfile k)
    then show ?thesis using Cons.IH [of "stop_profile k oc" fr] Cons.prems by (simp add: running_stop)
  next
    case (StartProfile k)
    then show ?thesis using Cons.IH [of "restart_provided provider k oc" fr] down
      by (auto simp: provided_def split: option.split)
  next
    case (RestartProfile k)
    then show ?thesis using Cons.IH [of "restart_provided provider k oc" fr] down
      by (auto simp: provided_def split: option.split)
  qed (use Cons in simp_all)
qed simp

lemma restarts_not_down:
  assumes "\<not> oc_shutting_down oc" "own_names provider"
  shows "profile_of (fold (restart_provided provider) ns oc) n =
      (if n \<in> set ns then provided provider n (profile_of oc n) else profile_of oc n)
    \<and> (n \<notin> set ns \<longrightarrow> running (fold (restart_provided provider) ns oc) n = running oc n)"
  using assms(1)
proof (induction ns arbitrary: oc)
  case (Cons k ns)
  note down = restart_provided_not_down [OF Cons.prems assms(2)]
  show ?case using Cons.IH [of "restart_provided provider k oc"] down by (auto simp: provided_def split: option.split)
qed simp

lemma forward_restarts_set: "k \<in> set (forward_restarts as fr) \<longleftrightarrow> k \<in> set fr \<or> (\<exists>a \<in> set as. forward_action a \<and> about a = k)"
proof (induction as arbitrary: fr)
  case (Cons a as)
  then show ?case by (cases a) auto
qed simp

lemma apply_plan_not_down:
  assumes "\<not> oc_shutting_down oc" "own_names provider"
  shows "profile_of (apply_plan provider plan oc) n =
      (let q = fold (act provider) (concerning n plan) (profile_of oc n)
       in if list_ex forward_action (concerning n plan) then provided provider n q else q)"
    "concerning n plan = [] \<Longrightarrow> running (apply_plan provider plan oc) n = running oc n"
proof -
  obtain fr oc1 where a: "apply_actions provider plan [] oc = (fr, oc1)" by (cases "apply_actions provider plan [] oc")
  have fr: "n \<in> set fr \<longleftrightarrow> list_ex forward_action (concerning n plan)"
    using solo_actions [of provider plan "[]" oc "[]"] a forward_restarts_set [where k = n and as = plan and fr = "[]"]
    by (auto simp: list_ex_iff)
  have after: "apply_plan provider plan oc = fold (restart_provided provider) fr oc1" using assms(1) a by (simp add: apply_plan_def)
  have acted: "\<not> oc_shutting_down oc1" "profile_of oc1 n = fold (act provider) (concerning n plan) (profile_of oc n)"
    "list_all forward_action (concerning n plan) \<Longrightarrow> running oc1 n = running oc n"
    using apply_actions_not_down [OF assms, where as = plan and fr = "[]" and n = n] a by simp_all
  note restarted = restarts_not_down [OF acted(1) assms(2), of fr n]
  show "profile_of (apply_plan provider plan oc) n =
      (let q = fold (act provider) (concerning n plan) (profile_of oc n)
       in if list_ex forward_action (concerning n plan) then provided provider n q else q)"
    unfolding after Let_def using restarted acted(2) fr by simp
  show "running (apply_plan provider plan oc) n = running oc n" if "concerning n plan = []"
    unfolding after using that restarted acted(3) fr by simp
qed

text \<open>
  The running profiles are those a configuration enables, each with the connection settings and the forwards the
  configuration gives it.
\<close>

definition as_configured :: "'t Profile \<Rightarrow> 't Profile \<Rightarrow> bool" where
  "as_configured q p \<longleftrightarrow> \<not> connection_level_changed q p \<and> set (p_forwards q) = set (p_forwards p)"

definition configured :: "'t Profile list \<Rightarrow> string \<Rightarrow> 't Profile option" where
  "configured cfg n = List.find (\<lambda>p. p_name p = n) cfg"

definition in_sync :: "'t Orchestrator \<Rightarrow> 't Profile list \<Rightarrow> bool" where
  "in_sync oc cfg \<longleftrightarrow>
     (\<forall>n. case (running oc n, configured cfg n) of
        (None, None) \<Rightarrow> True
      | (None, Some p) \<Rightarrow> disabled p
      | (Some _, None) \<Rightarrow> False
      | (Some (tid, q), Some p) \<Rightarrow> \<not> disabled p \<and> as_configured q p)"

definition unique_names :: "'t Profile list \<Rightarrow> bool" where
  "unique_names cfg \<longleftrightarrow> distinct (map p_name cfg) \<and> (\<forall>p \<in> set cfg. distinct (map fw_name (p_forwards p)))"

lemma as_configured_refl [simp]: "as_configured p p"
  by (simp add: as_configured_def connection_level_changed_def)

lemma as_configured_trans: "as_configured p q \<Longrightarrow> as_configured q r \<Longrightarrow> as_configured p r"
  by (simp add: as_configured_def connection_level_changed_def)

lemma as_configured_enabled: "\<not> connection_level_changed q p \<Longrightarrow> disabled q \<longleftrightarrow> disabled p"
  by (simp add: connection_level_changed_def disabled_def)

lemma fold_act_forward: "list_all forward_action as \<Longrightarrow> fold (act provider) as q = q"
proof (induction as)
  case (Cons a as)
  then show ?case by (cases a) simp_all
qed simp

lemma diff_forwards_actions: "list_all forward_action (diff_forwards n old new)"
  by (auto simp: diff_forwards_def removed_forwards_def new_forward_def list_all_iff split: option.splits if_splits)

lemma diff_forwards_same: "distinct (map fw_name fs) \<Longrightarrow> diff_forwards n fs fs = []"
proof -
  assume d: "distinct (map fw_name fs)"
  have "List.find (\<lambda>f. fw_name f = fw_name nf) fs = Some nf" if "nf \<in> set fs" for nf
    using d that by (induction fs) auto
  then show ?thesis by (auto simp: diff_forwards_def removed_forwards_def new_forward_def filter_empty_conv list_ex_iff)
qed

lemma reload_profile:
  assumes "unique_names old" "unique_names new" "\<not> oc_shutting_down oc" "in_sync oc old"
  defines "after \<equiv> apply_plan (configured new) (compute old new) oc"
  shows "case (running after n, configured new n) of
        (None, None) \<Rightarrow> True
      | (None, Some p) \<Rightarrow> disabled p
      | (Some _, None) \<Rightarrow> False
      | (Some (tid, q), Some p) \<Rightarrow> \<not> disabled p \<and> as_configured q p" (is ?sync)
    and "configured old n = Some p \<Longrightarrow> configured new n = Some p' \<Longrightarrow> \<not> connection_level_changed p p' \<Longrightarrow>
      p_forwards p' = p_forwards p \<Longrightarrow> running after n = running oc n"
proof -
  have prov: "own_names (configured new)" unfolding own_names_def configured_def using find_name by blast
  note after = apply_plan_not_down [OF assms(3) prov, where plan = "compute old new", folded after_def]
  have conc: "concerning n (compute old new) =
    (case (configured old n, configured new n) of
       (None, None) \<Rightarrow> []
     | (None, Some np) \<Rightarrow> if disabled np then [] else [StartProfile n]
     | (Some op, None) \<Rightarrow> [StopProfile n]
     | (Some op, Some np) \<Rightarrow>
         if disabled np then (if \<not> disabled op then [StopProfile n] else [])
         else if connection_level_changed op np then [RestartProfile n]
         else diff_forwards n (p_forwards op) (p_forwards np))"
    using compute_concerning [of old new n] assms(1,2) by (simp add: unique_names_def configured_def)
  have sync: "case (running oc n, configured old n) of
        (None, None) \<Rightarrow> True
      | (None, Some p) \<Rightarrow> disabled p
      | (Some _, None) \<Rightarrow> False
      | (Some (tid, q), Some p) \<Rightarrow> \<not> disabled p \<and> as_configured q p"
    using assms(4) by (simp add: in_sync_def)
  have fws: "distinct (map fw_name (p_forwards p))" if "configured old n = Some p" for p
    using that assms(1) find_name by (fastforce simp: configured_def unique_names_def)
  show "running after n = running oc n"
    if "configured old n = Some p" "configured new n = Some p'" "\<not> connection_level_changed p p'" "p_forwards p' = p_forwards p"
    using after(2) [of n] conc that as_configured_enabled [of p p'] diff_forwards_same [OF fws] by simp
  have goal: ?sync
    if "case (profile_of after n, configured new n) of
        (None, None) \<Rightarrow> True
      | (None, Some p) \<Rightarrow> disabled p
      | (Some _, None) \<Rightarrow> False
      | (Some q, Some p) \<Rightarrow> \<not> disabled p \<and> as_configured q p"
    using that by (cases "running after n"; cases "configured new n") auto
  show ?sync
  proof (cases "configured old n"; cases "configured new n")
    fix op np assume old: "configured old n = Some op" and new: "configured new n = Some np"
    show ?sync
    proof (cases "disabled np \<or> connection_level_changed op np")
      case True
      then show ?thesis using after(1) [of n] conc old new sync
        by (intro goal) (auto simp: provided_def split: option.splits)
    next
      case False
      then have c: "concerning n (compute old new) = diff_forwards n (p_forwards op) (p_forwards np)" using conc old new by simp
      have "\<not> disabled op" using False as_configured_enabled by blast
      then obtain tid q where q: "running oc n = Some (tid, q)" "as_configured q op" using sync old by (auto split: option.splits)
      show ?thesis
      proof (cases "diff_forwards n (p_forwards op) (p_forwards np) = []")
        case True
        then have "as_configured op np" using False diff_forwards_Nil [OF True fws [OF old]] by (simp add: as_configured_def)
        then show ?thesis using after(1) [of n] c True q False new as_configured_trans by (intro goal) auto
      next
        case diff: False
        then have "list_ex forward_action (concerning n (compute old new))"
          unfolding c using diff_forwards_actions [of n "p_forwards op" "p_forwards np"]
          by (fastforce simp: list_all_iff list_ex_iff neq_Nil_conv)
        then show ?thesis using after(1) [of n] c new False by (intro goal) (auto simp: provided_def)
      qed
    qed
  qed (use after(1) [of n] conc sync in \<open>auto intro!: goal simp: provided_def split: option.splits if_splits\<close>)
qed

section \<open>Properties\<close>

text \<open>C4:
  However starts, stops, reloads and a shutdown interleave, every live supervisor task is accounted for exactly once: by the
  profile map, or by a thread that is about to insert or abort it or awaits its end.  So when a shutdown has begun the map stays empty,
  and once all threads have finished no supervisor task is alive.
\<close>

theorem no_task_survives_shutdown:
  assumes "reachable provider (pool, oc)"
  shows "mapped (oc_profiles oc) + sum_list (map held pool) = mset_set (oc_live oc)
    \<and> distinct (map fst (oc_profiles oc))
    \<and> (oc_shutting_down oc \<longrightarrow> oc_profiles oc = [] \<and> (concat pool = [] \<longrightarrow> oc_live oc = {}))"
proof -
  have a: "accounts oc (sum_list (map held pool))" using reachable_accounts [OF assms] by simp
  have "sum_list (map held pool) = {#}" if "concat pool = []" using that by (induction pool) simp_all
  with a show ?thesis by (auto simp: accounts_def mset_set_empty_iff)
qed



section \<open>Witnesses\<close>

definition profile_ex :: "string \<Rightarrow> string \<Rightarrow> unit Profile" where
  "profile_ex name host = \<lparr>p_name = name, p_description = None, p_enabled = None, p_protocol = ''ssh2'', p_host = Some host,
     p_port = Some 22, p_endpoint = None, p_acknowledge_experimental = None, p_user = None, p_connect_timeout = None,
     p_dns_resolution = None, p_network_change_reconnect = None, p_startup = None, p_failure_policy = None, p_tags = None,
     p_connection = None, p_crypto = None, p_auth = None, p_trust = None, p_tls = None, p_ssh3 = None, p_keepalive = None,
     p_reconnect = None, p_instability = None, p_failover = None, p_limits = None, p_endpoints = [], p_hops = [],
     p_forwards = [], p_sftp_mounts = [], p_script = None, p_transport = None\<rparr>"

definition old_ex :: "unit Profile list" where
  "old_ex = [profile_ex ''a'' ''h1'', profile_ex ''b'' ''h2'', profile_ex ''c'' ''h3'']"

definition new_ex :: "unit Profile list" where
  "new_ex = [profile_ex ''a'' ''h1'', profile_ex ''b'' ''h9'', profile_ex ''d'' ''h4'']"

definition oc_ex :: "unit Orchestrator" where
  "oc_ex = fold start_profile old_ex orch_new"

text \<open>A reload that keeps one profile, changes one, removes one and adds one.\<close>

lemma oc_ex_profiles:
  "oc_profiles oc_ex = [(''a'', 0, profile_ex ''a'' ''h1''), (''b'', 1, profile_ex ''b'' ''h2''), (''c'', 2, profile_ex ''c'' ''h3'')]"
  "\<not> oc_shutting_down oc_ex"
  by (simp_all add: oc_ex_def old_ex_def orch_new_def start_profile_def take_profile_def drop_task_def running_def
      spawn_task_def insert_profile_def profile_ex_def)

lemma in_sync_ex: "in_sync oc_ex old_ex"
  by (auto simp: in_sync_def running_def oc_ex_profiles configured_def old_ex_def profile_ex_def disabled_def)


text \<open>A start that has spawned its task when the shutdown drains the map: the insert discards the task.\<close>

definition race_start :: "unit pool \<times> unit Orchestrator" where
  "race_start = ([[Op_Insert (profile_ex ''a'' ''h1'') 0], []],
     orch_new\<lparr>oc_shutting_down := True, oc_live := {0}, oc_next := 1\<rparr>)"

definition race_end :: "unit pool \<times> unit Orchestrator" where
  "race_end = ([[], []], orch_new\<lparr>oc_shutting_down := True, oc_next := 1\<rparr>)"

lemma race_reachable: "reachable provider race_end"
proof -
  let ?p = "profile_ex ''a'' ''h1''"
  note step = op_step_def orch_new_def take_profile_def drop_task_def running_def spawn_task_def insert_profile_def drain_profiles_def
  have "reachable provider ([[Op_Start ?p], [Op_Shutdown]], orch_new)"
    using reach_request [OF reach_request [OF reach_new, of "Op_Start ?p"], of Op_Shutdown] by simp
  then have "reachable provider ([[Op_Remove ?p], [Op_Shutdown]], orch_new)"
    by (rule reach_step) (use pool_stepI [of 0 "[[Op_Start ?p], [Op_Shutdown]]" "Op_Start ?p" "[]" provider orch_new] in \<open>simp add: step\<close>)
  then have "reachable provider ([[Op_Spawn ?p], [Op_Shutdown]], orch_new)"
    by (rule reach_step) (use pool_stepI [of 0 "[[Op_Remove ?p], [Op_Shutdown]]" "Op_Remove ?p" "[]" provider orch_new]
        in \<open>simp add: step profile_ex_def\<close>)
  then have "reachable provider ([[Op_Insert ?p 0], [Op_Shutdown]], orch_new\<lparr>oc_live := {0}, oc_next := 1\<rparr>)"
    by (rule reach_step) (use pool_stepI [of 0 "[[Op_Spawn ?p], [Op_Shutdown]]" "Op_Spawn ?p" "[]" provider orch_new]
        in \<open>simp add: step\<close>)
  then have "reachable provider race_start"
    by (rule reach_step) (use pool_stepI [of 1 "[[Op_Insert ?p 0], [Op_Shutdown]]" Op_Shutdown "[]" provider
          "orch_new\<lparr>oc_live := {0}, oc_next := 1\<rparr>"] in \<open>simp add: step race_start_def\<close>)
  then show ?thesis
    by (rule reach_step) (use pool_stepI [of 0 "fst race_start" "Op_Insert ?p 0" "[]" provider "snd race_start"]
        in \<open>simp add: step race_start_def race_end_def\<close>)
qed

theorem no_task_survives_shutdown_witness:
  "reachable (\<lambda>n. None) race_end \<and> oc_live (snd race_end) = {}"
  using no_task_survives_shutdown [of "\<lambda>n. None" "fst race_end" "snd race_end"] race_reachable [of "\<lambda>n. None"]
  by (simp add: race_end_def)

end
