(* ===== verification/Byte_Streams.thy ===== *)
theory Byte_Streams
  imports Utf8 Core_Errors
begin

text \<open>
  Reading from a peer: the outcomes of a read, byte literals and texts, and receive streams.  A receive stream is the bytes the
  peer sends before the stream ends, and how it ends.
\<close>

section \<open>Outcomes\<close>

text \<open>
  A read ends with a value, with an error, with nothing because the peer stays silent (the caller's timeout decides), or in a
  panic.
\<close>

datatype fault = Failed spt_error | Stalled | Panic

abbreviation invalid :: "string \<Rightarrow> (fault, 'a) result" where
  "invalid msg \<equiv> Inl (Failed (Err_InvalidConfig msg))"

abbreviation runtime :: "string \<Rightarrow> (fault, 'a) result" where
  "runtime msg \<equiv> Inl (Failed (Err_RuntimeFailure msg))"

definition slice_from :: "nat \<Rightarrow> bytes \<Rightarrow> (fault, bytes) result" where
  "slice_from n buf = (if n \<le> length buf then Inr (drop n buf) else Inl Panic)"

definition slice_to :: "nat \<Rightarrow> bytes \<Rightarrow> (fault, bytes) result" where
  "slice_to n buf = (if n \<le> length buf then Inr (take n buf) else Inl Panic)"

lemma slice_from_ok [simp]: "n \<le> length buf \<Longrightarrow> slice_from n buf = Inr (drop n buf)"
  by (simp add: slice_from_def)

lemma slice_to_ok [simp]: "n \<le> length buf \<Longrightarrow> slice_to n buf = Inr (take n buf)"
  by (simp add: slice_to_def)

lemma slice_from_Inr: "slice_from n buf = Inr b \<longleftrightarrow> n \<le> length buf \<and> b = drop n buf"
  by (auto simp: slice_from_def)

text \<open>Text as the bytes of the source's byte literals, and bytes as the text of a message.\<close>

definition ascii :: "string \<Rightarrow> bytes" where
  "ascii = map (\<lambda>c. of_nat (of_char c))"

definition text_of :: "bytes \<Rightarrow> string" where
  "text_of = map (\<lambda>b. char_of (unat b))"

lemma text_of_ascii [simp]: "text_of (ascii s) = s"
  by (induction s) (simp_all add: text_of_def ascii_def unat_of_nat)

lemma ascii_inj [simp]: "ascii a = ascii b \<longleftrightarrow> a = b"
  by (metis text_of_ascii)

lemma length_ascii [simp]: "length (ascii s) = length s"
  by (simp add: ascii_def)

lemma ascii_Cons: "ascii (c # s) = of_nat (of_char c) # ascii s"
  by (simp add: ascii_def)

lemma ascii_Nil [simp]: "ascii [] = []"
  by (simp add: ascii_def)

definition hex_digit :: "nat \<Rightarrow> char" where
  "hex_digit d = char_of (if d < 10 then 48 + d else 87 + d)"

definition hex02 :: "byte \<Rightarrow> string" where
  "hex02 b = [hex_digit (unat b div 16), hex_digit (unat b mod 16)]"

section \<open>Streams\<close>

datatype stream_end = Fin | Reset string | Silent

record recv =
  rv_bytes :: bytes
  rv_end :: stream_end

text \<open>\<open>read_exact\<close>: the next \<open>n\<close> bytes, or how the stream ended before them.\<close>

definition take_exact :: "nat \<Rightarrow> recv \<Rightarrow> (stream_end, bytes \<times> recv) result" where
  "take_exact n r =
     (if n \<le> length (rv_bytes r) then Inr (take n (rv_bytes r), r\<lparr>rv_bytes := drop n (rv_bytes r)\<rparr>) else Inl (rv_end r))"

text \<open>A read that ends early, with the text of the I/O error.\<close>

definition io_fault :: "string \<Rightarrow> stream_end \<Rightarrow> fault" where
  "io_fault what e =
     (case e of
        Fin \<Rightarrow> Failed (Err_RuntimeFailure (what @ ''early eof''))
      | Reset msg \<Rightarrow> Failed (Err_RuntimeFailure (what @ msg))
      | Silent \<Rightarrow> Stalled)"

end
