(* ===== verification/Ssh3_Frame.thy ===== *)
theory Ssh3_Frame
  imports Byte_Streams
begin

text \<open>
  The framing of SSH3 streams, \<open>crates/spt-ssh3/src/frame.rs\<close>: frames, the settings exchange and the payloads of the
  open requests and responses.  Strings
  are their UTF-8 bytes; the \<open>extras\<close> of the settings, which the wire does not carry, are kept as they are.
  The detail of a UTF-8 error is left out of its message.
\<close>

section \<open>Buffers\<close>

text \<open>The \<open>Buf\<close> accessors, which panic on a short buffer.\<close>

definition get_bytes :: "nat \<Rightarrow> bytes \<Rightarrow> (fault, bytes \<times> bytes) result" where
  "get_bytes n buf = (if n \<le> length buf then Inr (take n buf, drop n buf) else Inl Panic)"

definition get_u8 :: "bytes \<Rightarrow> (fault, byte \<times> bytes) result" where
  "get_u8 buf = (case buf of [] \<Rightarrow> Inl Panic | b # bs \<Rightarrow> Inr (b, bs))"

definition get_u16 :: "bytes \<Rightarrow> (fault, 16 word \<times> bytes) result" where
  "get_u16 buf = and_then (get_bytes 2 buf) (\<lambda>(b, rest). Inr (be_acc 0 b, rest))"

definition get_u32 :: "bytes \<Rightarrow> (fault, 32 word \<times> bytes) result" where
  "get_u32 buf = and_then (get_bytes 4 buf) (\<lambda>(b, rest). Inr (be_acc 0 b, rest))"

section \<open>Frames\<close>

definition MAX_FRAME_LEN :: nat where
  "MAX_FRAME_LEN = 16 * 1024 * 1024"

datatype Ssh3FrameKind =
    K_Settings | K_DirectTcpRequest | K_ForwardOpenResponse | K_Data | K_Close | K_UdpAssociate | K_AppPing
  | K_RemoteUdpForwardRequest | K_UdsForwardRequest | K_RemoteUdsForwardRequest

fun kind_byte :: "Ssh3FrameKind \<Rightarrow> byte" where
  "kind_byte K_Settings = 0x01"
| "kind_byte K_DirectTcpRequest = 0x02"
| "kind_byte K_ForwardOpenResponse = 0x03"
| "kind_byte K_Data = 0x04"
| "kind_byte K_Close = 0x05"
| "kind_byte K_UdpAssociate = 0x06"
| "kind_byte K_AppPing = 0x07"
| "kind_byte K_RemoteUdpForwardRequest = 0x08"
| "kind_byte K_UdsForwardRequest = 0x09"
| "kind_byte K_RemoteUdsForwardRequest = 0x0A"

definition kind_from_u8 :: "byte \<Rightarrow> Ssh3FrameKind option" where
  "kind_from_u8 v =
     (if v = 0x01 then Some K_Settings
      else if v = 0x02 then Some K_DirectTcpRequest
      else if v = 0x03 then Some K_ForwardOpenResponse
      else if v = 0x04 then Some K_Data
      else if v = 0x05 then Some K_Close
      else if v = 0x06 then Some K_UdpAssociate
      else if v = 0x07 then Some K_AppPing
      else if v = 0x08 then Some K_RemoteUdpForwardRequest
      else if v = 0x09 then Some K_UdsForwardRequest
      else if v = 0x0A then Some K_RemoteUdsForwardRequest
      else None)"

record Ssh3Frame =
  fr_kind :: Ssh3FrameKind
  fr_payload :: bytes

definition frame_new :: "Ssh3FrameKind \<Rightarrow> bytes \<Rightarrow> Ssh3Frame" where
  "frame_new k p = \<lparr>fr_kind = k, fr_payload = p\<rparr>"

definition frame_encode :: "Ssh3Frame \<Rightarrow> bytes" where
  "frame_encode f =
     (let len = min (length (fr_payload f)) u32_max
      in kind_byte (fr_kind f) # be_bytes 4 (of_nat len :: 32 word) @ take len (fr_payload f))"

text \<open>The result and the bytes left in the buffer, which is advanced on errors as well.\<close>

definition frame_decode :: "bytes \<Rightarrow> (fault, Ssh3Frame) result \<times> bytes" where
  "frame_decode buf =
     (if length buf < 5 then (invalid ''ssh3 frame: short header'', buf)
      else
        let kind_raw = hd buf; buf = tl buf in
        case kind_from_u8 kind_raw of
          None \<Rightarrow> (invalid (''ssh3 frame: unknown kind 0x'' @ hex02 kind_raw), buf)
        | Some kind \<Rightarrow>
            let len = unat (be_acc 0 (take 4 buf) :: 32 word); buf = drop 4 buf in
            if MAX_FRAME_LEN < len
            then (invalid (''ssh3 frame: declared length '' @ dec len @ '' exceeds MAX_FRAME_LEN ('' @ dec MAX_FRAME_LEN @ '')''), buf)
            else if length buf < len then (invalid ''ssh3 frame: payload truncated'', buf)
            else (Inr (frame_new kind (take len buf)), drop len buf))"

definition read_async :: "recv \<Rightarrow> (fault, Ssh3Frame \<times> recv) result" where
  "read_async r =
     (case take_exact 5 r of
        Inl e \<Rightarrow> Inl (io_fault ''ssh3 frame: read header: '' e)
      | Inr (header, r) \<Rightarrow>
          case kind_from_u8 (hd header) of
            None \<Rightarrow> invalid (''ssh3 frame: unknown kind 0x'' @ hex02 (hd header))
          | Some kind \<Rightarrow>
              let len = unat (be_acc 0 (tl header) :: 32 word) in
              if MAX_FRAME_LEN < len
              then invalid (''ssh3 frame: declared length '' @ dec len @ '' exceeds MAX_FRAME_LEN ('' @ dec MAX_FRAME_LEN @ '')'')
              else if len = 0 then Inr (frame_new kind [], r)
              else case take_exact len r of
                Inl e \<Rightarrow> Inl (io_fault ''ssh3 frame: read payload: '' e)
              | Inr (payload, r) \<Rightarrow> Inr (frame_new kind payload, r))"

section \<open>Payloads\<close>

text \<open>\<open>u16::try_from(len).unwrap_or(u16::MAX)\<close>, followed by all the bytes.\<close>

definition put_string :: "bytes \<Rightarrow> bytes" where
  "put_string s = be_bytes 2 (if length s \<le> u16_max then of_nat (length s) else 0xFFFF :: 16 word) @ s"

record ChannelOpenPayload =
  co_host :: bytes
  co_port :: "16 word"

definition channel_open_encode :: "ChannelOpenPayload \<Rightarrow> bytes" where
  "channel_open_encode p = put_string (co_host p) @ be_bytes 2 (co_port p)"

definition channel_open_decode :: "bytes \<Rightarrow> (fault, ChannelOpenPayload) result" where
  "channel_open_decode payload =
     (if length payload < 2 then invalid ''ssh3 channel-open: short header''
      else and_then (get_u16 payload) (\<lambda>(hlen, payload).
        if length payload < unat hlen + 2 then invalid ''ssh3 channel-open: truncated''
        else and_then (get_bytes (unat hlen) payload) (\<lambda>(host, payload).
          if \<not> utf8_ok host then invalid ''ssh3 channel-open: host utf8''
          else and_then (get_u16 payload) (\<lambda>(port, _). Inr \<lparr>co_host = host, co_port = port\<rparr>))))"

definition uds_open_encode :: "bytes \<Rightarrow> bytes" where
  "uds_open_encode path = put_string path"

definition uds_open_decode :: "bytes \<Rightarrow> (fault, bytes) result" where
  "uds_open_decode payload =
     (if length payload < 2 then invalid ''ssh3 uds-open: short header''
      else and_then (get_u16 payload) (\<lambda>(plen, payload).
        if length payload < unat plen then invalid ''ssh3 uds-open: truncated''
        else and_then (get_bytes (unat plen) payload) (\<lambda>(path, _).
          if \<not> utf8_ok path then invalid ''ssh3 uds-open: path utf8'' else Inr path)))"

record ForwardOpenResponse =
  fo_ok :: bool
  fo_reason :: bytes

definition open_response_encode :: "ForwardOpenResponse \<Rightarrow> bytes" where
  "open_response_encode r = (if fo_ok r then 1 else 0) # put_string (fo_reason r)"

definition open_response_decode :: "bytes \<Rightarrow> (fault, ForwardOpenResponse) result" where
  "open_response_decode payload =
     (if length payload < 3 then invalid ''ssh3 forward-resp: short''
      else and_then (get_u8 payload) (\<lambda>(okb, payload).
        and_then (get_u16 payload) (\<lambda>(rlen, payload).
        if length payload < unat rlen then invalid ''ssh3 forward-resp: truncated''
        else and_then (get_bytes (unat rlen) payload) (\<lambda>(reason, _).
          if \<not> utf8_ok reason then invalid ''ssh3 forward-resp: utf8''
          else Inr \<lparr>fo_ok = (okb \<noteq> 0), fo_reason = reason\<rparr>))))"

record UdpAssociatePayload =
  ua_flow_id :: "32 word"
  ua_host :: bytes
  ua_port :: "16 word"

definition udp_associate_encode :: "UdpAssociatePayload \<Rightarrow> bytes" where
  "udp_associate_encode p = be_bytes 4 (ua_flow_id p) @ put_string (ua_host p) @ be_bytes 2 (ua_port p)"

definition udp_associate_decode :: "bytes \<Rightarrow> (fault, UdpAssociatePayload) result" where
  "udp_associate_decode payload =
     (if length payload < 6 then invalid ''ssh3 udp-assoc: short''
      else and_then (get_u32 payload) (\<lambda>(flow, payload).
        and_then (get_u16 payload) (\<lambda>(hlen, payload).
        if length payload < unat hlen + 2 then invalid ''ssh3 udp-assoc: truncated''
        else and_then (get_bytes (unat hlen) payload) (\<lambda>(host, payload).
          if \<not> utf8_ok host then invalid ''ssh3 udp-assoc: utf8''
          else and_then (get_u16 payload) (\<lambda>(port, _). Inr \<lparr>ua_flow_id = flow, ua_host = host, ua_port = port\<rparr>)))))"

section \<open>Settings\<close>

record Ssh3Settings =
  st_direct_tcp :: bool
  st_remote_tcp :: bool
  st_udp_datagrams :: bool
  st_agent_forwarding :: bool
  st_max_forwards :: "32 word option"
  st_version :: "bytes option"
  st_extras :: "(bytes \<times> bytes) list"

definition satisfies :: "Ssh3Settings \<Rightarrow> Ssh3Settings \<Rightarrow> (spt_error, unit) result" where
  "satisfies s required =
     (let missing =
        (if st_direct_tcp required \<and> \<not> st_direct_tcp s then [''direct_tcp''] else [])
        @ (if st_remote_tcp required \<and> \<not> st_remote_tcp s then [''remote_tcp''] else [])
        @ (if st_udp_datagrams required \<and> \<not> st_udp_datagrams s then [''udp_datagrams''] else [])
        @ (if st_agent_forwarding required \<and> \<not> st_agent_forwarding s then [''agent_forwarding''] else [])
      in if missing = [] then Inr ()
         else Inl (Err_UnsupportedPlatform (''ssh3 peer is missing required capabilities: ''
                     @ concat (hd missing # map (\<lambda>m. '', '' @ m) (tl missing)))))"

definition settings_flags :: "Ssh3Settings \<Rightarrow> byte" where
  "settings_flags s =
     (if st_direct_tcp s then 0x01 else 0) OR (if st_remote_tcp s then 0x02 else 0)
     OR (if st_udp_datagrams s then 0x04 else 0) OR (if st_agent_forwarding s then 0x08 else 0)"

definition settings_encode :: "Ssh3Settings \<Rightarrow> bytes" where
  "settings_encode s =
     settings_flags s # be_bytes 4 (case st_max_forwards s of Some n \<Rightarrow> n | None \<Rightarrow> 0)
     @ put_string (case st_version s of Some v \<Rightarrow> v | None \<Rightarrow> [])"

definition settings_decode :: "bytes \<Rightarrow> (fault, Ssh3Settings) result" where
  "settings_decode payload =
     (if length payload < 7 then invalid ''ssh3 settings: short''
      else and_then (get_u8 payload) (\<lambda>(flags, payload).
        and_then (get_u32 payload) (\<lambda>(mf, payload).
        and_then (get_u16 payload) (\<lambda>(vlen, payload).
        if length payload < unat vlen then invalid ''ssh3 settings: truncated''
        else and_then (get_bytes (unat vlen) payload) (\<lambda>(v, _).
          if \<not> utf8_ok v then invalid ''ssh3 settings: version utf8''
          else Inr \<lparr>st_direct_tcp = (flags AND 0x01 \<noteq> 0), st_remote_tcp = (flags AND 0x02 \<noteq> 0),
                    st_udp_datagrams = (flags AND 0x04 \<noteq> 0), st_agent_forwarding = (flags AND 0x08 \<noteq> 0),
                    st_max_forwards = (if mf = 0 then None else Some mf),
                    st_version = (if v = [] then None else Some v), st_extras = []\<rparr>)))))"

section \<open>Reading back\<close>

lemma get_bytes_append [simp]: "length a = n \<Longrightarrow> get_bytes n (a @ rest) = Inr (a, rest)"
  by (auto simp: get_bytes_def)

lemma get_bytes_0 [simp]: "get_bytes 0 buf = Inr ([], buf)"
  by (simp add: get_bytes_def)

lemma get_u8_Cons [simp]: "get_u8 (b # bs) = Inr (b, bs)"
  by (simp add: get_u8_def)

lemma get_u16_be [simp]: "get_u16 (be_bytes 2 w @ rest) = Inr (w, rest)"
  by (simp add: get_u16_def be_acc_all)

lemma get_u32_be [simp]: "get_u32 (be_bytes 4 w @ rest) = Inr (w, rest)"
  by (simp add: get_u32_def be_acc_all)

lemma kind_from_byte [simp]: "kind_from_u8 (kind_byte k) = Some k"
  by (cases k) (simp_all add: kind_from_u8_def)

lemma kind_byte_from: "kind_from_u8 v = Some k \<Longrightarrow> kind_byte k = v"
  by (auto simp: kind_from_u8_def split: if_splits)

definition small :: "Ssh3Frame \<Rightarrow> bool" where
  "small f \<longleftrightarrow> length (fr_payload f) \<le> MAX_FRAME_LEN"

lemma frame_encode_small:
  "small f \<Longrightarrow> frame_encode f = kind_byte (fr_kind f) # be_bytes 4 (of_nat (length (fr_payload f)) :: 32 word) @ fr_payload f"
  by (simp add: frame_encode_def small_def MAX_FRAME_LEN_def u32_max_def min_def Let_def)

lemma small_length: "small f \<Longrightarrow> unat (of_nat (length (fr_payload f)) :: 32 word) = length (fr_payload f)"
  by (simp add: small_def MAX_FRAME_LEN_def unat_of_nat)

lemma frame_decode_encode: "small f \<Longrightarrow> frame_decode (frame_encode f @ rest) = (Inr f, rest)"
  using small_length [of f]
  by (auto simp: frame_decode_def frame_encode_small frame_new_def be_acc_all small_def Let_def)

lemma read_async_encode: "small f \<Longrightarrow> rv_bytes r = frame_encode f @ rest \<Longrightarrow> read_async r = Inr (f, r\<lparr>rv_bytes := rest\<rparr>)"
  using small_length [of f]
  by (auto simp: read_async_def frame_encode_small take_exact_def frame_new_def be_acc_all small_def Let_def)

text \<open>What is read was written: the bytes consumed are the encoding of the frame.\<close>

lemma take_exact_Inr: "take_exact n r = Inr (b, r') \<longleftrightarrow> n \<le> length (rv_bytes r) \<and> b = take n (rv_bytes r) \<and> r' = r\<lparr>rv_bytes := drop n (rv_bytes r)\<rparr>"
  by (auto simp: take_exact_def)

lemma read_async_Inr:
  assumes "read_async r = Inr (f, r')"
  shows "small f \<and> rv_bytes r = frame_encode f @ rv_bytes r' \<and> rv_end r' = rv_end r"
proof -
  obtain header r1 where h: "take_exact 5 r = Inr (header, r1)" using assms by (auto simp: read_async_def split: sum.splits)
  obtain kind where k: "kind_from_u8 (hd header) = Some kind" using assms h by (auto simp: read_async_def split: option.splits)
  define len where "len = unat (be_acc 0 (tl header) :: 32 word)"
  have len: "len \<le> MAX_FRAME_LEN" using assms h k by (auto simp: read_async_def Let_def len_def split: if_splits)
  have f: "f = frame_new kind (take len (rv_bytes r1)) \<and> r' = r1\<lparr>rv_bytes := drop len (rv_bytes r1)\<rparr> \<and> len \<le> length (rv_bytes r1)"
    using assms h k len
    by (cases "len = 0") (auto simp: read_async_def Let_def len_def take_exact_Inr split: sum.splits if_splits)
  have hl: "length header = 5" "rv_bytes r = header @ rv_bytes r1" "rv_end r1 = rv_end r"
    using h by (auto simp: take_exact_Inr)
  have lh: "length (tl header) = 4" using hl(1) by simp
  have "be_bytes 4 (be_acc 0 (tl header) :: 32 word) = tl header"
    using be_bytes_be_acc [of "tl header" "0 :: 32 word"] lh by simp
  moreover have "(of_nat len :: 32 word) = be_acc 0 (tl header)" by (simp add: len_def)
  moreover have "hd header # tl header = header" using hl(1) by (cases header) simp_all
  moreover have sm: "small f" using f len by (simp add: small_def frame_new_def)
  moreover have "fr_kind f = kind" "fr_payload f = take len (rv_bytes r1)" "length (fr_payload f) = len"
    using f by (simp_all add: frame_new_def)
  ultimately have "frame_encode f = header @ take len (rv_bytes r1)"
    using kind_byte_from [OF k] by (metis frame_encode_small append_Cons)
  then show ?thesis using f hl sm by simp
qed

text \<open>The two decoders agree on a complete buffer.\<close>

lemma frame_decode_read:
  "frame_decode (rv_bytes r) = (Inr f, rest) \<longleftrightarrow> read_async r = Inr (f, r\<lparr>rv_bytes := rest\<rparr>)"
proof
  assume "frame_decode (rv_bytes r) = (Inr f, rest)"
  then show "read_async r = Inr (f, r\<lparr>rv_bytes := rest\<rparr>)"
    by (cases "rv_bytes r") (auto simp: frame_decode_def read_async_def take_exact_def Let_def take_Cons' drop_Cons'
        split: if_splits option.splits)
next
  assume "read_async r = Inr (f, r\<lparr>rv_bytes := rest\<rparr>)"
  from read_async_Inr [OF this] show "frame_decode (rv_bytes r) = (Inr f, rest)" by (simp add: frame_decode_encode)
qed

lemma put_string_short: "length v \<le> u16_max \<Longrightarrow> put_string v = be_bytes 2 (of_nat (length v) :: 16 word) @ v"
  by (simp add: put_string_def)

lemma u16_length: "length v \<le> u16_max \<Longrightarrow> unat (of_nat (length v) :: 16 word) = length v"
  by (simp add: u16_max_def unat_of_nat)

lemma be_bytes_be_acc': "length bs = n \<Longrightarrow> 8 * n \<le> LENGTH('a) \<Longrightarrow> be_bytes n (be_acc 0 bs :: 'a::len word) = bs"
  using be_bytes_be_acc by auto

lemma get_bytes_Inr: "get_bytes n buf = Inr (a, rest) \<longleftrightarrow> buf = a @ rest \<and> length a = n"
  by (auto simp: get_bytes_def)

lemma get_u8_Inr: "get_u8 buf = Inr (b, rest) \<longleftrightarrow> buf = b # rest"
  by (auto simp: get_u8_def split: list.splits)

lemma get_u16_Inr: "get_u16 buf = Inr (w, rest) \<longleftrightarrow> buf = be_bytes 2 w @ rest"
  by (auto simp: get_u16_def and_then_Inr get_bytes_Inr be_acc_all be_bytes_be_acc' [where n = 2])

lemma get_u32_Inr: "get_u32 buf = Inr (w, rest) \<longleftrightarrow> buf = be_bytes 4 w @ rest"
  by (auto simp: get_u32_def and_then_Inr get_bytes_Inr be_acc_all be_bytes_be_acc' [where n = 4])

text \<open>A string the wire can carry.\<close>

definition wire_string :: "bytes \<Rightarrow> bool" where
  "wire_string v \<longleftrightarrow> length v \<le> u16_max \<and> utf8_ok v"

lemma put_string_word: "length v = unat (w :: 16 word) \<Longrightarrow> put_string v = be_bytes 2 w @ v"
  using unsigned_less [of w, where ?'a = nat] by (simp add: put_string_def u16_max_def)

lemma wire_string_unat: "utf8_ok v \<Longrightarrow> length v = unat (w :: 16 word) \<Longrightarrow> wire_string v"
  using unsigned_less [of w, where ?'a = nat] by (simp add: wire_string_def u16_max_def)

lemmas reading = and_then_Inr get_bytes_Inr get_u8_Inr get_u16_Inr get_u32_Inr

lemma channel_open_exact:
  "channel_open_decode bs = Inr p \<longleftrightarrow> wire_string (co_host p) \<and> (\<exists>rest. bs = channel_open_encode p @ rest)"
proof
  assume "channel_open_decode bs = Inr p"
  then show "wire_string (co_host p) \<and> (\<exists>rest. bs = channel_open_encode p @ rest)"
    by (auto simp: channel_open_decode_def reading channel_open_encode_def put_string_word wire_string_unat split: if_splits)
next
  assume "wire_string (co_host p) \<and> (\<exists>rest. bs = channel_open_encode p @ rest)"
  then show "channel_open_decode bs = Inr p"
    by (auto simp: channel_open_decode_def channel_open_encode_def put_string_short wire_string_def u16_length)
qed

lemma uds_open_exact: "uds_open_decode bs = Inr path \<longleftrightarrow> wire_string path \<and> (\<exists>rest. bs = uds_open_encode path @ rest)"
proof
  assume "uds_open_decode bs = Inr path"
  then show "wire_string path \<and> (\<exists>rest. bs = uds_open_encode path @ rest)"
    by (auto simp: uds_open_decode_def reading uds_open_encode_def put_string_word wire_string_unat split: if_splits)
next
  assume "wire_string path \<and> (\<exists>rest. bs = uds_open_encode path @ rest)"
  then show "uds_open_decode bs = Inr path"
    by (auto simp: uds_open_decode_def uds_open_encode_def put_string_short wire_string_def u16_length)
qed

lemma open_response_roundtrip: "wire_string (fo_reason r) \<Longrightarrow> open_response_decode (open_response_encode r @ rest) = Inr r"
  by (auto simp: open_response_decode_def open_response_encode_def put_string_short wire_string_def u16_length)

lemma udp_associate_exact:
  "udp_associate_decode bs = Inr p \<longleftrightarrow> wire_string (ua_host p) \<and> (\<exists>rest. bs = udp_associate_encode p @ rest)"
proof
  assume "udp_associate_decode bs = Inr p"
  then show "wire_string (ua_host p) \<and> (\<exists>rest. bs = udp_associate_encode p @ rest)"
    by (auto simp: udp_associate_decode_def reading udp_associate_encode_def put_string_word wire_string_unat split: if_splits)
next
  assume "wire_string (ua_host p) \<and> (\<exists>rest. bs = udp_associate_encode p @ rest)"
  then show "udp_associate_decode bs = Inr p"
    by (auto simp: udp_associate_decode_def udp_associate_encode_def put_string_short wire_string_def u16_length)
qed

text \<open>Settings the wire can carry: no empty version, no zero limit, no extras.\<close>

definition wire_settings :: "Ssh3Settings \<Rightarrow> bool" where
  "wire_settings s \<longleftrightarrow> st_max_forwards s \<noteq> Some 0 \<and> st_version s \<noteq> Some [] \<and> st_extras s = []
     \<and> (\<forall>v. st_version s = Some v \<longrightarrow> wire_string v)"

lemma settings_flags_read:
  "settings_flags s AND 0x01 \<noteq> 0 \<longleftrightarrow> st_direct_tcp s" "settings_flags s AND 0x02 \<noteq> 0 \<longleftrightarrow> st_remote_tcp s"
  "settings_flags s AND 0x04 \<noteq> 0 \<longleftrightarrow> st_udp_datagrams s" "settings_flags s AND 0x08 \<noteq> 0 \<longleftrightarrow> st_agent_forwarding s"
  by (auto simp: settings_flags_def)

lemma settings_roundtrip: "wire_settings s \<Longrightarrow> settings_decode (settings_encode s @ rest) = Inr s"
  by (cases s; cases "st_version s"; cases "st_max_forwards s")
    (auto simp: settings_decode_def settings_encode_def put_string_short wire_settings_def wire_string_def u16_length settings_flags_read u16_max_def)

section \<open>Hostile peers\<close>

lemma get_no_panic:
  "n \<le> length buf \<Longrightarrow> get_bytes n buf \<noteq> Inl Panic"
  "2 \<le> length buf \<Longrightarrow> \<exists>w. get_u16 buf = Inr (w, drop 2 buf)"
  "4 \<le> length buf \<Longrightarrow> \<exists>w. get_u32 buf = Inr (w, drop 4 buf)"
  "buf \<noteq> [] \<Longrightarrow> get_u8 buf = Inr (hd buf, tl buf)"
  by (auto simp: get_bytes_def get_u16_def get_u32_def get_u8_def split: list.splits)

lemma and_then_panic: "and_then r f = Inl Panic \<longleftrightarrow> r = Inl Panic \<or> (\<exists>x. r = Inr x \<and> f x = Inl Panic)"
  by (cases r) auto

lemma get_panic:
  "get_bytes n buf = Inl Panic \<longleftrightarrow> length buf < n" "get_u8 buf = Inl Panic \<longleftrightarrow> buf = []"
  "get_u16 buf = Inl Panic \<longleftrightarrow> length buf < 2" "get_u32 buf = Inl Panic \<longleftrightarrow> length buf < 4"
  by (auto simp: get_bytes_def get_u16_def get_u32_def get_u8_def split: list.splits)

lemma decoders_no_panic:
  "channel_open_decode bs \<noteq> Inl Panic" "uds_open_decode bs \<noteq> Inl Panic" "open_response_decode bs \<noteq> Inl Panic"
  "udp_associate_decode bs \<noteq> Inl Panic" "settings_decode bs \<noteq> Inl Panic"
  by (auto simp: channel_open_decode_def uds_open_decode_def open_response_decode_def udp_associate_decode_def settings_decode_def
      and_then_panic get_panic reading split: if_splits)

text \<open>
  A host name of more than 65535 bytes and its port are written without an error, but the length written is 65535: the reader
  takes a prefix of the name for the host and the next two bytes of the name for the port.
\<close>

lemma long_host_misread:
  assumes "u16_max + 2 \<le> length (co_host p)" "utf8_ok (take u16_max (co_host p))"
  shows "channel_open_decode (channel_open_encode p) =
    Inr \<lparr>co_host = take u16_max (co_host p), co_port = be_acc 0 (take 2 (drop u16_max (co_host p)))\<rparr>"
  using assms
  by (auto simp: channel_open_decode_def channel_open_encode_def put_string_def u16_max_def get_bytes_def get_u16_def be_acc_all)

section \<open>Properties\<close>

fun read_frames :: "nat \<Rightarrow> recv \<Rightarrow> (fault, Ssh3Frame list \<times> recv) result" where
  "read_frames 0 r = Inr ([], r)"
| "read_frames (Suc n) r = and_then (read_async r) (\<lambda>(f, r). and_then (read_frames n r) (\<lambda>(fs, r). Inr (f # fs, r)))"

lemma read_frames_encode:
  "(\<forall>f \<in> set fs. small f) \<Longrightarrow> rv_bytes r = concat (map frame_encode fs) @ rest \<Longrightarrow> read_frames (length fs) r = Inr (fs, r\<lparr>rv_bytes := rest\<rparr>)"
proof (induction fs arbitrary: r)
  case (Cons f fs)
  then show ?case using read_async_encode [of f r "concat (map frame_encode fs) @ rest"] by simp
qed simp

lemma read_frames_Inr:
  "read_frames n r = Inr (fs, r') \<Longrightarrow>
     length fs = n \<and> (\<forall>f \<in> set fs. small f) \<and> rv_bytes r = concat (map frame_encode fs) @ rv_bytes r' \<and> rv_end r' = rv_end r"
proof (induction n arbitrary: r fs)
  case (Suc n)
  then show ?case by (auto simp: and_then_Inr dest!: read_async_Inr Suc.IH)
qed auto

text \<open>C27:
  The framing of SSH3 streams is exact.  Reading \<open>n\<close> frames off a stream gives \<open>fs\<close> and leaves \<open>rest\<close> if and only if the stream
  is the concatenated encodings of \<open>fs\<close> followed by \<open>rest\<close>, \<open>fs\<close> are \<open>n\<close> frames, and none has a payload of more than 16 MiB.  So
  frames that were written are read back, whatever follows them, and no other bytes are taken for them.
\<close>

theorem frame_stream_exact:
  "read_frames n r = Inr (fs, r') \<longleftrightarrow>
     length fs = n \<and> (\<forall>f \<in> set fs. length (fr_payload f) \<le> MAX_FRAME_LEN)
     \<and> rv_bytes r = concat (map frame_encode fs) @ rv_bytes r' \<and> rv_end r' = rv_end r"
  (is "_ \<longleftrightarrow> ?written")
proof
  assume "read_frames n r = Inr (fs, r')"
  then show ?written using read_frames_Inr by (fastforce simp: small_def)
next
  assume w: ?written
  then have "read_frames (length fs) r = Inr (fs, r\<lparr>rv_bytes := rv_bytes r'\<rparr>)"
    by (intro read_frames_encode) (auto simp: small_def)
  moreover have "r\<lparr>rv_bytes := rv_bytes r'\<rparr> = r'" using w by simp
  ultimately show "read_frames n r = Inr (fs, r')" using w by simp
qed

theorem frame_stream_exact_witness:
  "read_frames 2
      \<lparr>rv_bytes = frame_encode (frame_new K_AppPing []) @ frame_encode (frame_new K_Data [104, 105]) @ [99], rv_end = Fin\<rparr> =
     Inr ([frame_new K_AppPing [], frame_new K_Data [104, 105]], \<lparr>rv_bytes = [99], rv_end = Fin\<rparr>)"
  by (subst frame_stream_exact) (simp add: frame_new_def MAX_FRAME_LEN_def)

end
