(* ===== verification/Ssh3_H3.thy ===== *)
theory Ssh3_H3
  imports Ssh3_Frame
begin

text \<open>
  The hand-written HTTP/3 of the SSH3 transport: \<open>crates/spt-ssh3/src/h3_raw.rs\<close> (QUIC variable-length integers, the QPACK
  subset, HEADERS frames, and the Extended CONNECT of the client).
\<close>

section \<open>Variable-length integers\<close>

definition write_varint :: "nat \<Rightarrow> bytes" where
  "write_varint v =
     (if v < 2 ^ 6 then [of_nat v]
      else if v < 2 ^ 14 then be_bytes 2 (0x4000 OR of_nat v :: 16 word)
      else if v < 2 ^ 30 then be_bytes 4 (0x80000000 OR of_nat v :: 32 word)
      else if v < 2 ^ 62 then be_bytes 8 (0xC000000000000000 OR of_nat v :: 64 word)
      else be_bytes 8 (0xC000000000000000 OR of_nat (2 ^ 62 - 1) :: 64 word))"

definition read_varint :: "bytes \<Rightarrow> (fault, nat \<times> nat) result" where
  "read_varint buf =
     (case buf of
        [] \<Rightarrow> runtime ''ssh3 h3_raw: varint underflow''
      | first # rest \<Rightarrow>
          let len = 2 ^ unat (drop_bit 6 first) in
          if length buf < len
          then runtime (''ssh3 h3_raw: varint wants '' @ dec len @ '' bytes, have '' @ dec (length buf))
          else Inr (unat (be_acc (ucast (first AND 0x3F)) (take (len - 1) rest) :: 64 word), len))"

section \<open>Prefix integers\<close>

fun write_continuation :: "nat \<Rightarrow> bytes" where
  "write_continuation remaining =
     (if 128 \<le> remaining then (of_nat (remaining mod 128) OR 0x80) # write_continuation (remaining div 128) else [of_nat remaining])"

declare write_continuation.simps [simp del]

definition write_prefix_int :: "byte \<Rightarrow> nat \<Rightarrow> nat \<Rightarrow> bytes" where
  "write_prefix_int hi n v =
     (let mx = 2 ^ n - 1 in
      if v < mx then [hi OR of_nat v] else (hi OR of_nat mx) # write_continuation (v - mx))"

text \<open>
  The loop over the continuation bytes; \<open>u64 << shift\<close> drops the bits that leave the word.  The result is the value and the
  bytes consumed.
\<close>

fun read_continuation :: "bytes \<Rightarrow> nat \<Rightarrow> nat \<Rightarrow> nat \<Rightarrow> (fault, nat \<times> nat) result" where
  "read_continuation [] val consumed shift = runtime ''ssh3 qpack: prefix-int continuation underflow''"
| "read_continuation (b # bs) val consumed shift =
     (let sum = val + (unat (b AND 0x7F) * 2 ^ shift) mod 2 ^ 64 in
      if 2 ^ 64 \<le> sum then runtime ''ssh3 qpack: prefix-int overflow''
      else if b AND 0x80 = 0 then Inr (sum, consumed + 1)
      else if 63 < shift + 7 then runtime ''ssh3 qpack: prefix-int continuation too long''
      else read_continuation bs sum (consumed + 1) (shift + 7))"

definition read_prefix_int :: "bytes \<Rightarrow> nat \<Rightarrow> (fault, nat \<times> nat) result" where
  "read_prefix_int buf n =
     (case buf of
        [] \<Rightarrow> runtime ''ssh3 qpack: prefix-int underflow''
      | first # rest \<Rightarrow>
          let mx = 2 ^ n - 1; val = unat (ucast first AND of_nat mx :: 64 word) in
          if val < mx then Inr (val, 1) else read_continuation rest val 1 0)"

section \<open>QPACK\<close>

definition static_name_index :: "bytes \<Rightarrow> nat option" where
  "static_name_index name =
     (if name = ascii '':authority'' then Some 0
      else if name = ascii '':path'' then Some 1
      else if name = ascii '':method'' then Some 15
      else if name = ascii '':scheme'' then Some 22
      else if name = ascii '':status'' then Some 24
      else if name = ascii ''authorization'' then Some 84
      else if name = ascii ''user-agent'' then Some 95
      else None)"

definition static_table :: "(nat \<times> string \<times> string) list" where
  "static_table =
     [(0, '':authority'', ''''), (1, '':path'', ''/''), (15, '':method'', ''CONNECT''), (17, '':method'', ''GET''),
      (22, '':scheme'', ''http''), (23, '':scheme'', ''https''), (24, '':status'', ''103''), (25, '':status'', ''200''),
      (26, '':status'', ''304''), (27, '':status'', ''404''), (28, '':status'', ''503''), (63, '':status'', ''100''),
      (64, '':status'', ''204''), (65, '':status'', ''206''), (66, '':status'', ''302''), (67, '':status'', ''400''),
      (68, '':status'', ''403''), (69, '':status'', ''421''), (70, '':status'', ''425''), (71, '':status'', ''500''),
      (84, ''authorization'', ''''), (92, ''server'', ''''), (95, ''user-agent'', '''')]"

definition static_entry :: "nat \<Rightarrow> (fault, bytes \<times> bytes) result" where
  "static_entry idx =
     (case map_of static_table idx of
        Some (name, v) \<Rightarrow> Inr (ascii name, ascii v)
      | None \<Rightarrow> runtime (''ssh3 qpack: static index '' @ dec idx @ '' not supported by minimal decoder''))"

type_synonym field = "bytes \<times> bytes"

definition encode_field :: "field \<Rightarrow> bytes" where
  "encode_field f =
     (case f of (name, v) \<Rightarrow>
        (case static_name_index name of
           Some idx \<Rightarrow> write_prefix_int 0x50 4 idx
         | None \<Rightarrow> write_prefix_int 0x20 3 (length name) @ name)
        @ write_prefix_int 0x00 7 (length v) @ v)"

definition qpack_encode :: "field list \<Rightarrow> bytes" where
  "qpack_encode fs = write_prefix_int 0x00 8 0 @ write_prefix_int 0x00 7 0 @ concat (map encode_field fs)"

definition read_literal_string :: "bytes \<Rightarrow> (fault, bytes \<times> nat) result" where
  "read_literal_string buf =
     (case buf of
        [] \<Rightarrow> runtime ''ssh3 qpack: value underflow''
      | first # _ \<Rightarrow>
          if first AND 0x80 \<noteq> 0 then runtime ''ssh3 qpack: huffman-coded string not supported''
          else and_then (read_prefix_int buf 7) (\<lambda>(len, n).
            if n + len < 2 ^ 64 \<and> n + len \<le> length buf then
              and_then (slice_to (n + len) buf) (\<lambda>upto. and_then (slice_from n upto) (\<lambda>v. Inr (v, n + len)))
            else runtime (''ssh3 qpack: value wants '' @ dec len @ '' bytes after '' @ dec n @ ''-byte header, have ''
                    @ dec (length buf - n) @ '' remaining'')))"

text \<open>One field line: the field and the rest of the section.\<close>

definition decode_indexed :: "byte \<Rightarrow> bytes \<Rightarrow> (fault, field \<times> bytes) result" where
  "decode_indexed first buf =
     and_then (read_prefix_int buf 6) (\<lambda>(idx, n). and_then (slice_from n buf) (\<lambda>buf.
       if first AND 0x40 = 0 then runtime ''ssh3 qpack: dynamic-table indexed field not supported''
       else and_then (static_entry idx) (\<lambda>f. Inr (f, buf))))"

definition decode_name_ref :: "byte \<Rightarrow> bytes \<Rightarrow> (fault, field \<times> bytes) result" where
  "decode_name_ref first buf =
     and_then (read_prefix_int buf 4) (\<lambda>(idx, n). and_then (slice_from n buf) (\<lambda>buf.
       if first AND 0x10 = 0 then runtime ''ssh3 qpack: dynamic-table literal-name-ref not supported''
       else and_then (static_entry idx) (\<lambda>(name, _).
            and_then (read_literal_string buf) (\<lambda>(v, consumed).
            and_then (slice_from consumed buf) (\<lambda>buf. Inr ((name, v), buf))))))"

definition decode_literal_name :: "byte \<Rightarrow> bytes \<Rightarrow> (fault, field \<times> bytes) result" where
  "decode_literal_name first buf =
     (if first AND 0x08 \<noteq> 0 then runtime ''ssh3 qpack: huffman-coded literal name not supported''
      else and_then (read_prefix_int buf 3) (\<lambda>(name_len, n). and_then (slice_from n buf) (\<lambda>buf.
        if length buf < name_len then runtime ''ssh3 qpack: name underflow''
        else and_then (slice_to name_len buf) (\<lambda>name. and_then (slice_from name_len buf) (\<lambda>buf.
             and_then (read_literal_string buf) (\<lambda>(v, consumed).
             and_then (slice_from consumed buf) (\<lambda>buf. Inr ((name, v), buf))))))))"

definition decode_field :: "bytes \<Rightarrow> (fault, field \<times> bytes) result" where
  "decode_field buf =
     (let first = hd buf in
      if first AND 0x80 \<noteq> 0 then decode_indexed first buf
      else if first AND 0x40 \<noteq> 0 then decode_name_ref first buf
      else if first AND 0x20 \<noteq> 0 then decode_literal_name first buf
      else runtime (''ssh3 qpack: unsupported field-line opcode byte 0x'' @ hex02 first))"

section \<open>Consumption\<close>

lemma read_continuation_bounds:
  "read_continuation bs val consumed shift = Inr (v, c) \<Longrightarrow> consumed < c \<and> c \<le> consumed + length bs"
  by (induction bs val consumed shift rule: read_continuation.induct) (fastforce simp: Let_def split: if_splits)+

lemma read_prefix_int_bounds: "read_prefix_int buf n = Inr (v, c) \<Longrightarrow> 0 < c \<and> c \<le> length buf"
  by (auto simp: read_prefix_int_def Let_def dest: read_continuation_bounds split: list.splits if_splits)

lemma read_literal_string_bounds: "read_literal_string buf = Inr (v, c) \<Longrightarrow> 0 < c \<and> c \<le> length buf"
  by (auto simp: read_literal_string_def and_then_Inr dest!: read_prefix_int_bounds split: list.splits if_splits)

lemma decode_field_shrinks:
  assumes "decode_field buf = Inr (f, rest)"
  shows "length rest < length buf"
  using assms
  by (auto simp: decode_field_def decode_indexed_def decode_name_ref_def decode_literal_name_def and_then_Inr slice_from_Inr Let_def
      dest!: read_prefix_int_bounds read_literal_string_bounds split: if_splits)

function decode_fields :: "bytes \<Rightarrow> (fault, field list) result" where
  "decode_fields buf =
     (if buf = [] then Inr []
      else case decode_field buf of
        Inl e \<Rightarrow> Inl e
      | Inr (f, rest) \<Rightarrow> and_then (decode_fields rest) (\<lambda>fs. Inr (f # fs)))"
  by pat_completeness auto
termination decode_fields
  by (relation "measure length") (auto dest: decode_field_shrinks [OF sym] decode_field_shrinks)

declare decode_fields.simps [simp del]

definition qpack_decode :: "bytes \<Rightarrow> (fault, field list) result" where
  "qpack_decode buf =
     and_then (read_prefix_int buf 8) (\<lambda>(_, n). and_then (slice_from n buf) (\<lambda>buf.
     and_then (read_prefix_int buf 7) (\<lambda>(_, n). and_then (slice_from n buf) decode_fields)))"

section \<open>Frames\<close>

definition FRAME_HEADERS :: nat where
  "FRAME_HEADERS = 1"

definition RESPONSE_HEADERS_MAX_LEN :: nat where
  "RESPONSE_HEADERS_MAX_LEN = 64 * 1024"

definition build_headers_frame :: "bytes \<Rightarrow> bytes" where
  "build_headers_frame payload = write_varint FRAME_HEADERS @ write_varint (length payload) @ payload"

definition read_exact_from_stream :: "nat \<Rightarrow> recv \<Rightarrow> (fault, bytes \<times> recv) result" where
  "read_exact_from_stream n r =
     (case take_exact n r of
        Inr x \<Rightarrow> Inr x
      | Inl Fin \<Rightarrow> runtime ''ssh3 h3_raw: stream closed mid-frame''
      | Inl (Reset e) \<Rightarrow> runtime (''ssh3 h3_raw: stream read: '' @ e)
      | Inl Silent \<Rightarrow> Inl Stalled)"

definition read_varint_from_stream :: "recv \<Rightarrow> (fault, nat \<times> recv) result" where
  "read_varint_from_stream r =
     and_then (read_exact_from_stream 1 r) (\<lambda>(first, r).
     let total = 2 ^ unat (drop_bit 6 (hd first)) in
     and_then (if 1 < total then read_exact_from_stream (total - 1) r else Inr ([], r)) (\<lambda>(rest, r).
     and_then (read_varint (first @ rest)) (\<lambda>(v, _). Inr (v, r))))"

definition read_frame_once :: "recv \<Rightarrow> (fault, (nat \<times> bytes) \<times> recv) result" where
  "read_frame_once r =
     and_then (read_varint_from_stream r) (\<lambda>(ty, r).
     and_then (read_varint_from_stream r) (\<lambda>(len, r).
     if RESPONSE_HEADERS_MAX_LEN < len
     then runtime (''ssh3 h3_raw: frame length '' @ dec len @ '' > cap '' @ dec RESPONSE_HEADERS_MAX_LEN)
     else and_then (read_exact_from_stream len r) (\<lambda>(payload, r). Inr ((ty, payload), r))))"

lemma read_exact_Inr:
  "read_exact_from_stream n r = Inr (b, r') \<longleftrightarrow>
     n \<le> length (rv_bytes r) \<and> b = take n (rv_bytes r) \<and> r' = r\<lparr>rv_bytes := drop n (rv_bytes r)\<rparr>"
  by (auto simp: read_exact_from_stream_def take_exact_def split: stream_end.splits)

lemma read_varint_stream_shrinks:
  "read_varint_from_stream r = Inr (v, r') \<Longrightarrow> length (rv_bytes r') < length (rv_bytes r)"
  by (auto simp: read_varint_from_stream_def and_then_Inr read_exact_Inr Let_def split: if_splits)

lemma read_frame_once_shrinks: "read_frame_once r = Inr (x, r') \<Longrightarrow> length (rv_bytes r') < length (rv_bytes r)"
  by (auto simp: read_frame_once_def and_then_Inr read_exact_Inr dest!: read_varint_stream_shrinks split: if_splits)

text \<open>Frames of another type are skipped; every frame consumes bytes, so the loop ends with the stream.\<close>

function read_frame_typed :: "nat \<Rightarrow> recv \<Rightarrow> (fault, bytes \<times> recv) result" where
  "read_frame_typed expected r =
     (case read_frame_once r of
        Inl e \<Rightarrow> Inl e
      | Inr ((ty, payload), r) \<Rightarrow> if ty = expected then Inr (payload, r) else read_frame_typed expected r)"
  by pat_completeness auto
termination read_frame_typed
  by (relation "measure (\<lambda>(_, r). length (rv_bytes r))") (auto dest: read_frame_once_shrinks [OF sym] read_frame_once_shrinks)

declare read_frame_typed.simps [simp del]

section \<open>Extended CONNECT\<close>

definition position :: "('a \<Rightarrow> bool) \<Rightarrow> 'a list \<Rightarrow> nat option" where
  "position p xs = (let n = length (takeWhile (\<lambda>x. \<not> p x) xs) in if n < length xs then Some n else None)"

definition validate_header_value :: "string \<Rightarrow> bytes \<Rightarrow> (spt_error, unit) result" where
  "validate_header_value what v =
     (case position (\<lambda>b. b < 0x20 \<or> b = 0x7F) v of
        Some pos \<Rightarrow>
          Inl (Err_InvalidConfig (''ssh3 CONNECT: '' @ what @ '' contains a forbidden control byte 0x'' @ hex02 (v ! pos)
            @ '' at offset '' @ dec pos @ '' (CR/LF/NUL/control/DEL are rejected to prevent header injection)''))
      | None \<Rightarrow> Inr ())"

definition validate_authority :: "bytes \<Rightarrow> (spt_error, unit) result" where
  "validate_authority v =
     and_then (validate_header_value '':authority'' v) (\<lambda>_.
       case position (\<lambda>b. b = 0x20) v of
         Some pos \<Rightarrow> Inl (Err_InvalidConfig (''ssh3 CONNECT: :authority contains a space at offset '' @ dec pos))
       | None \<Rightarrow> Inr ())"

record connect_params =
  cp_host :: bytes
  cp_port :: nat
  cp_url_path :: bytes
  cp_auth_header :: bytes
  cp_user_agent :: bytes
  cp_protocol_token :: bytes

definition cp_authority :: "connect_params \<Rightarrow> bytes" where
  "cp_authority c = cp_host c @ ascii (CHR '':'' # dec (cp_port c))"

definition connect_fields :: "connect_params \<Rightarrow> field list" where
  "connect_fields c =
     [(ascii '':method'', ascii ''CONNECT''), (ascii '':scheme'', ascii ''https''), (ascii '':authority'', cp_authority c),
      (ascii '':path'', cp_url_path c), (ascii '':protocol'', cp_protocol_token c),
      (ascii ''authorization'', cp_auth_header c), (ascii ''user-agent'', cp_user_agent c),
      (ascii ''x-ssh3-protocol'', cp_protocol_token c)]"

text \<open>What the client writes, or the error before anything is written.\<close>

definition connect_request :: "connect_params \<Rightarrow> (spt_error, bytes) result" where
  "connect_request c =
     and_then (validate_authority (cp_authority c)) (\<lambda>_.
     and_then (validate_header_value '':path'' (cp_url_path c)) (\<lambda>_.
     and_then (validate_header_value '':protocol'' (cp_protocol_token c)) (\<lambda>_.
     and_then (validate_header_value ''authorization'' (cp_auth_header c)) (\<lambda>_.
     and_then (validate_header_value ''user-agent'' (cp_user_agent c)) (\<lambda>_.
       Inr (build_headers_frame (qpack_encode (connect_fields c))))))))"

text \<open>The status and the server name of the response: a later field overrides an earlier one.\<close>

fun response_fields :: "field list \<Rightarrow> nat option \<times> bytes option \<Rightarrow> (fault, nat option \<times> bytes option) result" where
  "response_fields [] acc = Inr acc"
| "response_fields ((n, v) # fs) (status, srv) =
     (if n = ascii '':status'' then
        (if \<not> utf8_ok v then runtime (''ssh3 h3_raw: :status not utf-8 ('' @ dec (length v) @ '' bytes)'')
         else case parse_uint u16_max (text_of v) of
           Some st \<Rightarrow> response_fields fs (Some st, srv)
         | None \<Rightarrow> runtime (''ssh3 h3_raw: bad :status '' @ [CHR 0x60] @ text_of v @ [CHR 0x60]))
      else if n = ascii ''server'' then response_fields fs (status, if utf8_ok v then Some v else None)
      else response_fields fs (status, srv))"

definition connect_response :: "recv \<Rightarrow> (fault, nat \<times> bytes option) result" where
  "connect_response r =
     (case read_frame_typed FRAME_HEADERS r of
        Inl Stalled \<Rightarrow> runtime ''ssh3 h3_raw: response HEADERS timeout''
      | Inl e \<Rightarrow> Inl e
      | Inr (payload, _) \<Rightarrow>
          and_then (qpack_decode payload) (\<lambda>decoded.
          and_then (response_fields decoded (None, None)) (\<lambda>(status, srv).
            case status of
              None \<Rightarrow> runtime ''ssh3 h3_raw: response missing :status pseudo-header''
            | Some st \<Rightarrow> Inr (st, srv))))"

section \<open>Integers are read back\<close>

lemma be_bytes_ucast:
  "8 * n \<le> LENGTH('a) \<Longrightarrow> 8 * n \<le> LENGTH('b) \<Longrightarrow> be_bytes n (ucast (w :: 'b::len word) :: 'a::len word) = be_bytes n w"
proof (induction n)
  case (Suc n)
  have "ucast (drop_bit (8 * n) (ucast w :: 'a word)) = (ucast (drop_bit (8 * n) w) :: byte)"
    by (rule bit_word_eqI) (use Suc.prems in \<open>auto simp: bit_simps\<close>)
  then show ?case using Suc by simp
qed simp

lemma bit_nat_high: "v < 2 ^ m \<Longrightarrow> m \<le> k \<Longrightarrow> \<not> bit (v :: nat) k"
proof -
  assume v: "v < 2 ^ m" "m \<le> k"
  have "(2 :: nat) ^ m \<le> 2 ^ k" using v(2) by (intro power_increasing) simp_all
  with v(1) have "v div 2 ^ k = 0" by (intro div_less) (rule less_le_trans)
  then show ?thesis by (simp add: bit_iff_odd)
qed

definition varint_word :: "nat \<Rightarrow> 64 word \<Rightarrow> nat \<Rightarrow> 64 word" where
  "varint_word n p v = push_bit (8 * n + 6) p OR of_nat v"

lemma varint_word_read:
  assumes "v < 2 ^ (8 * n + 6)" "n \<le> 7" "p < 4" "unat p = l" "n = 2 ^ l - 1"
  shows "read_varint (be_bytes (Suc n) (varint_word n p v) @ rest) = Inr (v, Suc n)"
proof -
  let ?w = "varint_word n p v"
  let ?b = "ucast (drop_bit (8 * n) ?w) :: byte"
  note no_v = bit_nat_high [OF assms(1)]
  have p_bits: "k < 2" if "bit p k" for k
  proof (rule ccontr)
    assume "\<not> k < 2"
    moreover have "unat p < 2 ^ 2" using assms(3) by (simp add: word_less_nat_alt)
    ultimately have "\<not> bit (unat p) k" using bit_nat_high [of "unat p" 2 k] by simp
    then show False using that by (simp add: bit_unsigned_iff)
  qed
  have top: "drop_bit 6 ?b = ucast p"
  proof (rule bit_word_eqI)
    fix k assume "k < LENGTH(8)"
    moreover have "8 * n + k < 58" if "bit p k" using p_bits [OF that] assms(2) by simp
    ultimately show "bit (drop_bit 6 ?b) k = bit (ucast p :: byte) k"
      using no_v [of "8 * n + (6 + k)"] p_bits [of k] by (auto simp: varint_word_def bit_simps)
  qed
  have pl: "unat (ucast p :: byte) = l" using assms(3,4) by (simp add: unsigned_ucast_eq take_bit_nat_def word_less_nat_alt)
  have len: "2 ^ unat (drop_bit 6 ?b) = Suc n" unfolding top pl using assms(5) by simp
  have m: "?b AND 0x3F = take_bit 6 ?b" by (simp add: take_bit_eq_mask mask_eq_exp_minus_1)
  have "push_bit (8 * n) (ucast (?b AND 0x3F)) OR take_bit (8 * n) ?w = (of_nat v :: 64 word)" unfolding m
  proof (rule bit_word_eqI)
    fix k assume k: "k < LENGTH(64)"
    consider "k < 8 * n" | "8 * n \<le> k" "k < 8 * n + 6" | "8 * n + 6 \<le> k" by linarith
    then show "bit (push_bit (8 * n) (ucast (take_bit 6 ?b)) OR take_bit (8 * n) ?w) k = bit (of_nat v :: 64 word) k"
    proof cases
      case 2
      then have "k - 8 * n < 6" by linarith
      then show ?thesis using 2 k by (simp add: varint_word_def bit_simps)
    next
      case 3
      then have "\<not> k - 8 * n < 6" by linarith
      then show ?thesis using 3 k no_v [OF 3] by (simp add: varint_word_def bit_simps)
    qed (use k in \<open>simp add: varint_word_def bit_simps\<close>)
  qed
  then have "be_acc (ucast (?b AND 0x3F)) (be_bytes n ?w) = (of_nat v :: 64 word)" by (simp add: be_acc_be_bytes)
  moreover have "v < 2 ^ 64"
    using assms(1,2) power_increasing [of "8 * n + 6" 64 "2 :: nat"] by simp
  ultimately show ?thesis using len by (simp add: read_varint_def Let_def unat_of_nat)
qed

lemma be_bytes_varint:
  assumes "LENGTH('b) = 8 * Suc n" "n \<le> 7"
  shows "be_bytes (Suc n) (push_bit (8 * n + 6) (of_nat l) OR of_nat v :: 'b::len word) = be_bytes (Suc n) (varint_word n (of_nat l) v)"
proof -
  have "(ucast (varint_word n (of_nat l) v) :: 'b word) = push_bit (8 * n + 6) (of_nat l) OR of_nat v"
    by (rule bit_word_eqI) (use assms in \<open>auto simp: varint_word_def bit_simps\<close>)
  then show ?thesis using be_bytes_ucast [of "Suc n" "varint_word n (of_nat l) v", where 'a = 'b] assms by simp
qed

lemma write_varint_word:
  "v < 2 ^ 6 \<Longrightarrow> write_varint v = be_bytes (Suc 0) (varint_word 0 (of_nat 0) v)"
  "\<not> v < 2 ^ 6 \<Longrightarrow> v < 2 ^ 14 \<Longrightarrow> write_varint v = be_bytes (Suc 1) (varint_word 1 (of_nat 1) v)"
  "\<not> v < 2 ^ 14 \<Longrightarrow> v < 2 ^ 30 \<Longrightarrow> write_varint v = be_bytes (Suc 3) (varint_word 3 (of_nat 2) v)"
  "\<not> v < 2 ^ 30 \<Longrightarrow> v < 2 ^ 62 \<Longrightarrow> write_varint v = be_bytes (Suc 7) (varint_word 7 (of_nat 3) v)"
proof -
  have suc: "Suc 1 = 2" "Suc 3 = 4" "Suc 7 = 8" by simp_all
  have "write_varint v = be_bytes 1 (of_nat v :: 8 word)" if "v < 2 ^ 6" using that by (simp add: write_varint_def)
  then show "v < 2 ^ 6 \<Longrightarrow> write_varint v = be_bytes (Suc 0) (varint_word 0 (of_nat 0) v)"
    using be_bytes_varint [of 0 0 v, where 'b = 8] by (simp del: be_bytes.simps)
  have "write_varint v = be_bytes 2 (push_bit (8 * 1 + 6) (of_nat 1) OR of_nat v :: 16 word)" if "\<not> v < 2 ^ 6" "v < 2 ^ 14"
    using that by (simp add: write_varint_def)
  then show "\<not> v < 2 ^ 6 \<Longrightarrow> v < 2 ^ 14 \<Longrightarrow> write_varint v = be_bytes (Suc 1) (varint_word 1 (of_nat 1) v)"
    using be_bytes_varint [of 1 1 v, where 'b = 16] unfolding suc by (simp del: be_bytes.simps)
  have "write_varint v = be_bytes 4 (push_bit (8 * 3 + 6) (of_nat 2) OR of_nat v :: 32 word)" if "\<not> v < 2 ^ 14" "v < 2 ^ 30"
    using that by (simp add: write_varint_def)
  then show "\<not> v < 2 ^ 14 \<Longrightarrow> v < 2 ^ 30 \<Longrightarrow> write_varint v = be_bytes (Suc 3) (varint_word 3 (of_nat 2) v)"
    using be_bytes_varint [of 3 2 v, where 'b = 32] unfolding suc by (simp del: be_bytes.simps)
  have "write_varint v = be_bytes 8 (push_bit (8 * 7 + 6) (of_nat 3) OR of_nat v :: 64 word)" if "\<not> v < 2 ^ 30" "v < 2 ^ 62"
    using that by (simp add: write_varint_def)
  then show "\<not> v < 2 ^ 30 \<Longrightarrow> v < 2 ^ 62 \<Longrightarrow> write_varint v = be_bytes (Suc 7) (varint_word 7 (of_nat 3) v)"
    using be_bytes_varint [of 7 3 v, where 'b = 64] unfolding suc by (simp del: be_bytes.simps)
qed

lemma read_varint_write:
  assumes "v < 2 ^ 62"
  shows "read_varint (write_varint v @ rest) = Inr (v, length (write_varint v))"
proof -
  note rd = varint_word_read [where rest = rest and v = v]
  consider "v < 2 ^ 6" | "\<not> v < 2 ^ 6" "v < 2 ^ 14" | "\<not> v < 2 ^ 14" "v < 2 ^ 30" | "\<not> v < 2 ^ 30" by linarith
  then show ?thesis
  proof cases
    case 1
    show ?thesis unfolding write_varint_word(1) [OF 1] by (subst rd [where l = 0]) (use 1 in simp_all)
  next
    case 2
    show ?thesis unfolding write_varint_word(2) [OF 2] by (subst rd [where l = 1]) (use 2 in simp_all)
  next
    case 3
    show ?thesis unfolding write_varint_word(3) [OF 3] by (subst rd [where l = 2]) (use 3 in simp_all)
  next
    case 4
    show ?thesis unfolding write_varint_word(4) [OF 4 assms] by (subst rd [where l = 3]) (use assms in simp_all)
  qed
qed

lemma length_write_varint: "0 < length (write_varint v) \<and> length (write_varint v) \<le> 8"
  by (simp add: write_varint_def del: length_greater_0_conv)

text \<open>The prefix of a field line leaves the bits above it alone.\<close>

lemma prefix_byte:
  assumes "take_bit n hi = 0" "v < 2 ^ n" "n \<le> 8"
  shows "unat (ucast (hi OR of_nat v :: byte) AND of_nat (2 ^ n - 1) :: 64 word) = v"
proof -
  have hi_low: "\<not> bit hi k" if "k < n" for k
    using assms(1) that by (metis bit_0_eq bit_take_bit_iff bot_apply bot_bool_def)
  have "(ucast (hi OR of_nat v :: byte) AND of_nat (2 ^ n - 1) :: 64 word) = of_nat v"
  proof (rule bit_word_eqI)
    fix k assume "k < LENGTH(64)"
    have "of_nat (2 ^ n - 1) = (mask n :: 64 word)" by (simp add: mask_eq_exp_minus_1 of_nat_diff)
    then show "bit (ucast (hi OR of_nat v :: byte) AND of_nat (2 ^ n - 1) :: 64 word) k = bit (of_nat v :: 64 word) k"
      using assms(3) hi_low [of k] bit_nat_high [OF assms(2), of k] \<open>k < _\<close> by (cases "k < n") (auto simp: bit_simps)
  qed
  moreover have "v < 2 ^ 64" using assms(2,3) power_increasing [of n 64 "2 :: nat"] by simp
  ultimately show ?thesis by (simp add: unat_of_nat)
qed

lemma byte_masks: "k < 8 \<Longrightarrow> bit (0x7F :: byte) k \<longleftrightarrow> k < 7" "k < 8 \<Longrightarrow> bit (0x80 :: byte) k \<longleftrightarrow> k = 7"
proof -
  assume "k < 8"
  then have "k = 0 \<or> k = 1 \<or> k = 2 \<or> k = 3 \<or> k = 4 \<or> k = 5 \<or> k = 6 \<or> k = 7" by linarith
  then show "bit (0x7F :: byte) k \<longleftrightarrow> k < 7" "bit (0x80 :: byte) k \<longleftrightarrow> k = 7" by (elim disjE; simp)+
qed

lemma continuation_byte:
  assumes "m < 128"
  shows "(of_nat m OR 0x80 :: byte) AND 0x7F = of_nat m" "(of_nat m OR 0x80 :: byte) AND 0x80 \<noteq> 0"
    "(of_nat m :: byte) AND 0x7F = of_nat m" "(of_nat m :: byte) AND 0x80 = 0"
proof -
  have hi: "bit m k \<Longrightarrow> k < 7" for k using bit_nat_high [of m 7 k] assms by (cases "k < 7") simp_all
  have bits: "bit ((of_nat m OR 0x80 :: byte) AND 0x7F) k = bit (of_nat m :: byte) k"
    "bit ((of_nat m :: byte) AND 0x7F) k = bit (of_nat m :: byte) k" if "k < LENGTH(8)" for k
  proof -
    have k: "k < 8" using that by simp
    have "bit (of_nat m :: byte) k \<Longrightarrow> k < 7" using hi [of k] by (simp add: bit_simps)
    then show "bit ((of_nat m OR 0x80 :: byte) AND 0x7F) k = bit (of_nat m :: byte) k"
      "bit ((of_nat m :: byte) AND 0x7F) k = bit (of_nat m :: byte) k"
      unfolding bit_and_iff bit_or_iff byte_masks(1) [OF k] byte_masks(2) [OF k] by auto
  qed
  show "(of_nat m OR 0x80 :: byte) AND 0x7F = of_nat m" "(of_nat m :: byte) AND 0x7F = of_nat m"
    by (rule bit_word_eqI, rule bits, assumption)+
  show "(of_nat m :: byte) AND 0x80 = 0" using hi [of 7] by (auto simp: high_bit_iff bit_simps)
  show "(of_nat m OR 0x80 :: byte) AND 0x80 \<noteq> 0" by (simp add: high_bit_iff bit_or_iff)
qed

lemma read_continuation_write:
  "val + r * 2 ^ shift < 2 ^ 64 \<Longrightarrow> shift \<le> 63 \<Longrightarrow>
     read_continuation (write_continuation r @ rest) val consumed shift =
       Inr (val + r * 2 ^ shift, consumed + length (write_continuation r))"
proof (induction r arbitrary: val consumed shift rule: write_continuation.induct)
  case (1 r)
  show ?case
  proof (cases "128 \<le> r")
    case True
    let ?b = "of_nat (r mod 128) OR 0x80 :: byte"
    have b: "unat (?b AND 0x7F) = r mod 128" "?b AND 0x80 \<noteq> 0"
      using continuation_byte [of "r mod 128"] by (simp_all add: unat_of_nat)
    have "128 * (r div 128) * 2 ^ shift + (r mod 128) * 2 ^ shift = r * 2 ^ shift"
      by (metis distrib_right div_mult_mod_eq mult.commute)
    then have split: "(r mod 128) * 2 ^ shift + (r div 128) * 2 ^ (shift + 7) = r * 2 ^ shift"
      by (simp add: power_add algebra_simps)
    then have low: "val + (r mod 128) * 2 ^ shift + (r div 128) * 2 ^ (shift + 7) < 2 ^ 64" using "1.prems"(1) by simp
    have "2 ^ (shift + 7) \<le> (r div 128) * 2 ^ (shift + 7)" using True by simp
    then have "(2 :: nat) ^ (shift + 7) < 2 ^ 64" using low by linarith
    then have sh: "shift + 7 < 64" by (rule power_less_imp_less_exp [rotated]) simp
    define sum where "sum = val + (r mod 128) * 2 ^ shift"
    have m: "((r mod 128) * 2 ^ shift) mod 2 ^ 64 = (r mod 128) * 2 ^ shift" "sum < 2 ^ 64" using low by (simp_all add: sum_def)
    have "read_continuation (write_continuation r @ rest) val consumed shift =
        read_continuation (write_continuation (r div 128) @ rest) sum (consumed + 1) (shift + 7)"
      using b sh m True by (subst write_continuation.simps) (simp add: Let_def sum_def)
    also have "\<dots> = Inr (sum + (r div 128) * 2 ^ (shift + 7), consumed + 1 + length (write_continuation (r div 128)))"
      using "1.IH" [OF True, of sum "shift + 7" "consumed + 1"] low sh by (simp add: sum_def)
    also have "\<dots> = Inr (val + r * 2 ^ shift, consumed + length (write_continuation r))"
      using split True by (subst (2) write_continuation.simps) (simp add: sum_def)
    finally show ?thesis .
  next
    case False
    then have "write_continuation r = [of_nat r]" by (subst write_continuation.simps) simp
    moreover have "r * 2 ^ shift < 2 ^ 64" using "1.prems"(1) by simp
    ultimately show ?thesis using False continuation_byte [of r] "1.prems" by (simp add: Let_def unat_of_nat)
  qed
qed

lemma read_prefix_int_write:
  assumes "take_bit n hi = 0" "n \<le> 8" "v < 2 ^ 64"
  shows "read_prefix_int (write_prefix_int hi n v @ rest) n = Inr (v, length (write_prefix_int hi n v))"
proof (cases "v < 2 ^ n - 1")
  case True
  then have "v < 2 ^ n" by linarith
  from prefix_byte [OF assms(1) this assms(2)] show ?thesis using True by (simp add: read_prefix_int_def write_prefix_int_def Let_def)
next
  case False
  have "(2 :: nat) ^ n - 1 < 2 ^ n" by simp
  from prefix_byte [OF assms(1) this assms(2)] show ?thesis
    using False assms(3) read_continuation_write [of "2 ^ n - 1" "v - (2 ^ n - 1)" 0 rest 1]
    by (simp add: read_prefix_int_def write_prefix_int_def Let_def)
qed

section \<open>Fields are read back\<close>

lemma write_prefix_int_split: "write_prefix_int hi n v = (hi OR of_nat (min v (2 ^ n - 1))) # tl (write_prefix_int hi n v)"
  by (simp add: write_prefix_int_def Let_def min_def)

lemma length_write_continuation: "length (write_continuation r) \<le> Suc r"
proof (induction r rule: write_continuation.induct)
  case (1 r)
  then show ?case by (subst write_continuation.simps) (auto simp: div_le_dividend intro: le_trans)
qed

lemma length_write_prefix_int: "length (write_prefix_int hi n v) \<le> v + 3"
  using length_write_continuation [of "v - (2 ^ n - 1)"] by (auto simp: write_prefix_int_def Let_def)

lemma take_bit_tops [simp]: "take_bit 7 (0 :: byte) = 0" "take_bit 4 (0x50 :: byte) = 0" "take_bit 3 (0x20 :: byte) = 0"
  by (simp_all add: take_bit_eq_mod)

lemma name_ref_byte:
  assumes "m < 16"
  shows "(0x50 OR of_nat m :: byte) AND 0x80 = 0" "(0x50 OR of_nat m :: byte) AND 0x40 \<noteq> 0" "(0x50 OR of_nat m :: byte) AND 0x10 \<noteq> 0"
proof -
  have "m = 0 \<or> m = 1 \<or> m = 2 \<or> m = 3 \<or> m = 4 \<or> m = 5 \<or> m = 6 \<or> m = 7 \<or> m = 8 \<or> m = 9 \<or> m = 10 \<or> m = 11 \<or> m = 12
      \<or> m = 13 \<or> m = 14 \<or> m = 15" using assms by presburger
  then show "(0x50 OR of_nat m :: byte) AND 0x80 = 0" "(0x50 OR of_nat m :: byte) AND 0x40 \<noteq> 0" "(0x50 OR of_nat m :: byte) AND 0x10 \<noteq> 0"
    by (elim disjE; simp)+
qed

lemma literal_name_byte:
  assumes "m < 8"
  shows "(0x20 OR of_nat m :: byte) AND 0x80 = 0" "(0x20 OR of_nat m :: byte) AND 0x40 = 0" "(0x20 OR of_nat m :: byte) AND 0x20 \<noteq> 0"
    "(0x20 OR of_nat m :: byte) AND 0x08 = 0"
proof -
  have "m = 0 \<or> m = 1 \<or> m = 2 \<or> m = 3 \<or> m = 4 \<or> m = 5 \<or> m = 6 \<or> m = 7" using assms by linarith
  then show "(0x20 OR of_nat m :: byte) AND 0x80 = 0" "(0x20 OR of_nat m :: byte) AND 0x40 = 0" "(0x20 OR of_nat m :: byte) AND 0x20 \<noteq> 0"
    "(0x20 OR of_nat m :: byte) AND 0x08 = 0"
    by (elim disjE; simp)+
qed

lemma read_literal_string_write:
  assumes "length v < 2 ^ 62"
  shows "read_literal_string (write_prefix_int 0 7 (length v) @ v @ rest) =
    Inr (v, length (write_prefix_int 0 7 (length v)) + length v)"
proof -
  let ?w = "write_prefix_int 0 7 (length v)"
  obtain t where w: "?w = of_nat (min (length v) 127) # t" using write_prefix_int_split [of 0 7 "length v"] by simp
  have hi: "(of_nat (min (length v) 127) :: byte) AND 0x80 = 0" by (rule continuation_byte(4)) simp
  have "length ?w + length v < 2 ^ 64" using length_write_prefix_int [of 0 7 "length v"] assms by simp
  moreover have "read_prefix_int (?w @ v @ rest) 7 = Inr (length v, length ?w)"
    using assms by (intro read_prefix_int_write) simp_all
  ultimately show ?thesis
    unfolding read_literal_string_def using hi by (simp add: w)
qed

lemma static_entry_name: "static_name_index name = Some idx \<Longrightarrow> idx < 2 ^ 64 \<and> (\<exists>v. static_entry idx = Inr (name, v))"
  by (auto simp: static_name_index_def static_entry_def static_table_def split: if_splits)

definition short_field :: "field \<Rightarrow> bool" where
  "short_field f \<longleftrightarrow> length (fst f) < 2 ^ 62 \<and> length (snd f) < 2 ^ 62"

lemma decode_field_encode:
  assumes "short_field f"
  shows "decode_field (encode_field f @ rest) = Inr (f, rest)"
proof -
  obtain name v where f: "f = (name, v)" by (cases f)
  have len: "length name < 2 ^ 62" "length v < 2 ^ 62" using assms by (simp_all add: f short_field_def)
  note rl = read_literal_string_write [OF len(2), of rest]
  let ?val = "write_prefix_int 0 7 (length v) @ v"
  show ?thesis
  proof (cases "static_name_index name")
    case (Some idx)
    let ?w = "write_prefix_int 0x50 4 idx"
    obtain t where w: "?w = (0x50 OR of_nat (min idx 15)) # t" using write_prefix_int_split [of "0x50" 4 idx] by simp
    obtain e where e: "idx < 2 ^ 64" "static_entry idx = Inr (name, e)" using static_entry_name [OF Some] by blast
    have rp: "read_prefix_int (?w @ ?val @ rest) 4 = Inr (idx, length ?w)" using e(1) by (intro read_prefix_int_write) simp_all
    have "decode_name_ref (0x50 OR of_nat (min idx 15)) (?w @ ?val @ rest) = Inr ((name, v), rest)"
      using rp rl e(2) name_ref_byte(3) [of "min idx 15"] by (simp add: decode_name_ref_def)
    then show ?thesis using Some name_ref_byte [of "min idx 15"]
      by (simp add: f encode_field_def decode_field_def w Let_def)
  next
    case None
    let ?w = "write_prefix_int 0x20 3 (length name)"
    obtain t where w: "?w = (0x20 OR of_nat (min (length name) 7)) # t" using write_prefix_int_split [of "0x20" 3 "length name"] by simp
    have rp: "read_prefix_int (?w @ name @ ?val @ rest) 3 = Inr (length name, length ?w)"
      using len(1) by (intro read_prefix_int_write) simp_all
    have "decode_literal_name (0x20 OR of_nat (min (length name) 7)) (?w @ name @ ?val @ rest) = Inr ((name, v), rest)"
      using rp rl literal_name_byte(4) [of "min (length name) 7"] by (simp add: decode_literal_name_def)
    then show ?thesis using None literal_name_byte [of "min (length name) 7"]
      by (simp add: f encode_field_def decode_field_def w Let_def)
  qed
qed

lemma decode_fields_encode: "(\<forall>f \<in> set fs. short_field f) \<Longrightarrow> decode_fields (concat (map encode_field fs)) = Inr fs"
proof (induction fs)
  case Nil
  then show ?case by (simp add: decode_fields.simps)
next
  case (Cons f fs)
  have "encode_field f \<noteq> []"
    using write_prefix_int_split by (cases f) (simp add: encode_field_def split: option.split, metis list.discI)
  then show ?case using Cons decode_field_encode [of f "concat (map encode_field fs)"] by (subst decode_fields.simps) simp
qed

lemma qpack_roundtrip: "(\<forall>f \<in> set fs. short_field f) \<Longrightarrow> qpack_decode (qpack_encode fs) = Inr fs"
  using read_prefix_int_write [of 8 0 0 "write_prefix_int 0 7 0 @ concat (map encode_field fs)"]
    read_prefix_int_write [of 7 0 0 "concat (map encode_field fs)"] decode_fields_encode [of fs]
  by (simp add: qpack_decode_def qpack_encode_def)

lemma read_varint_length: "read_varint buf = Inr (v, n) \<Longrightarrow> n = 2 ^ unat (drop_bit 6 (hd buf)) \<and> n \<le> length buf"
  by (auto simp: read_varint_def Let_def split: list.splits if_splits)

lemma read_varint_stream_write:
  assumes "v < 2 ^ 62" "rv_bytes r = write_varint v @ rest"
  shows "read_varint_from_stream r = Inr (v, r\<lparr>rv_bytes := rest\<rparr>)"
proof -
  obtain b bs where w: "write_varint v = b # bs" using length_write_varint [of v] by (cases "write_varint v") auto
  have "Suc (length bs) = 2 ^ unat (drop_bit 6 b)"
    using read_varint_length [OF read_varint_write [OF assms(1), of "[]"]] by (simp add: w)
  then have total: "2 ^ unat (drop_bit 6 b) = Suc (length bs)" by simp
  have rd: "read_varint (b # bs) = Inr (v, Suc (length bs))" using read_varint_write [OF assms(1), of "[]"] by (simp add: w)
  show ?thesis using assms(2) rd
    by (cases bs) (simp_all add: read_varint_from_stream_def read_exact_from_stream_def take_exact_def w total Let_def)
qed

lemma read_headers_frame:
  assumes "length payload \<le> RESPONSE_HEADERS_MAX_LEN" "rv_bytes r = build_headers_frame payload @ rest"
  shows "read_frame_typed FRAME_HEADERS r = Inr (payload, r\<lparr>rv_bytes := rest\<rparr>)"
proof -
  have 1: "read_varint_from_stream r = Inr (FRAME_HEADERS, r\<lparr>rv_bytes := write_varint (length payload) @ payload @ rest\<rparr>)"
    using assms(2) by (intro read_varint_stream_write) (simp_all add: FRAME_HEADERS_def build_headers_frame_def)
  have 2: "read_varint_from_stream (r\<lparr>rv_bytes := write_varint (length payload) @ payload @ rest\<rparr>)
      = Inr (length payload, r\<lparr>rv_bytes := payload @ rest\<rparr>)"
    using assms(1) read_varint_stream_write [of "length payload" "r\<lparr>rv_bytes := write_varint (length payload) @ payload @ rest\<rparr>" "payload @ rest"]
    by (simp add: RESPONSE_HEADERS_MAX_LEN_def)
  have "read_frame_once r = Inr ((FRAME_HEADERS, payload), r\<lparr>rv_bytes := rest\<rparr>)"
    using 1 2 assms(1) by (simp add: read_frame_once_def read_exact_from_stream_def take_exact_def)
  then show ?thesis by (subst read_frame_typed.simps) simp
qed

section \<open>Hostile bytes\<close>

lemma read_continuation_no_panic: "read_continuation bs val consumed shift \<noteq> Inl Panic"
  by (induction bs val consumed shift rule: read_continuation.induct) (simp_all add: Let_def)

lemma read_prefix_int_no_panic: "read_prefix_int buf n \<noteq> Inl Panic"
  by (simp add: read_prefix_int_def Let_def read_continuation_no_panic split: list.split)

lemma slice_panic: "slice_from n buf = Inl Panic \<longleftrightarrow> length buf < n" "slice_to n buf = Inl Panic \<longleftrightarrow> length buf < n"
  by (simp_all add: slice_from_def slice_to_def not_le)

lemma slice_to_Inr: "slice_to n buf = Inr b \<longleftrightarrow> n \<le> length buf \<and> b = take n buf"
  by (auto simp: slice_to_def)

lemma read_literal_string_no_panic: "read_literal_string buf \<noteq> Inl Panic"
  by (auto simp: read_literal_string_def and_then_panic read_prefix_int_no_panic slice_panic slice_to_Inr split: list.split if_splits)

lemma static_entry_no_panic: "static_entry idx \<noteq> Inl Panic"
  by (simp add: static_entry_def split: option.split)

lemma decode_field_no_panic: "decode_field buf \<noteq> Inl Panic"
  by (auto simp: decode_field_def decode_indexed_def decode_name_ref_def decode_literal_name_def and_then_panic slice_panic slice_from_Inr
      slice_to_Inr read_prefix_int_no_panic read_literal_string_no_panic static_entry_no_panic Let_def
      dest!: read_prefix_int_bounds read_literal_string_bounds split: if_splits)

lemma decode_fields_no_panic: "decode_fields buf \<noteq> Inl Panic"
proof (induction buf rule: decode_fields.induct)
  case (1 buf)
  then show ?case using decode_field_no_panic [of buf]
    by (subst decode_fields.simps) (auto simp: and_then_panic split: sum.split)
qed

lemma qpack_decode_no_panic: "qpack_decode buf \<noteq> Inl Panic"
  by (auto simp: qpack_decode_def and_then_panic slice_panic slice_from_Inr read_prefix_int_no_panic decode_fields_no_panic
      dest!: read_prefix_int_bounds)

lemma read_frame_typed_no_panic: "read_frame_typed ty r \<noteq> Inl Panic"
proof (induction ty r rule: read_frame_typed.induct)
  case (1 ty r)
  have "read_exact_from_stream n r \<noteq> Inl Panic" for n r
    by (auto simp: read_exact_from_stream_def split: sum.split stream_end.split)
  moreover have "read_varint buf \<noteq> Inl Panic" for buf by (simp add: read_varint_def Let_def split: list.split)
  ultimately have "read_varint_from_stream r \<noteq> Inl Panic" for r
    by (auto simp: read_varint_from_stream_def and_then_panic Let_def split: if_splits)
  with \<open>\<And>n r. read_exact_from_stream n r \<noteq> Inl Panic\<close> have "read_frame_once r \<noteq> Inl Panic"
    by (auto simp: read_frame_once_def and_then_panic split: if_splits)
  then show ?case using 1 by (subst read_frame_typed.simps) (auto split: sum.split)
qed

lemma response_fields_no_panic: "response_fields fs acc \<noteq> Inl Panic"
  by (induction fs acc rule: response_fields.induct) (simp_all split: option.split)

text \<open>
  The continuation bytes of a prefix integer: a tenth byte contributes only its lowest bit, whatever else it holds.
\<close>

lemma prefix_int_drops_bits:
  "read_prefix_int [255, 0x80, 0x80, 0x80, 0x80, 0x80, 0x80, 0x80, 0x80, 0x80, 0x7E] 8 = Inr (255, 11)"
  by (simp add: read_prefix_int_def Let_def)

end
