(* ===== verification/Ssh3_Server.thy ===== *)
theory Ssh3_Server
  imports Ssh3_H3
begin

text \<open>
  The two ends of an SSH3 session: the Extended CONNECT of \<open>bootstrap\<close> (\<open>transport.rs\<close>) against \<open>handle_connect\<close> of the server
  (\<open>server.rs\<close>), the settings exchange on the control stream (\<open>transport.rs\<close>), and the opening of forwarded connections
  (\<open>open_channel\<close>, \<open>serve_inbound_opens\<close> and what they call in \<open>forward.rs\<close>).  What a peer answers to the bytes it is sent is a
  function, so that the two ends can be put together; the outcomes of dialling are inputs, and a stream that
  cannot be opened, or a request or open response that cannot be written, is left out.
\<close>

section \<open>The server's policy\<close>

record 't Ssh3ServerAcl =
  sa_resolve_target :: "ChannelOpenPayload \<Rightarrow> 't option"
  sa_authorize_uds_path :: "bytes \<Rightarrow> bool"
  sa_authorize_connect :: "(bytes \<Rightarrow> bytes option \<Rightarrow> bool) option"
  sa_protocol_token :: bytes

definition acl_new :: "(ChannelOpenPayload \<Rightarrow> 't option) \<Rightarrow> 't Ssh3ServerAcl" where
  "acl_new resolve =
     \<lparr>sa_resolve_target = resolve, sa_authorize_uds_path = (\<lambda>_. False), sa_authorize_connect = None,
      sa_protocol_token = ascii ''ssh3''\<rparr>"

definition fixed_target :: "'t \<Rightarrow> 't Ssh3ServerAcl" where
  "fixed_target t = acl_new (\<lambda>_. Some t)"

section \<open>CONNECT\<close>

definition by_name :: "string \<Rightarrow> field list \<Rightarrow> bytes option" where
  "by_name key fs = map_option snd (List.find (\<lambda>(n, _). n = ascii key) fs)"

definition connect_status :: "'t Ssh3ServerAcl \<Rightarrow> field list \<Rightarrow> string" where
  "connect_status acl fs =
     (let protocol = from_utf8_lossy (case by_name '':protocol'' fs of Some v \<Rightarrow> v | None \<Rightarrow> []);
          authz = map_option from_utf8_lossy (by_name ''authorization'' fs)
      in if protocol \<noteq> sa_protocol_token acl then ''421''
         else case sa_authorize_connect acl of
           Some check \<Rightarrow> if check protocol authz then ''200'' else ''401''
         | None \<Rightarrow> ''200'')"

text \<open>
  The outcome and what was written to the client.  \<open>write_error\<close> and \<open>finish_error\<close> are the errors of the two operations on
  the stream, if any.
\<close>

definition handle_connect ::
  "'t Ssh3ServerAcl \<Rightarrow> string option \<Rightarrow> string option \<Rightarrow> recv \<Rightarrow> (fault, unit) result \<times> bytes" where
  "handle_connect acl write_error finish_error r =
     (case and_then (read_frame_typed FRAME_HEADERS r) (\<lambda>(payload, _). qpack_decode payload) of
        Inl e \<Rightarrow> (Inl e, [])
      | Inr fs \<Rightarrow>
          let status = connect_status acl fs;
              resp = qpack_encode [(ascii '':status'', ascii status), (ascii ''server'', ascii ''spt-ssh3'')];
              frame = build_headers_frame resp
          in case write_error of
               Some e \<Rightarrow> (runtime (''ssh3 server: write CONNECT status: '' @ e), [])
             | None \<Rightarrow>
                 (case finish_error of
                    Some e \<Rightarrow> (runtime (''ssh3 server: finish CONNECT: '' @ e), frame)
                  | None \<Rightarrow>
                      (if status \<noteq> ''200'' then Inl (Failed (Err_AuthFailed (''ssh3 server: CONNECT rejected with HTTP '' @ status)))
                       else Inr (), frame)))"

text \<open>The errors of the raw CONNECT that \<open>bootstrap\<close> wraps; of the wrapped kinds only \<open>InvalidConfig\<close> occurs.\<close>

definition raw_error :: "fault \<Rightarrow> fault" where
  "raw_error e =
     (case e of
        Failed (Err_InvalidConfig m) \<Rightarrow> Failed (Err_RuntimeFailure (''ssh3: raw CONNECT: invalid configuration: '' @ m))
      | _ \<Rightarrow> e)"

definition check_status :: "nat \<Rightarrow> (fault, unit) result" where
  "check_status status =
     (if 200 \<le> status \<and> status < 300 then Inr ()
      else let body = ''ssh3: CONNECT returned HTTP '' @ dec status
           in Inl (Failed (if status = 401 \<or> status = 403 then Err_AuthFailed body else Err_RuntimeFailure body)))"

text \<open>The client's CONNECT against a peer that answers \<open>reply req\<close> to the request: the server name on success.\<close>

definition client_connect :: "(bytes \<Rightarrow> recv) \<Rightarrow> connect_params \<Rightarrow> (fault, bytes option) result" where
  "client_connect reply c =
     (case connect_request c of
        Inl e \<Rightarrow> Inl (raw_error (Failed e))
      | Inr req \<Rightarrow>
          (case connect_response (reply req) of
             Inl e \<Rightarrow> Inl (raw_error e)
           | Inr (status, srv) \<Rightarrow> and_then (check_status status) (\<lambda>_. Inr srv)))"

section \<open>Settings\<close>

definition kind_debug :: "Ssh3FrameKind \<Rightarrow> string" where
  "kind_debug k =
     (case k of
        K_Settings \<Rightarrow> ''Settings'' | K_DirectTcpRequest \<Rightarrow> ''DirectTcpRequest'' | K_ForwardOpenResponse \<Rightarrow> ''ForwardOpenResponse''
      | K_Data \<Rightarrow> ''Data'' | K_Close \<Rightarrow> ''Close'' | K_UdpAssociate \<Rightarrow> ''UdpAssociate'' | K_AppPing \<Rightarrow> ''AppPing''
      | K_RemoteUdpForwardRequest \<Rightarrow> ''RemoteUdpForwardRequest'' | K_UdsForwardRequest \<Rightarrow> ''UdsForwardRequest''
      | K_RemoteUdsForwardRequest \<Rightarrow> ''RemoteUdsForwardRequest'')"

definition read_settings :: "string \<Rightarrow> recv \<Rightarrow> (fault, Ssh3Settings \<times> recv) result" where
  "read_settings who r =
     (case read_async r of
        Inl Stalled \<Rightarrow> runtime (''ssh3 control: timeout waiting for '' @ who @ '' settings'')
      | Inl e \<Rightarrow> Inl e
      | Inr (f, r) \<Rightarrow>
          if fr_kind f \<noteq> K_Settings then runtime (''ssh3 control: expected Settings, got '' @ kind_debug (fr_kind f))
          else and_then (settings_decode (fr_payload f)) (\<lambda>peer. Inr (peer, r)))"

definition settings_frame :: "Ssh3Settings \<Rightarrow> bytes" where
  "settings_frame s = frame_encode (frame_new K_Settings (settings_encode s))"

definition open_control_stream :: "Ssh3Settings \<Rightarrow> (bytes \<Rightarrow> recv) \<Rightarrow> (fault, Ssh3Settings \<times> recv) result" where
  "open_control_stream local reply = read_settings ''peer'' (reply (settings_frame local))"

text \<open>The peer's settings and the rest of the stream, and what is written back.\<close>

definition accept_control_stream :: "Ssh3Settings \<Rightarrow> recv \<Rightarrow> (fault, Ssh3Settings \<times> recv) result \<times> bytes" where
  "accept_control_stream local r =
     (case read_settings ''client'' r of
        Inl e \<Rightarrow> (Inl e, [])
      | Inr (peer, r) \<Rightarrow> (Inr (peer, r), settings_frame local))"

section \<open>Opening a connection\<close>

definition open_response :: "bool \<Rightarrow> bytes \<Rightarrow> bytes" where
  "open_response ok reason = frame_encode (frame_new K_ForwardOpenResponse (open_response_encode \<lparr>fo_ok = ok, fo_reason = reason\<rparr>))"

definition await_open_response :: "string \<Rightarrow> recv \<Rightarrow> (fault, recv) result" where
  "await_open_response what r =
     (case read_async r of
        Inl Stalled \<Rightarrow> runtime (''ssh3 '' @ what @ '': timeout waiting for response'')
      | Inl e \<Rightarrow> Inl e
      | Inr (resp, r) \<Rightarrow>
          if fr_kind resp \<noteq> K_ForwardOpenResponse
          then runtime (''ssh3 '' @ what @ '': expected ForwardOpenResponse, got '' @ kind_debug (fr_kind resp))
          else and_then (open_response_decode (fr_payload resp)) (\<lambda>parsed.
            if \<not> fo_ok parsed
            then Inl (Failed (Err_NetworkUnreachable (''ssh3 '' @ what @ '' rejected by peer: '' @ text_of (fo_reason parsed))))
            else Inr r))"

definition open_channel :: "(bytes \<Rightarrow> recv) \<Rightarrow> ChannelOpenPayload \<Rightarrow> (fault, recv) result" where
  "open_channel reply p =
     await_open_response ''channel-open'' (reply (frame_encode (frame_new K_DirectTcpRequest (channel_open_encode p))))"

definition open_uds_channel :: "(bytes \<Rightarrow> recv) \<Rightarrow> bytes \<Rightarrow> (fault, recv) result" where
  "open_uds_channel reply path =
     await_open_response ''uds channel-open'' (reply (frame_encode (frame_new K_UdsForwardRequest (uds_open_encode path))))"

text \<open>What the server does with a stream the client opened; \<open>recv\<close> is what is still to be read from it.\<close>

datatype 't served = Dropped | Refused | BridgedTcp 't recv | BridgedUds bytes recv | KeepaliveEcho Ssh3Frame recv

definition serve_tcp_open :: "'t Ssh3ServerAcl \<Rightarrow> ('t \<Rightarrow> bytes option) \<Rightarrow> bytes \<Rightarrow> recv \<Rightarrow> 't served \<times> bytes" where
  "serve_tcp_open acl dial payload r =
     (case channel_open_decode payload of
        Inl _ \<Rightarrow> (Dropped, [])
      | Inr p \<Rightarrow>
          (case sa_resolve_target acl p of
             None \<Rightarrow> (Refused, open_response False (ascii ''denied by acl''))
           | Some target \<Rightarrow>
               (case dial target of
                  Some e \<Rightarrow> (Refused, open_response False (ascii ''dial: '' @ e))
                | None \<Rightarrow> (BridgedTcp target r, open_response True []))))"

definition serve_local_uds_open :: "'t Ssh3ServerAcl \<Rightarrow> (bytes \<Rightarrow> bytes option) \<Rightarrow> bytes \<Rightarrow> recv \<Rightarrow> 't served \<times> bytes" where
  "serve_local_uds_open acl dial_uds payload r =
     (case uds_open_decode payload of
        Inl _ \<Rightarrow> (Dropped, [])
      | Inr path \<Rightarrow>
          if \<not> sa_authorize_uds_path acl path then (Refused, open_response False (ascii ''uds path denied by server policy''))
          else case dial_uds path of
            Some e \<Rightarrow> (Refused, open_response False (ascii ''uds dial '' @ path @ ascii '': '' @ e))
          | None \<Rightarrow> (BridgedUds path r, open_response True []))"

definition serve_inbound_open ::
  "'t Ssh3ServerAcl \<Rightarrow> ('t \<Rightarrow> bytes option) \<Rightarrow> (bytes \<Rightarrow> bytes option) \<Rightarrow> recv \<Rightarrow> 't served \<times> bytes" where
  "serve_inbound_open acl dial dial_uds r =
     (case read_async r of
        Inl _ \<Rightarrow> (Dropped, [])
      | Inr (f, r) \<Rightarrow>
          (case fr_kind f of
             K_DirectTcpRequest \<Rightarrow> serve_tcp_open acl dial (fr_payload f) r
           | K_UdsForwardRequest \<Rightarrow> serve_local_uds_open acl dial_uds (fr_payload f) r
           | K_AppPing \<Rightarrow> (KeepaliveEcho f r, frame_encode f)
           | _ \<Rightarrow> (Refused, open_response False (ascii ''unexpected open frame''))))"

section \<open>The client's request reaches the server\<close>

lemma position_None: "position p xs = None \<longleftrightarrow> (\<forall>x \<in> set xs. \<not> p x)"
proof
  assume "position p xs = None"
  then have "length (takeWhile (\<lambda>x. \<not> p x) xs) = length xs"
    using length_takeWhile_le [of "\<lambda>x. \<not> p x" xs] by (simp add: position_def Let_def split: if_splits)
  then have "takeWhile (\<lambda>x. \<not> p x) xs = xs" by (metis takeWhile_eq_take take_all order_refl)
  then show "\<forall>x \<in> set xs. \<not> p x" by (metis set_takeWhileD)
next
  assume "\<forall>x \<in> set xs. \<not> p x"
  then have "takeWhile (\<lambda>x. \<not> p x) xs = xs" by (simp add: takeWhile_eq_all_conv)
  then show "position p xs = None" by (simp only: position_def Let_def less_irrefl if_False)
qed

definition printable :: "bytes \<Rightarrow> bool" where
  "printable v \<longleftrightarrow> (\<forall>b \<in> set v. 0x20 \<le> b \<and> b \<noteq> 0x7F)"

lemma validate_header_ok: "validate_header_value what v = Inr () \<longleftrightarrow> printable v"
  using position_None [of "\<lambda>b. b < 0x20 \<or> b = 0x7F" v]
  by (cases "position (\<lambda>b. b < 0x20 \<or> b = 0x7F) v") (auto simp: validate_header_value_def printable_def not_less)

lemma validate_authority_ok: "validate_authority v = Inr () \<longleftrightarrow> printable v \<and> 0x20 \<notin> set v"
  using position_None [of "\<lambda>b. b = 0x20" v]
  by (cases "position (\<lambda>b. b = 0x20) v") (auto simp: validate_authority_def and_then_Inr validate_header_ok)

lemma connect_request_ok:
  "connect_request c = Inr req \<longleftrightarrow>
     printable (cp_authority c) \<and> 0x20 \<notin> set (cp_authority c) \<and> printable (cp_url_path c) \<and> printable (cp_protocol_token c)
     \<and> printable (cp_auth_header c) \<and> printable (cp_user_agent c) \<and> req = build_headers_frame (qpack_encode (connect_fields c))"
  by (auto simp: connect_request_def and_then_Inr validate_header_ok validate_authority_ok)

lemma encode_field_short: "f \<in> set fs \<Longrightarrow> length (qpack_encode fs) < 2 ^ 62 \<Longrightarrow> length (fst f) < 2 ^ 62 \<Longrightarrow> short_field f"
proof -
  assume f: "f \<in> set fs" "length (qpack_encode fs) < 2 ^ 62" "length (fst f) < 2 ^ 62"
  have "length (snd f) \<le> length (encode_field f)" by (cases f) (simp add: encode_field_def)
  moreover have "length (encode_field f) \<le> length (concat (map encode_field fs))"
    using f(1) by (induction fs) auto
  ultimately have "length (snd f) < 2 ^ 62" using f(2) by (simp add: qpack_encode_def)
  then show ?thesis using f(3) by (simp add: short_field_def)
qed

lemma connect_fields_short:
  assumes "length (qpack_encode (connect_fields c)) \<le> RESPONSE_HEADERS_MAX_LEN"
  shows "\<forall>f \<in> set (connect_fields c). short_field f"
proof
  fix f assume f: "f \<in> set (connect_fields c)"
  have "length (fst f) < 2 ^ 62" using f by (auto simp: connect_fields_def ascii_def)
  moreover have "length (qpack_encode (connect_fields c)) < 2 ^ 62"
    using assms by (rule le_less_trans) (simp add: RESPONSE_HEADERS_MAX_LEN_def)
  ultimately show "short_field f" using f by (intro encode_field_short)
qed

lemma connect_decoded:
  assumes "connect_request c = Inr req" "length (qpack_encode (connect_fields c)) \<le> RESPONSE_HEADERS_MAX_LEN"
  shows "and_then (read_frame_typed FRAME_HEADERS \<lparr>rv_bytes = req @ rest, rv_end = e\<rparr>) (\<lambda>(payload, _). qpack_decode payload)
    = Inr (connect_fields c)"
proof -
  have "req = build_headers_frame (qpack_encode (connect_fields c))" using assms(1) by (simp add: connect_request_ok)
  then show ?thesis
    using read_headers_frame [OF assms(2), of "\<lparr>rv_bytes = req @ rest, rv_end = e\<rparr>" rest] qpack_roundtrip [OF connect_fields_short [OF assms(2)]]
    by simp
qed

lemma connect_by_name:
  "by_name '':protocol'' (connect_fields c) = Some (cp_protocol_token c)"
  "by_name ''authorization'' (connect_fields c) = Some (cp_auth_header c)"
  by (simp_all add: by_name_def connect_fields_def)

text \<open>The server's verdict on a client, and its answer on the wire.\<close>

definition admits :: "'t Ssh3ServerAcl \<Rightarrow> connect_params \<Rightarrow> bool" where
  "admits acl c \<longleftrightarrow> cp_protocol_token c = sa_protocol_token acl
     \<and> (\<forall>check. sa_authorize_connect acl = Some check \<longrightarrow> check (cp_protocol_token c) (Some (cp_auth_header c)))"

lemma connect_status_client:
  assumes "utf8_ok (cp_protocol_token c)" "utf8_ok (cp_auth_header c)"
  shows "connect_status acl (connect_fields c) =
    (if cp_protocol_token c \<noteq> sa_protocol_token acl then ''421'' else if admits acl c then ''200'' else ''401'')"
  using assms by (simp add: connect_status_def connect_by_name from_utf8_lossy_ok admits_def split: option.split)

definition response_fields_of :: "string \<Rightarrow> field list" where
  "response_fields_of status = [(ascii '':status'', ascii status), (ascii ''server'', ascii ''spt-ssh3'')]"

lemma ascii_utf8: "\<forall>c \<in> set s. of_char c < (128 :: nat) \<Longrightarrow> utf8_ok (ascii s)"
  by (intro utf8_ok_ascii) (auto simp: ascii_def word_less_nat_alt unat_of_nat)

lemma length_encode_field: "length (encode_field (n, v)) \<le> 2 * length n + 2 * length v + 110"
proof -
  have "idx \<le> 100" if "static_name_index n = Some idx" for idx
    using that by (auto simp: static_name_index_def split: if_splits)
  then show ?thesis
    using length_write_prefix_int [of 0 7 "length v"] length_write_prefix_int [of "0x20" 3 "length n"]
      length_write_prefix_int [of "0x50" 4 "the (static_name_index n)"]
    by (cases "static_name_index n") (simp_all add: encode_field_def)
qed

lemma length_qpack_encode: "length (qpack_encode fs) \<le> 6 + (\<Sum>(n, v) \<leftarrow> fs. 2 * length n + 2 * length v + 110)"
proof -
  have "length (concat (map encode_field fs)) \<le> (\<Sum>(n, v) \<leftarrow> fs. 2 * length n + 2 * length v + 110)"
    unfolding length_concat by (induction fs) (use length_encode_field in \<open>auto intro: add_mono\<close>)
  then show ?thesis using length_write_prefix_int [of 0 8 0] length_write_prefix_int [of 0 7 0] by (simp add: qpack_encode_def)
qed

lemma length_qpack_response:
  "length status \<le> 3 \<Longrightarrow> length (qpack_encode (response_fields_of status)) \<le> RESPONSE_HEADERS_MAX_LEN"
  by (rule order_trans [OF length_qpack_encode]) (simp add: response_fields_of_def RESPONSE_HEADERS_MAX_LEN_def)

lemma connect_response_of:
  assumes "status \<in> {''200'', ''401'', ''421''}"
  shows "connect_response \<lparr>rv_bytes = build_headers_frame (qpack_encode (response_fields_of status)), rv_end = e\<rparr> =
    Inr (the (parse_uint u16_max status), Some (ascii ''spt-ssh3''))"
proof -
  let ?r = "\<lparr>rv_bytes = build_headers_frame (qpack_encode (response_fields_of status)), rv_end = e\<rparr>"
  have "length status \<le> 3" using assms by auto
  from read_headers_frame [OF length_qpack_response [OF this], of ?r "[]"]
  have 1: "read_frame_typed FRAME_HEADERS ?r = Inr (qpack_encode (response_fields_of status), ?r\<lparr>rv_bytes := []\<rparr>)" by simp
  have 2: "qpack_decode (qpack_encode (response_fields_of status)) = Inr (response_fields_of status)"
    using \<open>length status \<le> 3\<close> by (intro qpack_roundtrip) (auto simp: response_fields_of_def short_field_def)
  have "utf8_ok (ascii status)" "utf8_ok (ascii ''spt-ssh3'')" using assms by (auto intro!: ascii_utf8)
  moreover have "parse_uint u16_max status \<noteq> None" using assms by (auto simp: parse_uint_def u16_max_def to_digit_def)
  ultimately show ?thesis using 1 2 by (auto simp: connect_response_def response_fields_of_def)
qed

lemma handle_connect_client:
  assumes "connect_request c = Inr req" "length (qpack_encode (connect_fields c)) \<le> RESPONSE_HEADERS_MAX_LEN"
    "utf8_ok (cp_protocol_token c)" "utf8_ok (cp_auth_header c)"
    and "status = connect_status acl (connect_fields c)"
  shows "handle_connect acl None None \<lparr>rv_bytes = req @ rest, rv_end = e\<rparr> =
    (if admits acl c then Inr () else Inl (Failed (Err_AuthFailed (''ssh3 server: CONNECT rejected with HTTP '' @ status))),
     build_headers_frame (qpack_encode (response_fields_of status)))"
proof -
  have "status = ''200'' \<longleftrightarrow> admits acl c"
    using connect_status_client [OF assms(3,4), of acl] by (auto simp: assms(5) admits_def)
  then show ?thesis using connect_decoded [OF assms(1,2), of rest e]
    by (simp add: handle_connect_def response_fields_of_def assms(5) Let_def)
qed

lemma check_status_values:
  "check_status 200 = Inr ()" "check_status 401 = Inl (Failed (Err_AuthFailed ''ssh3: CONNECT returned HTTP 401''))"
  "check_status 421 = Inl (Failed (Err_RuntimeFailure ''ssh3: CONNECT returned HTTP 421''))"
  by (simp_all add: check_status_def dec.simps digit_char_def char_of_def bit_0)

lemma parse_statuses:
  "parse_uint u16_max ''200'' = Some 200" "parse_uint u16_max ''401'' = Some 401" "parse_uint u16_max ''421'' = Some 421"
  by (simp_all add: parse_uint_def u16_max_def to_digit_def)

section \<open>Open requests reach the server\<close>

lemma frame_new_simps [simp]: "fr_kind (frame_new k p) = k" "fr_payload (frame_new k p) = p"
  by (simp_all add: frame_new_def)

lemma length_put_string: "wire_string v \<Longrightarrow> length (put_string v) \<le> u16_max + 2"
  by (simp add: put_string_short wire_string_def)

lemma small_payload: "length p \<le> u16_max + 16 \<Longrightarrow> small (frame_new k p)"
  by (simp add: small_def MAX_FRAME_LEN_def u16_max_def)

lemma read_frame_new:
  "length p \<le> u16_max + 16 \<Longrightarrow> read_async \<lparr>rv_bytes = frame_encode (frame_new k p) @ rest, rv_end = e\<rparr> =
     Inr (frame_new k p, \<lparr>rv_bytes = rest, rv_end = e\<rparr>)"
  using read_async_encode [OF small_payload, of p "\<lparr>rv_bytes = frame_encode (frame_new k p) @ rest, rv_end = e\<rparr>" k rest] by simp

lemma await_open_response_of:
  assumes "wire_string reason"
  shows "await_open_response what \<lparr>rv_bytes = open_response okay reason @ rest, rv_end = e\<rparr> =
    (if okay then Inr \<lparr>rv_bytes = rest, rv_end = e\<rparr>
     else Inl (Failed (Err_NetworkUnreachable (''ssh3 '' @ what @ '' rejected by peer: '' @ text_of reason))))"
proof -
  let ?r = "\<lparr>fo_ok = okay, fo_reason = reason\<rparr>"
  have "length (open_response_encode ?r) \<le> u16_max + 16"
    using length_put_string [OF assms] by (simp add: open_response_encode_def)
  then show ?thesis using open_response_roundtrip [of ?r "[]"] assms
    by (simp add: await_open_response_def open_response_def read_frame_new)
qed

lemma serve_direct_tcp:
  assumes "wire_string (co_host p)"
  shows "serve_inbound_open acl dial dial_uds
      \<lparr>rv_bytes = frame_encode (frame_new K_DirectTcpRequest (channel_open_encode p)) @ rest, rv_end = e\<rparr> =
    serve_tcp_open acl dial (channel_open_encode p) \<lparr>rv_bytes = rest, rv_end = e\<rparr>"
proof -
  have "length (channel_open_encode p) \<le> u16_max + 16"
    using length_put_string [OF assms] by (simp add: channel_open_encode_def)
  then show ?thesis by (simp add: serve_inbound_open_def read_frame_new)
qed

lemma channel_open_roundtrip: "wire_string (co_host p) \<Longrightarrow> channel_open_decode (channel_open_encode p) = Inr p"
  using channel_open_exact [of "channel_open_encode p" p] by auto

lemma wire_ascii: "\<forall>c \<in> set s. of_char c < (128 :: nat) \<Longrightarrow> length s \<le> u16_max \<Longrightarrow> wire_string (ascii s)"
  by (simp add: wire_string_def ascii_utf8)

section \<open>The other exchanges\<close>

lemma read_settings_frame:
  assumes "wire_settings s"
  shows "read_settings who \<lparr>rv_bytes = settings_frame s @ rest, rv_end = e\<rparr> = Inr (s, \<lparr>rv_bytes = rest, rv_end = e\<rparr>)"
proof -
  have "length (settings_encode s) \<le> u16_max + 16"
    using assms length_put_string [of "case st_version s of Some v \<Rightarrow> v | None \<Rightarrow> []"]
    by (cases "st_version s") (auto simp: settings_encode_def wire_settings_def wire_string_def)
  then show ?thesis using settings_roundtrip [OF assms, of "[]"]
    by (simp add: read_settings_def settings_frame_def read_frame_new)
qed

text \<open>Each end learns the settings of the other, and reads on from behind them.\<close>

lemma settings_exchange:
  fixes rest :: bytes and e :: stream_end
  assumes "wire_settings ours" "wire_settings theirs"
  defines "server \<equiv> \<lambda>req. accept_control_stream theirs \<lparr>rv_bytes = req @ rest, rv_end = e\<rparr>"
  shows "fst (server (settings_frame ours)) = Inr (ours, \<lparr>rv_bytes = rest, rv_end = e\<rparr>)"
    and "open_control_stream ours (\<lambda>req. \<lparr>rv_bytes = snd (server req) @ data, rv_end = e'\<rparr>) = Inr (theirs, \<lparr>rv_bytes = data, rv_end = e'\<rparr>)"
  by (simp_all add: server_def open_control_stream_def accept_control_stream_def read_settings_frame [OF assms(1)]
      read_settings_frame [OF assms(2)])

text \<open>A server without a policy for socket paths bridges none.\<close>

lemma uds_default_deny: "fst (serve_local_uds_open (acl_new resolve) dial_uds payload r) \<in> {Dropped, Refused}"
  by (simp add: serve_local_uds_open_def acl_new_def split: sum.split)

section \<open>Hostile peers at the ends\<close>

lemma read_async_no_panic: "read_async r \<noteq> Inl Panic"
  by (simp add: read_async_def io_fault_def Let_def split: sum.split option.split stream_end.split)

lemma connect_response_no_panic: "connect_response r \<noteq> Inl Panic"
  using read_frame_typed_no_panic [of FRAME_HEADERS r]
  by (auto simp: connect_response_def and_then_panic qpack_decode_no_panic response_fields_no_panic split: sum.split fault.split option.split)

lemma read_settings_no_panic: "read_settings who r \<noteq> Inl Panic"
  using read_async_no_panic [of r]
  by (auto simp: read_settings_def and_then_panic decoders_no_panic split: sum.split fault.split)

lemma await_open_response_no_panic: "await_open_response what r \<noteq> Inl Panic"
  using read_async_no_panic [of r]
  by (auto simp: await_open_response_def and_then_panic decoders_no_panic split: sum.split fault.split)

lemma handle_connect_no_panic: "fst (handle_connect acl we fe r) \<noteq> Inl Panic"
proof -
  have "and_then (read_frame_typed FRAME_HEADERS r) (\<lambda>(payload, _). qpack_decode payload) \<noteq> Inl Panic"
    by (auto simp: and_then_panic qpack_decode_no_panic read_frame_typed_no_panic)
  then show ?thesis by (auto simp: handle_connect_def Let_def split: sum.split option.split)
qed

lemma raw_error_panic: "raw_error e = Panic \<longleftrightarrow> e = Panic"
  by (auto simp: raw_error_def split: fault.split spt_error.split)

lemma client_connect_no_panic: "client_connect reply c \<noteq> Inl Panic"
  using connect_response_no_panic
  by (auto simp: client_connect_def raw_error_panic check_status_def Let_def and_then_panic split: sum.split)

section \<open>Properties\<close>

text \<open>C9:
  The Extended CONNECT of the client and the server agree.  Put together over a stream, whatever the client sends after its
  request, the server accepts exactly the clients its policy admits: those with its protocol token whose token and authorization
  header, as the client was given them, pass its check.  The client sees the connection accepted exactly then, an authentication
  failure when the check fails and a runtime failure when the token is another one.  No header field of the request has a control
  byte.  (The request has to fit the 64 KiB the server reads, and texts are UTF-8.)
\<close>

theorem connect_handshake:
  fixes acl :: "'t Ssh3ServerAcl" and rest :: bytes and e :: stream_end
  assumes "connect_request c = Inr req" "length (qpack_encode (connect_fields c)) \<le> RESPONSE_HEADERS_MAX_LEN"
    and "utf8_ok (cp_protocol_token c)" "utf8_ok (cp_auth_header c)"
  defines "server \<equiv> \<lambda>req. handle_connect acl None None \<lparr>rv_bytes = req @ rest, rv_end = e\<rparr>"
  shows "(fst (server req) = Inr () \<longleftrightarrow> admits acl c)
    \<and> client_connect (\<lambda>req. \<lparr>rv_bytes = snd (server req), rv_end = Fin\<rparr>) c =
        (if admits acl c then Inr (Some (ascii ''spt-ssh3''))
         else if cp_protocol_token c = sa_protocol_token acl then Inl (Failed (Err_AuthFailed ''ssh3: CONNECT returned HTTP 401''))
         else Inl (Failed (Err_RuntimeFailure ''ssh3: CONNECT returned HTTP 421'')))
    \<and> (\<forall>(n, v) \<in> set (connect_fields c). \<forall>b \<in> set v. 0x20 \<le> b \<and> b \<noteq> 0x7F)"
proof -
  let ?status = "connect_status acl (connect_fields c)"
  have srv: "server req = (if admits acl c then Inr () else Inl (Failed (Err_AuthFailed (''ssh3 server: CONNECT rejected with HTTP '' @ ?status))),
      build_headers_frame (qpack_encode (response_fields_of ?status)))"
    unfolding server_def by (rule handle_connect_client [OF assms(1-4) refl])
  have st: "?status = (if cp_protocol_token c \<noteq> sa_protocol_token acl then ''421'' else if admits acl c then ''200'' else ''401'')"
    by (rule connect_status_client [OF assms(3,4)])
  have adm: "admits acl c \<Longrightarrow> cp_protocol_token c = sa_protocol_token acl" by (simp add: admits_def)
  have resp: "connect_response \<lparr>rv_bytes = snd (server req), rv_end = Fin\<rparr> = Inr (the (parse_uint u16_max ?status), Some (ascii ''spt-ssh3''))"
    unfolding srv snd_conv by (rule connect_response_of) (simp add: st)
  have "(n, v) \<in> set (connect_fields c) \<Longrightarrow> printable v" for n v
    using assms(1) by (auto simp: connect_request_ok connect_fields_def printable_def ascii_def)
  then show ?thesis
    using srv resp adm assms(1)
    by (auto simp: client_connect_def st parse_statuses check_status_values raw_error_def printable_def)
qed

definition sample_client :: connect_params where
  "sample_client = \<lparr>cp_host = ascii ''h'', cp_port = 443, cp_url_path = ascii ''/s'', cp_auth_header = ascii ''Bearer t'',
     cp_user_agent = ascii ''u'', cp_protocol_token = ascii ''ssh3''\<rparr>"

definition sample_acl :: "string Ssh3ServerAcl" where
  "sample_acl = (acl_new (\<lambda>p. if co_port p = 22 then Some ''db'' else None))
     \<lparr>sa_authorize_connect := Some (\<lambda>_ a. a = Some (ascii ''Bearer t''))\<rparr>"

lemma sample_client_valid:
  "connect_request sample_client = Inr (build_headers_frame (qpack_encode (connect_fields sample_client)))"
  "length (qpack_encode (connect_fields sample_client)) \<le> RESPONSE_HEADERS_MAX_LEN"
  "utf8_ok (cp_protocol_token sample_client)" "utf8_ok (cp_auth_header sample_client)"
proof -
  show "length (qpack_encode (connect_fields sample_client)) \<le> RESPONSE_HEADERS_MAX_LEN"
    by (rule order_trans [OF length_qpack_encode])
      (simp add: connect_fields_def sample_client_def cp_authority_def RESPONSE_HEADERS_MAX_LEN_def dec.simps)
  show "utf8_ok (cp_protocol_token sample_client)" "utf8_ok (cp_auth_header sample_client)"
    by (simp_all add: sample_client_def ascii_utf8)
qed (simp add: connect_request_ok sample_client_def cp_authority_def printable_def ascii_def dec.simps digit_char_def)

theorem connect_handshake_witness:
  "client_connect (\<lambda>req. \<lparr>rv_bytes = snd (handle_connect sample_acl None None \<lparr>rv_bytes = req @ [], rv_end = Silent\<rparr>), rv_end = Fin\<rparr>)
     sample_client = Inr (Some (ascii ''spt-ssh3''))"
  using connect_handshake [OF sample_client_valid, of sample_acl "[]" Silent]
  by (simp add: admits_def sample_client_def sample_acl_def acl_new_def)

text \<open>C20:
  Opening a forwarded connection: the two ends of an open request agree.  For a host name the frame can carry, the server asks
  its policy about exactly the host and port the client asked for and dials exactly the target the policy returns.  The client
  gets a connection exactly when that dial succeeds; then each end goes on reading exactly the bytes the other sends next.
  Otherwise the server bridges nothing and the client gets the reason.
\<close>

theorem direct_tcp_open:
  fixes acl :: "'t Ssh3ServerAcl" and dial_uds :: "bytes \<Rightarrow> bytes option" and rest data :: bytes and e e' :: stream_end
  assumes "wire_string (co_host p)"
    and "\<And>t er. sa_resolve_target acl p = Some t \<Longrightarrow> dial t = Some er \<Longrightarrow> wire_string (ascii ''dial: '' @ er)"
  defines "server \<equiv> \<lambda>req. serve_inbound_open acl dial dial_uds \<lparr>rv_bytes = req @ rest, rv_end = e\<rparr>"
  defines "client \<equiv> open_channel (\<lambda>req. \<lparr>rv_bytes = snd (server req) @ data, rv_end = e'\<rparr>) p"
  defines "req \<equiv> frame_encode (frame_new K_DirectTcpRequest (channel_open_encode p))"
  shows "case sa_resolve_target acl p of
      None \<Rightarrow> fst (server req) = Refused \<and> client = Inl (Failed (Err_NetworkUnreachable ''ssh3 channel-open rejected by peer: denied by acl''))
    | Some t \<Rightarrow>
        (case dial t of
           None \<Rightarrow> fst (server req) = BridgedTcp t \<lparr>rv_bytes = rest, rv_end = e\<rparr> \<and> client = Inr \<lparr>rv_bytes = data, rv_end = e'\<rparr>
         | Some er \<Rightarrow> fst (server req) = Refused
             \<and> client = Inl (Failed (Err_NetworkUnreachable (''ssh3 channel-open rejected by peer: '' @ text_of (ascii ''dial: '' @ er)))))"
proof -
  have srv: "server req = serve_tcp_open acl dial (channel_open_encode p) \<lparr>rv_bytes = rest, rv_end = e\<rparr>"
    unfolding server_def req_def by (rule serve_direct_tcp [OF assms(1)])
  have cl: "client = await_open_response ''channel-open'' \<lparr>rv_bytes = snd (server req) @ data, rv_end = e'\<rparr>"
    by (simp add: client_def open_channel_def req_def)
  have denied: "wire_string (ascii ''denied by acl'')" by (intro wire_ascii) (simp_all add: u16_max_def)
  show ?thesis
    using assms(2) denied by (auto simp: srv cl serve_tcp_open_def channel_open_roundtrip [OF assms(1)] await_open_response_of wire_string_def
        split: option.split)
qed

theorem direct_tcp_open_witness:
  "fst (serve_inbound_open sample_acl (\<lambda>_. None) (\<lambda>_. None)
      \<lparr>rv_bytes = frame_encode (frame_new K_DirectTcpRequest (channel_open_encode \<lparr>co_host = ascii ''h'', co_port = 22\<rparr>)) @ [7], rv_end = Fin\<rparr>)
     = BridgedTcp ''db'' \<lparr>rv_bytes = [7], rv_end = Fin\<rparr>"
  using direct_tcp_open [of "\<lparr>co_host = ascii ''h'', co_port = 22\<rparr>" sample_acl "\<lambda>_. None" "\<lambda>_. None" "[7]" Fin "[]" Fin]
  by (simp add: sample_acl_def acl_new_def wire_ascii u16_max_def)


end
