(* ===== verification/Ssh3_Session.thy ===== *)
theory Ssh3_Session
  imports Ssh3_Server Protocol_Types Rate_Limits "HOL-Library.Multiset"
begin

text \<open>
  What an SSH3 client does with the streams its peer opens: \<open>SessionState\<close>, \<open>open_remote\<close> and \<open>open_remote_uds\<close>, the dispatch of
  inbound opens and the forwards' loops of \<open>crates/spt-ssh3/src/forward.rs\<close>, and the keepalive of \<open>session.rs\<close>.  Each task runs
  in steps between its suspension points: a request is registered and later answered, an inbound open is admitted and later
  dialled.  A registration is a number, its channel and connection gate; the loop of a remote forward, its bridge tasks and the
  dispatches that wait for a dial are the entries of lists.  The rate limits and the idle timeout of a forward only pass through to
  the copy of its connections and are left out.
\<close>

section \<open>Session state\<close>

type_synonym listen = "bytes \<times> 16 word"

record RemoteForwardEntry =
  re_target :: TargetAddr
  re_chan :: nat

text \<open>The two halves a registration shares with the dispatcher: its gate, and whether the receiver still exists.\<close>

record chan =
  ch_gate :: ConnectionGate
  ch_open :: bool

datatype dial_target = Dial_Tcp TargetAddr | Dial_Uds bytes

text \<open>
  An inbound forward: a dispatch that waits for its dial, or an \<open>InboundForward\<close>.  It holds a permit of the session, and with
  \<open>if_conn_permit\<close> one of the gate of its registration (a forward of a socket path has no registration).
\<close>

record InboundForward =
  if_target :: dial_target
  if_chan :: "nat option"
  if_conn_permit :: bool

record SessionState =
  ss_remote_forwards :: "listen \<rightharpoonup> RemoteForwardEntry"
  ss_remote_uds_forwards :: "bytes \<rightharpoonup> bytes"
  ss_inbound_forward_limit :: nat
  ss_chans :: "chan list"
  ss_dialing :: "InboundForward list"
  ss_queued :: "InboundForward list"
  ss_bridged :: "InboundForward list"

definition DEFAULT_MAX_INBOUND_FORWARDS :: nat where
  "DEFAULT_MAX_INBOUND_FORWARDS = 256"

definition inbound_cap :: "nat option \<Rightarrow> nat" where
  "inbound_cap max_forwards =
     (let cap = (case max_forwards of
          None \<Rightarrow> DEFAULT_MAX_INBOUND_FORWARDS
        | Some n \<Rightarrow> if n = 0 then DEFAULT_MAX_INBOUND_FORWARDS else n)
      in min cap (2 ^ 20))"

definition with_max_forwards :: "nat option \<Rightarrow> SessionState" where
  "with_max_forwards max_forwards =
     \<lparr>ss_remote_forwards = (\<lambda>_. None), ss_remote_uds_forwards = (\<lambda>_. None), ss_inbound_forward_limit = inbound_cap max_forwards,
      ss_chans = [], ss_dialing = [], ss_queued = [], ss_bridged = []\<rparr>"

section \<open>Permits\<close>

definition update_gate :: "(ConnectionGate \<Rightarrow> ConnectionGate) \<Rightarrow> nat \<Rightarrow> SessionState \<Rightarrow> SessionState" where
  "update_gate f c st = st\<lparr>ss_chans := (ss_chans st)[c := (ss_chans st ! c)\<lparr>ch_gate := f (ch_gate (ss_chans st ! c))\<rparr>]\<rparr>"

text \<open>An inbound forward is dropped, with its permits.\<close>

definition release :: "InboundForward \<Rightarrow> SessionState \<Rightarrow> SessionState" where
  "release x st =
     (let st = st\<lparr>ss_inbound_forward_limit := ss_inbound_forward_limit st + 1\<rparr>
      in case if_chan x of
           Some c \<Rightarrow> if if_conn_permit x then update_gate gate_release c st else st
         | None \<Rightarrow> st)"

text \<open>The receiver of a registration is dropped, and with it what is queued for it.\<close>

definition drop_receiver :: "nat \<Rightarrow> SessionState \<Rightarrow> SessionState" where
  "drop_receiver c st =
     fold release (filter (\<lambda>x. if_chan x = Some c) (ss_queued st))
       (st\<lparr>ss_chans := (ss_chans st)[c := (ss_chans st ! c)\<lparr>ch_open := False\<rparr>],
           ss_queued := filter (\<lambda>x. if_chan x \<noteq> Some c) (ss_queued st)\<rparr>)"

definition remove_forward :: "listen \<Rightarrow> SessionState \<Rightarrow> SessionState" where
  "remove_forward key st = st\<lparr>ss_remote_forwards := (ss_remote_forwards st)(key := None)\<rparr>"

definition remove_uds_forward :: "bytes \<Rightarrow> SessionState \<Rightarrow> SessionState" where
  "remove_uds_forward path st = st\<lparr>ss_remote_uds_forwards := (ss_remote_uds_forwards st)(path := None)\<rparr>"

section \<open>Opening a remote forward\<close>

text \<open>
  Up to the request: the registration's number and the frame to send.  \<open>listen\<close> is what \<open>bind_host_port\<close> makes of the
  configured address.
\<close>

definition open_remote_begin ::
  "nat \<Rightarrow> bool \<Rightarrow> (spt_error, listen) result \<Rightarrow> RemoteForwardSpec \<Rightarrow> SessionState
     \<Rightarrow> (spt_error, nat \<times> bytes) result \<times> SessionState" where
  "open_remote_begin max_permits peer_supports_remote listen spec st =
     (if \<not> peer_supports_remote
      then (Inl (Err_UnsupportedPlatform ''ssh3 peer does not advertise remote_tcp capability''), st)
      else case listen of
        Inl e \<Rightarrow> (Inl e, st)
      | Inr key \<Rightarrow>
          let c = length (ss_chans st);
              gate = gate_new max_permits (case rf_max_connections spec of Some n \<Rightarrow> n | None \<Rightarrow> 0)
          in (Inr (c, frame_encode (frame_new K_DirectTcpRequest (channel_open_encode \<lparr>co_host = fst key, co_port = snd key\<rparr>))),
              st\<lparr>ss_chans := ss_chans st @ [\<lparr>ch_gate = gate, ch_open = True\<rparr>],
                 ss_remote_forwards := (ss_remote_forwards st)(key \<mapsto> \<lparr>re_target = rf_target spec, re_chan = c\<rparr>)\<rparr>))"

text \<open>
  How the exchange on the control stream ends: the request cannot be written, or what is read (\<open>Stalled\<close>: nothing in time).  In
  every failure the receiver is dropped; whether the entry goes is up to the branch.
\<close>

definition exchange_verdict :: "string \<Rightarrow> string \<Rightarrow> spt_error option \<Rightarrow> (fault, Ssh3Frame) result \<Rightarrow> (fault \<times> bool, unit) result" where
  "exchange_verdict what address send_error resp =
     (case send_error of
        Some e \<Rightarrow> Inl (Failed e, True)
      | None \<Rightarrow>
          (case resp of
             Inl Stalled \<Rightarrow> Inl (Failed (Err_RuntimeFailure (''ssh3 '' @ what @ '': timeout'')), False)
           | Inl e \<Rightarrow> Inl (e, True)
           | Inr f \<Rightarrow>
               if fr_kind f \<noteq> K_ForwardOpenResponse
               then Inl (Failed (Err_RuntimeFailure (''ssh3 '' @ what @ '': unexpected kind '' @ kind_debug (fr_kind f))), True)
               else case open_response_decode (fr_payload f) of
                 Inl e \<Rightarrow> Inl (e, False)
               | Inr parsed \<Rightarrow>
                   if \<not> fo_ok parsed then Inl (Failed (Err_RemoteBindFailed address (text_of (fo_reason parsed))), True)
                   else Inr ()))"

definition open_remote_end ::
  "listen \<Rightarrow> nat \<Rightarrow> spt_error option \<Rightarrow> (fault, Ssh3Frame) result \<Rightarrow> SessionState \<Rightarrow> (fault, unit) result \<times> SessionState" where
  "open_remote_end key c send_error resp st =
     (case exchange_verdict ''tcpip-forward'' (text_of (fst key) @ '':'' @ dec (unat (snd key))) send_error resp of
        Inl (e, remove) \<Rightarrow> (Inl e, drop_receiver c (if remove then remove_forward key st else st))
      | Inr () \<Rightarrow> (Inr (), st))"

text \<open>The end of \<open>remote_loop\<close>: closed, or every sender is gone.\<close>

definition remote_loop_end :: "listen \<Rightarrow> nat \<Rightarrow> SessionState \<Rightarrow> SessionState" where
  "remote_loop_end key c st = drop_receiver c (remove_forward key st)"

text \<open>The loop takes the next inbound forward of its channel and bridges it.\<close>

definition remote_loop_recv :: "nat \<Rightarrow> SessionState \<Rightarrow> SessionState" where
  "remote_loop_recv c st =
     (case List.find (\<lambda>x. if_chan x = Some c) (ss_queued st) of
        None \<Rightarrow> st
      | Some x \<Rightarrow> st\<lparr>ss_queued := remove1 x (ss_queued st), ss_bridged := x # ss_bridged st\<rparr>)"

definition open_remote_uds_begin ::
  "bool \<Rightarrow> bytes \<Rightarrow> bytes \<Rightarrow> SessionState \<Rightarrow> (spt_error, bytes) result \<times> SessionState" where
  "open_remote_uds_begin peer_supports_remote remote_path local_path st =
     (if \<not> peer_supports_remote
      then (Inl (Err_UnsupportedPlatform ''ssh3 peer does not advertise remote_tcp capability (required for remote-uds)''), st)
      else (Inr (frame_encode (frame_new K_RemoteUdsForwardRequest (uds_open_encode remote_path))),
            st\<lparr>ss_remote_uds_forwards := (ss_remote_uds_forwards st)(remote_path \<mapsto> local_path)\<rparr>))"

definition open_remote_uds_end ::
  "bytes \<Rightarrow> spt_error option \<Rightarrow> (fault, Ssh3Frame) result \<Rightarrow> SessionState \<Rightarrow> (fault, unit) result \<times> SessionState" where
  "open_remote_uds_end remote_path send_error resp st =
     (case exchange_verdict ''remote-uds'' (text_of remote_path) send_error resp of
        Inl (e, remove) \<Rightarrow> (Inl e, if remove then remove_uds_forward remote_path st else st)
      | Inr () \<Rightarrow> (Inr (), st))"

definition remote_uds_loop_end :: "bytes \<Rightarrow> SessionState \<Rightarrow> SessionState" where
  "remote_uds_loop_end remote_path st = remove_uds_forward remote_path st"

section \<open>Inbound opens\<close>

text \<open>Every frame of a keepalive stream is sent back; \<open>writes\<close> is the number of writes that succeed.\<close>

function keepalive_frames :: "recv \<Rightarrow> Ssh3Frame list" where
  "keepalive_frames r = (case read_async r of Inl _ \<Rightarrow> [] | Inr (f, r') \<Rightarrow> f # keepalive_frames r')"
  by auto

termination
  by (relation "measure (\<lambda>r. length (rv_bytes r))") (auto simp: read_async_Inr frame_encode_def Let_def)

declare keepalive_frames.simps [simp del]

definition serve_keepalive_stream :: "nat \<Rightarrow> Ssh3Frame \<Rightarrow> recv \<Rightarrow> bytes" where
  "serve_keepalive_stream writes first r = concat (map frame_encode (take writes (first # keepalive_frames r)))"

abbreviation reject_inbound :: "string \<Rightarrow> bytes" where
  "reject_inbound reason \<equiv> open_response False (ascii reason)"

definition admit :: "InboundForward \<Rightarrow> SessionState \<Rightarrow> SessionState" where
  "admit x st = st\<lparr>ss_dialing := x # ss_dialing st\<rparr>"

text \<open>Up to the dial: the new state and what is written to the peer.\<close>

definition dispatch_inbound_uds :: "bytes \<Rightarrow> SessionState \<Rightarrow> SessionState \<times> bytes" where
  "dispatch_inbound_uds payload st =
     (case uds_open_decode payload of
        Inl _ \<Rightarrow> (st, [])
      | Inr path \<Rightarrow>
          (case ss_remote_uds_forwards st path of
             None \<Rightarrow> (st, reject_inbound ''no remote-uds forward registered for that path'')
           | Some local_path \<Rightarrow>
               if ss_inbound_forward_limit st = 0 then (st, reject_inbound ''max_forwards reached'')
               else (admit \<lparr>if_target = Dial_Uds local_path, if_chan = None, if_conn_permit = False\<rparr>
                       (st\<lparr>ss_inbound_forward_limit := ss_inbound_forward_limit st - 1\<rparr>), [])))"

definition dispatch_inbound_tcp :: "ChannelOpenPayload \<Rightarrow> SessionState \<Rightarrow> SessionState \<times> bytes" where
  "dispatch_inbound_tcp p st =
     (case ss_remote_forwards st (co_host p, co_port p) of
        None \<Rightarrow> (st, reject_inbound ''no remote forward registered for that bind'')
      | Some entry \<Rightarrow>
          if ss_inbound_forward_limit st = 0 then (st, reject_inbound ''max_forwards reached'')
          else
            let c = re_chan entry;
                gate = ch_gate (ss_chans st ! c);
                taken = st\<lparr>ss_inbound_forward_limit := ss_inbound_forward_limit st - 1\<rparr>;
                x = \<lparr>if_target = Dial_Tcp (re_target entry), if_chan = Some c, if_conn_permit = (cg_cap gate \<noteq> 0)\<rparr>
            in if cg_cap gate = 0 then (admit x taken, [])
               else if \<not> fst (gate_try_acquire gate) then (st, reject_inbound ''max_connections reached'')
               else (admit x (update_gate (snd \<circ> gate_try_acquire) c taken), []))"

definition dispatch_inbound_bidi :: "nat \<Rightarrow> recv \<Rightarrow> SessionState \<Rightarrow> SessionState \<times> bytes" where
  "dispatch_inbound_bidi writes r st =
     (case read_async r of
        Inl _ \<Rightarrow> (st, [])
      | Inr (f, r') \<Rightarrow>
          if fr_kind f = K_AppPing then (st, serve_keepalive_stream writes f r')
          else if fr_kind f = K_UdsForwardRequest then dispatch_inbound_uds (fr_payload f) st
          else if fr_kind f \<noteq> K_DirectTcpRequest then (st, reject_inbound ''unexpected open frame'')
          else case channel_open_decode (fr_payload f) of
            Inl _ \<Rightarrow> (st, [])
          | Inr p \<Rightarrow> dispatch_inbound_tcp p st)"

text \<open>
  The \<open>i\<close>-th waiting dispatch goes on after its dial (\<open>Some e\<close>: it failed); \<open>written\<close>: the acknowledgement could be written.  A
  forward whose receiver is gone is dropped.
\<close>

definition dispatch_dialed :: "nat \<Rightarrow> bytes option \<Rightarrow> bool \<Rightarrow> SessionState \<Rightarrow> SessionState \<times> bytes" where
  "dispatch_dialed i dial_error written st =
     (let x = ss_dialing st ! i;
          st = st\<lparr>ss_dialing := take i (ss_dialing st) @ drop (Suc i) (ss_dialing st)\<rparr>
      in case dial_error of
           Some e \<Rightarrow>
             (release x st,
              open_response False (ascii (case if_target x of Dial_Tcp _ \<Rightarrow> ''local dial failed: '' | Dial_Uds _ \<Rightarrow> ''local uds dial failed: '') @ e))
         | None \<Rightarrow>
             if \<not> written then (release x st, [])
             else (case if_chan x of
                     None \<Rightarrow> st\<lparr>ss_bridged := x # ss_bridged st\<rparr>
                   | Some c \<Rightarrow> if ch_open (ss_chans st ! c) then st\<lparr>ss_queued := ss_queued st @ [x]\<rparr> else release x st,
                   open_response True []))"

definition bridge_end :: "nat \<Rightarrow> SessionState \<Rightarrow> SessionState" where
  "bridge_end i st =
     release (ss_bridged st ! i) (st\<lparr>ss_bridged := take i (ss_bridged st) @ drop (Suc i) (ss_bridged st)\<rparr>)"

text \<open>The tasks of a session, interleaved.\<close>

inductive sess_step :: "nat \<Rightarrow> SessionState \<Rightarrow> SessionState \<Rightarrow> bool" for max_permits where
  Open_Begin: "sess_step max_permits st (snd (open_remote_begin max_permits supports listen spec st))"
| Open_End: "c < length (ss_chans st) \<Longrightarrow> sess_step max_permits st (snd (open_remote_end key c send_error resp st))"
| Loop_Recv: "sess_step max_permits st (remote_loop_recv c st)"
| Loop_End: "c < length (ss_chans st) \<Longrightarrow> sess_step max_permits st (remote_loop_end key c st)"
| Uds_Begin: "sess_step max_permits st (snd (open_remote_uds_begin supports remote_path local_path st))"
| Uds_End: "sess_step max_permits st (snd (open_remote_uds_end path send_error resp st))"
| Uds_Loop_End: "sess_step max_permits st (remote_uds_loop_end path st)"
| Dispatch: "sess_step max_permits st (fst (dispatch_inbound_bidi writes r st))"
| Dialed: "i < length (ss_dialing st) \<Longrightarrow> sess_step max_permits st (fst (dispatch_dialed i dial_error written st))"
| Bridge_End: "i < length (ss_bridged st) \<Longrightarrow> sess_step max_permits st (bridge_end i st)"

section \<open>Permits are conserved\<close>

definition live :: "SessionState \<Rightarrow> InboundForward multiset" where
  "live st = mset (ss_dialing st) + mset (ss_queued st) + mset (ss_bridged st)"

abbreviation of_chan :: "nat \<Rightarrow> InboundForward multiset \<Rightarrow> nat" where
  "of_chan c M \<equiv> size (filter_mset (\<lambda>x. if_chan x = Some c) M)"

abbreviation gate_of :: "nat \<Rightarrow> SessionState \<Rightarrow> ConnectionGate" where
  "gate_of c st \<equiv> ch_gate (ss_chans st ! c)"

text \<open>The forwards \<open>M\<close> hold the permits that are not free.\<close>

definition holders :: "nat \<Rightarrow> InboundForward multiset \<Rightarrow> SessionState \<Rightarrow> bool" where
  "holders cap M st \<longleftrightarrow>
     ss_inbound_forward_limit st + size M = cap
     \<and> (\<forall>x c. x \<in># M \<longrightarrow> if_chan x = Some c \<longrightarrow> c < length (ss_chans st) \<and> (if_conn_permit x \<longleftrightarrow> cg_cap (gate_of c st) \<noteq> 0))
     \<and> (\<forall>c < length (ss_chans st). cg_cap (gate_of c st) \<noteq> 0 \<longrightarrow> cg_available (gate_of c st) + of_chan c M = cg_cap (gate_of c st))
     \<and> (\<forall>key entry. ss_remote_forwards st key = Some entry \<longrightarrow> re_chan entry < length (ss_chans st))"

lemma live_limit [simp]: "live (st\<lparr>ss_inbound_forward_limit := n\<rparr>) = live st"
  by (simp add: live_def)

lemma live_simps [simp]:
  "live (update_gate f c st) = live st" "live (release x st) = live st" "live (remove_forward key st) = live st"
  "live (remove_uds_forward path st) = live st" "live (fold release xs st) = live st"
proof -
  show 1: "live (update_gate f c st) = live st" for f c st by (simp add: live_def update_gate_def)
  show 2: "live (release x st) = live st" for x st by (simp add: release_def Let_def 1 split: option.split)
  show "live (fold release xs st) = live st" by (induction xs arbitrary: st) (simp_all add: 2)
qed (simp_all add: live_def remove_forward_def remove_uds_forward_def)

lemma update_gate_simps [simp]:
  "ss_inbound_forward_limit (update_gate f c st) = ss_inbound_forward_limit st" "length (ss_chans (update_gate f c st)) = length (ss_chans st)"
  "ss_remote_forwards (update_gate f c st) = ss_remote_forwards st" "ss_dialing (update_gate f c st) = ss_dialing st"
  "ss_queued (update_gate f c st) = ss_queued st" "ss_bridged (update_gate f c st) = ss_bridged st"
  by (simp_all add: update_gate_def)

lemma gate_of_update: "c < length (ss_chans st) \<Longrightarrow> gate_of d (update_gate f c st) = (if d = c then f (gate_of c st) else gate_of d st)"
  by (simp add: update_gate_def nth_list_update)

lemma holdersI:
  assumes "ss_inbound_forward_limit st + size M = cap"
    and "\<And>x c. x \<in># M \<Longrightarrow> if_chan x = Some c \<Longrightarrow> c < length (ss_chans st) \<and> (if_conn_permit x \<longleftrightarrow> cg_cap (gate_of c st) \<noteq> 0)"
    and "\<And>c. c < length (ss_chans st) \<Longrightarrow> cg_cap (gate_of c st) \<noteq> 0 \<Longrightarrow>
      cg_available (gate_of c st) + of_chan c M = cg_cap (gate_of c st)"
    and "\<And>key entry. ss_remote_forwards st key = Some entry \<Longrightarrow> re_chan entry < length (ss_chans st)"
  shows "holders cap M st"
  unfolding holders_def using assms by blast

lemma holdersD:
  assumes "holders cap M st"
  shows "ss_inbound_forward_limit st + size M = cap"
    and "x \<in># M \<Longrightarrow> if_chan x = Some c \<Longrightarrow> c < length (ss_chans st) \<and> (if_conn_permit x \<longleftrightarrow> cg_cap (gate_of c st) \<noteq> 0)"
    and "c < length (ss_chans st) \<Longrightarrow> cg_cap (gate_of c st) \<noteq> 0 \<Longrightarrow>
      cg_available (gate_of c st) + of_chan c M = cg_cap (gate_of c st)"
    and "ss_remote_forwards st key = Some entry \<Longrightarrow> re_chan entry < length (ss_chans st)"
  using assms unfolding holders_def by blast+

lemma holders_free:
  assumes h: "holders cap (add_mset x M) st" and x: "\<And>c. if_chan x = Some c \<Longrightarrow> cg_cap (gate_of c st) = 0"
  shows "holders cap M (st\<lparr>ss_inbound_forward_limit := ss_inbound_forward_limit st + 1\<rparr>)"
proof (rule holdersI, goal_cases)
  case 1
  show ?case using holdersD(1) [OF h] by simp
next
  case (2 y c)
  then show ?case using holdersD(2) [OF h, of y c] by simp
next
  case (3 c)
  then have c: "c < length (ss_chans st)" "cg_cap (gate_of c st) \<noteq> 0" by simp_all
  have "if_chan x \<noteq> Some c" using c(2) x by metis
  then show ?case using holdersD(3) [OF h c] by simp
next
  case 4
  then show ?case using holdersD(4) [OF h] by simp
qed

lemma holders_gate_free:
  assumes h: "holders cap (add_mset x M) st" and x: "if_chan x = Some c" "if_conn_permit x"
  shows "holders cap M (update_gate gate_release c (st\<lparr>ss_inbound_forward_limit := ss_inbound_forward_limit st + 1\<rparr>))" (is "holders cap M ?st")
proof -
  have c: "c < length (ss_chans st)" using holdersD(2) [OF h _ x(1)] by simp
  have gate: "gate_of d ?st = (if d = c then gate_release (gate_of c st) else gate_of d st)" for d
    using c by (simp add: gate_of_update)
  have caps: "cg_cap (gate_of d ?st) = cg_cap (gate_of d st)" for d
    unfolding gate by (simp add: gate_release_def)
  show ?thesis
  proof (rule holdersI, goal_cases)
    case 1
    show ?case using holdersD(1) [OF h] by simp
  next
    case (2 y d)
    then show ?case using holdersD(2) [OF h, of y d] unfolding caps by simp
  next
    case (3 d)
    then have "cg_available (gate_of d st) + of_chan d (add_mset x M) = cg_cap (gate_of d st)"
      using holdersD(3) [OF h] unfolding caps by simp
    then show ?case using x(1) unfolding caps unfolding gate by (cases "d = c") (simp_all add: gate_release_def)
  next
    case 4
    then show ?case using holdersD(4) [OF h] by simp
  qed
qed

lemma release_eq:
  "release x st =
     (if if_chan x \<noteq> None \<and> if_conn_permit x
      then update_gate gate_release (the (if_chan x)) (st\<lparr>ss_inbound_forward_limit := ss_inbound_forward_limit st + 1\<rparr>)
      else st\<lparr>ss_inbound_forward_limit := ss_inbound_forward_limit st + 1\<rparr>)"
  by (simp add: release_def Let_def split: option.split)

lemma holders_release:
  assumes "holders cap (add_mset x M) st"
  shows "holders cap M (release x st)"
proof (cases "if_chan x \<noteq> None \<and> if_conn_permit x")
  case True
  then have "if_chan x = Some (the (if_chan x))" "if_conn_permit x" by auto
  from holders_gate_free [OF assms this] show ?thesis unfolding release_eq if_P [OF True] .
next
  case False
  have "cg_cap (gate_of c st) = 0" if "if_chan x = Some c" for c
    using holdersD(2) [OF assms _ that] that False by simp
  from holders_free [OF assms this] show ?thesis unfolding release_eq if_not_P [OF False] .
qed

lemma holders_fold_release: "holders cap (mset xs + M) st \<Longrightarrow> holders cap M (fold release xs st)"
  by (induction xs arbitrary: st) (simp_all add: holders_release)

lemma holders_frame:
  assumes h: "holders cap M st" and lim: "ss_inbound_forward_limit st' = ss_inbound_forward_limit st"
    and gates: "map ch_gate (ss_chans st') = map ch_gate (ss_chans st)"
    and fwd: "\<And>key e. ss_remote_forwards st' key = Some e \<Longrightarrow> ss_remote_forwards st key = Some e"
  shows "holders cap M st'"
proof -
  have len: "length (ss_chans st') = length (ss_chans st)" by (metis gates length_map)
  have gate: "gate_of c st' = gate_of c st" if "c < length (ss_chans st)" for c
    using gates that len by (metis nth_map)
  show ?thesis
  proof (rule holdersI, goal_cases)
    case 1
    show ?case using holdersD(1) [OF h] lim by simp
  next
    case (2 y d)
    then show ?case using holdersD(2) [OF h, of y d] len gate by simp
  next
    case (3 d)
    then show ?case using holdersD(3) [OF h, of d] len gate by simp
  next
    case (4 key e)
    then show ?case using holdersD(4) [OF h fwd] len by simp
  qed
qed

lemma holders_take:
  assumes h: "holders cap M st" and lim: "ss_inbound_forward_limit st \<noteq> 0"
    and x: "\<And>c. if_chan x = Some c \<Longrightarrow> c < length (ss_chans st) \<and> cg_cap (gate_of c st) = 0 \<and> \<not> if_conn_permit x"
  shows "holders cap (add_mset x M) (st\<lparr>ss_inbound_forward_limit := ss_inbound_forward_limit st - 1\<rparr>)"
proof (rule holdersI, goal_cases)
  case 1
  show ?case using holdersD(1) [OF h] lim by simp
next
  case (2 y d)
  then show ?case using holdersD(2) [OF h, of y d] x [of d] by auto
next
  case (3 d)
  then have d: "d < length (ss_chans st)" "cg_cap (gate_of d st) \<noteq> 0" by simp_all
  then have "if_chan x \<noteq> Some d" using x [of d] by metis
  then show ?case using holdersD(3) [OF h d] by simp
next
  case 4
  then show ?case using holdersD(4) [OF h] by simp
qed

lemma holders_gate_take:
  assumes h: "holders cap M st" and lim: "ss_inbound_forward_limit st \<noteq> 0"
    and c: "c < length (ss_chans st)" "cg_cap (gate_of c st) \<noteq> 0" "fst (gate_try_acquire (gate_of c st))"
    and x: "if_chan x = Some c" "if_conn_permit x"
  shows "holders cap (add_mset x M)
    (update_gate (snd \<circ> gate_try_acquire) c (st\<lparr>ss_inbound_forward_limit := ss_inbound_forward_limit st - 1\<rparr>))" (is "holders cap _ ?st")
proof -
  have gate: "gate_of d ?st = (if d = c then snd (gate_try_acquire (gate_of c st)) else gate_of d st)" for d
    using c by (simp add: gate_of_update)
  have caps: "cg_cap (gate_of d ?st) = cg_cap (gate_of d st)" for d
    unfolding gate by (simp add: gate_try_acquire_def)
  show ?thesis
  proof (rule holdersI, goal_cases)
    case 1
    show ?case using holdersD(1) [OF h] lim by simp
  next
    case (2 y d)
    then show ?case using holdersD(2) [OF h, of y d] c x unfolding caps by auto
  next
    case (3 d)
    then have "cg_available (gate_of d st) + of_chan d M = cg_cap (gate_of d st)"
      using holdersD(3) [OF h] unfolding caps by simp
    then show ?case using x(1) c(3) unfolding caps unfolding gate
      by (cases "d = c") (auto simp: gate_try_acquire_def split: if_splits)
  next
    case 4
    then show ?case using holdersD(4) [OF h] by simp
  qed
qed

lemma holders_register:
  assumes h: "holders cap M st"
  shows "holders cap M (st\<lparr>ss_chans := ss_chans st @ [\<lparr>ch_gate = gate_new max_permits n, ch_open = True\<rparr>],
      ss_remote_forwards := (ss_remote_forwards st)(key \<mapsto> \<lparr>re_target = t, re_chan = length (ss_chans st)\<rparr>)\<rparr>)"
proof (rule holdersI, goal_cases)
  case 1
  show ?case using holdersD(1) [OF h] by simp
next
  case (2 y d)
  then show ?case using holdersD(2) [OF h, of y d] by (simp add: nth_append)
next
  case (3 d)
  have "filter_mset (\<lambda>x. if_chan x = Some (length (ss_chans st))) M = {#}"
    using holdersD(2) [OF h] unfolding set_mset_eq_empty_iff [symmetric] by auto
  then show ?case using 3 holdersD(3) [OF h, of d]
    by (cases "d = length (ss_chans st)") (auto simp: nth_append gate_new_def)
next
  case (4 k e)
  then show ?case using holdersD(4) [OF h, of k e] by (auto split: if_splits)
qed

definition permits :: "nat \<Rightarrow> SessionState \<Rightarrow> bool" where
  "permits cap st \<longleftrightarrow> holders cap (live st) st"

lemma inv_drop_receiver:
  assumes "permits cap st" "c < length (ss_chans st)"
  shows "permits cap (drop_receiver c st)"
proof -
  let ?st = "st\<lparr>ss_chans := (ss_chans st)[c := (ss_chans st ! c)\<lparr>ch_open := False\<rparr>],
           ss_queued := filter (\<lambda>x. if_chan x \<noteq> Some c) (ss_queued st)\<rparr>"
  let ?xs = "filter (\<lambda>x. if_chan x = Some c) (ss_queued st)"
  have "mset (ss_queued st) = mset ?xs + mset (filter (\<lambda>x. if_chan x \<noteq> Some c) (ss_queued st))"
    by (simp add: mset_filter multiset_partition [symmetric])
  then have live: "live st = mset ?xs + live ?st" by (simp add: live_def ac_simps)
  have "map ch_gate (ss_chans ?st) = map ch_gate (ss_chans st)"
    using assms(2) by (simp add: map_update list_update_same_conv)
  then have "holders cap (live st) ?st" using assms(1) by - (rule holders_frame [of cap _ st], simp_all add: permits_def)
  then have "holders cap (live ?st) (fold release ?xs ?st)" unfolding live by (rule holders_fold_release)
  then show ?thesis by (simp add: permits_def drop_receiver_def)
qed

lemma live_pick:
  "i < length (ss_dialing st) \<Longrightarrow>
     live st = add_mset (ss_dialing st ! i) (live (st\<lparr>ss_dialing := take i (ss_dialing st) @ drop (Suc i) (ss_dialing st)\<rparr>))"
  "i < length (ss_bridged st) \<Longrightarrow>
     live st = add_mset (ss_bridged st ! i) (live (st\<lparr>ss_bridged := take i (ss_bridged st) @ drop (Suc i) (ss_bridged st)\<rparr>))"
proof -
  have pick: "mset xs = add_mset (xs ! i) (mset (take i xs @ drop (Suc i) xs))" if "i < length xs" for xs :: "InboundForward list" and i
    using arg_cong [OF id_take_nth_drop [OF that], of mset] by simp
  show "i < length (ss_dialing st) \<Longrightarrow>
     live st = add_mset (ss_dialing st ! i) (live (st\<lparr>ss_dialing := take i (ss_dialing st) @ drop (Suc i) (ss_dialing st)\<rparr>))"
    using pick [of i "ss_dialing st"] by (simp add: live_def)
  show "i < length (ss_bridged st) \<Longrightarrow>
     live st = add_mset (ss_bridged st ! i) (live (st\<lparr>ss_bridged := take i (ss_bridged st) @ drop (Suc i) (ss_bridged st)\<rparr>))"
    using pick [of i "ss_bridged st"] by (simp add: live_def)
qed

lemma inv_same:
  assumes "permits cap st" "live st' = live st" "ss_inbound_forward_limit st' = ss_inbound_forward_limit st"
    "ss_chans st' = ss_chans st" "\<And>key e. ss_remote_forwards st' key = Some e \<Longrightarrow> ss_remote_forwards st key = Some e"
  shows "permits cap st'"
  using holders_frame [OF assms(1) [unfolded permits_def] assms(3) _ assms(5)] assms(2,4) unfolding permits_def by simp

lemma inv_open_begin: "permits cap st \<Longrightarrow> permits cap (snd (open_remote_begin max_permits supports listen spec st))"
proof -
  assume "permits cap st"
  from holders_register [OF this [unfolded permits_def]] show ?thesis
    using \<open>permits cap st\<close> by (auto simp: open_remote_begin_def Let_def permits_def live_def split: sum.split)
qed

lemma inv_remove_forward: "permits cap st \<Longrightarrow> permits cap (remove_forward key st)"
  by (erule inv_same) (auto simp: remove_forward_def live_def split: if_splits)

lemma inv_remove_uds_forward: "permits cap st \<Longrightarrow> permits cap (remove_uds_forward path st)"
  by (erule inv_same) (auto simp: remove_uds_forward_def live_def)

lemma remove_forward_chans [simp]: "ss_chans (remove_forward key st) = ss_chans st"
  by (simp add: remove_forward_def)

lemma inv_loop_end: "permits cap st \<Longrightarrow> c < length (ss_chans st) \<Longrightarrow> permits cap (remote_loop_end key c st)"
  unfolding remote_loop_end_def by (rule inv_drop_receiver) (simp_all add: inv_remove_forward)

lemma inv_open_end:
  assumes "permits cap st" "c < length (ss_chans st)"
  shows "permits cap (snd (open_remote_end key c send_error resp st))"
  using inv_drop_receiver [OF assms] inv_loop_end [OF assms, of key] assms(1)
  unfolding open_remote_end_def remote_loop_end_def by (simp split: sum.split prod.split unit.split)

lemma inv_loop_recv:
  assumes "permits cap st"
  shows "permits cap (remote_loop_recv c st)"
proof (cases "List.find (\<lambda>x. if_chan x = Some c) (ss_queued st)")
  case (Some x)
  then have "x \<in># mset (ss_queued st)" by (auto dest: find_Some_mem)
  then have "live (remote_loop_recv c st) = live st"
    using Some by (simp add: remote_loop_recv_def live_def mset_remove1)
  then show ?thesis using assms Some by (intro inv_same [OF assms]) (simp_all add: remote_loop_recv_def)
qed (simp add: remote_loop_recv_def assms)

lemma inv_admit: "holders cap (add_mset x (live st)) st \<Longrightarrow> permits cap (admit x st)"
proof -
  assume "holders cap (add_mset x (live st)) st"
  then have "holders cap (add_mset x (live st)) (admit x st)" by (rule holders_frame) (simp_all add: admit_def)
  then show ?thesis by (simp add: permits_def admit_def live_def)
qed

lemma inv_dispatch_uds:
  assumes "permits cap st"
  shows "permits cap (fst (dispatch_inbound_uds payload st))"
proof -
  have "permits cap (admit \<lparr>if_target = t, if_chan = None, if_conn_permit = False\<rparr> (st\<lparr>ss_inbound_forward_limit := ss_inbound_forward_limit st - 1\<rparr>))"
    if "ss_inbound_forward_limit st \<noteq> 0" for t
    using holders_take [OF assms [unfolded permits_def] that, of "\<lparr>if_target = t, if_chan = None, if_conn_permit = False\<rparr>"]
    by (intro inv_admit) simp
  then show ?thesis using assms by (auto simp: dispatch_inbound_uds_def split: sum.split option.split)
qed

lemma inv_dispatch_tcp:
  assumes inv: "permits cap st"
  shows "permits cap (fst (dispatch_inbound_tcp p st))"
proof (cases "ss_remote_forwards st (co_host p, co_port p)")
  case (Some entry)
  let ?c = "re_chan entry"
  let ?taken = "st\<lparr>ss_inbound_forward_limit := ss_inbound_forward_limit st - 1\<rparr>"
  let ?x = "\<lparr>if_target = Dial_Tcp (re_target entry), if_chan = Some ?c, if_conn_permit = (cg_cap (gate_of ?c st) \<noteq> 0)\<rparr>"
  have h: "holders cap (live st) st" and c: "?c < length (ss_chans st)"
    using inv holdersD(4) [OF _ Some] by (simp_all add: permits_def)
  have 1: "permits cap (admit ?x ?taken)" if "ss_inbound_forward_limit st \<noteq> 0" "cg_cap (gate_of ?c st) = 0"
    using holders_take [OF h that(1), of ?x] that(2) c by (intro inv_admit) simp
  have 2: "permits cap (admit ?x (update_gate (snd \<circ> gate_try_acquire) ?c ?taken))"
    if "ss_inbound_forward_limit st \<noteq> 0" "cg_cap (gate_of ?c st) \<noteq> 0" "fst (gate_try_acquire (gate_of ?c st))"
    using holders_gate_take [OF h that(1) c that(2,3), of ?x] that(2) by (intro inv_admit) simp
  show ?thesis using 1 2 inv Some by (simp add: dispatch_inbound_tcp_def Let_def)
qed (simp add: dispatch_inbound_tcp_def inv)

lemma inv_dispatch: "permits cap st \<Longrightarrow> permits cap (fst (dispatch_inbound_bidi writes r st))"
  by (simp add: dispatch_inbound_bidi_def inv_dispatch_uds inv_dispatch_tcp split: sum.split prod.split)

lemma inv_dropped:
  assumes "permits cap st" "live st = add_mset x (live st')" "ss_inbound_forward_limit st' = ss_inbound_forward_limit st"
    "ss_chans st' = ss_chans st" "ss_remote_forwards st' = ss_remote_forwards st"
  shows "permits cap (release x st')"
proof -
  have "holders cap (live st) st'" using assms(1) unfolding permits_def by (rule holders_frame) (simp_all add: assms)
  then show ?thesis using holders_release assms(2) by (simp add: permits_def)
qed

lemma inv_bridge_end: "permits cap st \<Longrightarrow> i < length (ss_bridged st) \<Longrightarrow> permits cap (bridge_end i st)"
  unfolding bridge_end_def by (rule inv_dropped [OF _ live_pick(2)]) simp_all

lemma inv_dialed:
  assumes "permits cap st" "i < length (ss_dialing st)"
  shows "permits cap (fst (dispatch_dialed i dial_error written st))"
proof -
  let ?x = "ss_dialing st ! i"
  let ?st = "st\<lparr>ss_dialing := take i (ss_dialing st) @ drop (Suc i) (ss_dialing st)\<rparr>"
  note pick = live_pick(1) [OF assms(2)]
  have "permits cap (release ?x ?st)" by (rule inv_dropped [OF assms(1) pick]) simp_all
  moreover have "permits cap (?st\<lparr>ss_bridged := ?x # ss_bridged st\<rparr>)" "permits cap (?st\<lparr>ss_queued := ss_queued st @ [?x]\<rparr>)"
    by (rule inv_same [OF assms(1)]; simp add: pick; simp add: live_def)+
  ultimately show ?thesis by (auto simp: dispatch_dialed_def Let_def split: option.split)
qed

lemma inv_uds_begin: "permits cap st \<Longrightarrow> permits cap (snd (open_remote_uds_begin supports remote_path local_path st))"
proof (cases supports)
  case True
  assume "permits cap st"
  then show ?thesis using True
    by - (rule inv_same [of cap st], simp_all only: open_remote_uds_begin_def not_True_eq_False if_False snd_conv; simp add: live_def)
qed (simp add: open_remote_uds_begin_def)

lemma inv_uds_end: "permits cap st \<Longrightarrow> permits cap (snd (open_remote_uds_end path send_error resp st))"
  unfolding open_remote_uds_end_def by (simp add: inv_remove_uds_forward split: sum.split prod.split unit.split)

lemma permits_step: "sess_step max_permits st st' \<Longrightarrow> permits cap st \<Longrightarrow> permits cap st'"
  by (erule sess_step.cases; hypsubst;
    (rule inv_open_begin inv_open_end inv_loop_recv inv_loop_end inv_uds_begin inv_uds_end inv_dispatch inv_dialed inv_bridge_end
      | simp only: remote_uds_loop_end_def inv_remove_uds_forward); assumption?)

lemma inv_reachable: "(sess_step max_permits)\<^sup>*\<^sup>* (with_max_forwards mf) st \<Longrightarrow> permits (inbound_cap mf) st"
proof (induction rule: rtranclp_induct)
  case base
  show ?case by (auto simp: permits_def holders_def with_max_forwards_def live_def)
qed (rule permits_step)

section \<open>Registrations outlive failures\<close>

lemma release_frame:
  "ss_remote_forwards (release x st) = ss_remote_forwards st"
  "ch_open (ss_chans (release x st) ! d) = ch_open (ss_chans st ! d)"
  "cg_cap (gate_of d (release x st)) = cg_cap (gate_of d st)"
proof -
  show "ss_remote_forwards (release x st) = ss_remote_forwards st" by (simp add: release_eq)
  have *: "ch_open (ss_chans (update_gate gate_release c s) ! d) = ch_open (ss_chans s ! d)
      \<and> cg_cap (gate_of d (update_gate gate_release c s)) = cg_cap (gate_of d s)" for c s
    by (cases "c < length (ss_chans s)"; cases "d = c") (simp_all add: update_gate_def gate_release_def list_update_beyond)
  then show "ch_open (ss_chans (release x st) ! d) = ch_open (ss_chans st ! d)" "cg_cap (gate_of d (release x st)) = cg_cap (gate_of d st)"
    by (simp_all add: release_eq)
qed

lemma fold_release_frame:
  "ss_remote_forwards (fold release xs st) = ss_remote_forwards st"
  "ch_open (ss_chans (fold release xs st) ! d) = ch_open (ss_chans st ! d)"
  "cg_cap (gate_of d (fold release xs st)) = cg_cap (gate_of d st)"
  by (induction xs arbitrary: st) (simp_all add: release_frame)

lemma drop_receiver_frame:
  assumes "c < length (ss_chans st)"
  shows "ss_remote_forwards (drop_receiver c st) = ss_remote_forwards st"
    "\<not> ch_open (ss_chans (drop_receiver c st) ! c)" "cg_cap (gate_of c (drop_receiver c st)) = cg_cap (gate_of c st)"
  using assms by (simp_all add: drop_receiver_def fold_release_frame)

text \<open>A stream for a registration whose receiver is gone, with no limit of its own.\<close>

lemma dispatch_to_nobody:
  assumes "ss_remote_forwards st (co_host p, co_port p) = Some entry" "\<not> ch_open (ss_chans st ! re_chan entry)"
    "cg_cap (gate_of (re_chan entry) st) = 0" "ss_inbound_forward_limit st \<noteq> 0"
  defines "x \<equiv> \<lparr>if_target = Dial_Tcp (re_target entry), if_chan = Some (re_chan entry), if_conn_permit = False\<rparr>"
  shows "dispatch_inbound_tcp p st = (admit x (st\<lparr>ss_inbound_forward_limit := ss_inbound_forward_limit st - 1\<rparr>), [])"
    and "dispatch_dialed 0 None True (admit x (st\<lparr>ss_inbound_forward_limit := ss_inbound_forward_limit st - 1\<rparr>)) =
      (st, open_response True [])"
  using assms by (simp_all add: dispatch_inbound_tcp_def dispatch_dialed_def admit_def release_eq Let_def)

lemma dispatch_direct_tcp:
  assumes "wire_string (co_host p)"
  shows "dispatch_inbound_bidi writes \<lparr>rv_bytes = frame_encode (frame_new K_DirectTcpRequest (channel_open_encode p)), rv_end = e\<rparr> st =
    dispatch_inbound_tcp p st"
proof -
  have "length (channel_open_encode p) \<le> u16_max + 16"
    using length_put_string [OF assms] by (simp add: channel_open_encode_def)
  from read_frame_new [OF this, of K_DirectTcpRequest "[]" e] show ?thesis
    by (simp add: dispatch_inbound_bidi_def channel_open_roundtrip [OF assms])
qed

section \<open>Keepalive\<close>

text \<open>The counter of unanswered pings is a \<open>u32\<close>; \<open>fetch_add\<close> wraps and the sum after it is checked.\<close>

record Keepalive =
  ka_send :: bool
  ka_reader :: bool
  ka_missed :: nat

definition MAX_MISSED_KEEPALIVES :: nat where
  "MAX_MISSED_KEEPALIVES = 3"

definition keepalive ::
  "bool \<Rightarrow> string option \<Rightarrow> spt_error option \<Rightarrow> Keepalive \<Rightarrow> (fault, unit) result \<times> Keepalive" where
  "keepalive closed open_error write_error k =
     (if closed then (runtime ''ssh3 connection closed'', k)
      else case (if ka_send k then None else open_error) of
        Some e \<Rightarrow> (runtime (''ssh3 keepalive: open stream: '' @ e), k)
      | None \<Rightarrow>
          let k = (if ka_send k then k else k\<lparr>ka_reader := True, ka_send := True\<rparr>)
          in case write_error of
               Some e \<Rightarrow> (Inl (Failed e), k)
             | None \<Rightarrow>
                 let missed = ka_missed k + 1;
                     k = k\<lparr>ka_missed := missed mod 2 ^ 32\<rparr>
                 in if u32_max < missed then (Inl Panic, k)
                    else if MAX_MISSED_KEEPALIVES \<le> missed
                    then (runtime (''ssh3 keepalive: peer unresponsive ('' @ dec missed @ '' consecutive app-level pings unanswered)''), k)
                    else (Inr (), k))"

text \<open>\<open>keepalive_reader\<close>: a frame arrives, or the stream ends.\<close>

definition keepalive_read :: "bool \<Rightarrow> Keepalive \<Rightarrow> Keepalive" where
  "keepalive_read ended k =
     (if \<not> ka_reader k then k else if ended then k\<lparr>ka_reader := False\<rparr> else k\<lparr>ka_missed := 0\<rparr>)"

lemma keepalive_call:
  "ka_missed k < u32_max \<Longrightarrow> keepalive False None None k =
     (if ka_missed k + 1 < MAX_MISSED_KEEPALIVES then Inr ()
      else runtime (''ssh3 keepalive: peer unresponsive ('' @ dec (ka_missed k + 1) @ '' consecutive app-level pings unanswered)''),
      k\<lparr>ka_reader := ka_reader k \<or> \<not> ka_send k, ka_send := True, ka_missed := ka_missed k + 1\<rparr>)"
  by (cases k) (simp add: keepalive_def Let_def u32_max_def not_less)

text \<open>Two pings after an echo are tolerated, and the third without an echo is not, whatever the history.\<close>

lemma keepalive_echoed:
  assumes "ka_reader k"
  shows "fst (keepalive False None None (keepalive_read False k)) = Inr ()"
    and "fst (keepalive False None None (snd (keepalive False None None (keepalive_read False k)))) = Inr ()"
  using assms by (simp_all add: keepalive_read_def keepalive_call MAX_MISSED_KEEPALIVES_def u32_max_def)

lemma keepalive_stalled:
  assumes "ka_missed k + 3 \<le> u32_max"
  shows "fst (keepalive False None None (snd (keepalive False None None (snd (keepalive False None None k))))) \<noteq> Inr ()"
  using assms by (simp add: keepalive_call MAX_MISSED_KEEPALIVES_def)

text \<open>
  An address that is registered and requested again: whatever the peer answers to the second request but an acknowledgement that
  it has bound it, the first registration no longer serves the address.
\<close>

lemma second_request_takes_over:
  assumes "open_remote_begin max_permits True (Inr key) spec st = (Inr (c, req), st1)"
    and "open_remote_end key c send_error resp st1 = (Inl e, st2)"
  shows "ss_remote_forwards st2 key = None \<or> ss_remote_forwards st2 key = Some \<lparr>re_target = rf_target spec, re_chan = c\<rparr>"
proof -
  have "c < length (ss_chans st1)" "ss_remote_forwards st1 key = Some \<lparr>re_target = rf_target spec, re_chan = c\<rparr>"
    using assms(1) by (auto simp: open_remote_begin_def Let_def)
  then show ?thesis using assms(2)
    by (auto simp: open_remote_end_def drop_receiver_frame remove_forward_def split: sum.splits prod.splits unit.splits if_splits)
qed

section \<open>Properties\<close>

text \<open>C10:
  Inbound forwards are bounded.  However the registrations, inbound opens, dials, acknowledgements and connections of a session
  interleave, the number of inbound forwards that are dialling, queued or bridged and the free permits add up to the cap taken
  from the peer's \<open>max_forwards\<close>, which is between 1 and \<open>2^20\<close>: the cap is never exceeded and no permit is lost.  The connections
  of a registration with a limit of its own never exceed that limit, and none of its permits is lost.
\<close>

theorem inbound_forwards_bounded:
  assumes "(sess_step max_permits)\<^sup>*\<^sup>* (with_max_forwards mf) st"
  shows "ss_inbound_forward_limit st + length (ss_dialing st) + length (ss_queued st) + length (ss_bridged st) = inbound_cap mf
    \<and> 1 \<le> inbound_cap mf \<and> inbound_cap mf \<le> 2 ^ 20
    \<and> (\<forall>c < length (ss_chans st). let g = ch_gate (ss_chans st ! c) in cg_cap g \<noteq> 0 \<longrightarrow>
         cg_available g + length (filter (\<lambda>x. if_chan x = Some c) (ss_dialing st @ ss_queued st @ ss_bridged st)) = cg_cap g)"
proof -
  have h: "holders (inbound_cap mf) (live st) st" using inv_reachable [OF assms] by (simp add: permits_def)
  have "of_chan c (live st) = length (filter (\<lambda>x. if_chan x = Some c) (ss_dialing st @ ss_queued st @ ss_bridged st))" for c
    by (simp add: live_def size_mset [symmetric] del: size_mset)
  moreover have "1 \<le> inbound_cap mf" "inbound_cap mf \<le> 2 ^ 20"
    by (auto simp: inbound_cap_def DEFAULT_MAX_INBOUND_FORWARDS_def split: option.split)
  ultimately show ?thesis using holdersD(1) [OF h] holdersD(3) [OF h] by (simp add: live_def Let_def)
qed

definition sample_listen :: listen where
  "sample_listen = (ascii ''h'', 8080)"

definition sample_spec :: "nat option \<Rightarrow> RemoteForwardSpec" where
  "sample_spec limit = \<lparr>rf_name = ''web'', rf_listen = BA_TcpHostPort ''h'' 8080, rf_target = \<lparr>ta_host = ''localhost'', ta_port = 80\<rparr>,
     rf_max_connections = limit, rf_limits = default_rate_limits, rf_idle_timeout = None, rf_on_bind_conflict = BCP_Fail, rf_required = False\<rparr>"

definition sample_request :: bytes where
  "sample_request = frame_encode (frame_new K_DirectTcpRequest (channel_open_encode \<lparr>co_host = fst sample_listen, co_port = snd sample_listen\<rparr>))"

definition sample_registered :: "nat option \<Rightarrow> SessionState" where
  "sample_registered limit = snd (open_remote_begin 9 True (Inr sample_listen) (sample_spec limit) (with_max_forwards (Some 4)))"

definition sample_dispatch :: "SessionState \<Rightarrow> SessionState \<times> bytes" where
  "sample_dispatch st = dispatch_inbound_bidi 0 \<lparr>rv_bytes = sample_request, rv_end = Silent\<rparr> st"

lemma sample_dispatch_eq:
  "sample_dispatch st = dispatch_inbound_tcp \<lparr>co_host = fst sample_listen, co_port = snd sample_listen\<rparr> st"
  unfolding sample_dispatch_def sample_request_def
  by (rule dispatch_direct_tcp) (simp add: sample_listen_def wire_ascii u16_max_def)

theorem inbound_forwards_bounded_witness:
  "ss_inbound_forward_limit (fst (sample_dispatch (sample_registered (Some 1)))) = 3
   \<and> cg_available (ch_gate (ss_chans (fst (sample_dispatch (sample_registered (Some 1)))) ! 0)) = 0"
proof -
  let ?st = "fst (sample_dispatch (sample_registered (Some 1)))"
  have 1: "sess_step 9 (with_max_forwards (Some 4)) (sample_registered (Some 1))"
    unfolding sample_registered_def by (rule sess_step.Open_Begin)
  have 2: "sess_step 9 (sample_registered (Some 1)) ?st" unfolding sample_dispatch_def by (rule sess_step.Dispatch)
  have len: "length (ss_dialing ?st) = 1" "ss_queued ?st = []" "ss_bridged ?st = []" "length (ss_chans ?st) = 1"
    "cg_cap (ch_gate (ss_chans ?st ! 0)) = 1" "filter (\<lambda>x. if_chan x = Some 0) (ss_dialing ?st) = ss_dialing ?st"
    by (simp_all add: sample_dispatch_eq sample_registered_def open_remote_begin_def dispatch_inbound_tcp_def admit_def update_gate_def
        gate_new_def gate_try_acquire_def with_max_forwards_def sample_spec_def inbound_cap_def Let_def)
  have "(sess_step 9)\<^sup>*\<^sup>* (with_max_forwards (Some 4)) ?st" using 1 2 by (meson converse_rtranclp_into_rtranclp r_into_rtranclp)
  from inbound_forwards_bounded [OF this] len show ?thesis by (simp add: inbound_cap_def)
qed

text \<open>C38:
  A remote forward whose request is not answered in time stays registered.  \<open>open_remote\<close> fails, but when the peer then opens a
  stream for that address and there is a free permit, the target is dialled, the peer is told that the forward is open, and the
  connection is dropped: nothing bridges it, and its permit is free again.
\<close>

theorem timed_out_forward_acknowledged:
  assumes "open_remote_begin max_permits True (Inr key) spec st = (Inr (c, req), st1)"
    and "open_remote_end key c None (Inl Stalled) st1 = (res, st2)"
    and "wire_string (fst key)" "ss_inbound_forward_limit st2 \<noteq> 0" "rf_max_connections spec = None"
    and "dispatch_inbound_bidi writes \<lparr>rv_bytes = req, rv_end = e\<rparr> st2 = (st3, out)"
  shows "res \<noteq> Inr () \<and> out = [] \<and> if_target (hd (ss_dialing st3)) = Dial_Tcp (rf_target spec)
    \<and> dispatch_dialed 0 None True st3 = (st2, open_response True [])"
proof -
  let ?p = "\<lparr>co_host = fst key, co_port = snd key\<rparr>"
  let ?entry = "\<lparr>re_target = rf_target spec, re_chan = c\<rparr>"
  have c: "c < length (ss_chans st1)" and req: "req = frame_encode (frame_new K_DirectTcpRequest (channel_open_encode ?p))"
    and st1: "ss_remote_forwards st1 key = Some ?entry" "cg_cap (gate_of c st1) = 0"
    using assms(1,5) by (auto simp: open_remote_begin_def Let_def gate_new_def)
  have res: "res \<noteq> Inr ()" and st2: "st2 = drop_receiver c st1"
    using assms(2) by (auto simp: open_remote_end_def exchange_verdict_def)
  have "ss_remote_forwards st2 (co_host ?p, co_port ?p) = Some ?entry" "\<not> ch_open (ss_chans st2 ! re_chan ?entry)"
    "cg_cap (gate_of (re_chan ?entry) st2) = 0"
    using drop_receiver_frame [OF c] st1 st2 by simp_all
  note nobody = dispatch_to_nobody [OF this assms(4)]
  have "dispatch_inbound_tcp ?p st2 = (st3, out)"
    using assms(3,6) dispatch_direct_tcp [of ?p writes e st2] req by simp
  then show ?thesis using nobody res by (auto simp: admit_def)
qed

theorem timed_out_forward_acknowledged_witness:
  "dispatch_dialed 0 None True (fst (sample_dispatch (drop_receiver 0 (sample_registered None)))) =
     (drop_receiver 0 (sample_registered None), open_response True [])"
proof -
  let ?st2 = "drop_receiver 0 (sample_registered None)"
  have 1: "open_remote_begin 9 True (Inr sample_listen) (sample_spec None) (with_max_forwards (Some 4)) =
      (Inr (0, sample_request), sample_registered None)"
    by (simp add: open_remote_begin_def sample_registered_def sample_request_def with_max_forwards_def Let_def)
  have 2: "open_remote_end sample_listen 0 None (Inl Stalled) (sample_registered None) =
      (Inl (Failed (Err_RuntimeFailure ''ssh3 tcpip-forward: timeout'')), ?st2)"
    by (simp add: open_remote_end_def exchange_verdict_def)
  have 3: "wire_string (fst sample_listen)" by (simp add: sample_listen_def wire_ascii u16_max_def)
  have 4: "ss_inbound_forward_limit ?st2 \<noteq> 0"
    by (simp add: sample_registered_def open_remote_begin_def drop_receiver_def with_max_forwards_def inbound_cap_def Let_def)
  have 5: "dispatch_inbound_bidi 0 \<lparr>rv_bytes = sample_request, rv_end = Silent\<rparr> ?st2 =
      (fst (sample_dispatch ?st2), snd (sample_dispatch ?st2))"
    by (simp add: sample_dispatch_def)
  from timed_out_forward_acknowledged [OF 1 2 3 4 _ 5] show ?thesis by (simp add: sample_spec_def)
qed

end
