(* ===== verification/Target_Acl.thy ===== *)
theory Target_Acl
  imports Access_Control Std_Strings
begin

text \<open>
  The destination policy of dynamic forwards, \<open>crates/spt-ssh2/src/target_acl.rs\<close>: rules from configured patterns, the addresses
  a resolver may read out of a host text, the backtracking host matcher and the decision.  Networks are values of the \<open>ipnet\<close>
  crate; parsing one, the network of one address and containment are the operations of \<open>NetLib\<close>.
\<close>

section \<open>Numbers and addresses\<close>

text \<open>\<open>u32::from_str_radix\<close>.\<close>

fun radix_digits :: "nat \<Rightarrow> nat \<Rightarrow> nat \<Rightarrow> string \<Rightarrow> nat option" where
  "radix_digits radix mx acc [] = Some acc"
| "radix_digits radix mx acc (c # cs) =
     (case to_digit radix c of
        None \<Rightarrow> None
      | Some d \<Rightarrow> if mx < acc * radix + d then None else radix_digits radix mx (acc * radix + d) cs)"

definition from_str_radix :: "nat \<Rightarrow> nat \<Rightarrow> string \<Rightarrow> nat option" where
  "from_str_radix radix mx s =
     (case s of
        [] \<Rightarrow> None
      | c # cs \<Rightarrow>
          if c = CHR ''+'' then (if cs = [] then None else radix_digits radix mx 0 cs)
          else radix_digits radix mx 0 s)"

definition parse_ipv4_number :: "string \<Rightarrow> nat option" where
  "parse_ipv4_number part =
     (let (digits, radix) =
        (case (case strip_prefix ''0x'' part of Some hex \<Rightarrow> Some hex | None \<Rightarrow> strip_prefix ''0X'' part) of
           Some hex \<Rightarrow> (hex, 16)
         | None \<Rightarrow> if 1 < length part \<and> hd part = CHR ''0'' then (tl part, 8) else (part, 10))
      in if digits = [] then Some 0 else from_str_radix radix u32_max digits)"

fun legacy_parts :: "string list \<Rightarrow> nat list \<Rightarrow> nat list option" where
  "legacy_parts [] parts = Some parts"
| "legacy_parts (part # rest) parts =
     (if part = [] then None
      else case parse_ipv4_number part of
        None \<Rightarrow> None
      | Some n \<Rightarrow> if 4 < length (parts @ [n]) then None else legacy_parts rest (parts @ [n]))"

definition legacy_addr :: "nat list \<Rightarrow> 32 word option" where
  "legacy_addr parts =
     (case parts of
        [a] \<Rightarrow> Some (of_nat a)
      | [a, b] \<Rightarrow>
          if a \<le> 0xFF \<and> b \<le> 0xFFFFFF then Some (push_bit 24 (of_nat a) OR of_nat b) else None
      | [a, b, c] \<Rightarrow>
          if a \<le> 0xFF \<and> b \<le> 0xFF \<and> c \<le> 0xFFFF
          then Some (push_bit 24 (of_nat a) OR push_bit 16 (of_nat b) OR of_nat c) else None
      | [a, b, c, d] \<Rightarrow>
          if a \<le> 0xFF \<and> b \<le> 0xFF \<and> c \<le> 0xFF \<and> d \<le> 0xFF
          then Some (push_bit 24 (of_nat a) OR push_bit 16 (of_nat b) OR push_bit 8 (of_nat c) OR of_nat d) else None
      | _ \<Rightarrow> None)"

definition parse_legacy_ipv4 :: "string \<Rightarrow> 32 word option" where
  "parse_legacy_ipv4 host =
     (if host = [] \<or> CHR '':'' \<in> set host then None
      else Option.bind (legacy_parts (split_on CHR ''.'' host) []) legacy_addr)"

text \<open>\<open>IpAddr::to_canonical\<close> is the unmapping of the CIDR list.\<close>

definition parse_target_ip :: "string \<Rightarrow> IpAddr option" where
  "parse_target_ip host =
     (case parse_ip host of
        Some ip \<Rightarrow> Some (unmap_v4 ip)
      | None \<Rightarrow> map_option V4 (parse_legacy_ipv4 host))"

section \<open>Host patterns\<close>

text \<open>
  The matcher's positions are the rest of the pattern and of the text from there; \<open>star\<close> holds those behind the last star and at
  the place it was tried last.  \<open>None\<close>: the fuel does not suffice.
\<close>

fun glob_loop :: "nat \<Rightarrow> string \<Rightarrow> string \<Rightarrow> (string \<times> string) option \<Rightarrow> bool option" where
  "glob_loop fuel p [] star = Some (dropWhile (\<lambda>c. c = CHR ''*'') p = [])"
| "glob_loop 0 p (t # ts) star = None"
| "glob_loop (Suc fuel) p (t # ts) star =
     (if p \<noteq> [] \<and> hd p = CHR ''*'' then glob_loop fuel (tl p) (t # ts) (Some (tl p, t # ts))
      else if p \<noteq> [] \<and> hd p = t then glob_loop fuel (tl p) ts star
      else case star of
        Some (sp, st) \<Rightarrow> glob_loop fuel sp (tl st) (Some (sp, tl st))
      | None \<Rightarrow> Some False)"

definition host_glob :: "string \<Rightarrow> string \<Rightarrow> bool" where
  "host_glob pattern txt =
     (glob_loop ((length pattern + 1) * (length txt + 2) * (length txt + 1)) pattern txt None = Some True)"

section \<open>Rules and decision\<close>

record 'net NetLib =
  nl_parse :: "string \<Rightarrow> 'net option"
  nl_from :: "IpAddr \<Rightarrow> 'net"
  nl_contains :: "'net \<Rightarrow> IpAddr \<Rightarrow> bool"

datatype 'net TargetRule = R_Net 'net | R_Glob string

datatype TargetAclError = TAE_Empty | TAE_BadCidr string

definition rule_parse :: "'net NetLib \<Rightarrow> string \<Rightarrow> (TargetAclError, 'net TargetRule) result" where
  "rule_parse lib pattern0 =
     (let pattern = trim pattern0 in
      if pattern = [] then Inl TAE_Empty
      else case nl_parse lib pattern of
        Some net \<Rightarrow> Inr (R_Net net)
      | None \<Rightarrow>
          (case parse_target_ip pattern of
             Some ip \<Rightarrow> Inr (R_Net (nl_from lib ip))
           | None \<Rightarrow>
               (case split_once CHR ''/'' pattern of
                  Some (addr, _) \<Rightarrow>
                    if parse_target_ip addr \<noteq> None then Inl (TAE_BadCidr pattern) else Inr (R_Glob (map ascii_lower pattern))
                | None \<Rightarrow> Inr (R_Glob (map ascii_lower pattern)))))"

definition rule_matches :: "'net NetLib \<Rightarrow> 'net TargetRule \<Rightarrow> string \<Rightarrow> IpAddr option \<Rightarrow> bool" where
  "rule_matches lib rule host host_ip =
     (case rule of
        R_Net net \<Rightarrow> (case host_ip of Some ip \<Rightarrow> nl_contains lib net ip | None \<Rightarrow> False)
      | R_Glob pat \<Rightarrow> host_glob pat (map ascii_lower host))"

record 'net TargetAcl =
  ta_allow :: "'net TargetRule list"
  ta_deny :: "'net TargetRule list"

definition target_allow_all :: "'net TargetAcl" where
  "target_allow_all = \<lparr>ta_allow = [], ta_deny = []\<rparr>"

definition is_unrestricted :: "'net TargetAcl \<Rightarrow> bool" where
  "is_unrestricted acl \<longleftrightarrow> ta_allow acl = [] \<and> ta_deny acl = []"

fun parse_all :: "'net NetLib \<Rightarrow> string list \<Rightarrow> (TargetAclError, 'net TargetRule list) result" where
  "parse_all lib [] = Inr []"
| "parse_all lib (p # ps) =
     (case rule_parse lib p of
        Inl e \<Rightarrow> Inl e
      | Inr r \<Rightarrow> (case parse_all lib ps of Inl e \<Rightarrow> Inl e | Inr rs \<Rightarrow> Inr (r # rs)))"

definition from_patterns ::
  "'net NetLib \<Rightarrow> string list option \<Rightarrow> string list option \<Rightarrow> (TargetAclError, 'net TargetAcl) result" where
  "from_patterns lib allow deny =
     (case parse_all lib (case allow of Some ps \<Rightarrow> ps | None \<Rightarrow> []) of
        Inl e \<Rightarrow> Inl e
      | Inr al \<Rightarrow>
          (case parse_all lib (case deny of Some ps \<Rightarrow> ps | None \<Rightarrow> []) of
             Inl e \<Rightarrow> Inl e
           | Inr de \<Rightarrow> Inr \<lparr>ta_allow = al, ta_deny = de\<rparr>))"

definition strip_dot :: "string \<Rightarrow> string" where
  "strip_dot host = (if host \<noteq> [] \<and> last host = CHR ''.'' then butlast host else host)"

definition permits :: "'net NetLib \<Rightarrow> 'net TargetAcl \<Rightarrow> string \<Rightarrow> nat \<Rightarrow> bool" where
  "permits lib acl host0 port =
     (if is_unrestricted acl then True
      else
        let host = strip_dot host0;
            host_ip = parse_target_ip host
        in if list_ex (\<lambda>r. rule_matches lib r host host_ip) (ta_deny acl) then False
           else if ta_allow acl = [] then True
           else list_ex (\<lambda>r. rule_matches lib r host host_ip) (ta_allow acl))"

section \<open>The matcher decides the pattern\<close>

text \<open>What a pattern means: a star any text, every other byte itself.\<close>

fun host_lang :: "string \<Rightarrow> string set" where
  "host_lang [] = {[]}"
| "host_lang (p # ps) =
     (if p = CHR ''*'' then {xs @ ys | xs ys. ys \<in> host_lang ps} else {p # ys | ys. ys \<in> host_lang ps})"

lemma star_lang: "t \<in> host_lang (CHR ''*'' # ps) \<longleftrightarrow> (\<exists>n \<le> length t. drop n t \<in> host_lang ps)"
proof
  assume "t \<in> host_lang (CHR ''*'' # ps)"
  then obtain xs ys where "t = xs @ ys" "ys \<in> host_lang ps" by auto
  then show "\<exists>n \<le> length t. drop n t \<in> host_lang ps" by (intro exI [of _ "length xs"]) simp
next
  assume "\<exists>n \<le> length t. drop n t \<in> host_lang ps"
  then obtain n where "drop n t \<in> host_lang ps" by blast
  then have "\<exists>xs ys. t = xs @ ys \<and> ys \<in> host_lang ps" by (intro exI [of _ "take n t"] exI [of _ "drop n t"]) simp
  then show "t \<in> host_lang (CHR ''*'' # ps)" by simp
qed

lemma literal_lang: "CHR ''*'' \<notin> set w \<Longrightarrow> t \<in> host_lang (w @ ps) \<longleftrightarrow> (\<exists>u. t = w @ u \<and> u \<in> host_lang ps)"
  by (induction w arbitrary: t) auto

lemma empty_lang: "[] \<in> host_lang p \<longleftrightarrow> dropWhile (\<lambda>c. c = CHR ''*'') p = []"
  by (induction p) auto

text \<open>The text is matched from the current positions, or the last star can still take more.\<close>

definition star_more :: "(string \<times> string) option \<Rightarrow> bool" where
  "star_more star \<longleftrightarrow> (\<exists>sp st n. star = Some (sp, st) \<and> 0 < n \<and> n \<le> length st \<and> drop n st \<in> host_lang sp)"

definition star_inv :: "string \<Rightarrow> string \<Rightarrow> (string \<times> string) option \<Rightarrow> bool" where
  "star_inv p t star \<longleftrightarrow> (\<forall>sp st. star = Some (sp, st) \<longrightarrow> (\<exists>w. CHR ''*'' \<notin> set w \<and> sp = w @ p \<and> st = w @ t))"

lemma star_more_None [simp]: "\<not> star_more None"
  by (simp add: star_more_def)

lemma star_more_Some: "star_more (Some (sp, st)) \<longleftrightarrow> (\<exists>n. 0 < n \<and> n \<le> length st \<and> drop n st \<in> host_lang sp)"
  by (simp add: star_more_def)

lemma star_more_Cons: "star_more (Some (sp, a # st)) \<longleftrightarrow> st \<in> host_lang sp \<or> star_more (Some (sp, st))"
proof -
  have "star_more (Some (sp, a # st)) \<longleftrightarrow> (\<exists>m \<le> length st. drop m st \<in> host_lang sp)"
    unfolding star_more_Some by (auto simp: gr0_conv_Suc)
  also have "\<dots> \<longleftrightarrow> st \<in> host_lang sp \<or> star_more (Some (sp, st))"
    unfolding star_more_Some by (metis drop0 le0 neq0_conv)
  finally show ?thesis .
qed

text \<open>A star makes the one before it superfluous.\<close>

lemma earlier_star:
  assumes "star_inv (CHR ''*'' # ps) t star" "star_more star"
  shows "t \<in> host_lang (CHR ''*'' # ps)"
proof -
  from assms(2) obtain sp st n where star: "star = Some (sp, st)" "n \<le> length st" "drop n st \<in> host_lang sp"
    by (auto simp: star_more_def)
  from assms(1) star(1) obtain w where w: "CHR ''*'' \<notin> set w" "sp = w @ CHR ''*'' # ps" "st = w @ t"
    by (auto simp: star_inv_def)
  from star(3) w obtain u where u: "drop n (w @ t) = w @ u" "u \<in> host_lang (CHR ''*'' # ps)"
    unfolding w(2,3) literal_lang [OF w(1)] by blast
  have "length (drop n (w @ t)) = length w + length u" using u(1) by simp
  then have le: "length u + n = length t" using star(2) w(3) by simp
  have "drop (length w) (drop n (w @ t)) = drop n (drop (length w) (w @ t))" by (simp only: drop_drop add.commute)
  then have "u = drop n t" unfolding u(1) by simp
  with u(2) obtain k where "k \<le> length u" "drop k (drop n t) \<in> host_lang ps" unfolding star_lang by blast
  then have "drop (k + n) t \<in> host_lang ps" "k + n \<le> length t" using le by simp_all
  then show ?thesis unfolding star_lang by blast
qed

lemma star_text_end:
  assumes "star_inv p [] star" "star_more star"
  shows "[] \<in> host_lang p"
proof -
  from assms(2) obtain sp st n where star: "star = Some (sp, st)" "0 < n" "n \<le> length st" "drop n st \<in> host_lang sp"
    by (auto simp: star_more_def)
  from assms(1) star(1) obtain w where w: "CHR ''*'' \<notin> set w" "sp = w @ p" "st = w" by (auto simp: star_inv_def)
  from star(4) obtain u where "drop n w = w @ u" unfolding w(2,3) literal_lang [OF w(1)] by blast
  then have "length w - n = length w + length u" by (metis length_append length_drop)
  then have "w = []" using star(2,3) w(3) by simp
  then show ?thesis using star(2,3) w(3) by simp
qed

definition glob_measure :: "nat \<Rightarrow> string \<Rightarrow> string \<Rightarrow> (string \<times> string) option \<Rightarrow> nat" where
  "glob_measure N p t star =
     count_list p CHR ''*'' * ((N + 2) * (N + 1)) + (case star of Some (_, st) \<Rightarrow> length st | None \<Rightarrow> N + 1) * (N + 1) + length t"

lemma glob_measure_star:
  assumes "glob_measure N (CHR ''*'' # ps) (t # ts) star \<le> Suc fuel" "length (t # ts) \<le> N"
  shows "glob_measure N ps (t # ts) (Some (ps, t # ts)) \<le> fuel"
proof -
  have "length (t # ts) * (N + 1) \<le> N * (N + 1)" using assms(2) by (rule mult_right_mono) simp
  then show ?thesis using assms by (simp add: glob_measure_def algebra_simps)
qed

lemma glob_measure_back:
  assumes "count_list sp CHR ''*'' = count_list p CHR ''*''" "length st \<noteq> 0" "length st \<le> N"
    and "glob_measure N p t (Some (sp, st)) \<le> Suc fuel"
  shows "glob_measure N sp (tl st) (Some (sp, tl st)) \<le> fuel"
proof -
  obtain n where n: "length st = Suc n" using assms(2) by (cases "length st") auto
  then have "length (tl st) = n" by simp
  then show ?thesis using assms n by (simp add: glob_measure_def)
qed

lemma glob_loop_correct:
  assumes "star_inv p t star" "glob_measure N p t star \<le> fuel" "length t \<le> N" "\<And>sp st. star = Some (sp, st) \<Longrightarrow> length st \<le> N"
  shows "glob_loop fuel p t star = Some (t \<in> host_lang p \<or> star_more star)"
  using assms
proof (induction fuel p t star rule: glob_loop.induct)
  case (1 fuel p star)
  then show ?case using star_text_end [of p star] by (auto simp: empty_lang)
next
  case (2 p t ts star)
  then show ?case by (simp add: glob_measure_def)
next
  case (3 fuel p t ts star)
  note inv = 3(4) and le = 3(5) and len = 3(6,7)
  consider ps where "p = CHR ''*'' # ps" | ps where "p = t # ps" "t \<noteq> CHR ''*''"
    | "p = [] \<or> hd p \<noteq> CHR ''*'' \<and> hd p \<noteq> t"
    by (cases p) auto
  then show ?case
  proof cases
    case 1
    have loop: "glob_loop fuel ps (t # ts) (Some (ps, t # ts)) = Some (t # ts \<in> host_lang ps \<or> star_more (Some (ps, t # ts)))"
      using 3(1) 1 le len by (simp add: star_inv_def glob_measure_star)
    have lang: "t # ts \<in> host_lang p \<longleftrightarrow> t # ts \<in> host_lang ps \<or> star_more (Some (ps, t # ts))"
      unfolding 1 star_lang star_more_Some by (metis drop0 le0 neq0_conv)
    have "star_more star \<Longrightarrow> t # ts \<in> host_lang p" using earlier_star inv 1 by blast
    then have "(t # ts \<in> host_lang p \<or> star_more star) = (t # ts \<in> host_lang ps \<or> star_more (Some (ps, t # ts)))"
      using lang by blast
    moreover have "glob_loop (Suc fuel) p (t # ts) star = glob_loop fuel ps (t # ts) (Some (ps, t # ts))" using 1 by simp
    ultimately show ?thesis by (simp only: loop)
  next
    case 2
    have "star_inv ps ts star"
      unfolding star_inv_def
    proof (intro allI impI)
      fix sp st assume "star = Some (sp, st)"
      with inv obtain w where "CHR ''*'' \<notin> set w" "sp = w @ p" "st = w @ t # ts" by (auto simp: star_inv_def)
      then show "\<exists>w. CHR ''*'' \<notin> set w \<and> sp = w @ ps \<and> st = w @ ts" using 2 by (intro exI [of _ "w @ [t]"]) auto
    qed
    moreover have "glob_measure N ps ts star \<le> fuel" using le 2 by (simp add: glob_measure_def)
    ultimately have "glob_loop fuel ps ts star = Some (ts \<in> host_lang ps \<or> star_more star)" using 3(2) 2 len by simp
    then show ?thesis using 2 by simp
  next
    case mismatch: 3
    then have no: "t # ts \<notin> host_lang p" by (cases p) auto
    show ?thesis
    proof (cases star)
      case None
      then show ?thesis using mismatch no by auto
    next
      case (Some x)
      obtain sp st where x: "x = (sp, st)" by (cases x)
      with inv Some obtain w where w: "CHR ''*'' \<notin> set w" "sp = w @ p" "st = w @ t # ts" by (auto simp: star_inv_def)
      have st: "length (tl st) \<le> N" "length st \<noteq> 0" "length st \<le> N" using len(2) Some x w(3) by (auto simp: le_diff_conv)
      have cnt: "count_list sp CHR ''*'' = count_list p CHR ''*''" using w(1,2) by (simp add: count_notin)
      have "glob_measure N sp (tl st) (Some (sp, tl st)) \<le> fuel" by (rule glob_measure_back [OF cnt st(2,3)]) (use le Some x in simp)
      then have "glob_loop fuel sp (tl st) (Some (sp, tl st)) = Some (tl st \<in> host_lang sp \<or> star_more (Some (sp, tl st)))"
        using 3(3) mismatch Some x st(1) by (auto simp: star_inv_def)
      moreover have "star_more (Some (sp, st)) \<longleftrightarrow> tl st \<in> host_lang sp \<or> star_more (Some (sp, tl st))"
        using st(2) by (cases st) (simp_all add: star_more_Cons)
      ultimately show ?thesis using mismatch no Some x by auto
    qed
  qed
qed

lemma host_glob_exact: "host_glob pattern txt \<longleftrightarrow> txt \<in> host_lang pattern"
proof -
  have "count_list pattern CHR ''*'' \<le> length pattern" by (simp add: count_le_length)
  then have "count_list pattern CHR ''*'' * ((length txt + 2) * (length txt + 1)) \<le> length pattern * ((length txt + 2) * (length txt + 1))"
    by (rule mult_right_mono) simp
  then have "glob_measure (length txt) pattern txt None \<le> (length pattern + 1) * (length txt + 2) * (length txt + 1)"
    by (simp add: glob_measure_def algebra_simps)
  from glob_loop_correct [OF _ this] show ?thesis by (simp add: host_glob_def star_inv_def)
qed

section \<open>Addresses as numbers\<close>

lemma push_bit_or_of_nat: "b < 2 ^ k \<Longrightarrow> push_bit k (of_nat a :: 32 word) OR of_nat b = of_nat (a * 2 ^ k + b)"
proof -
  assume b: "b < 2 ^ k"
  have "\<not> bit (of_nat b :: 32 word) n" if "k \<le> n" for n
  proof -
    have "b < 2 ^ n" using b that by (meson less_le_trans one_le_numeral power_increasing)
    then show ?thesis by (simp add: bit_of_nat_iff bit_iff_odd [of b])
  qed
  then have "push_bit k (of_nat a :: 32 word) + of_nat b = push_bit k (of_nat a) OR of_nat b"
    by (intro disjunctive_add) (auto simp: bit_push_bit_iff not_le)
  then show ?thesis by (simp add: push_bit_eq_mult)
qed

lemma v4_octets: "v4_from_octets [a, b, c, d] = of_nat (a * 2 ^ 24 + (b * 2 ^ 16 + (c * 2 ^ 8 + d)))"
  by (simp add: v4_from_octets_def algebra_simps)

lemma legacy_addr_octets:
  assumes "a \<le> 255" "b \<le> 255" "c \<le> 255" "d \<le> 255"
  shows "legacy_addr [a, b, c, d] = Some (v4_from_octets [a, b, c, d])"
    "legacy_addr [a, b, c * 256 + d] = Some (v4_from_octets [a, b, c, d])"
    "legacy_addr [a, b * 65536 + c * 256 + d] = Some (v4_from_octets [a, b, c, d])"
    "legacy_addr [a * 16777216 + b * 65536 + c * 256 + d] = Some (v4_from_octets [a, b, c, d])"
proof -
  have 1: "push_bit 8 (of_nat c :: 32 word) OR of_nat d = of_nat (c * 2 ^ 8 + d)"
    and 2: "push_bit 16 (of_nat b :: 32 word) OR of_nat (c * 2 ^ 8 + d) = of_nat (b * 2 ^ 16 + (c * 2 ^ 8 + d))"
    and 3: "push_bit 24 (of_nat a :: 32 word) OR of_nat (b * 2 ^ 16 + (c * 2 ^ 8 + d)) = of_nat (a * 2 ^ 24 + (b * 2 ^ 16 + (c * 2 ^ 8 + d)))"
    using assms by (intro push_bit_or_of_nat; simp)+
  show "legacy_addr [a, b, c, d] = Some (v4_from_octets [a, b, c, d])"
    using assms unfolding legacy_addr_def v4_octets by (simp only: list.case simp_thms if_True 1 2 3)
  show "legacy_addr [a, b, c * 256 + d] = Some (v4_from_octets [a, b, c, d])"
    using assms 2 3 unfolding legacy_addr_def v4_octets by simp
  show "legacy_addr [a, b * 65536 + c * 256 + d] = Some (v4_from_octets [a, b, c, d])"
    using assms 3 unfolding legacy_addr_def v4_octets by (simp add: add.assoc)
  show "legacy_addr [a * 16777216 + b * 65536 + c * 256 + d] = Some (v4_from_octets [a, b, c, d])"
    unfolding legacy_addr_def v4_octets by (simp add: add.assoc)
qed

section \<open>Every spelling of an address\<close>

definition digit_of :: "nat \<Rightarrow> char" where
  "digit_of d = char_of (if d < 10 then 48 + d else 87 + d)"

fun radix_text :: "nat \<Rightarrow> nat \<Rightarrow> string" where
  "radix_text radix n =
     (if radix < 2 \<or> n < radix then [digit_of n] else radix_text radix (n div radix) @ [digit_of (n mod radix)])"

declare radix_text.simps [simp del]

datatype radix = Decimal | Octal | Hexadecimal

fun spell :: "radix \<Rightarrow> nat \<Rightarrow> string" where
  "spell Decimal n = dec n"
| "spell Octal n = CHR ''0'' # radix_text 8 n"
| "spell Hexadecimal n = ''0x'' @ radix_text 16 n"

lemma to_digit_digit_of: "d < radix \<Longrightarrow> radix \<le> 16 \<Longrightarrow> to_digit radix (digit_of d) = Some d"
  by (auto simp: to_digit_def digit_of_def Let_def)

lemma radix_digits_append:
  "radix_digits radix mx acc (xs @ ys) = (case radix_digits radix mx acc xs of None \<Rightarrow> None | Some a \<Rightarrow> radix_digits radix mx a ys)"
  by (induction xs arbitrary: acc) (auto split: option.splits)

lemma radix_digits_text:
  assumes "2 \<le> radix" "radix \<le> 16" "n \<le> mx"
  shows "radix_digits radix mx 0 (radix_text radix n) = Some n"
  using assms
proof (induction radix n rule: radix_text.induct)
  case (1 radix n)
  show ?case
  proof (cases "n < radix")
    case True
    with 1 show ?thesis by (subst radix_text.simps) (simp add: to_digit_digit_of)
  next
    case False
    have "n div radix \<le> mx" using 1(4) div_le_dividend order_trans by blast
    with 1 False have "radix_digits radix mx 0 (radix_text radix (n div radix)) = Some (n div radix)" by simp
    with False 1(2-4) show ?thesis by (subst radix_text.simps) (simp add: radix_digits_append to_digit_digit_of)
  qed
qed

lemma radix_text_chars: "2 \<le> radix \<Longrightarrow> c \<in> set (radix_text radix n) \<Longrightarrow> \<exists>d < radix. c = digit_of d"
proof (induction radix n rule: radix_text.induct)
  case (1 radix n)
  have m: "n mod radix < radix" using 1(2) by simp
  have "c \<in> set (radix_text radix (n div radix)) \<or> c = digit_of (n mod radix)" if "\<not> n < radix"
    using 1(2,3) that by (subst (asm) radix_text.simps) auto
  moreover have "c = digit_of n" if "n < radix" using 1(3) that by (subst (asm) radix_text.simps) auto
  moreover have "\<exists>d < radix. c = digit_of d" if "c \<in> set (radix_text radix (n div radix))" "\<not> n < radix"
    using 1(1,2) that by auto
  ultimately show ?case using m by metis
qed

lemma radix_text_nonempty [simp]: "radix_text radix n \<noteq> []"
  by (subst radix_text.simps) simp

lemma digit_of_neq: "d < 16 \<Longrightarrow> digit_of d \<notin> {CHR ''.'', CHR '':'', CHR ''+'', CHR ''x''}"
  by (auto simp: digit_of_def dest!: arg_cong [where f = "of_char :: char \<Rightarrow> nat"] split: if_splits)

lemma from_radix_text: "2 \<le> radix \<Longrightarrow> radix \<le> 16 \<Longrightarrow> n \<le> mx \<Longrightarrow> from_str_radix radix mx (radix_text radix n) = Some n"
proof -
  assume r: "2 \<le> radix" "radix \<le> 16" "n \<le> mx"
  obtain c cs where c: "radix_text radix n = c # cs" by (cases "radix_text radix n") auto
  then obtain d where d: "d < radix" "c = digit_of d" using radix_text_chars [OF r(1), of c n] by auto
  then have "c \<noteq> CHR ''+''" using digit_of_neq [of d] r(2) by auto
  then show ?thesis using radix_digits_text [OF r] c by (simp add: from_str_radix_def)
qed

text \<open>Digits without a prefix are a decimal number, unless a zero leads.\<close>

definition quad :: "string \<Rightarrow> nat \<Rightarrow> bool" where
  "quad ds v \<longleftrightarrow> ds \<noteq> [] \<and> (\<forall>c \<in> set ds. to_digit 10 c \<noteq> None) \<and> (hd ds = CHR ''0'' \<longrightarrow> length ds = 1)
     \<and> v = foldl (\<lambda>acc d. acc * 10 + d) 0 (map (\<lambda>c. the (to_digit 10 c)) ds)"

lemma foldl_ge: "acc \<le> foldl (\<lambda>acc d. acc * 10 + d) acc (ds :: nat list)"
proof (induction ds arbitrary: acc)
  case (Cons d ds)
  have "acc \<le> acc * 10 + d" by simp
  also have "\<dots> \<le> foldl (\<lambda>acc d. acc * 10 + d) (acc * 10 + d) ds" by (rule Cons)
  finally show ?case by simp
qed simp

lemma radix_digits_value:
  assumes "\<forall>c \<in> set ds. to_digit 10 c \<noteq> None" "foldl (\<lambda>acc d. acc * 10 + d) acc (map (\<lambda>c. the (to_digit 10 c)) ds) \<le> mx"
  shows "radix_digits 10 mx acc ds = Some (foldl (\<lambda>acc d. acc * 10 + d) acc (map (\<lambda>c. the (to_digit 10 c)) ds))"
  using assms
proof (induction ds arbitrary: acc)
  case (Cons c cs)
  then obtain d where d: "to_digit 10 c = Some d" by auto
  have "acc * 10 + d \<le> mx" using Cons.prems(2) d foldl_ge [of "acc * 10 + d"] by (auto intro: order_trans)
  then show ?case using Cons d by simp
qed simp

lemma parse_number_quad: "quad ds v \<Longrightarrow> v \<le> u32_max \<Longrightarrow> parse_ipv4_number ds = Some v"
proof -
  assume q: "quad ds v" "v \<le> u32_max"
  obtain c cs where ds: "ds = c # cs" using q(1) by (cases ds) (auto simp: quad_def)
  have nox: "CHR ''x'' \<notin> set ds" "CHR ''X'' \<notin> set ds" "CHR ''+'' \<notin> set ds"
    using q(1) by (auto simp: quad_def to_digit_def)
  then have "strip_prefix ''0x'' ds = None" "strip_prefix ''0X'' ds = None"
    using ds by (cases cs; auto simp: strip_prefix_def)+
  moreover have "from_str_radix 10 u32_max ds = Some v"
  proof -
    have "radix_digits 10 u32_max 0 ds = Some v" using q radix_digits_value [of ds 0 u32_max] by (simp add: quad_def)
    moreover have "c \<noteq> CHR ''+''" using nox(3) ds by auto
    ultimately show ?thesis using ds by (simp add: from_str_radix_def)
  qed
  moreover have "\<not> (1 < length ds \<and> hd ds = CHR ''0'')" using q(1) by (auto simp: quad_def)
  ultimately show ?thesis using ds by (auto simp: parse_ipv4_number_def)
qed

lemma quad_dec: "quad (dec n) n"
proof -
  have "length (dec n) = 1" if "hd (dec n) = CHR ''0''"
  proof -
    have "n = 0" by (rule hd_dec_zero) (simp add: that to_digit_def)
    then show ?thesis by (simp add: dec.simps)
  qed
  then show ?thesis using dec_digits_ok [of n] by (simp add: quad_def dec_digits_value)
qed

lemma parse_number_spell: "n \<le> u32_max \<Longrightarrow> parse_ipv4_number (spell r n) = Some n"
proof (cases r)
  case Octal
  assume n: "n \<le> u32_max"
  obtain c cs where c: "radix_text 8 n = c # cs" by (cases "radix_text 8 n") auto
  have "c \<noteq> CHR ''x''" "c \<noteq> CHR ''X''"
    using radix_text_chars [of 8 c n] c by (auto simp: digit_of_def dest!: arg_cong [where f = "of_char :: char \<Rightarrow> nat"])
  then show ?thesis using Octal c from_radix_text [of 8 n u32_max] n by (simp add: parse_ipv4_number_def strip_prefix_def)
next
  case Hexadecimal
  assume "n \<le> u32_max"
  then show ?thesis using Hexadecimal from_radix_text [of 16 n u32_max] by (simp add: parse_ipv4_number_def strip_prefix_def)
qed (simp add: parse_number_quad quad_dec)

lemma take_digits_Some:
  "take_digits radix s = (ds, rest) \<Longrightarrow>
     \<exists>cs. s = cs @ rest \<and> (\<forall>c \<in> set cs. to_digit radix c \<noteq> None) \<and> ds = map (\<lambda>c. the (to_digit radix c)) cs"
proof (induction s arbitrary: ds)
  case (Cons c s)
  show ?case
  proof (cases "to_digit radix c")
    case (Some d)
    obtain ds' rest' where t: "take_digits radix s = (ds', rest')" by (cases "take_digits radix s")
    with Cons.IH Cons.prems Some obtain cs where "s = cs @ rest" "\<forall>c \<in> set cs. to_digit radix c \<noteq> None"
      "ds' = map (\<lambda>c. the (to_digit radix c)) cs" by auto
    then show ?thesis using Cons.prems Some t by (intro exI [of _ "c # cs"]) auto
  qed (use Cons.prems in auto)
qed simp

lemma read_quad: "read_number 10 3 False 255 s = Some (v, rest) \<Longrightarrow> \<exists>ds. s = ds @ rest \<and> quad ds v \<and> v \<le> 255"
proof -
  assume r: "read_number 10 3 False 255 s = Some (v, rest)"
  obtain ns rest' where t: "take_digits 10 s = (ns, rest')" by (cases "take_digits 10 s")
  from take_digits_Some [OF t] obtain cs where cs: "s = cs @ rest'" "\<forall>c \<in> set cs. to_digit 10 c \<noteq> None"
    "ns = map (\<lambda>c. the (to_digit 10 c)) cs" by blast
  have n: "ns \<noteq> []" "\<not> (hd ns = 0 \<and> 1 < length ns)" "rest' = rest" "v = foldl (\<lambda>acc d. acc * 10 + d) 0 ns" "v \<le> 255"
    using r t by (auto simp: read_number_def Let_def split: if_splits)
  then have "hd cs = CHR ''0'' \<longrightarrow> length cs = 1" using cs(3) by (cases cs) (auto simp: to_digit_def)
  then show ?thesis using n cs by (intro exI [of _ cs]) (simp add: quad_def)
qed

lemma read_octets_Some:
  "0 < i \<Longrightarrow> read_octets n i s = Some (os, rest) \<Longrightarrow>
     \<exists>parts. s = concat (map (Cons CHR ''.'') parts) @ rest \<and> list_all2 quad parts os \<and> length os = n \<and> (\<forall>v \<in> set os. v \<le> 255)"
proof (induction n arbitrary: i s os)
  case (Suc n)
  then obtain c cs b rest1 bs where s: "s = c # cs" "c = CHR ''.''" "read_number 10 3 False 255 cs = Some (b, rest1)"
    "read_octets n (Suc i) rest1 = Some (bs, rest)" "os = b # bs"
    by (auto simp: read_separator_def split: option.splits list.splits if_splits)
  from read_quad [OF s(3)] obtain ds where ds: "cs = ds @ rest1" "quad ds b" "b \<le> 255" by blast
  from Suc.IH [OF _ s(4)] obtain parts where "rest1 = concat (map (Cons CHR ''.'') parts) @ rest" "list_all2 quad parts bs"
    "length bs = n" "\<forall>v \<in> set bs. v \<le> 255" by auto
  then show ?case using s ds by (intro exI [of _ "ds # parts"]) simp
qed simp

lemma quad_no_dot: "quad ds v \<Longrightarrow> CHR ''.'' \<notin> set ds" "quad ds v \<Longrightarrow> CHR '':'' \<notin> set ds"
  by (auto simp: quad_def to_digit_def)

lemma split_on_parts:
  "CHR ''.'' \<notin> set d \<Longrightarrow> list_all (\<lambda>p. CHR ''.'' \<notin> set p) parts \<Longrightarrow>
     split_on CHR ''.'' (d @ concat (map (Cons CHR ''.'') parts)) = d # parts"
proof (induction parts arbitrary: d)
  case (Cons p parts)
  have "split_on CHR ''.'' (d @ CHR ''.'' # (p @ concat (map (Cons CHR ''.'') parts))) = d # split_on CHR ''.'' (p @ concat (map (Cons CHR ''.'') parts))"
    using Cons.prems(1) by (rule split_on_sep)
  then show ?case using Cons by simp
qed (simp add: split_on_notin)

lemma legacy_parts_of:
  "list_all2 (\<lambda>p n. p \<noteq> [] \<and> parse_ipv4_number p = Some n) parts ns \<Longrightarrow> length acc + length parts \<le> 4 \<Longrightarrow>
     legacy_parts parts acc = Some (acc @ ns)"
  by (induction parts ns arbitrary: acc rule: list_all2_induct) auto

text \<open>On the addresses of the standard library the two parsers agree.\<close>

lemma std_ipv4_legacy:
  assumes "read_ipv4_addr s = Some (os, [])"
  shows "parse_legacy_ipv4 s = Some (v4_from_octets os)"
proof -
  have "read_octets (Suc 3) 0 s = Some (os, [])" using assms by (simp add: read_ipv4_addr_def numeral_eq_Suc)
  then obtain b rest1 bs where r: "read_number 10 3 False 255 s = Some (b, rest1)" "read_octets 3 1 rest1 = Some (bs, [])" "os = b # bs"
    unfolding read_octets.simps by (auto simp: read_separator_def split: option.splits)
  from read_quad [OF r(1)] obtain d where d: "s = d @ rest1" "quad d b" "b \<le> 255" by blast
  from read_octets_Some [OF _ r(2)] obtain parts where p: "rest1 = concat (map (Cons CHR ''.'') parts)" "list_all2 quad parts bs"
    "length bs = 3" "\<forall>v \<in> set bs. v \<le> 255" by auto
  have no_dots: "list_all (\<lambda>p. CHR ''.'' \<notin> set p) parts"
    using p(2) by (induction rule: list_all2_induct) (auto dest: quad_no_dot)
  have numbers: "list_all2 (\<lambda>p n. p \<noteq> [] \<and> parse_ipv4_number p = Some n) parts bs"
    using p(2,4) by (induction rule: list_all2_induct) (auto intro: parse_number_quad simp: u32_max_def, simp add: quad_def)
  have len: "length parts = 3" using p(2,3) by (simp add: list_all2_lengthD)
  have "list_all (\<lambda>p. CHR '':'' \<notin> set p) parts"
    using p(2) by (induction rule: list_all2_induct) (auto dest: quad_no_dot)
  then have colon: "CHR '':'' \<notin> set s" using quad_no_dot(2) [OF d(2)] unfolding d(1) p(1) by (auto simp: list_all_iff)
  have "s \<noteq> []" using d by (auto simp: quad_def)
  moreover have "split_on CHR ''.'' s = d # parts" unfolding d(1) p(1) using d(2) no_dots by (intro split_on_parts quad_no_dot)
  moreover have "legacy_parts (d # parts) [] = Some (b # bs)"
    using legacy_parts_of [of "d # parts" "b # bs" "[]"] numbers d(2,3) len by (simp add: parse_number_quad u32_max_def) (simp add: quad_def)
  moreover obtain x y z where "bs = [x, y, z]" using p(3) by (auto simp: numeral_eq_Suc length_Suc_conv)
  ultimately show ?thesis using colon r(3) d(3) p(4) by (simp add: parse_legacy_ipv4_def legacy_addr_octets)
qed

lemma read_number_rest: "read_number radix m z mx s = Some (v, rest) \<Longrightarrow> set rest \<subseteq> set s"
  using take_digits_Some [of radix s] by (cases "take_digits radix s") (auto simp: read_number_def Let_def split: if_splits)

lemma read_octets_rest: "read_octets n i s = Some (os, rest) \<Longrightarrow> set rest \<subseteq> set s"
proof (induction n arbitrary: i s os)
  case (Suc n)
  then obtain b r1 bs where r: "read_separator CHR ''.'' i (read_number 10 3 False 255) s = Some (b, r1)"
    "read_octets n (Suc i) r1 = Some (bs, rest)" by (auto split: option.splits)
  have "set r1 \<subseteq> set s" using r(1) by (auto simp: read_separator_def dest!: read_number_rest split: if_splits list.splits)
  then show ?case using Suc.IH [OF r(2)] by blast
qed simp

lemma read_groups_rest: "read_groups n i s = (gs, v4, rest) \<Longrightarrow> set rest \<subseteq> set s"
proof (induction n arbitrary: i s gs v4)
  case (Suc n)
  have sep: "set r \<subseteq> set s" if "read_separator c i p s = Some (x, r)" "\<And>s r x. p s = Some (x, r) \<Longrightarrow> set r \<subseteq> set s" for c p x r
    using that(1) by (auto simp: read_separator_def dest!: that(2) split: if_splits list.splits)
  show ?case
  proof (cases "if 0 < n then read_separator CHR '':'' i read_ipv4_addr s else None")
    case (Some x)
    then obtain bs r where "read_separator CHR '':'' i read_ipv4_addr s = Some (bs, r)" by (cases x) (auto split: if_splits)
    then have "set r \<subseteq> set s" by (rule sep) (simp add: read_ipv4_addr_def read_octets_rest)
    then show ?thesis using Suc.prems Some \<open>read_separator CHR '':'' i read_ipv4_addr s = Some (bs, r)\<close> by (auto split: if_splits)
  next
    case None
    show ?thesis
    proof (cases "read_separator CHR '':'' i (read_number 16 4 True 65535) s")
      case (Some x)
      then obtain g r where x: "read_separator CHR '':'' i (read_number 16 4 True 65535) s = Some (g, r)" by (cases x) auto
      then have "set r \<subseteq> set s" by (rule sep) (rule read_number_rest)
      moreover obtain gs' v4' rest' where "read_groups n (Suc i) r = (gs', v4', rest')" by (cases "read_groups n (Suc i) r") auto
      ultimately show ?thesis using Suc.IH [of "Suc i" r] Suc.prems None x by auto
    qed (use Suc.prems None in simp)
  qed
qed simp

lemma groups_need_colon:
  assumes "CHR '':'' \<notin> set s" "read_ipv4_addr s = None"
  shows "length (fst (read_groups (Suc n) 0 s)) \<le> 1"
proof -
  have "read_groups n (Suc 0) r = ([], False, r)" if "CHR '':'' \<notin> set r" for r
    using that by (cases n; cases r) (auto simp: read_separator_def)
  moreover have "CHR '':'' \<notin> set r" if "read_number 16 4 True 65535 s = Some (g, r)" for g r
    using read_number_rest [OF that] assms(1) by blast
  ultimately show ?thesis using assms(2) by (auto simp: read_separator_def split: option.split prod.split)
qed

lemma ipv6_needs_colon: "CHR '':'' \<notin> set s \<Longrightarrow> read_ipv4_addr s = None \<Longrightarrow> read_ipv6_addr s = None"
proof -
  assume s: "CHR '':'' \<notin> set s" "read_ipv4_addr s = None"
  obtain gs v4 rest where g: "read_groups 8 0 s = (gs, v4, rest)" by (cases "read_groups 8 0 s") auto
  have "length gs \<le> 1" using groups_need_colon [OF s, of 7] g by (simp add: numeral_eq_Suc)
  moreover have "CHR '':'' \<notin> set rest" using read_groups_rest [OF g] s(1) by blast
  ultimately show ?thesis using g by (auto simp: read_ipv6_addr_def split: list.splits)
qed

text \<open>A text the legacy parser reads is that address for the policy.\<close>

lemma legacy_is_target:
  assumes "parse_legacy_ipv4 s = Some w"
  shows "parse_target_ip s = Some (V4 w)"
proof -
  have s: "CHR '':'' \<notin> set s" using assms by (auto simp: parse_legacy_ipv4_def split: if_splits)
  have "parse_ip s = None \<or> parse_ip s = Some (V4 w)"
  proof (cases "read_ipv4_addr s")
    case None
    then show ?thesis using ipv6_needs_colon [OF s] by (simp add: parse_ip_def)
  next
    case (Some x)
    then show ?thesis using std_ipv4_legacy [of s "fst x"] assms by (cases x) (auto simp: parse_ip_def)
  qed
  then show ?thesis using assms by (auto simp: parse_target_ip_def unmap_v4_def)
qed

definition join_dots :: "string list \<Rightarrow> string" where
  "join_dots ps = hd ps @ concat (map (Cons CHR ''.'') (tl ps))"

definition spelling :: "radix list \<Rightarrow> nat list \<Rightarrow> string" where
  "spelling rs ns = join_dots (map2 spell rs ns)"

lemma radix_text_plain: "2 \<le> radix \<Longrightarrow> radix \<le> 16 \<Longrightarrow> c \<in> {CHR ''.'', CHR '':''} \<Longrightarrow> c \<notin> set (radix_text radix n)"
  using digit_of_neq radix_text_chars [of radix c n] by force

lemma spell_chars: "CHR ''.'' \<notin> set (spell r n)" "CHR '':'' \<notin> set (spell r n)"
  by (cases r; simp add: radix_text_plain)+

lemma spell_nonempty [simp]: "spell r n \<noteq> []"
  by (cases r) auto

lemma legacy_spelling:
  assumes "length rs = length ns" "ns \<noteq> []" "length ns \<le> 4" "\<forall>n \<in> set ns. n \<le> u32_max"
  shows "parse_legacy_ipv4 (spelling rs ns) = legacy_addr ns"
proof -
  let ?ps = "map2 spell rs ns"
  obtain p ps where ps: "?ps = p # ps" using assms(1,2) by (cases rs; cases ns) auto
  then have joined: "spelling rs ns = p @ concat (map (Cons CHR ''.'') ps)" by (simp add: spelling_def join_dots_def)
  have "\<forall>q \<in> set ?ps. CHR ''.'' \<notin> set q \<and> CHR '':'' \<notin> set q \<and> q \<noteq> []" using spell_chars by auto
  then have chars: "\<forall>q \<in> set (p # ps). CHR ''.'' \<notin> set q \<and> CHR '':'' \<notin> set q \<and> q \<noteq> []" unfolding ps .
  then have "split_on CHR ''.'' (spelling rs ns) = ?ps"
    unfolding joined ps by (intro split_on_parts) (auto simp: list_all_iff)
  moreover have "CHR '':'' \<notin> set (spelling rs ns)" "spelling rs ns \<noteq> []" unfolding joined using chars by auto
  moreover have "list_all2 (\<lambda>p n. p \<noteq> [] \<and> parse_ipv4_number p = Some n) ?ps ns"
    using assms(1,4) by (induction rs ns rule: list_induct2) (auto simp: parse_number_spell)
  ultimately show ?thesis
    using legacy_parts_of [of ?ps ns "[]"] assms(1,3) by (simp add: parse_legacy_ipv4_def)
qed

lemma strip_dot_simps: "strip_dot (s @ ''.'') = s" "s = [] \<or> last s \<noteq> CHR ''.'' \<Longrightarrow> strip_dot s = s"
  by (auto simp: strip_dot_def)

lemma last_spelling: "length rs = length ns \<Longrightarrow> ns \<noteq> [] \<Longrightarrow> last (spelling rs ns) \<noteq> CHR ''.''"
proof (induction rs ns rule: list_induct2)
  case (Cons r rs n ns)
  show ?case
  proof (cases ns)
    case Nil
    then show ?thesis using spell_chars(1) [of r n] Cons by (simp add: spelling_def join_dots_def) (metis last_in_set spell_nonempty)
  next
    case (Cons n' ns')
    then obtain r' rs' where "rs = r' # rs'" using \<open>length rs = length ns\<close> by (cases rs) auto
    then show ?thesis using Cons \<open>ns \<noteq> [] \<Longrightarrow> last (spelling rs ns) \<noteq> CHR ''.''\<close>
      by (simp add: spelling_def join_dots_def)
  qed
qed simp

section \<open>The decision\<close>

text \<open>What a configured pattern covers.\<close>

definition covers :: "'net NetLib \<Rightarrow> string \<Rightarrow> string \<Rightarrow> bool" where
  "covers lib pattern host \<longleftrightarrow>
     (case nl_parse lib (trim pattern) of
        Some net \<Rightarrow> (\<exists>ip. parse_target_ip host = Some ip \<and> nl_contains lib net ip)
      | None \<Rightarrow>
          (case parse_target_ip (trim pattern) of
             Some ip \<Rightarrow> parse_target_ip host = Some ip
           | None \<Rightarrow> map ascii_lower host \<in> host_lang (map ascii_lower (trim pattern))))"

definition single_networks :: "'net NetLib \<Rightarrow> bool" where
  "single_networks lib \<longleftrightarrow> (\<forall>ip ip'. nl_contains lib (nl_from lib ip) ip' \<longleftrightarrow> ip = ip')"

lemma rule_parse_covers:
  assumes "single_networks lib" "rule_parse lib pattern = Inr rule"
  shows "rule_matches lib rule host (parse_target_ip host) \<longleftrightarrow> covers lib pattern host"
  using assms
  by (auto simp: rule_parse_def rule_matches_def covers_def host_glob_exact single_networks_def Let_def split: if_splits option.splits)

lemma parse_all_covers:
  assumes "single_networks lib" "parse_all lib ps = Inr rules"
  shows "list_ex (\<lambda>r. rule_matches lib r host (parse_target_ip host)) rules \<longleftrightarrow> (\<exists>p \<in> set ps. covers lib p host)"
    and "rules = [] \<longleftrightarrow> ps = []"
proof -
  have "list_ex (\<lambda>r. rule_matches lib r host (parse_target_ip host)) rules = (\<exists>p \<in> set ps. covers lib p host) \<and> (rules = [] \<longleftrightarrow> ps = [])"
    using assms(2)
  proof (induction ps arbitrary: rules)
    case (Cons p ps)
    then show ?case using rule_parse_covers [OF assms(1), of p] by (auto split: sum.splits)
  qed simp
  then show "list_ex (\<lambda>r. rule_matches lib r host (parse_target_ip host)) rules \<longleftrightarrow> (\<exists>p \<in> set ps. covers lib p host)"
    "rules = [] \<longleftrightarrow> ps = []" by simp_all
qed

lemma permits_covers:
  assumes "from_patterns lib (Some allow) (Some deny) = Inr acl" "single_networks lib"
  shows "permits lib acl host port \<longleftrightarrow>
    (\<forall>p \<in> set deny. \<not> covers lib p (strip_dot host)) \<and> (allow = [] \<or> (\<exists>p \<in> set allow. covers lib p (strip_dot host)))"
proof -
  have "parse_all lib allow = Inr (ta_allow acl)" "parse_all lib deny = Inr (ta_deny acl)"
    using assms(1) by (auto simp: from_patterns_def split: sum.splits)
  note all = parse_all_covers [OF assms(2) this(1)] parse_all_covers [OF assms(2) this(2)]
  show ?thesis
    using all(2,4) by (auto simp: permits_def is_unrestricted_def all(1,3) Let_def)
qed

text \<open>A network of mapped addresses covers nothing: addresses are unmapped before they are looked up.\<close>

lemma mapped_network_never_matches:
  assumes "\<And>ip. nl_contains lib net ip \<Longrightarrow> \<exists>w. ip = V6 w \<and> v4_from_mapped w \<noteq> None"
  shows "\<not> rule_matches lib (R_Net net) host (parse_target_ip host)"
proof -
  have "v4_from_mapped w = None" if "parse_target_ip host = Some (V6 w)" for w
    using that by (auto simp: parse_target_ip_def unmap_v4_def split: option.splits IpAddr.splits)
  then have "\<not> nl_contains lib net ip" if "parse_target_ip host = Some ip" for ip using assms that by blast
  then show ?thesis by (simp add: rule_matches_def split: option.split)
qed

section \<open>Properties\<close>


definition sample_net_lib :: "IpAddr NetLib" where
  "sample_net_lib = \<lparr>nl_parse = (\<lambda>_. None), nl_from = id, nl_contains = (=)\<rparr>"

definition sample_target_acl :: "IpAddr TargetAcl" where
  "sample_target_acl = \<lparr>ta_allow = [], ta_deny = [R_Net (V4 0x7F000001), R_Glob ''*.corp'']\<rparr>"

lemma sample_addresses: "parse_target_ip ''127.0.0.1'' = Some (V4 0x7F000001)" "parse_target_ip ''*.corp'' = None"
proof -
  have "''127.0.0.1'' = ipv4_string 127 0 0 1"
    by (simp add: ipv4_string_def dec.simps digit_char_def char_of_def bit_0)
  then show "parse_target_ip ''127.0.0.1'' = Some (V4 0x7F000001)"
    using parse_ip_ipv4_string [of 127 0 0 1] by (simp add: parse_target_ip_def unmap_v4_def v4_octets)
  have num: "read_number radix m z mx ''*.corp'' = None" for radix m z mx
    by (simp add: read_number_def to_digit_def)
  have octs: "read_octets (Suc n) 0 ''*.corp'' = None" for n by (simp add: read_separator_def num)
  have v4: "read_ipv4_addr ''*.corp'' = None" using octs [of 3] by (simp add: read_ipv4_addr_def)
  have "read_groups (Suc n) 0 ''*.corp'' = ([], False, ''*.corp'')" for n by (simp add: read_separator_def v4 num)
  from v4 this [of 7] have "read_ipv4_addr ''*.corp'' = None" "read_groups 8 0 ''*.corp'' = ([], False, ''*.corp'')" by simp_all
  moreover have "parse_ipv4_number ''*'' = None"
    by (simp add: parse_ipv4_number_def strip_prefix_def from_str_radix_def to_digit_def)
  ultimately show "parse_target_ip ''*.corp'' = None"
    by (simp add: parse_target_ip_def parse_ip_def read_ipv6_addr_def parse_legacy_ipv4_def)
qed

lemma sample_patterns: "from_patterns sample_net_lib (Some []) (Some [''127.0.0.1'', ''*.corp'']) = Inr sample_target_acl"
proof -
  have "trim ''127.0.0.1'' = ''127.0.0.1''" "trim ''*.corp'' = ''*.corp''" by (rule trim_visible; simp add: visible_def)+
  then show ?thesis
    by (simp add: from_patterns_def rule_parse_def sample_addresses sample_net_lib_def sample_target_acl_def ascii_lower_def)
qed




end
