(* ===== verification/Ip_Text.thy ===== *)
theory Ip_Text
  imports Target_Acl Byte_Streams
begin

text \<open>
  The texts the standard library writes for IP addresses, and that they are read back as the address: what a client of a dynamic
  forward sends in binary is what the destination policy decides on.
\<close>

section \<open>Texts\<close>

text \<open>\<open>Display\<close> of IP addresses: an IPv6 address has its first longest run of at least two zero groups shortened.\<close>

definition ipv4_text :: "bytes \<Rightarrow> string" where
  "ipv4_text os = ipv4_string (unat (os ! 0)) (unat (os ! 1)) (unat (os ! 2)) (unat (os ! 3))"

definition ipv6_groups :: "bytes \<Rightarrow> nat list" where
  "ipv6_groups os = map (\<lambda>i. unat (os ! (2 * i)) * 256 + unat (os ! (2 * i + 1))) [0..<8]"

fun zero_run :: "nat \<Rightarrow> nat list \<Rightarrow> nat \<times> nat \<Rightarrow> nat \<times> nat \<Rightarrow> nat \<times> nat" where
  "zero_run i [] longest current = longest"
| "zero_run i (g # gs) longest current =
     (if g = 0 then
        let current = (if snd current = 0 then i else fst current, snd current + 1)
        in zero_run (i + 1) gs (if snd longest < snd current then current else longest) current
      else zero_run (i + 1) gs longest (0, 0))"

fun colon_join :: "nat list \<Rightarrow> string" where
  "colon_join [] = []"
| "colon_join [g] = radix_text 16 g"
| "colon_join (g # gs) = radix_text 16 g @ '':'' @ colon_join gs"

definition ipv6_text :: "bytes \<Rightarrow> string" where
  "ipv6_text os =
     (let gs = ipv6_groups os in
      if take 5 gs = [0, 0, 0, 0, 0] \<and> gs ! 5 = 65535 then ''::ffff:'' @ ipv4_text (drop 12 os)
      else let (start, len) = zero_run 0 gs (0, 0) (0, 0)
           in if 1 < len then colon_join (take start gs) @ ''::'' @ colon_join (drop (start + len) gs) else colon_join gs)"

section \<open>Reading them back\<close>

lemma read_octets_no_dot: "CHR ''.'' \<notin> set s \<Longrightarrow> read_octets (Suc n) (Suc i) s = None"
  by (cases s) (auto simp: read_separator_def)

lemma no_dot_no_ipv4: "CHR ''.'' \<notin> set s \<Longrightarrow> read_ipv4_addr s = None"
proof -
  assume s: "CHR ''.'' \<notin> set s"
  have "read_octets (Suc (Suc n)) 0 s = None" for n
  proof (cases "read_number 10 3 False 255 s")
    case (Some x)
    obtain v r where "x = (v, r)" by (cases x)
    then have "read_octets (Suc n) (Suc 0) r = None"
      using read_number_rest [of 10 3 False 255 s v r] Some s by (intro read_octets_no_dot) auto
    then show ?thesis using Some \<open>x = (v, r)\<close> unfolding read_octets.simps(2) [of "Suc n"] by (simp add: read_separator_def del: read_octets.simps)
  qed (simp add: read_separator_def)
  from this [of 2] show ?thesis by (simp add: read_ipv4_addr_def)
qed

lemma no_octet_no_ipv4: "read_number 10 3 False 255 s = None \<Longrightarrow> read_ipv4_addr s = None"
proof -
  assume "read_number 10 3 False 255 s = None"
  then have "read_octets (Suc n) 0 s = None" for n by (simp add: read_separator_def)
  from this [of 3] show ?thesis by (simp add: read_ipv4_addr_def)
qed

lemma take_hex_digits:
  assumes "t = [] \<or> hd t = CHR '':''"
  shows "take_digits 16 (radix_text 16 n @ t) = (map (\<lambda>c. the (to_digit 16 c)) (radix_text 16 n), t)"
proof -
  have "take_digits 16 (xs @ t) = (map (\<lambda>c. the (to_digit 16 c)) xs, t)" if "\<forall>c \<in> set xs. \<exists>d < 16. c = digit_of d" for xs
    using that
  proof (induction xs)
    case Nil
    show ?case using assms by (cases t) (auto simp: to_digit_def)
  qed (auto simp: to_digit_digit_of)
  then show ?thesis using radix_text_chars [of 16 _ n] by simp
qed

lemma hex_value: "foldl (\<lambda>acc d. acc * 16 + d) 0 (map (\<lambda>c. the (to_digit 16 c)) (radix_text 16 n)) = n"
proof (induction n rule: less_induct)
  case (less n)
  then show ?case by (cases "n < 16") (subst radix_text.simps, simp add: to_digit_digit_of)+
qed

lemma hex_length: "n \<le> 65535 \<Longrightarrow> length (radix_text 16 n) \<le> 4"
  by (subst radix_text.simps, simp, subst radix_text.simps, simp, subst radix_text.simps, simp, subst radix_text.simps, simp)

lemma read_group:
  assumes "g \<le> 65535" "t = [] \<or> hd t = CHR '':''"
  shows "read_number 16 4 True 65535 (radix_text 16 g @ t) = Some (g, t)"
  using assms hex_length [OF assms(1)] by (simp add: read_number_def take_hex_digits hex_value)

text \<open>Groups with a colon before every group but the first of the text.\<close>

fun group_text :: "nat \<Rightarrow> nat list \<Rightarrow> string" where
  "group_text i [] = []"
| "group_text i (g # gs) = (if i = 0 then [] else '':'') @ radix_text 16 g @ group_text (Suc i) gs"

lemma colon_join_text: "colon_join gs = group_text 0 gs"
proof -
  have later: "group_text (Suc i) gs = (if gs = [] then [] else '':'' @ colon_join gs)" for i gs
    by (induction gs arbitrary: i rule: colon_join.induct) auto
  show ?thesis using later [of 0 "tl gs"] by (cases gs rule: colon_join.cases) auto
qed

lemma group_text_no_dot: "CHR ''.'' \<notin> set (group_text i gs)"
  by (induction i gs rule: group_text.induct) (auto simp: radix_text_plain)

definition groups_end :: "string \<Rightarrow> bool" where
  "groups_end t \<longleftrightarrow> CHR ''.'' \<notin> set t \<and> (t = [] \<or> (\<exists>u. t = CHR '':'' # CHR '':'' # u))"

lemma read_groups_end: "groups_end t \<Longrightarrow> read_groups n i t = ([], False, t)"
proof (cases n)
  case (Suc m)
  assume t: "groups_end t"
  have num: "read_number 16 4 True 65535 (CHR '':'' # u) = None" for u by (simp add: read_number_def to_digit_def)
  have "read_number 16 4 True 65535 [] = None" by (simp add: read_number_def)
  with num have "read_separator CHR '':'' i (read_number 16 4 True 65535) t = None"
    using t by (auto simp: groups_end_def read_separator_def split: list.splits)
  moreover have "read_separator CHR '':'' i read_ipv4_addr t = None"
    using t by (auto simp: groups_end_def read_separator_def no_dot_no_ipv4 split: list.splits)
  ultimately show ?thesis using Suc by simp
qed simp

lemma read_groups_text:
  assumes "\<forall>g \<in> set gs. g \<le> 65535" "length gs \<le> n" "groups_end t"
  shows "read_groups n i (group_text i gs @ t) = (gs, False, t)"
  using assms(1,2)
proof (induction gs arbitrary: n i)
  case Nil
  then show ?case by (simp add: read_groups_end assms(3))
next
  case (Cons g gs)
  then obtain m where n: "n = Suc m" by (cases n) auto
  let ?u = "radix_text 16 g @ group_text (Suc i) gs @ t"
  have u: "group_text i (g # gs) @ t = (if i = 0 then [] else '':'') @ ?u" by simp
  have "CHR ''.'' \<notin> set ?u" using assms(3) by (auto simp: radix_text_plain group_text_no_dot groups_end_def)
  then have "read_ipv4_addr ?u = None" by (rule no_dot_no_ipv4)
  then have v4: "read_separator CHR '':'' i read_ipv4_addr (group_text i (g # gs) @ t) = None"
    unfolding u by (cases "i = 0") (simp_all add: read_separator_def)
  have "group_text (Suc i) gs @ t = [] \<or> hd (group_text (Suc i) gs @ t) = CHR '':''"
    using assms(3) by (cases gs; cases t) (auto simp: groups_end_def)
  then have "read_number 16 4 True 65535 ?u = Some (g, group_text (Suc i) gs @ t)" using Cons.prems by (intro read_group) auto
  then have "read_separator CHR '':'' i (read_number 16 4 True 65535) (group_text i (g # gs) @ t) = Some (g, group_text (Suc i) gs @ t)"
    unfolding u by (cases "i = 0") (simp_all add: read_separator_def)
  moreover have "read_groups m (Suc i) (group_text (Suc i) gs @ t) = (gs, False, t)" using Cons n by simp
  ultimately show ?case using v4 Cons.prems(2) unfolding n by (cases gs) (simp_all del: group_text.simps(2))
qed

lemma zero_run_zeros:
  assumes "i \<le> length G" "fst longest + snd longest \<le> i" "\<forall>j < snd longest. G ! (fst longest + j) = 0"
    and "snd current = 0 \<or> fst current + snd current = i" "\<forall>j < snd current. G ! (fst current + j) = 0"
    and "zero_run i (drop i G) longest current = (s, l)"
  shows "s + l \<le> length G \<and> (\<forall>j < l. G ! (s + j) = 0)"
  using assms
proof (induction "drop i G" arbitrary: i longest current)
  case Nil
  then show ?case by simp
next
  case (Cons g gs)
  then have i: "i < length G" by (metis drop_eq_Nil linorder_not_less list.distinct(1))
  then have g: "g = G ! i" "gs = drop (Suc i) G" using Cons(2) Cons_nth_drop_Suc [of i G] by (metis list.inject)+
  show ?case
  proof (cases "g = 0")
    case True
    let ?c = "(if snd current = 0 then i else fst current, snd current + 1)"
    have c: "fst ?c + snd ?c = Suc i" "\<forall>j < snd ?c. G ! (fst ?c + j) = 0"
      using Cons.prems(4,5) g(1) True by (auto simp: less_Suc_eq)
    show ?thesis
      by (rule Cons.hyps(1) [OF g(2), of "if snd longest < snd ?c then ?c else longest" ?c])
        (use c Cons.prems i Cons(2) [symmetric] True g(2) in \<open>auto simp: Let_def\<close>)
  next
    case False
    show ?thesis
      by (rule Cons.hyps(1) [OF g(2), of longest "(0, 0)"]) (use Cons.prems i Cons(2) [symmetric] False g(2) in auto)
  qed
qed

lemma shortened:
  assumes "zero_run 0 gs (0, 0) (0, 0) = (s, l)"
  shows "s + l \<le> length gs" "gs = take s gs @ replicate l 0 @ drop (s + l) gs"
proof -
  have z: "s + l \<le> length gs \<and> (\<forall>j < l. gs ! (s + j) = 0)" using zero_run_zeros [of 0 gs "(0, 0)" "(0, 0)" s l] assms by simp
  then show "s + l \<le> length gs" by simp
  have "take l (drop s gs) = replicate l 0" using z by (intro nth_equalityI) auto
  then show "gs = take s gs @ replicate l 0 @ drop (s + l) gs"
    by (metis add.commute append_take_drop_id drop_drop)
qed

lemma read_ipv6_groups:
  assumes "length gs = 8" "\<forall>g \<in> set gs. g \<le> 65535"
  shows "read_ipv6_addr (colon_join gs) = Some (gs, [])"
  using read_groups_text [of gs 8 "[]" 0] assms by (simp add: read_ipv6_addr_def colon_join_text groups_end_def)

lemma read_ipv6_shortened:
  assumes "length gs = 8" "\<forall>g \<in> set gs. g \<le> 65535" "zero_run 0 gs (0, 0) (0, 0) = (s, l)" "1 < l"
  shows "read_ipv6_addr (colon_join (take s gs) @ ''::'' @ colon_join (drop (s + l) gs)) = Some (gs, [])"
proof -
  note z = shortened [OF assms(3)]
  have s: "s < 8" using z(1) assms(1,4) by simp
  have le: "\<forall>g \<in> set (take s gs). g \<le> 65535" "\<forall>g \<in> set (drop (s + l) gs). g \<le> 65535"
    using assms(2) by (auto dest: in_set_takeD in_set_dropD)
  have "read_groups 8 0 (group_text 0 (take s gs) @ ''::'' @ group_text 0 (drop (s + l) gs)) =
      (take s gs, False, ''::'' @ group_text 0 (drop (s + l) gs))"
    using le(1) s assms(1) by (intro read_groups_text) (auto simp: groups_end_def group_text_no_dot)
  moreover have "read_groups (8 - (s + 1)) 0 (group_text 0 (drop (s + l) gs) @ []) = (drop (s + l) gs, False, [])"
    using le(2) assms(1,4) by (intro read_groups_text) (auto simp: groups_end_def)
  moreover have "8 - s - (8 - (s + l)) = l" using z(1) assms(1) by simp
  ultimately show ?thesis using s assms(1) z(2) by (simp add: read_ipv6_addr_def colon_join_text)
qed

lemma read_ipv6_mapped:
  assumes "a \<le> 255" "b \<le> 255" "c \<le> 255" "d \<le> 255"
  shows "read_ipv6_addr (''::ffff:'' @ ipv4_string a b c d) = Some ([0, 0, 0, 0, 0, 65535, a * 256 + b, c * 256 + d], [])"
proof -
  let ?q = "ipv4_string a b c d"
  have colon: "read_ipv4_addr (CHR '':'' # u) = None" "read_number 16 4 True 65535 (CHR '':'' # u) = None" for u
    by (simp_all add: no_octet_no_ipv4 read_number_def to_digit_def)
  have f: "radix_text 16 65535 = ''ffff''" by (simp add: radix_text.simps digit_of_def char_of_def bit_0)
  have ffff: "read_number 16 4 True 65535 (''ffff:'' @ ?q) = Some (65535, CHR '':'' # ?q)"
    using read_group [of 65535 "CHR '':'' # ?q"] by (simp add: f)
  have no4: "read_ipv4_addr (''ffff:'' @ ?q) = None"
    by (rule no_octet_no_ipv4) (simp add: read_number_def to_digit_def)
  have "read_groups (Suc n) 0 (''::ffff:'' @ ?q) = ([], False, ''::ffff:'' @ ?q)" for n by (simp add: read_separator_def colon)
  from this [of 7] have g1: "read_groups 8 0 (''::ffff:'' @ ?q) = ([], False, ''::ffff:'' @ ?q)" by simp
  have "read_groups (Suc (Suc (Suc n))) 0 (''ffff:'' @ ?q) = ([65535, a * 256 + b, c * 256 + d], True, [])" for n
    using ffff no4 assms by (simp add: read_separator_def read_ipv4_string)
  from this [of 4] have g2: "read_groups 7 0 (''ffff:'' @ ?q) = ([65535, a * 256 + b, c * 256 + d], True, [])" by simp
  have "replicate 5 (0 :: nat) = [0, 0, 0, 0, 0]" by (simp add: numeral_eq_Suc)
  then show ?thesis using g1 g2 by (simp add: read_ipv6_addr_def)
qed

lemma octets_le: "unat (b :: byte) \<le> 255"
  using unsigned_less [of b, where 'a = nat] by simp

lemma groups_le: "\<forall>g \<in> set (ipv6_groups os). g \<le> 65535"
proof
  fix g assume "g \<in> set (ipv6_groups os)"
  then obtain a b where "g = unat (a :: byte) * 256 + unat (b :: byte)" by (auto simp: ipv6_groups_def)
  then show "g \<le> 65535" using octets_le [of a] octets_le [of b] by simp
qed

lemma ipv4_text_exact: "parse_target_ip (ipv4_text os) = Some (V4 (v4_from_octets (map (\<lambda>i. unat (os ! i)) [0, 1, 2, 3])))"
  using parse_ip_ipv4_string [OF octets_le octets_le octets_le octets_le, of "os ! 0" "os ! 1" "os ! 2" "os ! 3"]
  by (simp add: ipv4_text_def parse_target_ip_def unmap_v4_def)

lemma ipv6_read:
  assumes "length os = 16"
  shows "read_ipv6_addr (ipv6_text os) = Some (ipv6_groups os, []) \<and> read_ipv4_addr (ipv6_text os) = None"
proof -
  let ?gs = "ipv6_groups os"
  have len: "length ?gs = 8" by (simp add: ipv6_groups_def)
  obtain s l where z: "zero_run 0 ?gs (0, 0) (0, 0) = (s, l)" by (cases "zero_run 0 ?gs (0, 0) (0, 0)")
  consider "take 5 ?gs = [0, 0, 0, 0, 0] \<and> ?gs ! 5 = 65535" | "\<not> (take 5 ?gs = [0, 0, 0, 0, 0] \<and> ?gs ! 5 = 65535)" "1 < l"
    | "\<not> (take 5 ?gs = [0, 0, 0, 0, 0] \<and> ?gs ! 5 = 65535)" "\<not> 1 < l" by blast
  then show ?thesis
  proof cases
    case 1
    have "ipv6_text os = ''::ffff:'' @ ipv4_text (drop 12 os)" unfolding ipv6_text_def Let_def by (rule if_P [OF 1])
    moreover have "?gs = take 5 ?gs @ [?gs ! 5, ?gs ! 6, ?gs ! 7]" using len by (simp add: ipv6_groups_def upt_rec)
    moreover have "?gs ! 6 = unat (os ! 12) * 256 + unat (os ! 13)" "?gs ! 7 = unat (os ! 14) * 256 + unat (os ! 15)"
      by (simp_all add: ipv6_groups_def)
    moreover have "read_ipv4_addr (CHR '':'' # u) = None" for u
      by (rule no_octet_no_ipv4) (simp add: read_number_def to_digit_def)
    ultimately show ?thesis
      using 1 read_ipv6_mapped [OF octets_le octets_le octets_le octets_le, of "os ! 12" "os ! 13" "os ! 14" "os ! 15"] assms
      by (simp add: ipv4_text_def)
  next
    case 2
    have "ipv6_text os = colon_join (take s ?gs) @ ''::'' @ colon_join (drop (s + l) ?gs)"
      unfolding ipv6_text_def Let_def z using 2 by (simp only: if_False if_True prod.case)
    then show ?thesis using read_ipv6_shortened [OF len groups_le z 2(2)]
      by (simp add: no_dot_no_ipv4 colon_join_text group_text_no_dot)
  next
    case 3
    have "ipv6_text os = colon_join ?gs"
      unfolding ipv6_text_def Let_def z using 3 by (simp only: if_False prod.case)
    then show ?thesis using read_ipv6_groups [OF len groups_le]
      by (simp add: no_dot_no_ipv4 colon_join_text group_text_no_dot)
  qed
qed

lemma ipv6_text_exact:
  "length os = 16 \<Longrightarrow> parse_target_ip (ipv6_text os) = Some (unmap_v4 (V6 (v6_from_groups (ipv6_groups os))))"
  using ipv6_read [of os] by (simp add: parse_target_ip_def parse_ip_def)

end
