(* ===== verification/Dynamic_Proxy.thy ===== *)
theory Dynamic_Proxy
  imports Ip_Text Byte_Streams Protocol_Types Rate_Limits
begin

text \<open>
  Dynamic forwards of the SSH2 backend: the proxy handshakes of \<open>crates/spt-ssh2/src/dynamic.rs\<close> (SOCKS4, SOCKS4A, SOCKS5 and
  HTTP CONNECT), and \<open>open_dynamic\<close>, the admission of \<open>dynamic_loop\<close> and \<open>bridge_dynamic\<close> of \<open>russh_backend.rs\<close>, which put
  them together with the destination policy.  A client is the bytes it sends and how its stream ends; the outcomes of opening a
  channel and of the writes whose failure the code looks at are inputs.
\<close>

section \<open>Standard library\<close>

text \<open>\<open>str::split_whitespace\<close>.\<close>

lemma split_ws_shorter: "split_ws s = (l, Some r) \<Longrightarrow> length r < length s"
proof (induction s arbitrary: l)
  case (Cons c s)
  show ?case
  proof (cases "ws_len (c # s) = 0")
    case True
    then obtain l' where "split_ws s = (l', Some r)" using Cons.prems by (auto simp: Let_def split: prod.splits)
    then show ?thesis using Cons.IH by fastforce
  next
    case False
    then have "r = drop (ws_len (c # s)) (c # s)" using Cons.prems by simp
    then show ?thesis using False by (cases "ws_len (c # s)") simp_all
  qed
qed simp

function ws_pieces :: "string \<Rightarrow> string list" where
  "ws_pieces s = (case split_ws s of (l, None) \<Rightarrow> [l] | (l, Some r) \<Rightarrow> l # ws_pieces r)"
  by auto
termination
  by (relation "measure length") (auto dest: split_ws_shorter [OF sym])

declare ws_pieces.simps [simp del]

definition split_whitespace :: "string \<Rightarrow> string list" where
  "split_whitespace s = filter (\<lambda>p. p \<noteq> []) (ws_pieces s)"

section \<open>Control characters in messages\<close>

text \<open>
  \<open>escape_control\<close> of \<open>crates/spt-core/src/redaction.rs\<close> on UTF-8: control characters of the first block and DEL are one byte,
  those of the second block two.
\<close>

definition escape_default :: "nat \<Rightarrow> string" where
  "escape_default u =
     (if u = 9 then [CHR 0x5C, CHR ''t''] else if u = 13 then [CHR 0x5C, CHR ''r''] else if u = 10 then [CHR 0x5C, CHR ''n'']
      else [CHR 0x5C, CHR ''u'', CHR 0x7B] @ radix_text 16 u @ [CHR 0x7D])"

fun escape_control :: "string \<Rightarrow> string" where
  "escape_control [] = []"
| "escape_control (c # cs) =
     (let k = (of_char c :: nat) in
      if k < 32 \<or> k = 127 then escape_default k @ escape_control cs
      else case cs of
        c' # cs' \<Rightarrow>
          let k' = (of_char c' :: nat) in
          if k = 0xC2 \<and> 0x80 \<le> k' \<and> k' \<le> 0x9F then escape_default k' @ escape_control cs' else c # escape_control cs
      | [] \<Rightarrow> [c])"

section \<open>Protocols and replies\<close>

datatype DynamicProxyProtocol = Socks4 | Socks4a | Socks5 | HttpConnect

record DynamicProxyProtocolSet =
  ps_socks4 :: bool
  ps_socks4a :: bool
  ps_socks5 :: bool
  ps_http_connect :: bool

record DynamicProxyRequest =
  dr_target :: TargetAddr
  dr_protocol :: DynamicProxyProtocol

definition MAX_HTTP_CONNECT_HEADER :: nat where
  "MAX_HTTP_CONNECT_HEADER = 16 * 1024"

definition MAX_SOCKS4_USER_ID :: nat where
  "MAX_SOCKS4_USER_ID = 1024"

definition MAX_SOCKS4_DOMAIN :: nat where
  "MAX_SOCKS4_DOMAIN = 255"

definition DEFAULT_HANDSHAKE_TIMEOUT :: duration where
  "DEFAULT_HANDSHAKE_TIMEOUT = from_secs 10"

definition write_socks4_reply :: "bool \<Rightarrow> bytes" where
  "write_socks4_reply is_granted = [0x00, if is_granted then 0x5A else 0x5B, 0, 0, 0, 0, 0, 0]"

definition socks5_reply :: "byte \<Rightarrow> bytes" where
  "socks5_reply code = [0x05, code, 0x00, 0x01, 0, 0, 0, 0, 0, 0]"

abbreviation crlf :: string where
  "crlf \<equiv> [CHR 0x0D, CHR 0x0A]"

definition reply_success :: "DynamicProxyProtocol \<Rightarrow> bytes" where
  "reply_success protocol =
     (case protocol of
        Socks4 \<Rightarrow> write_socks4_reply True
      | Socks4a \<Rightarrow> write_socks4_reply True
      | Socks5 \<Rightarrow> socks5_reply 0x00
      | HttpConnect \<Rightarrow> ascii (''HTTP/1.1 200 Connection Established'' @ crlf @ crlf))"

definition success_error :: "DynamicProxyProtocol \<Rightarrow> string \<Rightarrow> string" where
  "success_error protocol e =
     (case protocol of
        Socks5 \<Rightarrow> ''SOCKS5 success reply: '' @ e
      | HttpConnect \<Rightarrow> ''HTTP CONNECT success reply: '' @ e
      | _ \<Rightarrow> ''SOCKS4 reply: '' @ e)"

definition reply_failure :: "DynamicProxyProtocol \<Rightarrow> bytes" where
  "reply_failure protocol =
     (case protocol of
        Socks4 \<Rightarrow> write_socks4_reply False
      | Socks4a \<Rightarrow> write_socks4_reply False
      | Socks5 \<Rightarrow> socks5_reply 0x01
      | HttpConnect \<Rightarrow> ascii (''HTTP/1.1 502 Bad Gateway'' @ crlf @ ''Connection: close'' @ crlf @ crlf))"

definition reply_denied :: "DynamicProxyProtocol \<Rightarrow> bytes" where
  "reply_denied protocol =
     (case protocol of
        Socks4 \<Rightarrow> write_socks4_reply False
      | Socks4a \<Rightarrow> write_socks4_reply False
      | Socks5 \<Rightarrow> socks5_reply 0x02
      | HttpConnect \<Rightarrow> ascii (''HTTP/1.1 403 Forbidden'' @ crlf @ ''Connection: close'' @ crlf @ crlf))"

section \<open>Handshakes\<close>

text \<open>The request and what is still to be read, or the error; and what was written to the client.\<close>

type_synonym handshake = "(fault, DynamicProxyRequest \<times> recv) result \<times> bytes"

abbreviation unsupported :: "string \<Rightarrow> (fault, 'a) result" where
  "unsupported msg \<equiv> Inl (Failed (Err_UnsupportedPlatform msg))"

definition request :: "bytes \<Rightarrow> 16 word \<Rightarrow> DynamicProxyProtocol \<Rightarrow> DynamicProxyRequest" where
  "request host port protocol = \<lparr>dr_target = \<lparr>ta_host = text_of host, ta_port = unat port\<rparr>, dr_protocol = protocol\<rparr>"

fun read_cstring :: "string \<Rightarrow> nat \<Rightarrow> bytes \<Rightarrow> bytes \<Rightarrow> stream_end \<Rightarrow> (fault, bytes \<times> bytes) result" where
  "read_cstring label mx acc [] e = Inl (io_fault (label @ '': '') e)"
| "read_cstring label mx acc (b # bs) e =
     (if b = 0 then Inr (acc, bs)
      else if mx \<le> length acc then invalid (label @ '' exceeded '' @ dec mx @ '' bytes before NUL terminator'')
      else read_cstring label mx (acc @ [b]) bs e)"

definition socks4_target :: "DynamicProxyProtocolSet \<Rightarrow> 16 word \<Rightarrow> bytes \<Rightarrow> recv \<Rightarrow> handshake" where
  "socks4_target protocols port octets r =
     (if octets ! 0 = 0 \<and> octets ! 1 = 0 \<and> octets ! 2 = 0 \<and> octets ! 3 \<noteq> 0 then
        (case read_cstring ''SOCKS4A domain'' MAX_SOCKS4_DOMAIN [] (rv_bytes r) (rv_end r) of
           Inl e \<Rightarrow> (Inl e, [])
         | Inr (domain, rest) \<Rightarrow>
             if domain = [] then (invalid ''SOCKS4A domain cannot be empty'', write_socks4_reply False)
             else if \<not> ps_socks4a protocols
             then (unsupported ''SOCKS4A is disabled for this dynamic forward'', write_socks4_reply False)
             else if \<not> utf8_ok domain then (invalid ''SOCKS4A domain is not UTF-8'', write_socks4_reply False)
             else (Inr (request domain port Socks4a, r\<lparr>rv_bytes := rest\<rparr>), []))
      else if octets = [0, 0, 0, 0] then (invalid ''SOCKS4 IPv4 target cannot be 0.0.0.0'', write_socks4_reply False)
      else if \<not> ps_socks4 protocols then (unsupported ''SOCKS4 is disabled for this dynamic forward'', write_socks4_reply False)
      else (Inr (request (ascii (ipv4_text octets)) port Socks4, r), []))"

definition read_socks4 :: "DynamicProxyProtocolSet \<Rightarrow> recv \<Rightarrow> handshake" where
  "read_socks4 protocols r =
     (case take_exact 8 r of
        Inl e \<Rightarrow> (Inl (io_fault ''SOCKS4 request header: '' e), [])
      | Inr (head, r) \<Rightarrow>
          if head ! 0 \<noteq> 0x04 then (invalid ''SOCKS4 request version mismatch'', [])
          else if head ! 1 \<noteq> 0x01
          then (unsupported ''SOCKS4 dynamic forward supports CONNECT only'', write_socks4_reply False)
          else
            let port = be_acc 0 [head ! 2, head ! 3] in
            if port = 0 then (invalid ''SOCKS4 target port cannot be zero'', write_socks4_reply False)
            else case read_cstring ''SOCKS4 user id'' MAX_SOCKS4_USER_ID [] (rv_bytes r) (rv_end r) of
              Inl e \<Rightarrow> (Inl e, [])
            | Inr (_, rest) \<Rightarrow> socks4_target protocols port (drop 4 head) (r\<lparr>rv_bytes := rest\<rparr>))"

definition socks5_host :: "byte \<Rightarrow> recv \<Rightarrow> (fault, bytes \<times> recv) result" where
  "socks5_host atyp r =
     (if atyp = 0x01 then
        (case take_exact 4 r of
           Inl e \<Rightarrow> Inl (io_fault ''SOCKS5 IPv4 address: '' e)
         | Inr (octets, r) \<Rightarrow> Inr (ascii (ipv4_text octets), r))
      else if atyp = 0x04 then
        (case take_exact 16 r of
           Inl e \<Rightarrow> Inl (io_fault ''SOCKS5 IPv6 address: '' e)
         | Inr (octets, r) \<Rightarrow> Inr (ascii (ipv6_text octets), r))
      else if atyp = 0x03 then
        (case take_exact 1 r of
           Inl e \<Rightarrow> Inl (io_fault ''SOCKS5 domain length: '' e)
         | Inr (len, r) \<Rightarrow>
             (case take_exact (unat (len ! 0)) r of
                Inl e \<Rightarrow> Inl (io_fault ''SOCKS5 domain: '' e)
              | Inr (name, r) \<Rightarrow> if utf8_ok name then Inr (name, r) else invalid ''SOCKS5 domain is not UTF-8''))
      else unsupported (''SOCKS5 address type 0x'' @ hex02 atyp @ '' is not supported''))"

definition socks5_target :: "byte \<Rightarrow> recv \<Rightarrow> (fault, DynamicProxyRequest \<times> recv) result" where
  "socks5_target atyp r =
     (case socks5_host atyp r of
        Inl e \<Rightarrow> Inl e
      | Inr (host, r) \<Rightarrow>
          (case take_exact 2 r of
             Inl e \<Rightarrow> Inl (io_fault ''SOCKS5 port: '' e)
           | Inr (port_bytes, r) \<Rightarrow>
               let port = be_acc 0 port_bytes in
               if port = 0 then invalid ''SOCKS5 target port cannot be zero'' else Inr (request host port Socks5, r)))"

definition read_socks5 :: "string option \<Rightarrow> recv \<Rightarrow> handshake" where
  "read_socks5 select_error r =
     (case take_exact 2 r of
        Inl e \<Rightarrow> (Inl (io_fault ''SOCKS5 greeting: '' e), [])
      | Inr (greeting, r) \<Rightarrow>
          if greeting ! 0 \<noteq> 0x05 then (invalid ''SOCKS5 greeting version mismatch'', [])
          else case take_exact (unat (greeting ! 1)) r of
            Inl e \<Rightarrow> (Inl (io_fault ''SOCKS5 auth methods: '' e), [])
          | Inr (methods, r) \<Rightarrow>
              if 0x00 \<notin> set methods
              then (unsupported ''SOCKS5 client offered no supported authentication method'', [0x05, 0xFF])
              else case select_error of
                Some e \<Rightarrow> (runtime (''SOCKS5 method select: '' @ e), [])
              | None \<Rightarrow>
                  (case take_exact 4 r of
                     Inl e \<Rightarrow> (Inl (io_fault ''SOCKS5 request header: '' e), [0x05, 0x00])
                   | Inr (head, r) \<Rightarrow>
                       if head ! 0 \<noteq> 0x05 then (invalid ''SOCKS5 request version mismatch'', [0x05, 0x00])
                       else if head ! 1 \<noteq> 0x01
                       then (unsupported ''SOCKS5 dynamic forward supports CONNECT only'', [0x05, 0x00] @ socks5_reply 0x07)
                       else (socks5_target (head ! 3) r, [0x05, 0x00])))"

definition ends_with :: "bytes \<Rightarrow> bytes \<Rightarrow> bool" where
  "ends_with s suffix \<longleftrightarrow> length suffix \<le> length s \<and> drop (length s - length suffix) s = suffix"

fun read_head :: "bytes \<Rightarrow> bytes \<Rightarrow> stream_end \<Rightarrow> (fault, bytes \<times> bytes) result" where
  "read_head header bs e =
     (if MAX_HTTP_CONNECT_HEADER \<le> length header
      then invalid (''HTTP CONNECT header exceeded '' @ dec MAX_HTTP_CONNECT_HEADER @ '' bytes'')
      else case bs of
        [] \<Rightarrow> Inl (io_fault ''HTTP CONNECT header: '' e)
      | b # bs \<Rightarrow>
          if ends_with (header @ [b]) (ascii (crlf @ crlf)) then Inr (header @ [b], bs) else read_head (header @ [b]) bs e)"

declare read_head.simps [simp del]

definition authority_parts :: "string \<Rightarrow> (fault, string \<times> string) result" where
  "authority_parts authority =
     (case strip_prefix ''['' authority of
        Some rest \<Rightarrow>
          (case split_once CHR '']'' rest of
             None \<Rightarrow> invalid ''IPv6 CONNECT authority missing `]`''
           | Some (host, after) \<Rightarrow>
               (case strip_prefix '':'' after of
                  None \<Rightarrow> invalid ''IPv6 CONNECT authority missing port''
                | Some port \<Rightarrow> Inr (host, port)))
      | None \<Rightarrow>
          (case rsplit_once CHR '':'' authority of
             None \<Rightarrow> invalid ''CONNECT authority must be `host:port`''
           | Some hp \<Rightarrow> Inr hp))"

definition parse_authority :: "string \<Rightarrow> (fault, TargetAddr) result" where
  "parse_authority authority =
     and_then (authority_parts authority) (\<lambda>(host, port).
       if host = [] then invalid ''CONNECT host cannot be empty''
       else case parse_uint u16_max port of
         None \<Rightarrow> invalid (''CONNECT port `'' @ port @ ''`: '' @ parse_uint_error u16_max port)
       | Some n \<Rightarrow> if n = 0 then invalid ''CONNECT port cannot be zero'' else Inr \<lparr>ta_host = host, ta_port = n\<rparr>)"

definition connect_line :: "string \<Rightarrow> (fault, TargetAddr) result" where
  "connect_line line =
     (let parts = split_whitespace line;
          part = (\<lambda>i. if i < length parts then parts ! i else [])
      in if map ascii_lower (part 0) \<noteq> ''connect'' then invalid (''dynamic HTTP proxy expected CONNECT, got `'' @ part 0 @ ''`'')
         else if part 1 = [] \<or> take 5 (part 2) \<noteq> ''HTTP/'' then invalid ''malformed HTTP CONNECT request line''
         else parse_authority (part 1))"

definition read_http_connect :: "recv \<Rightarrow> handshake" where
  "read_http_connect r =
     (case read_head [] (rv_bytes r) (rv_end r) of
        Inl e \<Rightarrow> (Inl e, [])
      | Inr (header, rest) \<Rightarrow>
          if \<not> utf8_ok header then (invalid ''HTTP CONNECT header is not UTF-8'', [])
          else case str_lines (text_of header) of
            [] \<Rightarrow> (invalid ''HTTP CONNECT request line missing'', [])
          | line # _ \<Rightarrow>
              (and_then (connect_line line) (\<lambda>target.
                 Inr (\<lparr>dr_target = target, dr_protocol = HttpConnect\<rparr>, r\<lparr>rv_bytes := rest\<rparr>)), []))"

definition read_request :: "DynamicProxyProtocolSet \<Rightarrow> string option \<Rightarrow> recv \<Rightarrow> handshake" where
  "read_request protocols select_error r =
     (case rv_bytes r of
        [] \<Rightarrow>
          ((case rv_end r of
              Fin \<Rightarrow> runtime ''dynamic proxy client closed before handshake''
            | Reset e \<Rightarrow> runtime (''dynamic proxy peek: '' @ e)
            | Silent \<Rightarrow> Inl Stalled), [])
      | first # _ \<Rightarrow>
          if first = 0x04 then
            (if ps_socks4 protocols \<or> ps_socks4a protocols then read_socks4 protocols r
             else (unsupported ''SOCKS4/SOCKS4A are disabled for this dynamic forward'', write_socks4_reply False))
          else if first = 0x05 then
            (if ps_socks5 protocols then read_socks5 select_error r
             else (unsupported ''SOCKS5 is disabled for this dynamic forward'', []))
          else if first = 0x43 \<or> first = 0x63 then
            (if ps_http_connect protocols then read_http_connect r
             else (unsupported ''HTTP CONNECT is disabled for this dynamic forward'', []))
          else (invalid (''dynamic proxy expected SOCKS4/SOCKS4A/SOCKS5 or HTTP CONNECT, got first byte 0x'' @ hex02 first), []))"

text \<open>\<open>shown\<close> is the timeout as the message shows it.\<close>

definition read_request_with_timeout :: "string \<Rightarrow> DynamicProxyProtocolSet \<Rightarrow> string option \<Rightarrow> recv \<Rightarrow> handshake" where
  "read_request_with_timeout shown protocols select_error r =
     (case read_request protocols select_error r of
        (Inl Stalled, out) \<Rightarrow> (runtime (''dynamic proxy handshake timed out after '' @ shown), out)
      | h \<Rightarrow> h)"

section \<open>The forward\<close>

definition combine_idle :: "duration option \<Rightarrow> duration option \<Rightarrow> duration option" where
  "combine_idle per_forward channel =
     (case per_forward of
        Some a \<Rightarrow> (case channel of Some b \<Rightarrow> Some (min a b) | None \<Rightarrow> Some a)
      | None \<Rightarrow> channel)"

definition acl_error_text :: "TargetAclError \<Rightarrow> string" where
  "acl_error_text e =
     (case e of
        TAE_Empty \<Rightarrow> ''target ACL pattern cannot be empty''
      | TAE_BadCidr p \<Rightarrow> ''invalid target ACL CIDR `'' @ p @ ''`'')"

text \<open>What the forward's loop is started with; the listener is bound before.\<close>

definition open_dynamic ::
  "'net NetLib \<Rightarrow> (spt_error, unit) result \<Rightarrow> DynamicForwardSpec \<Rightarrow> (spt_error, DynamicProxyProtocolSet \<times> 'net TargetAcl) result" where
  "open_dynamic lib bound spec =
     and_then bound (\<lambda>_.
       case from_patterns lib (Some (df_allow_targets spec)) (Some (df_deny_targets spec)) of
         Inl e \<Rightarrow> Inl (Err_InvalidConfig (''dynamic forward `'' @ df_name spec @ ''` target ACL: '' @ acl_error_text e))
       | Inr acl \<Rightarrow>
           Inr (\<lparr>ps_socks4 = df_allow_socks4 spec, ps_socks4a = df_allow_socks4a spec, ps_socks5 = df_allow_socks5 spec,
                 ps_http_connect = df_allow_http_connect spec\<rparr>, acl))"

text \<open>The admission of \<open>local_loop\<close>, \<open>dynamic_loop\<close> and \<open>ConnLimiter\<close>: the rate gate first, then the cap.\<close>

record ConnLimiter =
  cl_active :: nat
  cl_max_connections :: "nat option"
  cl_rate_gate :: RateGate

definition limiter_new :: "nat option \<Rightarrow> nat \<Rightarrow> instant \<Rightarrow> ConnLimiter" where
  "limiter_new max_connections per_sec now =
     \<lparr>cl_active = 0, cl_max_connections = max_connections, cl_rate_gate = rate_gate_new per_sec per_sec now\<rparr>"

definition try_admit :: "instant \<Rightarrow> ConnLimiter \<Rightarrow> bool \<times> ConnLimiter" where
  "try_admit now l =
     (let (okay, g) = admit now (cl_rate_gate l);
          l = l\<lparr>cl_rate_gate := g\<rparr>
      in if \<not> okay then (False, l)
         else case cl_max_connections l of
           Some limit \<Rightarrow> if limit \<le> cl_active l then (False, l) else (True, l\<lparr>cl_active := cl_active l + 1\<rparr>)
         | None \<Rightarrow> (True, l\<lparr>cl_active := cl_active l + 1\<rparr>))"

definition permit_drop :: "ConnLimiter \<Rightarrow> ConnLimiter" where
  "permit_drop l = l\<lparr>cl_active := cl_active l - 1\<rparr>"

definition dynamic_target_denied_msg :: "string \<Rightarrow> nat \<Rightarrow> string" where
  "dynamic_target_denied_msg host port = ''dynamic proxy target '' @ escape_control host @ '':'' @ dec port @ '' denied by ruleset''"

definition dynamic_dial_failure_msg :: "string \<Rightarrow> nat \<Rightarrow> string \<Rightarrow> string" where
  "dynamic_dial_failure_msg host port e = ''russh dynamic direct-tcpip to '' @ escape_control host @ '':'' @ dec port @ '': '' @ e"

text \<open>
  \<open>debug\<close> is the text of a duration in messages.  The result: the bridge starts on what the client sends next, or the error.  With it the channels that were asked for, and what
  was written to the client before the bridge.
\<close>

definition bridge_dynamic ::
  "'net NetLib \<Rightarrow> 'net TargetAcl \<Rightarrow> DynamicProxyProtocolSet \<Rightarrow> duration option \<Rightarrow> (duration \<Rightarrow> string) \<Rightarrow> string option
     \<Rightarrow> (TargetAddr \<Rightarrow> string option) \<Rightarrow> string option \<Rightarrow> recv \<Rightarrow> (fault, recv) result \<times> TargetAddr list \<times> bytes" where
  "bridge_dynamic lib acl protocols idle_timeout debug select_error open_channel reply_error r =
     (let handshake_timeout = (case idle_timeout of Some d \<Rightarrow> d | None \<Rightarrow> DEFAULT_HANDSHAKE_TIMEOUT) in
      case read_request_with_timeout (debug handshake_timeout) protocols select_error r of
        (Inl e, out) \<Rightarrow> (Inl e, [], out)
      | (Inr (req, r), out) \<Rightarrow>
          let t = dr_target req; protocol = dr_protocol req in
          if \<not> permits lib acl (ta_host t) (ta_port t)
          then (runtime (dynamic_target_denied_msg (ta_host t) (ta_port t)), [], out @ reply_denied protocol)
          else case open_channel t of
            Some e \<Rightarrow> (runtime (dynamic_dial_failure_msg (ta_host t) (ta_port t) e), [t], out @ reply_failure protocol)
          | None \<Rightarrow>
              (case reply_error of
                 Some e \<Rightarrow> (runtime (success_error protocol e), [t], out)
               | None \<Rightarrow> (Inr r, [t], out @ reply_success protocol)))"

section \<open>Accepted requests\<close>

definition enables :: "DynamicProxyProtocolSet \<Rightarrow> DynamicProxyProtocol \<Rightarrow> bool" where
  "enables ps protocol =
     (case protocol of
        Socks4 \<Rightarrow> ps_socks4 ps | Socks4a \<Rightarrow> ps_socks4a ps | Socks5 \<Rightarrow> ps_socks5 ps | HttpConnect \<Rightarrow> ps_http_connect ps)"

definition acceptable :: "DynamicProxyProtocolSet \<Rightarrow> DynamicProxyRequest \<Rightarrow> bool" where
  "acceptable ps q \<longleftrightarrow> enables ps (dr_protocol q) \<and> 0 < ta_port (dr_target q) \<and> ta_port (dr_target q) \<le> u16_max"

lemma request_acceptable: "port \<noteq> 0 \<Longrightarrow> enables ps p \<Longrightarrow> acceptable ps (request host port p)"
  using unsigned_less [of port, where 'a = nat] by (simp add: acceptable_def request_def u16_max_def unat_gt_0)

lemma parse_authority_port: "parse_authority s = Inr t \<Longrightarrow> 0 < ta_port t \<and> ta_port t \<le> u16_max"
  by (auto simp: parse_authority_def and_then_Inr split: if_splits option.splits sum.splits dest: parse_uint_le)

lemma read_socks4_acceptable: "read_socks4 ps r = (Inr (q, r'), out) \<Longrightarrow> acceptable ps q"
  by (auto simp: read_socks4_def socks4_target_def Let_def enables_def simp del: be_acc_simps split: sum.splits if_splits
      intro!: request_acceptable)

lemma socks5_target_acceptable: "socks5_target a r = Inr (q, r') \<Longrightarrow> ps_socks5 ps \<Longrightarrow> acceptable ps q"
  by (auto simp: socks5_target_def Let_def enables_def simp del: be_acc_simps split: sum.splits if_splits intro!: request_acceptable)

lemma read_socks5_acceptable: "read_socks5 se r = (Inr (q, r'), out) \<Longrightarrow> ps_socks5 ps \<Longrightarrow> acceptable ps q"
  by (auto simp: read_socks5_def split: sum.splits if_splits option.splits)
    (erule socks5_target_acceptable)

lemma connect_line_port: "connect_line l = Inr t \<Longrightarrow> 0 < ta_port t \<and> ta_port t \<le> u16_max"
  by (auto simp: connect_line_def Let_def split: if_splits dest: parse_authority_port)

lemma read_http_acceptable: "read_http_connect r = (Inr (q, r'), out) \<Longrightarrow> ps_http_connect ps \<Longrightarrow> acceptable ps q"
  by (auto simp: read_http_connect_def and_then_Inr acceptable_def enables_def split: sum.splits if_splits list.splits)
    (drule connect_line_port, simp)+

lemma read_request_acceptable: "read_request ps se r = (Inr (q, r'), out) \<Longrightarrow> acceptable ps q"
  by (auto simp: read_request_def split: list.splits if_splits stream_end.splits
      intro: read_socks4_acceptable read_socks5_acceptable read_http_acceptable)

lemma timed_request:
  assumes "read_request_with_timeout shown ps se r = (Inr (q, r'), out)"
  shows "read_request ps se r = (Inr (q, r'), out)"
  using assms by (cases "read_request ps se r") (auto simp: read_request_with_timeout_def split: sum.splits fault.splits)

lemma bridge_dynamic_dials:
  assumes "bridge_dynamic lib acl ps idle debug se oc re r = (res, dials, out)"
  shows "(\<exists>e. res = Inl e \<and> dials = [])
    \<or> (\<exists>q. acceptable ps q \<and> permits lib acl (ta_host (dr_target q)) (ta_port (dr_target q)) \<and> dials = [dr_target q]
         \<and> (isl res \<longleftrightarrow> oc (dr_target q) \<noteq> None \<or> re \<noteq> None))"
proof -
  define shown where "shown = debug (case idle of Some d \<Rightarrow> d | None \<Rightarrow> DEFAULT_HANDSHAKE_TIMEOUT)"
  obtain h out0 where Pair: "read_request_with_timeout shown ps se r = (h, out0)" by (cases "read_request_with_timeout shown ps se r")
  show ?thesis
  proof (cases h)
    case (Inl e)
    then show ?thesis using assms Pair by (auto simp: bridge_dynamic_def shown_def)
  next
    case (Inr x)
    obtain q r' where x: "x = (q, r')" by (cases x)
    then have "acceptable ps q" using timed_request [of shown ps se r q r' out0] Pair Inr by (simp add: read_request_acceptable)
    then show ?thesis using assms Pair Inr x
      by (cases "oc (dr_target q)"; cases re; cases "permits lib acl (ta_host (dr_target q)) (ta_port (dr_target q))")
        (auto simp: bridge_dynamic_def shown_def Let_def)
  qed
qed

text \<open>The limiter counts the connections that are open, and never more than the cap.\<close>

lemma try_admit_counts:
  assumes "try_admit now l = (okay, l')"
  shows "cl_active l' = cl_active l + (if okay then 1 else 0) \<and> cl_max_connections l' = cl_max_connections l"
    and "okay \<Longrightarrow> cl_max_connections l = Some limit \<Longrightarrow> cl_active l' \<le> limit"
  using assms by (auto simp: try_admit_def Let_def split: prod.splits if_splits option.splits)

lemma permit_round_trip: "try_admit now l = (True, l') \<Longrightarrow> cl_active (permit_drop l') = cl_active l"
  using try_admit_counts(1) [of now l True l'] by (simp add: permit_drop_def)

section \<open>Encodings\<close>

text \<open>The requests as a client writes them.\<close>

definition socks4a_bytes :: "bytes \<Rightarrow> bytes \<Rightarrow> 16 word \<Rightarrow> bytes" where
  "socks4a_bytes user host port = [4, 1] @ be_bytes 2 port @ [0, 0, 0, 1] @ user @ [0] @ host @ [0]"

definition socks4_bytes :: "bytes \<Rightarrow> bytes \<Rightarrow> 16 word \<Rightarrow> bytes" where
  "socks4_bytes user octets port = [4, 1] @ be_bytes 2 port @ octets @ user @ [0]"

definition socks5_bytes :: "bytes \<Rightarrow> byte \<Rightarrow> bytes \<Rightarrow> 16 word \<Rightarrow> bytes" where
  "socks5_bytes methods atyp address port = [5, of_nat (length methods)] @ methods @ [5, 1, 0, atyp] @ address @ be_bytes 2 port"

definition connect_bytes :: "string \<Rightarrow> nat \<Rightarrow> bytes list \<Rightarrow> bytes" where
  "connect_bytes host port headers =
     ascii (''CONNECT '' @ host @ '':'' @ dec port @ '' HTTP/1.1'' @ crlf) @ concat (map (\<lambda>h. h @ ascii crlf) headers) @ ascii crlf"

lemma read_cstring_exact:
  "0 \<notin> set bs \<Longrightarrow> length acc + length bs \<le> mx \<Longrightarrow> read_cstring label mx acc (bs @ 0 # rest) e = Inr (acc @ bs, rest)"
  by (induction bs arbitrary: acc) auto

lemma take_exact_append [simp]: "length xs = n \<Longrightarrow> take_exact n \<lparr>rv_bytes = xs @ ys, rv_end = e\<rparr> = Inr (xs, \<lparr>rv_bytes = ys, rv_end = e\<rparr>)"
  by (simp add: take_exact_def)

lemma be_bytes_two: "\<exists>a b. be_bytes 2 port = [a, b]"
  by (simp add: numeral_2_eq_2)

lemma read_socks4a_exact:
  assumes "port \<noteq> 0" "0 \<notin> set user" "length user \<le> 1024" "host \<noteq> []" "0 \<notin> set host" "length host \<le> 255" "utf8_ok host"
    and "ps_socks4a ps"
  shows "read_socks4 ps \<lparr>rv_bytes = socks4a_bytes user host port @ rest, rv_end = e\<rparr> =
    (Inr (request host port Socks4a, \<lparr>rv_bytes = rest, rv_end = e\<rparr>), [])"
proof -
  obtain a b where ab: "be_bytes 2 port = [a, b]" using be_bytes_two by blast
  then have port: "be_acc 0 [a, b] = port" using be_acc_all [of 2 0 port] by simp
  have bytes: "socks4a_bytes user host port @ rest = [4, 1, a, b, 0, 0, 0, 1] @ user @ 0 # (host @ 0 # rest)"
    by (simp add: socks4a_bytes_def ab)
  have "take_exact 8 \<lparr>rv_bytes = [4, 1, a, b, 0, 0, 0, 1] @ user @ 0 # (host @ 0 # rest), rv_end = e\<rparr> =
      Inr ([4, 1, a, b, 0, 0, 0, 1], \<lparr>rv_bytes = user @ 0 # (host @ 0 # rest), rv_end = e\<rparr>)"
    by (rule take_exact_append) simp
  then show ?thesis unfolding bytes
    using assms read_cstring_exact [of user "[]" 1024] read_cstring_exact [of host "[]" 255]
    by (simp add: read_socks4_def socks4_target_def port MAX_SOCKS4_USER_ID_def MAX_SOCKS4_DOMAIN_def Let_def del: be_acc_simps)
qed

lemma read_socks4_exact:
  assumes "port \<noteq> 0" "0 \<notin> set user" "length user \<le> 1024" "length octets = 4" "hd octets \<noteq> 0" "ps_socks4 ps"
  shows "read_socks4 ps \<lparr>rv_bytes = socks4_bytes user octets port @ rest, rv_end = e\<rparr> =
    (Inr (request (ascii (ipv4_text octets)) port Socks4, \<lparr>rv_bytes = rest, rv_end = e\<rparr>), [])"
proof -
  obtain a b where ab: "be_bytes 2 port = [a, b]" using be_bytes_two by blast
  then have port: "be_acc 0 [a, b] = port" using be_acc_all [of 2 0 port] by simp
  obtain w x y z where os: "octets = [w, x, y, z]" using assms(4) by (auto simp: numeral_eq_Suc length_Suc_conv)
  have bytes: "socks4_bytes user octets port @ rest = [4, 1, a, b, w, x, y, z] @ user @ 0 # rest"
    by (simp add: socks4_bytes_def ab os)
  have "take_exact 8 \<lparr>rv_bytes = [4, 1, a, b, w, x, y, z] @ user @ 0 # rest, rv_end = e\<rparr> =
      Inr ([4, 1, a, b, w, x, y, z], \<lparr>rv_bytes = user @ 0 # rest, rv_end = e\<rparr>)"
    by (rule take_exact_append) simp
  then show ?thesis unfolding bytes
    using assms os read_cstring_exact [of user "[]" 1024]
    by (simp add: read_socks4_def socks4_target_def port MAX_SOCKS4_USER_ID_def Let_def del: be_acc_simps)
qed

lemma unat_of_length: "n \<le> 255 \<Longrightarrow> unat (of_nat n :: byte) = n"
  by (simp add: unat_of_nat)

lemma socks5_domain_exact:
  assumes "length host \<le> 255" "utf8_ok host"
  shows "socks5_host 3 \<lparr>rv_bytes = (of_nat (length host) # host) @ t, rv_end = e\<rparr> = Inr (host, \<lparr>rv_bytes = t, rv_end = e\<rparr>)"
proof -
  have "take_exact 1 \<lparr>rv_bytes = [of_nat (length host)] @ host @ t, rv_end = e\<rparr> =
      Inr ([of_nat (length host)], \<lparr>rv_bytes = host @ t, rv_end = e\<rparr>)"
    "take_exact (length host) \<lparr>rv_bytes = host @ t, rv_end = e\<rparr> = Inr (host, \<lparr>rv_bytes = t, rv_end = e\<rparr>)"
    by (rule take_exact_append; simp)+
  then show ?thesis using assms by (simp add: socks5_host_def unat_of_length)
qed

lemma read_socks5_exact:
  assumes "port \<noteq> 0" "0 \<in> set methods" "length methods \<le> 255"
    and "\<And>t. socks5_host atyp \<lparr>rv_bytes = address @ t, rv_end = e\<rparr> = Inr (host, \<lparr>rv_bytes = t, rv_end = e\<rparr>)"
  shows "read_socks5 None \<lparr>rv_bytes = socks5_bytes methods atyp address port @ rest, rv_end = e\<rparr> =
    (Inr (request host port Socks5, \<lparr>rv_bytes = rest, rv_end = e\<rparr>), [5, 0])"
proof -
  obtain a b where ab: "be_bytes 2 port = [a, b]" using be_bytes_two by blast
  then have port: "be_acc 0 [a, b] = port" using be_acc_all [of 2 0 port] by simp
  let ?r3 = "address @ [a, b] @ rest"
  let ?r2 = "[5, 1, 0, atyp] @ ?r3"
  have bytes: "socks5_bytes methods atyp address port @ rest = [5, of_nat (length methods)] @ methods @ ?r2"
    by (simp add: socks5_bytes_def ab)
  have "take_exact 2 \<lparr>rv_bytes = [5, of_nat (length methods)] @ methods @ ?r2, rv_end = e\<rparr> =
      Inr ([5, of_nat (length methods)], \<lparr>rv_bytes = methods @ ?r2, rv_end = e\<rparr>)"
    "take_exact (length methods) \<lparr>rv_bytes = methods @ ?r2, rv_end = e\<rparr> = Inr (methods, \<lparr>rv_bytes = ?r2, rv_end = e\<rparr>)"
    "take_exact 4 \<lparr>rv_bytes = ?r2, rv_end = e\<rparr> = Inr ([5, 1, 0, atyp], \<lparr>rv_bytes = ?r3, rv_end = e\<rparr>)"
    "take_exact 2 \<lparr>rv_bytes = [a, b] @ rest, rv_end = e\<rparr> = Inr ([a, b], \<lparr>rv_bytes = rest, rv_end = e\<rparr>)"
    by (rule take_exact_append; simp)+
  then show ?thesis unfolding bytes
    using assms by (simp add: read_socks5_def socks5_target_def port Let_def unat_of_length del: be_acc_simps)
qed

lemma ascii_crlf: "ascii crlf = [13, 10]"
  by (simp add: ascii_def)

lemma ascii_append: "ascii (s @ t) = ascii s @ ascii t"
  by (simp add: ascii_def)

lemma text_of_append: "text_of (s @ t) = text_of s @ text_of t"
  by (simp add: text_of_def)

lemma read_head_step:
  "length acc < 16384 \<Longrightarrow> \<not> ends_with (acc @ [b]) [13, 10, 13, 10] \<Longrightarrow> read_head acc (b # bs) e = read_head (acc @ [b]) bs e"
  by (subst read_head.simps) (simp add: MAX_HTTP_CONNECT_HEADER_def ascii_def)

lemma ends_with_last: "s \<noteq> [] \<Longrightarrow> t \<noteq> [] \<Longrightarrow> last s \<noteq> last t \<Longrightarrow> \<not> ends_with s t"
  unfolding ends_with_def by (metis last_drop diff_less length_greater_0_conv)

lemma ends_with_append: "ends_with (s @ t) t"
  by (simp add: ends_with_def)

lemma read_head_plain:
  "10 \<notin> set h \<Longrightarrow> length acc + length h \<le> 16384 \<Longrightarrow> read_head acc (h @ bs) e = read_head (acc @ h) bs e"
proof (induction h arbitrary: acc)
  case (Cons b h)
  have "\<not> ends_with (acc @ [b]) [13, 10, 13, 10]" using Cons.prems(1) by (intro ends_with_last) auto
  then show ?case using Cons read_head_step [of acc b "h @ bs" e] by simp
qed simp

lemma read_head_line:
  assumes "10 \<notin> set h" "h \<noteq> []" "length acc + length h + 2 \<le> 16384"
  shows "read_head acc (h @ [13, 10] @ bs) e = read_head (acc @ h @ [13, 10]) bs e"
proof -
  obtain h' y where h: "h = h' @ [y]" using assms(2) by (metis rev_exhaust)
  have y: "y \<noteq> 10" using assms(1) h by auto
  have "\<not> ends_with (acc @ h @ [13, 10]) [13, 10, 13, 10]"
  proof
    assume "ends_with (acc @ h @ [13, 10]) [13, 10, 13, 10]"
    then obtain p where "acc @ h @ [13, 10] = p @ [13, 10, 13, 10]" by (metis append_take_drop_id ends_with_def)
    then have "(acc @ h') @ [y, 13, 10] = (p @ [13]) @ [10, 13, 10]" by (simp add: h)
    then have "[y, 13, 10] = [10, 13, 10 :: byte]" by (metis append_eq_append_conv length_Cons)
    then show False using y by simp
  qed
  then have "read_head (acc @ h @ [13]) (10 # bs) e = read_head (acc @ h @ [13, 10]) bs e"
    using read_head_step [of "acc @ h @ [13]" 10 bs e] assms(3) by simp
  then show ?thesis using read_head_plain [of "h @ [13]" acc "10 # bs" e] assms by simp
qed

lemma read_head_lines:
  assumes "\<forall>h \<in> set hs. h \<noteq> [] \<and> 10 \<notin> set h"
    and "length acc + length (concat (map (\<lambda>h. h @ [13, 10]) hs)) \<le> 16384"
  shows "read_head acc (concat (map (\<lambda>h. h @ [13, 10]) hs) @ bs) e = read_head (acc @ concat (map (\<lambda>h. h @ [13, 10]) hs)) bs e"
  using assms
proof (induction hs arbitrary: acc)
  case (Cons h hs)
  let ?t = "concat (map (\<lambda>h. h @ [13, 10]) hs)"
  have "read_head acc (h @ [13, 10] @ ?t @ bs) e = read_head (acc @ h @ [13, 10]) (?t @ bs) e"
    using Cons.prems by (intro read_head_line) auto
  also have "\<dots> = read_head ((acc @ h @ [13, 10]) @ ?t) bs e" using Cons.prems by (intro Cons.IH) auto
  finally show ?case by simp
qed simp

lemma read_head_end:
  assumes "length acc + 4 \<le> 16384"
  shows "read_head (acc @ [13, 10]) ([13, 10] @ bs) e = Inr (acc @ [13, 10, 13, 10], bs)"
proof -
  have "\<not> ends_with ((acc @ [13, 10]) @ [13]) [13, 10, 13, 10]" by (intro ends_with_last) auto
  moreover have "ends_with (acc @ [13, 10, 13, 10]) [13, 10, 13, 10]" by (rule ends_with_append)
  ultimately show ?thesis
    using assms by (simp add: read_head.simps [of "acc @ [13, 10]"] read_head.simps [of "acc @ [13, 10, 13]"]
        MAX_HTTP_CONNECT_HEADER_def ascii_def)
qed

lemma lines_end: "hs \<noteq> [] \<Longrightarrow> \<exists>p. concat (map (\<lambda>h. h @ [13, 10 :: byte]) hs) = p @ [13, 10]"
  by (induction hs rule: rev_induct) auto

lemma read_head_exact:
  assumes "hs \<noteq> []" "\<forall>h \<in> set hs. h \<noteq> [] \<and> 10 \<notin> set h" "length (concat (map (\<lambda>h. h @ [13, 10]) hs)) + 2 \<le> 16384"
  shows "read_head [] (concat (map (\<lambda>h. h @ [13, 10]) hs) @ [13, 10] @ bs) e = Inr (concat (map (\<lambda>h. h @ [13, 10]) hs) @ [13, 10], bs)"
proof -
  let ?t = "concat (map (\<lambda>h. h @ [13, 10]) hs)"
  obtain p where p: "?t = p @ [13, 10]" using lines_end [OF assms(1)] by blast
  then have len: "length p + 4 \<le> 16384" using assms(3) by simp
  have "read_head [] (?t @ [13, 10] @ bs) e = read_head ?t ([13, 10] @ bs) e"
    using read_head_lines [of hs "[]" "[13, 10] @ bs" e] assms(2,3) by simp
  also have "\<dots> = Inr (p @ [13, 10, 13, 10], bs)" unfolding p by (rule read_head_end [OF len])
  finally show ?thesis by (simp add: p)
qed

lemma split_ws_end: "\<forall>c \<in> set s. visible c \<Longrightarrow> split_ws s = (s, None)"
  by (induction s) auto

lemma ws_pieces_space: "\<forall>c \<in> set s. visible c \<Longrightarrow> ws_pieces (s @ CHR '' '' # t) = s # ws_pieces t"
  by (subst ws_pieces.simps) (simp add: split_ws_visible)

lemma ws_pieces_end: "\<forall>c \<in> set s. visible c \<Longrightarrow> ws_pieces s = [s]"
  by (subst ws_pieces.simps) (simp add: split_ws_end)

lemma visible_dec: "\<forall>c \<in> set (dec n). visible c"
  by (auto dest!: dec_chars simp: visible_def)

lemma connect_line_exact:
  assumes "host \<noteq> []" "hd host \<noteq> CHR ''[''" "\<forall>c \<in> set host. visible c" "0 < port" "port \<le> u16_max"
  shows "connect_line (''CONNECT '' @ host @ '':'' @ dec port @ '' HTTP/1.1'') = Inr \<lparr>ta_host = host, ta_port = port\<rparr>"
proof -
  let ?a = "host @ '':'' @ dec port"
  have a: "\<forall>c \<in> set ?a. visible c" using assms(3) visible_dec by (auto simp: visible_def)
  have m: "\<forall>c \<in> set ''CONNECT''. visible c" "\<forall>c \<in> set ''HTTP/1.1''. visible c" by (simp_all add: visible_def)
  have "ws_pieces (''CONNECT'' @ CHR '' '' # ?a @ CHR '' '' # ''HTTP/1.1'') = [''CONNECT'', ?a, ''HTTP/1.1'']"
    by (simp only: ws_pieces_space [OF m(1)] ws_pieces_space [OF a] ws_pieces_end [OF m(2)])
  then have parts: "split_whitespace (''CONNECT '' @ host @ '':'' @ dec port @ '' HTTP/1.1'') = [''CONNECT'', ?a, ''HTTP/1.1'']"
    by (simp add: split_whitespace_def)
  have "rsplit_once CHR '':'' (host @ CHR '':'' # dec port) = Some (host, dec port)" by (rule rsplit_once_notin) simp
  moreover have "strip_prefix ''['' ?a = None" using assms(1,2) by (cases host) (auto simp: strip_prefix_def)
  ultimately have "parse_authority ?a = Inr \<lparr>ta_host = host, ta_port = port\<rparr>"
    using assms by (simp add: parse_authority_def authority_parts_def parse_uint_dec)
  then show ?thesis unfolding connect_line_def parts
    by (simp add: Let_def ascii_lower_def char_of_def bit_0)
qed

lemma ascii_visible: "\<forall>c \<in> set s. visible c \<Longrightarrow> \<forall>b \<in> set (ascii s). 0 < b \<and> b < 0x80 \<and> b \<noteq> 10"
proof (intro ballI)
  fix b assume v: "\<forall>c \<in> set s. visible c" and "b \<in> set (ascii s)"
  then obtain c where "c \<in> set s" "b = of_nat (of_char c)" by (auto simp: ascii_def)
  then have "unat b = of_char c" "(of_char c :: nat) \<in> {33..126}" using v by (auto simp: visible_def unat_of_nat)
  then show "0 < b \<and> b < 0x80 \<and> b \<noteq> 10" by (auto simp: word_less_nat_alt)
qed

lemma str_lines_crlf: "CHR 0x0A \<notin> set line \<Longrightarrow> str_lines (line @ CHR 0x0D # CHR 0x0A # rest) = line # str_lines rest"
  using str_lines_append [of "line @ [CHR 0x0D]" rest] by (simp add: split_on_notin strip_cr_def)

lemma read_http_exact:
  assumes "host \<noteq> []" "hd host \<noteq> CHR ''[''" "\<forall>c \<in> set host. visible c" "0 < port" "port \<le> u16_max"
    and "\<forall>h \<in> set headers. h \<noteq> [] \<and> (\<forall>b \<in> set h. b \<noteq> 10 \<and> b < 0x80)" "length (connect_bytes host port headers) \<le> 16384"
  shows "read_http_connect \<lparr>rv_bytes = connect_bytes host port headers @ rest, rv_end = e\<rparr> =
    (Inr (\<lparr>dr_target = \<lparr>ta_host = host, ta_port = port\<rparr>, dr_protocol = HttpConnect\<rparr>, \<lparr>rv_bytes = rest, rv_end = e\<rparr>), [])"
proof -
  let ?line = "''CONNECT '' @ host @ '':'' @ dec port @ '' HTTP/1.1''"
  let ?hs = "ascii ?line # headers"
  let ?head = "concat (map (\<lambda>h. h @ [13, 10]) ?hs) @ [13, 10 :: byte]"
  have head: "connect_bytes host port headers = ?head" by (simp add: connect_bytes_def ascii_def)
  have "\<forall>b \<in> set (ascii ?line). b < 0x80 \<and> b \<noteq> 10"
    using ascii_visible [OF assms(3)] ascii_visible [OF visible_dec [of port]] by (auto simp: ascii_append ascii_Cons)
  then have hs: "\<forall>h \<in> set ?hs. h \<noteq> [] \<and> (\<forall>b \<in> set h. b \<noteq> 10 \<and> b < 0x80)" using assms(6) by (auto simp: ascii_append ascii_Cons)
  have "read_head [] (concat (map (\<lambda>h. h @ [13, 10]) ?hs) @ [13, 10] @ rest) e = Inr (?head, rest)"
    by (rule read_head_exact) (use hs assms(7) head in auto)
  then have read: "read_head [] (?head @ rest) e = Inr (?head, rest)" by simp
  have utf8: "utf8_ok ?head" by (rule utf8_ok_ascii) (use hs in auto)
  have "text_of ?head = ?line @ CHR 0x0D # CHR 0x0A # text_of (concat (map (\<lambda>h. h @ [13, 10]) headers) @ [13, 10])"
    using text_of_ascii [of crlf] by (simp add: text_of_append ascii_crlf) (simp add: text_of_def)
  moreover have "CHR 0x0A \<notin> set ?line" using assms(3) visible_dec [of port] by (auto simp: visible_def)
  ultimately have lines: "str_lines (text_of ?head) = ?line # str_lines (text_of (concat (map (\<lambda>h. h @ [13, 10]) headers) @ [13, 10]))"
    by (simp only: str_lines_crlf not_False_eq_True)
  show ?thesis unfolding head read_http_connect_def
    using connect_line_exact [OF assms(1-5)] utf8 lines
    by (simp only: recv.simps read sum.case prod.case not_True_eq_False if_False list.case and_then_simps)
qed

text \<open>Text in messages has no control character left.\<close>

lemma escape_default_visible: "u < 256 \<Longrightarrow> c \<in> set (escape_default u) \<Longrightarrow> visible c"
proof -
  assume "u < 256" and c: "c \<in> set (escape_default u)"
  have "visible c" if d: "c \<in> set (radix_text 16 u)"
  proof -
    obtain d where "d < 16" "c = digit_of d" using radix_text_chars [OF _ d] by auto
    then show ?thesis by (simp add: visible_def digit_of_def)
  qed
  then show ?thesis using c by (auto simp: escape_default_def visible_def split: if_splits)
qed

lemma escape_control_step:
  "set (escape_control (x # cs)) \<subseteq>
     (if (of_char x :: nat) < 32 \<or> (of_char x :: nat) = 127 then set (escape_default (of_char x)) else insert x (set (escape_default (of_char (hd cs)))))
       \<union> set (escape_control cs) \<union> set (escape_control (tl cs))"
  unfolding escape_control.simps(2) [of x] by (cases cs) (auto simp: Let_def simp del: escape_control.simps(2))

lemma escape_control_clean: "c \<in> set (escape_control s) \<Longrightarrow> 32 \<le> (of_char c :: nat) \<and> (of_char c :: nat) \<noteq> 127"
proof (induction "length s" arbitrary: s rule: less_induct)
  case less
  have esc: "c \<in> set (escape_default (of_char d)) \<Longrightarrow> 32 \<le> (of_char c :: nat) \<and> (of_char c :: nat) \<noteq> 127" for d
    using escape_default_visible [of "of_char d" c] by (simp add: visible_def)
  show ?case
  proof (cases s)
    case (Cons x cs)
    then have "c \<in> set (escape_control cs) \<or> c \<in> set (escape_control (tl cs)) \<or> (\<exists>d. c \<in> set (escape_default (of_char d)))
        \<or> c = x \<and> 32 \<le> (of_char x :: nat) \<and> (of_char x :: nat) \<noteq> 127"
      using less(2) escape_control_step [of x cs] by (auto split: if_splits)
    then show ?thesis using less(1) [of cs] less(1) [of "tl cs"] esc Cons by (auto simp: less_Suc_eq_le)
  qed (use less in simp)
qed

section \<open>Properties\<close>

definition spec_protocols :: "DynamicForwardSpec \<Rightarrow> DynamicProxyProtocol set" where
  "spec_protocols spec =
     {p. case p of
           Socks4 \<Rightarrow> df_allow_socks4 spec
         | Socks4a \<Rightarrow> df_allow_socks4a spec
         | Socks5 \<Rightarrow> df_allow_socks5 spec
         | HttpConnect \<Rightarrow> df_allow_http_connect spec}"


definition sample_dynamic_spec :: DynamicForwardSpec where
  "sample_dynamic_spec =
     \<lparr>df_name = ''proxy'', df_listen = BA_Tcp (V4 0x7F000001, 1080), df_max_connections = None, df_allow_socks4 = True,
      df_allow_socks4a = True, df_allow_socks5 = True, df_allow_http_connect = True, df_allow_targets = [],
      df_deny_targets = [''127.0.0.1'', ''*.corp''], df_limits = default_rate_limits, df_idle_timeout = None,
      df_on_bind_conflict = BCP_Fail, df_required = False\<rparr>"

definition sample_protocols :: DynamicProxyProtocolSet where
  "sample_protocols = \<lparr>ps_socks4 = True, ps_socks4a = True, ps_socks5 = True, ps_http_connect = True\<rparr>"

lemma sample_open: "open_dynamic sample_net_lib (Inr ()) sample_dynamic_spec = Inr (sample_protocols, sample_target_acl)"
  by (simp add: open_dynamic_def sample_dynamic_spec_def sample_protocols_def sample_patterns)

lemma sample_permits: "permits sample_net_lib sample_target_acl ''x'' 80"
proof -
  have num: "read_number 10 m z mx ''x'' = None" "read_number 16 m z mx ''x'' = None" for m z mx
    by (simp_all add: read_number_def to_digit_def)
  then have v4: "read_ipv4_addr ''x'' = None" by (intro no_octet_no_ipv4)
  have "read_groups (Suc n) 0 ''x'' = ([], False, ''x'')" for n by (simp add: read_separator_def v4 num)
  from this [of 7] have "read_ipv6_addr ''x'' = None" by (simp add: read_ipv6_addr_def)
  moreover have "parse_ipv4_number ''x'' = None"
    by (simp add: parse_ipv4_number_def strip_prefix_def from_str_radix_def to_digit_def)
  ultimately have ip: "parse_target_ip ''x'' = None" using v4 by (simp add: parse_target_ip_def parse_ip_def parse_legacy_ipv4_def)
  have "strip_dot ''x'' = ''x''" "map ascii_lower ''x'' = ''x''" by (simp_all add: strip_dot_def ascii_lower_def)
  moreover have "\<not> host_glob ''*.corp'' ''x''" unfolding host_glob_exact star_lang
    by (auto dest: arg_cong [where f = length])
  ultimately show ?thesis using ip by (simp add: permits_def Let_def sample_target_acl_def rule_matches_def)
qed


text \<open>C28:
  A well-formed request is understood as what the client asked for.  The encodings of a SOCKS4A, a SOCKS5 and an HTTP CONNECT
  request for a host and a port are read back as exactly that host and port under that protocol, whatever user name, offered
  methods and header lines come with it; the handshake takes not one byte of what the client sends after the request, and the
  answer it writes is the one the protocol prescribes.
\<close>

theorem proxy_requests_understood:
  assumes "ps = \<lparr>ps_socks4 = True, ps_socks4a = True, ps_socks5 = True, ps_http_connect = True\<rparr>"
    and "port \<noteq> 0" "host \<noteq> []" "hd host \<noteq> CHR ''[''" "\<forall>c \<in> set host. visible c" "length host \<le> 255"
    and "0 \<notin> set user" "length user \<le> 1024" "0 \<in> set methods" "length methods \<le> 255"
    and "\<forall>h \<in> set headers. h \<noteq> [] \<and> (\<forall>b \<in> set h. b \<noteq> 10 \<and> b < 0x80)"
    and "length (connect_bytes host (unat port) headers) \<le> 16384"
  shows "read_request ps None \<lparr>rv_bytes = socks4a_bytes user (ascii host) port @ rest, rv_end = e\<rparr> =
      (Inr (\<lparr>dr_target = \<lparr>ta_host = host, ta_port = unat port\<rparr>, dr_protocol = Socks4a\<rparr>, \<lparr>rv_bytes = rest, rv_end = e\<rparr>), [])
    \<and> read_request ps None \<lparr>rv_bytes = socks5_bytes methods 3 (of_nat (length host) # ascii host) port @ rest, rv_end = e\<rparr> =
      (Inr (\<lparr>dr_target = \<lparr>ta_host = host, ta_port = unat port\<rparr>, dr_protocol = Socks5\<rparr>, \<lparr>rv_bytes = rest, rv_end = e\<rparr>), [5, 0])
    \<and> read_request ps None \<lparr>rv_bytes = connect_bytes host (unat port) headers @ rest, rv_end = e\<rparr> =
      (Inr (\<lparr>dr_target = \<lparr>ta_host = host, ta_port = unat port\<rparr>, dr_protocol = HttpConnect\<rparr>, \<lparr>rv_bytes = rest, rv_end = e\<rparr>), [])"
proof -
  have bytes: "ascii host \<noteq> []" "0 \<notin> set (ascii host)" "utf8_ok (ascii host)"
    using assms(3) ascii_visible [OF assms(5)] length_ascii [of host] by (auto simp del: length_ascii intro: utf8_ok_ascii)
  have req: "request (ascii host) port p = \<lparr>dr_target = \<lparr>ta_host = host, ta_port = unat port\<rparr>, dr_protocol = p\<rparr>" for p
    by (simp add: request_def)
  have p: "0 < unat port" "unat port \<le> u16_max"
    using assms(2) unsigned_less [of port, where 'a = nat] by (simp_all add: unat_gt_0 u16_max_def)
  have s4: "read_socks4 ps \<lparr>rv_bytes = socks4a_bytes user (ascii host) port @ rest, rv_end = e\<rparr> =
      (Inr (request (ascii host) port Socks4a, \<lparr>rv_bytes = rest, rv_end = e\<rparr>), [])"
    using assms(1-8) bytes by (intro read_socks4a_exact) auto
  have "socks5_host 3 \<lparr>rv_bytes = (of_nat (length host) # ascii host) @ t, rv_end = e\<rparr> = Inr (ascii host, \<lparr>rv_bytes = t, rv_end = e\<rparr>)" for t
    using socks5_domain_exact [of "ascii host"] assms(6) bytes(3) by simp
  note s5 = read_socks5_exact [OF assms(2,9,10) this]
  note http = read_http_exact [OF assms(3-5) p assms(11,12)]
  have "read_request ps None \<lparr>rv_bytes = socks4a_bytes user (ascii host) port @ rest, rv_end = e\<rparr> =
      read_socks4 ps \<lparr>rv_bytes = socks4a_bytes user (ascii host) port @ rest, rv_end = e\<rparr>"
    using assms(1) by (simp add: read_request_def socks4a_bytes_def)
  moreover have "read_request ps None \<lparr>rv_bytes = socks5_bytes methods 3 (of_nat (length host) # ascii host) port @ rest, rv_end = e\<rparr> =
      read_socks5 None \<lparr>rv_bytes = socks5_bytes methods 3 (of_nat (length host) # ascii host) port @ rest, rv_end = e\<rparr>"
    using assms(1) by (simp add: read_request_def socks5_bytes_def)
  moreover have "read_request ps None \<lparr>rv_bytes = connect_bytes host (unat port) headers @ rest, rv_end = e\<rparr> =
      read_http_connect \<lparr>rv_bytes = connect_bytes host (unat port) headers @ rest, rv_end = e\<rparr>"
    using assms(1) by (simp add: read_request_def connect_bytes_def ascii_Cons)
  ultimately show ?thesis by (simp only: s4 s5 http req simp_thms)
qed

theorem proxy_requests_understood_witness:
  "fst (read_request sample_protocols None \<lparr>rv_bytes = connect_bytes ''db'' 5432 [ascii ''Host: db''] @ [1, 2], rv_end = Silent\<rparr>) =
     Inr (\<lparr>dr_target = \<lparr>ta_host = ''db'', ta_port = 5432\<rparr>, dr_protocol = HttpConnect\<rparr>, \<lparr>rv_bytes = [1, 2], rv_end = Silent\<rparr>)"
proof -
  have "length (connect_bytes ''db'' (unat (5432 :: 16 word)) [ascii ''Host: db'']) \<le> 16384"
    by (simp add: connect_bytes_def ascii_def dec.simps)
  then show ?thesis
    using proxy_requests_understood [OF sample_protocols_def, of 5432 "''db''" "[]" "[0]" "[ascii ''Host: db'']" "[1, 2]" Silent]
    by (simp add: visible_def ascii_def)
qed

text \<open>C31:
  The policy decides on the address a client sends in binary.  For the four octets of a SOCKS4 or SOCKS5 request and the sixteen
  of a SOCKS5 request, the host text the forward makes of them is read by the destination policy as that very address; an IPv6
  address that maps an IPv4 address is read as the IPv4 address, so rules on IPv4 networks apply to it.
\<close>

theorem binary_targets_exact:
  assumes "ps = \<lparr>ps_socks4 = True, ps_socks4a = True, ps_socks5 = True, ps_http_connect = True\<rparr>"
    and "port \<noteq> 0" "0 \<notin> set user" "length user \<le> 1024" "0 \<in> set methods" "length methods \<le> 255"
    and "length v4_octets = 4" "hd v4_octets \<noteq> 0" "length octets = 16"
  shows "\<exists>q4 q5 q6.
      read_request ps None \<lparr>rv_bytes = socks4_bytes user v4_octets port @ rest, rv_end = e\<rparr> = (Inr (q4, \<lparr>rv_bytes = rest, rv_end = e\<rparr>), [])
    \<and> read_request ps None \<lparr>rv_bytes = socks5_bytes methods 1 v4_octets port @ rest, rv_end = e\<rparr> = (Inr (q5, \<lparr>rv_bytes = rest, rv_end = e\<rparr>), [5, 0])
    \<and> read_request ps None \<lparr>rv_bytes = socks5_bytes methods 4 octets port @ rest, rv_end = e\<rparr> = (Inr (q6, \<lparr>rv_bytes = rest, rv_end = e\<rparr>), [5, 0])
    \<and> parse_target_ip (ta_host (dr_target q4)) = Some (V4 (v4_from_octets (map unat v4_octets)))
    \<and> parse_target_ip (ta_host (dr_target q5)) = Some (V4 (v4_from_octets (map unat v4_octets)))
    \<and> parse_target_ip (ta_host (dr_target q6)) = Some (unmap_v4 (V6 (v6_from_groups (ipv6_groups octets))))"
proof -
  have host: "socks5_host 1 \<lparr>rv_bytes = v4_octets @ t, rv_end = e\<rparr> = Inr (ascii (ipv4_text v4_octets), \<lparr>rv_bytes = t, rv_end = e\<rparr>)"
    "socks5_host 4 \<lparr>rv_bytes = octets @ t, rv_end = e\<rparr> = Inr (ascii (ipv6_text octets), \<lparr>rv_bytes = t, rv_end = e\<rparr>)" for t
    using assms(7,9) by (simp_all add: socks5_host_def)
  have "map (\<lambda>i. unat (v4_octets ! i)) [0, 1, 2, 3] = map unat v4_octets"
    using assms(7) by (auto simp: numeral_eq_Suc length_Suc_conv)
  then have as_v4: "parse_target_ip (ipv4_text v4_octets) = Some (V4 (v4_from_octets (map unat v4_octets)))"
    using ipv4_text_exact [of v4_octets] by simp
  have "read_request ps None \<lparr>rv_bytes = socks4_bytes user v4_octets port @ rest, rv_end = e\<rparr> =
      read_socks4 ps \<lparr>rv_bytes = socks4_bytes user v4_octets port @ rest, rv_end = e\<rparr>"
    using assms(1) by (simp add: read_request_def socks4_bytes_def)
  moreover have "read_request ps None \<lparr>rv_bytes = socks5_bytes methods a d port @ rest, rv_end = e\<rparr> =
      read_socks5 None \<lparr>rv_bytes = socks5_bytes methods a d port @ rest, rv_end = e\<rparr>" for a d
    using assms(1) by (simp add: read_request_def socks5_bytes_def)
  ultimately show ?thesis
    using read_socks4_exact [OF assms(2-4,7,8), of ps rest e] assms(1) as_v4 ipv6_text_exact [OF assms(9)]
      read_socks5_exact [OF assms(2,5,6) host(1), of rest] read_socks5_exact [OF assms(2,5,6) host(2), of rest]
    by (intro exI [of _ "request (ascii (ipv4_text v4_octets)) port Socks4"] exI [of _ "request (ascii (ipv4_text v4_octets)) port Socks5"]
        exI [of _ "request (ascii (ipv6_text octets)) port Socks5"]) (simp add: request_def)
qed

theorem binary_targets_exact_witness:
  "\<exists>q rest. read_request sample_protocols None
       \<lparr>rv_bytes = socks5_bytes [0] 4 [0, 0, 0, 0, 0, 0, 0, 0, 0, 0, 255, 255, 127, 0, 0, 1] 22, rv_end = Silent\<rparr> = (Inr (q, rest), [5, 0])
     \<and> parse_target_ip (ta_host (dr_target q)) = Some (unmap_v4 (V6 0xFFFF7F000001))"
proof -
  have "v6_from_groups (ipv6_groups [0, 0, 0, 0, 0, 0, 0, 0, 0, 0, 255, 255, 127, 0, 0, 1]) = 0xFFFF7F000001"
    by (simp add: v6_from_groups_def ipv6_groups_def upt_rec)
  then show ?thesis
    using binary_targets_exact [OF sample_protocols_def, of 22 "[]" "[0]" "[127, 0, 0, 1]"
        "[0, 0, 0, 0, 0, 0, 0, 0, 0, 0, 255, 255, 127, 0, 0, 1]" "[]" Silent] by fastforce
qed

end
