(* ===== verification/Event_Bindings.thy ===== *)
theory Event_Bindings
  imports Std_Strings Rate_Limits "HOL-Library.AList"
begin

text \<open>
  Events and the bindings that route them: \<open>crates/spt-events/src/event.rs\<close> (severities, kinds, the event and its fields) and
  \<open>binding.rs\<close> (filters, expressions, deduplication and throttling).  A JSON value has the constructors of \<open>serde_json\<close>; the texts
  of numbers, of values and of time stamps are functions of \<open>EventLib\<close>.
\<close>

section \<open>Events\<close>

datatype Severity = Sev_Trace | Sev_Debug | Sev_Info | Sev_Warn | Sev_Error | Sev_Critical

definition severity_rank :: "Severity \<Rightarrow> nat" where
  "severity_rank s =
     (case s of Sev_Trace \<Rightarrow> 0 | Sev_Debug \<Rightarrow> 1 | Sev_Info \<Rightarrow> 2 | Sev_Warn \<Rightarrow> 3 | Sev_Error \<Rightarrow> 4 | Sev_Critical \<Rightarrow> 5)"

instantiation Severity :: linorder
begin

definition less_eq_Severity :: "Severity \<Rightarrow> Severity \<Rightarrow> bool" where
  "less_eq_Severity a b \<longleftrightarrow> severity_rank a \<le> severity_rank b"

definition less_Severity :: "Severity \<Rightarrow> Severity \<Rightarrow> bool" where
  "less_Severity a b \<longleftrightarrow> severity_rank a < severity_rank b"

instance
proof
  show "a = b" if "a \<le> b" "b \<le> a" for a b :: Severity
    using that by (cases a; cases b) (simp_all add: less_eq_Severity_def severity_rank_def)
qed (auto simp: less_eq_Severity_def less_Severity_def)

end

definition severity_parse :: "string \<Rightarrow> Severity option" where
  "severity_parse s =
     (let t = map ascii_lower s in
      if t = ''trace'' then Some Sev_Trace
      else if t = ''debug'' then Some Sev_Debug
      else if t = ''info'' then Some Sev_Info
      else if t = ''warn'' \<or> t = ''warning'' then Some Sev_Warn
      else if t = ''error'' then Some Sev_Error
      else if t = ''critical'' \<or> t = ''crit'' \<or> t = ''fatal'' then Some Sev_Critical
      else None)"

definition severity_as_str :: "Severity \<Rightarrow> string" where
  "severity_as_str s =
     (case s of
        Sev_Trace \<Rightarrow> ''trace'' | Sev_Debug \<Rightarrow> ''debug'' | Sev_Info \<Rightarrow> ''info'' | Sev_Warn \<Rightarrow> ''warn''
      | Sev_Error \<Rightarrow> ''error'' | Sev_Critical \<Rightarrow> ''critical'')"

definition matches_pattern :: "string \<Rightarrow> string \<Rightarrow> bool" where
  "matches_pattern kind pat =
     (case strip_suffix ''*'' pat of
        Some prefix \<Rightarrow> take (length prefix) kind = prefix
      | None \<Rightarrow> kind = pat)"

datatype 'n Value =
  J_Null | J_Bool bool | J_Number 'n | J_String string | J_Array "'n Value list" | J_Object "(string \<times> 'n Value) list"

record ('n, 't) EventLib =
  el_number_text :: "'n \<Rightarrow> string"
  el_value_text :: "'n Value \<Rightarrow> string"
  el_rfc3339 :: "'t \<Rightarrow> string"

record ('n, 't) Event =
  ev_id :: string
  ev_ts :: 't
  ev_kind :: string
  ev_severity :: Severity
  ev_profile_id :: "string option"
  ev_forward_id :: "string option"
  ev_session_id :: "string option"
  ev_connection_id :: "string option"
  ev_fields :: "(string \<times> 'n Value) list"
  ev_message :: string

definition lookup_field :: "('n, 't) EventLib \<Rightarrow> ('n, 't) Event \<Rightarrow> string \<Rightarrow> 'n Value option" where
  "lookup_field lib ev path =
     (if path = ''id'' then Some (J_String (ev_id ev))
      else if path = ''ts'' then Some (J_String (el_rfc3339 lib (ev_ts ev)))
      else if path = ''kind'' then Some (J_String (ev_kind ev))
      else if path = ''severity'' then Some (J_String (severity_as_str (ev_severity ev)))
      else if path = ''message'' then Some (J_String (ev_message ev))
      else if path = ''profile_id'' then map_option J_String (ev_profile_id ev)
      else if path = ''forward_id'' then map_option J_String (ev_forward_id ev)
      else if path = ''session_id'' then map_option J_String (ev_session_id ev)
      else if path = ''connection_id'' then map_option J_String (ev_connection_id ev)
      else map_of (ev_fields ev) path)"

definition lookup_field_str :: "('n, 't) EventLib \<Rightarrow> ('n, 't) Event \<Rightarrow> string \<Rightarrow> string option" where
  "lookup_field_str lib ev path =
     (if path = ''id'' then Some (ev_id ev)
      else if path = ''kind'' then Some (ev_kind ev)
      else if path = ''severity'' then Some (severity_as_str (ev_severity ev))
      else if path = ''message'' then Some (ev_message ev)
      else if path = ''ts'' then Some (el_rfc3339 lib (ev_ts ev))
      else if path = ''profile_id'' then ev_profile_id ev
      else if path = ''forward_id'' then ev_forward_id ev
      else if path = ''session_id'' then ev_session_id ev
      else if path = ''connection_id'' then ev_connection_id ev
      else case map_of (ev_fields ev) path of
        None \<Rightarrow> None
      | Some (J_String s) \<Rightarrow> Some s
      | Some J_Null \<Rightarrow> Some []
      | Some v \<Rightarrow> Some (el_value_text lib v))"

definition field_is_string :: "('n, 't) Event \<Rightarrow> string \<Rightarrow> bool" where
  "field_is_string ev path =
     (if path \<in> {''id'', ''ts'', ''kind'', ''severity'', ''message''} then True
      else if path = ''profile_id'' then ev_profile_id ev \<noteq> None
      else if path = ''forward_id'' then ev_forward_id ev \<noteq> None
      else if path = ''session_id'' then ev_session_id ev \<noteq> None
      else if path = ''connection_id'' then ev_connection_id ev \<noteq> None
      else case map_of (ev_fields ev) path of Some (J_String _) \<Rightarrow> True | _ \<Rightarrow> False)"

section \<open>Filters\<close>

datatype ExprOp = Eq | Neq | Contains

record 'n ExprFilter =
  ef_field :: string
  ef_op :: ExprOp
  ef_value :: "'n Value"

definition json_loose_eq :: "('n, 't) EventLib \<Rightarrow> 'n Value \<Rightarrow> 'n Value \<Rightarrow> bool" where
  "json_loose_eq lib a b =
     (case (a, b) of
        (J_String s, J_Number n) \<Rightarrow> el_number_text lib n = s
      | (J_Number n, J_String s) \<Rightarrow> el_number_text lib n = s
      | _ \<Rightarrow> a = b)"

definition expr_matches :: "('n, 't) EventLib \<Rightarrow> 'n ExprFilter \<Rightarrow> ('n, 't) Event \<Rightarrow> bool" where
  "expr_matches lib f ev =
     (case ef_op f of
        Contains \<Rightarrow>
          (case ef_value f of
             J_String needle \<Rightarrow>
               if \<not> field_is_string ev (ef_field f) then False
               else (case lookup_field_str lib ev (ef_field f) of Some haystack \<Rightarrow> str_contains needle haystack | None \<Rightarrow> False)
           | _ \<Rightarrow> False)
      | Eq \<Rightarrow> (case lookup_field lib ev (ef_field f) of Some actual \<Rightarrow> json_loose_eq lib actual (ef_value f) | None \<Rightarrow> False)
      | Neq \<Rightarrow> (case lookup_field lib ev (ef_field f) of Some actual \<Rightarrow> \<not> json_loose_eq lib actual (ef_value f) | None \<Rightarrow> True))"

record 'n BindingMatch =
  bm_kinds :: "string list"
  bm_min_severity :: "Severity option"
  bm_profile_filter :: "string list"
  bm_forward_filter :: "string list"
  bm_exprs :: "'n ExprFilter list"

definition allow_listed :: "string list \<Rightarrow> string option \<Rightarrow> bool" where
  "allow_listed ids v \<longleftrightarrow> ids = [] \<or> (case v of Some x \<Rightarrow> x \<in> set ids | None \<Rightarrow> False)"

definition binding_matches :: "('n, 't) EventLib \<Rightarrow> 'n BindingMatch \<Rightarrow> ('n, 't) Event \<Rightarrow> bool" where
  "binding_matches lib m ev =
     (if bm_kinds m \<noteq> [] \<and> \<not> list_ex (matches_pattern (ev_kind ev)) (bm_kinds m) then False
      else if (case bm_min_severity m of Some lo \<Rightarrow> ev_severity ev < lo | None \<Rightarrow> False) then False
      else if \<not> allow_listed (bm_profile_filter m) (ev_profile_id ev) then False
      else if \<not> allow_listed (bm_forward_filter m) (ev_forward_id ev) then False
      else list_all (\<lambda>f. expr_matches lib f ev) (bm_exprs m))"

section \<open>Deduplication and throttling\<close>

record Dedupe =
  dd_key_fields :: "string list"
  dd_interval :: duration

definition default_dedupe :: Dedupe where
  "default_dedupe = \<lparr>dd_key_fields = [''kind'', ''profile_id'', ''forward_id''], dd_interval = from_secs 60\<rparr>"

definition dedupe_new :: "string option \<Rightarrow> duration \<Rightarrow> Dedupe" where
  "dedupe_new key window =
     \<lparr>dd_key_fields = (case key of None \<Rightarrow> dd_key_fields default_dedupe | Some k \<Rightarrow> [k]), dd_interval = window\<rparr>"

definition empty_set_sign :: string where
  "empty_set_sign = [CHR 0xE2, CHR 0x88, CHR 0x85]"

definition key_part :: "('n, 't) EventLib \<Rightarrow> ('n, 't) Event \<Rightarrow> string \<Rightarrow> string" where
  "key_part lib ev f = (case lookup_field_str lib ev f of Some v \<Rightarrow> v | None \<Rightarrow> empty_set_sign)"

fun key_for :: "('n, 't) EventLib \<Rightarrow> string list \<Rightarrow> ('n, 't) Event \<Rightarrow> string" where
  "key_for lib [] ev = []"
| "key_for lib [f] ev = key_part lib ev f"
| "key_for lib (f # fs) ev = key_part lib ev f @ ''|'' @ key_for lib fs ev"

type_synonym DedupeState = "(string \<times> instant) list"

definition should_suppress :: "('n, 't) EventLib \<Rightarrow> instant \<Rightarrow> Dedupe \<Rightarrow> ('n, 't) Event \<Rightarrow> DedupeState \<Rightarrow> bool \<times> DedupeState" where
  "should_suppress lib now dedupe ev seen =
     (let key = key_for lib (dd_key_fields dedupe) ev;
          seen = filter (\<lambda>(_, ts). now - ts < dd_interval dedupe) seen
      in if (case map_of seen key of Some prev \<Rightarrow> now - prev < dd_interval dedupe | None \<Rightarrow> False) then (True, seen)
         else (False, AList.update key now seen))"

type_synonym ThrottleState = "(string \<times> instant) list"

definition allow :: "instant \<Rightarrow> string \<Rightarrow> duration \<Rightarrow> ThrottleState \<Rightarrow> bool \<times> ThrottleState" where
  "allow now binding interval past =
     (if (case map_of past binding of Some prev \<Rightarrow> now - prev < interval | None \<Rightarrow> False) then (False, past)
      else (True, AList.update binding now past))"

section \<open>Bindings\<close>

record 'n Binding =
  bi_name :: string
  bi_match :: "'n BindingMatch"
  bi_sinks :: "string list"
  bi_dedupe :: "Dedupe option"
  bi_throttle :: "duration option"

definition binding_new :: "string \<Rightarrow> 'n BindingMatch \<Rightarrow> string list \<Rightarrow> 'n Binding" where
  "binding_new name m sinks = \<lparr>bi_name = name, bi_match = m, bi_sinks = sinks, bi_dedupe = None, bi_throttle = None\<rparr>"

definition with_min_level :: "Severity \<Rightarrow> 'n Binding \<Rightarrow> 'n Binding" where
  "with_min_level level b = b\<lparr>bi_match := (bi_match b)\<lparr>bm_min_severity := Some level\<rparr>\<rparr>"

definition min_severity_or :: "Severity \<Rightarrow> 'n Binding \<Rightarrow> 'n Binding" where
  "min_severity_or d b = (if bm_min_severity (bi_match b) = None then with_min_level d b else b)"

section \<open>Lemmas\<close>

lemma severity_round_trip: "severity_parse (severity_as_str s) = Some s"
  by (cases s) (simp_all add: severity_parse_def severity_as_str_def ascii_lower_def)

text \<open>The two lookups agree: the text is the one of the value.\<close>

lemma lookup_texts:
  "lookup_field_str lib ev path =
     (case lookup_field lib ev path of
        None \<Rightarrow> None
      | Some (J_String s) \<Rightarrow> Some s
      | Some J_Null \<Rightarrow> Some []
      | Some v \<Rightarrow> Some (el_value_text lib v))"
  by (auto simp: lookup_field_def lookup_field_str_def split: option.split)

lemma string_fields: "field_is_string ev path \<longleftrightarrow> (\<exists>s. lookup_field lib ev path = Some (J_String s))"
  by (auto simp: field_is_string_def lookup_field_def split: option.splits Value.splits)

lemma suppressed_iff:
  "fst (should_suppress lib now dd ev seen) \<longleftrightarrow>
     (\<exists>ts. map_of (filter (\<lambda>(_, ts). now - ts < dd_interval dd) seen) (key_for lib (dd_key_fields dd) ev) = Some ts)"
proof (cases "map_of (filter (\<lambda>(_, ts). now - ts < dd_interval dd) seen) (key_for lib (dd_key_fields dd) ev)")
  case (Some ts)
  then have "now - ts < dd_interval dd" using map_of_SomeD by fastforce
  then show ?thesis using Some by (simp add: should_suppress_def Let_def)
qed (simp add: should_suppress_def Let_def)

text \<open>A key that was just recorded suppresses until the interval is over.\<close>

lemma recorded_suppresses:
  assumes "\<not> fst (should_suppress lib now dd ev seen)" "now \<le> now'" "now' - now < dd_interval dd'"
    and "key_for lib (dd_key_fields dd') ev' = key_for lib (dd_key_fields dd) ev"
  shows "fst (should_suppress lib now' dd' ev' (snd (should_suppress lib now dd ev seen)))"
proof -
  let ?key = "key_for lib (dd_key_fields dd) ev"
  let ?seen = "filter (\<lambda>(_, ts). now - ts < dd_interval dd) seen"
  have upd: "snd (should_suppress lib now dd ev seen) = AList.update ?key now ?seen"
    using assms(1) by (auto simp: should_suppress_def Let_def split: if_splits)
  have "map_of (filter (\<lambda>(_, ts). now' - ts < dd_interval dd') (AList.update ?key now xs)) ?key \<noteq> None" for xs
    using assms(3) by (induction xs) (auto split: if_splits)
  then show ?thesis unfolding suppressed_iff upd assms(4) by blast
qed

end
