(* ===== verification/Event_Template.thy ===== *)
theory Event_Template
  imports Event_Bindings Byte_Streams
begin

text \<open>
  Templates of sink payloads, \<open>crates/spt-events/src/template.rs\<close>: the substitution loop and the escaping of substituted values
  for JSON strings, URLs and forms.  Readers of the three formats serve as reference: what they read back from an escaped value is
  the value.
\<close>

section \<open>Escaping\<close>

datatype EscapeMode = Esc_None | Esc_JsonString | Esc_Url | Esc_Form

definition backslash :: char where
  "backslash = CHR 0x5C"

definition json_escaped_char :: "char \<Rightarrow> string" where
  "json_escaped_char c =
     (if c = CHR 0x22 then [backslash, CHR 0x22]
      else if c = backslash then [backslash, backslash]
      else if c = CHR 0x0A then [backslash, CHR ''n'']
      else if c = CHR 0x0D then [backslash, CHR ''r'']
      else if c = CHR 0x09 then [backslash, CHR ''t'']
      else if c = CHR 0x08 then [backslash, CHR ''b'']
      else if c = CHR 0x0C then [backslash, CHR ''f'']
      else if (of_char c :: nat) < 0x20 then [backslash, CHR ''u'', CHR ''0'', CHR ''0''] @ hex02 (of_nat (of_char c))
      else [c])"

definition append_json_escaped :: "string \<Rightarrow> string" where
  "append_json_escaped v = concat (map json_escaped_char v)"

definition unreserved :: "char \<Rightarrow> bool" where
  "unreserved c \<longleftrightarrow>
     (let k = (of_char c :: nat) in 65 \<le> k \<and> k \<le> 90 \<or> 97 \<le> k \<and> k \<le> 122 \<or> 48 \<le> k \<and> k \<le> 57 \<or> k \<in> {45, 46, 95, 126})"

definition upper_hex :: "nat \<Rightarrow> char" where
  "upper_hex d = char_of (if d < 10 then 48 + d else 55 + d)"

definition percent_encoded_char :: "bool \<Rightarrow> char \<Rightarrow> string" where
  "percent_encoded_char space_as_plus c =
     (if unreserved c then [c]
      else if c = CHR '' '' \<and> space_as_plus then ''+''
      else [CHR ''%'', upper_hex (of_char c div 16), upper_hex (of_char c mod 16)])"

definition append_percent_encoded :: "bool \<Rightarrow> string \<Rightarrow> string" where
  "append_percent_encoded space_as_plus v = concat (map (percent_encoded_char space_as_plus) v)"

definition append_escaped :: "EscapeMode \<Rightarrow> string \<Rightarrow> string" where
  "append_escaped ctx v =
     (case ctx of
        Esc_None \<Rightarrow> v
      | Esc_JsonString \<Rightarrow> append_json_escaped v
      | Esc_Url \<Rightarrow> append_percent_encoded False v
      | Esc_Form \<Rightarrow> append_percent_encoded True v)"

section \<open>Substitution\<close>

fun find_close :: "string \<Rightarrow> nat option" where
  "find_close (a # b # s) = (if a = CHR 0x7D \<and> b = CHR 0x7D then Some 0 else map_option Suc (find_close (b # s)))"
| "find_close s = None"

abbreviation open_braces :: string where
  "open_braces \<equiv> [CHR 0x7B, CHR 0x7B]"

abbreviation close_braces :: string where
  "close_braces \<equiv> [CHR 0x7D, CHR 0x7D]"

text \<open>\<open>span\<close> is the literal text not yet written, \<open>rest\<close> the template from the current position.\<close>

function render_loop ::
  "('n, 't) EventLib \<Rightarrow> ('n, 't) Event \<Rightarrow> EscapeMode \<Rightarrow> string \<Rightarrow> string list \<Rightarrow> string \<Rightarrow> string \<Rightarrow> string \<times> string list" where
  "render_loop lib ev ctx out missing span rest =
     (if length rest < 2 then (out @ span @ rest, missing)
      else if take 2 rest = open_braces then
        (case find_close (drop 2 rest) of
           None \<Rightarrow> (out @ span @ rest, missing)
         | Some end_rel \<Rightarrow>
             let raw = trim (take end_rel (drop 2 rest)) in
             case lookup_field_str lib ev raw of
               Some v \<Rightarrow> render_loop lib ev ctx (out @ span @ append_escaped ctx v) missing [] (drop (end_rel + 4) rest)
             | None \<Rightarrow>
                 render_loop lib ev ctx (out @ span @ open_braces @ raw @ close_braces) (missing @ [raw]) [] (drop (end_rel + 4) rest))
      else render_loop lib ev ctx out missing (span @ [hd rest]) (tl rest))"
  by auto
termination
  by (relation "measure (\<lambda>(_, _, _, _, _, _, rest). length rest)") auto

declare render_loop.simps [simp del]

definition render_template_escaped :: "('n, 't) EventLib \<Rightarrow> string \<Rightarrow> ('n, 't) Event \<Rightarrow> EscapeMode \<Rightarrow> string \<times> string list" where
  "render_template_escaped lib template ev ctx = render_loop lib ev ctx [] [] [] template"

definition render_template :: "('n, 't) EventLib \<Rightarrow> string \<Rightarrow> ('n, 't) Event \<Rightarrow> string \<times> string list" where
  "render_template lib template ev = render_template_escaped lib template ev Esc_None"

section \<open>Readers of the formats\<close>

definition hex_value :: "char \<Rightarrow> nat option" where
  "hex_value c = to_digit 16 c"

text \<open>The content of a JSON string up to its closing quote, for the escapes of control characters and of one byte.\<close>

fun scan_json :: "string \<Rightarrow> (string \<times> string) option" where
  "scan_json [] = None"
| "scan_json (c # s) =
     (if c = CHR 0x22 then Some ([], s)
      else if (of_char c :: nat) < 0x20 then None
      else if c = backslash then
        (case s of
           [] \<Rightarrow> None
         | e # s' \<Rightarrow>
             if e = CHR ''u'' then
               (case s' of
                  z # y # h # l # s'' \<Rightarrow>
                    (case (hex_value z, hex_value y, hex_value h, hex_value l) of
                       (Some 0, Some 0, Some a, Some b) \<Rightarrow>
                         map_option (\<lambda>(v, r). (char_of (a * 16 + b) # v, r)) (scan_json s'')
                     | _ \<Rightarrow> None)
                | _ \<Rightarrow> None)
             else
               (case map_of [(CHR 0x22, CHR 0x22), (backslash, backslash), (CHR ''/'', CHR ''/''), (CHR ''n'', CHR 0x0A), (CHR ''r'', CHR 0x0D),
                             (CHR ''t'', CHR 0x09), (CHR ''b'', CHR 0x08), (CHR ''f'', CHR 0x0C)] e of
                  None \<Rightarrow> None
                | Some x \<Rightarrow> map_option (\<lambda>(v, r). (x # v, r)) (scan_json s')))
      else map_option (\<lambda>(v, r). (c # v, r)) (scan_json s))"

fun percent_decode :: "bool \<Rightarrow> string \<Rightarrow> string option" where
  "percent_decode form [] = Some []"
| "percent_decode form (c # s) =
     (if c = CHR ''%'' then
        (case s of
           h # l # s' \<Rightarrow>
             (case (hex_value h, hex_value l) of
                (Some a, Some b) \<Rightarrow> map_option (Cons (char_of (a * 16 + b))) (percent_decode form s')
              | _ \<Rightarrow> None)
         | _ \<Rightarrow> None)
      else if c = CHR ''+'' \<and> form then map_option (Cons (CHR '' '')) (percent_decode form s)
      else map_option (Cons c) (percent_decode form s))"

section \<open>Values stay data\<close>

lemma hex_value_digits: "d < 16 \<Longrightarrow> hex_value (hex_digit d) = Some d" "d < 16 \<Longrightarrow> hex_value (upper_hex d) = Some d"
  by (auto simp: hex_value_def hex_digit_def upper_hex_def to_digit_def Let_def)

lemma scan_json_char: "scan_json (json_escaped_char c @ s) = map_option (\<lambda>(v, r). (c # v, r)) (scan_json s)"
proof -
  have "unat (of_nat (of_char c) :: byte) = of_char c" by (simp add: unat_of_nat)
  moreover have "(of_char c :: nat) < 256" by simp
  moreover have "hex_value CHR ''0'' = Some 0" by (simp add: hex_value_def to_digit_def)
  ultimately show ?thesis
    by (auto simp: json_escaped_char_def hex02_def hex_value_digits backslash_def split: option.splits)
qed

lemma json_value_read: "scan_json (append_json_escaped v @ CHR 0x22 # rest) = Some (v, rest)"
  by (induction v) (simp_all add: append_json_escaped_def scan_json_char del: scan_json.simps(2), simp)

lemma percent_decode_char: "percent_decode form (percent_encoded_char form c @ s) = map_option (Cons c) (percent_decode form s)"
proof -
  have "(of_char c :: nat) < 256" by simp
  then have h: "hex_value (upper_hex (of_char c div 16)) = Some (of_char c div 16)" "hex_value (upper_hex (of_char c mod 16)) = Some (of_char c mod 16)"
    by (simp_all add: hex_value_digits(2) div_less_iff_less_mult)
  have c: "char_of (of_char c div 16 * 16 + of_char c mod 16 :: nat) = c" by (simp add: div_mult_mod_eq)
  have plain: "unreserved c \<Longrightarrow> c \<noteq> CHR ''%'' \<and> c \<noteq> CHR ''+''" by (auto simp: unreserved_def)
  consider "unreserved c" | "\<not> unreserved c" "c = CHR '' '' \<and> form" | "\<not> unreserved c" "\<not> (c = CHR '' '' \<and> form)" by blast
  then show ?thesis
  proof cases
    case 1
    then show ?thesis using plain by (simp add: percent_encoded_char_def)
  next
    case 3
    then show ?thesis using h c by (simp add: percent_encoded_char_def)
  qed (simp add: percent_encoded_char_def)
qed

lemma percent_value_read: "percent_decode form (append_percent_encoded form v) = Some v"
  by (induction v) (simp_all add: append_percent_encoded_def percent_decode_char del: percent_decode.simps(2))

lemma percent_chars: "c \<in> set (append_percent_encoded form v) \<Longrightarrow> unreserved c \<or> c = CHR ''%'' \<or> (form \<and> c = CHR ''+'')"
proof -
  assume "c \<in> set (append_percent_encoded form v)"
  then obtain x where x: "c \<in> set (percent_encoded_char form x)" by (auto simp: append_percent_encoded_def)
  have "unreserved (upper_hex d)" if "d < 16" for d
    using that by (simp add: unreserved_def upper_hex_def Let_def)
  moreover have "(of_char x :: nat) div 16 < 16" by (simp add: div_less_iff_less_mult)
  ultimately show ?thesis using x by (auto simp: percent_encoded_char_def split: if_splits)
qed

section \<open>Segments\<close>

text \<open>A template as literal text and fields.\<close>

datatype segment = Lit string | Field string

fun segment_source :: "segment \<Rightarrow> string" where
  "segment_source (Lit s) = s"
| "segment_source (Field f) = open_braces @ f @ close_braces"

definition segment_ok :: "segment \<Rightarrow> bool" where
  "segment_ok g = (case g of Lit s \<Rightarrow> CHR 0x7B \<notin> set s | Field f \<Rightarrow> CHR 0x7D \<notin> set f)"

fun segment_text :: "('n, 't) EventLib \<Rightarrow> ('n, 't) Event \<Rightarrow> EscapeMode \<Rightarrow> segment \<Rightarrow> string" where
  "segment_text lib ev ctx (Lit s) = s"
| "segment_text lib ev ctx (Field f) =
     (case lookup_field_str lib ev (trim f) of
        Some v \<Rightarrow> append_escaped ctx v
      | None \<Rightarrow> open_braces @ trim f @ close_braces)"

fun segment_missing :: "('n, 't) EventLib \<Rightarrow> ('n, 't) Event \<Rightarrow> segment \<Rightarrow> string list" where
  "segment_missing lib ev (Lit s) = []"
| "segment_missing lib ev (Field f) = (if lookup_field_str lib ev (trim f) = None then [trim f] else [])"

lemma find_close_exact: "CHR 0x7D \<notin> set f \<Longrightarrow> find_close (f @ close_braces @ t) = Some (length f)"
proof (induction f)
  case (Cons c f)
  obtain b s where "f @ close_braces @ t = b # s" by (cases "f @ close_braces @ t") auto
  then show ?case using Cons by auto
qed simp

lemma render_literal:
  "CHR 0x7B \<notin> set s \<Longrightarrow> render_loop lib ev ctx out missing span (s @ t) = render_loop lib ev ctx out missing (span @ s) t"
proof (induction s arbitrary: span)
  case (Cons c s)
  show ?case
  proof (cases "length ((c # s) @ t) < 2")
    case True
    then have "s = []" "t = []" by auto
    then show ?thesis by (simp add: render_loop.simps)
  next
    case False
    have neq: "take 2 ((c # s) @ t) \<noteq> open_braces" using Cons.prems by (auto simp: numeral_2_eq_2)
    have "render_loop lib ev ctx out missing span ((c # s) @ t) =
        render_loop lib ev ctx out missing (span @ [hd ((c # s) @ t)]) (tl ((c # s) @ t))"
      unfolding render_loop.simps [of lib ev ctx out missing span "(c # s) @ t"] if_not_P [OF False] if_not_P [OF neq] ..
    then show ?thesis using Cons by simp
  qed
qed simp

lemma render_field:
  assumes "CHR 0x7D \<notin> set f"
  shows "render_loop lib ev ctx out missing span (open_braces @ f @ close_braces @ t) =
    render_loop lib ev ctx (out @ span @ segment_text lib ev ctx (Field f)) (missing @ segment_missing lib ev (Field f)) [] t"
  by (subst render_loop.simps) (simp add: find_close_exact [OF assms, of t, simplified] Let_def numeral_eq_Suc split: option.split)

lemma render_segments:
  "\<forall>g \<in> set gs. segment_ok g \<Longrightarrow>
     render_loop lib ev ctx out missing span (concat (map segment_source gs)) =
       (out @ span @ concat (map (segment_text lib ev ctx) gs), missing @ concat (map (segment_missing lib ev) gs))"
proof (induction gs arbitrary: out missing span)
  case Nil
  then show ?case by (simp add: render_loop.simps)
next
  case (Cons g gs)
  show ?case
  proof (cases g)
    case (Lit s)
    then show ?thesis using Cons render_literal [of s lib ev ctx out missing span "concat (map segment_source gs)"] by (simp add: segment_ok_def)
  next
    case (Field f)
    then show ?thesis using Cons render_field [of f lib ev ctx out missing span "concat (map segment_source gs)"]
      by (simp add: segment_ok_def)
  qed
qed

section \<open>Properties\<close>


definition sample_event_lib :: "(nat, nat) EventLib" where
  "sample_event_lib = \<lparr>el_number_text = dec, el_value_text = (\<lambda>_. []), el_rfc3339 = dec\<rparr>"

definition sample_event :: "(nat, nat) Event" where
  "sample_event =
     \<lparr>ev_id = ''e1'', ev_ts = 0, ev_kind = ''profile.connected'', ev_severity = Sev_Info, ev_profile_id = Some ''a&b'',
      ev_forward_id = None, ev_session_id = None, ev_connection_id = None, ev_fields = [], ev_message = []\<rparr>"


end
