(* ===== verification/Event_Spool.thy ===== *)
theory Event_Spool
  imports Byte_Streams Std_Strings "HOL-Library.AList"
begin

text \<open>
  The bounded spool on disk of \<open>crates/spt-state/src/spool.rs\<close>, which keeps the events a sink could not take.  The directory is a
  list of named files; every operation returns the changes it makes to it, in the order the code makes them, so that a crash is a
  prefix of them with the last write torn.  What the calls of the file system answer is an input.
\<close>

section \<open>Files\<close>

type_synonym disk = "(string \<times> bytes) list"

datatype fs_op = Fs_Put string bytes | Fs_Move string string | Fs_Del string

fun fs_apply :: "disk \<Rightarrow> fs_op \<Rightarrow> disk" where
  "fs_apply d (Fs_Put n b) = AList.update n b d"
| "fs_apply d (Fs_Move a b) = (case map_of d a of None \<Rightarrow> d | Some x \<Rightarrow> AList.update b x (AList.delete a d))"
| "fs_apply d (Fs_Del n) = AList.delete n d"

abbreviation fs_run :: "disk \<Rightarrow> fs_op list \<Rightarrow> disk" where
  "fs_run \<equiv> foldl fs_apply"

datatype fs_call =
  Fs_MakeDir | Fs_Clean | Fs_List | Fs_Create string | Fs_Write string | Fs_Sync string | Fs_Rename string | Fs_Read string
  | Fs_Stat string | Fs_Unlink string

text \<open>Which calls fail and with what text, and how much of a failing write is stored.\<close>

record FsFaults =
  ff_error :: "fs_call \<Rightarrow> string option"
  ff_stored :: nat

definition fs_read :: "FsFaults \<Rightarrow> disk \<Rightarrow> string \<Rightarrow> (string, bytes) result" where
  "fs_read flt d n =
     (case ff_error flt (Fs_Read n) of
        Some e \<Rightarrow> Inl e
      | None \<Rightarrow> (case map_of d n of Some b \<Rightarrow> Inr b | None \<Rightarrow> Inl ''No such file or directory (os error 2)''))"

definition fs_size :: "FsFaults \<Rightarrow> disk \<Rightarrow> string \<Rightarrow> nat" where
  "fs_size flt d n =
     (case ff_error flt (Fs_Stat n) of
        Some _ \<Rightarrow> 0
      | None \<Rightarrow> (case map_of d n of Some b \<Rightarrow> length b | None \<Rightarrow> 0))"

definition fs_unlink :: "FsFaults \<Rightarrow> string \<Rightarrow> fs_op list" where
  "fs_unlink flt n = (case ff_error flt (Fs_Unlink n) of Some _ \<Rightarrow> [] | None \<Rightarrow> [Fs_Del n])"

section \<open>Names\<close>

definition SEQ_WIDTH :: nat where
  "SEQ_WIDTH = 20"

definition padded :: "nat \<Rightarrow> string" where
  "padded seq = replicate (SEQ_WIDTH - length (dec seq)) CHR ''0'' @ dec seq"

definition path_for :: "nat \<Rightarrow> string" where
  "path_for seq = padded seq @ ''.bin''"

definition tmp_path_for :: "nat \<Rightarrow> string" where
  "tmp_path_for seq = padded seq @ ''.bin.tmp''"

definition poison_path_for :: "nat \<Rightarrow> string" where
  "poison_path_for seq = padded seq @ ''.bin.poison''"

definition seq_of :: "string \<Rightarrow> nat option" where
  "seq_of name =
     (case strip_suffix ''.bin'' name of
        None \<Rightarrow> None
      | Some stem \<Rightarrow> if length stem = SEQ_WIDTH then parse_uint u64_max stem else None)"

section \<open>The spool\<close>

record SpoolConfig =
  sc_max_bytes :: nat
  sc_max_files :: nat

definition default_spool_config :: SpoolConfig where
  "default_spool_config = \<lparr>sc_max_bytes = 64 * 1024 * 1024, sc_max_files = 10000\<rparr>"

record SpoolEntry =
  se_payload :: bytes
  se_seq :: nat
  se_path :: string

record DiskSpool =
  sp_dir :: string
  sp_cfg :: SpoolConfig
  sp_queue :: "nat list"
  sp_total_bytes :: nat
  sp_next_seq :: nat

definition spool_path :: "string \<Rightarrow> string \<Rightarrow> string" where
  "spool_path dir name = dir @ ''/'' @ name"

abbreviation lock_failed :: "string \<Rightarrow> string \<Rightarrow> (fault, 'a) result" where
  "lock_failed path reason \<equiv> Inl (Failed (Err_StateLockFailed path reason))"

definition leftover_tmp :: "FsFaults \<Rightarrow> disk \<Rightarrow> fs_op list" where
  "leftover_tmp flt d =
     (case ff_error flt Fs_Clean of
        Some _ \<Rightarrow> []
      | None \<Rightarrow> concat (map (\<lambda>(n, _). if strip_suffix ''.bin.tmp'' n \<noteq> None then fs_unlink flt n else []) d))"

definition listed :: "FsFaults \<Rightarrow> disk \<Rightarrow> (nat \<times> nat) list" where
  "listed flt d =
     (case ff_error flt Fs_List of
        Some _ \<Rightarrow> []
      | None \<Rightarrow> List.map_filter (\<lambda>(n, _). map_option (\<lambda>seq. (seq, fs_size flt d n)) (seq_of n)) d)"

definition spool_open :: "FsFaults \<Rightarrow> disk \<Rightarrow> string \<Rightarrow> SpoolConfig \<Rightarrow> (fault, DiskSpool) result \<times> fs_op list" where
  "spool_open flt d dir cfg =
     (case ff_error flt Fs_MakeDir of
        Some e \<Rightarrow> (lock_failed dir (''create spool dir: '' @ e), [])
      | None \<Rightarrow>
          let ops = leftover_tmp flt d;
              entries = sort_key fst (listed flt (fs_run d ops))
          in if entries \<noteq> [] \<and> fst (last entries) = u64_max then (Inl Panic, ops)
             else (Inr \<lparr>sp_dir = dir, sp_cfg = cfg, sp_queue = map fst entries, sp_total_bytes = sum_list (map snd entries),
                        sp_next_seq = (if entries = [] then 1 else fst (last entries) + 1)\<rparr>, ops))"

definition discard :: "FsFaults \<Rightarrow> disk \<Rightarrow> nat \<Rightarrow> nat \<times> fs_op list" where
  "discard flt d seq = (fs_size flt d (path_for seq), fs_unlink flt (path_for seq))"

text \<open>The loops of \<open>evict_to_fit\<close>: \<open>evict_oldest\<close> while the cap is not met and the queue not empty.\<close>

fun evict_while :: "(nat list \<Rightarrow> nat \<Rightarrow> bool) \<Rightarrow> FsFaults \<Rightarrow> disk \<Rightarrow> nat list \<Rightarrow> nat \<Rightarrow> nat list \<times> nat \<times> fs_op list" where
  "evict_while over flt d [] held = ([], held, [])"
| "evict_while over flt d (seq # queue) held =
     (if over (seq # queue) held then
        let (size, ops) = discard flt d seq;
            (queue', held', ops') = evict_while over flt (fs_run d ops) queue (held - size)
        in (queue', held', ops @ ops')
      else (seq # queue, held, []))"

definition evict_to_fit :: "FsFaults \<Rightarrow> disk \<Rightarrow> DiskSpool \<Rightarrow> nat \<Rightarrow> DiskSpool \<times> fs_op list" where
  "evict_to_fit flt d s incoming =
     (let cfg = sp_cfg s;
          (queue, held, ops) =
            evict_while (\<lambda>queue _. 0 < sc_max_files cfg \<and> sc_max_files cfg \<le> length queue) flt d (sp_queue s) (sp_total_bytes s);
          (queue, held, ops') =
            evict_while (\<lambda>_ held. 0 < sc_max_bytes cfg \<and> sc_max_bytes cfg < held + incoming) flt (fs_run d ops) queue held
      in (s\<lparr>sp_queue := queue, sp_total_bytes := held\<rparr>, ops @ ops'))"

definition write_entry :: "FsFaults \<Rightarrow> string \<Rightarrow> nat \<Rightarrow> bytes \<Rightarrow> (fault, unit) result \<times> fs_op list" where
  "write_entry flt dir seq payload =
     (let tmp = tmp_path_for seq; final = path_for seq in
      case ff_error flt (Fs_Create tmp) of
        Some e \<Rightarrow> (lock_failed (spool_path dir tmp) (''spool create tmp: '' @ e), [])
      | None \<Rightarrow>
          (case ff_error flt (Fs_Write tmp) of
             Some e \<Rightarrow> (lock_failed (spool_path dir tmp) (''spool write tmp: '' @ e), [Fs_Put tmp [], Fs_Put tmp (take (ff_stored flt) payload)])
           | None \<Rightarrow>
               (case ff_error flt (Fs_Sync tmp) of
                  Some e \<Rightarrow> (lock_failed (spool_path dir tmp) (''spool fsync tmp: '' @ e), [Fs_Put tmp [], Fs_Put tmp payload])
                | None \<Rightarrow>
                    (case ff_error flt (Fs_Rename final) of
                       Some e \<Rightarrow> (lock_failed (spool_path dir final) (''spool rename: '' @ e), [Fs_Put tmp [], Fs_Put tmp payload])
                     | None \<Rightarrow> (Inr (), [Fs_Put tmp [], Fs_Put tmp payload, Fs_Move tmp final])))))"

definition push :: "FsFaults \<Rightarrow> disk \<Rightarrow> DiskSpool \<Rightarrow> bytes \<Rightarrow> (fault, nat) result \<times> DiskSpool \<times> fs_op list" where
  "push flt d s payload =
     (let size = length payload; cap = sc_max_bytes (sp_cfg s) in
      if 0 < cap \<and> cap < size
      then (runtime (''spool payload '' @ dec size @ '' bytes exceeds max_bytes '' @ dec cap @ '' cap''), s, [])
      else
        let (s, ops) = evict_to_fit flt d s size;
            seq = sp_next_seq s
        in if seq = u64_max then (runtime ''spool sequence number overflow'', s, ops)
           else
             let s = s\<lparr>sp_next_seq := seq + 1\<rparr>;
                 (written, ops') = write_entry flt (sp_dir s) seq payload
             in case written of
                  Inl e \<Rightarrow> (Inl e, s, ops @ ops')
                | Inr _ \<Rightarrow>
                    (Inr seq, s\<lparr>sp_queue := sp_queue s @ [seq], sp_total_bytes := sp_total_bytes s + size\<rparr>, ops @ ops'))"

definition pop :: "FsFaults \<Rightarrow> disk \<Rightarrow> DiskSpool \<Rightarrow> (fault, SpoolEntry option) result \<times> DiskSpool \<times> fs_op list" where
  "pop flt d s =
     (case sp_queue s of
        [] \<Rightarrow> (Inr None, s, [])
      | seq # queue \<Rightarrow>
          let s = s\<lparr>sp_queue := queue\<rparr>; path = path_for seq in
          case fs_read flt d path of
            Inl e \<Rightarrow> (lock_failed (spool_path (sp_dir s) path) (''spool read: '' @ e), s, [])
          | Inr payload \<Rightarrow>
              (Inr (Some \<lparr>se_payload = payload, se_seq = seq, se_path = spool_path (sp_dir s) path\<rparr>),
               s\<lparr>sp_total_bytes := sp_total_bytes s - length payload\<rparr>, fs_unlink flt path))"

definition peek :: "FsFaults \<Rightarrow> disk \<Rightarrow> DiskSpool \<Rightarrow> (fault, SpoolEntry option) result" where
  "peek flt d s =
     (case sp_queue s of
        [] \<Rightarrow> Inr None
      | seq # _ \<Rightarrow>
          let path = path_for seq in
          case fs_read flt d path of
            Inl e \<Rightarrow> lock_failed (spool_path (sp_dir s) path) (''spool peek read: '' @ e)
          | Inr payload \<Rightarrow> Inr (Some \<lparr>se_payload = payload, se_seq = seq, se_path = spool_path (sp_dir s) path\<rparr>))"

definition spool_remove :: "FsFaults \<Rightarrow> disk \<Rightarrow> DiskSpool \<Rightarrow> nat \<Rightarrow> bool \<times> DiskSpool \<times> fs_op list" where
  "spool_remove flt d s seq =
     (if sp_queue s = [] \<or> hd (sp_queue s) \<noteq> seq then (False, s, [])
      else let (size, ops) = discard flt d seq
           in (True, s\<lparr>sp_queue := tl (sp_queue s), sp_total_bytes := sp_total_bytes s - size\<rparr>, ops))"

definition quarantine :: "FsFaults \<Rightarrow> disk \<Rightarrow> DiskSpool \<Rightarrow> nat \<Rightarrow> bool \<times> DiskSpool \<times> fs_op list" where
  "quarantine flt d s seq =
     (if sp_queue s = [] \<or> hd (sp_queue s) \<noteq> seq then (False, s, [])
      else let path = path_for seq;
               size = fs_size flt d path;
               ops = (if ff_error flt (Fs_Rename (poison_path_for seq)) \<noteq> None \<or> map_of d path = None
                      then fs_unlink flt path else [Fs_Move path (poison_path_for seq)])
           in (True, s\<lparr>sp_queue := tl (sp_queue s), sp_total_bytes := sp_total_bytes s - size\<rparr>, ops))"

definition spool_len :: "DiskSpool \<Rightarrow> nat" where
  "spool_len s = length (sp_queue s)"

definition spool_is_empty :: "DiskSpool \<Rightarrow> bool" where
  "spool_is_empty s \<longleftrightarrow> sp_queue s = []"

section \<open>Names and sequence numbers\<close>

lemma length_dec_le: "n < 10 ^ Suc k \<Longrightarrow> length (dec n) \<le> Suc k"
proof (induction k arbitrary: n)
  case 0
  then show ?case by (subst dec.simps) simp
next
  case (Suc k)
  then have "n div 10 < 10 ^ Suc k" by (simp add: less_mult_imp_div_less mult.commute)
  then show ?case using Suc.IH by (subst dec.simps) simp
qed

lemma length_padded: "seq \<le> u64_max \<Longrightarrow> length (padded seq) = 20"
  using length_dec_le [of seq 19] by (simp add: padded_def SEQ_WIDTH_def u64_max_def)

lemma checked_zeros: "checked_digits mx 0 (replicate k CHR ''0'' @ s) = checked_digits mx 0 s"
  by (induction k) (simp_all add: to_digit_def)

lemma parse_padded: "seq \<le> u64_max \<Longrightarrow> parse_uint u64_max (padded seq) = Some seq"
proof -
  assume le: "seq \<le> u64_max"
  obtain c cs where c: "padded seq = c # cs" using length_padded [OF le] by (cases "padded seq") auto
  have "CHR ''+'' \<notin> set (padded seq)" by (simp add: padded_def)
  then have "c \<noteq> CHR ''+''" using c by auto
  moreover have "checked_digits u64_max 0 (padded seq) = Some seq"
    unfolding padded_def checked_zeros by (rule checked_digits_dec [OF le])
  ultimately show ?thesis using c by (simp add: parse_uint_def)
qed

lemma seq_of_path [simp]: "seq \<le> u64_max \<Longrightarrow> seq_of (path_for seq) = Some seq"
  by (simp add: seq_of_def path_for_def strip_suffix_def strip_prefix_def length_padded parse_padded SEQ_WIDTH_def)

lemma seq_of_aside [simp]: "seq_of (tmp_path_for seq) = None" "seq_of (poison_path_for seq) = None"
  by (simp_all add: seq_of_def tmp_path_for_def poison_path_for_def strip_suffix_def strip_prefix_def)

lemma path_for_inj: "p \<le> u64_max \<Longrightarrow> q \<le> u64_max \<Longrightarrow> path_for p = path_for q \<longleftrightarrow> p = q"
  by (metis option.inject seq_of_path)

lemma path_for_aside [simp]:
  "q \<le> u64_max \<Longrightarrow> path_for q \<noteq> tmp_path_for p" "q \<le> u64_max \<Longrightarrow> path_for q \<noteq> poison_path_for p"
  "q \<le> u64_max \<Longrightarrow> tmp_path_for p \<noteq> path_for q" "q \<le> u64_max \<Longrightarrow> poison_path_for p \<noteq> path_for q"
  by (metis option.distinct(1) seq_of_aside seq_of_path)+

section \<open>The directory as numbered entries\<close>

definition bin :: "disk \<Rightarrow> nat \<Rightarrow> bytes option" where
  "bin d q = (if q \<le> u64_max then map_of d (path_for q) else None)"

text \<open>Every file that looks like an entry is the one of its number.\<close>

definition canonical :: "disk \<Rightarrow> bool" where
  "canonical d \<longleftrightarrow> distinct (map fst d) \<and> (\<forall>n \<in> fst ` set d. \<forall>q. seq_of n = Some q \<longrightarrow> n = path_for q)"

definition live :: "disk \<Rightarrow> nat list" where
  "live d = sorted_list_of_set (dom (bin d))"

lemma finite_bins [simp]: "finite (dom (bin d))"
  by (rule finite_subset [of _ "{..u64_max}"]) (auto simp: bin_def split: if_splits)

lemma set_live [simp]: "set (live d) = dom (bin d)"
  by (simp add: live_def)

lemma live_sorted [simp]: "sorted (live d)" "distinct (live d)"
  by (simp_all add: live_def)

lemma live_unique: "sorted qs \<Longrightarrow> distinct qs \<Longrightarrow> set qs = dom (bin d) \<Longrightarrow> live d = qs"
  by (rule sorted_distinct_set_unique) simp_all

lemma map_of_apply:
  "map_of (fs_apply d (Fs_Put n b)) = (map_of d)(n \<mapsto> b)"
  "map_of (fs_apply d (Fs_Del n)) = (map_of d)(n := None)"
  "map_of d a = Some x \<Longrightarrow> map_of (fs_apply d (Fs_Move a z)) = (map_of d)(a := None, z \<mapsto> x)"
  by (simp_all add: update_conv' delete_conv')

lemma bin_apply:
  "bin (fs_apply d (Fs_Put (tmp_path_for p) b)) = bin d"
  "p \<le> u64_max \<Longrightarrow> bin (fs_apply d (Fs_Del (path_for p))) = (bin d)(p := None)"
  "p \<le> u64_max \<Longrightarrow> map_of d (tmp_path_for p) = Some x \<Longrightarrow> bin (fs_apply d (Fs_Move (tmp_path_for p) (path_for p))) = (bin d)(p \<mapsto> x)"
  "p \<le> u64_max \<Longrightarrow> bin d p = Some x \<Longrightarrow> bin (fs_apply d (Fs_Move (path_for p) (poison_path_for p))) = (bin d)(p := None)"
  by (auto simp: bin_def fun_eq_iff map_of_apply path_for_inj simp del: fs_apply.simps)

lemma fst_apply:
  "fst ` set (fs_apply d (Fs_Put n b)) = insert n (fst ` set d)"
  "fst ` set (fs_apply d (Fs_Del n)) = fst ` set d - {n}"
  "fst ` set (fs_apply d (Fs_Move a z)) \<subseteq> insert z (fst ` set d)"
  unfolding dom_map_of_conv_image_fst [symmetric] by (auto simp: update_conv' delete_conv' split: option.splits if_splits)

lemma distinct_apply: "distinct (map fst d) \<Longrightarrow> distinct (map fst (fs_apply d op))"
  by (cases op) (auto simp: distinct_update distinct_delete split: option.splits)

declare fs_apply.simps [simp del]

lemma canonical_names:
  assumes "canonical d" "distinct (map fst d')" "fst ` set d' \<subseteq> insert n (fst ` set d)" "\<And>q. seq_of n = Some q \<Longrightarrow> n = path_for q"
  shows "canonical d'"
  using assms unfolding canonical_def by blast

lemma canonical_apply:
  assumes "canonical d"
  shows "canonical (fs_apply d (Fs_Put (tmp_path_for p) b))"
    "canonical (fs_apply d (Fs_Del n))"
    "p \<le> u64_max \<Longrightarrow> canonical (fs_apply d (Fs_Move a (path_for p)))"
    "canonical (fs_apply d (Fs_Move a (poison_path_for p)))"
proof -
  have "distinct (map fst (fs_apply d op))" for op using assms by (simp add: canonical_def distinct_apply)
  note names = canonical_names [OF assms this]
  show "canonical (fs_apply d (Fs_Put (tmp_path_for p) b))"
    by (rule names [of _ "tmp_path_for p"]) (use fst_apply(1) [of d] in auto)
  show "canonical (fs_apply d (Fs_Del n))"
    by (rule names [of _ "tmp_path_for p"]) (use fst_apply(2) [of d] in auto)
  show "canonical (fs_apply d (Fs_Move a (path_for p)))" if "p \<le> u64_max"
    by (rule names [OF fst_apply(3)]) (use that in simp)
  show "canonical (fs_apply d (Fs_Move a (poison_path_for p)))"
    by (rule names [OF fst_apply(3)]) simp
qed

section \<open>Reopening\<close>

definition no_faults :: FsFaults where
  "no_faults = \<lparr>ff_error = \<lambda>_. None, ff_stored = 0\<rparr>"

lemma no_faults_simps [simp]:
  "ff_error no_faults c = None" "fs_unlink no_faults n = [Fs_Del n]"
  by (simp_all add: no_faults_def fs_unlink_def)

lemma fs_size_bin: "q \<le> u64_max \<Longrightarrow> fs_size no_faults d (path_for q) = (case bin d q of Some b \<Rightarrow> length b | None \<Rightarrow> 0)"
  by (simp add: fs_size_def bin_def)

definition sizes :: "disk \<Rightarrow> nat list \<Rightarrow> nat" where
  "sizes d qs = sum_list (map (\<lambda>q. length (the (bin d q))) qs)"

lemma distinct_map_filter:
  assumes "distinct (map fst d)" "\<And>n n' q. n \<in> fst ` set d \<Longrightarrow> n' \<in> fst ` set d \<Longrightarrow> g n = Some q \<Longrightarrow> g n' = Some q \<Longrightarrow> n = n'"
  shows "distinct (map fst (List.map_filter (\<lambda>(n, _). map_option (\<lambda>q. (q, f n)) (g n)) d))"
  using assms
proof (induction d)
  case (Cons x d)
  have mem: "q \<in> fst ` set (List.map_filter (\<lambda>(n, _). map_option (\<lambda>q. (q, f n)) (g n)) d) \<Longrightarrow> \<exists>n \<in> fst ` set d. g n = Some q" for q
    by (force simp: List.map_filter_def)
  obtain n b where x: "x = (n, b)" by (cases x)
  have IH: "distinct (map fst (List.map_filter (\<lambda>(n, _). map_option (\<lambda>q. (q, f n)) (g n)) d))"
  proof (rule Cons.IH)
    show "distinct (map fst d)" using Cons.prems(1) by simp
    show "n = n'" if "n \<in> fst ` set d" "n' \<in> fst ` set d" "g n = Some q" "g n' = Some q" for n n' q
      by (rule Cons.prems(2) [OF _ _ that(3,4)]) (use that(1,2) in auto)
  qed
  show ?case
  proof (cases "g n")
    case None
    then show ?thesis using IH x by (simp add: map_filter_simps)
  next
    case (Some q)
    have "q \<notin> fst ` set (List.map_filter (\<lambda>(n, _). map_option (\<lambda>q. (q, f n)) (g n)) d)"
    proof
      assume "q \<in> fst ` set (List.map_filter (\<lambda>(n, _). map_option (\<lambda>q. (q, f n)) (g n)) d)"
      then obtain n' where "n' \<in> fst ` set d" "g n' = Some q" using mem by blast
      then have "n = n'" using Cons.prems(2) [of n n' q] Some x by simp
      then show False using Cons.prems(1) x \<open>n' \<in> fst ` set d\<close> by simp
    qed
    then show ?thesis using IH x Some by (simp add: map_filter_simps)
  qed
qed (simp add: List.map_filter_def)

lemma listed_canonical:
  assumes "canonical d"
  shows "distinct (map fst (listed no_faults d))" "fst ` set (listed no_faults d) = dom (bin d)"
    "\<And>q sz. (q, sz) \<in> set (listed no_faults d) \<Longrightarrow> sz = length (the (bin d q))"
proof -
  have listed: "listed no_faults d = List.map_filter (\<lambda>(n, _). map_option (\<lambda>q. (q, fs_size no_faults d n)) (seq_of n)) d"
    by (simp add: listed_def)
  have name: "n = path_for q \<and> q \<le> u64_max" if "(n, b) \<in> set d" "seq_of n = Some q" for n b q
  proof -
    have "n = path_for q" using assms that by (force simp: canonical_def)
    moreover have "q \<le> u64_max" using that(2) by (auto simp: seq_of_def split: option.splits if_splits dest: parse_uint_le)
    ultimately show ?thesis by simp
  qed
  have mem: "(q, sz) \<in> set (listed no_faults d) \<longleftrightarrow> (\<exists>n b. (n, b) \<in> set d \<and> seq_of n = Some q \<and> sz = fs_size no_faults d n)" for q sz
    unfolding listed by (force simp: List.map_filter_def)
  show "sz = length (the (bin d q))" if lst: "(q, sz) \<in> set (listed no_faults d)" for q sz
  proof -
    obtain n b where n: "(n, b) \<in> set d" "seq_of n = Some q" "sz = fs_size no_faults d n" using lst mem by blast
    then have "n = path_for q" "q \<le> u64_max" using name by blast+
    moreover have "map_of d n = Some b" using n(1) assms by (simp add: canonical_def)
    ultimately show ?thesis using n(3) by (simp add: fs_size_def bin_def)
  qed
  show "fst ` set (listed no_faults d) = dom (bin d)"
  proof (intro set_eqI iffI)
    fix q assume "q \<in> fst ` set (listed no_faults d)"
    then obtain n b where n: "(n, b) \<in> set d" "seq_of n = Some q" using mem by fastforce
    then have "n = path_for q" "q \<le> u64_max" using name by blast+
    moreover have "map_of d n = Some b" using n(1) assms by (simp add: canonical_def)
    ultimately show "q \<in> dom (bin d)" by (simp add: bin_def domIff)
  next
    fix q assume "q \<in> dom (bin d)"
    then obtain b where "q \<le> u64_max" "map_of d (path_for q) = Some b" by (auto simp: bin_def split: if_splits)
    then have "(q, fs_size no_faults d (path_for q)) \<in> set (listed no_faults d)" 
      unfolding mem by (intro exI [of _ "path_for q"] exI [of _ b]) (auto dest: map_of_SomeD)
    then show "q \<in> fst ` set (listed no_faults d)" by force
  qed
  show "distinct (map fst (listed no_faults d))" unfolding listed
  proof (rule distinct_map_filter)
    show "n = n'" if "n \<in> fst ` set d" "n' \<in> fst ` set d" "seq_of n = Some q" "seq_of n' = Some q" for n n' q
      using that assms unfolding canonical_def by metis
  qed (use assms in \<open>simp add: canonical_def\<close>)
qed

lemma unlink_aside:
  assumes "\<forall>op \<in> set ops. \<exists>n. op = Fs_Del n \<and> seq_of n = None" "canonical d"
  shows "bin (fs_run d ops) = bin d \<and> canonical (fs_run d ops)"
  using assms
proof (induction ops arbitrary: d)
  case (Cons op ops)
  then obtain n where n: "op = Fs_Del n" "seq_of n = None" by auto
  then have "path_for q \<noteq> n" if "q \<le> u64_max" for q using that by auto
  then have "bin (fs_apply d op) = bin d" unfolding n(1) by (auto simp: bin_def fun_eq_iff map_of_apply)
  moreover have "canonical (fs_apply d op)" using Cons.prems(2) n(1) by (simp add: canonical_apply(2))
  ultimately show ?case using Cons.IH [of "fs_apply d op"] Cons.prems(1) by simp
qed simp

lemma tmp_no_seq: "strip_suffix ''.bin.tmp'' n \<noteq> None \<Longrightarrow> seq_of n = None"
proof -
  assume "strip_suffix ''.bin.tmp'' n \<noteq> None"
  then have "take (length ''pmt.nib.'') (rev n) = ''pmt.nib.''" by (auto simp: strip_suffix_def strip_prefix_def split: if_splits)
  then obtain t where "rev n = ''pmt.nib.'' @ t" by (metis append_take_drop_id)
  then show ?thesis by (simp add: seq_of_def strip_suffix_def strip_prefix_def)
qed

lemma sorted_le_last: "sorted xs \<Longrightarrow> x \<in> set xs \<Longrightarrow> x \<le> last (xs :: nat list)"
  by (induction xs) auto

lemma reopen:
  assumes "canonical d" "u64_max \<notin> dom (bin d)"
  obtains s ops where "spool_open no_faults d dir cfg = (Inr s, ops)" "sp_queue s = live d" "sp_cfg s = cfg" "sp_dir s = dir"
    "bin (fs_run d ops) = bin d" "canonical (fs_run d ops)" "sp_total_bytes s = sizes d (live d)"
    "\<forall>q \<in> set (live d). q < sp_next_seq s" "sp_next_seq s \<le> u64_max"
proof -
  let ?ops = "leftover_tmp no_faults d"
  let ?d = "fs_run d ?ops"
  let ?es = "sort_key fst (listed no_faults ?d)"
  have "\<forall>op \<in> set ?ops. \<exists>n. op = Fs_Del n \<and> seq_of n = None" by (auto simp: leftover_tmp_def tmp_no_seq split: if_splits)
  then have d: "bin ?d = bin d" "canonical ?d" using unlink_aside [OF _ assms(1)] by blast+
  note listed = listed_canonical [OF d(2)]
  have queue: "map fst ?es = live d"
  proof (rule live_unique [symmetric])
    show "sorted (map fst ?es)" by simp
    show "distinct (map fst ?es)" using listed(1) by (simp add: distinct_map)
    show "set (map fst ?es) = dom (bin d)" using listed(2) d(1) by simp
  qed
  have "map snd ?es = map (\<lambda>q. length (the (bin d q))) (map fst ?es)" 
    unfolding map_map by (rule map_cong [OF refl]) (use listed(3) d(1) in auto)
  then have total: "sum_list (map snd ?es) = sizes d (live d)" unfolding queue sizes_def by simp
  have last: "?es = [] \<longleftrightarrow> live d = []" "?es \<noteq> [] \<Longrightarrow> fst (last ?es) = last (live d)" using queue by (auto simp: last_map [symmetric])
  let ?s = "\<lparr>sp_dir = dir, sp_cfg = cfg, sp_queue = map fst ?es, sp_total_bytes = sum_list (map snd ?es),
    sp_next_seq = if ?es = [] then 1 else fst (last ?es) + 1\<rparr>"
  have below: "q < u64_max" if "q \<in> set (live d)" for q
    using that assms(2) by (cases "q = u64_max") (auto simp: bin_def split: if_splits)
  have max: "\<forall>q \<in> set (live d). q \<le> last (live d)"
    using sorted_le_last [OF live_sorted(1)] by blast
  have lt: "last (live d) < u64_max" if "live d \<noteq> []" using below [OF last_in_set [OF that]] .
  have "spool_open no_faults d dir cfg = (Inr ?s, ?ops)"
    using last lt by (auto simp: spool_open_def Let_def)
  moreover have "\<forall>q \<in> set (live d). q < sp_next_seq ?s" using last max
    by (cases "live d = []") (auto simp: less_Suc_eq_le simp del: set_live)
  moreover have "sp_next_seq ?s \<le> u64_max" using last lt by (auto simp: u64_max_def)
  ultimately show ?thesis using that [of ?s ?ops] d queue total by simp
qed

section \<open>What the operations keep\<close>

text \<open>Whatever fails, every queued number has its file, and the queue is in order.\<close>

definition stored :: "DiskSpool \<Rightarrow> disk \<Rightarrow> bool" where
  "stored s d \<longleftrightarrow> sorted_wrt (<) (sp_queue s) \<and> (\<forall>q \<in> set (sp_queue s). q < sp_next_seq s \<and> bin d q \<noteq> None)
     \<and> sp_next_seq s \<le> u64_max"

definition payloads :: "DiskSpool \<Rightarrow> disk \<Rightarrow> bytes list" where
  "payloads s d = map (\<lambda>q. the (bin d q)) (sp_queue s)"

lemma stored_seq: "stored s d \<Longrightarrow> q \<in> set (sp_queue s) \<Longrightarrow> q \<le> u64_max"
  by (auto simp: stored_def)

lemma evict_while_shape:
  assumes "\<forall>q \<in> set queue. q \<le> u64_max" "distinct queue"
  shows "\<exists>k held' ops. evict_while over flt d queue held = (drop k queue, held', ops) \<and> k \<le> length queue
    \<and> (\<forall>q. q \<notin> set (take k queue) \<longrightarrow> bin (fs_run d ops) q = bin d q)
    \<and> (\<forall>op \<in> set ops. \<exists>q \<in> set (take k queue). op = Fs_Del (path_for q))"
  using assms
proof (induction queue arbitrary: d held)
  case (Cons q queue)
  show ?case
  proof (cases "over (q # queue) held")
    case True
    obtain sz ops where dis: "discard flt d q = (sz, ops)" by (cases "discard flt d q")
    then have ops: "ops = [] \<or> ops = [Fs_Del (path_for q)]" by (auto simp: discard_def fs_unlink_def split: option.splits)
    then have bins: "bin (fs_run d ops) p = bin d p" if "p \<noteq> q" for p
      using that Cons.prems(1) bin_apply(2) [of q d] by auto
    obtain k held' ops' where ev: "evict_while over flt (fs_run d ops) queue (held - sz) = (drop k queue, held', ops')" "k \<le> length queue"
      "\<forall>p. p \<notin> set (take k queue) \<longrightarrow> bin (fs_run (fs_run d ops) ops') p = bin (fs_run d ops) p"
      "\<forall>op \<in> set ops'. \<exists>q \<in> set (take k queue). op = Fs_Del (path_for q)"
      using Cons.IH [of "fs_run d ops" "held - sz"] Cons.prems by auto
    show ?thesis
      by (rule exI [of _ "Suc k"], rule exI [of _ held'], rule exI [of _ "ops @ ops'"])
        (use True dis ev bins ops in auto)
  next
    case False
    then show ?thesis by (simp add: exI [of _ 0])
  qed
qed simp

lemma evict_to_fit_shape:
  assumes "stored s d"
  obtains k held ops where "evict_to_fit flt d s n = (s\<lparr>sp_queue := drop k (sp_queue s), sp_total_bytes := held\<rparr>, ops)"
    "k \<le> length (sp_queue s)" "\<forall>q \<in> set (drop k (sp_queue s)). bin (fs_run d ops) q = bin d q"
    "\<forall>op \<in> set ops. \<exists>q \<in> set (take k (sp_queue s)). op = Fs_Del (path_for q)"
proof -
  have q: "\<forall>q \<in> set (sp_queue s). q \<le> u64_max" "distinct (sp_queue s)"
    using assms by (auto simp: stored_def strict_sorted_iff)
  obtain k1 h1 ops1 where e1: "evict_while (\<lambda>queue _. 0 < sc_max_files (sp_cfg s) \<and> sc_max_files (sp_cfg s) \<le> length queue) flt d
      (sp_queue s) (sp_total_bytes s) = (drop k1 (sp_queue s), h1, ops1)" "k1 \<le> length (sp_queue s)"
    "\<forall>q. q \<notin> set (take k1 (sp_queue s)) \<longrightarrow> bin (fs_run d ops1) q = bin d q"
    "\<forall>op \<in> set ops1. \<exists>q \<in> set (take k1 (sp_queue s)). op = Fs_Del (path_for q)"
    using evict_while_shape [OF q] by blast
  let ?q = "drop k1 (sp_queue s)"
  have q': "\<forall>q \<in> set ?q. q \<le> u64_max" "distinct ?q" using q by (auto dest: in_set_dropD)
  obtain k2 h2 ops2 where e2: "evict_while (\<lambda>_ held. 0 < sc_max_bytes (sp_cfg s) \<and> sc_max_bytes (sp_cfg s) < held + n) flt (fs_run d ops1)
      ?q h1 = (drop k2 ?q, h2, ops2)" "k2 \<le> length ?q"
    "\<forall>q. q \<notin> set (take k2 ?q) \<longrightarrow> bin (fs_run (fs_run d ops1) ops2) q = bin (fs_run d ops1) q"
    "\<forall>op \<in> set ops2. \<exists>q \<in> set (take k2 ?q). op = Fs_Del (path_for q)"
    using evict_while_shape [OF q'] by blast
  have split: "set (take (k1 + k2) (sp_queue s)) = set (take k1 (sp_queue s)) \<union> set (take k2 ?q)" by (simp add: take_add)
  show thesis
  proof (rule that [of h2 "k1 + k2" "ops1 @ ops2"])
    show "evict_to_fit flt d s n = (s\<lparr>sp_queue := drop (k1 + k2) (sp_queue s), sp_total_bytes := h2\<rparr>, ops1 @ ops2)"
      using e1(1) e2(1) by (simp add: evict_to_fit_def Let_def add.commute)
    show "k1 + k2 \<le> length (sp_queue s)" using e1(2) e2(2) by simp
    show "\<forall>q \<in> set (drop (k1 + k2) (sp_queue s)). bin (fs_run d (ops1 @ ops2)) q = bin d q"
    proof
      fix p assume "p \<in> set (drop (k1 + k2) (sp_queue s))"
      then have "p \<notin> set (take (k1 + k2) (sp_queue s))" using set_take_disj_set_drop_if_distinct [OF q(2)] by blast
      then show "bin (fs_run d (ops1 @ ops2)) p = bin d p" using e1(3) e2(3) split by simp
    qed
    show "\<forall>op \<in> set (ops1 @ ops2). \<exists>q \<in> set (take (k1 + k2) (sp_queue s)). op = Fs_Del (path_for q)"
      using e1(4) e2(4) split by auto
  qed
qed

lemma write_entry_bins:
  assumes "seq \<le> u64_max" "write_entry flt dir seq payload = (w, ops)"
  shows "bin (fs_run d ops) = (if isl w then bin d else (bin d)(seq \<mapsto> payload))"
proof -
  let ?d = "fs_apply (fs_apply d (Fs_Put (tmp_path_for seq) [])) (Fs_Put (tmp_path_for seq) payload)"
  have "map_of ?d (tmp_path_for seq) = Some payload" by (simp add: map_of_apply)
  then have "bin (fs_apply ?d (Fs_Move (tmp_path_for seq) (path_for seq))) = (bin d)(seq \<mapsto> payload)"
    using bin_apply(3) [OF assms(1)] bin_apply(1) by simp
  then show ?thesis
    using assms(2) by (auto simp: write_entry_def Let_def bin_apply(1) split: option.splits)
qed

lemma push_keeps:
  assumes "stored s d" "push flt d s payload = (r, s', ops)"
  obtains k where "k \<le> length (sp_queue s)" "stored s' (fs_run d ops)"
    "payloads s' (fs_run d ops) = drop k (payloads s d) @ (if isl r then [] else [payload])"
    "sp_queue s' = drop k (sp_queue s) @ (if isl r then [] else [sp_next_seq s])" "sp_next_seq s \<le> sp_next_seq s'"
proof (cases "0 < sc_max_bytes (sp_cfg s) \<and> sc_max_bytes (sp_cfg s) < length payload")
  case True
  then have "push flt d s payload = (runtime (''spool payload '' @ dec (length payload) @ '' bytes exceeds max_bytes ''
      @ dec (sc_max_bytes (sp_cfg s)) @ '' cap''), s, [])"
    unfolding push_def Let_def by (rule if_P)
  with assms(2) have "isl r" "s' = s" "ops = []" by auto
  then show ?thesis using assms(1) that [of 0] by simp
next
  case False
  obtain k held ops1 where ev: "evict_to_fit flt d s (length payload) = (s\<lparr>sp_queue := drop k (sp_queue s), sp_total_bytes := held\<rparr>, ops1)"
    "k \<le> length (sp_queue s)" "\<forall>q \<in> set (drop k (sp_queue s)). bin (fs_run d ops1) q = bin d q"
    using evict_to_fit_shape [OF assms(1)] by metis
  let ?q = "drop k (sp_queue s)"
  have q: "sorted_wrt (<) ?q" "\<forall>q \<in> set ?q. q < sp_next_seq s \<and> bin d q \<noteq> None"
    using assms(1) by (auto simp: stored_def sorted_wrt_drop dest: in_set_dropD)
  have kept: "map (\<lambda>q. the (bin (fs_run d ops1) q)) ?q = drop k (payloads s d)"
    using ev(3) by (simp add: payloads_def drop_map)
  show ?thesis
  proof (cases "sp_next_seq s = u64_max")
    case True
    then have "r = runtime ''spool sequence number overflow''" "s' = s\<lparr>sp_queue := ?q, sp_total_bytes := held\<rparr>" "ops = ops1"
      using assms(2) False ev(1) by (auto simp: push_def Let_def)
    moreover from this have "stored s' (fs_run d ops)" using ev(3) q assms(1) by (auto simp: stored_def)
    ultimately show ?thesis using that [of k] ev(2) kept by (simp add: payloads_def)
  next
    case neq: False
    obtain w ops2 where w: "write_entry flt (sp_dir s) (sp_next_seq s) payload = (w, ops2)"
      by (cases "write_entry flt (sp_dir s) (sp_next_seq s) payload")
    have max: "sp_next_seq s < u64_max" using assms(1) neq by (auto simp: stored_def)
    note bins = write_entry_bins [OF less_imp_le [OF max] w, of "fs_run d ops1"]
    have same: "bin (fs_run d (ops1 @ ops2)) q = bin d q" if "q \<in> set ?q" for q
      using bins ev(3) q(2) that by (cases w) auto
    show ?thesis
    proof (cases w)
      case (Inl e)
      then have res: "r = Inl e" "s' = s\<lparr>sp_queue := ?q, sp_total_bytes := held, sp_next_seq := sp_next_seq s + 1\<rparr>" "ops = ops1 @ ops2"
        using assms(2) False neq ev(1) w by (auto simp: push_def Let_def)
      have "stored s' (fs_run d ops)" using q same max by (auto simp: stored_def res)
      moreover have "payloads s' (fs_run d ops) = drop k (payloads s d)" using same by (simp add: payloads_def res drop_map)
      ultimately show ?thesis using that [of k] ev(2) res(1,2) by simp
    next
      case (Inr u)
      then have res: "r = Inr (sp_next_seq s)" "ops = ops1 @ ops2"
        "s' = s\<lparr>sp_queue := ?q @ [sp_next_seq s], sp_total_bytes := held + length payload, sp_next_seq := sp_next_seq s + 1\<rparr>"
        using assms(2) False neq ev(1) w by (auto simp: push_def Let_def)
      have new: "bin (fs_run d ops) (sp_next_seq s) = Some payload" using bins Inr by (simp add: res)
      have "stored s' (fs_run d ops)" using q same max new by (auto simp: stored_def res sorted_wrt_append)
      moreover have "payloads s' (fs_run d ops) = drop k (payloads s d) @ [payload]"
        using same new by (simp add: payloads_def res drop_map)
      ultimately show ?thesis using that [of k] ev(2) res(1,3) by simp
    qed
  qed
qed

lemma head_gone:
  assumes "stored s d" "sp_queue s = q # qs" "\<And>p. p \<noteq> q \<Longrightarrow> bin d' p = bin d p" "sp_queue s' = qs" "sp_next_seq s' = sp_next_seq s"
  shows "stored s' d' \<and> payloads s' d' = tl (payloads s d)"
proof -
  have "\<forall>p \<in> set qs. p \<noteq> q" using assms(1,2) by (auto simp: stored_def)
  then show ?thesis using assms by (auto simp: stored_def payloads_def)
qed

lemma discard_bins: "discard flt d q = (sz, ops) \<Longrightarrow> q \<le> u64_max \<Longrightarrow> p \<noteq> q \<Longrightarrow> bin (fs_run d ops) p = bin d p"
  using bin_apply(2) [of q d] by (auto simp: discard_def fs_unlink_def split: option.splits)

lemma remove_keeps:
  assumes "stored s d" "spool_remove flt d s seq = (gone, s', ops)"
  shows "stored s' (fs_run d ops) \<and> payloads s' (fs_run d ops) = (if gone then tl (payloads s d) else payloads s d)
    \<and> (gone \<longleftrightarrow> sp_queue s \<noteq> [] \<and> hd (sp_queue s) = seq)"
proof (cases "sp_queue s = [] \<or> hd (sp_queue s) \<noteq> seq")
  case True
  then show ?thesis using assms by (auto simp: spool_remove_def)
next
  case False
  then obtain qs where qs: "sp_queue s = seq # qs" by (cases "sp_queue s") auto
  obtain sz ops1 where dis: "discard flt d seq = (sz, ops1)" by (cases "discard flt d seq")
  then have res: "gone" "ops = ops1" "sp_queue s' = qs" "sp_next_seq s' = sp_next_seq s"
    using assms(2) False qs by (auto simp: spool_remove_def)
  have "seq \<le> u64_max" using stored_seq [OF assms(1)] qs by simp
  then show ?thesis using head_gone [OF assms(1) qs _ res(3,4), of "fs_run d ops"] discard_bins [OF dis] res qs by auto
qed

lemma quarantine_keeps:
  assumes "stored s d" "quarantine flt d s seq = (gone, s', ops)"
  shows "stored s' (fs_run d ops) \<and> payloads s' (fs_run d ops) = (if gone then tl (payloads s d) else payloads s d)
    \<and> (gone \<longleftrightarrow> sp_queue s \<noteq> [] \<and> hd (sp_queue s) = seq)"
proof (cases "sp_queue s = [] \<or> hd (sp_queue s) \<noteq> seq")
  case True
  then show ?thesis using assms by (auto simp: quarantine_def)
next
  case False
  then obtain qs where qs: "sp_queue s = seq # qs" by (cases "sp_queue s") auto
  have res: "gone" "sp_queue s' = qs" "sp_next_seq s' = sp_next_seq s"
    "ops = (if ff_error flt (Fs_Rename (poison_path_for seq)) \<noteq> None \<or> map_of d (path_for seq) = None then fs_unlink flt (path_for seq)
      else [Fs_Move (path_for seq) (poison_path_for seq)])"
    using assms(2) qs by (auto simp: quarantine_def Let_def)
  have seq: "seq \<le> u64_max" using stored_seq [OF assms(1)] qs by simp
  obtain x where x: "bin d seq = Some x" using assms(1) qs by (auto simp: stored_def)
  have "bin (fs_run d ops) p = bin d p" if "p \<noteq> seq" for p
    using that res(4) bin_apply(2,4) [OF seq, of d] x by (auto simp: fs_unlink_def split: option.splits)
  then show ?thesis using head_gone [OF assms(1) qs _ res(2,3), of "fs_run d ops"] res qs by auto
qed

lemma peek_front:
  assumes "stored s d"
  shows "peek flt d s = Inr (Some e) \<Longrightarrow> sp_queue s \<noteq> [] \<and> se_seq e = hd (sp_queue s) \<and> se_payload e = hd (payloads s d)"
    and "peek flt d s = Inr None \<longleftrightarrow> sp_queue s = []"
    and "peek no_faults d s = (if sp_queue s = [] then Inr None
      else Inr (Some \<lparr>se_payload = hd (payloads s d), se_seq = hd (sp_queue s), se_path = spool_path (sp_dir s) (path_for (hd (sp_queue s)))\<rparr>))"
proof -
  have front: "map_of d (path_for q) = Some (the (bin d q))" if "sp_queue s = q # qs" for q qs
    using assms that stored_seq [OF assms, of q] by (auto simp: stored_def bin_def)
  show "sp_queue s \<noteq> [] \<and> se_seq e = hd (sp_queue s) \<and> se_payload e = hd (payloads s d)" if "peek flt d s = Inr (Some e)"
    using that front by (auto simp: peek_def payloads_def fs_read_def Let_def split: list.splits sum.splits option.splits)
  show "peek flt d s = Inr None \<longleftrightarrow> sp_queue s = []"
    by (auto simp: peek_def Let_def split: list.splits sum.splits)
  show "peek no_faults d s = (if sp_queue s = [] then Inr None
      else Inr (Some \<lparr>se_payload = hd (payloads s d), se_seq = hd (sp_queue s), se_path = spool_path (sp_dir s) (path_for (hd (sp_queue s)))\<rparr>))"
    using front by (auto simp: peek_def payloads_def fs_read_def Let_def split: list.splits)
qed

section \<open>The spool as a bounded queue\<close>

text \<open>The reference: entries leave at the front while a cap is not met.\<close>

fun shed :: "(bytes list \<Rightarrow> bool) \<Rightarrow> bytes list \<Rightarrow> bytes list" where
  "shed over [] = []"
| "shed over (x # xs) = (if over (x # xs) then shed over xs else x # xs)"

definition weight :: "bytes list \<Rightarrow> nat" where
  "weight xs = sum_list (map length xs)"

definition over_cap :: "SpoolConfig \<Rightarrow> nat \<Rightarrow> bytes list \<Rightarrow> bool" where
  "over_cap cfg n xs \<longleftrightarrow> (0 < sc_max_files cfg \<and> sc_max_files cfg \<le> length xs) \<or> (0 < sc_max_bytes cfg \<and> sc_max_bytes cfg < weight xs + n)"

definition fit :: "SpoolConfig \<Rightarrow> nat \<Rightarrow> bytes list \<Rightarrow> bytes list" where
  "fit cfg n = shed (over_cap cfg n)"

lemma shed_twice:
  assumes "\<And>x xs. A xs \<Longrightarrow> A (x # xs)"
  shows "shed B (shed A xs) = shed (\<lambda>xs. A xs \<or> B xs) xs"
proof (induction xs)
  case (Cons x xs)
  have "shed A xs = xs" if "\<not> A (x # xs)" using that assms [of xs x] by (cases xs) auto
  then show ?case using Cons by auto
qed simp

lemma shed_drop: "\<exists>k \<le> length xs. shed over xs = drop k xs \<and> (shed over xs = [] \<or> \<not> over (shed over xs))"
proof (induction xs)
  case (Cons x xs)
  show ?case
  proof (cases "over (x # xs)")
    case True
    from Cons obtain k where "k \<le> length xs" "shed over xs = drop k xs \<and> (shed over xs = [] \<or> \<not> over (shed over xs))" by blast
    then show ?thesis using True by (intro exI [of _ "Suc k"]) auto
  qed (simp add: exI [of _ 0])
qed simp

lemma sizes_weight: "sizes d qs = weight (map (\<lambda>q. the (bin d q)) qs)"
  by (simp add: sizes_def weight_def comp_def)

lemma bins_cong:
  assumes "\<forall>p \<in> set ps. bin d' p = bin d p"
  shows "sizes d' ps = sizes d ps" "map (\<lambda>q. the (bin d' q)) ps = map (\<lambda>q. the (bin d q)) ps"
proof -
  show "map (\<lambda>q. the (bin d' q)) ps = map (\<lambda>q. the (bin d q)) ps" using assms by simp
  then show "sizes d' ps = sizes d ps" by (simp only: sizes_weight)
qed

lemma bin_dels:
  "\<forall>q \<in> set qs. q \<le> u64_max \<Longrightarrow> bin (fs_run d (map (\<lambda>q. Fs_Del (path_for q)) qs)) p = (if p \<in> set qs then None else bin d p)"
  by (induction qs arbitrary: d) (auto simp: bin_apply(2))

lemma evict_while_exact:
  assumes "\<forall>q \<in> set queue. bin d q \<noteq> None" "distinct queue"
  shows "\<exists>k. evict_while (\<lambda>queue held. P (length queue) held) no_faults d queue (sizes d queue) =
      (drop k queue, sizes d (drop k queue), map (\<lambda>q. Fs_Del (path_for q)) (take k queue))
    \<and> map (\<lambda>q. the (bin d q)) (drop k queue) = shed (\<lambda>xs. P (length xs) (weight xs)) (map (\<lambda>q. the (bin d q)) queue) \<and> k \<le> length queue"
  using assms
proof (induction queue arbitrary: d)
  case (Cons q queue)
  let ?over = "\<lambda>queue held. P (length queue) held"
  show ?case
  proof (cases "P (length (q # queue)) (sizes d (q # queue))")
    case True
    let ?d = "fs_apply d (Fs_Del (path_for q))"
    have q: "q \<le> u64_max" "q \<notin> set queue" using Cons.prems by (auto simp: bin_def split: if_splits)
    then have same: "bin ?d p = bin d p" if "p \<in> set queue" for p using bin_apply(2) [of q d] that by auto
    have sz: "fs_size no_faults d (path_for q) = length (the (bin d q))" using fs_size_bin [OF q(1), of d] Cons.prems(1) by auto
    have eq: "sizes ?d ps = sizes d ps" "map (\<lambda>q. the (bin ?d q)) ps = map (\<lambda>q. the (bin d q)) ps" if "set ps \<subseteq> set queue" for ps
      using bins_cong [of ps ?d d] same that by auto
    obtain k where k: "evict_while ?over no_faults ?d queue (sizes ?d queue) =
        (drop k queue, sizes ?d (drop k queue), map (\<lambda>q. Fs_Del (path_for q)) (take k queue))"
      "map (\<lambda>q. the (bin ?d q)) (drop k queue) = shed (\<lambda>xs. P (length xs) (weight xs)) (map (\<lambda>q. the (bin ?d q)) queue)" "k \<le> length queue"
      using Cons.IH [of ?d] Cons.prems same by (metis (no_types, lifting) distinct.simps(2) list.set_intros(2))
    have "evict_while ?over no_faults d (q # queue) (sizes d (q # queue)) =
        (drop k queue, sizes d (drop k queue), map (\<lambda>q. Fs_Del (path_for q)) (q # take k queue))"
      using True k(1) eq(1) [of queue] eq(1) [OF set_drop_subset] sz
      by (simp add: discard_def sizes_def Let_def)
    moreover have "map (\<lambda>q. the (bin d q)) (drop k queue) = shed (\<lambda>xs. P (length xs) (weight xs)) (map (\<lambda>q. the (bin d q)) queue)"
      using k(2) unfolding eq(2) [OF set_drop_subset] eq(2) [OF subset_refl] .
    ultimately show ?thesis using True k(3) by (intro exI [of _ "Suc k"]) (simp add: sizes_weight)
  next
    case False
    then show ?thesis by (simp add: exI [of _ 0] sizes_weight)
  qed
qed (simp add: sizes_def)

definition exact :: "DiskSpool \<Rightarrow> disk \<Rightarrow> bool" where
  "exact s d \<longleftrightarrow> stored s d \<and> canonical d \<and> sp_queue s = live d \<and> sp_total_bytes s = sizes d (live d)"

lemma evict_to_fit_exact:
  assumes "exact s d"
  obtains k where "evict_to_fit no_faults d s n =
      (s\<lparr>sp_queue := drop k (sp_queue s), sp_total_bytes := sizes d (drop k (sp_queue s))\<rparr>, map (\<lambda>q. Fs_Del (path_for q)) (take k (sp_queue s)))"
    "drop k (payloads s d) = fit (sp_cfg s) n (payloads s d)" "k \<le> length (sp_queue s)"
proof -
  let ?q = "sp_queue s" and ?cfg = "sp_cfg s"
  let ?c = "map (\<lambda>q. the (bin d q))"
  have q: "\<forall>q \<in> set ?q. bin d q \<noteq> None" "distinct ?q" using assms by (auto simp: exact_def stored_def strict_sorted_iff)
  obtain k1 where e1: "evict_while (\<lambda>queue _. 0 < sc_max_files ?cfg \<and> sc_max_files ?cfg \<le> length queue) no_faults d ?q (sizes d ?q) =
      (drop k1 ?q, sizes d (drop k1 ?q), map (\<lambda>q. Fs_Del (path_for q)) (take k1 ?q))"
    "?c (drop k1 ?q) = shed (\<lambda>xs. 0 < sc_max_files ?cfg \<and> sc_max_files ?cfg \<le> length xs) (?c ?q)" "k1 \<le> length ?q"
    using evict_while_exact [OF q, of "\<lambda>l _. 0 < sc_max_files ?cfg \<and> sc_max_files ?cfg \<le> l"] by blast
  let ?d = "fs_run d (map (\<lambda>q. Fs_Del (path_for q)) (take k1 ?q))" and ?r = "drop k1 ?q"
  have "stored s d" using assms by (simp add: exact_def)
  then have seqs: "\<forall>q \<in> set (take k1 ?q). q \<le> u64_max" by (meson in_set_takeD stored_seq)
  have same: "bin ?d p = bin d p" if "p \<in> set ?r" for p
    using that bin_dels [OF seqs, of d p] set_take_disj_set_drop_if_distinct [OF q(2), of k1 k1] by auto
  have eq: "sizes ?d ps = sizes d ps" "map (\<lambda>q. the (bin ?d q)) ps = ?c ps" if "set ps \<subseteq> set ?r" for ps
    using bins_cong [of ps ?d d] same that by auto
  have r: "\<forall>q \<in> set ?r. bin ?d q \<noteq> None" "distinct ?r" using q same by (auto dest: in_set_dropD)
  obtain k2 where e2: "evict_while (\<lambda>_ held. 0 < sc_max_bytes ?cfg \<and> sc_max_bytes ?cfg < held + n) no_faults ?d ?r (sizes ?d ?r) =
      (drop k2 ?r, sizes ?d (drop k2 ?r), map (\<lambda>q. Fs_Del (path_for q)) (take k2 ?r))"
    "map (\<lambda>q. the (bin ?d q)) (drop k2 ?r) = shed (\<lambda>xs. 0 < sc_max_bytes ?cfg \<and> sc_max_bytes ?cfg < weight xs + n) (map (\<lambda>q. the (bin ?d q)) ?r)"
    "k2 \<le> length ?r"
    using evict_while_exact [OF r, of "\<lambda>_ held. 0 < sc_max_bytes ?cfg \<and> sc_max_bytes ?cfg < held + n"] by blast
  note sub = eq(1) [OF set_drop_subset] eq(2) [OF set_drop_subset] eq(1) [OF subset_refl] eq(2) [OF subset_refl]
  have "fit ?cfg n (?c ?q) = ?c (drop k2 ?r)"
    using e2(2) shed_twice [of "\<lambda>xs. 0 < sc_max_files ?cfg \<and> sc_max_files ?cfg \<le> length xs"]
    unfolding sub(2,4) e1(2) by (simp add: fit_def over_cap_def [abs_def])
  then have fit: "drop (k2 + k1) (payloads s d) = fit ?cfg n (payloads s d)" by (simp add: payloads_def drop_map)
  have "take (k2 + k1) ?q = take k1 ?q @ take k2 ?r" by (metis add.commute take_add)
  moreover have "sp_total_bytes s = sizes d ?q" using assms by (simp add: exact_def)
  ultimately have "evict_to_fit no_faults d s n =
      (s\<lparr>sp_queue := drop (k2 + k1) ?q, sp_total_bytes := sizes d (drop (k2 + k1) ?q)\<rparr>, map (\<lambda>q. Fs_Del (path_for q)) (take (k2 + k1) ?q))"
    using e1(1) e2(1) [unfolded sub(1,3)] by (simp add: evict_to_fit_def Let_def)
  then show thesis using that [of "k2 + k1"] fit e1(3) e2(3) by simp
qed

lemma exact_from_bins:
  assumes "canonical d" "sorted_wrt (<) (sp_queue s)" "set (sp_queue s) = dom (bin d)" "sp_total_bytes s = sizes d (sp_queue s)"
    and "\<forall>q \<in> set (sp_queue s). q < sp_next_seq s" "sp_next_seq s \<le> u64_max"
  shows "exact s d"
proof -
  have "sp_queue s = live d" using live_unique [of "sp_queue s" d] assms(2,3) by (simp add: strict_sorted_iff)
  then show ?thesis using assms by (auto simp: exact_def stored_def)
qed

lemma exact_bins: "exact s d \<Longrightarrow> set (sp_queue s) = dom (bin d)"
  by (simp add: exact_def)

lemma exact_below: "exact s d \<Longrightarrow> q \<in> dom (bin d) \<Longrightarrow> q < sp_next_seq s \<and> sp_next_seq s \<le> u64_max"
  by (simp add: exact_def stored_def)

lemma canonical_dels: "canonical d \<Longrightarrow> canonical (fs_run d (map (\<lambda>q. Fs_Del (path_for q)) qs))"
  by (induction qs arbitrary: d) (simp_all add: canonical_apply(2))

text \<open>The directory after the first entries were deleted.\<close>

lemma dels_exact:
  fixes k
  assumes "exact s d"
  defines "d' \<equiv> fs_run d (map (\<lambda>q. Fs_Del (path_for q)) (take k (sp_queue s)))"
  shows "canonical d'" "dom (bin d') = set (drop k (sp_queue s))" "\<forall>q \<in> set (drop k (sp_queue s)). bin d' q = bin d q"
proof -
  have st: "stored s d" "canonical d" using assms by (simp_all add: exact_def)
  have dist: "distinct (sp_queue s)" using st by (auto simp: stored_def strict_sorted_iff)
  have seqs: "\<forall>q \<in> set (take k (sp_queue s)). q \<le> u64_max" using st by (meson in_set_takeD stored_seq)
  note disj = set_take_disj_set_drop_if_distinct [OF dist, of k k]
  show "canonical d'" unfolding d'_def by (rule canonical_dels [OF st(2)])
  have bins: "bin d' p = (if p \<in> set (take k (sp_queue s)) then None else bin d p)" for p
    unfolding d'_def by (rule bin_dels [OF seqs])
  show "\<forall>q \<in> set (drop k (sp_queue s)). bin d' q = bin d q" using bins disj by auto
  have "dom (bin d') = dom (bin d) - set (take k (sp_queue s))" using bins by (auto simp: domIff split: if_splits)
  also have "\<dots> = set (drop k (sp_queue s))"
    using exact_bins [OF assms(1)] disj set_append [of "take k (sp_queue s)" "drop k (sp_queue s)"] by auto
  finally show "dom (bin d') = set (drop k (sp_queue s))" .
qed

lemma push_exact:
  assumes "exact s d" "sp_next_seq s < u64_max" "\<not> (0 < sc_max_bytes (sp_cfg s) \<and> sc_max_bytes (sp_cfg s) < length payload)"
  obtains k s' where "push no_faults d s payload = (Inr (sp_next_seq s), s', map (\<lambda>q. Fs_Del (path_for q)) (take k (sp_queue s))
      @ [Fs_Put (tmp_path_for (sp_next_seq s)) [], Fs_Put (tmp_path_for (sp_next_seq s)) payload,
         Fs_Move (tmp_path_for (sp_next_seq s)) (path_for (sp_next_seq s))])"
    "sp_queue s' = drop k (sp_queue s) @ [sp_next_seq s]" "sp_total_bytes s' = sizes d (drop k (sp_queue s)) + length payload"
    "sp_next_seq s' = sp_next_seq s + 1" "sp_cfg s' = sp_cfg s" "sp_dir s' = sp_dir s"
    "drop k (payloads s d) = fit (sp_cfg s) (length payload) (payloads s d)" "k \<le> length (sp_queue s)"
proof -
  obtain k where ev: "evict_to_fit no_faults d s (length payload) =
      (s\<lparr>sp_queue := drop k (sp_queue s), sp_total_bytes := sizes d (drop k (sp_queue s))\<rparr>, map (\<lambda>q. Fs_Del (path_for q)) (take k (sp_queue s)))"
    "drop k (payloads s d) = fit (sp_cfg s) (length payload) (payloads s d)" "k \<le> length (sp_queue s)"
    by (rule evict_to_fit_exact [OF assms(1)])
  let ?s = "s\<lparr>sp_queue := drop k (sp_queue s) @ [sp_next_seq s], sp_total_bytes := sizes d (drop k (sp_queue s)) + length payload,
    sp_next_seq := sp_next_seq s + 1\<rparr>"
  show thesis
    by (rule that [of ?s k]) (use assms(2,3) ev in \<open>auto simp: push_def write_entry_def Let_def\<close>)
qed

lemma push_exact_state:
  assumes "exact s d" "sp_next_seq s < u64_max" "\<not> (0 < sc_max_bytes (sp_cfg s) \<and> sc_max_bytes (sp_cfg s) < length payload)"
    and "push no_faults d s payload = (r, s', ops)"
  shows "exact s' (fs_run d ops) \<and> payloads s' (fs_run d ops) = fit (sp_cfg s) (length payload) (payloads s d) @ [payload]"
proof -
  let ?n = "sp_next_seq s"
  obtain k where p: "ops = map (\<lambda>q. Fs_Del (path_for q)) (take k (sp_queue s))
      @ [Fs_Put (tmp_path_for ?n) [], Fs_Put (tmp_path_for ?n) payload, Fs_Move (tmp_path_for ?n) (path_for ?n)]"
    "sp_queue s' = drop k (sp_queue s) @ [?n]" "sp_total_bytes s' = sizes d (drop k (sp_queue s)) + length payload"
    "sp_next_seq s' = ?n + 1" "drop k (payloads s d) = fit (sp_cfg s) (length payload) (payloads s d)"
    using push_exact [OF assms(1-3)] assms(4) by (metis (no_types, lifting) Pair_inject)
  let ?d = "fs_run d (map (\<lambda>q. Fs_Del (path_for q)) (take k (sp_queue s)))"
  note dels = dels_exact [OF assms(1), of k]
  let ?d2 = "fs_apply (fs_apply ?d (Fs_Put (tmp_path_for ?n) [])) (Fs_Put (tmp_path_for ?n) payload)"
  have d': "fs_run d ops = fs_apply ?d2 (Fs_Move (tmp_path_for ?n) (path_for ?n))" unfolding p(1) by (simp)
  have "map_of ?d2 (tmp_path_for ?n) = Some payload" by (simp add: map_of_apply)
  then have bins: "bin (fs_run d ops) = (bin ?d)(?n \<mapsto> payload)"
    unfolding d' using bin_apply(3) [of ?n] bin_apply(1) assms(2) by simp
  have canon: "canonical (fs_run d ops)"
    unfolding d' using dels(1) assms(2) by (simp add: canonical_apply(1,3))
  have st: "stored s d" using assms(1) by (simp add: exact_def)
  have q: "sorted_wrt (<) (drop k (sp_queue s))" "\<forall>q \<in> set (drop k (sp_queue s)). q < ?n"
    using st by (auto simp: stored_def sorted_wrt_drop dest: in_set_dropD)
  have same: "\<forall>q \<in> set (drop k (sp_queue s)). bin (fs_run d ops) q = bin d q" using bins dels(3) q(2) by auto
  have "exact s' (fs_run d ops)"
  proof (rule exact_from_bins [OF canon])
    show "sorted_wrt (<) (sp_queue s')" using q by (simp add: p(2) sorted_wrt_append)
    show "set (sp_queue s') = dom (bin (fs_run d ops))" using dels(2) by (simp add: p(2) bins)
    show "sp_total_bytes s' = sizes (fs_run d ops) (sp_queue s')"
      using bins_cong(1) [OF same] bins by (simp add: p(2,3) sizes_def)
    show "\<forall>q \<in> set (sp_queue s'). q < sp_next_seq s'" using q(2) by (auto simp: p(2,4))
    show "sp_next_seq s' \<le> u64_max" using assms(2) by (simp add: p(4))
  qed
  moreover have "payloads s' (fs_run d ops) = drop k (payloads s d) @ [payload]"
    using bins_cong(2) [OF same] bins by (simp add: payloads_def p(2) drop_map)
  ultimately show ?thesis using p(5) by simp
qed

lemma fit_bounds:
  assumes "\<not> (0 < sc_max_bytes cfg \<and> sc_max_bytes cfg < length payload)"
  shows "0 < sc_max_files cfg \<Longrightarrow> length (fit cfg (length payload) xs @ [payload]) \<le> sc_max_files cfg"
    and "0 < sc_max_bytes cfg \<Longrightarrow> weight (fit cfg (length payload) xs @ [payload]) \<le> sc_max_bytes cfg"
proof -
  from shed_drop [of xs "over_cap cfg (length payload)"]
  have "fit cfg (length payload) xs = [] \<or> \<not> over_cap cfg (length payload) (fit cfg (length payload) xs)" by (auto simp: fit_def)
  then show "0 < sc_max_files cfg \<Longrightarrow> length (fit cfg (length payload) xs @ [payload]) \<le> sc_max_files cfg"
    "0 < sc_max_bytes cfg \<Longrightarrow> weight (fit cfg (length payload) xs @ [payload]) \<le> sc_max_bytes cfg"
    using assms by (auto simp: over_cap_def weight_def)
qed

section \<open>Crashes\<close>

text \<open>A crash leaves a prefix of the changes on disk, and any part of the write it interrupted.\<close>

definition torn :: "nat \<Rightarrow> fs_op list \<Rightarrow> fs_op list" where
  "torn m ops = (case ops of Fs_Put n b # _ \<Rightarrow> [Fs_Put n (take m b)] | _ \<Rightarrow> [])"

definition crashed :: "fs_op list \<Rightarrow> disk \<Rightarrow> disk \<Rightarrow> bool" where
  "crashed ops d d' \<longleftrightarrow> (\<exists>n m. d' = fs_run d (take n ops @ torn m (drop n ops)))"

lemma reopen_exact:
  assumes "canonical d" "u64_max \<notin> dom (bin d)"
  shows "\<exists>s ops. spool_open no_faults d dir cfg = (Inr s, ops) \<and> exact s (fs_run d ops) \<and> sp_cfg s = cfg
    \<and> payloads s (fs_run d ops) = map (\<lambda>q. the (bin d q)) (live d)"
proof -
  obtain s ops where s: "spool_open no_faults d dir cfg = (Inr s, ops)" "sp_queue s = live d" "sp_cfg s = cfg"
    "bin (fs_run d ops) = bin d" "canonical (fs_run d ops)" "sp_total_bytes s = sizes d (live d)"
    "\<forall>q \<in> set (live d). q < sp_next_seq s" "sp_next_seq s \<le> u64_max"
    using reopen [OF assms] by metis
  have "exact s (fs_run d ops)"
    by (rule exact_from_bins) (use s in \<open>auto simp: strict_sorted_iff sizes_def\<close>)
  then show ?thesis using s by (auto simp: payloads_def)
qed

lemma crashed_append: "crashed (xs @ ys) d d' \<Longrightarrow> crashed xs d d' \<or> crashed ys (fs_run d xs) d'"
proof -
  assume "crashed (xs @ ys) d d'"
  then obtain n m where d': "d' = fs_run d (take n (xs @ ys) @ torn m (drop n (xs @ ys)))" by (auto simp: crashed_def)
  show ?thesis
  proof (cases "n < length xs")
    case True
    then have "torn m (drop n (xs @ ys)) = torn m (drop n xs)" by (cases "drop n xs") (auto simp: torn_def)
    then have "crashed xs d d'" using d' True by (auto simp: crashed_def)
    then show ?thesis ..
  next
    case False
    then have "crashed ys (fs_run d xs) d'" using d' by (auto simp: crashed_def)
    then show ?thesis ..
  qed
qed

lemma crashed_dels:
  assumes "crashed (map (\<lambda>q. Fs_Del (path_for q)) qs) d d'"
  shows "\<exists>j. d' = fs_run d (map (\<lambda>q. Fs_Del (path_for q)) (take j qs))"
proof -
  obtain n m where "d' = fs_run d (take n (map (\<lambda>q. Fs_Del (path_for q)) qs) @ torn m (drop n (map (\<lambda>q. Fs_Del (path_for q)) qs)))"
    using assms by (auto simp: crashed_def)
  moreover have "torn m (drop n (map (\<lambda>q. Fs_Del (path_for q)) qs)) = []"
    by (auto simp: torn_def drop_map split: list.splits fs_op.splits)
  ultimately show ?thesis by (auto simp: take_map)
qed

lemma crashed_write:
  assumes "canonical d" "p \<le> u64_max"
    and "crashed [Fs_Put (tmp_path_for p) [], Fs_Put (tmp_path_for p) b, Fs_Move (tmp_path_for p) (path_for p)] d d'"
  shows "canonical d' \<and> (bin d' = bin d \<or> bin d' = (bin d)(p \<mapsto> b))"
proof -
  obtain n m where d': "d' = fs_run d (take n [Fs_Put (tmp_path_for p) [], Fs_Put (tmp_path_for p) b, Fs_Move (tmp_path_for p) (path_for p)]
      @ torn m (drop n [Fs_Put (tmp_path_for p) [], Fs_Put (tmp_path_for p) b, Fs_Move (tmp_path_for p) (path_for p)]))"
    using assms(3) by (auto simp: crashed_def)
  let ?put = "\<lambda>d x. fs_apply d (Fs_Put (tmp_path_for p) x)"
  have keeps: "canonical (?put c x) \<and> bin (?put c x) = bin c" if "canonical c" for c x
    using that by (simp add: canonical_apply(1) bin_apply(1))
  consider "n = 0" | "n = 1" | "n = 2" | "3 \<le> n" by linarith
  then show ?thesis
  proof cases
    case 1
    then show ?thesis using keeps [OF assms(1)] d' by (simp add: torn_def)
  next
    case 2
    then show ?thesis using keeps [OF assms(1)] keeps d' by (simp add: torn_def)
  next
    case 3
    then show ?thesis using keeps [OF assms(1)] keeps d' by (simp add: torn_def)
  next
    case 4
    let ?d2 = "?put (?put d []) b"
    have "d' = fs_apply ?d2 (Fs_Move (tmp_path_for p) (path_for p))" using d' 4 by (simp add: torn_def)
    moreover have "map_of ?d2 (tmp_path_for p) = Some b" by (simp add: map_of_apply)
    ultimately have "bin d' = (bin ?d2)(p \<mapsto> b)" "canonical d'"
      using bin_apply(3) [OF assms(2)] canonical_apply(3) [OF _ assms(2)] keeps [OF assms(1)] keeps by (simp_all)
    then show ?thesis using keeps [OF assms(1)] keeps by simp
  qed
qed

lemma live_drop:
  assumes "sorted_wrt (<) qs" "dom (bin d') = set qs"
  shows "live d' = qs"
  using live_unique [of qs d'] assms by (simp add: strict_sorted_iff)

text \<open>What a push that crashed leaves on disk.\<close>

lemma push_crashed:
  assumes "exact s d" "sp_next_seq s < u64_max" "push no_faults d s payload = (r, s', ops)" "crashed ops d d'"
  shows "canonical d' \<and> u64_max \<notin> dom (bin d')
    \<and> (map (\<lambda>q. the (bin d' q)) (live d') = payloads s' (fs_run d ops)
       \<or> (\<exists>k. map (\<lambda>q. the (bin d' q)) (live d') = drop k (payloads s d)
            \<and> length (fit (sp_cfg s) (length payload) (payloads s d)) \<le> length (payloads s d) - k))"
proof (cases "0 < sc_max_bytes (sp_cfg s) \<and> sc_max_bytes (sp_cfg s) < length payload")
  case True
  then have "s' = s" "ops = []" using assms(3) by (auto simp: push_def Let_def)
  then have "d' = d" using assms(4) by (simp add: crashed_def torn_def)
  moreover have "u64_max \<notin> dom (bin d)" "canonical d"
    using assms(1) exact_below [OF assms(1), of u64_max] assms(2) by (auto simp: exact_def)
  ultimately show ?thesis using assms(1) \<open>s' = s\<close> \<open>ops = []\<close> by (simp add: payloads_def exact_def)
next
  case False
  let ?n = "sp_next_seq s" and ?q = "sp_queue s"
  let ?dels = "\<lambda>j. map (\<lambda>q. Fs_Del (path_for q)) (take j ?q)"
  obtain k where p: "ops = ?dels k @ [Fs_Put (tmp_path_for ?n) [], Fs_Put (tmp_path_for ?n) payload, Fs_Move (tmp_path_for ?n) (path_for ?n)]"
    "sp_queue s' = drop k ?q @ [?n]" "drop k (payloads s d) = fit (sp_cfg s) (length payload) (payloads s d)" "k \<le> length ?q"
    using push_exact [OF assms(1,2) False] assms(3) by (metis (no_types, lifting) Pair_inject)
  have st: "stored s d" using assms(1) by (simp add: exact_def)
  have q: "sorted_wrt (<) (drop j ?q)" "\<forall>q \<in> set (drop j ?q). q < ?n" for j
    using st by (auto simp: stored_def sorted_wrt_drop dest: in_set_dropD)
  have after: "canonical d' \<and> u64_max \<notin> dom (bin d') \<and> map (\<lambda>q. the (bin d' q)) (live d') = drop j (payloads s d)"
    if "canonical d'" "bin d' = bin (fs_run d (?dels j))" for j
  proof -
    note dels = dels_exact [OF assms(1), of j]
    have "live d' = drop j ?q" using live_drop [OF q(1)] dels(2) that(2) by simp
    moreover have "map (\<lambda>q. the (bin d' q)) (drop j ?q) = map (\<lambda>q. the (bin d q)) (drop j ?q)" using dels(3) that(2) by simp
    moreover have "u64_max \<notin> dom (bin d')" using that(2) dels(2) q(2) [of j] assms(2) by auto
    ultimately show ?thesis using that(1) by (simp add: payloads_def drop_map)
  qed
  have len: "length (fit (sp_cfg s) (length payload) (payloads s d)) \<le> length (payloads s d) - j" if "j \<le> k" for j
    using p(3) [symmetric] that by simp
  from assms(4) consider "crashed (?dels k) d d'"
    | "crashed [Fs_Put (tmp_path_for ?n) [], Fs_Put (tmp_path_for ?n) payload, Fs_Move (tmp_path_for ?n) (path_for ?n)] (fs_run d (?dels k)) d'"
    unfolding p(1) using crashed_append by blast
  then show ?thesis
  proof cases
    case 1
    from crashed_dels [OF this] obtain j where "d' = fs_run d (?dels (min j k))" by (auto simp: min.commute)
    moreover from this have "canonical d'" using dels_exact(1) [OF assms(1)] by blast
    ultimately show ?thesis using after [of "min j k"] len [of "min j k"] by auto
  next
    case 2
    have n: "?n \<le> u64_max" using assms(2) by simp
    note dels = dels_exact [OF assms(1), of k]
    from crashed_write [OF dels(1) n 2] consider "canonical d'" "bin d' = bin (fs_run d (?dels k))"
      | "canonical d'" "bin d' = (bin (fs_run d (?dels k)))(?n \<mapsto> payload)" by blast
    then show ?thesis
    proof cases
      case 1
      then show ?thesis using after [of k] len [of k] by auto
    next
      case 2
      have "live d' = drop k ?q @ [?n]"
        by (rule live_drop) (use q [of k] 2(2) dels(2) in \<open>auto simp: sorted_wrt_append\<close>)
      moreover have "map (\<lambda>q. the (bin d' q)) (drop k ?q) = drop k (payloads s d)"
        using dels(3) q(2) [of k] 2(2) by (auto simp: payloads_def drop_map)
      ultimately have "map (\<lambda>q. the (bin d' q)) (live d') = drop k (payloads s d) @ [payload]" using 2(2) by simp
      moreover have "payloads s' (fs_run d ops) = drop k (payloads s d) @ [payload]"
        using push_exact_state [OF assms(1,2) False assms(3)] p(3) by simp
      moreover have "u64_max \<notin> dom (bin d')" using 2(2) dels(2) q(2) [of k] assms(2) by auto
      ultimately show ?thesis using 2(1) by simp
    qed
  qed
qed

lemma remove_exact:
  assumes "exact s d" "sp_queue s = q # qs"
  shows "spool_remove no_faults d s q =
      (True, s\<lparr>sp_queue := qs, sp_total_bytes := sp_total_bytes s - fs_size no_faults d (path_for q)\<rparr>, [Fs_Del (path_for q)])
    \<and> exact (s\<lparr>sp_queue := qs, sp_total_bytes := sp_total_bytes s - fs_size no_faults d (path_for q)\<rparr>) (fs_run d [Fs_Del (path_for q)])"
proof -
  note dels = dels_exact [OF assms(1), of 1]
  have st: "stored s d" using assms(1) by (simp add: exact_def)
  have size: "fs_size no_faults d (path_for q) = length (the (bin d q))"
    using fs_size_bin [of q d] stored_seq [OF st, of q] assms(2) st by (auto simp: stored_def)
  have "sp_total_bytes s = sizes d (sp_queue s)" using assms(1) by (simp add: exact_def)
  then have total: "sp_total_bytes s = length (the (bin d q)) + sizes d qs" by (simp add: assms(2) sizes_def)
  have "exact (s\<lparr>sp_queue := qs, sp_total_bytes := sp_total_bytes s - fs_size no_faults d (path_for q)\<rparr>) (fs_run d [Fs_Del (path_for q)])"
    by (rule exact_from_bins)
      (use dels assms(2) st size total bins_cong(1) [of qs "fs_run d [Fs_Del (path_for q)]" d] in \<open>auto simp: stored_def\<close>)
  then show ?thesis using assms(2) by (simp add: spool_remove_def discard_def)
qed

lemma remove_crashed:
  assumes "exact s d" "spool_remove no_faults d s q = (gone, s', ops)" "crashed ops d d'"
  shows "d' = d \<or> d' = fs_run d ops"
proof -
  have "ops = [] \<or> (\<exists>n. ops = [Fs_Del n])" using assms(2) by (auto simp: spool_remove_def discard_def split: if_splits)
  then show ?thesis
  proof
    assume "ops = []"
    then show ?thesis using assms(3) by (simp add: crashed_def torn_def)
  next
    assume "\<exists>n. ops = [Fs_Del n]"
    then obtain n where n: "ops = [Fs_Del n]" by blast
    obtain j m where "d' = fs_run d (take j ops @ torn m (drop j ops))" using assms(3) by (auto simp: crashed_def)
    then show ?thesis using n by (cases j) (simp_all add: torn_def)
  qed
qed

section \<open>Properties\<close>

text \<open>C16:
  The spool is a bounded first-in first-out queue.  When no call of the file system fails, a payload that can fit is appended after
  just as many of the oldest entries have left as the caps on files and bytes demand, and the caps hold afterwards; a payload
  larger than the byte cap is refused and changes nothing.  Peeking shows the oldest entry, removing it leaves the rest, and the
  directory always holds exactly the queued entries with their sizes accounted for.
\<close>

theorem spool_is_bounded_fifo:
  assumes "exact s d" "sp_next_seq s < u64_max" "push no_faults d s payload = (r, s', ops)"
  shows "(if 0 < sc_max_bytes (sp_cfg s) \<and> sc_max_bytes (sp_cfg s) < length payload then isl r \<and> s' = s \<and> ops = []
      else r = Inr (sp_next_seq s) \<and> exact s' (fs_run d ops)
        \<and> payloads s' (fs_run d ops) = fit (sp_cfg s) (length payload) (payloads s d) @ [payload]
        \<and> (0 < sc_max_files (sp_cfg s) \<longrightarrow> length (sp_queue s') \<le> sc_max_files (sp_cfg s))
        \<and> (0 < sc_max_bytes (sp_cfg s) \<longrightarrow> sp_total_bytes s' \<le> sc_max_bytes (sp_cfg s)))
    \<and> (peek no_faults d s = Inr None \<longleftrightarrow> payloads s d = [])
    \<and> (\<forall>e. peek no_faults d s = Inr (Some e) \<longrightarrow>
         (\<exists>t rm. spool_remove no_faults d s (se_seq e) = (True, t, rm) \<and> exact t (fs_run d rm)
            \<and> payloads s d = se_payload e # payloads t (fs_run d rm)))"
proof (intro conjI)
  have st: "stored s d" using assms(1) by (simp add: exact_def)
  show "if 0 < sc_max_bytes (sp_cfg s) \<and> sc_max_bytes (sp_cfg s) < length payload then isl r \<and> s' = s \<and> ops = []
      else r = Inr (sp_next_seq s) \<and> exact s' (fs_run d ops)
        \<and> payloads s' (fs_run d ops) = fit (sp_cfg s) (length payload) (payloads s d) @ [payload]
        \<and> (0 < sc_max_files (sp_cfg s) \<longrightarrow> length (sp_queue s') \<le> sc_max_files (sp_cfg s))
        \<and> (0 < sc_max_bytes (sp_cfg s) \<longrightarrow> sp_total_bytes s' \<le> sc_max_bytes (sp_cfg s))"
  proof (cases "0 < sc_max_bytes (sp_cfg s) \<and> sc_max_bytes (sp_cfg s) < length payload")
    case True
    then show ?thesis using assms(3) by (auto simp: push_def Let_def)
  next
    case False
    have "r = Inr (sp_next_seq s)" using push_exact [OF assms(1,2) False] assms(3) by (metis (no_types, lifting) Pair_inject)
    moreover note st' = push_exact_state [OF assms(1,2) False assms(3)]
    moreover have "length (sp_queue s') = length (payloads s' (fs_run d ops))" by (simp add: payloads_def)
    moreover have "sp_total_bytes s' = weight (payloads s' (fs_run d ops))"
      using st' by (simp add: exact_def payloads_def sizes_weight)
    ultimately show ?thesis using fit_bounds [OF False] False by simp
  qed
  show "peek no_faults d s = Inr None \<longleftrightarrow> payloads s d = []" using peek_front(2) [OF st] by (simp add: payloads_def)
  show "\<forall>e. peek no_faults d s = Inr (Some e) \<longrightarrow>
         (\<exists>t rm. spool_remove no_faults d s (se_seq e) = (True, t, rm) \<and> exact t (fs_run d rm)
            \<and> payloads s d = se_payload e # payloads t (fs_run d rm))"
  proof (intro allI impI)
    fix e assume "peek no_faults d s = Inr (Some e)"
    then have e: "sp_queue s \<noteq> []" "se_seq e = hd (sp_queue s)" "se_payload e = hd (payloads s d)" using peek_front(1) [OF st] by blast+
    obtain q qs where q: "sp_queue s = q # qs" using e(1) by (cases "sp_queue s") auto
    let ?t = "s\<lparr>sp_queue := qs, sp_total_bytes := sp_total_bytes s - fs_size no_faults d (path_for q)\<rparr>"
    have rm: "spool_remove no_faults d s (se_seq e) = (True, ?t, [Fs_Del (path_for q)])" "exact ?t (fs_run d [Fs_Del (path_for q)])"
      using remove_exact [OF assms(1) q] e(2) q by simp_all
    then have "payloads ?t (fs_run d [Fs_Del (path_for q)]) = tl (payloads s d)" using remove_keeps [OF st rm(1)] by simp
    then have "payloads s d = se_payload e # payloads ?t (fs_run d [Fs_Del (path_for q)])"
      using e(3) q by (simp add: payloads_def)
    then show "\<exists>t rm. spool_remove no_faults d s (se_seq e) = (True, t, rm) \<and> exact t (fs_run d rm)
            \<and> payloads s d = se_payload e # payloads t (fs_run d rm)"
      using rm by blast
  qed
qed

definition sample_spool :: DiskSpool where
  "sample_spool = \<lparr>sp_dir = ''spool'', sp_cfg = \<lparr>sc_max_bytes = 0, sc_max_files = 1\<rparr>, sp_queue = [], sp_total_bytes = 0, sp_next_seq = 1\<rparr>"

lemma sample_spool_exact: "exact sample_spool []"
  by (rule exact_from_bins) (simp_all add: canonical_def sample_spool_def sizes_def bin_def u64_max_def dom_def)

theorem spool_is_bounded_fifo_witness:
  "\<exists>s d s' ops. payloads s d = [[1]] \<and> push no_faults d s [2] = (Inr 2, s', ops) \<and> payloads s' (fs_run d ops) = [[2]]"
proof -
  obtain s r1 ops1 where p: "push no_faults [] sample_spool [1] = (r1, s, ops1)" by (cases "push no_faults [] sample_spool [1]") auto
  have st: "exact s (fs_run [] ops1)" "payloads s (fs_run [] ops1) = [[1]]"
    using push_exact_state [OF sample_spool_exact _ _ p] by (simp_all add: sample_spool_def u64_max_def payloads_def fit_def)
  have s: "sp_next_seq s = 2" "sp_cfg s = \<lparr>sc_max_bytes = 0, sc_max_files = 1\<rparr>"
    using p by (auto simp: push_def sample_spool_def evict_to_fit_def write_entry_def u64_max_def Let_def)
  obtain s' r ops where p2: "push no_faults (fs_run [] ops1) s [2] = (r, s', ops)" by (cases "push no_faults (fs_run [] ops1) s [2]") auto
  then have "push no_faults (fs_run [] ops1) s [2] = (Inr 2, s', ops) \<and> payloads s' (fs_run (fs_run [] ops1) ops) = [[2]]"
    using spool_is_bounded_fifo [OF st(1) _ p2] st(2) s by (simp add: u64_max_def fit_def over_cap_def)
  then show ?thesis using st(2) by blast
qed

text \<open>C15:
  A crash during a push loses nothing that was not to leave anyway.  Wherever the process dies between the calls that change the
  directory, and however much of an interrupted write reached the disk, reopening the spool succeeds and yields a consistent
  spool: with all that the completed push would have left, or with the old entries, of which at most those that the push evicts
  are gone, oldest first.  The new entry is there whole or not at all.
\<close>

theorem spool_survives_crash:
  assumes "exact s d" "sp_next_seq s < u64_max" "push no_faults d s payload = (r, s', ops)" "crashed ops d d'"
  shows "\<exists>t clean. spool_open no_faults d' dir cfg = (Inr t, clean) \<and> exact t (fs_run d' clean)
    \<and> (payloads t (fs_run d' clean) = payloads s' (fs_run d ops)
       \<or> (\<exists>k. payloads t (fs_run d' clean) = drop k (payloads s d)
            \<and> length (fit (sp_cfg s) (length payload) (payloads s d)) \<le> length (payloads s d) - k))"
proof -
  note c = push_crashed [OF assms]
  obtain t clean where "spool_open no_faults d' dir cfg = (Inr t, clean)" "exact t (fs_run d' clean)"
    "payloads t (fs_run d' clean) = map (\<lambda>q. the (bin d' q)) (live d')"
    using reopen_exact c by metis
  then show ?thesis using c by auto
qed

theorem spool_survives_crash_witness:
  "\<exists>t clean. spool_open no_faults [(tmp_path_for 1, [7])] ''spool'' default_spool_config = (Inr t, clean) \<and> exact t (fs_run [(tmp_path_for 1, [7])] clean)"
proof -
  obtain s' r ops where p: "push no_faults [] sample_spool [7, 8] = (r, s', ops)" by (cases "push no_faults [] sample_spool [7, 8]") auto
  then have ops: "ops = [Fs_Put (tmp_path_for 1) [], Fs_Put (tmp_path_for 1) [7, 8], Fs_Move (tmp_path_for 1) (path_for 1)]"
    by (auto simp: push_def sample_spool_def evict_to_fit_def write_entry_def u64_max_def Let_def)
  have crash: "crashed ops [] [(tmp_path_for 1, [7])]"
    unfolding crashed_def ops by (intro exI [of _ 1]) (simp add: torn_def fs_apply.simps)
  have "sp_next_seq sample_spool < u64_max" by (simp add: sample_spool_def u64_max_def)
  from spool_survives_crash [OF sample_spool_exact this p crash, of "''spool''" default_spool_config] show ?thesis by blast
qed

end
