(* ===== verification/Event_Dispatch.thy ===== *)
theory Event_Dispatch
  imports Event_Spool Event_Bindings
begin

text \<open>
  The event dispatcher of \<open>crates/spt-events/src/dispatcher.rs\<close>: the task that takes events from the bus through the bindings to
  the sinks, and the task that retries what sinks could not take from their spools.  The two run concurrently; \<open>dispatch_step\<close> is
  one step of either between two points where it may be interrupted.  Clock readings, the answers of sinks and of the file system
  are inputs, the JSON codec is a parameter.
\<close>

section \<open>Sinks\<close>

datatype SinkError = Sink_Transient string | Sink_Permanent string | Sink_Config string

definition is_retryable :: "SinkError \<Rightarrow> bool" where
  "is_retryable e = (case e of Sink_Transient _ \<Rightarrow> True | _ \<Rightarrow> False)"

type_synonym answer = "(SinkError, unit) result"

record ('n, 't) Codec =
  co_encode :: "('n, 't) Event \<Rightarrow> (string, bytes) result"
  co_decode :: "bytes \<Rightarrow> ('n, 't) Event option"

text \<open>What happens to events, for the record: \<open>Attempted\<close> is the first time an event is handed to a sink.\<close>

datatype ('n, 't) happening =
    Attempted string "('n, 't) Event"
  | Delivered string "('n, 't) Event"
  | Rejected string "('n, 't) Event"
  | Dropped string "('n, 't) Event"
  | Evicted string bytes
  | Quarantined string bytes

section \<open>State\<close>

type_synonym stored_spool = "DiskSpool \<times> disk"

text \<open>A sink is the name it is registered under and the name it gives itself.\<close>

record DispatcherConfig =
  dc_spool_root :: string
  dc_spool :: SpoolConfig
  dc_retry_interval :: duration
  dc_strict_redaction :: bool

definition default_dispatcher_config :: DispatcherConfig where
  "default_dispatcher_config =
     \<lparr>dc_spool_root = ''event-spool'', dc_spool = default_spool_config, dc_retry_interval = from_secs 30, dc_strict_redaction = False\<rparr>"

record 'n DispatcherInner =
  di_bindings :: "'n Binding list"
  di_sinks :: "(string \<times> string) list"
  di_dedupe_state :: DedupeState
  di_throttle_state :: ThrottleState
  di_spools :: "(string \<times> stored_spool) list"
  di_cfg :: DispatcherConfig

text \<open>\<open>spawn\<close> up to the two tasks: every sink gets a spool of its own, opened on what its directory holds.\<close>

datatype SpawnError = Spawn_Root string | Spawn_Spool string fault

fun open_spools ::
  "(string \<Rightarrow> FsFaults) \<Rightarrow> (string \<Rightarrow> disk) \<Rightarrow> DispatcherConfig \<Rightarrow> string list \<Rightarrow> (SpawnError, (string \<times> stored_spool) list) result" where
  "open_spools flt disks cfg [] = Inr []"
| "open_spools flt disks cfg (name # names) =
     (case spool_open (flt name) (disks name) (spool_path (dc_spool_root cfg) name) (dc_spool cfg) of
        (Inl e, _) \<Rightarrow> Inl (Spawn_Spool name e)
      | (Inr s, ops) \<Rightarrow>
          (case open_spools flt disks cfg names of
             Inl e \<Rightarrow> Inl e
           | Inr spools \<Rightarrow> Inr ((name, s, fs_run (disks name) ops) # spools)))"

definition dispatcher_new ::
  "string option \<Rightarrow> (string \<Rightarrow> FsFaults) \<Rightarrow> (string \<Rightarrow> disk) \<Rightarrow> 'n Binding list \<Rightarrow> (string \<times> string) list \<Rightarrow> DispatcherConfig
     \<Rightarrow> (SpawnError, 'n DispatcherInner) result" where
  "dispatcher_new mkdir flt disks bindings sinks cfg =
     (case mkdir of
        Some e \<Rightarrow> Inl (Spawn_Root e)
      | None \<Rightarrow>
          (case open_spools flt disks cfg (map fst sinks) of
             Inl e \<Rightarrow> Inl e
           | Inr spools \<Rightarrow>
               Inr \<lparr>di_bindings = bindings, di_sinks = sinks, di_dedupe_state = [], di_throttle_state = [],
                    di_spools = spools, di_cfg = cfg\<rparr>))"

definition retry_period :: "DispatcherConfig \<Rightarrow> duration" where
  "retry_period cfg = (if dc_retry_interval cfg = 0 then from_secs 30 else dc_retry_interval cfg)"

section \<open>Dispatching\<close>

definition binding_passes ::
  "('n, 't) EventLib \<Rightarrow> instant \<Rightarrow> instant \<Rightarrow> 'n Binding \<Rightarrow> ('n, 't) Event \<Rightarrow> 'n DispatcherInner \<Rightarrow> bool \<times> 'n DispatcherInner" where
  "binding_passes lib now now' b ev st =
     (if \<not> binding_matches lib (bi_match b) ev then (False, st)
      else
        let (suppress, st) =
          (case bi_dedupe b of
             None \<Rightarrow> (False, st)
           | Some d \<Rightarrow>
               let (suppress, seen) = should_suppress lib now d ev (di_dedupe_state st) in (suppress, st\<lparr>di_dedupe_state := seen\<rparr>))
        in if suppress then (False, st)
           else case bi_throttle b of
             None \<Rightarrow> (True, st)
           | Some interval \<Rightarrow>
               let (okay, past) = allow now' (bi_name b) interval (di_throttle_state st) in (okay, st\<lparr>di_throttle_state := past\<rparr>))"

definition evicted :: "string \<Rightarrow> stored_spool \<Rightarrow> bool \<Rightarrow> DiskSpool \<Rightarrow> ('n, 't) happening list" where
  "evicted name sd added s' =
     map (Evicted name) (take (spool_len (fst sd) + (if added then 1 else 0) - spool_len s') (payloads (fst sd) (snd sd)))"

definition spool_one ::
  "('n, 't) Codec \<Rightarrow> FsFaults \<Rightarrow> string \<Rightarrow> ('n, 't) Event \<Rightarrow> 'n DispatcherInner \<Rightarrow> 'n DispatcherInner \<times> ('n, 't) happening list" where
  "spool_one codec flt sink_name ev st =
     (case map_of (di_spools st) sink_name of
        None \<Rightarrow> (st, [Dropped sink_name ev])
      | Some (s, d) \<Rightarrow>
          (case co_encode codec ev of
             Inl _ \<Rightarrow> (st, [Dropped sink_name ev])
           | Inr bytes \<Rightarrow>
               let (r, s', ops) = push flt d s bytes
               in (st\<lparr>di_spools := AList.update sink_name (s', fs_run d ops) (di_spools st)\<rparr>,
                   evicted sink_name (s, d) (\<not> isl r) s' @ (if isl r then [Dropped sink_name ev] else []))))"

definition deliver_one ::
  "('n, 't) Codec \<Rightarrow> FsFaults \<Rightarrow> answer \<Rightarrow> string \<Rightarrow> ('n, 't) Event \<Rightarrow> 'n DispatcherInner
     \<Rightarrow> 'n DispatcherInner \<times> ('n, 't) happening list" where
  "deliver_one codec flt result sref ev st =
     (case map_of (di_sinks st) sref of
        None \<Rightarrow> (st, [])
      | Some sink_name \<Rightarrow>
          (case result of
             Inr _ \<Rightarrow> (st, [Attempted sref ev, Delivered sref ev])
           | Inl e \<Rightarrow>
               if is_retryable e then let (st, log) = spool_one codec flt sink_name ev st in (st, Attempted sref ev # log)
               else (st, [Attempted sref ev, Rejected sref ev])))"

section \<open>Retrying\<close>

definition spool_update :: "string \<Rightarrow> DiskSpool \<Rightarrow> disk \<Rightarrow> 'n DispatcherInner \<Rightarrow> 'n DispatcherInner" where
  "spool_update name s d st = st\<lparr>di_spools := AList.update name (s, d) (di_spools st)\<rparr>"

text \<open>What is done with a peeked entry once its event is decoded and the sink has answered; whether the drain goes on.\<close>

definition settle ::
  "('n, 't) Codec \<Rightarrow> FsFaults \<Rightarrow> answer \<Rightarrow> string \<Rightarrow> SpoolEntry \<Rightarrow> stored_spool \<Rightarrow> stored_spool \<times> ('n, 't) happening list \<times> bool" where
  "settle codec flt result name entry sd =
     (let (s, d) = sd in
      case co_decode codec (se_payload entry) of
        None \<Rightarrow> let (_, s', ops) = quarantine flt d s (se_seq entry) in ((s', fs_run d ops), [Quarantined name (se_payload entry)], True)
      | Some ev \<Rightarrow>
          (case result of
             Inr _ \<Rightarrow> let (_, s', ops) = spool_remove flt d s (se_seq entry) in ((s', fs_run d ops), [Delivered name ev], True)
           | Inl e \<Rightarrow>
               if is_retryable e then ((s, d), [], False)
               else let (_, s', ops) = spool_remove flt d s (se_seq entry) in ((s', fs_run d ops), [Rejected name ev], True)))"

lemma settle_shrinks:
  assumes "peek flt d s = Inr (Some entry)" "settle codec flt' result name entry (s, d) = ((s', d'), log, True)"
  shows "length (sp_queue s') < length (sp_queue s)"
proof -
  obtain qs where q: "sp_queue s = se_seq entry # qs"
    using assms(1) by (auto simp: peek_def Let_def split: list.splits sum.splits)
  have "length (sp_queue s') = length qs" if "spool_remove flt' d s (se_seq entry) = (b, s', ops)" for b ops s'
    using that q by (auto simp: spool_remove_def split: if_splits prod.splits)
  moreover have "length (sp_queue s') = length qs" if "quarantine flt' d s (se_seq entry) = (b, s', ops)" for b ops s'
    using that q by (auto simp: quarantine_def Let_def split: if_splits)
  ultimately show ?thesis
    using assms(2) q by (fastforce simp: settle_def Let_def split: option.splits sum.splits if_splits prod.splits)
qed

text \<open>\<open>drain_spool\<close> on its own: the \<open>i\<close>-th round reads with the faults and gets the answer of that number.\<close>

function drain_spool ::
  "('n, 't) Codec \<Rightarrow> (nat \<Rightarrow> FsFaults) \<Rightarrow> (nat \<Rightarrow> answer) \<Rightarrow> nat \<Rightarrow> string \<Rightarrow> stored_spool \<Rightarrow> stored_spool \<times> ('n, 't) happening list" where
  "drain_spool codec flt result i name sd =
     (case peek (flt i) (snd sd) (fst sd) of
        Inl _ \<Rightarrow> (sd, [])
      | Inr None \<Rightarrow> (sd, [])
      | Inr (Some entry) \<Rightarrow>
          (case settle codec (flt i) (result i) name entry sd of
             (sd', log, go_on) \<Rightarrow>
               if go_on then let (sd'', log') = drain_spool codec flt result (i + 1) name sd' in (sd'', log @ log')
               else (sd', log)))"
  by pat_completeness auto
termination
  by (relation "measure (\<lambda>(_, _, _, _, _, sd). length (sp_queue (fst sd)))") (auto intro: settle_shrinks [OF _ sym])

declare drain_spool.simps [simp del]

section \<open>Both tasks\<close>

text \<open>
  The dispatching task is at an event with the sinks of the current binding and the bindings left to try; the retry task has the
  spools left to drain, and the entry it has peeked at and not settled.
\<close>

record ('n, 't) Tasks =
  tk_inner :: "'n DispatcherInner"
  tk_event :: "(('n, 't) Event \<times> string list \<times> 'n Binding list) option"
  tk_pending :: "string list"
  tk_peeked :: "SpoolEntry option"

datatype ('n, 't) dispatch_input =
    In_Receive "('n, 't) Event"
  | In_Binding instant instant
  | In_Deliver answer FsFaults
  | In_Tick
  | In_Peek FsFaults
  | In_Answer answer FsFaults

definition drain_pending :: "'n DispatcherInner \<Rightarrow> string list" where
  "drain_pending st = map fst (filter (\<lambda>(_, s, _). \<not> spool_is_empty s) (di_spools st))"

fun dispatch_step ::
  "('n, 't) EventLib \<Rightarrow> ('n, 't) Codec \<Rightarrow> ('n, 't) dispatch_input \<Rightarrow> ('n, 't) Tasks \<Rightarrow> ('n, 't) Tasks \<times> ('n, 't) happening list" where
  "dispatch_step lib codec (In_Receive ev) t =
     (case tk_event t of
        None \<Rightarrow> (t\<lparr>tk_event := Some (ev, [], di_bindings (tk_inner t))\<rparr>, [])
      | Some _ \<Rightarrow> (t, []))"
| "dispatch_step lib codec (In_Binding now now') t =
     (case tk_event t of
        Some (ev, [], []) \<Rightarrow> (t\<lparr>tk_event := None\<rparr>, [])
      | Some (ev, [], b # bs) \<Rightarrow>
          let (okay, st) = binding_passes lib now now' b ev (tk_inner t)
          in (t\<lparr>tk_inner := st, tk_event := Some (ev, if okay then bi_sinks b else [], bs)\<rparr>, [])
      | _ \<Rightarrow> (t, []))"
| "dispatch_step lib codec (In_Deliver result flt) t =
     (case tk_event t of
        Some (ev, sref # srefs, bs) \<Rightarrow>
          let (st, log) = deliver_one codec flt result sref ev (tk_inner t)
          in (t\<lparr>tk_inner := st, tk_event := Some (ev, srefs, bs)\<rparr>, log)
      | _ \<Rightarrow> (t, []))"
| "dispatch_step lib codec In_Tick t = (if tk_pending t = [] then (t\<lparr>tk_pending := drain_pending (tk_inner t)\<rparr>, []) else (t, []))"
| "dispatch_step lib codec (In_Peek flt) t =
     (case (tk_pending t, tk_peeked t) of
        (name # names, None) \<Rightarrow>
          (case (map_of (di_sinks (tk_inner t)) name, map_of (di_spools (tk_inner t)) name) of
             (Some _, Some (s, d)) \<Rightarrow>
               (case peek flt d s of
                  Inr (Some entry) \<Rightarrow> (t\<lparr>tk_peeked := Some entry\<rparr>, [])
                | _ \<Rightarrow> (t\<lparr>tk_pending := names\<rparr>, []))
           | _ \<Rightarrow> (t\<lparr>tk_pending := names\<rparr>, []))
      | _ \<Rightarrow> (t, []))"
| "dispatch_step lib codec (In_Answer result flt) t =
     (case (tk_pending t, tk_peeked t) of
        (name # names, Some entry) \<Rightarrow>
          (case map_of (di_spools (tk_inner t)) name of
             None \<Rightarrow> (t\<lparr>tk_peeked := None\<rparr>, [])
           | Some sd \<Rightarrow>
               let ((s', d'), log, go_on) = settle codec flt result name entry sd
               in (t\<lparr>tk_inner := spool_update name s' d' (tk_inner t), tk_peeked := None, tk_pending := (if go_on then name # names else names)\<rparr>, log))
      | _ \<Rightarrow> (t, []))"

definition tasks_new :: "'n DispatcherInner \<Rightarrow> ('n, 't) Tasks" where
  "tasks_new st = \<lparr>tk_inner = st, tk_event = None, tk_pending = [], tk_peeked = None\<rparr>"

fun dispatch_run ::
  "('n, 't) EventLib \<Rightarrow> ('n, 't) Codec \<Rightarrow> ('n, 't) dispatch_input list \<Rightarrow> ('n, 't) Tasks \<Rightarrow> ('n, 't) Tasks \<times> ('n, 't) happening list" where
  "dispatch_run lib codec [] t = (t, [])"
| "dispatch_run lib codec (i # is) t =
     (let (t, log) = dispatch_step lib codec i t; (t, log') = dispatch_run lib codec is t in (t, log @ log'))"

section \<open>Stores\<close>

text \<open>What the dispatcher relies on: numbered entries that leave at the front, are added at the end, and never change.\<close>

locale entry_store =
  fixes valid :: "'s \<Rightarrow> bool" and entries :: "'s \<Rightarrow> (nat \<times> 'p) list" and next_number :: "'s \<Rightarrow> nat"
    and add :: "'f \<Rightarrow> 'p \<Rightarrow> 's \<Rightarrow> bool \<times> 's" and take_front :: "'f \<Rightarrow> nat \<Rightarrow> 's \<Rightarrow> 's"
  assumes numbers: "valid s \<Longrightarrow> distinct (map fst (entries s)) \<and> (\<forall>x \<in> set (entries s). fst x < next_number s)"
    and add_law: "valid s \<Longrightarrow> add f p s = (okay, s') \<Longrightarrow>
      valid s' \<and> next_number s \<le> next_number s' \<and> (\<exists>k. entries s' = drop k (entries s) @ (if okay then [(next_number s, p)] else []))"
    and take_law: "valid s \<Longrightarrow> valid (take_front f q s) \<and> next_number (take_front f q s) = next_number s
      \<and> entries (take_front f q s) = (if entries s \<noteq> [] \<and> fst (hd (entries s)) = q then tl (entries s) else entries s)"
begin

text \<open>A peeked entry that is still there is unchanged.\<close>

lemma peeked_kept:
  assumes "valid s" "add f p s = (okay, s')" "q < next_number s" "\<forall>x. (q, x) \<in> set (entries s) \<longrightarrow> x = y"
  shows "q < next_number s' \<and> (\<forall>x. (q, x) \<in> set (entries s') \<longrightarrow> x = y)"
  using add_law [OF assms(1,2)] assms(3,4) by (fastforce split: if_splits dest: in_set_dropD)

lemma add_conserves:
  assumes "valid s" "add f p s = (okay, s')"
  shows "length (filter P (map snd (entries s))) + (if P p then 1 else 0) =
    length (filter P (map snd (entries s')))
      + length (filter P (take (length (entries s) + (if okay then 1 else 0) - length (entries s')) (map snd (entries s))))
      + (if okay \<or> \<not> P p then 0 else 1)"
proof -
  obtain k where k: "entries s' = drop k (entries s) @ (if okay then [(next_number s, p)] else [])" using add_law [OF assms] by blast
  have n: "take (length (entries s) + (if okay then 1 else 0) - length (entries s')) (entries s) = take k (entries s)"
    by (cases "k \<le> length (entries s)") (simp_all add: k)
  have "filter P (map snd (entries s)) = filter P (map snd (take k (entries s))) @ filter P (map snd (drop k (entries s)))"
    by (metis append_take_drop_id filter_append map_append)
  then show ?thesis unfolding take_map n by (simp add: k)
qed

lemma take_conserves:
  assumes "valid s" "\<forall>x. (q, x) \<in> set (entries s) \<longrightarrow> x = y"
  shows "length (filter P (map snd (entries s))) \<le> length (filter P (map snd (entries (take_front f q s)))) + (if P y then 1 else 0)"
proof (cases "entries s \<noteq> [] \<and> fst (hd (entries s)) = q")
  case True
  then obtain x es where e: "entries s = (q, x) # es" by (cases "entries s") auto
  then have "x = y" using assms(2) by simp
  then show ?thesis using take_law [OF assms(1), of f q] e by simp
next
  case False
  then have "entries (take_front f q s) = entries s" using take_law [OF assms(1), of f q] by auto
  then show ?thesis by simp
qed

end

definition spool_entries :: "stored_spool \<Rightarrow> (nat \<times> bytes) list" where
  "spool_entries sd = zip (sp_queue (fst sd)) (payloads (fst sd) (snd sd))"

definition spool_add :: "FsFaults \<Rightarrow> bytes \<Rightarrow> stored_spool \<Rightarrow> bool \<times> stored_spool" where
  "spool_add flt p sd = (let (r, s', ops) = push flt (snd sd) (fst sd) p in (\<not> isl r, s', fs_run (snd sd) ops))"

definition spool_take :: "FsFaults \<Rightarrow> nat \<Rightarrow> stored_spool \<Rightarrow> stored_spool" where
  "spool_take flt q sd = (let (_, s', ops) = spool_remove flt (snd sd) (fst sd) q in (s', fs_run (snd sd) ops))"

definition spool_set_aside :: "FsFaults \<Rightarrow> nat \<Rightarrow> stored_spool \<Rightarrow> stored_spool" where
  "spool_set_aside flt q sd = (let (_, s', ops) = quarantine flt (snd sd) (fst sd) q in (s', fs_run (snd sd) ops))"

abbreviation spool_valid :: "stored_spool \<Rightarrow> bool" where
  "spool_valid sd \<equiv> stored (fst sd) (snd sd)"

lemma entries_snd [simp]: "map snd (spool_entries sd) = payloads (fst sd) (snd sd)"
  by (simp add: spool_entries_def payloads_def)

lemma entries_fst [simp]: "map fst (spool_entries sd) = sp_queue (fst sd)"
  by (simp add: spool_entries_def payloads_def)

lemma entries_length [simp]: "length (spool_entries sd) = spool_len (fst sd)"
  by (simp add: spool_entries_def payloads_def spool_len_def)

lemma entries_eq: "spool_entries sd = es \<longleftrightarrow> sp_queue (fst sd) = map fst es \<and> payloads (fst sd) (snd sd) = map snd es"
  by (metis entries_fst entries_snd spool_entries_def zip_map_fst_snd)

lemma spool_numbers: "spool_valid sd \<Longrightarrow> distinct (map fst (spool_entries sd)) \<and> (\<forall>x \<in> set (spool_entries sd). fst x < sp_next_seq (fst sd))"
  by (auto simp: stored_def strict_sorted_iff spool_entries_def payloads_def dest: set_zip_leftD)

lemma spool_add_law:
  assumes "spool_valid sd" "spool_add flt p sd = (okay, sd')"
  shows "spool_valid sd' \<and> sp_next_seq (fst sd) \<le> sp_next_seq (fst sd')
    \<and> (\<exists>k. spool_entries sd' = drop k (spool_entries sd) @ (if okay then [(sp_next_seq (fst sd), p)] else []))"
proof -
  obtain r s' ops where p: "push flt (snd sd) (fst sd) p = (r, s', ops)" by (cases "push flt (snd sd) (fst sd) p") auto
  obtain k where k: "stored s' (fs_run (snd sd) ops)" "payloads s' (fs_run (snd sd) ops) = drop k (payloads (fst sd) (snd sd)) @ (if isl r then [] else [p])"
    "sp_queue s' = drop k (sp_queue (fst sd)) @ (if isl r then [] else [sp_next_seq (fst sd)])" "sp_next_seq (fst sd) \<le> sp_next_seq s'"
    by (rule push_keeps [OF assms(1) p])
  have sd': "sd' = (s', fs_run (snd sd) ops)" "okay = (\<not> isl r)" using assms(2) p by (auto simp: spool_add_def)
  have "spool_entries sd' = drop k (spool_entries sd) @ (if okay then [(sp_next_seq (fst sd), p)] else [])"
    unfolding entries_eq using k sd' by (simp flip: drop_map)
  then show ?thesis using k(1,4) sd' by auto
qed

lemma front_entries:
  assumes "payloads s' d' = (if gone then tl (payloads s d) else payloads s d)" "gone \<longleftrightarrow> sp_queue s \<noteq> [] \<and> hd (sp_queue s) = q"
    and "sp_queue s' = (if gone then tl (sp_queue s) else sp_queue s)"
  shows "spool_entries (s', d') =
    (if spool_entries (s, d) \<noteq> [] \<and> fst (hd (spool_entries (s, d))) = q then tl (spool_entries (s, d)) else spool_entries (s, d))"
proof -
  have "spool_entries (s, d) \<noteq> [] \<and> fst (hd (spool_entries (s, d))) = q \<longleftrightarrow> gone"
    unfolding assms(2) by (cases "sp_queue s") (simp_all add: spool_entries_def payloads_def)
  then show ?thesis unfolding entries_eq using assms(1,3) by (simp add: map_tl)
qed

lemma spool_take_law:
  assumes "spool_valid sd"
  shows "spool_valid (spool_take flt q sd) \<and> sp_next_seq (fst (spool_take flt q sd)) = sp_next_seq (fst sd)
    \<and> spool_entries (spool_take flt q sd) =
        (if spool_entries sd \<noteq> [] \<and> fst (hd (spool_entries sd)) = q then tl (spool_entries sd) else spool_entries sd)"
proof -
  obtain s d where sd: "sd = (s, d)" by (cases sd)
  obtain gone s' ops where r: "spool_remove flt d s q = (gone, s', ops)" by (cases "spool_remove flt d s q") auto
  have st: "stored s d" using assms sd by simp
  note keeps = remove_keeps [OF st r]
  have s': "sp_queue s' = (if gone then tl (sp_queue s) else sp_queue s)" "sp_next_seq s' = sp_next_seq s"
    using r by (auto simp: spool_remove_def split: if_splits prod.splits)
  show ?thesis using keeps s' front_entries [of s' "fs_run d ops" gone s d q] by (simp add: spool_take_def sd r)
qed

lemma spool_set_aside_law:
  assumes "spool_valid sd"
  shows "spool_valid (spool_set_aside flt q sd) \<and> sp_next_seq (fst (spool_set_aside flt q sd)) = sp_next_seq (fst sd)
    \<and> spool_entries (spool_set_aside flt q sd) =
        (if spool_entries sd \<noteq> [] \<and> fst (hd (spool_entries sd)) = q then tl (spool_entries sd) else spool_entries sd)"
proof -
  obtain s d where sd: "sd = (s, d)" by (cases sd)
  obtain gone s' ops where r: "quarantine flt d s q = (gone, s', ops)" by (cases "quarantine flt d s q") auto
  have st: "stored s d" using assms sd by simp
  note keeps = quarantine_keeps [OF st r]
  have s': "sp_queue s' = (if gone then tl (sp_queue s) else sp_queue s)" "sp_next_seq s' = sp_next_seq s"
    using r by (auto simp: quarantine_def Let_def split: if_splits)
  show ?thesis using keeps s' front_entries [of s' "fs_run d ops" gone s d q] by (simp add: spool_set_aside_def sd r)
qed

interpretation kept: entry_store spool_valid spool_entries "\<lambda>sd. sp_next_seq (fst sd)" spool_add spool_take
  by unfold_locales (use spool_numbers spool_add_law spool_take_law in blast)+

interpretation aside: entry_store spool_valid spool_entries "\<lambda>sd. sp_next_seq (fst sd)" spool_add spool_set_aside
  by unfold_locales (use spool_numbers spool_add_law spool_set_aside_law in blast)+

section \<open>Accounting\<close>

text \<open>How often event \<open>e\<close> was handed to sink \<open>n\<close>, how often that ended, and how many copies wait in the spool of the sink.\<close>

definition attempts :: "string \<Rightarrow> ('n, 't) Event \<Rightarrow> ('n, 't) happening list \<Rightarrow> nat" where
  "attempts n e log = length (filter (\<lambda>h. h = Attempted n e) log)"

definition settles :: "('n, 't) Codec \<Rightarrow> string \<Rightarrow> ('n, 't) Event \<Rightarrow> ('n, 't) happening \<Rightarrow> bool" where
  "settles codec n e h =
     (case h of
        Delivered m ev \<Rightarrow> m = n \<and> ev = e
      | Rejected m ev \<Rightarrow> m = n \<and> ev = e
      | Dropped m ev \<Rightarrow> m = n \<and> ev = e
      | Evicted m p \<Rightarrow> m = n \<and> co_decode codec p = Some e
      | _ \<Rightarrow> False)"

definition settled :: "('n, 't) Codec \<Rightarrow> string \<Rightarrow> ('n, 't) Event \<Rightarrow> ('n, 't) happening list \<Rightarrow> nat" where
  "settled codec n e log = length (filter (settles codec n e) log)"

definition copies :: "('n, 't) Codec \<Rightarrow> ('n, 't) Event \<Rightarrow> bytes list \<Rightarrow> nat" where
  "copies codec e ps = length (filter (\<lambda>p. co_decode codec p = Some e) ps)"

definition spooled :: "('n, 't) Codec \<Rightarrow> string \<Rightarrow> ('n, 't) Event \<Rightarrow> 'n DispatcherInner \<Rightarrow> nat" where
  "spooled codec n e st = (case map_of (di_spools st) n of None \<Rightarrow> 0 | Some (s, d) \<Rightarrow> copies codec e (payloads s d))"

lemma attempts_simps [simp]: "attempts n e [] = 0" "attempts n e (xs @ ys) = attempts n e xs + attempts n e ys"
  "attempts n e (h # xs) = (if h = Attempted n e then 1 else 0) + attempts n e xs"
  by (simp_all add: attempts_def)

lemma settled_simps [simp]: "settled codec n e [] = 0" "settled codec n e (xs @ ys) = settled codec n e xs + settled codec n e ys"
  "settled codec n e (h # xs) = (if settles codec n e h then 1 else 0) + settled codec n e xs"
  by (simp_all add: settled_def)

lemma settles_simps [simp]:
  "settles codec n e (Attempted m ev) = False" "settles codec n e (Quarantined m p) = False"
  "settles codec n e (Delivered m ev) \<longleftrightarrow> m = n \<and> ev = e" "settles codec n e (Rejected m ev) \<longleftrightarrow> m = n \<and> ev = e"
  "settles codec n e (Dropped m ev) \<longleftrightarrow> m = n \<and> ev = e" "settles codec n e (Evicted m p) \<longleftrightarrow> m = n \<and> co_decode codec p = Some e"
  by (simp_all add: settles_def)

lemma attempts_evicted [simp]: "attempts n e (evicted m sd b s') = 0"
  by (simp add: attempts_def evicted_def filter_map o_def)

lemma settled_evicted:
  "settled codec n e (evicted m sd b s') =
     (if m = n then copies codec e (take (spool_len (fst sd) + (if b then 1 else 0) - spool_len s') (payloads (fst sd) (snd sd))) else 0)"
  by (simp add: settled_def evicted_def filter_map o_def copies_def)

text \<open>The spools are sound, and the entry the retry task has peeked at is, if still spooled, what was peeked.\<close>

definition spools_valid :: "'n DispatcherInner \<Rightarrow> bool" where
  "spools_valid st \<longleftrightarrow> (\<forall>n sd. map_of (di_spools st) n = Some sd \<longrightarrow> spool_valid sd)"

definition intact :: "string \<Rightarrow> SpoolEntry \<Rightarrow> 'n DispatcherInner \<Rightarrow> bool" where
  "intact n entry st \<longleftrightarrow> (\<forall>sd. map_of (di_spools st) n = Some sd \<longrightarrow>
     se_seq entry < sp_next_seq (fst sd) \<and> (\<forall>x. (se_seq entry, x) \<in> set (spool_entries sd) \<longrightarrow> x = se_payload entry))"

lemma spool_one_add:
  assumes "map_of (di_spools st) m = Some sd" "co_encode codec ev = Inr p" "spool_add flt p sd = (okay, sd')"
  shows "spool_one codec flt m ev st =
    (st\<lparr>di_spools := AList.update m sd' (di_spools st)\<rparr>, evicted m sd okay (fst sd') @ (if okay then [] else [Dropped m ev]))"
  using assms by (cases sd) (auto simp: spool_one_def spool_add_def split: prod.splits)

lemma spool_one_accounts:
  assumes "spools_valid st" "spool_one codec flt m ev st = (st', log)" "\<And>ev p. co_encode codec ev = Inr p \<Longrightarrow> co_decode codec p = Some ev"
  shows "spools_valid st'" "di_sinks st' = di_sinks st" "intact n entry st \<Longrightarrow> intact n entry st'" "attempts n e log = 0"
    "(if m = n \<and> ev = e then 1 else 0) + spooled codec n e st \<le> settled codec n e log + spooled codec n e st'"
proof -
  have "spools_valid st' \<and> di_sinks st' = di_sinks st \<and> (intact n entry st \<longrightarrow> intact n entry st') \<and> attempts n e log = 0
    \<and> (if m = n \<and> ev = e then 1 else 0) + spooled codec n e st \<le> settled codec n e log + spooled codec n e st'"
  proof (cases "\<exists>sd p. map_of (di_spools st) m = Some sd \<and> co_encode codec ev = Inr p")
    case False
    then have "st' = st" "log = [Dropped m ev]"
      using assms(2) by (auto simp: spool_one_def split: option.splits sum.splits)
    then show ?thesis using assms(1) by simp
  next
    case True
    then obtain sd p where m: "map_of (di_spools st) m = Some sd" and p: "co_encode codec ev = Inr p" by blast
    obtain okay sd' where a: "spool_add flt p sd = (okay, sd')" by (cases "spool_add flt p sd")
    have v: "spool_valid sd" using assms(1) m by (simp add: spools_valid_def)
    have st': "st' = st\<lparr>di_spools := AList.update m sd' (di_spools st)\<rparr>"
      and log: "log = evicted m sd okay (fst sd') @ (if okay then [] else [Dropped m ev])"
      using assms(2) spool_one_add [OF m p a] by auto
    have look: "map_of (di_spools st') k = (if k = m then Some sd' else map_of (di_spools st) k)" for k
      by (simp add: st' update_conv')
    have "spools_valid st'" using kept.add_law [OF v a] assms(1) by (auto simp: spools_valid_def look)
    moreover have "intact n entry st'" if "intact n entry st"
      using kept.peeked_kept [OF v a, of "se_seq entry" "se_payload entry"] that m
      by (cases "n = m") (simp_all add: intact_def look del: split_paired_All)
    moreover have "(if m = n \<and> ev = e then 1 else 0) + spooled codec n e st \<le> settled codec n e log + spooled codec n e st'"
    proof (cases "m = n")
      case True
      have d: "co_decode codec p = Some ev" by (rule assms(3) [OF p])
      show ?thesis
        using kept.add_conserves [OF v a, of "\<lambda>p. co_decode codec p = Some e"] True m d
        by (auto simp: spooled_def look log settled_evicted copies_def split: prod.splits if_splits)
    qed (simp add: spooled_def look log settled_evicted)
    ultimately show ?thesis by (simp add: st' log)
  qed
  then show "spools_valid st'" "di_sinks st' = di_sinks st" "intact n entry st \<Longrightarrow> intact n entry st'" "attempts n e log = 0"
    "(if m = n \<and> ev = e then 1 else 0) + spooled codec n e st \<le> settled codec n e log + spooled codec n e st'" by auto
qed

lemma settle_store:
  "settle codec flt result name entry sd =
     (case co_decode codec (se_payload entry) of
        None \<Rightarrow> (spool_set_aside flt (se_seq entry) sd, [Quarantined name (se_payload entry)], True)
      | Some ev \<Rightarrow>
          (case result of
             Inr _ \<Rightarrow> (spool_take flt (se_seq entry) sd, [Delivered name ev], True)
           | Inl e \<Rightarrow> if is_retryable e then (sd, [], False) else (spool_take flt (se_seq entry) sd, [Rejected name ev], True)))"
  by (simp add: settle_def spool_take_def spool_set_aside_def Let_def split: prod.splits option.splits sum.splits)

lemma settle_accounts:
  assumes "spool_valid sd" "settle codec flt result name entry sd = (sd', log, go_on)"
    and "\<forall>x. (se_seq entry, x) \<in> set (spool_entries sd) \<longrightarrow> x = se_payload entry"
  shows "spool_valid sd' \<and> attempts name e log = 0
    \<and> copies codec e (payloads (fst sd) (snd sd)) \<le> settled codec name e log + copies codec e (payloads (fst sd') (snd sd'))"
proof -
  have "copies codec e (payloads (fst sd) (snd sd)) \<le> copies codec e (payloads (fst (f flt (se_seq entry) sd)) (snd (f flt (se_seq entry) sd)))
      + (if co_decode codec (se_payload entry) = Some e then 1 else 0)" if "f \<in> {spool_take, spool_set_aside}" for f
    using that kept.take_conserves [OF assms(1,3), of "\<lambda>p. co_decode codec p = Some e" flt]
      aside.take_conserves [OF assms(1,3), of "\<lambda>p. co_decode codec p = Some e" flt] by (auto simp: copies_def)
  from this [of spool_take] this [of spool_set_aside] show ?thesis
    using assms(1,2) conjunct1 [OF kept.take_law [OF assms(1), of flt "se_seq entry"]]
      conjunct1 [OF aside.take_law [OF assms(1), of flt "se_seq entry"]]
    by (auto simp: settle_store split: option.splits sum.splits if_splits)
qed

lemma settle_attempts: "settle codec flt result name entry sd = (sd', log, go_on) \<Longrightarrow> attempts n e log = 0"
  by (auto simp: settle_store split: option.splits sum.splits if_splits)

lemma peek_intact:
  assumes "spools_valid st" "map_of (di_spools st) n = Some (s, d)" "peek flt d s = Inr (Some entry)"
  shows "intact n entry st"
proof -
  have v: "stored s d" using assms(1,2) by (auto simp: spools_valid_def)
  obtain qs where q: "sp_queue s = se_seq entry # qs" and b: "bin d (se_seq entry) = Some (se_payload entry)"
    using peek_front(1) [OF v assms(3)] v by (cases "sp_queue s") (auto simp: payloads_def stored_def)
  have "se_seq entry < sp_next_seq s" using v q by (simp add: stored_def)
  moreover have "x = se_payload entry" if "(se_seq entry, x) \<in> set (spool_entries (s, d))" for x
    using that b by (auto simp: spool_entries_def payloads_def zip_map2 zip_same_conv_map)
  ultimately show ?thesis using assms(2) by (simp add: intact_def)
qed

definition tasks_valid :: "('n, 't) Tasks \<Rightarrow> bool" where
  "tasks_valid t \<longleftrightarrow> spools_valid (tk_inner t) \<and> (\<forall>x \<in> set (di_sinks (tk_inner t)). snd x = fst x) \<and> (tk_pending t = [] \<longrightarrow> tk_peeked t = None)
     \<and> (\<forall>name names entry. tk_pending t = name # names \<longrightarrow> tk_peeked t = Some entry \<longrightarrow> intact name entry (tk_inner t))"

lemma binding_passes_frame:
  "binding_passes lib now now' b ev st = (okay, st') \<Longrightarrow> di_spools st' = di_spools st \<and> di_sinks st' = di_sinks st"
  by (auto simp: binding_passes_def Let_def split: if_splits option.splits prod.splits)

lemma deliver_accounts:
  assumes "spools_valid st" "\<forall>x \<in> set (di_sinks st). snd x = fst x" "deliver_one codec flt result sref ev st = (st', log)"
    and "\<And>ev p. co_encode codec ev = Inr p \<Longrightarrow> co_decode codec p = Some ev"
  shows "spools_valid st' \<and> di_sinks st' = di_sinks st \<and> (\<forall>m entry. intact m entry st \<longrightarrow> intact m entry st')
    \<and> attempts n e log + spooled codec n e st \<le> settled codec n e log + spooled codec n e st'"
proof (cases "\<exists>x. map_of (di_sinks st) sref = Some x \<and> (\<exists>err. result = Inl err \<and> is_retryable err)")
  case True
  then have "map_of (di_sinks st) sref = Some sref" using assms(2) by (fastforce dest: map_of_SomeD)
  with True obtain log' where s: "spool_one codec flt sref ev st = (st', log')" "log = Attempted sref ev # log'"
    using assms(3) by (auto simp: deliver_one_def split: prod.splits)
  note acc = spool_one_accounts [OF assms(1) s(1) assms(4)]
  show ?thesis using acc(1,2,3) acc(4,5) [of n e] s(2) by auto
next
  case False
  then have "st' = st" and l: "log \<in> {[], [Attempted sref ev, Delivered sref ev], [Attempted sref ev, Rejected sref ev]}"
    using assms(3) by (auto simp: deliver_one_def split: option.splits sum.splits if_splits)
  moreover have "attempts n e log \<le> settled codec n e log" using l by auto
  ultimately show ?thesis using assms(1) by simp
qed

lemma answer_accounts:
  assumes "spools_valid st" "intact name entry st" "map_of (di_spools st) name = Some sd"
    "settle codec flt result name entry sd = ((s', d'), log, go_on)"
  shows "spools_valid (spool_update name s' d' st)
    \<and> attempts n e log + spooled codec n e st \<le> settled codec n e log + spooled codec n e (spool_update name s' d' st)"
proof -
  have sd: "spool_valid sd" "\<forall>x. (se_seq entry, x) \<in> set (spool_entries sd) \<longrightarrow> x = se_payload entry"
    using assms(1-3) by (auto simp: spools_valid_def intact_def)
  note acc = settle_accounts [OF sd(1) assms(4) sd(2)]
  have look: "map_of (di_spools (spool_update name s' d' st)) k = (if k = name then Some (s', d') else map_of (di_spools st) k)" for k
    by (simp add: spool_update_def update_conv')
  have "spools_valid (spool_update name s' d' st)"
    using acc [of e] assms(1) by (auto simp: spools_valid_def look)
  moreover have "spooled codec n e st \<le> settled codec n e log + spooled codec n e (spool_update name s' d' st)"
    using acc [of e] assms(3) by (cases "n = name") (auto simp: spooled_def look split: prod.splits)
  ultimately show ?thesis using settle_attempts [OF assms(4)] by simp
qed

lemma step_accounts:
  assumes "tasks_valid t" "dispatch_step lib codec i t = (t', log)" "\<And>ev p. co_encode codec ev = Inr p \<Longrightarrow> co_decode codec p = Some ev"
  shows "tasks_valid t' \<and> attempts n e log + spooled codec n e (tk_inner t) \<le> settled codec n e log + spooled codec n e (tk_inner t')"
proof -
  let ?st = "tk_inner t"
  have v: "spools_valid ?st" "\<forall>x \<in> set (di_sinks ?st). snd x = fst x"
    and pk: "tk_pending t = name # names \<Longrightarrow> tk_peeked t = Some entry \<Longrightarrow> intact name entry ?st" for name names entry
    using assms(1) by (auto simp: tasks_valid_def)
  have idle: ?thesis if "t' = t" "log = []" using that assms(1) by simp
  show ?thesis
  proof (cases i)
    case (In_Receive ev)
    then show ?thesis using assms(1,2) by (auto simp: tasks_valid_def split: option.splits)
  next
    case (In_Binding now now')
    show ?thesis
    proof (cases "\<exists>ev b bs. tk_event t = Some (ev, [], b # bs)")
      case True
      then obtain ev b bs where e: "tk_event t = Some (ev, [], b # bs)" by blast
      obtain okay st' where p: "binding_passes lib now now' b ev ?st = (okay, st')" by (cases "binding_passes lib now now' b ev ?st")
      have "t' = t\<lparr>tk_inner := st', tk_event := Some (ev, if okay then bi_sinks b else [], bs)\<rparr>" "log = []"
        using assms(2) by (auto simp: In_Binding e p)
      then show ?thesis using binding_passes_frame [OF p] assms(1)
        by (simp add: tasks_valid_def spools_valid_def intact_def spooled_def)
    next
      case False
      then show ?thesis using assms(1,2)
        by (auto simp: In_Binding tasks_valid_def split: option.splits list.splits prod.splits)
    qed
  next
    case (In_Deliver result flt)
    show ?thesis
    proof (cases "\<exists>ev sref srefs bs. tk_event t = Some (ev, sref # srefs, bs)")
      case True
      then obtain ev sref srefs bs where e: "tk_event t = Some (ev, sref # srefs, bs)" by blast
      obtain st' log' where p: "deliver_one codec flt result sref ev ?st = (st', log')" by (cases "deliver_one codec flt result sref ev ?st")
      have "t' = t\<lparr>tk_inner := st', tk_event := Some (ev, srefs, bs)\<rparr>" "log = log'"
        using assms(2) by (auto simp: In_Deliver e p)
      then show ?thesis using deliver_accounts [OF v p assms(3)] assms(1) by (simp add: tasks_valid_def)
    next
      case False
      then show ?thesis using idle assms(2) by (auto simp: In_Deliver split: option.splits list.splits prod.splits)
    qed
  next
    case In_Tick
    then show ?thesis using assms(1,2) by (auto simp: tasks_valid_def split: if_splits)
  next
    case (In_Peek flt)
    show ?thesis
    proof (cases "\<exists>name names s d entry. tk_pending t = name # names \<and> tk_peeked t = None \<and> map_of (di_sinks ?st) name \<noteq> None
        \<and> map_of (di_spools ?st) name = Some (s, d) \<and> peek flt d s = Inr (Some entry)")
      case True
      then obtain name names s d entry where p: "tk_pending t = name # names" "tk_peeked t = None" "map_of (di_sinks ?st) name \<noteq> None"
        "map_of (di_spools ?st) name = Some (s, d)" "peek flt d s = Inr (Some entry)" by blast
      have "t' = t\<lparr>tk_peeked := Some entry\<rparr>" "log = []" using assms(2) p by (auto simp: In_Peek)
      then show ?thesis using peek_intact [OF v(1) p(4,5)] v p(1) by (simp add: tasks_valid_def)
    next
      case False
      then have "t' = t \<or> (\<exists>names. t' = t\<lparr>tk_pending := names\<rparr> \<and> tk_peeked t = None)" "log = []"
        using assms(2) by (auto simp: In_Peek split: list.splits option.splits sum.splits prod.splits)
      then show ?thesis using assms(1) by (auto simp: tasks_valid_def)
    qed
  next
    case (In_Answer result flt)
    show ?thesis
    proof (cases "\<exists>name names entry sd. tk_pending t = name # names \<and> tk_peeked t = Some entry \<and> map_of (di_spools ?st) name = Some sd")
      case True
      then obtain name names entry sd where p: "tk_pending t = name # names" "tk_peeked t = Some entry" "map_of (di_spools ?st) name = Some sd" by blast
      obtain s' d' log' go_on where s: "settle codec flt result name entry sd = ((s', d'), log', go_on)"
        by (cases "settle codec flt result name entry sd") auto
      have "t' = t\<lparr>tk_inner := spool_update name s' d' ?st, tk_peeked := None, tk_pending := (if go_on then name # names else names)\<rparr>" "log = log'"
        using assms(2) p s by (auto simp: In_Answer)
      then show ?thesis using answer_accounts [OF v(1) pk [OF p(1,2)] p(3) s] v(2) by (simp add: tasks_valid_def spool_update_def)
    next
      case False
      then show ?thesis using assms(1,2) by (auto simp: In_Answer tasks_valid_def split: list.splits option.splits)
    qed
  qed
qed

lemma run_accounts:
  assumes "tasks_valid t" "dispatch_run lib codec is t = (t', log)" "\<And>ev p. co_encode codec ev = Inr p \<Longrightarrow> co_decode codec p = Some ev"
  shows "attempts n e log + spooled codec n e (tk_inner t) \<le> settled codec n e log + spooled codec n e (tk_inner t')"
  using assms(1,2)
proof (induction "is" arbitrary: t log)
  case (Cons i "is")
  obtain t1 log1 where s: "dispatch_step lib codec i t = (t1, log1)" by (cases "dispatch_step lib codec i t")
  obtain log2 where r: "dispatch_run lib codec is t1 = (t', log2)" "log = log1 @ log2"
    using Cons.prems(2) s by (auto split: prod.splits)
  have "tasks_valid t1" "attempts n e log1 + spooled codec n e (tk_inner t) \<le> settled codec n e log1 + spooled codec n e (tk_inner t1)"
    using step_accounts [OF Cons.prems(1) s assms(3)] by simp_all
  then show ?case using Cons.IH [OF _ r(1)] r(2) by simp
qed simp

lemma open_spools_exact:
  assumes "\<forall>n \<in> set names. canonical (disks n) \<and> u64_max \<notin> dom (bin (disks n))"
  shows "\<exists>spools. open_spools (\<lambda>_. no_faults) disks cfg names = Inr spools \<and> map fst spools = names
    \<and> (\<forall>(n, s, d) \<in> set spools. exact s d \<and> payloads s d = map (\<lambda>q. the (bin (disks n) q)) (live (disks n)))"
  using assms
proof (induction names)
  case (Cons n names)
  obtain spools where "open_spools (\<lambda>_. no_faults) disks cfg names = Inr spools" "map fst spools = names"
    "\<forall>(n, s, d) \<in> set spools. exact s d \<and> payloads s d = map (\<lambda>q. the (bin (disks n) q)) (live (disks n))"
    using Cons by auto
  moreover obtain s ops where "spool_open no_faults (disks n) (spool_path (dc_spool_root cfg) n) (dc_spool cfg) = (Inr s, ops)"
    "exact s (fs_run (disks n) ops)" "payloads s (fs_run (disks n) ops) = map (\<lambda>q. the (bin (disks n) q)) (live (disks n))"
    using reopen_exact [of "disks n" "spool_path (dc_spool_root cfg) n" "dc_spool cfg"] Cons.prems by auto
  ultimately show ?case by simp
qed simp

lemma spawned:
  assumes "\<forall>k \<in> fst ` set sinks. canonical (disks k) \<and> u64_max \<notin> dom (bin (disks k))" "\<forall>x \<in> set sinks. snd x = fst x" "n \<in> fst ` set sinks"
  obtains st where "dispatcher_new None (\<lambda>_. no_faults) disks bindings sinks cfg = Inr st" "tasks_valid (tasks_new st)"
    "spooled codec n e st = copies codec e (map (\<lambda>q. the (bin (disks n) q)) (live (disks n)))"
proof -
  obtain spools where o: "open_spools (\<lambda>_. no_faults) disks cfg (map fst sinks) = Inr spools" "map fst spools = map fst sinks"
    "\<forall>(n, s, d) \<in> set spools. exact s d \<and> payloads s d = map (\<lambda>q. the (bin (disks n) q)) (live (disks n))"
    using open_spools_exact [of "map fst sinks" disks cfg] assms(1) by auto
  define st where "st = \<lparr>di_bindings = bindings, di_sinks = sinks, di_dedupe_state = [], di_throttle_state = [], di_spools = spools, di_cfg = cfg\<rparr>"
  have "dispatcher_new None (\<lambda>_. no_faults) disks bindings sinks cfg = Inr st" by (simp add: dispatcher_new_def o(1) st_def)
  moreover have "tasks_valid (tasks_new st)"
    using o(3) assms(2) by (auto simp: tasks_valid_def tasks_new_def st_def spools_valid_def exact_def dest!: map_of_SomeD)
  moreover obtain s d where sd: "map_of spools n = Some (s, d)"
    using assms(3) o(2) by (metis list.set_map map_of_eq_None_iff option.exhaust surj_pair)
  then have "spooled codec n e st = copies codec e (map (\<lambda>q. the (bin (disks n) q)) (live (disks n)))"
    using o(3) by (fastforce simp: spooled_def st_def dest: map_of_SomeD)
  ultimately show ?thesis by (rule that)
qed

section \<open>Retries as a queue\<close>

text \<open>A drain on the list of payloads: in order, undecodable ones set aside, up to the first the sink cannot take now.\<close>

fun drained :: "('n, 't) Codec \<Rightarrow> (nat \<Rightarrow> answer) \<Rightarrow> nat \<Rightarrow> string \<Rightarrow> bytes list \<Rightarrow> bytes list \<times> ('n, 't) happening list" where
  "drained codec result i n [] = ([], [])"
| "drained codec result i n (p # ps) =
     (let (left, log) = drained codec result (i + 1) n ps in
      case co_decode codec p of
        None \<Rightarrow> (left, Quarantined n p # log)
      | Some ev \<Rightarrow>
          (case result i of
             Inr _ \<Rightarrow> (left, Delivered n ev # log)
           | Inl e \<Rightarrow> if is_retryable e then (p # ps, []) else (left, Rejected n ev # log)))"

lemma drained_accepted:
  assumes "\<And>i. result i = Inr ()"
  shows "drained codec result i n ps =
    ([], map (\<lambda>p. case co_decode codec p of None \<Rightarrow> Quarantined n p | Some ev \<Rightarrow> Delivered n ev) ps)"
  by (induction ps arbitrary: i) (simp_all add: assms split: option.splits)

lemma peek_readable:
  assumes "spool_valid sd" "\<And>f. ff_error flt (Fs_Read f) = None"
  shows "(sp_queue (fst sd) = [] \<and> peek flt (snd sd) (fst sd) = Inr None)
    \<or> (\<exists>entry qs. sp_queue (fst sd) = se_seq entry # qs \<and> peek flt (snd sd) (fst sd) = Inr (Some entry)
        \<and> payloads (fst sd) (snd sd) = se_payload entry # tl (payloads (fst sd) (snd sd)))"
proof -
  have p: "peek flt (snd sd) (fst sd) = peek no_faults (snd sd) (fst sd)"
    by (simp add: peek_def fs_read_def assms(2) Let_def split: list.splits)
  show ?thesis using peek_front(3) [OF assms(1)]
    by (cases "sp_queue (fst sd)") (simp_all add: p payloads_def)
qed

lemma store_left:
  assumes "spool_valid sd" "sp_queue (fst sd) = q # qs" "sd' = spool_take flt q sd \<or> sd' = spool_set_aside flt q sd"
  shows "spool_valid sd' \<and> payloads (fst sd') (snd sd') = tl (payloads (fst sd) (snd sd))"
proof -
  have "spool_entries sd \<noteq> [] \<and> fst (hd (spool_entries sd)) = q" using assms(2) by (simp add: spool_entries_def payloads_def)
  then have "spool_valid sd'" "spool_entries sd' = tl (spool_entries sd)"
    using assms(3) kept.take_law [OF assms(1), of flt q] aside.take_law [OF assms(1), of flt q] by auto
  then show ?thesis by (metis entries_snd map_tl)
qed

lemma drain_spool_drained:
  assumes "spool_valid sd" "\<And>i f. ff_error (flt i) (Fs_Read f) = None"
  shows "spool_valid (fst (drain_spool codec flt result i n sd))
    \<and> drained codec result i n (payloads (fst sd) (snd sd)) =
       (payloads (fst (fst (drain_spool codec flt result i n sd))) (snd (fst (drain_spool codec flt result i n sd))), snd (drain_spool codec flt result i n sd))"
  using assms(1)
proof (induction "length (sp_queue (fst sd))" arbitrary: sd i rule: less_induct)
  case less
  show ?case
  proof (cases "sp_queue (fst sd)")
    case Nil
    then show ?thesis using peek_readable [OF less.prems assms(2), of i] less.prems
      by (simp add: drain_spool.simps payloads_def)
  next
    case (Cons q qs)
    then obtain entry where pk: "peek (flt i) (snd sd) (fst sd) = Inr (Some entry)" "q = se_seq entry"
      "payloads (fst sd) (snd sd) = se_payload entry # tl (payloads (fst sd) (snd sd))"
      using peek_readable [OF less.prems assms(2), of i] by auto
    obtain sd' log go_on where s: "settle codec (flt i) (result i) n entry sd = (sd', log, go_on)"
      by (cases "settle codec (flt i) (result i) n entry sd") auto
    have unfold: "drain_spool codec flt result i n sd =
        (if go_on then let (sd'', log') = drain_spool codec flt result (i + 1) n sd' in (sd'', log @ log') else (sd', log))"
      by (subst drain_spool.simps) (simp add: pk(1) s)
    show ?thesis
    proof (cases go_on)
      case True
      then have front: "sd' = spool_take (flt i) q sd \<or> sd' = spool_set_aside (flt i) q sd"
        using s pk(2) by (auto simp: settle_store split: option.splits sum.splits if_splits)
      have "length (sp_queue (fst sd')) < length (sp_queue (fst sd))"
        using settle_shrinks [of "flt i" "snd sd" "fst sd" entry codec "flt i" "result i" n "fst sd'" "snd sd'" log] pk(1) s True by simp
      note ih = less.hyps [OF this, of "i + 1"]
      have left: "spool_valid sd'" "payloads (fst sd') (snd sd') = tl (payloads (fst sd) (snd sd))"
        using store_left [OF less.prems Cons front] by simp_all
      have "drained codec result i n (payloads (fst sd) (snd sd)) =
          (let (l, g) = drained codec result (i + 1) n (payloads (fst sd') (snd sd')) in (l, log @ g))"
        using s True by (subst pk(3)) (auto simp: settle_store left(2) split: option.splits sum.splits if_splits prod.splits)
      then show ?thesis using ih [OF left(1)] True
        by (cases "drain_spool codec flt result (Suc i) n sd'") (simp add: unfold)
    next
      case False
      then have "sd' = sd" "log = []" "\<exists>ev e. co_decode codec (se_payload entry) = Some ev \<and> result i = Inl e \<and> is_retryable e"
        using s by (auto simp: settle_store split: option.splits sum.splits if_splits)
      moreover from this have "drained codec result i n (se_payload entry # ps) = (se_payload entry # ps, [])" for ps
        by (auto split: prod.splits)
      ultimately show ?thesis using False less.prems pk(3) by (metis unfold fst_conv snd_conv)
    qed
  qed
qed

section \<open>Properties\<close>

text \<open>
  C6: No event is lost silently.  Let a dispatcher be spawned over the spool directories an earlier run left, with sinks registered
  under their own names, and let its two tasks run for any time, interleaved in any way, with any clock, any answers of the sinks
  and any failures of the file system.  For every sink and event, each time the event was handed to the sink, and each copy that
  was already spooled, is accounted for: it was delivered, was rejected for good, was dropped because it could not be spooled, was
  evicted to keep the spool in its bounds, or is still in the spool.  In particular an entry evicted while the sink was answering
  does not make the retry task remove another one.
\<close>

theorem events_accounted_for:
  assumes "\<And>ev p. co_encode codec ev = Inr p \<Longrightarrow> co_decode codec p = Some ev"
    and "\<forall>k \<in> fst ` set sinks. canonical (disks k) \<and> u64_max \<notin> dom (bin (disks k))" "\<forall>x \<in> set sinks. snd x = fst x"
    and "dispatcher_new None (\<lambda>_. no_faults) disks bindings sinks cfg = Inr st" "dispatch_run lib codec is (tasks_new st) = (t, log)"
    and "n \<in> fst ` set sinks"
  shows "attempts n e log + copies codec e (map (\<lambda>q. the (bin (disks n) q)) (live (disks n))) \<le> settled codec n e log + spooled codec n e (tk_inner t)"
proof -
  obtain st' where st': "dispatcher_new None (\<lambda>_. no_faults) disks bindings sinks cfg = Inr st'" "tasks_valid (tasks_new st' :: ('a, 'b) Tasks)"
    "spooled codec n e st' = copies codec e (map (\<lambda>q. the (bin (disks n) q)) (live (disks n)))"
    by (rule spawned [OF assms(2,3,6)])
  then have st: "tasks_valid (tasks_new st :: ('a, 'b) Tasks)" "spooled codec n e st = copies codec e (map (\<lambda>q. the (bin (disks n) q)) (live (disks n)))"
    using assms(4) by simp_all
  show ?thesis using run_accounts [OF st(1) assms(5,1), of n e] st(2) by (simp add: tasks_new_def)
qed

definition retry_event :: "(nat, nat) Event" where
  "retry_event =
     \<lparr>ev_id = ''e1'', ev_ts = 0, ev_kind = ''profile.down'', ev_severity = Sev_Error, ev_profile_id = Some ''p'',
      ev_forward_id = None, ev_session_id = None, ev_connection_id = None, ev_fields = [], ev_message = []\<rparr>"

definition retry_codec :: "(nat, nat) Codec" where
  "retry_codec =
     \<lparr>co_encode = (\<lambda>ev. if ev = retry_event then Inr [1] else Inl ''unsupported''),
      co_decode = (\<lambda>b. if b = [1] then Some retry_event else None)\<rparr>"

definition retry_lib :: "(nat, nat) EventLib" where
  "retry_lib = \<lparr>el_number_text = dec, el_value_text = (\<lambda>_. []), el_rfc3339 = dec\<rparr>"

definition retry_binding :: "nat Binding" where
  "retry_binding =
     binding_new ''all'' \<lparr>bm_kinds = [], bm_min_severity = None, bm_profile_filter = [], bm_forward_filter = [], bm_exprs = []\<rparr> [''hook'']"

definition retry_spool :: DiskSpool where
  "retry_spool = \<lparr>sp_dir = ''event-spool/hook'', sp_cfg = default_spool_config, sp_queue = [], sp_total_bytes = 0, sp_next_seq = 1\<rparr>"

definition retry_inner :: "nat DispatcherInner" where
  "retry_inner =
     \<lparr>di_bindings = [retry_binding], di_sinks = [(''hook'', ''hook'')], di_dedupe_state = [], di_throttle_state = [],
      di_spools = [(''hook'', retry_spool, [])], di_cfg = default_dispatcher_config\<rparr>"

lemma retry_codec_law: "co_encode retry_codec ev = Inr p \<Longrightarrow> co_decode retry_codec p = Some ev"
  by (auto simp: retry_codec_def split: if_splits)

lemma retry_new: "dispatcher_new None (\<lambda>_. no_faults) (\<lambda>_. []) [retry_binding] [(''hook'', ''hook'')] default_dispatcher_config = Inr retry_inner"
  by (simp add: dispatcher_new_def spool_open_def leftover_tmp_def listed_def retry_inner_def retry_spool_def
      default_dispatcher_config_def spool_path_def)

lemma retry_run:
  "dispatch_run retry_lib retry_codec [In_Receive retry_event, In_Binding 5 5, In_Deliver (Inr ()) no_faults] (tasks_new retry_inner) =
     ((tasks_new retry_inner)\<lparr>tk_event := Some (retry_event, [], [])\<rparr>, [Attempted ''hook'' retry_event, Delivered ''hook'' retry_event])"
  by (simp add: tasks_new_def retry_inner_def retry_binding_def binding_new_def binding_passes_def binding_matches_def allow_listed_def deliver_one_def)

theorem events_accounted_for_witness:
  "attempts ''hook'' retry_event [Attempted ''hook'' retry_event, Delivered ''hook'' retry_event] + 0 \<le>
     settled retry_codec ''hook'' retry_event [Attempted ''hook'' retry_event, Delivered ''hook'' retry_event]
       + spooled retry_codec ''hook'' retry_event retry_inner"
  using events_accounted_for [of retry_codec "[(''hook'', ''hook'')]" "\<lambda>_. []" "[retry_binding]" default_dispatcher_config retry_inner retry_lib
      "[In_Receive retry_event, In_Binding 5 5, In_Deliver (Inr ()) no_faults]"
      "(tasks_new retry_inner)\<lparr>tk_event := Some (retry_event, [], [])\<rparr>"
      "[Attempted ''hook'' retry_event, Delivered ''hook'' retry_event]" "''hook''" retry_event, OF retry_codec_law _ _ retry_new retry_run]
  by (simp add: canonical_def bin_def tasks_new_def)

text \<open>
  C29: Retries keep the order.  When the files of a spool can be read, \<open>drain_spool\<close> works through the entries from the oldest on,
  whatever else fails: it sets those aside that cannot be decoded, drops those the sink rejects for good, and stops at the first one
  the sink cannot take now, which keeps its place with everything behind it.  When the sink accepts everything, the spool is left
  empty, with every event delivered, in the order they were spooled.
\<close>

theorem retry_in_order:
  assumes "stored s d" "\<And>i f. ff_error (flt i) (Fs_Read f) = None" "drain_spool codec flt result 0 n (s, d) = ((s', d'), log)"
  shows "drained codec result 0 n (payloads s d) = (payloads s' d', log) \<and> stored s' d'
    \<and> ((\<forall>i. result i = Inr ()) \<longrightarrow>
        sp_queue s' = [] \<and> log = map (\<lambda>p. case co_decode codec p of None \<Rightarrow> Quarantined n p | Some ev \<Rightarrow> Delivered n ev) (payloads s d))"
  using drain_spool_drained [of "(s, d)" flt codec result 0 n] drained_accepted [of result codec 0 n "payloads s d"] assms
  by (auto simp: payloads_def)

definition retry_full :: DiskSpool where
  "retry_full = retry_spool\<lparr>sp_queue := [1, 2], sp_total_bytes := 2, sp_next_seq := 3\<rparr>"

definition retry_disk :: disk where
  "retry_disk = [(path_for 1, [1]), (path_for 2, [2])]"

lemma retry_stored: "stored retry_full retry_disk"
  by (simp add: stored_def retry_full_def retry_disk_def retry_spool_def bin_def path_for_inj u64_max_def)

lemma retry_payloads: "payloads retry_full retry_disk = [[1], [2]]"
  by (simp add: payloads_def retry_full_def retry_disk_def retry_spool_def bin_def path_for_inj u64_max_def)

theorem retry_in_order_witness:
  "snd (drain_spool retry_codec (\<lambda>_. no_faults) (\<lambda>_. Inr ()) 0 ''hook'' (retry_full, retry_disk)) =
     [Delivered ''hook'' retry_event, Quarantined ''hook'' [2]]"
proof -
  obtain sd log where r: "drain_spool retry_codec (\<lambda>_. no_faults) (\<lambda>_. Inr ()) 0 ''hook'' (retry_full, retry_disk) = (sd, log)"
    by (rule prod.exhaust)
  then have "drain_spool retry_codec (\<lambda>_. no_faults) (\<lambda>_. Inr ()) 0 ''hook'' (retry_full, retry_disk) = ((fst sd, snd sd), log)"
    by simp
  from conjunct2 [OF conjunct2 [OF retry_in_order [OF retry_stored _ this]]]
  have "log = map (\<lambda>p. case co_decode retry_codec p of None \<Rightarrow> Quarantined ''hook'' p | Some ev \<Rightarrow> Delivered ''hook'' ev) [[1], [2]]"
    unfolding retry_payloads by simp
  then show ?thesis unfolding r by (simp add: retry_codec_def)
qed

lemma suppressed_stops:
  assumes "binding_matches lib (bi_match b) ev" "bi_dedupe b = Some dd" "fst (should_suppress lib now dd ev (di_dedupe_state st))"
  shows "\<not> fst (binding_passes lib now now' b ev st)"
  using assms by (cases "should_suppress lib now dd ev (di_dedupe_state st)") (simp add: binding_passes_def)

text \<open>
  C40: Bindings share their deduplication.  Take two bindings that deduplicate by the same fields, on a dispatcher that has seen
  nothing.  Each of them passes an event it matches.  But once the first has passed it, the second one suppresses that same event
  within its window, so that its sinks never get it.
\<close>

theorem dedupe_shared_between_bindings:
  assumes "binding_matches lib (bi_match b1) ev" "binding_matches lib (bi_match b2) ev" "di_dedupe_state st = []" "di_throttle_state st = []"
    and "bi_dedupe b1 = Some d1" "bi_dedupe b2 = Some d2" "dd_key_fields d2 = dd_key_fields d1" "now \<le> now2" "now2 - now < dd_interval d2"
  shows "fst (binding_passes lib now now b1 ev st) \<and> fst (binding_passes lib now now b2 ev st)
    \<and> \<not> fst (binding_passes lib now2 now2 b2 ev (snd (binding_passes lib now now b1 ev st)))"
proof -
  have fresh: "\<not> fst (should_suppress lib now dd ev [])" for dd by (simp add: should_suppress_def)
  have pass: "fst (binding_passes lib now now b ev st)" if "binding_matches lib (bi_match b) ev" for b
    using that fresh assms(3,4)
    by (auto simp: binding_passes_def allow_def Let_def split: option.splits prod.splits) (metis fst_conv)+
  have "di_dedupe_state (snd (binding_passes lib now now b1 ev st)) = snd (should_suppress lib now d1 ev [])"
    using assms(1,3,5) by (auto simp: binding_passes_def Let_def split: option.splits prod.splits)
  moreover have "fst (should_suppress lib now2 d2 ev (snd (should_suppress lib now d1 ev [])))"
    by (rule recorded_suppresses [OF fresh assms(8,9)]) (simp add: assms(7))
  ultimately have "\<not> fst (binding_passes lib now2 now2 b2 ev (snd (binding_passes lib now now b1 ev st)))"
    by (intro suppressed_stops [OF assms(2,6)]) simp
  then show ?thesis using pass assms(1,2) by auto
qed

theorem dedupe_shared_between_bindings_witness:
  "\<not> fst (binding_passes retry_lib 7 7 (retry_binding\<lparr>bi_name := ''second'', bi_dedupe := Some default_dedupe\<rparr>) retry_event
     (snd (binding_passes retry_lib 5 5 (retry_binding\<lparr>bi_dedupe := Some default_dedupe\<rparr>) retry_event retry_inner)))"
  using dedupe_shared_between_bindings [of retry_lib "retry_binding\<lparr>bi_dedupe := Some default_dedupe\<rparr>" retry_event
      "retry_binding\<lparr>bi_name := ''second'', bi_dedupe := Some default_dedupe\<rparr>" retry_inner default_dedupe default_dedupe 5 7]
  by (simp add: retry_binding_def binding_new_def binding_matches_def allow_listed_def retry_inner_def default_dedupe_def from_secs_def)

end
