(* ===== verification/Spec2Isabelle.thy ===== *)
theory Spec2Isabelle
  imports Profile_Properties Profile_Failover Udp_Flows Bidir_Copy Snmp_Properties Host_Trust Orchestrator Ssh3_Session Dynamic_Proxy Event_Template Event_Dispatch
begin

text \<open>
  Verification of \<open>ssh-perma-tunnel\<close> (\<open>spt\<close>), a daemon that keeps SSH tunnels up.

  \<^bold>\<open>The program.\<close>  A configuration names profiles.  The orchestrator runs one supervisor task per profile and reconciles the running
  tasks with a reloaded configuration.  A supervisor resolves and picks an endpoint, connects through a backend (SSH2 or SSH3 over
  QUIC) that first decides whether to trust the host key, opens the forwards of the profile, holds the session, and reconnects with
  backoff when it is lost.  A forward accepts connections under limits and an access list and copies bytes in both directions;
  dynamic forwards speak SOCKS and HTTP CONNECT to the client and open a channel to a target the destination policy permits.  An
  SNMPv3 agent answers queries about the daemon, and an event dispatcher sends notifications to sinks and keeps on disk what a sink
  could not take.

  \<^bold>\<open>Conventions.\<close>  Definitions keep the names of the source and are translated from it; paths below are relative to
  \<open>src/crates/\<close>.  A struct is a record, an enum a datatype, an asynchronous task a transition function over the points where it
  waits, and tasks that run concurrently a function or relation on their joint state with one step per atomic section.  Clock
  readings, random draws, what the network and the file system do, and the results of backends are inputs of the steps.  Failing
  code returns \<open>Inl\<close> of an error; a panic (an \<open>unwrap\<close>, an arithmetic overflow, an index out of range) is an outcome of its own, so
  that its absence can be stated.  Strings are the bytes of their UTF-8 text.  Third-party code is a record of functions or an
  argument: the key parser and HMAC (\<open>KeyLib\<close>), IP networks (\<open>NetLib\<close>), hashes and ciphers of SNMP, the JSON codec (\<open>Codec\<close>), and
  the printing of JSON numbers and time stamps (\<open>EventLib\<close>); what a theorem needs of them is a hypothesis.

  \<^bold>\<open>Shared theories.\<close>  \<open>Prelude\<close>: time, saturating arithmetic, list lemmas.  \<open>Std_Text\<close>, \<open>Std_Strings\<close>, \<open>Utf8\<close>, \<open>Byte_Strings\<close>,
  \<open>Byte_Streams\<close>: the parts of the Rust standard library the program prints, parses and reads with.  \<open>Core_Errors\<close>: the error
  enumeration, its diagnostics and exit codes (\<open>spt-core/src/error.rs\<close>, \<open>diagnostic.rs\<close>, \<open>exit_code.rs\<close>).  \<open>Protocol_Types\<close> and
  \<open>Forward_Config\<close>: endpoints, forward specifications and the forward table (\<open>spt-protocol/src\<close>, \<open>spt-config/src/schema.rs\<close>).

  \<^bold>\<open>Supervisor\<close> (\<open>spt-supervisor/src\<close>).
  \<^item> \<open>State_Machine\<close>: \<open>ProfileStateMachine::step\<close> (\<open>state_machine.rs\<close>) and the paths through it.
  \<^item> \<open>Backoff\<close> (\<open>reconnect.rs\<close>): ceiling, jitter and their bounds.
  \<^item> \<open>Instability\<close> (\<open>instability.rs\<close>): the sliding window with its percentile; it refines the history of all disconnects.
  \<^item> \<open>Policy_Selectors\<close> (\<open>round_robin.rs\<close>): five selection policies behind one interface, the locale \<open>endpoint_policy\<close>, interpreted
    for each of them and for the factory's sum of them.  \<open>Failover\<close> (\<open>failover.rs\<close>): cooldowns, overrides and delegation to a policy.
  \<^item> \<open>Session_Registry\<close> (\<open>session.rs\<close>): the rows of live sessions.
  \<^item> \<open>Profile_Task\<close> (\<open>profile.rs\<close>, \<open>control.rs\<close>): the run loop of a supervisor as one transition function.  \<open>Profile_Frames\<close> says what
    each helper leaves alone, \<open>Profile_Invariants\<close> and \<open>Profile_Runs\<close> prove the invariants over all runs, \<open>Profile_Demo\<close> holds a
    small instance.  \<open>Profile_Properties\<close>: the published state is the machine's, sessions never leak or overlap, a stop request always
    works, credentials go to their endpoint, the attempt budget is exact, error classes are as documented.  \<open>Profile_Failover\<close>: the
    task drives its selector only through the selector's operations, so the selector's facts carry over.
  \<^item> \<open>Reload_Plan\<close> (\<open>reload.rs\<close>) and \<open>Orchestrator\<close> (\<open>orchestrator.rs\<close>): a reload converges to the new configuration, no task survives a
    shutdown however operations interleave, and every set of operations terminates.

  \<^bold>\<open>Forwards\<close> (\<open>spt-forward/src\<close>, \<open>spt-net/src/cidr.rs\<close>, \<open>spt-ssh2/src\<close>).
  \<^item> \<open>Rate_Limits\<close> (\<open>limits.rs\<close>): token bucket and gates; the locale \<open>meter\<close>, interpreted for the byte bucket and for the connection
    gate, bounds what any window of requests is granted.  \<open>Access_Control\<close> (\<open>acl.rs\<close>, \<open>cidr.rs\<close>) and \<open>Accept_Loop\<close> (\<open>local_tcp.rs\<close>):
    who is let in, and how many at once.  \<open>Udp_Flows\<close> (\<open>udp.rs\<close>, \<open>udp_ssh2.rs\<close>): the flow table with concurrent inserts.
  \<^item> \<open>Bidir_Copy\<close> (\<open>bidir.rs\<close>): both directions with throttles and idle watchdog; what is written is a prefix of what was read, and all of
    it when the copy ends by itself.
  \<^item> \<open>Target_Acl\<close> (\<open>target_acl.rs\<close>), \<open>Ip_Text\<close> and \<open>Dynamic_Proxy\<close> (\<open>dynamic.rs\<close>, \<open>russh_backend.rs\<close>): the destination policy decides the
    language of its patterns whatever the spelling of an address, the proxy handshakes read what clients encode, and a dynamic
    forward opens at most one channel, to a permitted target.

  \<^bold>\<open>Host trust\<close> (\<open>spt-trust/src\<close>, \<open>spt-ssh2/src/hostkey.rs\<close>).  \<open>Known_Hosts\<close>: parser, index, verdicts and writer; the index refines a
  scan of the file.  \<open>Host_Trust\<close>: exactly which keys are accepted, what trust on first use records, and that it does not take
  effect in the running verifier.

  \<^bold>\<open>SSH3\<close> (\<open>spt-ssh3/src\<close>).  \<open>Ssh3_Frame\<close> (\<open>frame.rs\<close>) and \<open>Ssh3_H3\<close> (\<open>h3_raw.rs\<close>): codecs with round trips and without panics.
  \<open>Ssh3_Server\<close> (\<open>transport.rs\<close>, \<open>server.rs\<close>): both ends of the CONNECT and of an open request agree.  \<open>Ssh3_Session\<close> (\<open>session.rs\<close>,
  \<open>forward.rs\<close>): inbound forwards as interleaved steps; permits are neither exceeded nor lost.

  \<^bold>\<open>SNMP agent\<close> (\<open>spt-snmp/src\<close>).  \<open>Snmp_Ber\<close>, \<open>Snmp_Pdu\<close>, \<open>Snmp_Message\<close>: the wire format; the locale \<open>codec\<close>, interpreted for every
  encoder and decoder pair, carries the round trips.  \<open>Snmp_Usm\<close> (\<open>usm.rs\<close>, \<open>engine.rs\<close>), \<open>Snmp_Mib\<close> (\<open>mib.rs\<close>), \<open>Snmp_Agent\<close> (\<open>agent.rs\<close>)
  and \<open>Snmp_Properties\<close>: only genuine requests are served, replies verify at the peer, a walk is complete.

  \<^bold>\<open>Events\<close> (\<open>spt-events/src\<close>, \<open>spt-state/src/spool.rs\<close>).
  \<^item> \<open>Event_Spool\<close> (\<open>spool.rs\<close>): \<open>DiskSpool\<close> on a directory whose calls may fail; it refines a bounded queue, and a crash at any point of
    a push, torn writes included, loses nothing that was not to leave.
  \<^item> \<open>Event_Bindings\<close> (\<open>event.rs\<close>, \<open>binding.rs\<close>): matching, deduplication and throttling.  \<open>Event_Template\<close> (\<open>template.rs\<close>): substitution, and
    that escaped values are read back as the value and never as structure.
  \<^item> \<open>Event_Dispatch\<close> (\<open>dispatcher.rs\<close>): the dispatching and the retry task as interleaved steps over the spools, which they use through
    the locale \<open>entry_store\<close>, interpreted for removal and for quarantine.  Every event handed to a sink is accounted for; retries
    keep the order; deduplication is shared between bindings.

  \<^bold>\<open>Bounds and fuel.\<close>  Nearly all loops are total functions with a measure: the bytes left to parse, the entries of a queue, the
  characters of a text.  Two loops take fuel, and theorems show it suffices: \<open>acquire_loop\<close> of the token bucket ends for every
  sequence of timer delays (\<open>acquire_completes\<close>), and \<open>glob_loop\<close> of the destination policy, whose caller passes a number that
  \<open>glob_measure\<close> bounds, always decides its pattern.  \<open>extend_key\<close> and \<open>default_table_get\<close> are \<open>partial_function\<close>s, with lemmas that
  they return where they are used.  Machine integers are words, or natural numbers with the limit of their width written out.

  \<^bold>\<open>Not modelled.\<close>  Sockets, TLS, QUIC and SSH transports, cryptography, the event bus and the individual sinks, operating system
  services (service managers, firewall, memory protection, mounts), the command line, terminal interface and status server, since
  they are I/O, declarations, or code of other projects.  Of the configuration only what the modelled parts read is modelled, not
  its validation and rendering.  The DNS server, the FTP translator, the updater, statistics, the UDP relay of SSH3, the SNMP trap
  sender and the remaining forward runners have logic of their own that no modelled part depends on; they are outside this library.
\<close>

end
